(* ===== verification/Prelude.thy ===== *)
theory Prelude
  imports Main "HOL-Library.Word"
begin

text \<open>
  Shared vocabulary of the development: the collections of facts the component theories fill,
  the machine-level types of the server (\<^verbatim>\<open>int32\<close>, \<^verbatim>\<open>unsigned\<close>, \<^verbatim>\<open>Byte\<close>), C characters and
  strings, and generic facts on lists and options.

  A C string is a \<open>char list\<close> without the terminating NUL; \<open>cstring\<close> says that no NUL occurs
  inside it. Where the code compares \<^verbatim>\<open>*s\<close> with \<^verbatim>\<open>'\0'\<close> the model compares the list with \<open>[]\<close>.
\<close>

named_theorems list_op_defs  \<comment> \<open>definitions of the list operations of list.c\<close>
named_theorems pack_defs     \<comment> \<open>definitions of the package constructors of functions.c\<close>

type_synonym int32 = "32 word"
type_synonym unsigned = "32 word"
type_synonym byte = "8 word"
type_synonym objid = int

section \<open>Characters\<close>

definition ch :: "char \<Rightarrow> nat" where
  "ch c = of_char c"

lemma ch_less: "ch c < 256"
  by (simp add: ch_def nat_of_char_less_256)

lemma ch_inj [simp]: "ch c = ch d \<longleftrightarrow> c = d"
  by (simp add: ch_def)

lemma ch_char_of [simp]: "n < 256 \<Longrightarrow> ch (char_of n) = n"
  by (simp add: ch_def)

lemma char_of_ch [simp]: "char_of (ch c) = c"
  by (simp add: ch_def)

text \<open>A plain \<^verbatim>\<open>char\<close> is signed on the platforms the server is built for.\<close>

definition schar :: "char \<Rightarrow> int" where
  "schar c = (if ch c < 128 then int (ch c) else int (ch c) - 256)"

lemma schar_inj [simp]: "schar c = schar d \<longleftrightarrow> c = d"
proof
  assume "schar c = schar d"
  then have "ch c = ch d"
    using ch_less [of c] ch_less [of d] unfolding schar_def by (simp split: if_splits)
  then show "c = d" by simp
qed simp

declare ch_less [simp]

definition cstring :: "string \<Rightarrow> bool" where
  "cstring s \<longleftrightarrow> CHR 0x00 \<notin> set s"

lemma cstring_simps [simp]:
  "cstring []" "cstring (c # s) \<longleftrightarrow> c \<noteq> CHR 0x00 \<and> cstring s"
  "cstring (s @ t) \<longleftrightarrow> cstring s \<and> cstring t"
  by (auto simp: cstring_def)

text \<open>\<^verbatim>\<open>isgraph\<close>, \<^verbatim>\<open>isdigit\<close>, \<^verbatim>\<open>isspace\<close> and \<^verbatim>\<open>toupper\<close> of the C locale.\<close>

definition isgraph :: "char \<Rightarrow> bool" where
  "isgraph c \<longleftrightarrow> 33 \<le> ch c \<and> ch c \<le> 126"

definition isdigit :: "char \<Rightarrow> bool" where
  "isdigit c \<longleftrightarrow> 48 \<le> ch c \<and> ch c \<le> 57"

definition isspace :: "char \<Rightarrow> bool" where
  "isspace c \<longleftrightarrow> ch c = 32 \<or> (9 \<le> ch c \<and> ch c \<le> 13)"

definition toupper :: "char \<Rightarrow> char" where
  "toupper c = (if 97 \<le> ch c \<and> ch c \<le> 122 then char_of (ch c - 32) else c)"

section \<open>Lists\<close>

lemma take_Suc_nth: "i < length xs \<Longrightarrow> take (Suc i) xs = take i xs @ [xs ! i]"
  by (rule take_Suc_conv_app_nth)

lemma nth_split: "i < length xs \<Longrightarrow> xs = take i xs @ xs ! i # drop (Suc i) xs"
  by (rule id_take_nth_drop)

section \<open>Signed 32-bit values\<close>

abbreviation INT_MIN :: int32 where
  "INT_MIN \<equiv> 0x80000000"

abbreviation INT_MAX :: int32 where
  "INT_MAX \<equiv> 0x7FFFFFFF"

lemma sint_INT_MIN: "sint INT_MIN = - 2147483648"
  by simp

lemma sint32_range: "- 2147483648 \<le> sint (w :: int32)" "sint (w :: int32) < 2147483648"
  using sint_ge [of w] sint_lt [of w] by simp_all

lemma sint32_of_int:
  "- 2147483648 \<le> i \<Longrightarrow> i < 2147483648 \<Longrightarrow> sint (word_of_int i :: int32) = i"
  by (subst signed_of_int) (simp add: signed_take_bit_int_eq_self)

lemma sint32_of_nat: "n < 2147483648 \<Longrightarrow> sint (of_nat n :: int32) = int n"
  using sint32_of_int [of "int n"] by simp

end
