(* ===== verification/Doubles.thy ===== *)
theory Doubles
  imports Prelude
begin

text \<open>
  The C type \<^verbatim>\<open>double\<close>: IEEE 754 binary64 values as their 64-bit patterns, with the
  operations the server applies to them (comparison, the four operations rounded to nearest even,
  \<^verbatim>\<open>fmod\<close>, \<^verbatim>\<open>fabs\<close>, \<^verbatim>\<open>floor\<close>, \<^verbatim>\<open>ceil\<close>, conversion from and to \<^verbatim>\<open>int\<close>) computed exactly on
  integers and rounded once.  This theory models the language, not a file of the server; the macro
  \<^verbatim>\<open>IS_REAL\<close> of my-math.h is \<open>IS_REAL\<close>.
\<close>

unbundle bit_operations_syntax

type_synonym double = "64 word"

section \<open>Fields and classes\<close>

definition dbl_sign :: "double \<Rightarrow> bool" where
  "dbl_sign d = bit d 63"

definition dbl_mag :: "double \<Rightarrow> int" where
  "dbl_mag d = uint (d AND mask 63)"

definition dbl_expo :: "double \<Rightarrow> int" where
  "dbl_expo d = dbl_mag d div 2 ^ 52"

definition dbl_frac :: "double \<Rightarrow> int" where
  "dbl_frac d = dbl_mag d mod 2 ^ 52"

definition dbl_is_nan :: "double \<Rightarrow> bool" where
  "dbl_is_nan d \<longleftrightarrow> dbl_expo d = 2047 \<and> dbl_frac d \<noteq> 0"

definition dbl_is_inf :: "double \<Rightarrow> bool" where
  "dbl_is_inf d \<longleftrightarrow> dbl_expo d = 2047 \<and> dbl_frac d = 0"

definition dbl_is_zero :: "double \<Rightarrow> bool" where
  "dbl_is_zero d \<longleftrightarrow> dbl_mag d = 0"

definition dbl_make :: "bool \<Rightarrow> int \<Rightarrow> double" where
  "dbl_make s mag = (if s then push_bit 63 1 else 0) OR word_of_int mag"

definition dbl_inf :: "bool \<Rightarrow> double" where
  "dbl_inf s = dbl_make s (2047 * 2 ^ 52)"

definition dbl_nan :: double where
  "dbl_nan = dbl_make False (2047 * 2 ^ 52 + 2 ^ 51)"

text \<open>A finite double is \<open>\<plusminus> dbl_mant d * 2 ^ dbl_exp2 d\<close>.\<close>

definition dbl_mant :: "double \<Rightarrow> int" where
  "dbl_mant d = (if dbl_expo d = 0 then dbl_frac d else 2 ^ 52 + dbl_frac d)"

definition dbl_exp2 :: "double \<Rightarrow> int" where
  "dbl_exp2 d = max 1 (dbl_expo d) - 1075"

definition IS_REAL :: "double \<Rightarrow> bool" where
  "IS_REAL d \<longleftrightarrow> dbl_expo d \<noteq> 2047"

section \<open>Comparison\<close>

text \<open>The patterns of non-negative doubles are ordered as the values are.\<close>

definition dbl_key :: "double \<Rightarrow> int" where
  "dbl_key d = (if dbl_sign d then - dbl_mag d else dbl_mag d)"

definition dbl_eq :: "double \<Rightarrow> double \<Rightarrow> bool" where
  "dbl_eq a b \<longleftrightarrow> \<not> dbl_is_nan a \<and> \<not> dbl_is_nan b \<and> dbl_key a = dbl_key b"

definition dbl_lt :: "double \<Rightarrow> double \<Rightarrow> bool" where
  "dbl_lt a b \<longleftrightarrow> \<not> dbl_is_nan a \<and> \<not> dbl_is_nan b \<and> dbl_key a < dbl_key b"

section \<open>Rounding\<close>

function bitlen :: "int \<Rightarrow> int" where
  "bitlen n = (if n \<le> 0 then 0 else 1 + bitlen (n div 2))"
  by pat_completeness auto
termination
  by (relation "measure nat") auto

declare bitlen.simps [simp del]

text \<open>
  \<open>dbl_round s m e sticky\<close>: the double nearest to \<open>\<plusminus> m * 2 ^ e\<close>, ties to even;
  \<open>sticky\<close> says that the exact value lies strictly between \<open>m\<close> and \<open>m + 1\<close> units.
\<close>

definition dbl_round :: "bool \<Rightarrow> int \<Rightarrow> int \<Rightarrow> bool \<Rightarrow> double" where
  "dbl_round s m e sticky =
     (let e2 = max (e + bitlen m - 53) (- 1074);
          sh = e2 - e;
          q = (if sh \<le> 0 then m * 2 ^ nat (- sh) else m div 2 ^ nat sh);
          r = (if sh \<le> 0 then 0 else m mod 2 ^ nat sh);
          half = (if sh \<le> 0 then 0 else 2 ^ (nat sh - 1));
          up = (0 < sh \<and> (half < r \<or> r = half \<and> (sticky \<or> odd q)));
          q' = (if up then q + 1 else q);
          mag = (e2 + 1074) * 2 ^ 52 + q'
      in if q' = 0 then dbl_make s 0
         else if 2047 * 2 ^ 52 \<le> mag then dbl_inf s else dbl_make s mag)"

section \<open>Arithmetic\<close>

definition dbl_neg :: "double \<Rightarrow> double" where
  "dbl_neg d = d XOR push_bit 63 1"

definition dbl_fabs :: "double \<Rightarrow> double" where
  "dbl_fabs d = d AND mask 63"

text \<open>The exact signed integer \<open>\<plusminus> mant * 2 ^ (exp2 - e)\<close>, for \<open>e \<le> exp2\<close>.\<close>

definition dbl_scaled :: "double \<Rightarrow> int \<Rightarrow> int" where
  "dbl_scaled d e = (if dbl_sign d then -1 else 1) * dbl_mant d * 2 ^ nat (dbl_exp2 d - e)"

definition dbl_add :: "double \<Rightarrow> double \<Rightarrow> double" where
  "dbl_add a b =
     (if dbl_is_nan a \<or> dbl_is_nan b then dbl_nan
      else if dbl_is_inf a then (if dbl_is_inf b \<and> dbl_sign a \<noteq> dbl_sign b then dbl_nan else a)
      else if dbl_is_inf b then b
      else let e = min (dbl_exp2 a) (dbl_exp2 b); v = dbl_scaled a e + dbl_scaled b e
           in if v = 0 then dbl_make (dbl_sign a \<and> dbl_sign b) 0
              else dbl_round (v < 0) \<bar>v\<bar> e False)"

definition dbl_sub :: "double \<Rightarrow> double \<Rightarrow> double" where
  "dbl_sub a b = dbl_add a (dbl_neg b)"

definition dbl_mul :: "double \<Rightarrow> double \<Rightarrow> double" where
  "dbl_mul a b =
     (let s = (dbl_sign a \<noteq> dbl_sign b) in
      if dbl_is_nan a \<or> dbl_is_nan b then dbl_nan
      else if dbl_is_inf a then (if dbl_is_zero b then dbl_nan else dbl_inf s)
      else if dbl_is_inf b then (if dbl_is_zero a then dbl_nan else dbl_inf s)
      else dbl_round s (dbl_mant a * dbl_mant b) (dbl_exp2 a + dbl_exp2 b) False)"

definition dbl_div :: "double \<Rightarrow> double \<Rightarrow> double" where
  "dbl_div a b =
     (let s = (dbl_sign a \<noteq> dbl_sign b) in
      if dbl_is_nan a \<or> dbl_is_nan b then dbl_nan
      else if dbl_is_inf a then (if dbl_is_inf b then dbl_nan else dbl_inf s)
      else if dbl_is_inf b then dbl_make s 0
      else if dbl_is_zero b then (if dbl_is_zero a then dbl_nan else dbl_inf s)
      else let n = dbl_mant a * 2 ^ 110; d = dbl_mant b
           in dbl_round s (n div d) (dbl_exp2 a - 110 - dbl_exp2 b) (n mod d \<noteq> 0))"

text \<open>\<^verbatim>\<open>fmod\<close> is exact: the remainder of the two values scaled to a common exponent.\<close>

definition dbl_fmod :: "double \<Rightarrow> double \<Rightarrow> double" where
  "dbl_fmod a b =
     (if dbl_is_nan a \<or> dbl_is_nan b \<or> dbl_is_inf a \<or> dbl_is_zero b then dbl_nan
      else if dbl_is_inf b then a
      else let e = min (dbl_exp2 a) (dbl_exp2 b);
               r = \<bar>dbl_scaled a e\<bar> mod \<bar>dbl_scaled b e\<bar>
           in dbl_round (dbl_sign a) r e False)"

section \<open>Conversions and integral values\<close>

definition dbl_of_int :: "int \<Rightarrow> double" where
  "dbl_of_int i = dbl_round (i < 0) \<bar>i\<bar> 0 False"

text \<open>Truncation towards zero of a finite double, as the cast to \<^verbatim>\<open>int\<close> does.\<close>

definition dbl_trunc_int :: "double \<Rightarrow> int" where
  "dbl_trunc_int d =
     (let m = (if 0 \<le> dbl_exp2 d then dbl_mant d * 2 ^ nat (dbl_exp2 d)
                   else dbl_mant d div 2 ^ nat (- dbl_exp2 d))
      in if dbl_sign d then - m else m)"

definition dbl_is_integral :: "double \<Rightarrow> bool" where
  "dbl_is_integral d \<longleftrightarrow>
     0 \<le> dbl_exp2 d \<or> dbl_mant d mod 2 ^ nat (- dbl_exp2 d) = 0"

definition dbl_floor :: "double \<Rightarrow> double" where
  "dbl_floor d =
     (if \<not> IS_REAL d \<or> dbl_is_integral d then d
      else let t = (if dbl_sign d then dbl_trunc_int d - 1 else dbl_trunc_int d)
           in dbl_round (dbl_sign d) \<bar>t\<bar> 0 False)"

definition dbl_ceil :: "double \<Rightarrow> double" where
  "dbl_ceil d =
     (if \<not> IS_REAL d \<or> dbl_is_integral d then d
      else let t = (if dbl_sign d then dbl_trunc_int d else dbl_trunc_int d + 1)
           in dbl_round (dbl_sign d) \<bar>t\<bar> 0 False)"

section \<open>Facts on comparison\<close>

lemma dbl_nan_or_real: "IS_REAL d \<Longrightarrow> \<not> dbl_is_nan d"
  by (simp add: IS_REAL_def dbl_is_nan_def)

lemma dbl_eq_refl: "\<not> dbl_is_nan d \<Longrightarrow> dbl_eq d d"
  by (simp add: dbl_eq_def)

lemma dbl_eq_sym: "dbl_eq a b \<longleftrightarrow> dbl_eq b a"
  by (auto simp: dbl_eq_def)

lemma dbl_eq_trans: "dbl_eq a b \<Longrightarrow> dbl_eq b c \<Longrightarrow> dbl_eq a c"
  by (auto simp: dbl_eq_def)

lemma dbl_trichotomy:
  "IS_REAL a \<Longrightarrow> IS_REAL b \<Longrightarrow> dbl_lt a b \<or> dbl_eq a b \<or> dbl_lt b a"
  by (auto simp: dbl_lt_def dbl_eq_def dest!: dbl_nan_or_real)

lemma dbl_lt_asym: "dbl_lt a b \<Longrightarrow> \<not> dbl_lt b a \<and> \<not> dbl_eq a b"
  by (auto simp: dbl_lt_def dbl_eq_def)

lemma dbl_lt_trans: "dbl_lt a b \<Longrightarrow> dbl_lt b c \<Longrightarrow> dbl_lt a c"
  by (auto simp: dbl_lt_def)

end
