(* ===== verification/Values.thy ===== *)
theory Values
  imports Doubles
begin

text \<open>
  The data of structures.h: the \<^verbatim>\<open>enum error\<close> and the tagged union \<^verbatim>\<open>struct Var\<close>, with the names and
  messages of unparse.c for the errors and the \<^verbatim>\<open>package\<close> type of functions.h that a built-in
  function returns.  Reference counts are not part of a value: lists, strings and floats are
  immutable for the programs that hold them, and the code copies before it writes to a shared one.
\<close>

section \<open>Errors\<close>

datatype error =
  E_NONE | E_TYPE | E_DIV | E_PERM | E_PROPNF | E_VERBNF | E_VARNF | E_INVIND
| E_RECMOVE | E_MAXREC | E_RANGE | E_ARGS | E_NACC | E_INVARG | E_QUOTA | E_FLOAT

definition all_errors :: "error list" where
  "all_errors = [E_NONE, E_TYPE, E_DIV, E_PERM, E_PROPNF, E_VERBNF, E_VARNF, E_INVIND,
     E_RECMOVE, E_MAXREC, E_RANGE, E_ARGS, E_NACC, E_INVARG, E_QUOTA, E_FLOAT]"

fun error_num :: "error \<Rightarrow> int" where
  "error_num E_NONE = 0" | "error_num E_TYPE = 1" | "error_num E_DIV = 2" | "error_num E_PERM = 3"
| "error_num E_PROPNF = 4" | "error_num E_VERBNF = 5" | "error_num E_VARNF = 6"
| "error_num E_INVIND = 7" | "error_num E_RECMOVE = 8" | "error_num E_MAXREC = 9"
| "error_num E_RANGE = 10" | "error_num E_ARGS = 11" | "error_num E_NACC = 12"
| "error_num E_INVARG = 13" | "error_num E_QUOTA = 14" | "error_num E_FLOAT = 15"

fun unparse_error :: "error \<Rightarrow> string" where
  "unparse_error E_NONE = ''No error''"
| "unparse_error E_TYPE = ''Type mismatch''"
| "unparse_error E_DIV = ''Division by zero''"
| "unparse_error E_PERM = ''Permission denied''"
| "unparse_error E_PROPNF = ''Property not found''"
| "unparse_error E_VERBNF = ''Verb not found''"
| "unparse_error E_VARNF = ''Variable not found''"
| "unparse_error E_INVIND = ''Invalid indirection''"
| "unparse_error E_RECMOVE = ''Recursive move''"
| "unparse_error E_MAXREC = ''Too many verb calls''"
| "unparse_error E_RANGE = ''Range error''"
| "unparse_error E_ARGS = ''Incorrect number of arguments''"
| "unparse_error E_NACC = ''Move refused by destination''"
| "unparse_error E_INVARG = ''Invalid argument''"
| "unparse_error E_QUOTA = ''Resource limit exceeded''"
| "unparse_error E_FLOAT = ''Floating-point arithmetic error''"

fun error_name :: "error \<Rightarrow> string" where
  "error_name E_NONE = ''E_NONE''"
| "error_name E_TYPE = ''E_TYPE''"
| "error_name E_DIV = ''E_DIV''"
| "error_name E_PERM = ''E_PERM''"
| "error_name E_PROPNF = ''E_PROPNF''"
| "error_name E_VERBNF = ''E_VERBNF''"
| "error_name E_VARNF = ''E_VARNF''"
| "error_name E_INVIND = ''E_INVIND''"
| "error_name E_RECMOVE = ''E_RECMOVE''"
| "error_name E_MAXREC = ''E_MAXREC''"
| "error_name E_RANGE = ''E_RANGE''"
| "error_name E_ARGS = ''E_ARGS''"
| "error_name E_NACC = ''E_NACC''"
| "error_name E_INVARG = ''E_INVARG''"
| "error_name E_QUOTA = ''E_QUOTA''"
| "error_name E_FLOAT = ''E_FLOAT''"

instantiation error :: linorder
begin

definition less_eq_error :: "error \<Rightarrow> error \<Rightarrow> bool" where
  "less_eq_error a b \<longleftrightarrow> error_num a \<le> error_num b"

definition less_error :: "error \<Rightarrow> error \<Rightarrow> bool" where
  "less_error a b \<longleftrightarrow> error_num a < error_num b"

instance
proof
  fix x y :: error
  show "x \<le> y \<Longrightarrow> y \<le> x \<Longrightarrow> x = y"
    by (cases x; cases y) (simp_all add: less_eq_error_def)
qed (auto simp: less_eq_error_def less_error_def)

end

section \<open>Values\<close>

datatype var =
  VInt int32
| VObj objid
| VStr string
| VErr error
| VList "var list"
| VClear              \<comment> \<open>in a clear property's value slot\<close>
| VNone               \<comment> \<open>in an uninitialized variable\<close>
| VCatch int32        \<comment> \<open>on-stack marker of an exception handler\<close>
| VFinally int32      \<comment> \<open>on-stack marker of a try-finally clause\<close>
| VFloat double

datatype var_type =
  TYPE_INT | TYPE_OBJ | TYPE_STR | TYPE_ERR | TYPE_LIST
| TYPE_CLEAR | TYPE_NONE | TYPE_CATCH | TYPE_FINALLY | TYPE_FLOAT
| TYPE_ANY | TYPE_NUMERIC

fun type_of :: "var \<Rightarrow> var_type" where
  "type_of (VInt _) = TYPE_INT"
| "type_of (VObj _) = TYPE_OBJ"
| "type_of (VStr _) = TYPE_STR"
| "type_of (VErr _) = TYPE_ERR"
| "type_of (VList _) = TYPE_LIST"
| "type_of VClear = TYPE_CLEAR"
| "type_of VNone = TYPE_NONE"
| "type_of (VCatch _) = TYPE_CATCH"
| "type_of (VFinally _) = TYPE_FINALLY"
| "type_of (VFloat _) = TYPE_FLOAT"

text \<open>The number a type has in the database (the complex flag masked off).\<close>

fun type_num :: "var_type \<Rightarrow> int" where
  "type_num TYPE_INT = 0" | "type_num TYPE_OBJ = 1" | "type_num TYPE_STR = 2"
| "type_num TYPE_ERR = 3" | "type_num TYPE_LIST = 4" | "type_num TYPE_CLEAR = 5"
| "type_num TYPE_NONE = 6" | "type_num TYPE_CATCH = 7" | "type_num TYPE_FINALLY = 8"
| "type_num TYPE_FLOAT = 9" | "type_num TYPE_ANY = -1" | "type_num TYPE_NUMERIC = -2"

text \<open>Special object numbers.\<close>

definition SYSTEM_OBJECT :: objid where [simp]: "SYSTEM_OBJECT = 0"
definition NOTHING :: objid where [simp]: "NOTHING = -1"
definition AMBIGUOUS :: objid where [simp]: "AMBIGUOUS = -2"
definition FAILED_MATCH :: objid where [simp]: "FAILED_MATCH = -3"

definition zero :: var where
  "zero = VInt 0"

text \<open>
  What a MOO program can hold: no internal marker anywhere, no NaN or infinity (the server checks
  \<^verbatim>\<open>IS_REAL\<close> before it makes a float), object numbers that fit the C type, strings with no NUL.
\<close>

fun user_value :: "var \<Rightarrow> bool" where
  "user_value (VInt _) = True"
| "user_value (VObj n) = (- 2147483648 \<le> n \<and> n < 2147483648)"
| "user_value (VStr s) = cstring s"
| "user_value (VErr _) = True"
| "user_value (VList vs) = (\<forall>v \<in> set vs. user_value v)"
| "user_value (VFloat d) = IS_REAL d"
| "user_value _ = False"

text \<open>Induction over the values a list is made of.\<close>

lemma var_list_induct [case_names leaf list]:
  assumes "\<And>v. (\<And>vs. v \<noteq> VList vs) \<Longrightarrow> P v"
    and "\<And>vs. (\<And>v. v \<in> set vs \<Longrightarrow> P v) \<Longrightarrow> P (VList vs)"
  shows "P v"
proof (induction v)
  case (VList vs)
  then show ?case by (blast intro: assms(2))
qed (auto intro: assms(1))

definition is_true :: "var \<Rightarrow> bool" where
  "is_true v = (case v of
     VInt n \<Rightarrow> n \<noteq> 0
   | VFloat d \<Rightarrow> \<not> dbl_eq d 0
   | VStr s \<Rightarrow> s \<noteq> []
   | VList vs \<Rightarrow> vs \<noteq> []
   | _ \<Rightarrow> False)"

section \<open>Packages\<close>

text \<open>
  What a built-in function hands back to the interpreter.  \<open>Crash\<close> stands for an execution that
  leaves the C program: a \<^verbatim>\<open>panic\<close>, a trapping instruction, or the read of a union member the
  argument does not have.
\<close>

datatype package =
  BI_RETURN var
| BI_RAISE error string var
| BI_CALL byte
| BI_SUSPEND
| BI_KILL
| Crash

definition make_raise_pack :: "error \<Rightarrow> string \<Rightarrow> var \<Rightarrow> package" where
  [pack_defs]: "make_raise_pack err msg v = BI_RAISE err msg v"

definition make_error_pack :: "error \<Rightarrow> package" where
  [pack_defs]: "make_error_pack err = make_raise_pack err (unparse_error err) zero"

definition make_var_pack :: "var \<Rightarrow> package" where
  [pack_defs]: "make_var_pack v = BI_RETURN v"

definition no_var_pack :: package where
  [pack_defs]: "no_var_pack = make_var_pack zero"

definition make_call_pack :: "byte \<Rightarrow> package" where
  [pack_defs]: "make_call_pack pc = BI_CALL pc"

definition tail_call_pack :: package where
  [pack_defs]: "tail_call_pack = make_call_pack 0"

text \<open>The C truth values \<^verbatim>\<open>0\<close> and \<^verbatim>\<open>1\<close>.\<close>

definition of_truth :: "bool \<Rightarrow> int32" where
  "of_truth b = (if b then 1 else 0)"

lemma error_num_inj: "error_num e = error_num f \<longleftrightarrow> e = f"
  by (cases e; cases f) simp_all

lemma package_distinct [simp]:
  "make_error_pack e \<noteq> Crash" "make_var_pack v \<noteq> Crash" "no_var_pack \<noteq> Crash"
  "tail_call_pack \<noteq> Crash" "make_error_pack e \<noteq> make_var_pack v"
  by (simp_all add: pack_defs)

lemma package_inj [simp]:
  "make_error_pack e = make_error_pack f \<longleftrightarrow> e = f"
  "make_var_pack v = make_var_pack w \<longleftrightarrow> v = w"
  by (auto simp: pack_defs)

end
