(* ===== verification/Ast.thy ===== *)
theory Ast
  imports Values
begin

text \<open>
  Programs as trees (ast.h), the numbering of opcodes (opcode.h), and compiled programs (program.h).  A null
  pointer to an argument list, to a list of statements or to a scatter list is the empty list; a null list
  of codes is \<^verbatim>\<open>ANY\<close>.  Slots of variables are positions in the table of names; \<open>-1\<close> is no variable.
\<close>

section \<open>Trees\<close>

datatype arg_kind = ARG_NORMAL | ARG_SPLICE

datatype scatter_kind = SCAT_REQUIRED | SCAT_OPTIONAL | SCAT_REST

datatype bin_kind =
  EXPR_PLUS | EXPR_MINUS | EXPR_TIMES | EXPR_DIVIDE | EXPR_MOD
| EXPR_EQ | EXPR_NE | EXPR_LT | EXPR_LE | EXPR_GT | EXPR_GE | EXPR_IN | EXPR_PROP

datatype expr =
  EXPR_VAR var
| EXPR_ID nat
| EXPR_BIN bin_kind expr expr          \<comment> \<open>the kinds that share the code of \<^verbatim>\<open>Expr_Binary\<close>\<close>
| EXPR_EXP expr expr
| EXPR_VERB expr expr "arg list"
| EXPR_INDEX expr expr
| EXPR_RANGE expr expr expr
| EXPR_ASGN expr expr
| EXPR_CALL nat "arg list"
| EXPR_NEGATE expr
| EXPR_NOT expr
| EXPR_AND expr expr
| EXPR_OR expr expr
| EXPR_LIST "arg list"
| EXPR_COND expr expr expr
| EXPR_CATCH expr "arg list" "expr option"
| EXPR_LENGTH
| EXPR_SCATTER "scatter list"
and arg = Arg arg_kind expr
and scatter = Scatter scatter_kind nat "expr option"

datatype stmt =
  STMT_COND "cond_arm list" "stmt list"
| STMT_LIST nat expr "stmt list"
| STMT_RANGE nat expr expr "stmt list"
| STMT_WHILE int expr "stmt list"
| STMT_FORK int expr "stmt list"
| STMT_EXPR expr
| STMT_RETURN "expr option"
| STMT_TRY_EXCEPT "stmt list" "except_arm list"
| STMT_TRY_FINALLY "stmt list" "stmt list"
| STMT_BREAK int
| STMT_CONTINUE int
and cond_arm = Cond_Arm expr "stmt list"
and except_arm = Except_Arm int "arg list" "stmt list"

abbreviation EXPR_PROP_REF :: "expr \<Rightarrow> expr \<Rightarrow> expr" where
  "EXPR_PROP_REF \<equiv> EXPR_BIN EXPR_PROP"

section \<open>Opcodes\<close>

definition NUM_READY_VARS :: nat where "NUM_READY_VARS = 32"

datatype opcode =
  OP_IF | OP_WHILE | OP_EIF | OP_FORK | OP_FORK_WITH_ID | OP_FOR_LIST | OP_FOR_RANGE
| OP_INDEXSET | OP_PUSH_GET_PROP | OP_GET_PROP | OP_CALL_VERB | OP_PUT_PROP
| OP_BI_FUNC_CALL | OP_IF_QUES | OP_REF | OP_RANGE_REF
| OP_MAKE_SINGLETON_LIST | OP_CHECK_LIST_FOR_SPLICE
| OP_MULT | OP_DIV | OP_MOD | OP_ADD | OP_MINUS
| OP_EQ | OP_NE | OP_LT | OP_LE | OP_GT | OP_GE | OP_IN
| OP_AND | OP_OR | OP_UNARY_MINUS | OP_NOT
| OP_PUT | OP_G_PUT | OP_PUSH | OP_G_PUSH
| OP_IMM | OP_MAKE_EMPTY_LIST | OP_LIST_ADD_TAIL | OP_LIST_APPEND
| OP_PUSH_REF | OP_PUT_TEMP | OP_PUSH_TEMP
| OP_JUMP | OP_RETURN | OP_RETURN0 | OP_DONE | OP_POP
| OP_EXTENDED

fun opcode_num :: "opcode \<Rightarrow> nat" where
  "opcode_num OP_IF = 0" | "opcode_num OP_WHILE = 1" | "opcode_num OP_EIF = 2" | "opcode_num OP_FORK = 3"
| "opcode_num OP_FORK_WITH_ID = 4" | "opcode_num OP_FOR_LIST = 5" | "opcode_num OP_FOR_RANGE = 6"
| "opcode_num OP_INDEXSET = 7" | "opcode_num OP_PUSH_GET_PROP = 8" | "opcode_num OP_GET_PROP = 9"
| "opcode_num OP_CALL_VERB = 10" | "opcode_num OP_PUT_PROP = 11" | "opcode_num OP_BI_FUNC_CALL = 12"
| "opcode_num OP_IF_QUES = 13" | "opcode_num OP_REF = 14" | "opcode_num OP_RANGE_REF = 15"
| "opcode_num OP_MAKE_SINGLETON_LIST = 16" | "opcode_num OP_CHECK_LIST_FOR_SPLICE = 17"
| "opcode_num OP_MULT = 18" | "opcode_num OP_DIV = 19" | "opcode_num OP_MOD = 20" | "opcode_num OP_ADD = 21"
| "opcode_num OP_MINUS = 22" | "opcode_num OP_EQ = 23" | "opcode_num OP_NE = 24" | "opcode_num OP_LT = 25"
| "opcode_num OP_LE = 26" | "opcode_num OP_GT = 27" | "opcode_num OP_GE = 28" | "opcode_num OP_IN = 29"
| "opcode_num OP_AND = 30" | "opcode_num OP_OR = 31" | "opcode_num OP_UNARY_MINUS = 32"
| "opcode_num OP_NOT = 33" | "opcode_num OP_PUT = 34" | "opcode_num OP_G_PUT = 66"
| "opcode_num OP_PUSH = 67" | "opcode_num OP_G_PUSH = 99" | "opcode_num OP_IMM = 100"
| "opcode_num OP_MAKE_EMPTY_LIST = 101" | "opcode_num OP_LIST_ADD_TAIL = 102"
| "opcode_num OP_LIST_APPEND = 103" | "opcode_num OP_PUSH_REF = 104" | "opcode_num OP_PUT_TEMP = 105"
| "opcode_num OP_PUSH_TEMP = 106" | "opcode_num OP_JUMP = 107" | "opcode_num OP_RETURN = 108"
| "opcode_num OP_RETURN0 = 109" | "opcode_num OP_DONE = 110" | "opcode_num OP_POP = 111"
| "opcode_num OP_EXTENDED = 112"

definition OPTIM_NUM_START :: nat where "OPTIM_NUM_START = 113"
definition Last_Opcode :: nat where "Last_Opcode = 255"
definition OPTIM_NUM_LOW :: int where "OPTIM_NUM_LOW = -10"
definition OPTIM_NUM_HI :: int where
  "OPTIM_NUM_HI = int Last_Opcode - int OPTIM_NUM_START + OPTIM_NUM_LOW"

definition IS_PUSH_n :: "nat \<Rightarrow> bool" where
  "IS_PUSH_n n \<longleftrightarrow> n \<ge> opcode_num OP_PUSH \<and> n < opcode_num OP_G_PUSH"

definition IS_PUT_n :: "nat \<Rightarrow> bool" where
  "IS_PUT_n n \<longleftrightarrow> n \<ge> opcode_num OP_PUT \<and> n < opcode_num OP_G_PUT"

definition PUSH_n_INDEX :: "nat \<Rightarrow> nat" where "PUSH_n_INDEX n = n - opcode_num OP_PUSH"
definition PUT_n_INDEX :: "nat \<Rightarrow> nat" where "PUT_n_INDEX n = n - opcode_num OP_PUT"
definition IS_OPTIM_NUM_OPCODE :: "nat \<Rightarrow> bool" where "IS_OPTIM_NUM_OPCODE n \<longleftrightarrow> n \<ge> OPTIM_NUM_START"

definition OPCODE_TO_OPTIM_NUM :: "nat \<Rightarrow> int" where
  "OPCODE_TO_OPTIM_NUM n = int n - int OPTIM_NUM_START + OPTIM_NUM_LOW"

definition OPTIM_NUM_TO_OPCODE :: "int \<Rightarrow> nat" where
  "OPTIM_NUM_TO_OPCODE i = nat (int OPTIM_NUM_START + i - OPTIM_NUM_LOW)"

definition IN_OPTIM_NUM_RANGE :: "int \<Rightarrow> bool" where
  "IN_OPTIM_NUM_RANGE i \<longleftrightarrow> OPTIM_NUM_LOW \<le> i \<and> i \<le> OPTIM_NUM_HI"

definition COUNT_TICK :: "nat \<Rightarrow> bool" where
  "COUNT_TICK n \<longleftrightarrow> n \<le> opcode_num OP_G_PUT"

datatype extended_opcode =
  EOP_RANGESET | EOP_LENGTH | EOP_PUSH_LABEL | EOP_END_CATCH | EOP_END_EXCEPT | EOP_END_FINALLY
| EOP_CONTINUE | EOP_CATCH | EOP_TRY_EXCEPT | EOP_TRY_FINALLY | EOP_WHILE_ID | EOP_EXIT | EOP_EXIT_ID
| EOP_SCATTER | EOP_EXP

fun extended_opcode_num :: "extended_opcode \<Rightarrow> nat" where
  "extended_opcode_num EOP_RANGESET = 0" | "extended_opcode_num EOP_LENGTH = 1"
| "extended_opcode_num EOP_PUSH_LABEL = 2" | "extended_opcode_num EOP_END_CATCH = 3"
| "extended_opcode_num EOP_END_EXCEPT = 4" | "extended_opcode_num EOP_END_FINALLY = 5"
| "extended_opcode_num EOP_CONTINUE = 6" | "extended_opcode_num EOP_CATCH = 7"
| "extended_opcode_num EOP_TRY_EXCEPT = 8" | "extended_opcode_num EOP_TRY_FINALLY = 9"
| "extended_opcode_num EOP_WHILE_ID = 10" | "extended_opcode_num EOP_EXIT = 11"
| "extended_opcode_num EOP_EXIT_ID = 12" | "extended_opcode_num EOP_SCATTER = 13"
| "extended_opcode_num EOP_EXP = 14"

definition COUNT_EOP_TICK :: "nat \<Rightarrow> bool" where
  "COUNT_EOP_TICK n \<longleftrightarrow> n \<ge> extended_opcode_num EOP_CATCH"

section \<open>Compiled programs\<close>

record bytecodes =
  numbytes_label :: nat
  numbytes_literal :: nat
  numbytes_fork :: nat
  numbytes_var_name :: nat
  numbytes_stack :: nat
  bc_vector :: "byte list"
  bc_max_stack :: nat

definition bc_size :: "bytecodes \<Rightarrow> nat" where
  "bc_size bc = length (bc_vector bc)"

datatype db_version = DBV_Prehistory | DBV_Exceptions | DBV_BreakCont | DBV_Float | DBV_BFBugFixed

fun version_num :: "db_version \<Rightarrow> nat" where
  "version_num DBV_Prehistory = 0" | "version_num DBV_Exceptions = 1" | "version_num DBV_BreakCont = 2"
| "version_num DBV_Float = 3" | "version_num DBV_BFBugFixed = 4"

record program =
  pr_version :: db_version
  pr_first_lineno :: nat
  main_vector :: bytecodes
  pr_literals :: "var list"
  fork_vectors :: "bytecodes list"
  var_names :: "string list"

section \<open>The tables of opcodes agree with their numbering\<close>

lemma optim_num_roundtrip:
  "IN_OPTIM_NUM_RANGE i \<Longrightarrow> OPCODE_TO_OPTIM_NUM (OPTIM_NUM_TO_OPCODE i) = i"
  "IN_OPTIM_NUM_RANGE i \<Longrightarrow> IS_OPTIM_NUM_OPCODE (OPTIM_NUM_TO_OPCODE i) \<and> OPTIM_NUM_TO_OPCODE i \<le> Last_Opcode"
  by (auto simp: IN_OPTIM_NUM_RANGE_def OPCODE_TO_OPTIM_NUM_def OPTIM_NUM_TO_OPCODE_def OPTIM_NUM_HI_def
      OPTIM_NUM_LOW_def OPTIM_NUM_START_def Last_Opcode_def IS_OPTIM_NUM_OPCODE_def)

lemma opcode_num_inj [simp]: "opcode_num a = opcode_num b \<longleftrightarrow> a = b"
  by (cases a; cases b) simp_all

end
