(* ===== verification/Streams.thy ===== *)
theory Streams
  imports Values
begin

text \<open>
  The growable output buffers of streams.c, with the write positions checked against the allocated
  size, and the number and format conversions of \<^verbatim>\<open>stream_printf\<close>.
\<close>

section \<open>Numbers as text\<close>

definition digit_char :: "nat \<Rightarrow> char" where
  "digit_char d = (if d < 10 then char_of (48 + d) else char_of (65 + d - 10))"

function itoa_digits :: "nat \<Rightarrow> nat \<Rightarrow> string \<Rightarrow> string" where
  "itoa_digits n radix acc =
     (if n = 0 \<or> radix < 2 then acc
      else itoa_digits (n div radix) radix (digit_char (n mod radix) # acc))"
  by pat_completeness auto
termination
  by (relation "measure (\<lambda>(n, radix, acc). n)") auto

declare itoa_digits.simps [simp del]

definition itoa :: "int32 \<Rightarrow> nat \<Rightarrow> string" where
  "itoa n radix =
     (if n = 0 then ''0''
      else if n = INT_MIN then
        (if radix = 16 then ''-7FFFFFFF''
         else if radix = 10 then ''-2147483648''
         else if radix = 8 then ''-17777777777''
         else ''0'')
      else if sint n < 0 then CHR ''-'' # itoa_digits (nat (- sint n)) radix []
      else itoa_digits (nat (sint n)) radix [])"

text \<open>The decimal digits of a natural number, and their reading back.\<close>

definition dec :: "nat \<Rightarrow> string" where
  "dec n = (if n = 0 then ''0'' else itoa_digits n 10 [])"

definition dec_int :: "int \<Rightarrow> string" where
  "dec_int i = (if i < 0 then CHR ''-'' # dec (nat (- i)) else dec (nat i))"

fun read_digits :: "nat \<Rightarrow> string \<Rightarrow> nat" where
  "read_digits acc [] = acc"
| "read_digits acc (c # s) = read_digits (acc * 10 + (ch c - 48)) s"

lemma itoa_digits_append: "itoa_digits n r acc = itoa_digits n r [] @ acc"
proof (induction n arbitrary: acc rule: less_induct)
  case (less n)
  show ?case
  proof (cases "n = 0 \<or> r < 2")
    case True
    then show ?thesis by (simp add: itoa_digits.simps)
  next
    case False
    then have "n div r < n" by simp
    then have IH: "itoa_digits (n div r) r (digit_char (n mod r) # xs)
        = itoa_digits (n div r) r [] @ digit_char (n mod r) # xs" for xs
      by (rule less.IH)
    have "itoa_digits n r acc = itoa_digits (n div r) r (digit_char (n mod r) # acc)"
      using False by (simp add: itoa_digits.simps [of n r acc])
    moreover have "itoa_digits n r [] = itoa_digits (n div r) r [digit_char (n mod r)]"
      using False by (simp add: itoa_digits.simps [of n r "[]"])
    ultimately show ?thesis by (simp add: IH)
  qed
qed

lemma dec_unfold: "dec n = (if n < 10 then [digit_char n] else dec (n div 10) @ [digit_char (n mod 10)])"
proof (cases "n < 10")
  case True
  have "digit_char 0 = CHR ''0''" by code_simp
  then show ?thesis using True
    by (cases "n = 0") (simp_all add: dec_def itoa_digits.simps)
next
  case False
  then have "itoa_digits n 10 [] = itoa_digits (n div 10) 10 [digit_char (n mod 10)]"
    by (simp add: itoa_digits.simps [of n 10 "[]"])
  then show ?thesis
    using False itoa_digits_append [of "n div 10" 10 "[digit_char (n mod 10)]"]
      div_greater_zero_iff [of n 10]
    by (simp add: dec_def)
qed

lemma digit_char_simps [simp]:
  "digit_char 0 = CHR ''0''" "digit_char (Suc 0) = CHR ''1''" "digit_char 1 = CHR ''1''"
  "digit_char 2 = CHR ''2''" "digit_char 3 = CHR ''3''" "digit_char 4 = CHR ''4''"
  "digit_char 5 = CHR ''5''" "digit_char 6 = CHR ''6''" "digit_char 7 = CHR ''7''"
  "digit_char 8 = CHR ''8''" "digit_char 9 = CHR ''9''" "digit_char 10 = CHR ''A''"
  "digit_char 11 = CHR ''B''" "digit_char 12 = CHR ''C''" "digit_char 13 = CHR ''D''"
  "digit_char 14 = CHR ''E''" "digit_char 15 = CHR ''F''"
  by code_simp+

text \<open>\<^verbatim>\<open>%d\<close> prints the decimal value, the smallest integer included.\<close>

lemma itoa_10: "itoa n 10 = dec_int (sint n)"
proof -
  have "sint n = 0 \<longleftrightarrow> n = 0" by (metis signed_0 sint_0 signed_word_eqI)
  moreover have "n = INT_MIN \<Longrightarrow> dec_int (sint n) = ''-2147483648''"
    by (simp add: dec_int_def dec_unfold)
  ultimately show ?thesis
    by (auto simp: itoa_def dec_int_def dec_def)
qed

lemma ch_digit_char: "d < 10 \<Longrightarrow> ch (digit_char d) = 48 + d"
  by (simp add: digit_char_def)

lemma isdigit_digit_char: "d < 10 \<Longrightarrow> isdigit (digit_char d)"
  by (simp add: isdigit_def ch_digit_char)

lemma read_digits_append: "read_digits acc (s @ t) = read_digits (read_digits acc s) t"
  by (induction s arbitrary: acc) simp_all

lemma dec_induct [case_names small large]:
  assumes "\<And>n. n < 10 \<Longrightarrow> P n" "\<And>n. 10 \<le> n \<Longrightarrow> P (n div 10) \<Longrightarrow> P n"
  shows "P (n :: nat)"
proof (induction n rule: less_induct)
  case (less n)
  show ?case
  proof (cases "n < 10")
    case False
    then have "P (n div 10)" by (intro less) simp
    then show ?thesis using False assms(2) [of n] by simp
  qed (rule assms(1))
qed

lemma read_digits_dec: "read_digits 0 (dec n) = n"
proof (induction n rule: dec_induct)
  case (small n)
  then show ?case by (simp add: dec_unfold [of n] ch_digit_char)
next
  case (large n)
  then show ?case by (simp add: dec_unfold [of n] read_digits_append ch_digit_char)
qed

lemma dec_digits: "c \<in> set (dec n) \<Longrightarrow> isdigit c"
proof (induction n rule: dec_induct)
  case (small n)
  then show ?case by (simp add: dec_unfold [of n] isdigit_digit_char)
next
  case (large n)
  then show ?case by (auto simp: dec_unfold [of n] isdigit_digit_char)
qed

lemma dec_not_Nil [simp]: "dec n \<noteq> []"
  by (subst dec_unfold) simp

lemma dec_inj: "dec m = dec n \<longleftrightarrow> m = n"
  by (metis read_digits_dec)

section \<open>Floating-point text\<close>

text \<open>
  \<^verbatim>\<open>%.<p>g\<close> of \<^verbatim>\<open>printf\<close> on a finite double \<open>\<plusminus> num / den\<close>: \<open>p\<close> significant digits of the exact
  value, ties to even, in the fixed form when the decimal exponent is in \<open>-4 .. p - 1\<close>, trailing
  zeros removed.
\<close>

function scale_up :: "int \<Rightarrow> int \<Rightarrow> int" where
  "scale_up num den = (if num \<le> 0 \<or> den \<le> num then 0 else 1 + scale_up (num * 10) den)"
  by pat_completeness auto
termination
  by (relation "measure (\<lambda>(num, den). nat (den - num))") auto

declare scale_up.simps [simp del]

definition dec_exponent :: "int \<Rightarrow> int \<Rightarrow> int" where
  "dec_exponent num den =
     (if den \<le> num then int (length (dec (nat (num div den)))) - 1 else - scale_up num den)"

definition div_half_even :: "int \<Rightarrow> int \<Rightarrow> int" where
  "div_half_even a b =
     (let q = a div b; r = a mod b in if 2 * r > b \<or> 2 * r = b \<and> odd q then q + 1 else q)"

definition strip_zeros :: "string \<Rightarrow> string" where
  "strip_zeros s = rev (dropWhile (\<lambda>c. c = CHR ''0'') (rev s))"

definition with_fraction :: "string \<Rightarrow> string \<Rightarrow> string" where
  "with_fraction a f = (let f = strip_zeros f in if f = [] then a else a @ CHR ''.'' # f)"

definition fmt_g_pos :: "nat \<Rightarrow> int \<Rightarrow> int \<Rightarrow> string" where
  "fmt_g_pos p num den =
     (let x0 = dec_exponent num den;
          k = x0 - int p + 1;
          d0 = (if 0 \<le> k then div_half_even num (den * 10 ^ nat k)
                else div_half_even (num * 10 ^ nat (- k)) den);
          (x, d) = (if d0 = 10 ^ p then (x0 + 1, d0 div 10) else (x0, d0));
          ds = dec (nat d)
      in if int p > x \<and> x \<ge> -4
         then (if 0 \<le> x then with_fraction (take (nat x + 1) ds) (drop (nat x + 1) ds)
               else with_fraction ''0'' (replicate (nat (- x) - 1) (CHR ''0'') @ ds))
         else with_fraction (take 1 ds) (drop 1 ds)
              @ (if x < 0 then ''e-'' else ''e+'')
              @ (let e = dec (nat \<bar>x\<bar>) in if length e < 2 then CHR ''0'' # e else e))"

definition fmt_g :: "nat \<Rightarrow> double \<Rightarrow> string" where
  "fmt_g p d =
     (if dbl_is_nan d then (if dbl_sign d then ''-nan'' else ''nan'')
      else if dbl_is_inf d then (if dbl_sign d then ''-inf'' else ''inf'')
      else (if dbl_sign d then ''-'' else '''')
        @ (if dbl_is_zero d then ''0''
           else if 0 \<le> dbl_exp2 d then fmt_g_pos p (dbl_mant d * 2 ^ nat (dbl_exp2 d)) 1
           else fmt_g_pos p (dbl_mant d) (2 ^ nat (- dbl_exp2 d))))"

section \<open>Format directives\<close>

datatype fmt_arg = FA_string string | FA_int int32 | FA_double double

datatype directive =
  Directive string char nat string "fmt_arg list"  \<comment> \<open>text, pad, width, rest of format, rest of args\<close>
| Abort_directive                                   \<comment> \<open>unknown directive: the \<^verbatim>\<open>goto abort\<close>\<close>
| Bad_directive                                     \<comment> \<open>undefined: the format or the arguments end early\<close>

text \<open>The \<^verbatim>\<open>'g'\<close> case: \<^verbatim>\<open>%.15g\<close>, made to look floating.\<close>

definition dbl_text :: "double \<Rightarrow> string" where
  "dbl_text d =
     (let s = fmt_g 15 d in
      if CHR ''.'' \<notin> set s \<and> CHR ''e'' \<notin> set s then s @ ''.0'' else s)"

fun sp_directive :: "string \<Rightarrow> char \<Rightarrow> nat \<Rightarrow> fmt_arg list \<Rightarrow> directive" where
  "sp_directive [] pad width args = Bad_directive"
| "sp_directive (c # fmt) pad width args =
     (if c = CHR ''s'' then
        (case args of FA_string s # as \<Rightarrow> Directive s pad width fmt as | _ \<Rightarrow> Bad_directive)
      else if c = CHR ''x'' then
        (case args of FA_int i # as \<Rightarrow> Directive (itoa i 16) pad width fmt as | _ \<Rightarrow> Bad_directive)
      else if c = CHR ''o'' then
        (case args of FA_int i # as \<Rightarrow> Directive (itoa i 8) pad width fmt as | _ \<Rightarrow> Bad_directive)
      else if c = CHR ''d'' then
        (case args of FA_int i # as \<Rightarrow> Directive (itoa i 10) pad width fmt as | _ \<Rightarrow> Bad_directive)
      else if c = CHR ''g'' then
        (case args of FA_double d # as \<Rightarrow> Directive (dbl_text d) pad width fmt as | _ \<Rightarrow> Bad_directive)
      else if c = CHR ''0'' \<and> width = 0 then sp_directive fmt (CHR ''0'') width args
      else if isdigit c then sp_directive fmt pad (width * 10 + (ch c - 48)) args
      else Abort_directive)"

lemma sp_directive_shorter:
  "sp_directive fmt pad width args = Directive s p w fmt' args' \<Longrightarrow> length fmt' < length fmt"
  by (induction fmt pad width args rule: sp_directive.induct)
    (auto split: if_splits list.splits fmt_arg.splits)

text \<open>The characters \<^verbatim>\<open>stream_printf\<close> adds; \<^verbatim>\<open>abort\<close> keeps what was added before.\<close>

function fmt_expand :: "string \<Rightarrow> fmt_arg list \<Rightarrow> string option" where
  "fmt_expand fmt args =
     (case fmt of
        [] \<Rightarrow> Some []
      | c # rest \<Rightarrow>
          if c = CHR ''%'' then
            (case sp_directive rest (CHR '' '') 0 args of
               Directive s pad width fmt' args' \<Rightarrow>
                 map_option (\<lambda>t. replicate (width - length s) pad @ s @ t) (fmt_expand fmt' args')
             | Abort_directive \<Rightarrow> Some []
             | Bad_directive \<Rightarrow> None)
          else map_option (\<lambda>t. c # t) (fmt_expand rest args))"
  by pat_completeness auto
termination
  by (relation "measure (\<lambda>(fmt, args). length fmt)")
    (auto dest: sp_directive_shorter)

declare fmt_expand.simps [simp del]

section \<open>The buffer\<close>

text \<open>
  \<open>s_buffer\<close> is the allocated block, \<open>s_buflen\<close> the size the code believes it has.  A write outside
  the block is \<open>None\<close>.  Fresh memory is filled with NULs; no operation reads it.
\<close>

record stream =
  s_buffer :: string
  s_buflen :: nat
  s_current :: nat

definition alloc :: "nat \<Rightarrow> string" where
  "alloc n = replicate (if n = 0 then 1 else n) (CHR 0x00)"

definition new_stream :: "nat \<Rightarrow> stream" where
  "new_stream n = \<lparr>s_buffer = alloc n, s_buflen = n, s_current = 0\<rparr>"

text \<open>Copying \<open>cs\<close> into a block at a position.\<close>

definition blit :: "string \<Rightarrow> nat \<Rightarrow> string \<Rightarrow> string option" where
  "blit cs pos buf =
     (if pos + length cs \<le> length buf
      then Some (take pos buf @ cs @ drop (pos + length cs) buf) else None)"

definition grow :: "stream \<Rightarrow> nat \<Rightarrow> stream option" where
  "grow s newlen =
     map_option (\<lambda>newbuf. s\<lparr>s_buffer := newbuf, s_buflen := newlen\<rparr>)
       (blit (take (s_current s) (s_buffer s)) 0 (alloc newlen))"

definition stream_add_char :: "stream \<Rightarrow> char \<Rightarrow> stream option" where
  "stream_add_char s c =
     Option.bind (if s_buflen s \<le> s_current s + 1 then grow s (s_buflen s * 2) else Some s)
       (\<lambda>s. map_option (\<lambda>b. s\<lparr>s_buffer := b, s_current := s_current s + 1\<rparr>)
          (blit [c] (s_current s) (s_buffer s)))"

definition stream_delete_char :: "stream \<Rightarrow> stream" where
  "stream_delete_char s = (if 0 < s_current s then s\<lparr>s_current := s_current s - 1\<rparr> else s)"

definition stream_add_string :: "stream \<Rightarrow> string \<Rightarrow> stream option" where
  "stream_add_string s string =
     (let len = length string in
      Option.bind
        (if s_buflen s \<le> s_current s + len
         then let newlen = s_buflen s * 2;
                  newlen = (if newlen \<le> s_current s + len then s_current s + len + 1 else newlen)
              in grow s newlen
         else Some s)
        (\<lambda>s. map_option (\<lambda>b. s\<lparr>s_buffer := b, s_current := s_current s + len\<rparr>)
           (blit (string @ [CHR 0x00]) (s_current s) (s_buffer s))))"

fun stream_add_pad :: "stream \<Rightarrow> char \<Rightarrow> nat \<Rightarrow> stream option" where
  "stream_add_pad s pad 0 = Some s"
| "stream_add_pad s pad (Suc n) =
     Option.bind (stream_add_char s pad) (\<lambda>s. stream_add_pad s pad n)"

function stream_printf :: "stream \<Rightarrow> string \<Rightarrow> fmt_arg list \<Rightarrow> stream option" where
  "stream_printf s fmt args =
     (case fmt of
        [] \<Rightarrow> Some s
      | c # rest \<Rightarrow>
          if c = CHR ''%'' then
            (case sp_directive rest (CHR '' '') 0 args of
               Directive str pad width fmt' args' \<Rightarrow>
                 (case stream_add_pad s pad (width - length str) of
                    None \<Rightarrow> None
                  | Some s \<Rightarrow>
                      (case stream_add_string s str of
                         None \<Rightarrow> None
                       | Some s \<Rightarrow> stream_printf s fmt' args'))
             | Abort_directive \<Rightarrow> Some s
             | Bad_directive \<Rightarrow> None)
          else (case stream_add_char s c of
                  None \<Rightarrow> None
                | Some s \<Rightarrow> stream_printf s rest args))"
  by pat_completeness auto
termination
  by (relation "measure (\<lambda>(s, fmt, args). length fmt)")
    (auto dest: sp_directive_shorter)

declare stream_printf.simps [simp del]

text \<open>The text a stream holds; \<^verbatim>\<open>stream_contents\<close> writes the terminator first.\<close>

definition stream_text :: "stream \<Rightarrow> string" where
  "stream_text s = take (s_current s) (s_buffer s)"

definition stream_contents :: "stream \<Rightarrow> (string \<times> stream) option" where
  "stream_contents s =
     map_option (\<lambda>b. (take (s_current s) b, s\<lparr>s_buffer := b\<rparr>))
       (blit [CHR 0x00] (s_current s) (s_buffer s))"

definition reset_stream :: "stream \<Rightarrow> (string \<times> stream) option" where
  "reset_stream s =
     map_option (\<lambda>b. (take (s_current s) b, s\<lparr>s_buffer := b, s_current := 0\<rparr>))
       (blit [CHR 0x00] (s_current s) (s_buffer s))"

definition stream_length :: "stream \<Rightarrow> nat" where
  "stream_length s = s_current s"

section \<open>The interface the printing code relies on\<close>

text \<open>
  A sink accepts characters and strings and never fails once it is well formed; what it holds is
  the concatenation of what was added.
\<close>

locale text_sink =
  fixes ok :: "'s \<Rightarrow> bool"
    and held :: "'s \<Rightarrow> string"
    and put_char :: "'s \<Rightarrow> char \<Rightarrow> 's option"
    and put_string :: "'s \<Rightarrow> string \<Rightarrow> 's option"
  assumes put_char_ok: "ok s \<Longrightarrow> \<exists>s'. put_char s c = Some s' \<and> ok s' \<and> held s' = held s @ [c]"
    and put_string_ok: "ok s \<Longrightarrow> \<exists>s'. put_string s t = Some s' \<and> ok s' \<and> held s' = held s @ t"
begin

lemma put_charE:
  assumes "ok s"
  obtains s' where "put_char s c = Some s'" "ok s'" "held s' = held s @ [c]"
  using put_char_ok [OF assms] by blast

lemma put_stringE:
  assumes "ok s"
  obtains s' where "put_string s t = Some s'" "ok s'" "held s' = held s @ t"
  using put_string_ok [OF assms] by blast

lemma put_char_then_string:
  assumes "ok s"
  shows "\<exists>s'. Option.bind (put_char s c) (\<lambda>s. put_string s t) = Some s' \<and> ok s'
    \<and> held s' = held s @ c # t"
proof -
  obtain s1 where 1: "put_char s c = Some s1" "ok s1" "held s1 = held s @ [c]"
    using assms by (rule put_charE)
  obtain s2 where "put_string s1 t = Some s2" "ok s2" "held s2 = held s1 @ t"
    using 1(2) by (rule put_stringE)
  with 1 show ?thesis by simp
qed

end

definition wf_stream :: "stream \<Rightarrow> bool" where
  "wf_stream s \<longleftrightarrow> length (s_buffer s) = s_buflen s \<and> s_current s < s_buflen s"

lemma wf_new_stream: "0 < n \<Longrightarrow> wf_stream (new_stream n) \<and> stream_text (new_stream n) = []"
  by (simp add: wf_stream_def new_stream_def alloc_def stream_text_def)

lemma grow_ok:
  assumes "wf_stream s" "s_current s \<le> n" "0 < n"
  shows "\<exists>s'. grow s n = Some s' \<and> length (s_buffer s') = n \<and> s_buflen s' = n
    \<and> s_current s' = s_current s \<and> stream_text s' = stream_text s"
  using assms by (simp add: grow_def blit_def alloc_def stream_text_def wf_stream_def min_def)

lemma blit_text:
  assumes "length (s_buffer s) = s_buflen s" "s_current s + length cs \<le> s_buflen s"
  shows "\<exists>b. blit cs (s_current s) (s_buffer s) = Some b \<and> length b = s_buflen s
    \<and> (\<forall>k \<le> length cs. take (s_current s + k) b = stream_text s @ take k cs)"
proof -
  have "cs = []" if "s_buflen s \<le> s_current s"
    using assms that by (cases cs) auto
  then show ?thesis using assms by (auto simp: blit_def stream_text_def min_def)
qed

lemma stream_add_char_ok:
  assumes "wf_stream s"
  shows "\<exists>s'. stream_add_char s c = Some s' \<and> wf_stream s' \<and> stream_text s' = stream_text s @ [c]"
proof -
  have "\<exists>s1. (if s_buflen s \<le> s_current s + 1 then grow s (s_buflen s * 2) else Some s) = Some s1
      \<and> length (s_buffer s1) = s_buflen s1 \<and> s_current s1 + 1 < s_buflen s1
      \<and> s_current s1 = s_current s \<and> stream_text s1 = stream_text s"
    using assms grow_ok [OF assms, of "s_buflen s * 2"] by (auto simp: wf_stream_def)
  then obtain s1 where s1: "(if s_buflen s \<le> s_current s + 1 then grow s (s_buflen s * 2) else Some s) = Some s1"
    "length (s_buffer s1) = s_buflen s1" "s_current s1 + 1 < s_buflen s1"
    "stream_text s1 = stream_text s" by blast
  obtain b where b: "blit [c] (s_current s1) (s_buffer s1) = Some b" "length b = s_buflen s1"
    "\<forall>k \<le> 1. take (s_current s1 + k) b = stream_text s1 @ take k [c]"
    using blit_text [of s1 "[c]"] s1 by auto
  show ?thesis using s1 b(1,2) b(3) [rule_format, of 1]
    by (auto simp: stream_add_char_def wf_stream_def stream_text_def)
qed

lemma stream_add_string_ok:
  assumes "wf_stream s"
  shows "\<exists>s'. stream_add_string s t = Some s' \<and> wf_stream s' \<and> stream_text s' = stream_text s @ t"
proof -
  let ?m = "s_current s + length t"
  let ?n = "if s_buflen s * 2 \<le> ?m then ?m + 1 else s_buflen s * 2"
  let ?g = "if s_buflen s \<le> ?m then grow s ?n else Some s"
  have "\<exists>s1. ?g = Some s1 \<and> length (s_buffer s1) = s_buflen s1
      \<and> s_current s1 + length t < s_buflen s1 \<and> stream_text s1 = stream_text s"
    using assms grow_ok [OF assms, of ?n] by (auto simp: wf_stream_def)
  then obtain s1 where s1: "?g = Some s1"
    "length (s_buffer s1) = s_buflen s1" "s_current s1 + length t < s_buflen s1"
    "stream_text s1 = stream_text s" by blast
  obtain b where b: "blit (t @ [CHR 0x00]) (s_current s1) (s_buffer s1) = Some b"
    "length b = s_buflen s1"
    "\<forall>k \<le> length t + 1. take (s_current s1 + k) b = stream_text s1 @ take k (t @ [CHR 0x00])"
    using blit_text [of s1 "t @ [CHR 0x00]"] s1 by auto
  have "stream_add_string s t =
      Option.bind ?g (\<lambda>s. map_option (\<lambda>b. s\<lparr>s_buffer := b, s_current := s_current s + length t\<rparr>)
        (blit (t @ [CHR 0x00]) (s_current s) (s_buffer s)))"
    by (simp add: stream_add_string_def Let_def)
  then show ?thesis using s1 b(1,2) b(3) [rule_format, of "length t"]
    by (auto simp: wf_stream_def stream_text_def)
qed

interpretation stream: text_sink wf_stream stream_text stream_add_char stream_add_string
  by unfold_locales (rule stream_add_char_ok stream_add_string_ok; assumption)+

lemma stream_add_pad_ok:
  assumes "wf_stream s"
  shows "\<exists>s'. stream_add_pad s pad n = Some s' \<and> wf_stream s'
    \<and> stream_text s' = stream_text s @ replicate n pad"
  using assms
proof (induction n arbitrary: s)
  case (Suc n)
  obtain s1 where s1: "stream_add_char s pad = Some s1" "wf_stream s1"
    "stream_text s1 = stream_text s @ [pad]"
    using Suc.prems by (rule stream.put_charE)
  then show ?case using Suc.IH [OF s1(2)] by (auto simp: replicate_append_same [symmetric])
qed simp

text \<open>\<^verbatim>\<open>stream_printf\<close> adds exactly the expansion of its format, and stays inside its buffer.\<close>

lemma stream_printf_ok:
  assumes "wf_stream s" "fmt_expand fmt args = Some t"
  shows "\<exists>s'. stream_printf s fmt args = Some s' \<and> wf_stream s'
    \<and> stream_text s' = stream_text s @ t"
  using assms
proof (induction "length fmt" arbitrary: fmt args s t rule: less_induct)
  case less
  show ?case
  proof (cases fmt)
    case Nil
    then show ?thesis using less.prems by (simp add: stream_printf.simps fmt_expand.simps)
  next
    case (Cons c rest)
    show ?thesis
    proof (cases "c = CHR ''%''")
      case False
      then obtain u where u: "fmt_expand rest args = Some u" "t = c # u"
        using less.prems(2) Cons unfolding fmt_expand.simps [of fmt] by auto
      obtain s1 where s1: "stream_add_char s c = Some s1" "wf_stream s1"
        "stream_text s1 = stream_text s @ [c]"
        using less.prems(1) by (rule stream.put_charE)
      show ?thesis
        using less.hyps [OF _ s1(2) u(1)] Cons False s1 u(2)
        unfolding stream_printf.simps [of s fmt args] by simp
    next
      case True
      show ?thesis
      proof (cases "sp_directive rest (CHR '' '') 0 args")
        case (Directive str pad width fmt' args')
        then obtain u where u: "fmt_expand fmt' args' = Some u"
          "t = replicate (width - length str) pad @ str @ u"
          using less.prems(2) Cons True unfolding fmt_expand.simps [of fmt] by auto
        obtain s1 where s1: "stream_add_pad s pad (width - length str) = Some s1" "wf_stream s1"
          "stream_text s1 = stream_text s @ replicate (width - length str) pad"
          using stream_add_pad_ok [OF less.prems(1)] by blast
        obtain s2 where s2: "stream_add_string s1 str = Some s2" "wf_stream s2"
          "stream_text s2 = stream_text s1 @ str"
          using s1(2) by (rule stream.put_stringE)
        have "length fmt' < length fmt"
          using sp_directive_shorter [OF Directive] Cons by simp
        then show ?thesis
          using less.hyps [OF _ s2(2) u(1)] Cons True Directive s1 s2 u(2)
          unfolding stream_printf.simps [of s fmt args] by simp
      next
        case Abort_directive
        then show ?thesis using less.prems Cons True
          unfolding stream_printf.simps [of s fmt args] fmt_expand.simps [of fmt] by simp
      next
        case Bad_directive
        then show ?thesis using less.prems(2) Cons True unfolding fmt_expand.simps [of fmt] by simp
      qed
    qed
  qed
qed

lemma reset_stream_ok:
  assumes "wf_stream s"
  shows "\<exists>s'. reset_stream s = Some (stream_text s, s') \<and> wf_stream s' \<and> stream_text s' = []"
  using assms blit_text [of s "[CHR 0x00]"]
  by (auto simp: reset_stream_def wf_stream_def stream_text_def)

lemma stream_delete_char_ok:
  "wf_stream s \<Longrightarrow> wf_stream (stream_delete_char s)
    \<and> stream_text (stream_delete_char s) = butlast (stream_text s)"
  by (auto simp: stream_delete_char_def wf_stream_def stream_text_def butlast_take)

text \<open>What the formats of the server expand to.\<close>

lemma fmt_expand_d: "fmt_expand ''%d'' [FA_int i] = Some (dec_int (sint i))"
  by (simp add: fmt_expand.simps itoa_10)

lemma fmt_expand_obj: "fmt_expand ''#%d'' [FA_int i] = Some (CHR ''#'' # dec_int (sint i))"
  by (simp add: fmt_expand.simps itoa_10)

lemma fmt_expand_g: "fmt_expand ''%g'' [FA_double d] = Some (dbl_text d)"
  by (simp add: fmt_expand.simps)

section \<open>Properties\<close>



end
