(* ===== verification/Utils.thy ===== *)
theory Utils
  imports Streams "HOL-Library.Sublist"
begin

text \<open>
  String comparison, verb-name matching, hashing, value equality, substring search and the binary
  string encoding of utils.c.
\<close>

section \<open>Case-insensitive comparison\<close>

text \<open>The table \<^verbatim>\<open>cmap\<close> maps the upper-case ASCII letters to lower case and is the identity elsewhere.\<close>

definition cmap :: "char \<Rightarrow> char" where
  "cmap c = (if 65 \<le> ch c \<and> ch c \<le> 90 then char_of (ch c + 32) else c)"

definition cmapv :: "char \<Rightarrow> int" where
  "cmapv c = schar (cmap c)"

fun mystrcasecmp :: "string \<Rightarrow> string \<Rightarrow> int" where
  "mystrcasecmp [] [] = 0"
| "mystrcasecmp (s # ss) [] = cmapv s"
| "mystrcasecmp [] (t # tt) = - cmapv t"
| "mystrcasecmp (s # ss) (t # tt) =
     (if cmap s = cmap t then mystrcasecmp ss tt else cmapv s - cmapv t)"

fun mystrncasecmp :: "string \<Rightarrow> string \<Rightarrow> nat \<Rightarrow> int" where
  "mystrncasecmp ss tt 0 = 0"
| "mystrncasecmp [] [] (Suc n) = 0"
| "mystrncasecmp (s # ss) [] (Suc n) = cmapv s"
| "mystrncasecmp [] (t # tt) (Suc n) = - cmapv t"
| "mystrncasecmp (s # ss) (t # tt) (Suc n) =
     (if cmap s = cmap t then mystrncasecmp ss tt n else cmapv s - cmapv t)"

text \<open>\<^verbatim>\<open>strcmp\<close> and \<^verbatim>\<open>strncmp\<close> of the C library compare bytes as unsigned.\<close>

fun strcmp :: "string \<Rightarrow> string \<Rightarrow> int" where
  "strcmp [] [] = 0"
| "strcmp (s # ss) [] = int (ch s)"
| "strcmp [] (t # tt) = - int (ch t)"
| "strcmp (s # ss) (t # tt) = (if s = t then strcmp ss tt else int (ch s) - int (ch t))"

fun strncmp :: "string \<Rightarrow> string \<Rightarrow> nat \<Rightarrow> int" where
  "strncmp ss tt 0 = 0"
| "strncmp [] [] (Suc n) = 0"
| "strncmp (s # ss) [] (Suc n) = int (ch s)"
| "strncmp [] (t # tt) (Suc n) = - int (ch t)"
| "strncmp (s # ss) (t # tt) (Suc n) = (if s = t then strncmp ss tt n else int (ch s) - int (ch t))"

lemma ch_0 [simp]: "ch (CHR 0x00) = 0"
  by (simp add: ch_def)

lemma ch_eq_0 [simp]: "ch c = 0 \<longleftrightarrow> c = CHR 0x00"
  by (metis ch_0 ch_inj)

lemma cmapv_inj [simp]: "cmapv c = cmapv d \<longleftrightarrow> cmap c = cmap d"
  by (simp add: cmapv_def)

lemma schar_0: "schar c = 0 \<longleftrightarrow> c = CHR 0x00"
proof -
  have "schar (CHR 0x00) = 0" by (simp add: schar_def ch_def)
  then show ?thesis using schar_inj [of c "CHR 0x00"] by simp
qed

lemma ch_cmap: "ch (cmap c) = (if 65 \<le> ch c \<and> ch c \<le> 90 then ch c + 32 else ch c)"
  by (simp add: cmap_def)

lemma cmap_idem [simp]: "cmap (cmap c) = cmap c"
  unfolding ch_inj [symmetric] by (simp add: ch_cmap)

lemma cmap_NUL [simp]: "cmap c = CHR 0x00 \<longleftrightarrow> c = CHR 0x00"
proof -
  have "ch (cmap c) = 0 \<longleftrightarrow> ch c = 0" by (auto simp: ch_cmap simp del: ch_eq_0)
  then show ?thesis by simp
qed

lemma cmapv_NUL [simp]: "cmapv c = 0 \<longleftrightarrow> c = CHR 0x00"
  by (simp add: cmapv_def schar_0)

lemma mystrcasecmp_0:
  "cstring s \<Longrightarrow> cstring t \<Longrightarrow> mystrcasecmp s t = 0 \<longleftrightarrow> map cmap s = map cmap t"
  by (induction s t rule: mystrcasecmp.induct) auto

lemma mystrcasecmp_refl [simp]: "mystrcasecmp s s = 0"
  by (induction s) auto

lemma mystrncasecmp_0:
  "cstring s \<Longrightarrow> cstring t \<Longrightarrow>
   mystrncasecmp s t n = 0 \<longleftrightarrow> take n (map cmap s) = take n (map cmap t)"
  by (induction s t n rule: mystrncasecmp.induct) auto

lemma strcmp_0: "cstring s \<Longrightarrow> cstring t \<Longrightarrow> strcmp s t = 0 \<longleftrightarrow> s = t"
  by (induction s t rule: strcmp.induct) auto

lemma strncmp_0:
  "cstring s \<Longrightarrow> cstring t \<Longrightarrow> strncmp s t n = 0 \<longleftrightarrow> take n s = take n t"
  by (induction s t n rule: strncmp.induct) auto


section \<open>Verb names\<close>

datatype star = star_none | star_inner | star_end

text \<open>The inner \<^verbatim>\<open>while (*v == '*')\<close> of \<^verbatim>\<open>verbcasecmp\<close>.\<close>

definition at_name_end :: "string \<Rightarrow> bool" where
  "at_name_end v \<longleftrightarrow> (case v of [] \<Rightarrow> True | c # _ \<Rightarrow> c = CHR '' '')"

fun skip_stars :: "string \<Rightarrow> star \<Rightarrow> string \<times> star" where
  "skip_stars [] star = ([], star)"
| "skip_stars (c # v) star =
     (if c = CHR ''*'' then skip_stars v (if at_name_end v then star_end else star_inner)
      else (c # v, star))"

lemma length_skip_stars: "length (fst (skip_stars v star)) \<le> length v"
  by (induction v star rule: skip_stars.induct) auto

text \<open>The \<^verbatim>\<open>while (1)\<close> loop: where it stops in the verb name, in the word, and the last star seen.\<close>

function vc_inner :: "string \<Rightarrow> string \<Rightarrow> star \<Rightarrow> string \<times> string \<times> star" where
  "vc_inner v w star =
     (let (v', star') = skip_stars v star in
      if at_name_end v' \<or> w = [] \<or> cmap (hd w) \<noteq> cmap (hd v') then (v', w, star')
      else vc_inner (tl v') (tl w) star')"
  by pat_completeness auto
termination
  by (relation "measure (\<lambda>(v, w, star). length w)") auto

declare vc_inner.simps [simp del]

definition skip_name :: "string \<Rightarrow> string" where
  "skip_name v = dropWhile (\<lambda>c. c = CHR '' '') (dropWhile (\<lambda>c. c \<noteq> CHR '' '') v)"

lemma length_vc_inner: "length (fst (vc_inner v w star)) \<le> length v"
proof (induction v w star rule: vc_inner.induct)
  case (1 v w star)
  obtain v' star' where s: "skip_stars v star = (v', star')" by fastforce
  have l: "length v' \<le> length v" using length_skip_stars [of v star] s by simp
  show ?case
  proof (cases "at_name_end v' \<or> w = [] \<or> cmap (hd w) \<noteq> cmap (hd v')")
    case True
    then show ?thesis using s l by (auto simp: vc_inner.simps [of v w star])
  next
    case False
    then have "length (fst (vc_inner (tl v') (tl w) star')) \<le> length (tl v')"
      using "1.IH" s by simp
    then show ?thesis using False s l by (simp add: vc_inner.simps [of v w star])
  qed
qed

lemma length_skip_name:
  assumes "v \<noteq> []" shows "length (skip_name v) < length v"
proof -
  obtain c l where v: "v = c # l" using assms by (cases v) auto
  let ?d = "\<lambda>P. dropWhile P :: string \<Rightarrow> string"
  have "length (?d (\<lambda>c. c = CHR '' '') l) \<le> length l"
    and "length (?d (\<lambda>c. c = CHR '' '') (?d (\<lambda>c. c \<noteq> CHR '' '') l)) \<le> length (?d (\<lambda>c. c \<noteq> CHR '' '') l)"
    and "length (?d (\<lambda>c. c \<noteq> CHR '' '') l) \<le> length l"
    by (rule length_dropWhile_le)+
  then show ?thesis by (simp add: v skip_name_def)
qed

function verbcasecmp :: "string \<Rightarrow> string \<Rightarrow> bool" where
  "verbcasecmp verb word =
     (if verb = [] then False
      else let (v, w, star) = vc_inner verb word star_none in
        if (if w = [] then star \<noteq> star_none \<or> at_name_end v else star = star_end) then True
        else verbcasecmp (skip_name v) word)"
  by pat_completeness auto
termination
proof (relation "measure (length \<circ> fst)")
  fix verb word :: string and x v y w star
  assume "verb \<noteq> []" "x = vc_inner verb word star_none" "(v, y) = x"
  then have "length v \<le> length verb" using length_vc_inner [of verb word star_none]
    by (metis fst_conv)
  then show "((skip_name v, word), (verb, word)) \<in> measure (length \<circ> fst)"
    using \<open>verb \<noteq> []\<close> length_skip_name [of v] by (cases "v = []") (auto simp: skip_name_def)
qed simp

declare verbcasecmp.simps [simp del]

text \<open>
  What the walk decides, name by name.  A name such as \<^verbatim>\<open>"g*et"\<close> is matched by every prefix of
  \<^verbatim>\<open>"get"\<close> that reaches its first star, a name that ends in a star by every extension.
\<close>

definition unstar :: "string \<Rightarrow> string" where
  "unstar p = filter (\<lambda>c. c \<noteq> CHR ''*'') p"

definition name_matches :: "string \<Rightarrow> string \<Rightarrow> bool" where
  "name_matches p w \<longleftrightarrow>
     (let w = map cmap w; q = map cmap (unstar p) in
      w = q
      \<or> CHR ''*'' \<in> set p \<and> length (takeWhile (\<lambda>c. c \<noteq> CHR ''*'') p) \<le> length w \<and> prefix w q
      \<or> p \<noteq> [] \<and> last p = CHR ''*'' \<and> prefix q w)"

function verb_names :: "string \<Rightarrow> string list" where
  "verb_names v =
     (if v = [] then [] else takeWhile (\<lambda>c. c \<noteq> CHR '' '') v # verb_names (skip_name v))"
  by pat_completeness auto
termination
  by (relation "measure length") (auto simp: length_skip_name)

declare verb_names.simps [simp del]

text \<open>The generalisation over the star seen so far.\<close>

definition vc_spec :: "string \<Rightarrow> string \<Rightarrow> star \<Rightarrow> bool" where
  "vc_spec p w star \<longleftrightarrow>
     (let w = map cmap w; q = map cmap (unstar p) in
      w = q
      \<or> (star \<noteq> star_none \<or> CHR ''*'' \<in> set p
           \<and> length (takeWhile (\<lambda>c. c \<noteq> CHR ''*'') p) \<le> length w) \<and> prefix w q
      \<or> (p \<noteq> [] \<and> last p = CHR ''*'' \<or> p = [] \<and> star = star_end) \<and> prefix q w)"

definition vc_accept :: "string \<times> string \<times> star \<Rightarrow> bool" where
  "vc_accept r = (case r of (v, w, star) \<Rightarrow>
     (if w = [] then star \<noteq> star_none \<or> at_name_end v else star = star_end))"

definition star_after :: "string \<Rightarrow> star \<Rightarrow> star" where
  "star_after p star =
     (if p \<noteq> [] \<and> hd p = CHR ''*''
      then (if dropWhile (\<lambda>c. c = CHR ''*'') p = [] then star_end else star_inner) else star)"

lemma at_name_end_append:
  "at_name_end r \<Longrightarrow> CHR '' '' \<notin> set p \<Longrightarrow> at_name_end (p @ r) \<longleftrightarrow> p = []"
  by (cases p) (auto simp: at_name_end_def)

lemma skip_stars_append:
  assumes "at_name_end r" "CHR '' '' \<notin> set p"
  shows "skip_stars (p @ r) star = (dropWhile (\<lambda>c. c = CHR ''*'') p @ r, star_after p star)"
proof -
  have r: "skip_stars r star = (r, star)" for star
    using assms(1) by (cases r) (simp_all add: at_name_end_def)
  show ?thesis using assms(2)
proof (induction p arbitrary: star)
  case Nil
  show ?case by (simp add: star_after_def r)
next
  case (Cons c p)
  then have IH: "\<And>star. skip_stars (p @ r) star =
      (dropWhile (\<lambda>c. c = CHR ''*'') p @ r, star_after p star)"
    and e: "at_name_end (p @ r) \<longleftrightarrow> p = []"
    using assms(1) by (simp_all add: at_name_end_append)
  show ?case
  proof (cases "c = CHR ''*''")
    case True
    then show ?thesis
      using assms(1) by (cases "p = []") (auto simp: IH e r star_after_def)
  next
    case False
    then show ?thesis by (simp add: star_after_def)
  qed
qed
qed

lemma unstar_dropWhile [simp]: "unstar (dropWhile (\<lambda>c. c = CHR ''*'') p) = unstar p"
  unfolding unstar_def by (induction p) simp_all

lemma last_dropWhile: "dropWhile P p \<noteq> [] \<Longrightarrow> last (dropWhile P p) = last p"
  by (induction p) auto

lemma unstar_Nil: "dropWhile (\<lambda>c. c = CHR ''*'') p = [] \<Longrightarrow> unstar p = []"
  unfolding unstar_def by (induction p) (simp_all split: if_splits)

lemma vc_spec_skip:
  assumes "star = star_end \<longrightarrow> p = []"
  shows "vc_spec p w star = vc_spec (dropWhile (\<lambda>c. c = CHR ''*'') p) w (star_after p star)"
proof (cases "p \<noteq> [] \<and> hd p = CHR ''*''")
  case True
  let ?p = "dropWhile (\<lambda>c. c = CHR ''*'') p"
  have k: "takeWhile (\<lambda>c. c \<noteq> CHR ''*'') p = []" "CHR ''*'' \<in> set p" "p \<noteq> []"
    using True by (cases p; simp)+
  show ?thesis
  proof (cases "?p = []")
    case nil: True
    have "last p = CHR ''*''"
      using nil k(3) last_in_set [of p] unfolding dropWhile_eq_Nil_conv by metis
    moreover have "star_after p star = star_end" using True nil by (simp add: star_after_def)
    ultimately show ?thesis
      unfolding vc_spec_def Let_def nil unstar_Nil [OF nil] using k by (simp add: unstar_def)
  next
    case False
    with True have "star_after p star = star_inner" by (simp add: star_after_def)
    then show ?thesis
      unfolding vc_spec_def Let_def unstar_dropWhile last_dropWhile [OF False] k(1)
      using False k(2,3) by simp
  qed
next
  case False
  then have "dropWhile (\<lambda>c. c = CHR ''*'') p = p" by (cases p) auto
  moreover have "star_after p star = star" unfolding star_after_def using False by (rule if_not_P)
  ultimately show ?thesis by simp
qed

lemma skip_name_append:
  "CHR '' '' \<notin> set p \<Longrightarrow> skip_name (p @ r) = skip_name r"
  unfolding skip_name_def by (induction p) auto

lemma vc_spec_stop:
  assumes "p = [] \<or> hd p \<noteq> CHR ''*''"
  shows "vc_spec p [] star = (star \<noteq> star_none \<or> p = [])"
  using assms by (cases p) (simp_all add: vc_spec_def unstar_def)

lemma vc_spec_clash:
  assumes "p = [] \<or> hd p \<noteq> CHR ''*''" "star \<noteq> star_end \<or> p = []"
    and "p = [] \<or> cmap x \<noteq> cmap (hd p)"
  shows "vc_spec p (x # w) star = (star = star_end)"
  using assms by (cases p) (auto simp: vc_spec_def unstar_def)

lemma vc_spec_step:
  assumes "c \<noteq> CHR ''*''" "cmap x = cmap c" "star \<noteq> star_end"
  shows "vc_spec (c # q) (x # w) star = vc_spec q w star"
  using assms by (auto simp: vc_spec_def unstar_def Let_def)

lemma vc_inner_unfold:
  assumes "at_name_end r" "CHR '' '' \<notin> set p" "p' = dropWhile (\<lambda>c. c = CHR ''*'') p"
    "s' = star_after p star"
  shows "vc_inner (p @ r) w star =
    (if p' = [] \<or> w = [] \<or> cmap (hd w) \<noteq> cmap (hd p') then (p' @ r, w, s')
     else vc_inner (tl p' @ r) (tl w) s')"
proof -
  have "CHR '' '' \<notin> set p'" unfolding assms(3) using assms(2) set_dropWhileD by metis
  then have e: "at_name_end (p' @ r) \<longleftrightarrow> p' = []" using assms(1) by (simp add: at_name_end_append)
  have s: "skip_stars (p @ r) star = (p' @ r, s')"
    unfolding assms(3,4) by (rule skip_stars_append [OF assms(1,2)])
  show ?thesis unfolding vc_inner.simps [of "p @ r" w star] s Let_def prod.case e
    by (cases p') simp_all
qed

definition vc_ok :: "string \<Rightarrow> string \<Rightarrow> bool \<Rightarrow> string \<times> string \<times> star \<Rightarrow> bool" where
  "vc_ok r w b x \<longleftrightarrow> vc_accept x = b \<and> skip_name (fst x) = skip_name r"

lemma vc_inner_spec:
  assumes "at_name_end r" "CHR '' '' \<notin> set p" "star = star_end \<longrightarrow> p = []"
  shows "vc_ok r w (vc_spec p w star) (vc_inner (p @ r) w star)"
  using assms(2,3)
proof (induction w arbitrary: p star)
  case Nil
  let ?p = "dropWhile (\<lambda>c. c = CHR ''*'') p" and ?s = "star_after p star"
  have sp: "CHR '' '' \<notin> set ?p" using Nil.prems(1) set_dropWhileD [of _ _ p] by blast
  have hd: "?p = [] \<or> hd ?p \<noteq> CHR ''*''"
    using hd_dropWhile [of "\<lambda>c. c = CHR ''*''" p] by blast
  have "vc_spec p [] star = (?s \<noteq> star_none \<or> at_name_end (?p @ r))"
    unfolding vc_spec_skip [OF Nil.prems(2)] vc_spec_stop [OF hd]
      at_name_end_append [OF assms(1) sp] by (rule refl)
  moreover have "vc_inner (p @ r) [] star = (?p @ r, [], ?s)"
    using vc_inner_unfold [OF assms(1) Nil.prems(1) refl refl, where star = star and w = "[]"] by simp
  ultimately show ?case
    by (simp only: vc_ok_def vc_accept_def prod.case if_True fst_conv skip_name_append [OF sp] simp_thms)
next
  case (Cons x w)
  let ?p = "dropWhile (\<lambda>c. c = CHR ''*'') p" and ?s = "star_after p star"
  have sp: "CHR '' '' \<notin> set ?p" using Cons.prems(1) set_dropWhileD [of _ _ p] by blast
  have hd: "?p = [] \<or> hd ?p \<noteq> CHR ''*''"
    using hd_dropWhile [of "\<lambda>c. c = CHR ''*''" p] by blast
  have se: "?s \<noteq> star_end \<or> ?p = []"
    using Cons.prems(2) unfolding star_after_def by (cases "p = []") simp_all
  note unf = vc_inner_unfold [OF assms(1) Cons.prems(1) refl refl, where star = star and w = "x # w"]
  show ?case
  proof (cases "?p = [] \<or> cmap x \<noteq> cmap (hd ?p)")
    case True
    then have "vc_spec p (x # w) star = (?s = star_end)"
      unfolding vc_spec_skip [OF Cons.prems(2)] by (rule vc_spec_clash [OF hd se])
    moreover have "vc_inner (p @ r) (x # w) star = (?p @ r, x # w, ?s)"
      unfolding unf using True by simp
    ultimately show ?thesis
      by (simp add: vc_ok_def vc_accept_def skip_name_append [OF sp])
  next
    case False
    then obtain c q where q: "?p = c # q" "cmap x = cmap c" "c \<noteq> CHR ''*''"
      using hd by (cases ?p) auto
    have "?s \<noteq> star_end" "CHR '' '' \<notin> set q" using se q sp by auto
    then have "vc_ok r w (vc_spec q w ?s) (vc_inner (q @ r) w ?s)"
      using Cons.IH by blast
    moreover have "vc_spec p (x # w) star = vc_spec q w ?s"
      unfolding vc_spec_skip [OF Cons.prems(2)] q(1)
      by (rule vc_spec_step [OF q(3,2) \<open>?s \<noteq> star_end\<close>])
    moreover have "vc_inner (p @ r) (x # w) star = vc_inner (q @ r) w ?s"
      unfolding unf q(1) using q(2) by simp
    ultimately show ?thesis by (simp add: vc_ok_def)
  qed
qed

lemma takeWhile_name:
  obtains r where "v = takeWhile (\<lambda>c. c \<noteq> CHR '' '') v @ r" "at_name_end r"
    "CHR '' '' \<notin> set (takeWhile (\<lambda>c. c \<noteq> CHR '' '') v)"
proof
  show "v = takeWhile (\<lambda>c. c \<noteq> CHR '' '') v @ dropWhile (\<lambda>c. c \<noteq> CHR '' '') v" by simp
  show "at_name_end (dropWhile (\<lambda>c. c \<noteq> CHR '' '') v)"
    unfolding at_name_end_def
    by (induction v) (simp_all split: list.split)
  show "CHR '' '' \<notin> set (takeWhile (\<lambda>c. c \<noteq> CHR '' '') v)"
    by (auto dest: set_takeWhileD)
qed

lemma vc_spec_none: "vc_spec p w star_none = name_matches p w"
  by (auto simp: vc_spec_def name_matches_def Let_def)

lemma verbcasecmp_names:
  "verbcasecmp verb word \<longleftrightarrow> (\<exists>p \<in> set (verb_names verb). name_matches p word)"
proof (induction "length verb" arbitrary: verb rule: less_induct)
  case less
  show ?case
  proof (cases "verb = []")
    case True
    then show ?thesis by (simp add: verbcasecmp.simps verb_names.simps)
  next
    case False
    let ?p = "takeWhile (\<lambda>c. c \<noteq> CHR '' '') verb"
    obtain r where r: "verb = ?p @ r" "at_name_end r" "CHR '' '' \<notin> set ?p"
      by (rule takeWhile_name)
    have "vc_accept (vc_inner verb word star_none) = name_matches ?p word
      \<and> skip_name (fst (vc_inner verb word star_none)) = skip_name verb"
      using vc_inner_spec [OF r(2,3), of star_none word] r(1) skip_name_append [OF r(3), of r]
      by (simp add: vc_spec_none vc_ok_def)
    moreover have "verbcasecmp verb word \<longleftrightarrow> vc_accept (vc_inner verb word star_none)
        \<or> verbcasecmp (skip_name (fst (vc_inner verb word star_none))) word"
      using False unfolding verbcasecmp.simps [of verb word] vc_accept_def
      by (cases "vc_inner verb word star_none") auto
    ultimately have "verbcasecmp verb word \<longleftrightarrow>
        name_matches ?p word \<or> verbcasecmp (skip_name verb) word" by simp
    moreover have "verbcasecmp (skip_name verb) word \<longleftrightarrow>
        (\<exists>p \<in> set (verb_names (skip_name verb)). name_matches p word)"
      using less [of "skip_name verb"] length_skip_name [OF False] by simp
    ultimately show ?thesis using False by (simp add: verb_names.simps [of verb])
  qed
qed

section \<open>Hashing\<close>

definition str_hash_step :: "unsigned \<Rightarrow> char \<Rightarrow> unsigned" where
  "str_hash_step ans c = push_bit 3 ans + drop_bit 28 ans + word_of_int (cmapv c)"

definition str_hash :: "string \<Rightarrow> unsigned" where
  "str_hash s = fold (\<lambda>c ans. str_hash_step ans c) s 0"

lemma str_hash_map_cmap: "str_hash (map cmap s) = str_hash s"
proof -
  have "fold (\<lambda>c ans. str_hash_step ans c) (map cmap s) a = fold (\<lambda>c ans. str_hash_step ans c) s a" for a
    by (induction s arbitrary: a) (simp_all add: str_hash_step_def cmapv_def)
  then show ?thesis by (simp add: str_hash_def)
qed

lemma str_hash_casefold:
  assumes "cstring s" "cstring t" "mystrcasecmp s t = 0"
  shows "str_hash s = str_hash t"
  using assms mystrcasecmp_0 str_hash_map_cmap by metis

section \<open>Equality of values\<close>

text \<open>\<^verbatim>\<open>do_equals\<close> of numbers.c, called when one of the two is a float.\<close>

definition do_equals :: "var \<Rightarrow> var \<Rightarrow> bool" where
  "do_equals lhs rhs = (case (lhs, rhs) of (VFloat a, VFloat b) \<Rightarrow> dbl_eq a b | _ \<Rightarrow> False)"

definition str_equal :: "string \<Rightarrow> string \<Rightarrow> bool \<Rightarrow> bool" where
  "str_equal s t case_matters = (if case_matters then strcmp s t = 0 else mystrcasecmp s t = 0)"

text \<open>\<open>None\<close> is the \<^verbatim>\<open>panic\<close> on a value type equality does not know.\<close>

fun equality :: "var \<Rightarrow> var \<Rightarrow> bool \<Rightarrow> bool option"
  and equality_elems :: "var list \<Rightarrow> var list \<Rightarrow> bool \<Rightarrow> bool option" where
  "equality lhs rhs case_matters =
     (if type_of lhs = TYPE_FLOAT \<or> type_of rhs = TYPE_FLOAT then Some (do_equals lhs rhs)
      else if type_of lhs \<noteq> type_of rhs then Some False
      else (case lhs of
         VInt a \<Rightarrow> (case rhs of VInt b \<Rightarrow> Some (a = b) | _ \<Rightarrow> None)
       | VObj a \<Rightarrow> (case rhs of VObj b \<Rightarrow> Some (a = b) | _ \<Rightarrow> None)
       | VErr a \<Rightarrow> (case rhs of VErr b \<Rightarrow> Some (a = b) | _ \<Rightarrow> None)
       | VStr a \<Rightarrow> (case rhs of VStr b \<Rightarrow> Some (str_equal a b case_matters) | _ \<Rightarrow> None)
       | VList a \<Rightarrow> (case rhs of
             VList b \<Rightarrow> if length a \<noteq> length b then Some False
                       else equality_elems a b case_matters
           | _ \<Rightarrow> None)
       | _ \<Rightarrow> None))"
| "equality_elems (x # xs) (y # ys) case_matters =
     (case equality x y case_matters of
        None \<Rightarrow> None
      | Some b \<Rightarrow> if b then equality_elems xs ys case_matters else Some False)"
| "equality_elems _ _ case_matters = Some True"

declare equality.simps [simp del]

lemma equality_simps [simp]:
  "equality (VInt a) (VInt b) cm = Some (a = b)"
  "equality (VObj m) (VObj n) cm = Some (m = n)"
  "equality (VErr e) (VErr f) cm = Some (e = f)"
  "equality (VStr s) (VStr t) cm = Some (str_equal s t cm)"
  "equality (VFloat d) (VFloat d') cm = Some (dbl_eq d d')"
  "equality (VList xs) (VList ys) cm =
     (if length xs \<noteq> length ys then Some False else equality_elems xs ys cm)"
  by (subst equality.simps; simp add: do_equals_def)+

lemma equality_types: "type_of v \<noteq> type_of w \<Longrightarrow> equality v w cm = Some False"
  by (subst equality.simps) (auto simp: do_equals_def split: var.splits)

lemma str_equal_refl [simp]: "str_equal s s cm"
proof -
  have "strcmp s s = 0" by (induction s) auto
  then show ?thesis by (simp add: str_equal_def)
qed

lemma equality_refl: "user_value v \<Longrightarrow> equality v v cm = Some True"
proof (induction v rule: var_list_induct)
  case (leaf v)
  then show ?case by (cases v) (auto intro!: dbl_eq_refl dest: dbl_nan_or_real)
next
  case (list vs)
  have "(\<And>v. v \<in> set ws \<Longrightarrow> equality v v cm = Some True) \<Longrightarrow> equality_elems ws ws cm = Some True" for ws
    by (induction ws) auto
  then show ?case using list by simp
qed

lemma equality_leaf_defined:
  "type_of v = type_of w \<Longrightarrow> user_value v \<Longrightarrow> (\<And>vs. v \<noteq> VList vs) \<Longrightarrow> equality v w cm \<noteq> None"
  by (cases v; cases w; auto)

lemma equality_defined:
  "user_value v \<Longrightarrow> user_value w \<Longrightarrow> equality v w cm \<noteq> None"
proof (induction v arbitrary: w rule: var_list_induct)
  case (leaf v)
  then show ?case
    using equality_leaf_defined [of v w cm] equality_types [of v w cm]
    by (cases "type_of v = type_of w") auto
next
  case (list vs)
  have E: "(\<And>v w. v \<in> set xs \<Longrightarrow> user_value w \<Longrightarrow> equality v w cm \<noteq> None) \<Longrightarrow>
      \<forall>w \<in> set ys. user_value w \<Longrightarrow> equality_elems xs ys cm \<noteq> None" for xs ys
    by (induction xs ys rule: list_induct2') (auto split: option.splits)
  show ?case
  proof (cases w)
    case (VList ys)
    then show ?thesis using list E [of vs ys] by auto
  qed (simp_all add: equality_types)
qed

text \<open>
  With case significant and no floats, equality is identity; without floats and strings that differ
  in case only it is too.
\<close>

fun no_floats :: "var \<Rightarrow> bool" where
  "no_floats (VFloat _) = False"
| "no_floats (VList vs) = (\<forall>v \<in> set vs. no_floats v)"
| "no_floats _ = True"

lemma equality_leaf_exact:
  assumes "type_of v = type_of w" "user_value v" "user_value w" "no_floats v" "\<And>vs. v \<noteq> VList vs"
  shows "equality v w True = Some (v = w)"
  using assms by (cases v; cases w; auto simp: str_equal_def strcmp_0)

lemma equality_elems_iff:
  assumes "length xs = length ys"
    and "\<And>x y. x \<in> set xs \<Longrightarrow> y \<in> set ys \<Longrightarrow> equality x y cm = Some (P x y)"
  shows "equality_elems xs ys cm = Some (list_all2 P xs ys)"
  using assms by (induction xs ys rule: list_induct2) auto

lemma equality_exact:
  assumes "user_value v" "user_value w" "no_floats v" "no_floats w"
  shows "equality v w True = Some (v = w)"
  using assms
proof (induction v arbitrary: w rule: var_list_induct)
  case (leaf v)
  then show ?case
    using equality_leaf_exact [of v w] equality_types [of v w True]
    by (cases "type_of v = type_of w") auto
next
  case (list vs)
  show ?case
  proof (cases w)
    case (VList ys)
    have "equality_elems vs ys True = Some (list_all2 (=) vs ys)" if "length vs = length ys"
      using that list VList by (intro equality_elems_iff) auto
    then show ?thesis using VList by (auto simp: list.rel_eq)
  qed (simp_all add: equality_types)
qed

section \<open>Searching and replacing\<close>

definition str_at :: "string \<Rightarrow> string \<Rightarrow> bool \<Rightarrow> bool" where
  "str_at source what case_counts =
     ((if case_counts then strncmp source what (length what)
       else mystrncasecmp source what (length what)) = 0)"

text \<open>\<open>None\<close>: with an empty \<open>what\<close> the loop makes no progress and never ends.\<close>

function strsub :: "string \<Rightarrow> string \<Rightarrow> string \<Rightarrow> bool \<Rightarrow> string option" where
  "strsub source what repl case_counts =
     (case source of
        [] \<Rightarrow> Some []
      | c # rest \<Rightarrow>
          if str_at source what case_counts then
            (if what = [] then None
             else map_option (\<lambda>t. repl @ t)
                    (strsub (drop (length what) source) what repl case_counts))
          else map_option (\<lambda>t. c # t) (strsub rest what repl case_counts))"
  by pat_completeness auto
termination
  by (relation "measure (\<lambda>(source, _). length source)") auto

declare strsub.simps [simp del]

fun strindex_loop :: "string \<Rightarrow> string \<Rightarrow> bool \<Rightarrow> nat \<Rightarrow> nat" where
  "strindex_loop s what case_counts pos =
     (if length s < length what then 0
      else if str_at s what case_counts then pos + 1
      else case s of [] \<Rightarrow> 0 | _ # s' \<Rightarrow> strindex_loop s' what case_counts (pos + 1))"

declare strindex_loop.simps [simp del]

definition strindex :: "string \<Rightarrow> string \<Rightarrow> bool \<Rightarrow> nat" where
  "strindex source what case_counts = strindex_loop source what case_counts 0"

text \<open>The downward loop: \<open>k\<close> start positions are left, the last one at offset \<open>k - 1\<close>.\<close>

fun strrindex_loop :: "string \<Rightarrow> string \<Rightarrow> bool \<Rightarrow> nat \<Rightarrow> nat" where
  "strrindex_loop source what case_counts 0 = 0"
| "strrindex_loop source what case_counts (Suc k) =
     (if str_at (drop k source) what case_counts then k + 1
      else strrindex_loop source what case_counts k)"

definition strrindex :: "string \<Rightarrow> string \<Rightarrow> bool \<Rightarrow> nat" where
  "strrindex source what case_counts =
     strrindex_loop source what case_counts (Suc (length source) - length what)"

lemma strindex_loop_spec:
  "(strindex_loop s what cm pos = 0 \<and>
      (\<forall>k. k + length what \<le> length s \<longrightarrow> \<not> str_at (drop k s) what cm))
   \<or> (\<exists>k. strindex_loop s what cm pos = pos + k + 1 \<and> k + length what \<le> length s
       \<and> str_at (drop k s) what cm \<and> (\<forall>j < k. \<not> str_at (drop j s) what cm))"
proof (induction s arbitrary: pos)
  case Nil
  show ?case by (subst (1 2) strindex_loop.simps) auto
next
  case (Cons c s)
  show ?case
  proof (cases "length (c # s) < length what \<or> str_at (c # s) what cm")
    case True
    then show ?thesis by (auto simp: strindex_loop.simps)
  next
    case False
    let ?r = "strindex_loop s what cm (pos + 1)"
    have r: "strindex_loop (c # s) what cm pos = ?r"
      using False by (simp add: strindex_loop.simps [of "c # s"])
    from Cons.IH [of "pos + 1"] show ?thesis
    proof (elim disjE exE conjE)
      assume "?r = 0" and a: "\<forall>k. k + length what \<le> length s \<longrightarrow> \<not> str_at (drop k s) what cm"
      moreover have "\<not> str_at (drop k (c # s)) what cm" if "k + length what \<le> length (c # s)" for k
        using False a that by (cases k) auto
      ultimately show ?thesis using r by auto
    next
      fix k assume "?r = pos + 1 + k + 1" "k + length what \<le> length s" "str_at (drop k s) what cm"
        and a: "\<forall>j<k. \<not> str_at (drop j s) what cm"
      moreover have "\<not> str_at (drop j (c # s)) what cm" if "j < Suc k" for j
        using False a that by (cases j) auto
      ultimately show ?thesis using r by (intro disjI2 exI [of _ "Suc k"]) auto
    qed
  qed
qed

lemma strrindex_loop_spec:
  "(strrindex_loop s what cm n = 0 \<and> (\<forall>k < n. \<not> str_at (drop k s) what cm))
   \<or> (\<exists>k < n. strrindex_loop s what cm n = k + 1 \<and> str_at (drop k s) what cm
       \<and> (\<forall>j. k < j \<and> j < n \<longrightarrow> \<not> str_at (drop j s) what cm))"
proof (induction n)
  case (Suc n)
  show ?case
  proof (cases "str_at (drop n s) what cm")
    case True
    then show ?thesis by (intro disjI2 exI [of _ n]) auto
  next
    case False
    from Suc.IH show ?thesis
    proof (elim disjE exE conjE)
      assume "strrindex_loop s what cm n = 0" "\<forall>k<n. \<not> str_at (drop k s) what cm"
      then show ?thesis using False by (auto simp: less_Suc_eq)
    next
      fix k assume "k < n" "strrindex_loop s what cm n = k + 1" "str_at (drop k s) what cm"
        "\<forall>j. k < j \<and> j < n \<longrightarrow> \<not> str_at (drop j s) what cm"
      then show ?thesis using False by (intro disjI2 exI [of _ k]) (auto simp: less_Suc_eq)
    qed
  qed
qed simp

section \<open>Sizes\<close>

text \<open>\<^verbatim>\<open>sizeof\<close> on the 64-bit platforms: a \<^verbatim>\<open>Var\<close> is an 8-byte union and a tag, padded to 16.\<close>

definition sizeof_Var :: int where "sizeof_Var = 16"
definition sizeof_double :: int where "sizeof_double = 8"

fun value_bytes :: "var \<Rightarrow> int" where
  "value_bytes (VStr s) = sizeof_Var + int (length s) + 1"
| "value_bytes (VFloat _) = sizeof_Var + sizeof_double"
| "value_bytes (VList vs) = sizeof_Var + sizeof_Var + sum_list (map value_bytes vs)"
| "value_bytes _ = sizeof_Var"

section \<open>Binary strings\<close>

definition raw_byte_text :: "char \<Rightarrow> string" where
  "raw_byte_text c =
     (if c \<noteq> CHR ''~'' \<and> (isgraph c \<or> c = CHR '' '') then [c]
      else the (fmt_expand ''~%02x'' [FA_int (of_nat (ch c))]))"

definition raw_bytes_to_binary :: "string \<Rightarrow> string" where
  "raw_bytes_to_binary buffer = concat (map raw_byte_text buffer)"

text \<open>One hexadecimal digit after a tilde: \<^verbatim>\<open>toupper(*ptr++)\<close> and its value.\<close>

definition hex_value :: "char \<Rightarrow> nat option" where
  "hex_value c0 =
     (let c = toupper c0 in
      if 48 \<le> ch c \<and> ch c \<le> 57 \<or> 65 \<le> ch c \<and> ch c \<le> 70
      then Some (if ch c \<le> 57 then ch c - 48 else ch c - 65 + 10) else None)"

fun binary_to_raw_bytes :: "string \<Rightarrow> string option" where
  "binary_to_raw_bytes [] = Some []"
| "binary_to_raw_bytes (c # ptr) =
     (if c \<noteq> CHR ''~'' then map_option (\<lambda>t. c # t) (binary_to_raw_bytes ptr)
      else (case ptr of
         h1 # h2 # rest \<Rightarrow>
           (case hex_value h1 of
              None \<Rightarrow> None
            | Some a \<Rightarrow>
                (case hex_value h2 of
                   None \<Rightarrow> None
                 | Some b \<Rightarrow> map_option (\<lambda>t. char_of (a * 16 + b) # t) (binary_to_raw_bytes rest)))
       | _ \<Rightarrow> None))"

lemma hex_value_digit: "d < 16 \<Longrightarrow> hex_value (digit_char d) = Some d"
  by (auto simp: hex_value_def toupper_def digit_char_def)

lemma itoa_of_nat:
  assumes "n < 2147483648"
  shows "itoa (of_nat n) r = (if n = 0 then ''0'' else itoa_digits n r [])"
proof -
  have s: "sint (of_nat n :: int32) = int n" using assms by (rule sint32_of_nat)
  then have "(of_nat n :: int32) = 0 \<longleftrightarrow> n = 0" by (cases "n = 0") auto
  moreover have "(of_nat n :: int32) \<noteq> INT_MIN" using s by auto
  ultimately show ?thesis using s by (simp add: itoa_def)
qed

lemma itoa_digits_hex:
  assumes "0 < n" "n < 256"
  shows "itoa_digits n 16 [] =
    (if n < 16 then [digit_char n] else [digit_char (n div 16), digit_char (n mod 16)])"
proof -
  have z: "itoa_digits 0 16 xs = xs" for xs by (simp add: itoa_digits.simps)
  have one: "itoa_digits m 16 xs = digit_char m # xs" if "0 < m" "m < 16" for m xs
    using that z by (simp add: itoa_digits.simps [of m])
  show ?thesis
  proof (cases "n < 16")
    case False
    then have "n div 16 < 16" "0 < n div 16" using assms by (auto simp: div_greater_zero_iff)
    then have "itoa_digits (n div 16) 16 [digit_char (n mod 16)]
        = [digit_char (n div 16), digit_char (n mod 16)]" using one by simp
    then show ?thesis using False assms by (simp add: itoa_digits.simps [of n])
  qed (simp add: one assms)
qed

lemma itoa_hex_byte:
  assumes "n < 256"
  shows "fmt_expand ''~%02x'' [FA_int (of_nat n)] =
    Some [CHR ''~'', digit_char (n div 16), digit_char (n mod 16)]"
proof -
  have e: "fmt_expand ''~%02x'' [FA_int i] =
      Some (CHR ''~'' # replicate (2 - length (itoa i 16)) (CHR ''0'') @ itoa i 16)" for i
    by (simp add: fmt_expand.simps isdigit_def ch_def)
  show ?thesis
    unfolding e using assms itoa_digits_hex [of n]
    by (cases "n = 0"; cases "n < 16") (simp_all add: itoa_of_nat itoa_def [of 0] numeral_2_eq_2)
qed

lemma binary_to_raw_raw_byte:
  "binary_to_raw_bytes (raw_byte_text c @ t) = map_option (\<lambda>u. c # u) (binary_to_raw_bytes t)"
proof (cases "c \<noteq> CHR ''~'' \<and> (isgraph c \<or> c = CHR '' '')")
  case True
  then show ?thesis by (simp add: raw_byte_text_def)
next
  case False
  have "ch c div 16 < 16" using ch_less [of c] by (simp add: less_mult_imp_div_less)
  then show ?thesis unfolding raw_byte_text_def if_not_P [OF False] itoa_hex_byte [OF ch_less]
    by (simp add: hex_value_digit)
qed

lemma binary_roundtrip: "binary_to_raw_bytes (raw_bytes_to_binary bs) = Some bs"
  unfolding raw_bytes_to_binary_def
  by (induction bs) (simp_all add: binary_to_raw_raw_byte)

lemma raw_bytes_to_binary_cstring: "cstring (raw_bytes_to_binary bs)"
proof -
  have g: "isgraph c \<Longrightarrow> c \<noteq> CHR 0x00" for c by (auto simp: isgraph_def)
  have d: "digit_char d \<noteq> CHR 0x00" if "d < 16" for d
  proof -
    have "0 < ch (digit_char d)" using that by (simp add: digit_char_def)
    then show ?thesis by auto
  qed
  have "cstring (raw_byte_text c)" for c
  proof (cases "c \<noteq> CHR ''~'' \<and> (isgraph c \<or> c = CHR '' '')")
    case True
    then show ?thesis using g by (auto simp: raw_byte_text_def)
  next
    case False
    have "ch c div 16 < 16" using ch_less [of c] by (simp add: less_mult_imp_div_less)
    then show ?thesis unfolding raw_byte_text_def if_not_P [OF False] itoa_hex_byte [OF ch_less]
      by (simp add: d)
  qed
  then show ?thesis unfolding raw_bytes_to_binary_def by (induction bs) simp_all
qed

section \<open>Properties\<close>


text \<open>C24: \<^verbatim>\<open>strindex\<close> returns the 1-based position of the first occurrence and \<^verbatim>\<open>strrindex\<close> that of the
  last, and \<open>0\<close> exactly when there is none; an empty word occurs everywhere.\<close>

theorem strindex_strrindex_correct:
  "(let occurs = (\<lambda>k. k + length what \<le> length source \<and> str_at (drop k source) what case_counts) in
    (if \<exists>k. occurs k
     then strindex source what case_counts = (LEAST k. occurs k) + 1
       \<and> strrindex source what case_counts = (GREATEST k. occurs k) + 1
     else strindex source what case_counts = 0 \<and> strrindex source what case_counts = 0))"
proof -
  define occurs where
    "occurs = (\<lambda>k. k + length what \<le> length source \<and> str_at (drop k source) what case_counts)"
  have less: "k < Suc (length source) - length what \<longleftrightarrow> k + length what \<le> length source" for k by auto
  note first = strindex_loop_spec [of source what case_counts 0, folded strindex_def]
  note last = strrindex_loop_spec [of source what case_counts "Suc (length source) - length what",
      folded strrindex_def, unfolded less]
  show ?thesis
  proof (cases "\<exists>k. occurs k")
    case True
    obtain k where k: "strindex source what case_counts = k + 1" "occurs k" "\<forall>j < k. \<not> occurs j"
      using first True unfolding occurs_def by auto
    obtain l where l: "strrindex source what case_counts = l + 1" "occurs l" "\<forall>j > l. \<not> occurs j"
      using last True unfolding occurs_def by auto
    have "(LEAST k. occurs k) = k" using k by (intro Least_equality) (auto simp: not_less [symmetric])
    moreover have "(GREATEST k. occurs k) = l" using l by (intro Greatest_equality) (auto simp: not_less [symmetric])
    ultimately show ?thesis using True k(1) l(1) by (simp add: occurs_def [symmetric] Let_def)
  next
    case False
    then show ?thesis using first last by (auto simp: occurs_def Let_def)
  qed
qed

text \<open>C27: the hash of the intern and property tables respects the case-insensitive comparison: names
  that \<^verbatim>\<open>mystrcasecmp\<close> calls equal have the same \<^verbatim>\<open>str_hash\<close>.\<close>

theorem str_hash_respects_case:
  assumes "cstring s" "cstring t" "mystrcasecmp s t = 0"
  shows "str_hash s = str_hash t"
  using assms by (rule str_hash_casefold)

theorem str_hash_respects_case_witness: "str_hash ''Look'' = str_hash ''lOOk''"
  by (rule str_hash_respects_case) (simp, simp, code_simp)

text \<open>C25: on values a program can hold, \<^verbatim>\<open>equality\<close> never panics, every value equals itself in both
  modes, and with case significant it is identity on values without floats.\<close>

theorem equality_total_and_exact:
  assumes "user_value v" "user_value w"
  shows "\<exists>b. equality v w case_matters = Some b
    \<and> equality v v case_matters = Some True
    \<and> (no_floats v \<longrightarrow> no_floats w \<longrightarrow> equality v w True = Some (v = w))"
  using assms equality_defined [of v w case_matters] equality_refl [of v case_matters]
    equality_exact [of v w] by auto

theorem equality_total_and_exact_witness:
  "\<exists>b. equality (VList [VInt 1, VStr ''a'']) (VList [VInt 1, VStr ''b'']) False = Some b"
  using equality_total_and_exact [of "VList [VInt 1, VStr ''a'']" "VList [VInt 1, VStr ''b'']" False]
  by (simp add: cstring_def)

end
