(* ===== verification/CodeGen.thy ===== *)
theory CodeGen
  imports Ast Utils "HOL-Library.Monad_Syntax"
begin

text \<open>
  The code generator (code_gen.c).  Code is generated with one-byte placeholders for the operands, described
  by fixups; when a vector is complete, the width of each kind of operand is known and the operands are
  expanded.  An action that can fail is \<open>None\<close>: a \<^verbatim>\<open>panic\<close>, or an unsigned count that would wrap
  below zero.  Counts are natural numbers (a program of \<open>2 ^ 32\<close> bytes does not fit in memory);
  \<^verbatim>\<open>UINT_MAX\<close> as ``no saved stack'' is \<open>None\<close>, and the list of loops has the innermost first.
\<close>

section \<open>State\<close>

datatype fixup_kind = FIXUP_LITERAL | FIXUP_FORK | FIXUP_LABEL | FIXUP_VAR_REF | FIXUP_STACK

record fixup =
  fx_kind :: fixup_kind
  fx_pc :: nat
  fx_value :: nat
  prev_literals :: nat
  prev_forks :: nat
  prev_var_refs :: nat
  prev_labels :: nat
  prev_stacks :: nat
  fx_next :: int

record gstate =
  total_var_refs :: nat
  g_literals :: "var list"
  g_fork_vectors :: "bytecodes list"

record cg_loop =
  lp_id :: int
  top_label :: fixup
  top_stack :: nat
  bottom_label :: int
  bottom_stack :: nat

record cg_state =
  max_literal :: nat
  max_fork :: nat
  max_var_ref :: nat
  num_literals :: nat
  num_forks :: nat
  num_var_refs :: nat
  num_labels :: nat
  num_stacks :: nat
  fixups :: "fixup list"
  cg_bytes :: "byte list"
  cur_stack :: nat
  max_stack :: nat
  saved_stack :: "nat option"
  loops :: "cg_loop list"
  gst :: gstate

definition init_gstate :: gstate where
  "init_gstate = \<lparr>total_var_refs = 0, g_literals = [], g_fork_vectors = []\<rparr>"

definition init_state :: "gstate \<Rightarrow> cg_state" where
  "init_state g = \<lparr>max_literal = 0, max_fork = 0, max_var_ref = 0, num_literals = 0, num_forks = 0,
     num_var_refs = 0, num_labels = 0, num_stacks = 0, fixups = [], cg_bytes = [], cur_stack = 0,
     max_stack = 0, saved_stack = None, loops = [], gst = g\<rparr>"

definition num_bytes :: "cg_state \<Rightarrow> nat" where
  "num_bytes s = length (cg_bytes s)"

section \<open>Emitting\<close>

definition emit_byte :: "nat \<Rightarrow> cg_state \<Rightarrow> cg_state" where
  "emit_byte b s = s\<lparr>cg_bytes := cg_bytes s @ [word_of_nat b]\<rparr>"

definition emit_op :: "opcode \<Rightarrow> cg_state \<Rightarrow> cg_state" where
  "emit_op op s = emit_byte (opcode_num op) s"

definition emit_extended_byte :: "extended_opcode \<Rightarrow> cg_state \<Rightarrow> cg_state" where
  "emit_extended_byte eop s = emit_byte (extended_opcode_num eop) (emit_op OP_EXTENDED s)"

definition add_known_fixup :: "fixup \<Rightarrow> cg_state \<Rightarrow> int \<times> cg_state" where
  "add_known_fixup f s =
     (int (length (fixups s)), emit_byte 0 (s\<lparr>fixups := fixups s @ [f\<lparr>fx_pc := num_bytes s\<rparr>]\<rparr>))"

text \<open>A fixup that describes the present position.\<close>

definition here :: "fixup_kind \<Rightarrow> nat \<Rightarrow> int \<Rightarrow> cg_state \<Rightarrow> fixup" where
  "here kind v nxt s = \<lparr>fx_kind = kind, fx_pc = 0, fx_value = v, prev_literals = num_literals s,
     prev_forks = num_forks s, prev_var_refs = num_var_refs s, prev_labels = num_labels s,
     prev_stacks = num_stacks s, fx_next = nxt\<rparr>"

definition add_linked_fixup :: "fixup_kind \<Rightarrow> nat \<Rightarrow> int \<Rightarrow> cg_state \<Rightarrow> int \<times> cg_state" where
  "add_linked_fixup kind v nxt s = add_known_fixup (here kind v nxt s) s"

definition add_fixup :: "fixup_kind \<Rightarrow> nat \<Rightarrow> cg_state \<Rightarrow> cg_state" where
  "add_fixup kind v s = snd (add_linked_fixup kind v (-1) s)"

text \<open>The position of a value among the literals: same type and \<^verbatim>\<open>equality\<close>, which panics on markers.
  Interning a new string (str_intern.c) only shares its memory.\<close>

fun find_literal :: "var \<Rightarrow> var list \<Rightarrow> nat \<Rightarrow> nat option" where
  "find_literal v [] i = Some i"
| "find_literal v (l # ls) i =
     (if type_of v = type_of l
      then (case equality v l True of
              None \<Rightarrow> None
            | Some b \<Rightarrow> if b then Some i else find_literal v ls (i + 1))
      else find_literal v ls (i + 1))"

definition add_literal :: "var \<Rightarrow> cg_state \<Rightarrow> cg_state option" where
  "add_literal v s = do {
     let ls = g_literals (gst s);
     i \<leftarrow> find_literal v ls 0;
     let s = (if i = length ls then s\<lparr>gst := (gst s)\<lparr>g_literals := ls @ [v]\<rparr>\<rparr> else s);
     let s = add_fixup FIXUP_LITERAL i s;
     Some (s\<lparr>num_literals := num_literals s + 1, max_literal := max i (max_literal s)\<rparr>) }"

definition add_fork :: "bytecodes \<Rightarrow> cg_state \<Rightarrow> cg_state" where
  "add_fork b s =
     (let i = length (g_fork_vectors (gst s));
          s = s\<lparr>gst := (gst s)\<lparr>g_fork_vectors := g_fork_vectors (gst s) @ [b]\<rparr>\<rparr>;
          s = add_fixup FIXUP_FORK i s
      in s\<lparr>num_forks := num_forks s + 1, max_fork := max i (max_fork s)\<rparr>)"

definition add_var_ref :: "nat \<Rightarrow> cg_state \<Rightarrow> cg_state" where
  "add_var_ref slot s =
     (let s = add_fixup FIXUP_VAR_REF slot s in
      s\<lparr>num_var_refs := num_var_refs s + 1, max_var_ref := max slot (max_var_ref s),
        gst := (gst s)\<lparr>total_var_refs := total_var_refs (gst s) + 1\<rparr>\<rparr>)"

definition count_label :: "int \<times> cg_state \<Rightarrow> int \<times> cg_state" where
  "count_label r = (case r of (label, s) \<Rightarrow> (label, s\<lparr>num_labels := num_labels s + 1\<rparr>))"

definition add_linked_label :: "int \<Rightarrow> cg_state \<Rightarrow> int \<times> cg_state" where
  "add_linked_label nxt s = count_label (add_linked_fixup FIXUP_LABEL 0 nxt s)"

definition add_label :: "cg_state \<Rightarrow> int \<times> cg_state" where
  "add_label s = add_linked_label (-1) s"

definition add_pseudo_label :: "nat \<Rightarrow> cg_state \<Rightarrow> cg_state" where
  "add_pseudo_label v s = snd (count_label (add_known_fixup
     \<lparr>fx_kind = FIXUP_LABEL, fx_pc = 0, fx_value = v, prev_literals = 0, prev_forks = 0, prev_var_refs = 0,
      prev_labels = 0, prev_stacks = 0, fx_next = -1\<rparr> s))"

definition add_known_label :: "fixup \<Rightarrow> cg_state \<Rightarrow> cg_state" where
  "add_known_label f s = snd (count_label (add_known_fixup f s))"

definition capture_label :: "cg_state \<Rightarrow> fixup" where
  "capture_label s = here FIXUP_LABEL (num_bytes s) (-1) s"

text \<open>The walk down a chain of labels; every link goes to an earlier fixup, so there are at most as many
  steps as fixups.\<close>

fun define_chain :: "nat \<Rightarrow> int \<Rightarrow> fixup \<Rightarrow> fixup list \<Rightarrow> fixup list option" where
  "define_chain n label h fs =
     (if label = -1 then Some fs
      else (case n of
        0 \<Rightarrow> None
      | Suc n \<Rightarrow>
          if 0 \<le> label \<and> label < int (length fs)
          then (let f = fs ! nat label in
                define_chain n (fx_next f) h (fs[nat label := f\<lparr>fx_value := fx_value h,
                  prev_literals := prev_literals h, prev_forks := prev_forks h,
                  prev_var_refs := prev_var_refs h, prev_labels := prev_labels h,
                  prev_stacks := prev_stacks h\<rparr>]))
          else None))"

declare define_chain.simps [simp del]

definition define_label :: "int \<Rightarrow> cg_state \<Rightarrow> cg_state option" where
  "define_label label s =
     map_option (\<lambda>fs. s\<lparr>fixups := fs\<rparr>)
       (define_chain (length (fixups s)) label (capture_label s) (fixups s))"

definition add_stack_ref :: "nat \<Rightarrow> cg_state \<Rightarrow> cg_state" where
  "add_stack_ref index s = add_fixup FIXUP_STACK index s"

definition push_stack :: "nat \<Rightarrow> cg_state \<Rightarrow> cg_state" where
  "push_stack n s = s\<lparr>cur_stack := cur_stack s + n, max_stack := max (cur_stack s + n) (max_stack s)\<rparr>"

definition pop_stack :: "nat \<Rightarrow> cg_state \<Rightarrow> cg_state option" where
  "pop_stack n s = (if n \<le> cur_stack s then Some (s\<lparr>cur_stack := cur_stack s - n\<rparr>) else None)"

definition save_stack_top :: "cg_state \<Rightarrow> (nat option \<times> cg_state) option" where
  "save_stack_top s =
     (if cur_stack s = 0 then None else Some (saved_stack s, s\<lparr>saved_stack := Some (cur_stack s - 1)\<rparr>))"

definition restore_stack_top :: "nat option \<Rightarrow> cg_state \<Rightarrow> cg_state" where
  "restore_stack_top old s = s\<lparr>saved_stack := old\<rparr>"

definition enter_loop :: "int \<Rightarrow> fixup \<Rightarrow> nat \<Rightarrow> int \<Rightarrow> nat \<Rightarrow> cg_state \<Rightarrow> cg_state" where
  "enter_loop i top_l top_s bottom_l bottom_s s =
     s\<lparr>loops := \<lparr>lp_id = i, top_label = top_l, top_stack = top_s, bottom_label = bottom_l,
       bottom_stack = bottom_s\<rparr> # loops s\<rparr>"

definition exit_loop :: "cg_state \<Rightarrow> (int \<times> cg_state) option" where
  "exit_loop s = (case loops s of [] \<Rightarrow> None | l # ls \<Rightarrow> Some (bottom_label l, s\<lparr>loops := ls\<rparr>))"

definition emit_var_op :: "opcode \<Rightarrow> nat \<Rightarrow> cg_state \<Rightarrow> cg_state" where
  "emit_var_op op slot s =
     (if slot \<ge> NUM_READY_VARS then add_var_ref slot (emit_byte (opcode_num op + NUM_READY_VARS) s)
      else emit_byte (opcode_num op + slot) s)"

section \<open>Expressions\<close>

fun bin_opcode :: "bin_kind \<Rightarrow> opcode" where
  "bin_opcode EXPR_EQ = OP_EQ" | "bin_opcode EXPR_NE = OP_NE" | "bin_opcode EXPR_GE = OP_GE"
| "bin_opcode EXPR_GT = OP_GT" | "bin_opcode EXPR_LE = OP_LE" | "bin_opcode EXPR_LT = OP_LT"
| "bin_opcode EXPR_IN = OP_IN" | "bin_opcode EXPR_PLUS = OP_ADD" | "bin_opcode EXPR_MINUS = OP_MINUS"
| "bin_opcode EXPR_TIMES = OP_MULT" | "bin_opcode EXPR_DIVIDE = OP_DIV" | "bin_opcode EXPR_MOD = OP_MOD"
| "bin_opcode EXPR_PROP = OP_GET_PROP"

definition emit_constant :: "var \<Rightarrow> cg_state \<Rightarrow> cg_state option" where
  "emit_constant v s =
     (case v of
        VInt n \<Rightarrow>
          if IN_OPTIM_NUM_RANGE (sint n) then Some (emit_byte (OPTIM_NUM_TO_OPCODE (sint n)) s)
          else add_literal v (emit_op OP_IMM s)
      | _ \<Rightarrow> add_literal v (emit_op OP_IMM s))"

text \<open>The stores of an assignment, from the inside out; the flag says whether one was indexed.\<close>

fun store_lvalue :: "expr \<Rightarrow> bool \<Rightarrow> cg_state \<Rightarrow> (bool \<times> cg_state) option" where
  "store_lvalue (EXPR_RANGE base _ _) indexed s = do {
     s \<leftarrow> pop_stack 3 (emit_extended_byte EOP_RANGESET s);
     store_lvalue base True s }"
| "store_lvalue (EXPR_INDEX lhs _) indexed s = do {
     s \<leftarrow> pop_stack 2 (emit_op OP_INDEXSET s);
     store_lvalue lhs True s }"
| "store_lvalue (EXPR_ID i) indexed s = Some (indexed, emit_var_op OP_PUT i s)"
| "store_lvalue (EXPR_BIN EXPR_PROP _ _) indexed s = do {
     s \<leftarrow> pop_stack 2 (emit_op OP_PUT_PROP s);
     Some (indexed, s) }"
| "store_lvalue _ indexed s = None"

fun is_indexed_lvalue :: "expr \<Rightarrow> bool" where
  "is_indexed_lvalue (EXPR_RANGE _ _ _) = True"
| "is_indexed_lvalue (EXPR_INDEX _ _) = True"
| "is_indexed_lvalue _ = False"

text \<open>The operands of a scattering assignment; the second component has the label of each optional
  variable with a default, \<open>-1\<close> for the others.\<close>

definition scatter_nargs :: "scatter list \<Rightarrow> nat" where
  "scatter_nargs scs = length scs"

definition scatter_nreq :: "scatter list \<Rightarrow> nat" where
  "scatter_nreq scs = length (filter (\<lambda>sc. case sc of Scatter k _ _ \<Rightarrow> k = SCAT_REQUIRED) scs)"

text \<open>The position of the last rest variable, or one past the end.\<close>

fun scatter_rest :: "scatter list \<Rightarrow> nat \<Rightarrow> nat option \<Rightarrow> nat" where
  "scatter_rest [] nargs rest = (case rest of None \<Rightarrow> nargs + 1 | Some r \<Rightarrow> r)"
| "scatter_rest (Scatter k _ _ # scs) nargs rest =
     scatter_rest scs (nargs + 1) (if k = SCAT_REST then Some (nargs + 1) else rest)"

fun scatter_operands :: "scatter list \<Rightarrow> cg_state \<Rightarrow> int list \<times> cg_state" where
  "scatter_operands [] s = ([], s)"
| "scatter_operands (Scatter k i dflt # scs) s =
     (let s = add_var_ref i s;
          (label, s) = (if k \<noteq> SCAT_OPTIONAL then (-1, add_pseudo_label 0 s)
                        else (case dflt of None \<Rightarrow> (-1, add_pseudo_label 1 s) | Some _ \<Rightarrow> add_label s));
          (labels, s) = scatter_operands scs s
      in (label # labels, s))"

text \<open>The arguments of a list: \<open>first\<close> until one has been generated.\<close>

fun arg_opcode :: "bool \<Rightarrow> arg_kind \<Rightarrow> opcode" where
  "arg_opcode True ARG_NORMAL = OP_MAKE_SINGLETON_LIST"
| "arg_opcode True ARG_SPLICE = OP_CHECK_LIST_FOR_SPLICE"
| "arg_opcode False ARG_NORMAL = OP_LIST_ADD_TAIL"
| "arg_opcode False ARG_SPLICE = OP_LIST_APPEND"

fun generate_expr :: "expr \<Rightarrow> cg_state \<Rightarrow> cg_state option"
and generate_arg_list :: "bool \<Rightarrow> arg list \<Rightarrow> cg_state \<Rightarrow> cg_state option"
and generate_defaults :: "scatter list \<Rightarrow> int list \<Rightarrow> cg_state \<Rightarrow> cg_state option"
and push_lvalue :: "expr \<Rightarrow> bool \<Rightarrow> cg_state \<Rightarrow> cg_state option" where
  "generate_expr (EXPR_VAR v) s = map_option (push_stack 1) (emit_constant v s)"
| "generate_expr (EXPR_ID i) s = Some (push_stack 1 (emit_var_op OP_PUSH i s))"
| "generate_expr (EXPR_AND l r) s = do {
     s \<leftarrow> generate_expr l s;
     let (end_label, s) = add_label (emit_op OP_AND s);
     s \<leftarrow> pop_stack 1 s;
     s \<leftarrow> generate_expr r s;
     define_label end_label s }"
| "generate_expr (EXPR_OR l r) s = do {
     s \<leftarrow> generate_expr l s;
     let (end_label, s) = add_label (emit_op OP_OR s);
     s \<leftarrow> pop_stack 1 s;
     s \<leftarrow> generate_expr r s;
     define_label end_label s }"
| "generate_expr (EXPR_NEGATE e) s = map_option (emit_op OP_UNARY_MINUS) (generate_expr e s)"
| "generate_expr (EXPR_NOT e) s = map_option (emit_op OP_NOT) (generate_expr e s)"
| "generate_expr (EXPR_BIN k l r) s = do {
     s \<leftarrow> generate_expr l s;
     s \<leftarrow> generate_expr r s;
     pop_stack 1 (emit_op (bin_opcode k) s) }"
| "generate_expr (EXPR_EXP l r) s = do {
     s \<leftarrow> generate_expr l s;
     s \<leftarrow> generate_expr r s;
     pop_stack 1 (emit_extended_byte EOP_EXP s) }"
| "generate_expr (EXPR_INDEX l r) s = do {
     s \<leftarrow> generate_expr l s;
     (old, s) \<leftarrow> save_stack_top s;
     s \<leftarrow> generate_expr r s;
     pop_stack 1 (emit_op OP_REF (restore_stack_top old s)) }"
| "generate_expr (EXPR_RANGE base from to) s = do {
     s \<leftarrow> generate_expr base s;
     (old, s) \<leftarrow> save_stack_top s;
     s \<leftarrow> generate_expr from s;
     s \<leftarrow> generate_expr to s;
     pop_stack 2 (emit_op OP_RANGE_REF (restore_stack_top old s)) }"
| "generate_expr EXPR_LENGTH s =
     (case saved_stack s of
        None \<Rightarrow> None
      | Some saved \<Rightarrow> Some (push_stack 1 (add_stack_ref saved (emit_extended_byte EOP_LENGTH s))))"
| "generate_expr (EXPR_LIST args) s = generate_arg_list True args s"
| "generate_expr (EXPR_CALL func args) s = do {
     s \<leftarrow> generate_arg_list True args s;
     Some (emit_byte func (emit_op OP_BI_FUNC_CALL s)) }"
| "generate_expr (EXPR_VERB obj verb args) s = do {
     s \<leftarrow> generate_expr obj s;
     s \<leftarrow> generate_expr verb s;
     s \<leftarrow> generate_arg_list True args s;
     pop_stack 2 (emit_op OP_CALL_VERB s) }"
| "generate_expr (EXPR_COND c t e) s = do {
     s \<leftarrow> generate_expr c s;
     let (else_label, s) = add_label (emit_op OP_IF_QUES s);
     s \<leftarrow> pop_stack 1 s;
     s \<leftarrow> generate_expr t s;
     let (end_label, s) = add_label (emit_op OP_JUMP s);
     s \<leftarrow> pop_stack 1 s;
     s \<leftarrow> define_label else_label s;
     s \<leftarrow> generate_expr e s;
     define_label end_label s }"
| "generate_expr (EXPR_ASGN lhs rhs) s =
     (case lhs of
        EXPR_SCATTER scs \<Rightarrow> do {
          s \<leftarrow> generate_expr rhs s;
          let s = emit_extended_byte EOP_SCATTER s;
          let s = emit_byte (scatter_nargs scs) s;
          let s = emit_byte (scatter_nreq scs) s;
          let s = emit_byte (scatter_rest scs 0 None) s;
          let (labels, s) = scatter_operands scs s;
          let (done_label, s) = add_label s;
          s \<leftarrow> generate_defaults scs labels s;
          define_label done_label s }
      | _ \<Rightarrow> do {
          s \<leftarrow> push_lvalue lhs False s;
          s \<leftarrow> generate_expr rhs s;
          let s = (if is_indexed_lvalue lhs then emit_op OP_PUT_TEMP s else s);
          (indexed, s) \<leftarrow> store_lvalue lhs False s;
          Some (if indexed then emit_op OP_PUSH_TEMP (emit_op OP_POP s) else s) })"
| "generate_expr (EXPR_CATCH e codes except) s = do {
     s \<leftarrow> (if codes = [] then Some (push_stack 1 (emit_byte (OPTIM_NUM_TO_OPCODE 0) s))
           else generate_arg_list True codes s);
     let (handler_label, s) = add_label (emit_extended_byte EOP_PUSH_LABEL s);
     let s = push_stack 1 s;
     let s = push_stack 1 (emit_extended_byte EOP_CATCH s);
     s \<leftarrow> generate_expr e s;
     let (end_label, s) = add_label (emit_extended_byte EOP_END_CATCH s);
     s \<leftarrow> pop_stack 3 s;
     s \<leftarrow> define_label handler_label s;
     s \<leftarrow> (case except of
             Some h \<Rightarrow> do {
               s \<leftarrow> pop_stack 1 (emit_op OP_POP s);
               generate_expr h s }
           | None \<Rightarrow> Some (emit_op OP_REF (emit_byte (OPTIM_NUM_TO_OPCODE 1) s)));
     define_label end_label s }"
| "generate_expr (EXPR_SCATTER _) s = None"
| "generate_arg_list first [] s =
     (if first then Some (push_stack 1 (emit_op OP_MAKE_EMPTY_LIST s)) else Some s)"
| "generate_arg_list first (Arg k e # args) s = do {
     s \<leftarrow> generate_expr e s;
     s \<leftarrow> pop_stack (if first then 0 else 1) (emit_op (arg_opcode first k) s);
     generate_arg_list False args s }"
| "generate_defaults [] labels s = Some s"
| "generate_defaults (Scatter k i dflt # scs) labels s =
     (case labels of
        [] \<Rightarrow> None
      | label # labels \<Rightarrow>
          (case dflt of
             Some e \<Rightarrow>
               if k = SCAT_OPTIONAL then do {
                 s \<leftarrow> define_label label s;
                 s \<leftarrow> generate_expr e s;
                 s \<leftarrow> pop_stack 1 (emit_op OP_POP (emit_var_op OP_PUT i s));
                 generate_defaults scs labels s }
               else generate_defaults scs labels s
           | None \<Rightarrow> generate_defaults scs labels s))"
| "push_lvalue (EXPR_RANGE base from to) inner s = do {
     s \<leftarrow> push_lvalue base True s;
     (old, s) \<leftarrow> save_stack_top s;
     s \<leftarrow> generate_expr from s;
     s \<leftarrow> generate_expr to s;
     Some (restore_stack_top old s) }"
| "push_lvalue (EXPR_INDEX l r) inner s = do {
     s \<leftarrow> push_lvalue l True s;
     (old, s) \<leftarrow> save_stack_top s;
     s \<leftarrow> generate_expr r s;
     let s = restore_stack_top old s;
     Some (if inner then push_stack 1 (emit_op OP_PUSH_REF s) else s) }"
| "push_lvalue (EXPR_ID i) inner s =
     Some (if inner then push_stack 1 (emit_var_op OP_PUSH i s) else s)"
| "push_lvalue (EXPR_BIN k l r) inner s =
     (if k \<noteq> EXPR_PROP then None
      else do {
        s \<leftarrow> generate_expr l s;
        s \<leftarrow> generate_expr r s;
        Some (if inner then push_stack 1 (emit_op OP_PUSH_GET_PROP s) else s) })"
| "push_lvalue _ inner s = None"

section \<open>Vectors\<close>

definition ref_size :: "nat \<Rightarrow> nat" where
  "ref_size mx = (if mx \<le> 256 then 1 else if mx \<le> 256 * 256 then 2 else 4)"

definition fixup_size :: "bytecodes \<Rightarrow> fixup \<Rightarrow> nat" where
  "fixup_size bc f =
     (case fx_kind f of
        FIXUP_LITERAL \<Rightarrow> numbytes_literal bc
      | FIXUP_FORK \<Rightarrow> numbytes_fork bc
      | FIXUP_VAR_REF \<Rightarrow> numbytes_var_name bc
      | FIXUP_STACK \<Rightarrow> numbytes_stack bc
      | FIXUP_LABEL \<Rightarrow> numbytes_label bc)"

text \<open>A label is moved by what the operands before it grow.\<close>

definition moved_label :: "bytecodes \<Rightarrow> fixup \<Rightarrow> nat" where
  "moved_label bc f = fx_value f + prev_literals f * (numbytes_literal bc - 1)
     + prev_forks f * (numbytes_fork bc - 1) + prev_var_refs f * (numbytes_var_name bc - 1)
     + prev_labels f * (numbytes_label bc - 1) + prev_stacks f * (numbytes_stack bc - 1)"

definition fixup_operand :: "bytecodes \<Rightarrow> fixup \<Rightarrow> nat" where
  "fixup_operand bc f = (if fx_kind f = FIXUP_LABEL then moved_label bc f else fx_value f)"

definition operand_bytes :: "nat \<Rightarrow> nat \<Rightarrow> byte list" where
  "operand_bytes sz v =
     (if sz = 4 then [word_of_nat (v div 2 ^ 24), word_of_nat (v div 2 ^ 16), word_of_nat (v div 2 ^ 8), word_of_nat v]
      else if sz = 2 then [word_of_nat (v div 2 ^ 8), word_of_nat v]
      else [word_of_nat v])"

fun expand :: "bytecodes \<Rightarrow> fixup list \<Rightarrow> nat \<Rightarrow> byte list \<Rightarrow> byte list" where
  "expand bc fs i [] = []"
| "expand bc [] i (b # bs) = b # expand bc [] (i + 1) bs"
| "expand bc (f # fs) i (b # bs) =
     (if fx_pc f = i then operand_bytes (fixup_size bc f) (fixup_operand bc f) @ expand bc fs (i + 1) bs
      else b # expand bc (f # fs) (i + 1) bs)"

text \<open>The widths of the operands and the size the vector is allocated with.\<close>

definition vector_widths :: "cg_state \<Rightarrow> bytecodes \<times> nat" where
  "vector_widths s =
     (let nl = ref_size (max (max_literal s) (length (g_literals (gst s))));
          nf = ref_size (max (max_fork s) (length (g_fork_vectors (gst s))));
          nv = ref_size (max (max_var_ref s) (total_var_refs (gst s)));
          sz = num_bytes s + (nl - 1) * num_literals s + (nf - 1) * num_forks s + (nv - 1) * num_var_refs s;
          nb = (if sz \<le> 256 then 1 else if sz + num_labels s \<le> 256 * 256 then 2 else 4)
      in (\<lparr>numbytes_label = nb, numbytes_literal = nl, numbytes_fork = nf, numbytes_var_name = nv,
           numbytes_stack = ref_size (max_stack s), bc_vector = [], bc_max_stack = max_stack s\<rparr>,
          sz + (nb - 1) * num_labels s))"

text \<open>\<open>None\<close> also when more is written than was allocated.\<close>

definition finish_vector :: "cg_state \<Rightarrow> bytecodes option" where
  "finish_vector s =
     (if cur_stack s \<noteq> 0 \<or> saved_stack s \<noteq> None then None
      else
        let (bc, sz) = vector_widths s; v = expand bc (fixups s) 0 (cg_bytes s) in
        if length v \<le> sz then Some (bc\<lparr>bc_vector := v\<rparr>) else None)"

section \<open>Statements\<close>

definition generate_codes :: "arg list \<Rightarrow> cg_state \<Rightarrow> cg_state option" where
  "generate_codes codes s =
     (if codes = [] then Some (push_stack 1 (emit_byte (OPTIM_NUM_TO_OPCODE 0) s))
      else generate_arg_list True codes s)"

text \<open>The loop that a \<^verbatim>\<open>break\<close> or \<^verbatim>\<open>continue\<close> names: how many loops are inside it.\<close>

fun find_loop :: "int \<Rightarrow> cg_loop list \<Rightarrow> nat option" where
  "find_loop i [] = None"
| "find_loop i (l # ls) = (if lp_id l = i then Some 0 else map_option Suc (find_loop i ls))"

definition generate_exit :: "bool \<Rightarrow> int \<Rightarrow> cg_state \<Rightarrow> cg_state option" where
  "generate_exit continue i s = do {
     let s = (if i = -1 then emit_extended_byte EOP_EXIT s
              else add_var_ref (nat i) (emit_extended_byte EOP_EXIT_ID s));
     k \<leftarrow> (if i = -1 then (if loops s = [] then None else Some 0) else find_loop i (loops s));
     let loop = loops s ! k;
     if continue then Some (add_known_label (top_label loop) (add_stack_ref (top_stack loop) s))
     else
       (let s = add_stack_ref (bottom_stack loop) s;
            (label, s) = add_linked_label (bottom_label loop) s
        in Some (s\<lparr>loops := (loops s)[k := loop\<lparr>bottom_label := label\<rparr>]\<rparr>)) }"

fun generate_except_codes :: "except_arm list \<Rightarrow> cg_state \<Rightarrow> (int list \<times> cg_state) option" where
  "generate_except_codes [] s = Some ([], s)"
| "generate_except_codes (Except_Arm _ codes _ # exs) s = do {
     s \<leftarrow> generate_codes codes s;
     let (label, s) = add_label (emit_extended_byte EOP_PUSH_LABEL s);
     (labels, s) \<leftarrow> generate_except_codes exs (push_stack 1 s);
     Some (label # labels, s) }"

text \<open>The body of a loop between its captured top and its bottom label.\<close>

definition close_loop :: "fixup \<Rightarrow> cg_state \<Rightarrow> cg_state option" where
  "close_loop loop_top s = do {
     (end_label, s) \<leftarrow> exit_loop s;
     let s = add_known_label loop_top (emit_op OP_JUMP s);
     define_label end_label s }"

fun generate_stmt :: "stmt \<Rightarrow> cg_state \<Rightarrow> cg_state option"
and generate_stmts :: "stmt list \<Rightarrow> cg_state \<Rightarrow> cg_state option"
and generate_arms :: "opcode \<Rightarrow> cond_arm list \<Rightarrow> int \<Rightarrow> cg_state \<Rightarrow> (int \<times> cg_state) option"
and generate_handlers :: "except_arm list \<Rightarrow> int list \<Rightarrow> int \<Rightarrow> cg_state \<Rightarrow> (int \<times> cg_state) option"
and stmt_to_code :: "stmt list \<Rightarrow> gstate \<Rightarrow> (bytecodes \<times> gstate) option" where
  "generate_stmts [] s = Some s"
| "generate_stmts (st # sts) s = do {
     s \<leftarrow> generate_stmt st s;
     generate_stmts sts s }"
| "generate_stmt (STMT_COND arms otherwise) s = do {
     (end_label, s) \<leftarrow> generate_arms OP_IF arms (-1) s;
     s \<leftarrow> generate_stmts otherwise s;
     define_label end_label s }"
| "generate_stmt (STMT_LIST i e body) s = do {
     s \<leftarrow> generate_expr e s;
     let s = push_stack 1 (emit_byte (OPTIM_NUM_TO_OPCODE 1) s);
     let loop_top = capture_label s;
     let (end_label, s) = add_label (add_var_ref i (emit_op OP_FOR_LIST s));
     let s = enter_loop (int i) loop_top (cur_stack s) end_label (cur_stack s - 2) s;
     s \<leftarrow> generate_stmts body s;
     s \<leftarrow> close_loop loop_top s;
     pop_stack 2 s }"
| "generate_stmt (STMT_RANGE i from to body) s = do {
     s \<leftarrow> generate_expr from s;
     s \<leftarrow> generate_expr to s;
     let loop_top = capture_label s;
     let (end_label, s) = add_label (add_var_ref i (emit_op OP_FOR_RANGE s));
     let s = enter_loop (int i) loop_top (cur_stack s) end_label (cur_stack s - 2) s;
     s \<leftarrow> generate_stmts body s;
     s \<leftarrow> close_loop loop_top s;
     pop_stack 2 s }"
| "generate_stmt (STMT_WHILE i cond body) s = do {
     let loop_top = capture_label s;
     s \<leftarrow> generate_expr cond s;
     let s = (if i = -1 then emit_op OP_WHILE s else add_var_ref (nat i) (emit_extended_byte EOP_WHILE_ID s));
     let (end_label, s) = add_label s;
     s \<leftarrow> pop_stack 1 s;
     let s = enter_loop i loop_top (cur_stack s) end_label (cur_stack s) s;
     s \<leftarrow> generate_stmts body s;
     close_loop loop_top s }"
| "generate_stmt (STMT_FORK i time body) s = do {
     s \<leftarrow> generate_expr time s;
     let s = emit_op (if 0 \<le> i then OP_FORK_WITH_ID else OP_FORK) s;
     (bc, g) \<leftarrow> stmt_to_code body (gst s);
     let s = add_fork bc (s\<lparr>gst := g\<rparr>);
     let s = (if 0 \<le> i then add_var_ref (nat i) s else s);
     pop_stack 1 s }"
| "generate_stmt (STMT_EXPR e) s = do {
     s \<leftarrow> generate_expr e s;
     pop_stack 1 (emit_op OP_POP s) }"
| "generate_stmt (STMT_RETURN r) s =
     (case r of
        Some e \<Rightarrow> do {
          s \<leftarrow> generate_expr e s;
          pop_stack 1 (emit_op OP_RETURN s) }
      | None \<Rightarrow> Some (emit_op OP_RETURN0 s))"
| "generate_stmt (STMT_TRY_EXCEPT body excepts) s = do {
     (labels, s) \<leftarrow> generate_except_codes excepts s;
     let s = push_stack 1 (emit_byte (length excepts) (emit_extended_byte EOP_TRY_EXCEPT s));
     s \<leftarrow> generate_stmts body s;
     let (end_label, s) = add_label (emit_extended_byte EOP_END_EXCEPT s);
     s \<leftarrow> pop_stack (2 * length excepts + 1) s;
     (end_label, s) \<leftarrow> generate_handlers excepts labels end_label s;
     define_label end_label s }"
| "generate_stmt (STMT_TRY_FINALLY body handler) s = do {
     let (handler_label, s) = add_label (emit_extended_byte EOP_TRY_FINALLY s);
     let s = push_stack 1 s;
     s \<leftarrow> generate_stmts body s;
     s \<leftarrow> pop_stack 1 (emit_extended_byte EOP_END_FINALLY s);
     s \<leftarrow> define_label handler_label s;
     let s = push_stack 2 s;
     s \<leftarrow> generate_stmts handler s;
     pop_stack 2 (emit_extended_byte EOP_CONTINUE s) }"
| "generate_stmt (STMT_BREAK i) s = generate_exit False i s"
| "generate_stmt (STMT_CONTINUE i) s = generate_exit True i s"
| "generate_arms if_op [] end_label s = Some (end_label, s)"
| "generate_arms if_op (Cond_Arm c body # arms) end_label s = do {
     s \<leftarrow> generate_expr c s;
     let (else_label, s) = add_label (emit_op if_op s);
     s \<leftarrow> pop_stack 1 s;
     s \<leftarrow> generate_stmts body s;
     let (end_label, s) = add_linked_label end_label (emit_op OP_JUMP s);
     s \<leftarrow> define_label else_label s;
     generate_arms OP_EIF arms end_label s }"
| "generate_handlers [] labels end_label s = Some (end_label, s)"
| "generate_handlers (Except_Arm i codes body # exs) labels end_label s =
     (case labels of
        [] \<Rightarrow> None
      | label # labels \<Rightarrow> do {
          s \<leftarrow> define_label label s;
          let s = push_stack 1 s;
          let s = emit_op OP_POP (if 0 \<le> i then emit_var_op OP_PUT (nat i) s else s);
          s \<leftarrow> pop_stack 1 s;
          s \<leftarrow> generate_stmts body s;
          let (end_label, s) = (if exs \<noteq> [] then add_linked_label end_label (emit_op OP_JUMP s) else (end_label, s));
          generate_handlers exs labels end_label s })"
| "stmt_to_code body g = do {
     s \<leftarrow> generate_stmts body (init_state g);
     let s = emit_op OP_DONE s;
     bc \<leftarrow> finish_vector s;
     Some (bc, gst s) }"

text \<open>\<open>new_program\<close> of program.c; the table of names is filled in by the parser.\<close>

definition generate_code :: "stmt list \<Rightarrow> db_version \<Rightarrow> program option" where
  "generate_code body version = do {
     (bc, g) \<leftarrow> stmt_to_code body init_gstate;
     Some \<lparr>pr_version = version, pr_first_lineno = 1, main_vector = bc, pr_literals = g_literals g,
       fork_vectors = g_fork_vectors g, var_names = []\<rparr> }"

end
