(* ===== verification/EvalEnv.thy ===== *)
theory EvalEnv
  imports Ast Utils
begin

text \<open>
  Names of variables (sym_table.c) and the run-time environment that holds their values (eval_env.c).  The
  table of names of a version is a value: every program gets its own copy of the built-in names.  The block
  of an environment has room for at least \<^verbatim>\<open>NUM_READY_VARS\<close> values, so a write to a built-in slot that
  the program has no name for lands in memory that nothing reads: it changes nothing.
\<close>

section \<open>Names\<close>

record names =
  nm_max_size :: nat
  nm_names :: "string list"

definition SLOT_NUM :: nat where "SLOT_NUM = 0"
definition SLOT_OBJ :: nat where "SLOT_OBJ = 1"
definition SLOT_STR :: nat where "SLOT_STR = 2"
definition SLOT_LIST :: nat where "SLOT_LIST = 3"
definition SLOT_ERR :: nat where "SLOT_ERR = 4"
definition SLOT_PLAYER :: nat where "SLOT_PLAYER = 5"
definition SLOT_THIS :: nat where "SLOT_THIS = 6"
definition SLOT_CALLER :: nat where "SLOT_CALLER = 7"
definition SLOT_VERB :: nat where "SLOT_VERB = 8"
definition SLOT_ARGS :: nat where "SLOT_ARGS = 9"
definition SLOT_ARGSTR :: nat where "SLOT_ARGSTR = 10"
definition SLOT_DOBJ :: nat where "SLOT_DOBJ = 11"
definition SLOT_DOBJSTR :: nat where "SLOT_DOBJSTR = 12"
definition SLOT_PREPSTR :: nat where "SLOT_PREPSTR = 13"
definition SLOT_IOBJ :: nat where "SLOT_IOBJ = 14"
definition SLOT_IOBJSTR :: nat where "SLOT_IOBJSTR = 15"
definition SLOT_INT :: nat where "SLOT_INT = 16"
definition SLOT_FLOAT :: nat where "SLOT_FLOAT = 17"

lemmas slot_defs = SLOT_NUM_def SLOT_OBJ_def SLOT_STR_def SLOT_LIST_def SLOT_ERR_def SLOT_PLAYER_def
  SLOT_THIS_def SLOT_CALLER_def SLOT_VERB_def SLOT_ARGS_def SLOT_ARGSTR_def SLOT_DOBJ_def SLOT_DOBJSTR_def
  SLOT_PREPSTR_def SLOT_IOBJ_def SLOT_IOBJSTR_def SLOT_INT_def SLOT_FLOAT_def

definition version_ge :: "db_version \<Rightarrow> db_version \<Rightarrow> bool" where
  "version_ge v w \<longleftrightarrow> version_num v \<ge> version_num w"

definition new_names :: "nat \<Rightarrow> names" where
  "new_names max_size = \<lparr>nm_max_size = max_size, nm_names = []\<rparr>"

definition copy_names :: "names \<Rightarrow> names" where
  "copy_names old = (new_names (length (nm_names old)))\<lparr>nm_names := nm_names old\<rparr>"

definition first_user_slot :: "db_version \<Rightarrow> nat" where
  "first_user_slot version = 16 + (if version_ge version DBV_Float then 2 else 0)"

text \<open>The slots in the order of their numbers.\<close>

definition builtin_names :: "db_version \<Rightarrow> string list" where
  "builtin_names version =
     [''NUM'', ''OBJ'', ''STR'', ''LIST'', ''ERR'', ''player'', ''this'', ''caller'', ''verb'', ''args'',
      ''argstr'', ''dobj'', ''dobjstr'', ''prepstr'', ''iobj'', ''iobjstr'']
     @ (if version_ge version DBV_Float then [''INT'', ''FLOAT''] else [])"

definition new_builtin_names :: "db_version \<Rightarrow> names" where
  "new_builtin_names version =
     copy_names ((new_names (first_user_slot version))\<lparr>nm_names := builtin_names version\<rparr>)"

fun name_index :: "string \<Rightarrow> string list \<Rightarrow> nat \<Rightarrow> nat option" where
  "name_index str [] i = None"
| "name_index str (n # ns) i = (if mystrcasecmp n str = 0 then Some i else name_index str ns (i + 1))"

definition find_name :: "names \<Rightarrow> string \<Rightarrow> int" where
  "find_name names str = (case name_index str (nm_names names) 0 of None \<Rightarrow> -1 | Some i \<Rightarrow> int i)"

text \<open>\<open>None\<close> when the table has no room even after doubling.\<close>

definition find_or_add_name :: "string \<Rightarrow> names \<Rightarrow> (nat \<times> names) option" where
  "find_or_add_name str names =
     (case name_index str (nm_names names) 0 of
        Some i \<Rightarrow> Some (i, names)
      | None \<Rightarrow>
          (let n = length (nm_names names);
               names = (if n = nm_max_size names
                        then (new_names (nm_max_size names * 2))\<lparr>nm_names := nm_names names\<rparr> else names)
           in if n < nm_max_size names then Some (n, names\<lparr>nm_names := nm_names names @ [str]\<rparr>) else None))"

section \<open>Run-time environments\<close>

type_synonym rt_env = "var list"

definition new_rt_env :: "nat \<Rightarrow> rt_env" where
  "new_rt_env n = replicate n VNone"

definition copy_rt_env :: "rt_env \<Rightarrow> nat \<Rightarrow> rt_env" where
  "copy_rt_env from n = take n from"

definition set_rt_env_var :: "nat \<Rightarrow> var \<Rightarrow> rt_env \<Rightarrow> rt_env" where
  "set_rt_env_var slot v env = env[slot := v]"

definition set_rt_env_obj :: "nat \<Rightarrow> objid \<Rightarrow> rt_env \<Rightarrow> rt_env" where
  "set_rt_env_obj slot oid env = env[slot := VObj oid]"

definition set_rt_env_str :: "nat \<Rightarrow> string \<Rightarrow> rt_env \<Rightarrow> rt_env" where
  "set_rt_env_str slot s env = env[slot := VStr s]"

definition type_constant :: "var_type \<Rightarrow> var" where
  "type_constant t = VInt (word_of_int (type_num t))"

definition fill_in_rt_consts :: "db_version \<Rightarrow> rt_env \<Rightarrow> rt_env" where
  "fill_in_rt_consts version env =
     (let env = env[SLOT_ERR := type_constant TYPE_ERR];
          env = env[SLOT_NUM := type_constant TYPE_INT];
          env = env[SLOT_STR := type_constant TYPE_STR];
          env = env[SLOT_OBJ := type_constant TYPE_OBJ];
          env = env[SLOT_LIST := type_constant TYPE_LIST]
      in if version_ge version DBV_Float
         then (env[SLOT_INT := type_constant TYPE_INT])[SLOT_FLOAT := type_constant TYPE_FLOAT] else env)"

text \<open>\<open>reorder_rt_env\<close> of execute.c: an environment read from a database, aligned to the program's names.\<close>

definition reorder_rt_env :: "rt_env \<Rightarrow> string list \<Rightarrow> string list \<Rightarrow> rt_env" where
  "reorder_rt_env old_rt_env old_names names_now =
     map (\<lambda>n. case name_index n old_names 0 of None \<Rightarrow> VNone | Some slot \<Rightarrow> old_rt_env ! slot) names_now"

section \<open>Names and slots\<close>

lemma length_set_rt_env [simp]:
  "length (set_rt_env_var slot v env) = length env" "length (set_rt_env_obj slot oid env) = length env"
  "length (set_rt_env_str slot s env) = length env" "length (fill_in_rt_consts version env) = length env"
  "length (new_rt_env n) = n"
  by (simp_all add: set_rt_env_var_def set_rt_env_obj_def set_rt_env_str_def fill_in_rt_consts_def
      new_rt_env_def Let_def)

lemma name_index_Some:
  "name_index str ns i = Some k \<Longrightarrow>
     i \<le> k \<and> k < i + length ns \<and> mystrcasecmp (ns ! (k - i)) str = 0"
  by (induction str ns i rule: name_index.induct) (auto split: if_splits simp: nth_Cons' less_Suc_eq_le)

lemma name_index_None: "name_index str ns i = None \<longleftrightarrow> (\<forall>n \<in> set ns. mystrcasecmp n str \<noteq> 0)"
  by (induction str ns i rule: name_index.induct) auto

end
