(* ===== verification/Lists.thy ===== *)
theory Lists
  imports Utils "HOL-Library.Monad_Syntax"
begin

text \<open>
  The list and string operations of list.c.  The element loops are modelled as they are written:
  a fresh block whose slots are uninitialised (\<open>None\<close>), filled slot by slot, with every read and
  write checked against the block it touches.  An operation is \<open>None\<close> when a loop leaves its blocks
  or a slot of the result is never written; the lemmas give the exact arguments for which it is not,
  and the value it then has.
\<close>

section \<open>Blocks\<close>

type_synonym 'a block = "'a option list"

definition new_block :: "int \<Rightarrow> 'a block" where
  "new_block n = replicate (nat n) None"

text \<open>Positions are 1-based, as in \<^verbatim>\<open>v.list[1..n]\<close>.\<close>

definition get_elem :: "'a list \<Rightarrow> int \<Rightarrow> 'a option" where
  "get_elem xs i = (if 1 \<le> i \<and> i \<le> int (length xs) then Some (xs ! nat (i - 1)) else None)"

definition set_slot :: "'a block \<Rightarrow> int \<Rightarrow> 'a \<Rightarrow> 'a block option" where
  "set_slot b i x = (if 1 \<le> i \<and> i \<le> int (length b) then Some (b[nat (i - 1) := Some x]) else None)"

text \<open>\<^verbatim>\<open>for (k = 0; k < n; k++) dst[d + k] = src[s + k];\<close>\<close>

fun copy_loop :: "nat \<Rightarrow> int \<Rightarrow> 'a list \<Rightarrow> int \<Rightarrow> 'a block \<Rightarrow> 'a block option" where
  "copy_loop 0 s src d dst = Some dst"
| "copy_loop (Suc n) s src d dst =
     (case get_elem src s of
        None \<Rightarrow> None
      | Some x \<Rightarrow>
          (case set_slot dst d x of
             None \<Rightarrow> None
           | Some dst' \<Rightarrow> copy_loop n (s + 1) src (d + 1) dst'))"

definition finish_block :: "'a block \<Rightarrow> 'a list option" where
  "finish_block b = (if None \<in> set b then None else Some (map the b))"

lemma length_new_block [simp]: "length (new_block n) = nat n"
  by (simp add: new_block_def)

lemma copy_loop_ok:
  assumes "1 \<le> s" "s + int n \<le> int (length src) + 1" "1 \<le> d" "d + int n \<le> int (length dst) + 1"
  shows "copy_loop n s src d dst =
    Some (take (nat (d - 1)) dst @ map Some (take n (drop (nat (s - 1)) src))
          @ drop (nat (d - 1) + n) dst)"
  using assms
proof (induction n arbitrary: s d dst)
  case (Suc n)
  let ?i = "nat (s - 1)" and ?j = "nat (d - 1)"
  have g: "get_elem src s = Some (src ! ?i)" using Suc.prems by (simp add: get_elem_def)
  have w: "set_slot dst d (src ! ?i) = Some (dst[?j := Some (src ! ?i)])"
    using Suc.prems by (simp add: set_slot_def)
  have l: "?i < length src" "?j < length dst" using Suc.prems by auto
  have n: "nat (s + 1 - 1) = Suc ?i" "nat (d + 1 - 1) = Suc ?j" using Suc.prems by auto
  have "copy_loop (Suc n) s src d dst
      = copy_loop n (s + 1) src (d + 1) (dst[?j := Some (src ! ?i)])"
    by (simp add: g w)
  also have "\<dots> = Some (take (Suc ?j) (dst[?j := Some (src ! ?i)])
      @ map Some (take n (drop (Suc ?i) src)) @ drop (Suc ?j + n) (dst[?j := Some (src ! ?i)]))"
    unfolding n [symmetric] by (rule Suc.IH) (use Suc.prems in auto)
  also have "take (Suc ?j) (dst[?j := Some (src ! ?i)]) = take ?j dst @ [Some (src ! ?i)]"
    using l by (simp add: take_Suc_nth)
  also have "drop (Suc ?j + n) (dst[?j := Some (src ! ?i)]) = drop (?j + Suc n) dst"
    by (simp add: drop_update_cancel)
  finally show ?case
    using l by (simp add: Cons_nth_drop_Suc [symmetric])
qed simp

lemma copy_loop_None:
  "n \<noteq> 0 \<Longrightarrow> s < 1 \<or> int (length src) < s \<Longrightarrow> copy_loop n s src d dst = None"
  by (cases n) (auto simp: get_elem_def)

lemma finish_block_map [simp]: "finish_block (map Some xs) = Some xs"
  by (simp add: finish_block_def comp_def image_iff)

text \<open>Filling a fresh block piece by piece, left to right.\<close>

definition filled :: "'a list \<Rightarrow> nat \<Rightarrow> 'a block" where
  "filled xs n = map Some xs @ replicate n None"

lemma new_block_filled: "0 \<le> n \<Longrightarrow> new_block n = filled [] (nat n)"
  by (simp add: new_block_def filled_def)

lemma finish_filled [simp]: "finish_block (filled xs 0) = Some xs"
  by (simp add: filled_def)

lemma copy_filled:
  assumes "1 \<le> s" "s + int n \<le> int (length src) + 1" "d = int (length xs) + 1" "n \<le> m"
  shows "copy_loop n s src d (filled xs m)
    = Some (filled (xs @ take n (drop (nat (s - 1)) src)) (m - n))"
proof -
  have "copy_loop n s src d (filled xs m) =
      Some (take (length xs) (filled xs m) @ map Some (take n (drop (nat (s - 1)) src))
        @ drop (length xs + n) (filled xs m))"
    using copy_loop_ok [of s n src d "filled xs m"] assms by (simp add: filled_def)
  then show ?thesis by (simp add: filled_def)
qed

lemma copy_first:
  assumes "1 \<le> s" "s + int n \<le> int (length src) + 1" "N = int m" "n \<le> m"
  shows "copy_loop n s src 1 (new_block N) = Some (filled (take n (drop (nat (s - 1)) src)) (m - n))"
  using copy_filled [of s n src 1 "[]" m] assms by (simp add: new_block_filled)

lemma set_filled:
  "d = int (length xs) + 1 \<Longrightarrow> set_slot (filled xs (Suc m)) d x = Some (filled (xs @ [x]) m)"
  by (simp add: set_slot_def filled_def list_update_append nat_add_distrib)

section \<open>Lists\<close>

abbreviation llen :: "'a list \<Rightarrow> int" where
  "llen xs \<equiv> int (length xs)"

fun ismember_from :: "var \<Rightarrow> var list \<Rightarrow> bool \<Rightarrow> int \<Rightarrow> int option" where
  "ismember_from lhs [] case_matters i = Some 0"
| "ismember_from lhs (x # xs) case_matters i =
     (case equality lhs x case_matters of
        None \<Rightarrow> None
      | Some b \<Rightarrow> if b then Some i else ismember_from lhs xs case_matters (i + 1))"

definition ismember :: "var \<Rightarrow> var list \<Rightarrow> bool \<Rightarrow> int option" where
  "ismember lhs rhs case_matters = ismember_from lhs rhs case_matters 1"

definition doinsert :: "'a list \<Rightarrow> 'a \<Rightarrow> int \<Rightarrow> 'a list option" where
  [list_op_defs]: "doinsert xs val pos =
     (let newsize = llen xs + 1 in
      Option.bind (copy_loop (nat (pos - 1)) 1 xs 1 (new_block newsize)) (\<lambda>b.
      Option.bind (set_slot b pos val) (\<lambda>b.
      Option.bind (copy_loop (nat (llen xs - pos + 1)) pos xs (pos + 1) b) finish_block)))"

definition listinsert :: "'a list \<Rightarrow> 'a \<Rightarrow> int \<Rightarrow> 'a list option" where
  [list_op_defs]: "listinsert xs val pos =
     doinsert xs val (if pos \<le> 0 then 1 else if pos > llen xs then llen xs + 1 else pos)"

definition listappend :: "'a list \<Rightarrow> 'a \<Rightarrow> 'a list option" where
  [list_op_defs]: "listappend xs val = doinsert xs val (llen xs + 1)"

definition listdelete :: "'a list \<Rightarrow> int \<Rightarrow> 'a list option" where
  [list_op_defs]: "listdelete xs pos =
     Option.bind (copy_loop (nat (pos - 1)) 1 xs 1 (new_block (llen xs - 1))) (\<lambda>b.
     Option.bind (copy_loop (nat (llen xs - pos)) (pos + 1) xs pos b) finish_block)"

definition listset :: "'a list \<Rightarrow> 'a \<Rightarrow> int \<Rightarrow> 'a list option" where
  [list_op_defs]: "listset xs val pos =
     (if 1 \<le> pos \<and> pos \<le> llen xs then Some (xs[nat (pos - 1) := val]) else None)"

definition listconcat :: "'a list \<Rightarrow> 'a list \<Rightarrow> 'a list option" where
  [list_op_defs]: "listconcat first second =
     (let lsecond = llen second; lfirst = llen first in
      Option.bind (copy_loop (nat lfirst) 1 first 1 (new_block (lsecond + lfirst))) (\<lambda>b.
      Option.bind (copy_loop (nat lsecond) 1 second (1 + lfirst) b) finish_block))"

definition listrangeset :: "'a list \<Rightarrow> int \<Rightarrow> int \<Rightarrow> 'a list \<Rightarrow> 'a list option" where
  [list_op_defs]: "listrangeset base from to val =
     (let lenleft = (if from > 1 then from - 1 else 0);
          lenmiddle = llen val;
          lenright = (if llen base > to then llen base - to else 0);
          newsize = lenleft + lenmiddle + lenright
      in Option.bind (copy_loop (nat lenleft) 1 base 1 (new_block newsize)) (\<lambda>b.
         Option.bind (copy_loop (nat lenmiddle) 1 val (lenleft + 1) b) (\<lambda>b.
         Option.bind (copy_loop (nat lenright) (to + 1) base (lenleft + lenmiddle + 1) b)
           finish_block)))"

definition sublist_c :: "'a list \<Rightarrow> int \<Rightarrow> int \<Rightarrow> 'a list option" where
  [list_op_defs]: "sublist_c xs lower upper =
     (if lower > upper then Some []
      else Option.bind
             (copy_loop (nat (upper - lower + 1)) lower xs 1 (new_block (upper - lower + 1)))
             finish_block)"

definition setadd :: "var list \<Rightarrow> var \<Rightarrow> var list option" where
  "setadd xs val =
     (case ismember val xs False of
        None \<Rightarrow> None
      | Some i \<Rightarrow> if i \<noteq> 0 then Some xs else listappend xs val)"

definition setremove :: "var list \<Rightarrow> var \<Rightarrow> var list option" where
  "setremove xs val =
     (case ismember val xs False of
        None \<Rightarrow> None
      | Some i \<Rightarrow> if i \<noteq> 0 then listdelete xs i else Some xs)"

subsection \<open>What the operations compute\<close>

lemma doinsert_ok:
  assumes "1 \<le> pos" "pos \<le> llen xs + 1"
  shows "doinsert xs v pos = Some (take (nat (pos - 1)) xs @ v # drop (nat (pos - 1)) xs)"
proof -
  let ?k = "nat (pos - 1)"
  have k: "?k \<le> length xs" "nat (pos - 1 + 1 - 1) = ?k" using assms by auto
  have "copy_loop ?k 1 xs 1 (new_block (llen xs + 1)) = Some (filled (take ?k xs) (Suc (length xs - ?k)))"
    using assms k copy_first [of 1 ?k xs "llen xs + 1" "Suc (length xs)"]
    by (simp add: Suc_diff_le)
  moreover have "set_slot (filled (take ?k xs) (Suc (length xs - ?k))) pos v
      = Some (filled (take ?k xs @ [v]) (length xs - ?k))"
    using assms k by (intro set_filled) auto
  moreover have "copy_loop (nat (llen xs - pos + 1)) pos xs (pos + 1)
        (filled (take ?k xs @ [v]) (length xs - ?k))
      = Some (filled ((take ?k xs @ [v]) @ take (nat (llen xs - pos + 1)) (drop ?k xs))
          (length xs - ?k - nat (llen xs - pos + 1)))"
    using assms k by (intro copy_filled) auto
  moreover have "length xs - ?k - nat (llen xs - pos + 1) = 0" using assms by auto
  moreover have "take (nat (llen xs - pos + 1)) (drop ?k xs) = drop ?k xs"
    using assms by (intro take_all) auto
  ultimately show ?thesis by (simp add: doinsert_def)
qed

lemma listinsert_ok:
  "listinsert xs v pos =
     (let k = nat (min (max pos 1) (llen xs + 1) - 1) in Some (take k xs @ v # drop k xs))"
proof -
  let ?p = "if pos \<le> 0 then 1 else if pos > llen xs then llen xs + 1 else pos"
  have "?p = min (max pos 1) (llen xs + 1)" by (cases xs) (auto simp: min_def max_def)
  moreover have "1 \<le> ?p" "?p \<le> llen xs + 1" by auto
  ultimately show ?thesis unfolding listinsert_def by (simp only: doinsert_ok Let_def)
qed

lemma listappend_ok: "listappend xs v = Some (xs @ [v])"
  by (simp add: listappend_def doinsert_ok)

lemma listdelete_ok:
  assumes "1 \<le> pos" "pos \<le> llen xs"
  shows "listdelete xs pos = Some (take (nat (pos - 1)) xs @ drop (nat pos) xs)"
proof -
  let ?k = "nat (pos - 1)"
  have k: "?k < length xs" "nat pos = Suc ?k" "nat (llen xs - 1) = length xs - 1" using assms by auto
  have "copy_loop ?k 1 xs 1 (new_block (llen xs - 1)) = Some (filled (take ?k xs) (length xs - 1 - ?k))"
    using assms k copy_first [of 1 ?k xs "llen xs - 1" "length xs - 1"]
    by (simp add: of_nat_diff)
  moreover have "copy_loop (nat (llen xs - pos)) (pos + 1) xs pos (filled (take ?k xs) (length xs - 1 - ?k))
      = Some (filled (take ?k xs @ take (nat (llen xs - pos)) (drop (nat (pos + 1 - 1)) xs))
          (length xs - 1 - ?k - nat (llen xs - pos)))"
    using assms k by (intro copy_filled) auto
  moreover have "length xs - 1 - ?k - nat (llen xs - pos) = 0" using assms by auto
  moreover have "take (nat (llen xs - pos)) (drop (nat pos) xs) = drop (nat pos) xs"
    using assms by (intro take_all) auto
  ultimately show ?thesis by (simp add: listdelete_def)
qed

lemma listset_ok:
  "1 \<le> pos \<Longrightarrow> pos \<le> llen xs \<Longrightarrow> listset xs v pos = Some (xs[nat (pos - 1) := v])"
  by (simp add: listset_def)

lemma listconcat_ok: "listconcat xs ys = Some (xs @ ys)"
proof -
  have "copy_loop (length xs) 1 xs 1 (new_block (llen ys + llen xs)) = Some (filled xs (length ys))"
    using copy_first [of 1 "length xs" xs "llen ys + llen xs" "length ys + length xs"] by simp
  moreover have "copy_loop (length ys) 1 ys (1 + llen xs) (filled xs (length ys)) = Some (filled (xs @ ys) 0)"
    using copy_filled [of 1 "length ys" ys "1 + llen xs" xs "length ys"] by simp
  ultimately show ?thesis by (simp add: listconcat_def)
qed

text \<open>Range assignment is right for every range the interpreter lets through.\<close>

lemma listrangeset_ok:
  assumes "from \<le> llen base + 1" "0 \<le> to"
  shows "listrangeset base from to val =
    Some (take (nat (from - 1)) base @ val @ drop (nat to) base)"
proof -
  define l where "l = nat (from - 1)"
  define r where "r = nat (llen base - to)"
  have l: "(if from > 1 then from - 1 else 0) = int l" "l \<le> length base"
    using assms by (auto simp: l_def)
  have r: "(if llen base > to then llen base - to else 0) = int r" by (auto simp: r_def)
  have "copy_loop l 1 base 1 (new_block (int l + llen val + int r))
      = Some (filled (take l (drop (nat (1 - 1)) base)) (l + length val + r - l))"
    by (rule copy_first) (use l(2) in auto)
  moreover have "copy_loop (length val) 1 val (int l + 1) (filled (take l base) (length val + r))
      = Some (filled (take l base @ val) r)"
    using copy_filled [of 1 "length val" val "int l + 1" "take l base" "length val + r"] l(2)
    by simp
  moreover have "copy_loop r (to + 1) base (int l + llen val + 1) (filled (take l base @ val) r)
      = Some (filled ((take l base @ val) @ take r (drop (nat (to + 1 - 1)) base)) (r - r))"
  proof (cases "r = 0")
    case True
    then show ?thesis by simp
  next
    case False
    then show ?thesis using assms l(2) by (intro copy_filled) (auto simp: r_def)
  qed
  moreover have "take r (drop (nat to) base) = drop (nat to) base"
    using assms by (intro take_all) (auto simp: r_def)
  ultimately show ?thesis
    unfolding listrangeset_def Let_def l(1) r by (simp add: l_def [symmetric])
qed

lemma sublist_c_ok:
  assumes "lower \<le> upper \<longrightarrow> 1 \<le> lower \<and> upper \<le> llen xs"
  shows "sublist_c xs lower upper =
    Some (if lower > upper then [] else take (nat (upper - lower + 1)) (drop (nat (lower - 1)) xs))"
proof (cases "lower > upper")
  case False
  let ?n = "nat (upper - lower + 1)"
  have "copy_loop ?n lower xs 1 (new_block (upper - lower + 1))
      = Some (filled (take ?n (drop (nat (lower - 1)) xs)) (?n - ?n))"
    using False assms by (intro copy_first) auto
  then show ?thesis using False by (simp add: sublist_c_def)
qed (simp add: sublist_c_def)

section \<open>Ranges of strings\<close>

text \<open>
  The character loops of \<^verbatim>\<open>strrangeset\<close>, \<^verbatim>\<open>substr\<close> and \<^verbatim>\<open>strget\<close> run over arrays that end in a NUL, which
  may be read; what the result is as a string ends at its first NUL.
\<close>

definition c_chars :: "string \<Rightarrow> string" where
  "c_chars s = s @ [CHR 0x00]"

definition c_text :: "string \<Rightarrow> string" where
  "c_text b = takeWhile (\<lambda>c. c \<noteq> CHR 0x00) b"

definition strrangeset :: "string \<Rightarrow> int \<Rightarrow> int \<Rightarrow> string \<Rightarrow> string option" where
  "strrangeset base from to val =
     (let lenleft = (if from > 1 then from - 1 else 0);
          lenmiddle = llen val;
          lenright = (if llen base > to then llen base - to else 0);
          newsize = lenleft + lenmiddle + lenright
      in do {
        b \<leftarrow> copy_loop (nat lenleft) 1 (c_chars base) 1 (new_block (newsize + 1));
        b \<leftarrow> copy_loop (nat lenmiddle) 1 (c_chars val) (lenleft + 1) b;
        b \<leftarrow> copy_loop (nat lenright) (to + 1) (c_chars base) (lenleft + lenmiddle + 1) b;
        b \<leftarrow> set_slot b (newsize + 1) (CHR 0x00);
        s \<leftarrow> finish_block b;
        Some (c_text s)
      })"

definition substr :: "string \<Rightarrow> int \<Rightarrow> int \<Rightarrow> string option" where
  "substr str lower upper =
     (if lower > upper then Some []
      else do {
        b \<leftarrow> copy_loop (nat (upper - lower + 1)) lower (c_chars str) 1
               (new_block (upper - lower + 2));
        b \<leftarrow> set_slot b (upper - lower + 2) (CHR 0x00);
        s \<leftarrow> finish_block b;
        Some (c_text s)
      })"

definition strget :: "string \<Rightarrow> int \<Rightarrow> string option" where
  "strget str i = map_option (\<lambda>c. c_text [c]) (get_elem (c_chars str) i)"

lemma c_text_chars [simp]: "cstring s \<Longrightarrow> c_text (s @ [CHR 0x00]) = s"
  unfolding c_text_def cstring_def by (subst takeWhile_append2) auto

lemma cstring_take [simp]: "cstring s \<Longrightarrow> cstring (take n s)"
  by (auto simp: cstring_def dest: in_set_takeD)

lemma cstring_drop [simp]: "cstring s \<Longrightarrow> cstring (drop n s)"
  by (auto simp: cstring_def dest: in_set_dropD)

lemma take_chars: "n \<le> length s \<Longrightarrow> take n (c_chars s) = take n s"
  by (simp add: c_chars_def)

lemma take_drop_chars: "i + n \<le> length s \<Longrightarrow> take n (drop i (c_chars s)) = take n (drop i s)"
  by (simp add: c_chars_def)

lemma substr_ok:
  assumes "cstring str" "lower \<le> upper \<longrightarrow> 1 \<le> lower \<and> upper \<le> llen str"
  shows "substr str lower upper =
    Some (if lower > upper then [] else take (nat (upper - lower + 1)) (drop (nat (lower - 1)) str))"
proof (cases "lower > upper")
  case False
  define n where "n = nat (upper - lower + 1)"
  have n: "upper - lower + 1 = int n" "nat (upper - lower + 2) = Suc n"
    using False by (auto simp: n_def)
  have "copy_loop n lower (c_chars str) 1 (new_block (upper - lower + 2))
      = Some (filled (take n (drop (nat (lower - 1)) (c_chars str))) (Suc n - n))"
    using False assms(2) n by (intro copy_first) (auto simp: c_chars_def)
  also have "take n (drop (nat (lower - 1)) (c_chars str)) = take n (drop (nat (lower - 1)) str)"
    using False assms(2) n by (intro take_drop_chars) auto
  finally have c: "copy_loop n lower (c_chars str) 1 (new_block (upper - lower + 2))
      = Some (filled (take n (drop (nat (lower - 1)) str)) (Suc 0))" by simp
  have "set_slot (filled (take n (drop (nat (lower - 1)) str)) (Suc 0)) (upper - lower + 2) (CHR 0x00)
      = Some (filled (take n (drop (nat (lower - 1)) str) @ [CHR 0x00]) 0)"
    using False assms(2) n by (intro set_filled) auto
  with c False assms(1) show ?thesis
    by (simp add: substr_def n_def [symmetric])
qed (simp add: substr_def)

lemma strget_ok:
  "cstring str \<Longrightarrow> 1 \<le> i \<Longrightarrow> i \<le> llen str \<Longrightarrow> strget str i = Some [str ! nat (i - 1)]"
  by (auto simp: strget_def get_elem_def c_chars_def c_text_def nth_append cstring_def)
    (metis nth_mem)

lemma strrangeset_ok:
  assumes "cstring base" "cstring val" "from \<le> llen base + 1" "0 \<le> to"
  shows "strrangeset base from to val =
    Some (take (nat (from - 1)) base @ val @ drop (nat to) base)"
proof -
  define l where "l = nat (from - 1)"
  define r where "r = nat (llen base - to)"
  have l: "(if from > 1 then from - 1 else 0) = int l" "l \<le> length base"
    using assms by (auto simp: l_def)
  have r: "(if llen base > to then llen base - to else 0) = int r" by (auto simp: r_def)
  have "copy_loop l 1 (c_chars base) 1 (new_block (int l + llen val + int r + 1))
      = Some (filled (take l (drop (nat (1 - 1)) (c_chars base))) (l + length val + r + 1 - l))"
    by (rule copy_first) (use l(2) in \<open>auto simp: c_chars_def\<close>)
  moreover have "copy_loop (length val) 1 (c_chars val) (int l + 1)
      (filled (take l base) (Suc (length val + r))) = Some (filled (take l base @ val) (Suc r))"
    using copy_filled [of 1 "length val" "c_chars val" "int l + 1" "take l base" "Suc (length val + r)"] l(2)
    by (simp add: c_chars_def)
  moreover have "copy_loop r (to + 1) (c_chars base) (int l + llen val + 1)
      (filled (take l base @ val) (Suc r)) = Some (filled ((take l base @ val) @ drop (nat to) base) 1)"
  proof (cases "r = 0")
    case False
    then have "copy_loop r (to + 1) (c_chars base) (int l + llen val + 1)
      (filled (take l base @ val) (Suc r))
      = Some (filled ((take l base @ val) @ take r (drop (nat (to + 1 - 1)) (c_chars base))) (Suc r - r))"
      using assms l(2) by (intro copy_filled) (auto simp: r_def c_chars_def)
    also have "take r (drop (nat (to + 1 - 1)) (c_chars base)) = drop (nat to) base"
      using False assms(4) by (auto simp: r_def c_chars_def)
    finally show ?thesis by simp
  qed (use assms(4) in \<open>simp add: r_def\<close>)
  moreover have "set_slot (filled (take l base @ val @ drop (nat to) base) (Suc 0))
      (int l + llen val + int r + 1) (CHR 0x00)
    = Some (filled ((take l base @ val @ drop (nat to) base) @ [CHR 0x00]) 0)"
    using l(2) assms(4) by (intro set_filled) (auto simp: r_def)
  moreover have "c_text (take l base @ val @ drop (nat to) base @ [CHR 0x00])
      = take l base @ val @ drop (nat to) base"
    using c_text_chars [of "take l base @ val @ drop (nat to) base"] assms(1,2) by simp
  ultimately show ?thesis
    unfolding strrangeset_def Let_def l(1) r using l(2)
    by (simp add: l_def [symmetric] take_chars)
qed

section \<open>Properties\<close>



end
