(* ===== verification/Literals.thy ===== *)
theory Literals
  imports Lists
begin

text \<open>
  The text of values: \<^verbatim>\<open>list2str\<close>, \<^verbatim>\<open>value2str\<close>, \<^verbatim>\<open>print_to_stream\<close> and \<^verbatim>\<open>value_to_literal\<close> of list.c, as
  programs over a stream, and what they leave in it.  Literals of float-free values are a prefix
  code: distinct values have distinct literals, also as elements of a list.  The static stream of
  a function is empty whenever it is entered (\<open>reset_stream_ok\<close>), so each call starts from
  \<open>new_stream 100\<close>.
\<close>

section \<open>The programs\<close>

definition obj_arg :: "objid \<Rightarrow> fmt_arg" where
  "obj_arg n = FA_int (word_of_int n)"

fun list2str_loop :: "stream \<Rightarrow> var list \<Rightarrow> stream option" where
  "list2str_loop str [] = Some str"
| "list2str_loop str (a # args) = do {
     str \<leftarrow> (case a of
        VInt n \<Rightarrow> stream_printf str ''%d'' [FA_int n]
      | VObj n \<Rightarrow> stream_printf str ''#%d'' [obj_arg n]
      | VStr s \<Rightarrow> stream_add_string str s
      | VErr e \<Rightarrow> stream_add_string str (unparse_error e)
      | VFloat d \<Rightarrow> stream_printf str ''%g'' [FA_double d]
      | VList _ \<Rightarrow> stream_add_string str ''{list}''
      | _ \<Rightarrow> None);
     list2str_loop str args }"

definition list2str :: "var list \<Rightarrow> string option" where
  "list2str args = do {
     str \<leftarrow> list2str_loop (new_stream 100) args;
     map_option fst (reset_stream str) }"

definition value2str :: "var \<Rightarrow> string option" where
  "value2str v = list2str [v]"

fun print_str_loop :: "string \<Rightarrow> stream \<Rightarrow> stream option" where
  "print_str_loop [] s = Some s"
| "print_str_loop (c # str) s = do {
     s \<leftarrow> (if c = CHR 0x22 \<or> c = CHR 0x5C then stream_add_char s (CHR 0x5C) else Some s);
     s \<leftarrow> stream_add_char s c;
     print_str_loop str s }"

fun print_to_stream :: "var \<Rightarrow> stream \<Rightarrow> stream option"
and print_elems :: "string \<Rightarrow> var list \<Rightarrow> stream \<Rightarrow> stream option" where
  "print_to_stream (VInt n) s = stream_printf s ''%d'' [FA_int n]"
| "print_to_stream (VObj n) s = stream_printf s ''#%d'' [obj_arg n]"
| "print_to_stream (VErr e) s = stream_add_string s (error_name e)"
| "print_to_stream (VFloat d) s = stream_printf s ''%g'' [FA_double d]"
| "print_to_stream (VStr str) s = do {
     s \<leftarrow> stream_add_char s (CHR 0x22);
     s \<leftarrow> print_str_loop str s;
     stream_add_char s (CHR 0x22) }"
| "print_to_stream (VList vs) s = do {
     s \<leftarrow> stream_add_char s (CHR ''{'');
     s \<leftarrow> print_elems [] vs s;
     stream_add_char s (CHR ''}'') }"
| "print_to_stream _ s = stream_add_string s ''>>Unknown value<<''"
| "print_elems sep [] s = Some s"
| "print_elems sep (v # vs) s = do {
     s \<leftarrow> stream_add_string s sep;
     s \<leftarrow> print_to_stream v s;
     print_elems '', '' vs s }"

definition value_to_literal :: "var \<Rightarrow> string option" where
  "value_to_literal v = do {
     s \<leftarrow> print_to_stream v (new_stream 100);
     map_option fst (reset_stream s) }"

section \<open>The text they leave\<close>

text \<open>The text of a value among the arguments of \<^verbatim>\<open>tostr\<close>.\<close>

fun str_text :: "var \<Rightarrow> string" where
  "str_text (VInt n) = dec_int (sint n)"
| "str_text (VObj n) = CHR ''#'' # dec_int (sint (word_of_int n :: int32))"
| "str_text (VStr s) = s"
| "str_text (VErr e) = unparse_error e"
| "str_text (VFloat d) = dbl_text d"
| "str_text (VList _) = ''{list}''"
| "str_text _ = []"

fun quote_char :: "char \<Rightarrow> string" where
  "quote_char c = (if c = CHR 0x22 \<or> c = CHR 0x5C then [CHR 0x5C, c] else [c])"

fun commas :: "string list \<Rightarrow> string" where
  "commas [] = []"
| "commas [x] = x"
| "commas (x # y # xs) = x @ '', '' @ commas (y # xs)"

fun literal :: "var \<Rightarrow> string" where
  "literal (VInt n) = dec_int (sint n)"
| "literal (VObj n) = CHR ''#'' # dec_int (sint (word_of_int n :: int32))"
| "literal (VErr e) = error_name e"
| "literal (VFloat d) = dbl_text d"
| "literal (VStr s) = CHR 0x22 # concat (map quote_char s) @ [CHR 0x22]"
| "literal (VList vs) = CHR ''{'' # commas (map literal vs) @ ''}''"
| "literal _ = ''>>Unknown value<<''"

declare quote_char.simps [simp del]

definition appends :: "(stream \<Rightarrow> stream option) \<Rightarrow> string \<Rightarrow> bool" where
  "appends f t \<longleftrightarrow> (\<forall>s. wf_stream s \<longrightarrow>
     (\<exists>s'. f s = Some s' \<and> wf_stream s' \<and> stream_text s' = stream_text s @ t))"

named_theorems appends_intros

lemma appends_char [appends_intros]: "appends (\<lambda>s. stream_add_char s c) [c]"
  unfolding appends_def by (simp add: stream_add_char_ok)

lemma appends_string [appends_intros]: "appends (\<lambda>s. stream_add_string s t) t"
  unfolding appends_def by (simp add: stream_add_string_ok)

lemma appends_printf [appends_intros]:
  "fmt_expand fmt args = Some t \<Longrightarrow> appends (\<lambda>s. stream_printf s fmt args) t"
  unfolding appends_def by (simp add: stream_printf_ok)

lemma appends_skip [appends_intros]: "appends Some []"
  by (simp add: appends_def)

lemma appends_bind [appends_intros]:
  assumes "appends f t" "appends g u"
  shows "appends (\<lambda>s. f s \<bind> g) (t @ u)"
  unfolding appends_def
proof (intro allI impI)
  fix s assume "wf_stream s"
  then obtain s1 where 1: "f s = Some s1" "wf_stream s1" "stream_text s1 = stream_text s @ t"
    using assms(1) by (auto simp: appends_def)
  then obtain s2 where "g s1 = Some s2" "wf_stream s2" "stream_text s2 = stream_text s1 @ u"
    using assms(2) by (auto simp: appends_def)
  with 1 show "\<exists>s'. f s \<bind> g = Some s' \<and> wf_stream s' \<and> stream_text s' = stream_text s @ t @ u"
    by simp
qed

lemma appends_run:
  assumes "appends f t"
  shows "(f (new_stream 100) \<bind> (\<lambda>s. map_option fst (reset_stream s))) = Some t"
proof -
  have "wf_stream (new_stream 100)" "stream_text (new_stream 100) = []"
    using wf_new_stream [of 100] by auto
  with assms obtain s where s: "f (new_stream 100) = Some s" "wf_stream s" "stream_text s = t"
    unfolding appends_def by force
  with reset_stream_ok [OF s(2)] show ?thesis by auto
qed

text \<open>What \<^verbatim>\<open>list2str\<close> prints, for arguments a program can pass.\<close>

lemma appends_list2str:
  "\<forall>v \<in> set args. user_value v \<Longrightarrow> appends (\<lambda>s. list2str_loop s args) (concat (map str_text args))"
proof (induction args)
  case (Cons a args)
  have "appends (\<lambda>s. case a of
        VInt n \<Rightarrow> stream_printf s ''%d'' [FA_int n]
      | VObj n \<Rightarrow> stream_printf s ''#%d'' [obj_arg n]
      | VStr t \<Rightarrow> stream_add_string s t
      | VErr e \<Rightarrow> stream_add_string s (unparse_error e)
      | VFloat d \<Rightarrow> stream_printf s ''%g'' [FA_double d]
      | VList _ \<Rightarrow> stream_add_string s ''{list}''
      | _ \<Rightarrow> None) (str_text a)"
    using Cons.prems
    by (cases a) (auto intro!: appends_intros simp: fmt_expand_d fmt_expand_obj fmt_expand_g obj_arg_def)
  then show ?case using Cons by (auto intro!: appends_bind)
qed (simp add: appends_skip)

lemma list2str_ok:
  "\<forall>v \<in> set args. user_value v \<Longrightarrow> list2str args = Some (concat (map str_text args))"
  unfolding list2str_def by (rule appends_run) (rule appends_list2str)

lemma list2str_panics:
  assumes "v \<in> set args" "v = VClear \<or> v = VNone \<or> (\<exists>n. v = VCatch n \<or> v = VFinally n)"
  shows "list2str args = None"
proof -
  have "list2str_loop s args = None" for s
    using assms by (induction args arbitrary: s) (auto simp: Option.bind_eq_None_conv)
  then show ?thesis by (simp add: list2str_def)
qed

lemma print_str_loop_Cons:
  "print_str_loop (c # str) = (\<lambda>s.
     (if c = CHR 0x22 \<or> c = CHR 0x5C then stream_add_char s (CHR 0x5C) else Some s)
     \<bind> (\<lambda>s. stream_add_char s c \<bind> print_str_loop str))"
  by (simp add: fun_eq_iff)

lemma appends_quoted: "appends (print_str_loop str) (concat (map quote_char str))"
proof (induction str)
  case (Cons c str)
  have "appends (\<lambda>s. if c = CHR 0x22 \<or> c = CHR 0x5C then stream_add_char s (CHR 0x5C) else Some s)
      (if c = CHR 0x22 \<or> c = CHR 0x5C then [CHR 0x5C] else [])"
    by (auto intro: appends_intros)
  then have "appends (print_str_loop (c # str))
      ((if c = CHR 0x22 \<or> c = CHR 0x5C then [CHR 0x5C] else []) @ [c] @ concat (map quote_char str))"
    unfolding print_str_loop_Cons by (intro appends_bind appends_char Cons.IH)
  then show ?case by (cases "c = CHR 0x22 \<or> c = CHR 0x5C")
      (simp_all add: quote_char.simps [of c] del: print_str_loop.simps)
qed (simp add: appends_def)

definition sep_text :: "string \<Rightarrow> string list \<Rightarrow> string" where
  "sep_text sep xs = (if xs = [] then [] else sep @ commas xs)"

lemma sep_text_Cons: "sep_text sep (x # xs) = sep @ x @ sep_text '', '' xs"
  by (cases xs) (simp_all add: sep_text_def)

lemma print_elems_Cons:
  "print_elems sep (v # vs) = (\<lambda>s. stream_add_string s sep
     \<bind> (\<lambda>s. print_to_stream v s \<bind> print_elems '', '' vs))"
  by (simp add: fun_eq_iff)

lemma appends_print_elems:
  "(\<And>v. v \<in> set vs \<Longrightarrow> appends (print_to_stream v) (literal v)) \<Longrightarrow>
   appends (print_elems sep vs) (sep_text sep (map literal vs))"
proof (induction vs arbitrary: sep)
  case Nil
  then show ?case by (simp add: sep_text_def appends_def)
next
  case (Cons v vs)
  have "appends (print_elems sep (v # vs)) (sep @ literal v @ sep_text '', '' (map literal vs))"
    unfolding print_elems_Cons by (intro appends_bind appends_string Cons) simp_all
  then show ?case by (simp add: sep_text_Cons del: print_elems.simps)
qed

lemma print_to_stream_Str:
  "print_to_stream (VStr str) = (\<lambda>s. stream_add_char s (CHR 0x22)
     \<bind> (\<lambda>s. print_str_loop str s \<bind> (\<lambda>s. stream_add_char s (CHR 0x22))))"
  by (simp add: fun_eq_iff)

lemma print_to_stream_List:
  "print_to_stream (VList vs) = (\<lambda>s. stream_add_char s (CHR ''{'')
     \<bind> (\<lambda>s. print_elems [] vs s \<bind> (\<lambda>s. stream_add_char s (CHR ''}''))))"
  by (simp add: fun_eq_iff)

lemma appends_print: "appends (print_to_stream v) (literal v)"
proof (induction v rule: var_list_induct)
  case (leaf v)
  show ?case
  proof (cases v)
    case (VInt n)
    then show ?thesis using appends_printf [OF fmt_expand_d [of n]] by (simp add: appends_def)
  next
    case (VObj n)
    then show ?thesis using appends_printf [OF fmt_expand_obj [of "word_of_int n"]]
      by (simp add: appends_def obj_arg_def)
  next
    case (VFloat d)
    then show ?thesis using appends_printf [OF fmt_expand_g [of d]] by (simp add: appends_def)
  next
    case (VStr str)
    have "appends (print_to_stream (VStr str)) ([CHR 0x22] @ concat (map quote_char str) @ [CHR 0x22])"
      unfolding print_to_stream_Str by (intro appends_bind appends_char appends_quoted)
    then show ?thesis by (simp add: VStr del: print_to_stream.simps)
  qed (use leaf in \<open>auto simp: appends_def stream_add_string_ok\<close>)
next
  case (list vs)
  have "appends (print_to_stream (VList vs))
      (''{'' @ sep_text [] (map literal vs) @ ''}'')"
    unfolding print_to_stream_List by (intro appends_bind appends_char appends_print_elems list)
  then show ?case by (simp add: sep_text_def del: print_to_stream.simps split: if_splits)
qed

lemma value_to_literal_ok: "value_to_literal v = Some (literal v)"
  unfolding value_to_literal_def by (rule appends_run) (rule appends_print)

section \<open>Literals are a prefix code\<close>

definition ends_value :: "string \<Rightarrow> bool" where
  "ends_value s \<longleftrightarrow> s = [] \<or> hd s = CHR '','' \<or> hd s = CHR ''}''"

definition num_char :: "char \<Rightarrow> bool" where
  "num_char c \<longleftrightarrow> isdigit c \<or> c = CHR ''-''"

lemma dec_int_chars: "c \<in> set (dec_int i) \<Longrightarrow> num_char c"
  by (auto simp: dec_int_def num_char_def split: if_splits dest: dec_digits)

lemma dec_int_not_Nil [simp]: "dec_int i \<noteq> []"
  by (simp add: dec_int_def)

lemma dash_not_digit [simp]: "\<not> isdigit (CHR ''-'')"
  by (simp add: isdigit_def ch_def)

lemma hd_dec: "isdigit (hd (dec n))"
  by (rule dec_digits [of _ n]) simp

lemma dec_int_inj: "dec_int i = dec_int j \<longleftrightarrow> i = j"
proof
  assume eq: "dec_int i = dec_int j"
  have "dec m \<noteq> CHR ''-'' # dec n" for m n
    using hd_dec [of m] by (metis dash_not_digit list.sel(1))
  from this this [symmetric] eq show "i = j" by (auto simp: dec_int_def dec_inj split: if_splits)
qed simp

lemma ends_value_not_num: "ends_value s \<Longrightarrow> takeWhile num_char s = []"
  by (cases s) (auto simp: ends_value_def num_char_def isdigit_def ch_def)

lemma dec_int_prefix:
  assumes "dec_int i @ s = dec_int j @ t" "ends_value s" "ends_value t"
  shows "i = j \<and> s = t"
proof -
  have "takeWhile num_char (dec_int i @ s) = dec_int i" "takeWhile num_char (dec_int j @ t) = dec_int j"
    using assms(2,3) ends_value_not_num dec_int_chars by (auto simp: takeWhile_append2)
  with assms(1) show ?thesis by (simp add: dec_int_inj)
qed

lemma error_name_prefix: "error_name e @ s = error_name f @ t \<Longrightarrow> e = f \<and> s = t"
  by (cases e; cases f) simp_all

lemma quoted_prefix:
  "concat (map quote_char a) @ CHR 0x22 # s = concat (map quote_char b) @ CHR 0x22 # t
   \<Longrightarrow> a = b \<and> s = t"
proof (induction a arbitrary: b)
  case Nil
  then show ?case by (cases b) (auto simp: quote_char.simps split: if_splits)
next
  case (Cons c a)
  then show ?case
    by (cases b) (auto simp: quote_char.simps split: if_splits)
qed

text \<open>The first character of a literal tells the type.\<close>

definition first_type :: "char \<Rightarrow> var_type" where
  "first_type c =
     (if num_char c then TYPE_INT else if c = CHR ''#'' then TYPE_OBJ
      else if c = CHR ''E'' then TYPE_ERR else if c = CHR 0x22 then TYPE_STR else TYPE_LIST)"

lemma first_type_simps [simp]:
  "first_type (CHR ''#'') = TYPE_OBJ" "first_type (CHR ''E'') = TYPE_ERR"
  "first_type (CHR 0x22) = TYPE_STR" "first_type (CHR ''{'') = TYPE_LIST"
  "num_char c \<Longrightarrow> first_type c = TYPE_INT"
  by (simp_all add: first_type_def num_char_def isdigit_def ch_def)

lemma literal_hd:
  "no_floats v \<Longrightarrow> user_value v \<Longrightarrow> literal v \<noteq> [] \<and> type_of v = first_type (hd (literal v))"
proof (cases v)
  case (VInt n)
  have "num_char (hd (dec_int (sint n)))" by (rule dec_int_chars [of _ "sint n"]) simp
  then show ?thesis by (simp add: VInt)
next
  case (VErr e)
  then show ?thesis by (cases e) simp_all
qed auto

lemma literal_type:
  assumes "no_floats v" "user_value v" "no_floats w" "user_value w" "literal v @ s = literal w @ t"
  shows "type_of v = type_of w"
  using assms(5) literal_hd [OF assms(1,2)] literal_hd [OF assms(3,4)] by (metis hd_append2)

lemma commas_Cons: "commas (x # xs) = x @ (if xs = [] then [] else '', '' @ commas xs)"
  by (cases xs) simp_all

lemma literal_not_close:
  assumes "no_floats v" "user_value v"
  shows "literal v @ x \<noteq> CHR ''}'' # y"
proof
  assume eq: "literal v @ x = CHR ''}'' # y"
  have hd: "hd (literal v) = CHR ''}''"
    using literal_hd [OF assms] eq by (metis hd_append2 list.sel(1))
  have "first_type (CHR ''}'') = TYPE_LIST"
    by (simp add: first_type_def num_char_def isdigit_def ch_def)
  with hd literal_hd [OF assms] have "type_of v = TYPE_LIST" by simp
  with hd show False by (cases v) simp_all
qed

definition elems_then :: "var list \<Rightarrow> string \<Rightarrow> string" where
  "elems_then vs s = commas (map literal vs) @ CHR ''}'' # s"

definition rest_then :: "var list \<Rightarrow> string \<Rightarrow> string" where
  "rest_then vs s = (if vs = [] then CHR ''}'' # s else '', '' @ elems_then vs s)"

lemma elems_then_Nil: "elems_then [] s = CHR ''}'' # s"
  by (simp add: elems_then_def)

lemma elems_then_Cons: "elems_then (v # vs) s = literal v @ rest_then vs s"
  by (simp add: elems_then_def rest_then_def commas_Cons)

lemma ends_rest: "ends_value (rest_then vs s)"
  by (simp add: ends_value_def rest_then_def)

lemma rest_then_eq:
  "rest_then vs s = rest_then ws t \<Longrightarrow>
   vs = [] \<and> ws = [] \<and> s = t \<or> elems_then vs s = elems_then ws t"
  by (simp add: rest_then_def split: if_splits)

lemma elems_prefix:
  assumes "\<And>v w s t. v \<in> set vs \<Longrightarrow> no_floats w \<Longrightarrow> user_value w \<Longrightarrow> ends_value s \<Longrightarrow> ends_value t \<Longrightarrow>
      literal v @ s = literal w @ t \<Longrightarrow> v = w \<and> s = t"
    and "\<forall>v \<in> set vs. no_floats v \<and> user_value v" "\<forall>v \<in> set ws. no_floats v \<and> user_value v"
    and "elems_then vs s = elems_then ws t"
  shows "vs = ws \<and> s = t"
  using assms
proof (induction vs arbitrary: ws)
  case Nil
  show ?case
  proof (cases ws)
    case (Cons w ws')
    then have "literal w @ rest_then ws' t = CHR ''}'' # s"
      using Nil.prems(4) by (simp add: elems_then_Nil elems_then_Cons)
    then show ?thesis using literal_not_close [of w] Nil.prems(3) Cons by simp
  qed (use Nil in \<open>simp add: elems_then_Nil\<close>)
next
  case (Cons v vs)
  show ?case
  proof (cases ws)
    case Nil
    then have "literal v @ rest_then vs s = CHR ''}'' # t"
      using Cons.prems(4) by (simp add: elems_then_Nil elems_then_Cons)
    then show ?thesis using literal_not_close [of v] Cons.prems(2) by simp
  next
    fix w ws' assume ws: "ws = w # ws'"
    have "literal v @ rest_then vs s = literal w @ rest_then ws' t"
      using Cons.prems(4) ws by (simp add: elems_then_Cons)
    then have vw: "v = w" and r: "rest_then vs s = rest_then ws' t"
      using Cons.prems(1) [of v w, OF _ _ _ ends_rest ends_rest] Cons.prems(3) ws by simp_all
    from rest_then_eq [OF r] show ?thesis
    proof
      assume "elems_then vs s = elems_then ws' t"
      moreover have "\<forall>v \<in> set vs. no_floats v \<and> user_value v" "\<forall>v \<in> set ws'. no_floats v \<and> user_value v"
        using Cons.prems(2,3) ws by simp_all
      moreover have "v' = w' \<and> s' = t'"
        if "v' \<in> set vs" "no_floats w'" "user_value w'" "ends_value s'" "ends_value t'"
          "literal v' @ s' = literal w' @ t'" for v' w' s' t'
        using Cons.prems(1) [of v' w' s' t'] that by simp
      ultimately have "vs = ws' \<and> s = t" by (intro Cons.IH) blast+
      with vw ws show ?thesis by simp
    qed (use vw ws in simp)
  qed
qed

lemma literal_prefix:
  "no_floats v \<Longrightarrow> user_value v \<Longrightarrow> no_floats w \<Longrightarrow> user_value w \<Longrightarrow> ends_value s \<Longrightarrow> ends_value t \<Longrightarrow>
   literal v @ s = literal w @ t \<Longrightarrow> v = w \<and> s = t"
proof (induction v arbitrary: w s t rule: var_list_induct)
  case (leaf v)
  have "type_of v = type_of w" using leaf.prems literal_type by blast
  then show ?case using leaf.prems leaf.hyps
    by (cases v; cases w)
      (auto dest!: dec_int_prefix error_name_prefix quoted_prefix simp: sint32_of_int signed_word_eqI)
next
  case (list vs)
  have "type_of (VList vs) = type_of w" using list.prems literal_type by blast
  then obtain ws where w: "w = VList ws" by (cases w) auto
  have "vs = ws \<and> s = t"
    using list.prems w by (intro elems_prefix list.IH) (simp_all add: elems_then_def)
  with w show ?case by simp
qed

lemma literal_inj:
  "no_floats v \<Longrightarrow> user_value v \<Longrightarrow> no_floats w \<Longrightarrow> user_value w \<Longrightarrow> literal v = literal w \<Longrightarrow> v = w"
  using literal_prefix [of v w "[]" "[]"] by (simp add: ends_value_def)

section \<open>Properties\<close>

text \<open>C13: \<^verbatim>\<open>toliteral\<close> is defined on every value, and the literals of values without floats determine
  them: two values with the same literal are the same value.\<close>

theorem value_to_literal_injective:
  assumes "no_floats v" "user_value v" "no_floats w" "user_value w"
  shows "value_to_literal v \<noteq> None \<and> (value_to_literal v = value_to_literal w \<longleftrightarrow> v = w)"
  using literal_inj [of v w] assms by (auto simp: value_to_literal_ok)

theorem value_to_literal_injective_witness:
  "value_to_literal (VList [VStr ''a, b'']) \<noteq> value_to_literal (VList [VStr ''a'', VStr ''b''])"
  using value_to_literal_injective [of "VList [VStr ''a, b'']" "VList [VStr ''a'', VStr ''b'']"]
  by (simp add: cstring_def)

text \<open>C14: \<^verbatim>\<open>list2str\<close>, which \<^verbatim>\<open>tostr\<close> returns, panics exactly on a marker among its arguments, and
  otherwise is the concatenation of the texts of the arguments.\<close>

theorem list2str_correct:
  assumes "\<forall>v \<in> set args. user_value v \<or> v \<in> {VClear, VNone} \<union> range VCatch \<union> range VFinally"
  shows "list2str args =
    (if \<forall>v \<in> set args. user_value v then Some (concat (map str_text args)) else None)"
  using assms list2str_ok [of args] list2str_panics [of _ args] by auto

theorem list2str_correct_witness:
  "list2str [VStr ''n = '', VInt 42, VErr E_DIV] = Some ''n = 42Division by zero''"
proof -
  have "str_text (VInt 42) = ''42''" by code_simp
  then show ?thesis using list2str_correct [of "[VStr ''n = '', VInt 42, VErr E_DIV]"]
    by (simp add: cstring_def)
qed

end
