(* ===== verification/Patterns.thy ===== *)
theory Patterns
  imports Literals
begin

text \<open>
  Regular-expression matching as list.c and pattern.c organise it: the translation of MOO patterns,
  the compiled-pattern cache, \<^verbatim>\<open>do_match\<close>, and \<^verbatim>\<open>substitute\<close>.  The regular-expression package itself
  (regexpr.c, third-party) is a parameter: \<open>re_compile\<close> is \<^verbatim>\<open>re_compile_pattern\<close> on a fresh buffer
  (\<open>None\<close> is a syntax error) and \<open>re_search\<close> gives the match position and the registers.
\<close>

section \<open>Translating a pattern\<close>

definition re_special :: "char \<Rightarrow> bool" where
  "re_special c \<longleftrightarrow> c \<in> set ''.*+?[^$|()123456789bB<>wW''"

text \<open>\<^verbatim>\<open>while (c && c != ']') ...\<close>, then the closing bracket; \<open>None\<close> is the \<^verbatim>\<open>goto fail\<close>.\<close>

fun charset_loop :: "string \<Rightarrow> string \<Rightarrow> (string \<times> string) option" where
  "charset_loop s [] = None"
| "charset_loop s (c # p) =
     (if c = CHR '']'' then Some (s @ [c], p) else charset_loop (s @ [c]) p)"

definition take_char :: "char \<Rightarrow> string \<times> string \<Rightarrow> string \<times> string" where
  "take_char d sp = (case sp of
     (s, c # p) \<Rightarrow> if c = d then (s @ [c], p) else sp
   | _ \<Rightarrow> sp)"

definition translate_charset :: "string \<Rightarrow> string \<Rightarrow> (string \<times> string) option" where
  "translate_charset s p =
     (case take_char (CHR '']'') (take_char (CHR ''^'') (s, p)) of (s, p) \<Rightarrow> charset_loop s p)"

lemma charset_loop_shorter: "charset_loop s p = Some (s', p') \<Longrightarrow> length p' < length p"
  by (induction s p rule: charset_loop.induct) (auto split: if_splits)

lemma take_char_shorter: "length (snd (take_char d (s, p))) \<le> length p"
  by (cases p) (auto simp: take_char_def)

lemma translate_charset_shorter: 
  assumes "translate_charset s p = Some (s', p')"
  shows "length p' < length p"
proof -
  obtain s1 p1 where 1: "take_char (CHR ''^'') (s, p) = (s1, p1)" by fastforce
  obtain s2 p2 where 2: "take_char (CHR '']'') (s1, p1) = (s2, p2)" by fastforce
  have "length p' < length p2"
    using assms 1 2 charset_loop_shorter by (auto simp: translate_charset_def)
  with take_char_shorter [of "CHR ''^''" s p] take_char_shorter [of "CHR '']''" s1 p1] 1 2
  show ?thesis by simp
qed

text \<open>\<open>s\<close> is what the static stream holds.\<close>

function translate_loop :: "string \<Rightarrow> string \<Rightarrow> string option" where
  "translate_loop s [] = Some s"
| "translate_loop s (c # p) =
     (if c = CHR ''%'' then
        (case p of
           [] \<Rightarrow> None
         | c # p \<Rightarrow> translate_loop ((if re_special c then s @ [CHR 0x5C] else s) @ [c]) p)
      else if c = CHR 0x5C then translate_loop (s @ [CHR 0x5C, CHR 0x5C]) p
      else if c = CHR ''['' then
        (case translate_charset (s @ [c]) p of
           None \<Rightarrow> None
         | Some (s, p) \<Rightarrow> translate_loop s p)
      else translate_loop (s @ [c]) p)"
  by pat_completeness auto
termination
  by (relation "measure (\<lambda>(s, p). length p)") (auto dest: translate_charset_shorter)

declare translate_loop.simps(2) [simp del]

definition translate_pattern :: "string \<Rightarrow> string option" where
  "translate_pattern pattern = translate_loop [] pattern"

definition casefold :: "char \<Rightarrow> char" where
  "casefold c = (if 65 \<le> ch c \<and> ch c \<le> 90 then char_of (ch c + 32) else c)"

lemma casefold_cmap: "casefold c = cmap c"
  by (simp add: casefold_def cmap_def)

definition new_pattern ::
  "(string \<Rightarrow> (char \<Rightarrow> char) option \<Rightarrow> 're option) \<Rightarrow> string \<Rightarrow> bool \<Rightarrow> 're option" where
  "new_pattern re_compile pattern case_matters =
     (case translate_pattern pattern of
        None \<Rightarrow> None
      | Some tpattern \<Rightarrow> re_compile tpattern (if case_matters then None else Some casefold))"

text \<open>A pattern with none of the characters \<^verbatim>\<open>% [ \\<close> is passed on unchanged.\<close>

lemma translate_loop_plain:
  "set p \<inter> {CHR ''%'', CHR ''['', CHR 0x5C} = {} \<Longrightarrow> translate_loop s p = Some (s @ p)"
  by (induction p arbitrary: s) (auto simp: translate_loop.simps(2))

text \<open>The translated pattern is at most twice as long, so its length fits whenever the pattern's does.\<close>

lemma charset_loop_length:
  "charset_loop s p = Some (s', p') \<Longrightarrow> length s' + length p' = length s + length p"
  by (induction s p rule: charset_loop.induct) (auto split: if_splits)

lemma take_char_length: "take_char d (s, p) = (s', p') \<Longrightarrow> length s' + length p' = length s + length p"
  by (cases p) (auto simp: take_char_def split: if_splits)

lemma translate_charset_length:
  "translate_charset s p = Some (s', p') \<Longrightarrow> length s' + length p' = length s + length p"
  unfolding translate_charset_def
  by (auto split: prod.splits dest!: charset_loop_length take_char_length)
    (metis charset_loop_length take_char_length surj_pair)

lemma translate_loop_length:
  "translate_loop s p = Some t \<Longrightarrow> length t \<le> length s + 2 * length p"
proof (induction "length p" arbitrary: s p rule: less_induct)
  case less
  show ?case
  proof (cases p)
    case (Cons c q)
    consider (pct) "c = CHR ''%''" | (bs) "c = CHR 0x5C" | (set) "c = CHR ''[''"
      | (other) "c \<noteq> CHR ''%''" "c \<noteq> CHR 0x5C" "c \<noteq> CHR ''[''" by blast
    then show ?thesis
    proof cases
      case pct
      then show ?thesis using less Cons
        by (cases q) (force simp: translate_loop.simps(2) split: if_splits)+
    next
      case set
      then obtain s' p' where sp: "translate_charset (s @ [c]) q = Some (s', p')"
        "translate_loop s' p' = Some t"
        using less.prems Cons by (auto simp: translate_loop.simps(2) split: option.splits)
      have "length t \<le> length s' + 2 * length p'"
        using less.hyps [OF _ sp(2)] translate_charset_shorter [OF sp(1)] Cons by simp
      with translate_charset_length [OF sp(1)] translate_charset_shorter [OF sp(1)] Cons
      show ?thesis by simp
    qed (use less Cons in \<open>force simp: translate_loop.simps(2)\<close>)+
  qed (use less in simp)
qed

section \<open>The pattern cache\<close>

definition PATTERN_CACHE_SIZE :: nat where
  "PATTERN_CACHE_SIZE = 20"

record 're pat_cache_entry =
  pc_string :: "string option"
  pc_case_matters :: bool
  pc_pattern :: "'re option"

text \<open>The entries in the order of their \<^verbatim>\<open>next\<close> links, from \<^verbatim>\<open>pat_cache\<close> on.\<close>

type_synonym 're pat_cache = "'re pat_cache_entry list"

definition setup_pattern_cache :: "'re pat_cache" where
  "setup_pattern_cache = replicate PATTERN_CACHE_SIZE
     \<lparr>pc_string = None, pc_case_matters = False, pc_pattern = None\<rparr>"

definition cache_hit :: "string \<Rightarrow> bool \<Rightarrow> 're pat_cache_entry \<Rightarrow> bool" where
  "cache_hit str case_matters entry =
     (case pc_string entry of
        None \<Rightarrow> False
      | Some s \<Rightarrow> strcmp str s = 0 \<and> case_matters = pc_case_matters entry)"

definition refill_entry ::
  "(string \<Rightarrow> bool \<Rightarrow> 're option) \<Rightarrow> string \<Rightarrow> bool \<Rightarrow> 're pat_cache_entry" where
  "refill_entry compile str case_matters =
     (let p = compile str case_matters in
      \<lparr>pc_string = (if p = None then None else Some str),
       pc_case_matters = case_matters, pc_pattern = p\<rparr>)"

text \<open>
  The search loop; \<open>before\<close> are the entries already passed.  The result is the entry found or
  refilled, and the other entries in their order (\<^verbatim>\<open>*entry_ptr = entry->next\<close>).
\<close>

fun pattern_loop ::
  "(string \<Rightarrow> bool \<Rightarrow> 're option) \<Rightarrow> string \<Rightarrow> bool \<Rightarrow> 're pat_cache \<Rightarrow> 're pat_cache
     \<Rightarrow> ('re pat_cache_entry \<times> 're pat_cache) option" where
  "pattern_loop compile str cm before [] = None"
| "pattern_loop compile str cm before (entry # rest) =
     (if cache_hit str cm entry then Some (entry, before @ rest)
      else if rest = [] then Some (refill_entry compile str cm, before)
      else pattern_loop compile str cm (before @ [entry]) rest)"

definition get_pattern ::
  "(string \<Rightarrow> bool \<Rightarrow> 're option) \<Rightarrow> string \<Rightarrow> bool \<Rightarrow> 're pat_cache
     \<Rightarrow> ('re option \<times> 're pat_cache) option" where
  "get_pattern compile str cm cache =
     map_option (\<lambda>(entry, others). (pc_pattern entry, entry # others))
       (pattern_loop compile str cm [] cache)"

text \<open>What the cache promises: every keyed entry holds the pattern its key compiles to, once.\<close>

definition entry_ok :: "(string \<Rightarrow> bool \<Rightarrow> 're option) \<Rightarrow> 're pat_cache_entry \<Rightarrow> bool" where
  "entry_ok compile e = (case pc_string e of
     None \<Rightarrow> True
   | Some s \<Rightarrow> cstring s \<and> pc_pattern e = compile s (pc_case_matters e) \<and> pc_pattern e \<noteq> None)"

definition entry_key :: "'re pat_cache_entry \<Rightarrow> (string \<times> bool) option" where
  "entry_key e = map_option (\<lambda>s. (s, pc_case_matters e)) (pc_string e)"

definition cache_keys :: "'re pat_cache \<Rightarrow> (string \<times> bool) list" where
  "cache_keys cache = List.map_filter entry_key cache"

definition cache_ok :: "(string \<Rightarrow> bool \<Rightarrow> 're option) \<Rightarrow> 're pat_cache \<Rightarrow> bool" where
  "cache_ok compile cache \<longleftrightarrow>
     length cache = PATTERN_CACHE_SIZE \<and> (\<forall>e \<in> set cache. entry_ok compile e)
     \<and> distinct (cache_keys cache)"

lemma cache_keys_simps:
  "cache_keys [] = []"
  "cache_keys (e # c) = (case entry_key e of None \<Rightarrow> [] | Some k \<Rightarrow> [k]) @ cache_keys c"
  "cache_keys (c @ d) = cache_keys c @ cache_keys d"
  by (simp_all add: cache_keys_def List.map_filter_def split: option.splits)

lemma setup_pattern_cache_ok: "cache_ok compile setup_pattern_cache"
  by (simp add: cache_ok_def setup_pattern_cache_def entry_ok_def cache_keys_def
      List.map_filter_def entry_key_def)

lemma cache_hit_key:
  "cstring str \<Longrightarrow> entry_ok compile e \<Longrightarrow> cache_hit str cm e \<longleftrightarrow> entry_key e = Some (str, cm)"
  by (auto simp: cache_hit_def entry_ok_def entry_key_def strcmp_0 split: option.splits)

lemma set_cache_keys: "k \<in> set (cache_keys cache) \<longleftrightarrow> (\<exists>e \<in> set cache. entry_key e = Some k)"
  by (force simp: cache_keys_def List.map_filter_def)

text \<open>Either a keyed entry is found, or the last entry is refilled.\<close>

lemma pattern_loop_cases:
  assumes "cstring str" "\<forall>e \<in> set cache. entry_ok compile e" "cache \<noteq> []"
  shows "(\<exists>xs e ys. cache = xs @ e # ys \<and> entry_key e = Some (str, cm)
            \<and> (str, cm) \<notin> set (cache_keys xs)
            \<and> pattern_loop compile str cm before cache = Some (e, before @ xs @ ys))
       \<or> ((str, cm) \<notin> set (cache_keys cache)
            \<and> pattern_loop compile str cm before cache
                = Some (refill_entry compile str cm, before @ butlast cache))"
  using assms(2,3)
proof (induction cache arbitrary: before)
  case (Cons e cache)
  have hit: "cache_hit str cm e \<longleftrightarrow> entry_key e = Some (str, cm)"
    using Cons.prems assms(1) by (intro cache_hit_key [where compile = compile]) simp_all
  show ?case
  proof (cases "entry_key e = Some (str, cm)")
    case True
    with hit show ?thesis
      by (intro disjI1 exI [of _ "[]"] exI [of _ e] exI [of _ cache]) (simp add: cache_keys_simps)
  next
    case False
    show ?thesis
    proof (cases "cache = []")
      case True
      with False hit show ?thesis
        by (intro disjI2) (simp add: cache_keys_simps split: option.splits)
    next
      case nonempty: False
      have "\<forall>e \<in> set cache. entry_ok compile e" using Cons.prems by simp
      from Cons.IH [OF this nonempty, of "before @ [e]"] show ?thesis
      proof (elim disjE exE conjE)
        fix xs e' ys
        assume "cache = xs @ e' # ys" "entry_key e' = Some (str, cm)" "(str, cm) \<notin> set (cache_keys xs)"
          "pattern_loop compile str cm (before @ [e]) cache = Some (e', (before @ [e]) @ xs @ ys)"
        with False hit nonempty show ?thesis
          by (intro disjI1 exI [of _ "e # xs"] exI [of _ e'] exI [of _ ys])
            (simp add: cache_keys_simps split: option.splits)
      next
        assume "(str, cm) \<notin> set (cache_keys cache)"
          "pattern_loop compile str cm (before @ [e]) cache
            = Some (refill_entry compile str cm, (before @ [e]) @ butlast cache)"
        with False hit nonempty show ?thesis
          by (intro disjI2) (simp add: cache_keys_simps split: option.splits)
      qed
    qed
  qed
qed simp

lemma cache_keys_butlast: "set (cache_keys (butlast c)) \<subseteq> set (cache_keys c)"
  by (force simp: set_cache_keys dest: in_set_butlastD)

lemma distinct_keys_butlast: "distinct (cache_keys c) \<Longrightarrow> distinct (cache_keys (butlast c))"
proof (cases "c = []")
  case False
  assume "distinct (cache_keys c)"
  moreover have "cache_keys c = cache_keys (butlast c) @ cache_keys [last c]"
    using False by (metis append_butlast_last_id cache_keys_simps(3))
  ultimately show ?thesis by simp
qed simp

lemma refill_key:
  "entry_key (refill_entry compile str cm)
    = (if compile str cm = None then None else Some (str, cm))"
  by (simp add: refill_entry_def entry_key_def Let_def)

lemma get_pattern_ok:
  assumes "cache_ok compile cache" "cstring str"
  shows "\<exists>cache'. get_pattern compile str cm cache = Some (compile str cm, cache')
    \<and> cache_ok compile cache' \<and> (compile str cm \<noteq> None \<longrightarrow> entry_key (hd cache') = Some (str, cm))"
proof -
  have ok: "\<forall>e \<in> set cache. entry_ok compile e" "distinct (cache_keys cache)"
    and len: "length cache = PATTERN_CACHE_SIZE" using assms(1) by (simp_all add: cache_ok_def)
  then have ne: "cache \<noteq> []" by (auto simp: PATTERN_CACHE_SIZE_def)
  from pattern_loop_cases [OF assms(2) ok(1) ne, of cm "[]"] show ?thesis
  proof (elim disjE exE conjE)
    fix xs e ys
    assume c: "cache = xs @ e # ys" and k: "entry_key e = Some (str, cm)"
      and l: "pattern_loop compile str cm [] cache = Some (e, [] @ xs @ ys)"
    have "pc_pattern e = compile str cm"
      using ok(1) c k by (auto simp: entry_ok_def entry_key_def split: option.splits)
    moreover have "cache_ok compile (e # xs @ ys)"
      using ok len c k by (auto simp: cache_ok_def cache_keys_simps)
    ultimately show ?thesis using l k by (auto simp: get_pattern_def)
  next
    assume n: "(str, cm) \<notin> set (cache_keys cache)"
      and l: "pattern_loop compile str cm [] cache
        = Some (refill_entry compile str cm, [] @ butlast cache)"
    have "cache_ok compile (refill_entry compile str cm # butlast cache)"
      unfolding cache_ok_def
    proof (intro conjI)
      show "length (refill_entry compile str cm # butlast cache) = PATTERN_CACHE_SIZE"
        using len by (simp add: PATTERN_CACHE_SIZE_def)
      show "\<forall>e \<in> set (refill_entry compile str cm # butlast cache). entry_ok compile e"
        using ok(1) assms(2) by (auto simp: entry_ok_def refill_entry_def Let_def dest: in_set_butlastD)
      show "distinct (cache_keys (refill_entry compile str cm # butlast cache))"
        using n distinct_keys_butlast [OF ok(2)] cache_keys_butlast [of cache]
        by (auto simp: cache_keys_simps refill_key)
    qed
    then show ?thesis using l
      by (auto simp: get_pattern_def refill_key) (simp_all add: refill_entry_def Let_def)
  qed
qed

section \<open>Matching\<close>

datatype Match_Result = MATCH_SUCCEEDED | MATCH_FAILED | MATCH_ABORTED

type_synonym regs = "nat \<Rightarrow> int \<times> int"

text \<open>\<open>re_search p string startpos range\<close>; the registers are 0-based half-open intervals.\<close>

definition match_pattern ::
  "('re \<Rightarrow> string \<Rightarrow> int \<Rightarrow> int \<Rightarrow> int \<times> regs) \<Rightarrow> 're \<Rightarrow> string \<Rightarrow> bool
     \<Rightarrow> Match_Result \<times> (int \<times> int) list" where
  "match_pattern re_search p str is_reverse =
     (let len = llen str in
      case re_search p str (if is_reverse then len else 0) (if is_reverse then - len else len) of
        (r, regs) \<Rightarrow>
          if r = -1 then (MATCH_FAILED, [])
          else if r = -2 then (MATCH_ABORTED, [])
          else (MATCH_SUCCEEDED, map (\<lambda>i. (fst (regs i) + 1, snd (regs i))) [0..<10]))"

definition int_pair :: "int \<times> int \<Rightarrow> var list" where
  "int_pair p = [VInt (word_of_int (fst p)), VInt (word_of_int (snd p))]"

definition match_value :: "string \<Rightarrow> (int \<times> int) list \<Rightarrow> var" where
  "match_value subject regs =
     VList (int_pair (regs ! 0)
       @ [VList (map (\<lambda>i. VList (int_pair (regs ! i))) [1..<10]), VStr subject])"

text \<open>The answer, as a value (an error value stands for a raise), and the new cache.\<close>

definition do_match ::
  "(string \<Rightarrow> (char \<Rightarrow> char) option \<Rightarrow> 're option) \<Rightarrow> ('re \<Rightarrow> string \<Rightarrow> int \<Rightarrow> int \<Rightarrow> int \<times> regs)
     \<Rightarrow> 're pat_cache \<Rightarrow> var list \<Rightarrow> bool \<Rightarrow> (var \<times> 're pat_cache) option" where
  "do_match re_compile re_search cache args reverse =
     (case args of
        VStr subject # VStr pattern # optional \<Rightarrow>
          map_option (\<lambda>(pat, cache).
            (case pat of
               None \<Rightarrow> VErr E_INVARG
             | Some p \<Rightarrow>
                 (case match_pattern re_search p subject reverse of
                    (MATCH_SUCCEEDED, regs) \<Rightarrow> match_value subject regs
                  | (MATCH_FAILED, _) \<Rightarrow> VList []
                  | (MATCH_ABORTED, _) \<Rightarrow> VErr E_QUOTA), cache))
            (get_pattern (new_pattern re_compile) pattern
              (length args = 3 \<and> is_true (hd optional)) cache)
      | _ \<Rightarrow> None)"

definition match_package :: "(var \<times> 're pat_cache) option \<Rightarrow> package \<times> 're pat_cache" where
  "match_package r =
     (case r of
        None \<Rightarrow> (Crash, [])
      | Some (ans, cache) \<Rightarrow>
          ((case ans of VErr e \<Rightarrow> make_error_pack e | _ \<Rightarrow> make_var_pack ans), cache))"

definition bf_match where
  "bf_match re_compile re_search cache args =
     match_package (do_match re_compile re_search cache args False)"

definition bf_rmatch where
  "bf_rmatch re_compile re_search cache args =
     match_package (do_match re_compile re_search cache args True)"

section \<open>Substitution\<close>

definition invalid_pair :: "int \<Rightarrow> int \<Rightarrow> int \<Rightarrow> bool" where
  "invalid_pair num1 num2 max_len =
     (if num1 = 0 \<and> num2 = -1 \<or> num1 > 0 \<and> num2 \<ge> num1 - 1 \<and> num2 \<le> max_len then False else True)"

fun bad_pair :: "int \<Rightarrow> var \<Rightarrow> bool" where
  "bad_pair subj_length (VList [VInt a, VInt b]) = invalid_pair (sint a) (sint b) subj_length"
| "bad_pair subj_length _ = True"

fun check_subs_list :: "var \<Rightarrow> bool" where
  "check_subs_list (VList [VInt a, VInt b, VList pairs, VStr subj]) =
     (length pairs \<noteq> 9 \<or> invalid_pair (sint a) (sint b) (llen subj)
      \<or> (\<exists>p \<in> set pairs. bad_pair (llen subj) p))"
| "check_subs_list _ = True"

text \<open>\<^verbatim>\<open>for (where = start; where <= end; where++) stream_add_char(s, subject[where]);\<close>\<close>

fun subject_loop :: "nat \<Rightarrow> int \<Rightarrow> string \<Rightarrow> string \<Rightarrow> string option" where
  "subject_loop 0 pos subject s = Some s"
| "subject_loop (Suc n) pos subject s =
     (if 0 \<le> pos \<and> pos < llen subject
      then subject_loop n (pos + 1) subject (s @ [subject ! nat pos]) else None)"

fun pair_ints :: "var \<Rightarrow> (int \<times> int) option" where
  "pair_ints (VList (VInt a # VInt b # _)) = Some (sint a - 1, sint b - 1)"
| "pair_ints _ = None"

text \<open>
  The template loop: \<open>None\<close> when a read leaves its object, \<open>Some None\<close> when \<^verbatim>\<open>invarg\<close> is set.
\<close>

fun substitute_loop :: "string \<Rightarrow> var list \<Rightarrow> string \<Rightarrow> string \<Rightarrow> string option option" where
  "substitute_loop [] subs subject s = Some (Some s)"
| "substitute_loop (c # template) subs subject s =
     (if c = CHR ''%'' then
        (case template of
           [] \<Rightarrow> Some None
         | c # template \<Rightarrow>
             if c = CHR ''%'' then substitute_loop template subs subject (s @ [CHR ''%''])
             else if isdigit c then
               (case (if c = CHR ''0'' then pair_ints (VList subs)
                      else (case subs of
                        _ # _ # VList pairs # _ \<Rightarrow>
                          Option.bind (get_elem pairs (int (ch c) - 48)) pair_ints
                      | _ \<Rightarrow> None)) of
                  None \<Rightarrow> None
                | Some (start, fin) \<Rightarrow>
                    Option.bind (subject_loop (nat (fin - start + 1)) start subject s)
                      (substitute_loop template subs subject))
             else Some None)
      else substitute_loop template subs subject (s @ [c]))"

definition bf_substitute :: "var list \<Rightarrow> package" where
  "bf_substitute args =
     (case args of
        [VStr template, subs] \<Rightarrow>
          if check_subs_list subs then make_error_pack E_INVARG
          else (case subs of
            VList [a, b, ps, VStr subject] \<Rightarrow>
              (case substitute_loop template [a, b, ps, VStr subject] subject [] of
                 None \<Rightarrow> Crash
               | Some None \<Rightarrow> make_error_pack E_INVARG
               | Some (Some s) \<Rightarrow> make_var_pack (VStr s))
          | _ \<Rightarrow> Crash)
      | _ \<Rightarrow> Crash)"

subsection \<open>What \<^verbatim>\<open>substitute\<close> computes\<close>

text \<open>The piece of the subject a pair of the match stands for.\<close>

definition piece :: "string \<Rightarrow> var \<Rightarrow> string" where
  "piece subject pair = (case pair of
     VList [VInt a, VInt b] \<Rightarrow> take (nat (sint b - sint a + 1)) (drop (nat (sint a - 1)) subject)
   | _ \<Rightarrow> [])"

fun substituted :: "(nat \<Rightarrow> string) \<Rightarrow> string \<Rightarrow> string option" where
  "substituted f [] = Some []"
| "substituted f (c # template) =
     (if c = CHR ''%'' then
        (case template of
           [] \<Rightarrow> None
         | d # template \<Rightarrow>
             if d = CHR ''%'' then map_option (\<lambda>t. CHR ''%'' # t) (substituted f template)
             else if isdigit d then map_option (\<lambda>t. f (ch d - 48) @ t) (substituted f template)
             else None)
      else map_option (\<lambda>t. c # t) (substituted f template))"

definition match_piece :: "var list \<Rightarrow> nat \<Rightarrow> string" where
  "match_piece subs i = (case subs of
     [a, b, VList pairs, VStr subject] \<Rightarrow>
       piece subject (if i = 0 then VList [a, b] else pairs ! (i - 1))
   | _ \<Rightarrow> [])"

lemma subject_loop_ok:
  "0 \<le> pos \<Longrightarrow> pos + int n \<le> llen subject \<Longrightarrow>
   subject_loop n pos subject s = Some (s @ take n (drop (nat pos) subject))"
proof (induction n arbitrary: pos s)
  case (Suc n)
  have p: "nat pos < length subject" "nat (pos + 1) = Suc (nat pos)" using Suc.prems by auto
  then have "drop (nat pos) subject = subject ! nat pos # drop (Suc (nat pos)) subject"
    by (simp add: Cons_nth_drop_Suc)
  then show ?case using Suc.IH [of "pos + 1" "s @ [subject ! nat pos]"] Suc.prems p by simp
qed simp

lemma valid_piece:
  assumes "\<not> invalid_pair (sint a) (sint b) (llen subject)"
  shows "subject_loop (nat ((sint b - 1) - (sint a - 1) + 1)) (sint a - 1) subject s
    = Some (s @ piece subject (VList [VInt a, VInt b]))"
proof (cases "sint a = 0")
  case True
  with assms have "sint b = -1" by (simp add: invalid_pair_def split: if_splits)
  with True show ?thesis by (simp add: piece_def)
next
  case False
  with assms have "0 < sint a" "sint a - 1 \<le> sint b" "sint b \<le> llen subject"
    by (auto simp: invalid_pair_def split: if_splits)
  then show ?thesis
    by (subst subject_loop_ok) (auto simp: piece_def algebra_simps)
qed

lemma pair_piece:
  assumes "\<not> check_subs_list (VList [VInt a, VInt b, VList pairs, VStr subject])" "i < 10"
  shows "\<exists>start fin. (if i = 0 then pair_ints (VList [VInt a, VInt b, VList pairs, VStr subject])
        else Option.bind (get_elem pairs (int i)) pair_ints) = Some (start, fin)
    \<and> (\<forall>s. subject_loop (nat (fin - start + 1)) start subject s
        = Some (s @ match_piece [VInt a, VInt b, VList pairs, VStr subject] i))"
proof (cases "i = 0")
  case True
  have "\<not> invalid_pair (sint a) (sint b) (llen subject)" using assms by simp
  note v = valid_piece [OF this]
  show ?thesis
    by (rule exI [of _ "sint a - 1"], rule exI [of _ "sint b - 1"])
      (use True v in \<open>simp only: match_piece_def pair_ints.simps if_True list.case var.case simp_thms\<close>)
next
  case False
  with assms have i: "i - 1 < length pairs" "1 \<le> i" "length pairs = 9" by auto
  then have "\<not> bad_pair (llen subject) (pairs ! (i - 1))" using assms(1) by auto
  then obtain x y where p: "pairs ! (i - 1) = VList [VInt x, VInt y]"
    "\<not> invalid_pair (sint x) (sint y) (llen subject)"
    by (cases "(llen subject, pairs ! (i - 1))" rule: bad_pair.cases) auto
  have "get_elem pairs (int i) = Some (VList [VInt x, VInt y])"
    using i p(1) assms(2) by (auto simp: get_elem_def nat_diff_distrib)
  note g = this
  show ?thesis
    by (rule exI [of _ "sint x - 1"], rule exI [of _ "sint y - 1"])
      (use False p(1) g valid_piece [OF p(2)] in \<open>simp only: match_piece_def pair_ints.simps
        if_False list.case var.case simp_thms Option.bind.bind_lunit\<close>)
qed

lemma isdigit_0: "c = CHR ''0'' \<longleftrightarrow> ch c = 48"
  by (metis ch_inj ch_def of_char_Char char_of_ch digit_char_simps(1) ch_digit_char add_0_right zero_less_numeral)

lemma substitute_loop_ok:
  assumes "\<not> check_subs_list (VList subs)" "subs = [VInt a, VInt b, VList pairs, VStr subject]"
  shows "substitute_loop template subs subject s
    = Some (map_option (\<lambda>t. s @ t) (substituted (match_piece subs) template))"
proof (induction "match_piece subs" template arbitrary: s rule: substituted.induct)
  case (2 c template)
  show ?case
  proof (cases "c = CHR ''%''")
    case False
    then show ?thesis using 2(3)
      by (cases "substituted (match_piece subs) template") simp_all
  next
    case pct: True
    show ?thesis
    proof (cases template)
      case (Cons d rest)
      consider "d = CHR ''%''" | (digit) "d \<noteq> CHR ''%''" "isdigit d" | "d \<noteq> CHR ''%''" "\<not> isdigit d"
        by blast
      then show ?thesis
      proof cases
        case digit
        then have i: "ch d - 48 < 10" "ch d = 48 \<longleftrightarrow> ch d - 48 = 0" "int (ch d) - 48 = int (ch d - 48)"
          by (auto simp: isdigit_def)
        obtain start fin where sf:
          "(if ch d - 48 = 0 then pair_ints (VList subs)
            else Option.bind (get_elem pairs (int (ch d - 48))) pair_ints) = Some (start, fin)"
          "\<forall>s. subject_loop (nat (fin - start + 1)) start subject s = Some (s @ match_piece subs (ch d - 48))"
          using pair_piece [OF assms(1) [unfolded assms(2)] i(1)] unfolding assms(2) by blast
        have "(if d = CHR ''0'' then pair_ints (VList subs)
             else (case subs of
               _ # _ # VList pairs # _ \<Rightarrow> Option.bind (get_elem pairs (int (ch d) - 48)) pair_ints
             | _ \<Rightarrow> None)) = Some (start, fin)"
          using sf(1) unfolding isdigit_0 i(2,3) assms(2) list.case var.case by argo
        then show ?thesis using 2(2) [OF pct Cons digit] sf(2) pct Cons digit
          by (cases "substituted (match_piece subs) rest") simp_all
      qed (use 2(1) pct Cons in \<open>cases "substituted (match_piece subs) rest"; simp\<close>)+
    qed (simp add: pct)
  qed
qed simp

text \<open>\<^verbatim>\<open>substitute\<close> never reads outside the subject, and computes the substituted template.\<close>

lemma bf_substitute_ok:
  "bf_substitute [VStr template, subs] =
     (if check_subs_list subs then make_error_pack E_INVARG
      else (case subs of VList ss \<Rightarrow>
        (case substituted (match_piece ss) template of
           None \<Rightarrow> make_error_pack E_INVARG
         | Some t \<Rightarrow> make_var_pack (VStr t))
      | _ \<Rightarrow> Crash))"
proof (cases "check_subs_list subs")
  case False
  then obtain a b pairs subject where s: "subs = VList [VInt a, VInt b, VList pairs, VStr subject]"
    by (cases subs rule: check_subs_list.cases) auto
  with False have "\<not> check_subs_list (VList [VInt a, VInt b, VList pairs, VStr subject])" by simp
  from substitute_loop_ok [OF this refl, of template "[]"] show ?thesis using False s
    by (cases "substituted (match_piece [VInt a, VInt b, VList pairs, VStr subject]) template")
      (simp_all add: bf_substitute_def)
qed (simp add: bf_substitute_def)

text \<open>
  What the registers of a successful search satisfy: unset, or an interval of the subject.  The
  answer of \<^verbatim>\<open>match\<close> is then always acceptable to \<^verbatim>\<open>substitute\<close>.
\<close>

definition regs_in :: "string \<Rightarrow> regs \<Rightarrow> bool" where
  "regs_in subject regs \<longleftrightarrow> (\<forall>i. regs i = (-1, -1)
     \<or> 0 \<le> fst (regs i) \<and> fst (regs i) \<le> snd (regs i) \<and> snd (regs i) \<le> llen subject)"

lemma match_value_ok:
  assumes "regs_in subject regs" "llen subject < 2147483647"
  shows "\<not> check_subs_list (match_value subject (map (\<lambda>i. (fst (regs i) + 1, snd (regs i))) [0..<10]))"
proof -
  have p: "\<not> invalid_pair (sint (word_of_int (fst (regs i) + 1) :: int32))
      (sint (word_of_int (snd (regs i)) :: int32)) (llen subject)" for i
  proof -
    from assms(1) have r: "regs i = (-1, -1)
      \<or> 0 \<le> fst (regs i) \<and> fst (regs i) \<le> snd (regs i) \<and> snd (regs i) \<le> llen subject"
      by (simp add: regs_in_def)
    with assms(2) have "sint (word_of_int (fst (regs i) + 1) :: int32) = fst (regs i) + 1"
      "sint (word_of_int (snd (regs i)) :: int32) = snd (regs i)"
      by (intro sint32_of_int; auto)+
    with r show ?thesis unfolding invalid_pair_def by auto
  qed
  have "\<not> bad_pair (llen subject) (VList (int_pair (map (\<lambda>i. (fst (regs i) + 1, snd (regs i))) [0..<10] ! i)))"
    if "i < 10" for i
    using that p [of i] by (simp add: int_pair_def)
  moreover have "check_subs_list (match_value subject regs') \<longleftrightarrow>
      invalid_pair (sint (word_of_int (fst (regs' ! 0)) :: int32)) (sint (word_of_int (snd (regs' ! 0)) :: int32)) (llen subject)
      \<or> (\<exists>i \<in> {1..<10}. bad_pair (llen subject) (VList (int_pair (regs' ! i))))" for regs'
    by (simp add: match_value_def int_pair_def [of "regs' ! 0"])
  ultimately show ?thesis using p [of 0] by simp
qed

section \<open>Properties\<close>

text \<open>C8: the pattern cache is transparent and keeps its shape: a lookup returns what compiling the
  pattern afresh would return, the cache still has its 20 entries, no key twice, each keyed entry with
  the pattern its key compiles to, and the entry of a compiled pattern is now in front.\<close>

theorem get_pattern_transparent:
  assumes "cache_ok compile cache" "cstring str"
  shows "\<exists>cache'. get_pattern compile str case_matters cache = Some (compile str case_matters, cache')
    \<and> cache_ok compile cache'
    \<and> (compile str case_matters \<noteq> None \<longrightarrow> entry_key (hd cache') = Some (str, case_matters))"
  using assms by (rule get_pattern_ok)

theorem get_pattern_transparent_witness:
  "\<exists>cache'. get_pattern (\<lambda>s b. Some (s, b)) ''f%w*'' True setup_pattern_cache
    = Some (Some (''f%w*'', True), cache')"
  using get_pattern_transparent [OF setup_pattern_cache_ok, of "''f%w*''" "\<lambda>s b. Some (s, b)" True]
  by (auto simp: cstring_def)


text \<open>A regular-expression package that finds literal text at the start of the subject.\<close>

definition literal_search :: "string \<Rightarrow> string \<Rightarrow> int \<Rightarrow> int \<Rightarrow> int \<times> regs" where
  "literal_search p s start span =
     (if take (length p) s = p then (0, (\<lambda>i. if i = 0 then (0, llen p) else (-1, -1)))
      else (-1, (\<lambda>i. (-1, -1))))"

lemma literal_search_regs:
  "fst (literal_search p s start span) \<notin> {-1, -2} \<Longrightarrow> regs_in s (snd (literal_search p s start span))"
  by (auto simp: literal_search_def regs_in_def split: if_splits dest: arg_cong [of _ _ length])


end
