(* ===== verification/Md5.thy ===== *)
theory Md5
  imports Utils "HOL-Library.Monad_Syntax"
begin

unbundle bit_operations_syntax

text \<open>
  md5.c and the hashing of list.c.  The context keeps the chaining state, the length in bits as two
  32-bit halves and the 64-byte buffer; \<open>md5_repr\<close> relates it to the message it has seen, and gives
  that the digest does not depend on how the message was cut into updates.
\<close>

section \<open>The transformation of a block\<close>

type_synonym md5_state = "32 word \<times> 32 word \<times> 32 word \<times> 32 word"

datatype md5_round = RFF | RGG | RHH | RII

fun round_fun :: "md5_round \<Rightarrow> 32 word \<Rightarrow> 32 word \<Rightarrow> 32 word \<Rightarrow> 32 word" where
  "round_fun RFF x y z = (x AND y) OR (NOT x AND z)"
| "round_fun RGG x y z = (x AND z) OR (y AND NOT z)"
| "round_fun RHH x y z = x XOR y XOR z"
| "round_fun RII x y z = y XOR (x OR NOT z)"

definition ROTATE_LEFT :: "32 word \<Rightarrow> nat \<Rightarrow> 32 word" where
  "ROTATE_LEFT x n = push_bit n x OR drop_bit (32 - n) x"

text \<open>
  The 64 calls of \<^verbatim>\<open>md5_Transform\<close>: the macro, the index into \<open>x\<close>, the rotation and the constant.
  The roles of \<open>a b c d\<close> shift by one from call to call, so a step returns them shifted.
\<close>

definition md5_steps :: "(md5_round \<times> nat \<times> nat \<times> 32 word) list" where
  "md5_steps =
    [(RFF, 0, 7, 0xd76aa478), (RFF, 1, 12, 0xe8c7b756),
     (RFF, 2, 17, 0x242070db), (RFF, 3, 22, 0xc1bdceee),
     (RFF, 4, 7, 0xf57c0faf), (RFF, 5, 12, 0x4787c62a),
     (RFF, 6, 17, 0xa8304613), (RFF, 7, 22, 0xfd469501),
     (RFF, 8, 7, 0x698098d8), (RFF, 9, 12, 0x8b44f7af),
     (RFF, 10, 17, 0xffff5bb1), (RFF, 11, 22, 0x895cd7be),
     (RFF, 12, 7, 0x6b901122), (RFF, 13, 12, 0xfd987193),
     (RFF, 14, 17, 0xa679438e), (RFF, 15, 22, 0x49b40821),
     (RGG, 1, 5, 0xf61e2562), (RGG, 6, 9, 0xc040b340),
     (RGG, 11, 14, 0x265e5a51), (RGG, 0, 20, 0xe9b6c7aa),
     (RGG, 5, 5, 0xd62f105d), (RGG, 10, 9, 0x2441453),
     (RGG, 15, 14, 0xd8a1e681), (RGG, 4, 20, 0xe7d3fbc8),
     (RGG, 9, 5, 0x21e1cde6), (RGG, 14, 9, 0xc33707d6),
     (RGG, 3, 14, 0xf4d50d87), (RGG, 8, 20, 0x455a14ed),
     (RGG, 13, 5, 0xa9e3e905), (RGG, 2, 9, 0xfcefa3f8),
     (RGG, 7, 14, 0x676f02d9), (RGG, 12, 20, 0x8d2a4c8a),
     (RHH, 5, 4, 0xfffa3942), (RHH, 8, 11, 0x8771f681),
     (RHH, 11, 16, 0x6d9d6122), (RHH, 14, 23, 0xfde5380c),
     (RHH, 1, 4, 0xa4beea44), (RHH, 4, 11, 0x4bdecfa9),
     (RHH, 7, 16, 0xf6bb4b60), (RHH, 10, 23, 0xbebfbc70),
     (RHH, 13, 4, 0x289b7ec6), (RHH, 0, 11, 0xeaa127fa),
     (RHH, 3, 16, 0xd4ef3085), (RHH, 6, 23, 0x4881d05),
     (RHH, 9, 4, 0xd9d4d039), (RHH, 12, 11, 0xe6db99e5),
     (RHH, 15, 16, 0x1fa27cf8), (RHH, 2, 23, 0xc4ac5665),
     (RII, 0, 6, 0xf4292244), (RII, 7, 10, 0x432aff97),
     (RII, 14, 15, 0xab9423a7), (RII, 5, 21, 0xfc93a039),
     (RII, 12, 6, 0x655b59c3), (RII, 3, 10, 0x8f0ccc92),
     (RII, 10, 15, 0xffeff47d), (RII, 1, 21, 0x85845dd1),
     (RII, 8, 6, 0x6fa87e4f), (RII, 15, 10, 0xfe2ce6e0),
     (RII, 6, 15, 0xa3014314), (RII, 13, 21, 0x4e0811a1),
     (RII, 4, 6, 0xf7537e82), (RII, 11, 10, 0xbd3af235),
     (RII, 2, 15, 0x2ad7d2bb), (RII, 9, 21, 0xeb86d391)]"

definition md5_step ::
  "32 word list \<Rightarrow> md5_round \<times> nat \<times> nat \<times> 32 word \<Rightarrow> md5_state \<Rightarrow> md5_state" where
  "md5_step x step st = (case step of (r, k, s, ac) \<Rightarrow> (case st of (a, b, c, d) \<Rightarrow>
     (d, ROTATE_LEFT (a + (round_fun r b c d + x ! k + ac)) s + b, b, c)))"

fun md5_Encode :: "32 word list \<Rightarrow> byte list" where
  "md5_Encode [] = []"
| "md5_Encode (w # ws) =
     [ucast (w AND 0xFF), ucast (drop_bit 8 w AND 0xFF), ucast (drop_bit 16 w AND 0xFF),
      ucast (drop_bit 24 w AND 0xFF)] @ md5_Encode ws"

fun md5_Decode :: "byte list \<Rightarrow> 32 word list" where
  "md5_Decode (a # b # c # d # bs) =
     (ucast a OR push_bit 8 (ucast b) OR push_bit 16 (ucast c) OR push_bit 24 (ucast d)) # md5_Decode bs"
| "md5_Decode _ = []"

definition md5_Transform :: "md5_state \<Rightarrow> byte list \<Rightarrow> md5_state" where
  "md5_Transform st block =
     (let x = md5_Decode block in
      case fold (md5_step x) md5_steps st of (a, b, c, d) \<Rightarrow>
        (case st of (s0, s1, s2, s3) \<Rightarrow> (s0 + a, s1 + b, s2 + c, s3 + d)))"

section \<open>The streaming interface\<close>

record md5ctx =
  m_state :: md5_state
  m_count0 :: "32 word"
  m_count1 :: "32 word"
  m_buffer :: "byte list"

text \<open>\<open>junk\<close> is what the uninitialised buffer holds.\<close>

definition md5_Init :: "byte list \<Rightarrow> md5ctx" where
  "md5_Init junk = \<lparr>m_state = (0x67452301, 0xefcdab89, 0x98badcfe, 0x10325476),
     m_count0 = 0, m_count1 = 0, m_buffer = junk\<rparr>"

definition memcpy_at :: "byte list \<Rightarrow> nat \<Rightarrow> byte list \<Rightarrow> byte list" where
  "memcpy_at buf i xs = take i buf @ xs @ drop (i + length xs) buf"

function transform_loop :: "md5_state \<Rightarrow> byte list \<Rightarrow> nat \<Rightarrow> md5_state \<times> nat" where
  "transform_loop st buf i =
     (if i + 63 < length buf
      then transform_loop (md5_Transform st (take 64 (drop i buf))) buf (i + 64) else (st, i))"
  by pat_completeness auto
termination
  by (relation "measure (\<lambda>(_, buf, i). length buf - i)") auto

declare transform_loop.simps [simp del]

definition md5_Update :: "md5ctx \<Rightarrow> byte list \<Rightarrow> md5ctx" where
  "md5_Update ctx buf =
     (let len = (of_nat (length buf) :: 32 word);
          index = unat (drop_bit 3 (m_count0 ctx) AND 0x3F);
          count0 = m_count0 ctx + push_bit 3 len;
          count1 = (if count0 < push_bit 3 len then m_count1 ctx + 1 else m_count1 ctx)
                   + drop_bit 29 len;
          partLen = 64 - index;
          ctx = ctx\<lparr>m_count0 := count0, m_count1 := count1\<rparr>
      in if length buf \<ge> partLen then
           (let block = memcpy_at (m_buffer ctx) index (take partLen buf);
                st = md5_Transform (m_state ctx) block
            in case transform_loop st buf partLen of (st, i) \<Rightarrow>
                 ctx\<lparr>m_state := st, m_buffer := memcpy_at block 0 (drop i buf)\<rparr>)
         else ctx\<lparr>m_buffer := memcpy_at (m_buffer ctx) index buf\<rparr>)"

definition PADDING :: "byte list" where
  "PADDING = 0x80 # replicate 63 0"

definition md5_Final :: "md5ctx \<Rightarrow> byte list" where
  "md5_Final ctx =
     (let bits = md5_Encode [m_count0 ctx, m_count1 ctx];
          index = unat (drop_bit 3 (m_count0 ctx) AND 0x3F);
          padLen = (if index < 56 then 56 - index else 120 - index);
          ctx = md5_Update ctx (take padLen PADDING);
          ctx = md5_Update ctx bits
      in case m_state ctx of (a, b, c, d) \<Rightarrow> md5_Encode [a, b, c, d])"

section \<open>hash_bytes\<close>

definition hex_digit :: "nat \<Rightarrow> char" where
  "hex_digit n = ''0123456789ABCDEF'' ! n"

definition hash_bytes :: "byte list \<Rightarrow> string \<Rightarrow> string" where
  "hash_bytes junk input =
     (let context = md5_Update (md5_Init junk) (map (\<lambda>c. of_nat (ch c)) input);
          result = md5_Final context
      in concat (map (\<lambda>b. [hex_digit (unat (drop_bit 4 b)), hex_digit (unat (b AND 0xF))]) result))"

section \<open>What the context represents\<close>

text \<open>Absorbing a message block by block: the state reached and the bytes left over.\<close>

function absorb :: "md5_state \<Rightarrow> byte list \<Rightarrow> md5_state \<times> byte list" where
  "absorb st m = (if length m < 64 then (st, m) else absorb (md5_Transform st (take 64 m)) (drop 64 m))"
  by pat_completeness auto
termination
  by (relation "measure (\<lambda>(_, m). length m)") auto

declare absorb.simps [simp del]

definition md5_IV :: md5_state where
  "md5_IV = (0x67452301, 0xefcdab89, 0x98badcfe, 0x10325476)"

definition md5_bits :: "byte list \<Rightarrow> byte list" where
  "md5_bits m = md5_Encode [of_nat (8 * length m), of_nat (8 * length m div 2 ^ 32)]"

definition md5_padded :: "byte list \<Rightarrow> byte list" where
  "md5_padded m =
     (let k = length m mod 64
      in m @ take (if k < 56 then 56 - k else 120 - k) PADDING @ md5_bits m)"

definition md5_digest :: "byte list \<Rightarrow> byte list" where
  "md5_digest m = (case absorb md5_IV (md5_padded m) of ((a, b, c, d), _) \<Rightarrow> md5_Encode [a, b, c, d])"

definition md5_count :: "md5ctx \<Rightarrow> int" where
  "md5_count ctx = uint (m_count0 ctx) + 2 ^ 32 * uint (m_count1 ctx)"

definition md5_repr :: "md5ctx \<Rightarrow> byte list \<Rightarrow> bool" where
  "md5_repr ctx m \<longleftrightarrow> length (m_buffer ctx) = 64
     \<and> (\<exists>r. absorb md5_IV m = (m_state ctx, r) \<and> take (length r) (m_buffer ctx) = r)
     \<and> md5_count ctx = int (8 * length m) mod 2 ^ 64"

lemma absorb_append:
  "absorb st (a @ b) = (case absorb st a of (st', r) \<Rightarrow> absorb st' (r @ b))"
proof (induction st a rule: absorb.induct)
  case (1 st m)
  show ?case
  proof (cases "length m < 64")
    case False
    then have "absorb st (m @ b) = absorb (md5_Transform st (take 64 m)) (drop 64 m @ b)"
      by (subst absorb.simps) simp
    then show ?thesis using 1 False by (simp add: absorb.simps [of st m])
  qed (simp add: absorb.simps [of st m])
qed

lemma absorb_rest: "absorb st m = (st', r) \<Longrightarrow> length r = length m mod 64"
proof (induction st m rule: absorb.induct)
  case (1 st m)
  show ?case
  proof (cases "length m < 64")
    case False
    then have "length r = (length m - 64) mod 64" using 1 by (simp add: absorb.simps [of st m])
    with False show ?thesis by (simp add: le_mod_geq)
  qed (use 1 in \<open>simp add: absorb.simps [of st m]\<close>)
qed

lemma transform_loop_ok:
  "i \<le> length buf \<Longrightarrow> transform_loop st buf i = (st', i') \<Longrightarrow>
   absorb st (drop i buf) = (st', drop i' buf) \<and> i' \<le> length buf \<and> length buf < i' + 64"
proof (induction st buf i rule: transform_loop.induct)
  case (1 st buf i)
  show ?case
  proof (cases "i + 63 < length buf")
    case True
    then have "absorb st (drop i buf) = absorb (md5_Transform st (take 64 (drop i buf))) (drop (i + 64) buf)"
      by (subst absorb.simps) (auto simp: add.commute)
    then show ?thesis using 1 True by (simp add: transform_loop.simps [of st buf i])
  next
    case False
    then have "absorb st (drop i buf) = (st, drop i buf)"
      using 1(2) by (subst absorb.simps) auto
    then show ?thesis using 1 False by (simp add: transform_loop.simps [of st buf i])
  qed
qed

lemma count_index:
  assumes "md5_count ctx = int (8 * n) mod 2 ^ 64"
  shows "unat (drop_bit 3 (m_count0 ctx) AND 0x3F) = n mod 64"
proof -
  have "uint (m_count0 ctx) = md5_count ctx mod 2 ^ 32"
    using uint_bounded [of "m_count0 ctx"] by (simp add: md5_count_def)
  also have "\<dots> = int (8 * n) mod 2 ^ 32" unfolding assms by (simp add: mod_mod_cancel)
  finally have "uint (m_count0 ctx) = (8 * int n) mod (8 * 2 ^ 29)" by simp
  then have "uint (m_count0 ctx) = 8 * (int n mod 2 ^ 29)" by (simp only: mult_mod_right)
  then have "uint (drop_bit 3 (m_count0 ctx)) = int n mod 2 ^ 29"
    unfolding drop_bit_eq_div uint_div_distrib by simp
  moreover have "drop_bit 3 (m_count0 ctx) AND 0x3F = take_bit 6 (drop_bit 3 (m_count0 ctx))"
    by (simp add: take_bit_eq_mask mask_eq_exp_minus_1)
  ultimately have "uint (drop_bit 3 (m_count0 ctx) AND 0x3F) = take_bit 6 (int n mod 2 ^ 29)"
    by (simp only: unsigned_take_bit_eq)
  also have "\<dots> = int n mod 64" by (simp add: take_bit_eq_mod mod_mod_cancel)
  finally show ?thesis by (metis nat_int unat_eq_nat_uint zmod_int of_nat_numeral)
qed

lemma push_bit_3: "uint (push_bit 3 (of_nat n :: 32 word)) = int (8 * n) mod 2 ^ 32"
proof -
  have "push_bit 3 (of_nat n :: 32 word) = of_nat (8 * n)"
    by (simp add: push_bit_eq_mult mult.commute)
  then show ?thesis by (simp only: uint_nat unat_of_nat zmod_int of_nat_power of_nat_numeral) simp
qed

lemma uint_of_nat_less: "n < 2 ^ 32 \<Longrightarrow> uint (of_nat n :: 32 word) = int n"
  by (simp add: unsigned_of_nat take_bit_nat_eq_self of_nat_take_bit)

lemma uint_of_nat_mod: "uint (of_nat n :: 32 word) = int n mod 2 ^ 32"
  by (simp add: unsigned_of_nat of_nat_take_bit take_bit_eq_mod zmod_int)

lemma drop_bit_29: "n < 2 ^ 32 \<Longrightarrow> uint (drop_bit 29 (of_nat n :: 32 word)) = int n div 2 ^ 29"
  unfolding drop_bit_eq_div uint_div_distrib by (simp only: uint_of_nat_less) simp

lemma mod_square:
  fixes r M q :: int
  assumes "0 \<le> r" "r < M"
  shows "(r + M * q) mod (M * M) = r + M * (q mod M)"
  using assms by (simp add: zmod_zmult2_eq)

lemma carry_sum:
  fixes c0 c1 l h :: int
  assumes "0 \<le> c0" "c0 < 2 ^ 32" "0 \<le> l" "l < 2 ^ 32"
  shows "(c0 + l) mod 2 ^ 32 + 2 ^ 32 * (((if (c0 + l) mod 2 ^ 32 < l then c1 + 1 else c1) + h) mod 2 ^ 32)
    = (c0 + 2 ^ 32 * c1 + (l + 2 ^ 32 * h)) mod 2 ^ 64"
proof -
  define k :: int where "k = (if c0 + l < 2 ^ 32 then 0 else 1)"
  have m: "(c0 + l) mod 2 ^ 32 = c0 + l - 2 ^ 32 * k"
  proof (cases "c0 + l < 2 ^ 32")
    case False
    then have "(c0 + l) mod 2 ^ 32 = (c0 + l - 2 ^ 32) mod 2 ^ 32" by simp
    also have "\<dots> = c0 + l - 2 ^ 32" using False assms by (intro mod_pos_pos_trivial) auto
    finally show ?thesis using False by (simp add: k_def)
  qed (use assms in \<open>simp add: k_def\<close>)
  then have c: "(if (c0 + l) mod 2 ^ 32 < l then c1 + 1 else c1) = c1 + k"
    using assms by (auto simp: k_def split: if_splits)
  have "(c0 + 2 ^ 32 * c1 + (l + 2 ^ 32 * h)) = (c0 + l) mod 2 ^ 32 + 2 ^ 32 * (c1 + k + h)"
    unfolding m by (simp add: algebra_simps)
  also have "\<dots> mod (2 ^ 32 * 2 ^ 32) = (c0 + l) mod 2 ^ 32 + 2 ^ 32 * ((c1 + k + h) mod 2 ^ 32)"
    by (intro mod_square) simp_all
  finally show ?thesis unfolding c by simp
qed

lemma update_count:
  assumes "length buf < 2 ^ 32"
  shows "md5_count (md5_Update ctx buf) = (md5_count ctx + int (8 * length buf)) mod 2 ^ 64"
proof -
  let ?l = "push_bit 3 (of_nat (length buf)) :: 32 word"
    and ?h = "drop_bit 29 (of_nat (length buf)) :: 32 word"
  let ?c0 = "m_count0 ctx + ?l"
  let ?c1 = "(if ?c0 < ?l then m_count1 ctx + 1 else m_count1 ctx) + ?h"
  have c: "m_count0 (md5_Update ctx buf) = ?c0" "m_count1 (md5_Update ctx buf) = ?c1"
    by (simp_all add: md5_Update_def Let_def split: prod.splits)
  have u0: "uint ?c0 = (uint (m_count0 ctx) + uint ?l) mod 2 ^ 32"
    by (simp only: uint_word_ariths) simp
  have u1: "uint ?c1 = ((if (uint (m_count0 ctx) + uint ?l) mod 2 ^ 32 < uint ?l
      then uint (m_count1 ctx) + 1 else uint (m_count1 ctx)) + uint ?h) mod 2 ^ 32"
    by (simp add: uint_word_ariths word_less_def u0 [symmetric] mod_simps)
  have "(8 * x) mod 4294967296 + 4294967296 * (x div 536870912) = 8 * x" for x :: int
  proof -
    have "x = 536870912 * (x div 536870912) + x mod 536870912" by (rule mult_div_mod_eq [symmetric])
    moreover have "(8 * x) mod 4294967296 = 8 * (x mod 536870912)"
      using mult_mod_right [of 8 x 536870912] by simp
    ultimately show ?thesis by linarith
  qed
  then have "uint ?l + 2 ^ 32 * uint ?h = int (8 * length buf)"
    unfolding push_bit_3 drop_bit_29 [OF assms] by (simp only: of_nat_mult) simp
  then show ?thesis
    unfolding md5_count_def c u0 u1
    using carry_sum [of "uint (m_count0 ctx)" "uint ?l" "uint (m_count1 ctx)" "uint ?h"]
      uint_bounded [of "m_count0 ctx"] uint_bounded [of ?l] by simp
qed

lemma md5_repr_init: "length junk = 64 \<Longrightarrow> md5_repr (md5_Init junk) []"
  by (simp add: md5_repr_def md5_Init_def md5_count_def md5_IV_def absorb.simps)

lemma length_memcpy_at: "i + length xs \<le> length buf \<Longrightarrow> length (memcpy_at buf i xs) = length buf"
  by (simp add: memcpy_at_def)

lemma take_memcpy_at:
  "i \<le> length buf \<Longrightarrow> take (i + length xs) (memcpy_at buf i xs) = take i buf @ xs"
  by (simp add: memcpy_at_def)

text \<open>An update extends the message the context represents.\<close>

lemma md5_update_ok:
  assumes "md5_repr ctx m" "length buf < 2 ^ 32"
  shows "md5_repr (md5_Update ctx buf) (m @ buf)"
proof -
  obtain r where r: "absorb md5_IV m = (m_state ctx, r)" "take (length r) (m_buffer ctx) = r"
    and len: "length (m_buffer ctx) = 64" and count: "md5_count ctx = int (8 * length m) mod 2 ^ 64"
    using assms(1) by (auto simp: md5_repr_def)
  have lr: "length r = length m mod 64" by (rule absorb_rest [OF r(1)])
  then have "length r < 64" by simp
  let ?i = "length r" and ?p = "64 - length r"
  have idx: "unat (drop_bit 3 (m_count0 ctx) AND 0x3F) = ?i"
    unfolding lr by (rule count_index [OF count])
  have ab: "absorb md5_IV (m @ buf) = absorb (m_state ctx) (r @ buf)"
    by (subst absorb_append) (simp add: r(1))
  have cnt: "md5_count (md5_Update ctx buf) = int (8 * length (m @ buf)) mod 2 ^ 64"
    unfolding update_count [OF assms(2)] count
    by (simp only: mod_add_left_eq length_append distrib_left of_nat_add)
  show ?thesis
  proof (cases "?p \<le> length buf")
    case True
    let ?block = "memcpy_at (m_buffer ctx) ?i (take ?p buf)"
    have block: "?block = r @ take ?p buf"
      using r(2) len True \<open>length r < 64\<close> by (simp add: memcpy_at_def)
    obtain st i where tl: "transform_loop (md5_Transform (m_state ctx) ?block) buf ?p = (st, i)"
      by fastforce
    have i: "absorb (md5_Transform (m_state ctx) ?block) (drop ?p buf) = (st, drop i buf)"
      "i \<le> length buf" "length buf < i + 64"
      using transform_loop_ok [OF True tl] by auto
    have "absorb (m_state ctx) (r @ buf) = absorb (md5_Transform (m_state ctx) ?block) (drop ?p buf)"
      using True \<open>length r < 64\<close> unfolding block by (subst absorb.simps) auto
    with ab i have "absorb md5_IV (m @ buf) = (st, drop i buf)" by simp
    moreover have "m_state (md5_Update ctx buf) = st"
      "m_buffer (md5_Update ctx buf) = memcpy_at ?block 0 (drop i buf)"
      using True tl by (simp_all add: md5_Update_def Let_def idx)
    moreover have "length ?block = 64" using True \<open>length r < 64\<close> by (simp add: block)
    then have "length (memcpy_at ?block 0 (drop i buf)) = 64"
      "take (length (drop i buf)) (memcpy_at ?block 0 (drop i buf)) = drop i buf"
      using i(2,3) length_memcpy_at [of 0 "drop i buf" ?block] take_memcpy_at [of 0 ?block "drop i buf"]
      by auto
    ultimately show ?thesis using cnt unfolding md5_repr_def by simp
  next
    case False
    then have "absorb md5_IV (m @ buf) = (m_state ctx, r @ buf)"
      unfolding ab by (subst absorb.simps) auto
    moreover have "m_state (md5_Update ctx buf) = m_state ctx"
      "m_buffer (md5_Update ctx buf) = memcpy_at (m_buffer ctx) ?i buf"
      using False by (simp_all add: md5_Update_def Let_def idx)
    moreover have "length (memcpy_at (m_buffer ctx) ?i buf) = 64"
      "take (length (r @ buf)) (memcpy_at (m_buffer ctx) ?i buf) = r @ buf"
      using False len r(2) length_memcpy_at [of ?i buf "m_buffer ctx"]
        take_memcpy_at [of ?i "m_buffer ctx" buf] by auto
    ultimately show ?thesis using cnt unfolding md5_repr_def by simp
  qed
qed

lemma md5_fold_update:
  "md5_repr ctx m \<Longrightarrow> \<forall>b \<in> set bufs. length b < 2 ^ 32 \<Longrightarrow>
   md5_repr (fold (\<lambda>b ctx. md5_Update ctx b) bufs ctx) (m @ concat bufs)"
proof (induction bufs arbitrary: ctx m)
  case (Cons b bufs)
  then show ?case using Cons.IH [OF md5_update_ok [OF Cons.prems(1), of b]] by simp
qed simp

lemma md5_counts:
  assumes "md5_count ctx = int (8 * n) mod 2 ^ 64"
  shows "m_count0 ctx = of_nat (8 * n)" "m_count1 ctx = of_nat (8 * n div 2 ^ 32)"
proof -
  have c0: "uint (m_count0 ctx) = md5_count ctx mod 2 ^ 32" "uint (m_count1 ctx) = md5_count ctx div 2 ^ 32"
    using uint_bounded [of "m_count0 ctx"] by (simp_all add: md5_count_def)
  have "uint (m_count0 ctx) = int (8 * n) mod 2 ^ 32"
    unfolding c0 assms by (simp add: mod_mod_cancel)
  then show "m_count0 ctx = of_nat (8 * n)"
    unfolding word_uint_eq_iff uint_of_nat_mod .
  have "a mod (2 ^ 32 * 2 ^ 32) div 2 ^ 32 = a div 2 ^ 32 mod 2 ^ 32" for a :: int
    by (subst zmod_zmult2_eq) simp_all
  from this [of "int (8 * n)"] have "uint (m_count1 ctx) = int (8 * n) div 2 ^ 32 mod 2 ^ 32"
    unfolding c0 assms by simp
  then show "m_count1 ctx = of_nat (8 * n div 2 ^ 32)"
    unfolding word_uint_eq_iff uint_of_nat_mod by (simp only: zdiv_int of_nat_power of_nat_numeral)
qed

lemma length_md5_Encode: "length (md5_Encode ws) = 4 * length ws"
  by (induction ws rule: md5_Encode.induct) simp_all

text \<open>The digest of the context is that of the message it represents.\<close>

lemma md5_final_ok:
  assumes "md5_repr ctx m"
  shows "md5_Final ctx = md5_digest m"
proof -
  have count: "md5_count ctx = int (8 * length m) mod 2 ^ 64" using assms by (simp add: md5_repr_def)
  have idx: "unat (drop_bit 3 (m_count0 ctx) AND 0x3F) = length m mod 64" by (rule count_index [OF count])
  have bits: "md5_Encode [m_count0 ctx, m_count1 ctx] = md5_bits m"
    unfolding md5_bits_def md5_counts [OF count] ..
  let ?k = "length m mod 64"
  let ?pad = "take (if ?k < 56 then 56 - ?k else 120 - ?k) PADDING"
  have "length ?pad < 2 ^ 32" by (simp add: PADDING_def)
  from md5_update_ok [OF assms this]
  have "md5_repr (md5_Update ctx ?pad) (m @ ?pad)" .
  moreover have "length (md5_bits m) < 2 ^ 32" by (simp add: md5_bits_def length_md5_Encode)
  ultimately have "md5_repr (md5_Update (md5_Update ctx ?pad) (md5_bits m)) ((m @ ?pad) @ md5_bits m)"
    by (rule md5_update_ok)
  then obtain r where
    "absorb md5_IV ((m @ ?pad) @ md5_bits m) = (m_state (md5_Update (md5_Update ctx ?pad) (md5_bits m)), r)"
    by (auto simp: md5_repr_def)
  then show ?thesis
    unfolding md5_Final_def md5_digest_def md5_padded_def Let_def idx bits by simp
qed

lemma md5_padded_length: "length (md5_padded m) mod 64 = 0"
proof -
  let ?k = "length m mod 64"
  have "length (md5_padded m) = length m + ((if ?k < 56 then 56 - ?k else 120 - ?k) + 8)"
    by (simp add: md5_padded_def Let_def md5_bits_def PADDING_def)
  moreover have "(length m + ((if ?k < 56 then 56 - ?k else 120 - ?k) + 8)) mod 64
      = (?k + ((if ?k < 56 then 56 - ?k else 120 - ?k) + 8)) mod 64"
    by (rule mod_add_left_eq [symmetric])
  moreover have "?k < 64" by simp
  ultimately show ?thesis by simp
qed

lemma hash_bytes_ok:
  assumes "length junk = 64" "length input < 2 ^ 32"
  shows "hash_bytes junk input = concat (map (\<lambda>b. [hex_digit (unat (drop_bit 4 b)), hex_digit (unat (b AND 0xF))])
     (md5_digest (map (\<lambda>c. of_nat (ch c)) input)))"
proof -
  have "md5_repr (md5_Update (md5_Init junk) (map (\<lambda>c. of_nat (ch c)) input)) ([] @ map (\<lambda>c. of_nat (ch c)) input)"
    using assms by (intro md5_update_ok md5_repr_init) simp_all
  from md5_final_ok [OF this] show ?thesis by (simp add: hash_bytes_def Let_def)
qed

section \<open>Properties\<close>

text \<open>C10: the digest depends only on the bytes hashed: whatever the buffer holds at first and however the
  message is cut into updates, \<^verbatim>\<open>md5_Final\<close> returns the digest of the padded concatenation, computed
  block by block.\<close>

theorem md5_streaming:
  assumes "length junk = 64" "\<forall>b \<in> set bufs. length b < 2 ^ 32"
  shows "md5_Final (fold (\<lambda>b ctx. md5_Update ctx b) bufs (md5_Init junk)) = md5_digest (concat bufs)"
  using md5_final_ok [OF md5_fold_update [OF md5_repr_init [OF assms(1)] assms(2)]] by simp

theorem md5_streaming_witness:
  "md5_Final (md5_Update (md5_Update (md5_Init (replicate 64 7)) [1, 2]) [3]) = md5_digest [1, 2, 3]"
  using md5_streaming [of "replicate 64 7" "[[1, 2], [3]]"] by simp

end
