(* ===== verification/ListFuncs.thy ===== *)
theory ListFuncs
  imports Patterns Md5
begin

text \<open>
  The list and string built-in functions of list.c.  Each takes the elements of its argument list
  and returns a package; \<open>Crash\<close> is a read of a union member, or of an argument, that is not there,
  a loop that leaves its block, or a panic.  The dispatcher (functions.c) checks the number and the
  types of the arguments first.
\<close>

definition return_list :: "var list option \<Rightarrow> package" where
  "return_list r = (case r of None \<Rightarrow> Crash | Some xs \<Rightarrow> make_var_pack (VList xs))"

definition return_str :: "string option \<Rightarrow> package" where
  "return_str r = (case r of None \<Rightarrow> Crash | Some s \<Rightarrow> make_var_pack (VStr s))"

definition return_int :: "int option \<Rightarrow> package" where
  "return_int r = (case r of None \<Rightarrow> Crash | Some i \<Rightarrow> make_var_pack (VInt (word_of_int i)))"

lemma return_simps [simp]:
  "return_list (Some xs) = make_var_pack (VList xs)" "return_list None = Crash"
  "return_str (Some s) = make_var_pack (VStr s)" "return_str None = Crash"
  "return_int (Some i) = make_var_pack (VInt (word_of_int i))" "return_int None = Crash"
  by (simp_all add: return_list_def return_str_def return_int_def)

section \<open>Lists\<close>

fun bf_length :: "var list \<Rightarrow> package" where
  "bf_length (VList xs # _) = return_int (Some (llen xs))"
| "bf_length (VStr s # _) = return_int (Some (llen s))"
| "bf_length (_ # _) = make_error_pack E_TYPE"
| "bf_length [] = Crash"

fun bf_setadd :: "var list \<Rightarrow> package" where
  "bf_setadd (VList xs # v # _) = return_list (setadd xs v)"
| "bf_setadd _ = Crash"

fun bf_setremove :: "var list \<Rightarrow> package" where
  "bf_setremove (VList xs # v # _) = return_list (setremove xs v)"
| "bf_setremove _ = Crash"

text \<open>The index \<^verbatim>\<open>v.num + 1\<close> is computed in 32 bits.\<close>

fun bf_listappend :: "var list \<Rightarrow> package" where
  "bf_listappend [VList xs, v] = return_list (listappend xs v)"
| "bf_listappend (VList xs # v # VInt n # _) = return_list (listinsert xs v (sint (n + 1)))"
| "bf_listappend _ = Crash"

fun bf_listinsert :: "var list \<Rightarrow> package" where
  "bf_listinsert [VList xs, v] = return_list (listinsert xs v 1)"
| "bf_listinsert (VList xs # v # VInt n # _) = return_list (listinsert xs v (sint n))"
| "bf_listinsert _ = Crash"

fun bf_listdelete :: "var list \<Rightarrow> package" where
  "bf_listdelete (VList xs # VInt n # _) =
     (if sint n \<le> 0 \<or> sint n > llen xs then make_error_pack E_RANGE
      else return_list (listdelete xs (sint n)))"
| "bf_listdelete _ = Crash"

fun bf_listset :: "var list \<Rightarrow> package" where
  "bf_listset (VList xs # v # VInt n # _) =
     (if sint n \<le> 0 \<or> sint n > llen xs then make_error_pack E_RANGE
      else return_list (listset xs v (sint n)))"
| "bf_listset _ = Crash"

fun bf_equal :: "var list \<Rightarrow> package" where
  "bf_equal (v # w # _) =
     (case equality v w True of None \<Rightarrow> Crash | Some b \<Rightarrow> make_var_pack (VInt (of_truth b)))"
| "bf_equal _ = Crash"

fun bf_is_member :: "var list \<Rightarrow> package" where
  "bf_is_member (v # VList xs # _) = return_int (ismember v xs True)"
| "bf_is_member _ = Crash"

section \<open>Strings\<close>

text \<open>The optional last argument, when the call has all \<open>n\<close> of them.\<close>

definition case_arg :: "nat \<Rightarrow> var list \<Rightarrow> bool" where
  "case_arg n args = (length args = n \<and> is_true (args ! (n - 1)))"

fun bf_strsub :: "var list \<Rightarrow> package" where
  "bf_strsub (VStr source # VStr what # rest) =
     (if what = [] then make_error_pack E_INVARG
      else (case rest of
        VStr with # _ \<Rightarrow>
          return_str (strsub source what with (case_arg 4 (VStr source # VStr what # rest)))
      | _ \<Rightarrow> Crash))"
| "bf_strsub _ = Crash"

definition saltstuff :: string where
  "saltstuff = ''abcdefghijklmnopqrstuvwxyzABCDEFGHIJKLMNOPQRSTUVWXYZ0123456789./''"

text \<open>
  \<open>crypt\<close> is the C library's; without it (\<open>None\<close>) the string itself is returned.  \<open>r1\<close> and \<open>r2\<close> are
  the values of the two calls of \<^verbatim>\<open>RANDOM()\<close>.
\<close>

fun bf_crypt :: "(string \<Rightarrow> string \<Rightarrow> string) option \<Rightarrow> nat \<Rightarrow> nat \<Rightarrow> var list \<Rightarrow> package" where
  "bf_crypt None r1 r2 (VStr s # _) = make_var_pack (VStr s)"
| "bf_crypt (Some crypt) r1 r2 [VStr s] =
     make_var_pack (VStr (crypt s [saltstuff ! (r1 mod length saltstuff), saltstuff ! (r2 mod length saltstuff)]))"
| "bf_crypt (Some crypt) r1 r2 (VStr s # VStr salt # _) =
     make_var_pack (VStr (crypt s
       (if length salt < 2
        then [saltstuff ! (r1 mod length saltstuff), saltstuff ! (r2 mod length saltstuff)]
        else salt)))"
| "bf_crypt _ _ _ _ = Crash"

definition signum :: "int \<Rightarrow> int" where
  "signum x = (if x < 0 then -1 else if x > 0 then 1 else 0)"

fun bf_strcmp :: "var list \<Rightarrow> package" where
  "bf_strcmp (VStr s # VStr t # _) = return_int (Some (signum (strcmp s t)))"
| "bf_strcmp _ = Crash"

fun bf_index :: "var list \<Rightarrow> package" where
  "bf_index (VStr s # VStr t # rest) =
     return_int (Some (int (strindex s t (case_arg 3 (VStr s # VStr t # rest)))))"
| "bf_index _ = Crash"

fun bf_rindex :: "var list \<Rightarrow> package" where
  "bf_rindex (VStr s # VStr t # rest) =
     return_int (Some (int (strrindex s t (case_arg 3 (VStr s # VStr t # rest)))))"
| "bf_rindex _ = Crash"

definition bf_tostr :: "var list \<Rightarrow> package" where
  "bf_tostr args = return_str (list2str args)"

fun bf_toliteral :: "var list \<Rightarrow> package" where
  "bf_toliteral (v # _) = return_str (value_to_literal v)"
| "bf_toliteral [] = Crash"

fun bf_value_bytes :: "var list \<Rightarrow> package" where
  "bf_value_bytes (v # _) = return_int (Some (value_bytes v))"
| "bf_value_bytes [] = Crash"

text \<open>
  The hashes.  The buffer of the hashing context is uninitialised in the code; by \<open>hash_bytes_ok\<close>
  what it holds does not matter.
\<close>

fun bf_binary_hash :: "var list \<Rightarrow> package" where
  "bf_binary_hash (VStr s # _) =
     (case binary_to_raw_bytes s of
        None \<Rightarrow> make_error_pack E_INVARG
      | Some bytes \<Rightarrow> make_var_pack (VStr (hash_bytes (replicate 64 0) bytes)))"
| "bf_binary_hash _ = Crash"

fun bf_string_hash :: "var list \<Rightarrow> package" where
  "bf_string_hash (VStr s # _) = make_var_pack (VStr (hash_bytes (replicate 64 0) s))"
| "bf_string_hash _ = Crash"

fun bf_value_hash :: "var list \<Rightarrow> package" where
  "bf_value_hash (v # _) = return_str (map_option (hash_bytes (replicate 64 0)) (value_to_literal v))"
| "bf_value_hash [] = Crash"

section \<open>Binary strings\<close>

definition text_byte :: "char \<Rightarrow> bool" where
  "text_byte c \<longleftrightarrow> isgraph c \<or> c = CHR '' '' \<or> ch c = 9"

text \<open>The first pass counts the elements; the second fills the list, \<open>s\<close> being the static stream.\<close>

fun count_loop :: "string \<Rightarrow> nat \<Rightarrow> bool \<Rightarrow> nat" where
  "count_loop [] count in_string = count"
| "count_loop (c # bytes) count in_string =
     (if text_byte c then count_loop bytes (if in_string then count else count + 1) True
      else count_loop bytes (count + 1) False)"

fun fill_loop :: "string \<Rightarrow> string \<Rightarrow> int \<Rightarrow> bool \<Rightarrow> var block \<Rightarrow> (string \<times> int \<times> bool \<times> var block) option" where
  "fill_loop [] s count in_string r = Some (s, count, in_string, r)"
| "fill_loop (c # bytes) s count in_string r =
     (if text_byte c then fill_loop bytes (s @ [c]) count True r
      else do {
        (s, count, r) \<leftarrow>
          (if in_string then map_option (\<lambda>r. ([], count + 1, r)) (set_slot r count (VStr s))
           else Some (s, count, r));
        r \<leftarrow> set_slot r count (VInt (of_nat (ch c)));
        fill_loop bytes s (count + 1) False r })"

definition decode_chunks :: "string \<Rightarrow> var list option" where
  "decode_chunks bytes = do {
     (s, count, in_string, r) \<leftarrow> fill_loop bytes [] 1 False (new_block (int (count_loop bytes 0 False)));
     r \<leftarrow> (if in_string then set_slot r count (VStr s) else Some r);
     finish_block r }"

fun bf_decode_binary :: "var list \<Rightarrow> package" where
  "bf_decode_binary (VStr binary # rest) =
     (case binary_to_raw_bytes binary of
        None \<Rightarrow> make_error_pack E_INVARG
      | Some bytes \<Rightarrow>
          if rest \<noteq> [] \<and> is_true (hd rest)
          then make_var_pack (VList (map (\<lambda>c. VInt (of_nat (ch c))) bytes))
          else return_list (decode_chunks bytes))"
| "bf_decode_binary _ = Crash"

fun encode_binary :: "string \<Rightarrow> var \<Rightarrow> string \<times> bool"
and encode_elems :: "string \<Rightarrow> var list \<Rightarrow> string \<times> bool" where
  "encode_binary s (VInt n) =
     (if sint n < 0 \<or> sint n \<ge> 256 then (s, False) else (s @ [char_of (nat (sint n))], True))"
| "encode_binary s (VStr str) = (s @ str, True)"
| "encode_binary s (VList vs) = encode_elems s vs"
| "encode_binary s _ = (s, False)"
| "encode_elems s [] = (s, True)"
| "encode_elems s (v # vs) =
     (case encode_binary s v of (s, ok) \<Rightarrow> if ok then encode_elems s vs else (s, False))"

definition bf_encode_binary :: "var list \<Rightarrow> package" where
  "bf_encode_binary args =
     (case encode_binary [] (VList args) of (bytes, ok) \<Rightarrow>
        if ok then make_var_pack (VStr (raw_bytes_to_binary bytes)) else make_error_pack E_INVARG)"

subsection \<open>What \<^verbatim>\<open>decode_binary\<close> returns\<close>

definition flush :: "string \<Rightarrow> var list" where
  "flush s = (if s = [] then [] else [VStr s])"

fun binary_chunks :: "string \<Rightarrow> string \<Rightarrow> var list" where
  "binary_chunks s [] = flush s"
| "binary_chunks s (c # bytes) =
     (if text_byte c then binary_chunks (s @ [c]) bytes
      else flush s @ VInt (of_nat (ch c)) # binary_chunks [] bytes)"

lemma count_loop_acc: "count_loop bytes (n + k) b = n + count_loop bytes k b"
proof (induction bytes arbitrary: k b)
  case (Cons c bytes)
  show ?case using Cons.IH [of k] Cons.IH [of "Suc k"] by simp
qed simp

lemma count_loop_chunks:
  "length (binary_chunks s bytes) = count_loop bytes (if s = [] then 0 else 1) (s \<noteq> [])"
proof (induction bytes arbitrary: s)
  case (Cons c bytes)
  show ?case
  proof (cases "text_byte c")
    case True
    then show ?thesis using Cons.IH [of "s @ [c]"] by auto
  next
    case False
    have "count_loop bytes (Suc 0) False = 1 + count_loop bytes 0 False"
      "count_loop bytes (Suc (Suc 0)) False = 2 + count_loop bytes 0 False"
      using count_loop_acc [of bytes 1 0 False] count_loop_acc [of bytes 2 0 False]
      by (simp_all add: numeral_2_eq_2)
    then show ?thesis using False Cons.IH [of "[]"] by (simp add: flush_def)
  qed
qed (simp add: flush_def)

lemma set_next:
  "set_slot (filled xs (Suc m)) (llen xs + 1) x = Some (filled (xs @ [x]) m)"
  by (rule set_filled) simp

lemma fill_loop_ok:
  assumes "m = length (binary_chunks s bytes)"
  shows "\<exists>s' xs'. fill_loop bytes s (llen xs + 1) (s \<noteq> []) (filled xs m)
      = Some (s', llen xs' + 1, s' \<noteq> [], filled xs' (length (flush s')))
    \<and> xs' @ flush s' = xs @ binary_chunks s bytes"
  using assms
proof (induction bytes arbitrary: s xs m)
  case (Cons c bytes)
  show ?case
  proof (cases "text_byte c")
    case True
    then show ?thesis using Cons.IH [of m "s @ [c]" xs] Cons.prems by simp
  next
    case False
    let ?n = "length (binary_chunks [] bytes)" and ?v = "VInt (of_nat (ch c)) :: var"
    show ?thesis
    proof (cases "s = []")
      case True
      then show ?thesis using False Cons.prems Cons.IH [of ?n "[]" "xs @ [?v]"]
        by (simp add: flush_def set_filled)
    next
      case s: False
      have "llen xs + 2 = llen (xs @ [VStr s]) + 1" by simp
      then have "set_slot (filled (xs @ [VStr s]) (Suc ?n)) (llen xs + 2) ?v
          = Some (filled (xs @ [VStr s, ?v]) ?n)"
        using set_next [of "xs @ [VStr s]" ?n ?v] by (simp add: add.commute)
      then show ?thesis using s False Cons.prems Cons.IH [of ?n "[]" "xs @ [VStr s, ?v]"]
        by (simp add: flush_def set_filled)
    qed
  qed
qed (auto simp: flush_def)

lemma decode_chunks_ok: "decode_chunks bytes = Some (binary_chunks [] bytes)"
proof -
  have m: "count_loop bytes 0 False = length (binary_chunks [] bytes)"
    using count_loop_chunks [of "[]" bytes] by simp
  obtain s' xs' where f: "fill_loop bytes [] (llen ([] :: var list) + 1) ([] \<noteq> ([] :: string))
        (filled [] (length (binary_chunks [] bytes)))
      = Some (s', llen xs' + 1, s' \<noteq> [], filled xs' (length (flush s')))"
    "xs' @ flush s' = [] @ binary_chunks [] bytes"
    using fill_loop_ok [OF refl, of bytes "[]" "[]"] by blast
  have fill: "fill_loop bytes [] 1 False (new_block (int (count_loop bytes 0 False)))
      = Some (s', llen xs' + 1, s' \<noteq> [], filled xs' (length (flush s')))"
    using f(1) by (simp add: new_block_filled m)
  show ?thesis
  proof (cases "s' = []")
    case True
    with f(2) fill show ?thesis by (simp add: decode_chunks_def flush_def)
  next
    case False
    with f(2) fill show ?thesis by (simp add: decode_chunks_def flush_def set_next)
  qed
qed

subsection \<open>Encoding undoes decoding\<close>

lemma sint_of_byte: "sint (of_nat (ch c) :: int32) = int (ch c)"
  by (intro sint32_of_nat less_trans [OF ch_less]) simp

lemma encode_elems_append:
  "encode_elems s (vs @ ws) =
     (case encode_elems s vs of (s, ok) \<Rightarrow> if ok then encode_elems s ws else (s, False))"
  by (induction vs arbitrary: s) (simp_all split: prod.splits)

lemma ch_not_ge [simp]: "\<not> 256 \<le> ch c"
  by (simp add: not_le)

lemma encode_flush: "encode_elems s (flush t) = (s @ t, True)"
  by (simp add: flush_def)

lemma encode_chunks: "encode_elems u (binary_chunks s bytes) = (u @ s @ bytes, True)"
proof (induction bytes arbitrary: u s)
  case (Cons c bytes)
  then show ?case
    by (simp add: encode_elems_append encode_flush sint_of_byte del: of_nat_of_char)
qed (simp add: encode_flush)

lemma encode_bytes:
  "encode_elems u (map (\<lambda>c. VInt (of_nat (ch c))) bytes) = (u @ bytes, True)"
  by (induction bytes arbitrary: u) (simp_all add: sint_of_byte del: of_nat_of_char)

section \<open>Properties\<close>

text \<open>C11: every byte string, NULs included, survives the encodings of binary strings: its binary string
  decodes, in both modes of \<^verbatim>\<open>decode_binary\<close>, to a list that \<^verbatim>\<open>encode_binary\<close> turns back into the same
  binary string.\<close>

theorem binary_encoding_roundtrip:
  "binary_to_raw_bytes (raw_bytes_to_binary bytes) = Some bytes
   \<and> (\<exists>vs ws. bf_decode_binary [VStr (raw_bytes_to_binary bytes)] = make_var_pack (VList vs)
        \<and> bf_encode_binary vs = make_var_pack (VStr (raw_bytes_to_binary bytes))
        \<and> bf_decode_binary [VStr (raw_bytes_to_binary bytes), VInt 1] = make_var_pack (VList ws)
        \<and> bf_encode_binary ws = make_var_pack (VStr (raw_bytes_to_binary bytes)))"
  using encode_chunks [of "[]" "[]" bytes] encode_bytes [of "[]" bytes]
  by (simp add: binary_roundtrip decode_chunks_ok bf_encode_binary_def is_true_def)

text \<open>C12: the second pass of \<^verbatim>\<open>decode_binary\<close> fills exactly the list the first pass counted: maximal runs
  of printable bytes as strings, every other byte as a number.\<close>

theorem decode_binary_fills_list:
  "decode_chunks bytes = Some (binary_chunks [] bytes)
   \<and> count_loop bytes 0 False = length (binary_chunks [] bytes)"
  using count_loop_chunks [of "[]" bytes] by (simp add: decode_chunks_ok)

text \<open>C23: the indexed list functions never leave a block, and do what their index says: out-of-range
  indices are \<^verbatim>\<open>E_RANGE\<close> for \<^verbatim>\<open>listdelete\<close> and \<^verbatim>\<open>listset\<close>, and are clamped by \<^verbatim>\<open>listinsert\<close>, so that
  deleting the inserted element always gives the list back.\<close>

theorem list_functions_indexed:
  "(let n = sint i; k = min (max n 1) (llen xs + 1) in
     bf_listinsert [VList xs, v, VInt i]
       = make_var_pack (VList (take (nat (k - 1)) xs @ v # drop (nat (k - 1)) xs))
     \<and> (llen xs < 2147483647 \<longrightarrow>
         bf_listdelete [VList (take (nat (k - 1)) xs @ v # drop (nat (k - 1)) xs), VInt (word_of_int k)]
           = make_var_pack (VList xs))
     \<and> bf_listset [VList xs, v, VInt i]
       = (if 1 \<le> n \<and> n \<le> llen xs then make_var_pack (VList (xs[nat (n - 1) := v]))
          else make_error_pack E_RANGE))"
proof -
  define k where "k = min (max (sint i) 1) (llen xs + 1)"
  have k: "1 \<le> k" "k \<le> llen xs + 1" by (auto simp: k_def)
  let ?ys = "take (nat (k - 1)) xs @ v # drop (nat (k - 1)) xs"
  have "bf_listdelete [VList ?ys, VInt (word_of_int k)] = make_var_pack (VList xs)"
    if "llen xs < 2147483647"
  proof -
    have "sint (word_of_int k :: int32) = k" using k that by (intro sint32_of_int) auto
    moreover have l: "llen ?ys = llen xs + 1" by simp
    moreover have "nat k = Suc (nat (k - 1))" using k by simp
    then have "take (nat (k - 1)) ?ys @ drop (nat k) ?ys = xs" using k by (simp add: min_def)
    ultimately show ?thesis using k listdelete_ok [of k ?ys] by simp
  qed
  moreover have "bf_listinsert [VList xs, v, VInt i] = make_var_pack (VList ?ys)"
    using listinsert_ok [of xs v "sint i"] unfolding Let_def k_def [symmetric] by simp
  moreover have "bf_listset [VList xs, v, VInt i]
      = (if 1 \<le> sint i \<and> sint i \<le> llen xs then make_var_pack (VList (xs[nat (sint i - 1) := v]))
         else make_error_pack E_RANGE)"
    by (simp add: listset_ok)
  ultimately show ?thesis unfolding Let_def k_def [symmetric] by blast
qed

theorem list_functions_indexed_witness:
  "bf_listdelete [VList [VInt 5, VInt 7], VInt (word_of_int 2)] = make_var_pack (VList [VInt 5])"
  using list_functions_indexed [of 9 "[VInt 5]" "VInt 7"] by (simp add: Let_def)

text \<open>C28: \<^verbatim>\<open>hash_bytes\<close>, behind \<^verbatim>\<open>string_hash\<close>, \<^verbatim>\<open>binary_hash\<close> and \<^verbatim>\<open>value_hash\<close>, is a function of the
  bytes alone; values without floats that have equal hashed text are equal, so \<^verbatim>\<open>value_hash\<close> collides only
  where MD5 does.\<close>

theorem value_hash_correct:
  assumes "length (literal v) < 2 ^ 32"
  shows "bf_value_hash [v] = make_var_pack (VStr (concat (map
      (\<lambda>b. [hex_digit (unat (drop_bit 4 b)), hex_digit (unat (b AND 0xF))])
      (md5_digest (map (\<lambda>c. of_nat (ch c)) (literal v))))))
    \<and> (no_floats v \<longrightarrow> user_value v \<longrightarrow> no_floats w \<longrightarrow> user_value w \<longrightarrow> literal v = literal w \<longrightarrow> v = w)"
  using literal_inj [of v w] hash_bytes_ok [of "replicate 64 0" "literal v"] assms
  by (simp add: value_to_literal_ok del: of_nat_of_char)

theorem value_hash_correct_witness:
  "\<exists>s. bf_value_hash [VErr E_DIV] = make_var_pack (VStr s)"
  using value_hash_correct [of "VErr E_DIV" zero] by simp

end
