(* ===== verification/Numbers.thy ===== *)
theory Numbers
  imports Literals "HOL-Library.Signed_Division"
begin

text \<open>
  numbers.c: the conversions between numbers and strings, the arithmetic of the opcodes, and the
  numeric built-in functions.  Signed overflow wraps, as on the machines the server runs on; an
  operation the machine traps or C leaves undefined (\<^verbatim>\<open>INT_MIN / -1\<close>, a cast of a double that does not
  fit) is \<open>None\<close>.  \<^verbatim>\<open>strtol\<close> and \<^verbatim>\<open>strtod\<close> are modelled for the C locale; \<^verbatim>\<open>pow\<close> and the
  functions of the mathematical library are parameters that return a double and the value of
  \<^verbatim>\<open>errno\<close>.
\<close>

section \<open>Reading numbers\<close>

definition skip_space :: "string \<Rightarrow> string" where
  "skip_space s = dropWhile isspace s"

definition read_sign :: "string \<Rightarrow> bool \<times> string" where
  "read_sign s = (case s of
     c # t \<Rightarrow> if c = CHR ''-'' then (True, t) else if c = CHR ''+'' then (False, t) else (False, s)
   | [] \<Rightarrow> (False, s))"

text \<open>The value (a 64-bit \<^verbatim>\<open>long\<close>, saturated) and what is left; \<open>None\<close> when nothing is converted.\<close>

definition strtol :: "string \<Rightarrow> (int \<times> string) option" where
  "strtol str =
     (case read_sign (skip_space str) of (neg, s) \<Rightarrow>
        let ds = takeWhile isdigit s; n = int (read_digits 0 ds); v = (if neg then - n else n) in
        if ds = [] then None
        else Some (max (- 9223372036854775808) (min 9223372036854775807 v), dropWhile isdigit s))"

text \<open>The double nearest to \<open>num / den\<close>.\<close>

definition dbl_of_ratio :: "bool \<Rightarrow> int \<Rightarrow> int \<Rightarrow> double" where
  "dbl_of_ratio neg num den =
     (let k = max 0 (bitlen den - bitlen num + 64); n = num * 2 ^ nat k
      in dbl_round neg (n div den) (- k) (n mod den \<noteq> 0))"

definition is_xdigit :: "char \<Rightarrow> bool" where
  "is_xdigit c \<longleftrightarrow> hex_value c \<noteq> None"

definition read_xdigits :: "string \<Rightarrow> nat" where
  "read_xdigits s = fold (\<lambda>c n. n * 16 + the (hex_value c)) s 0"

definition read_exponent :: "char \<Rightarrow> string \<Rightarrow> int \<times> string" where
  "read_exponent e s = (case s of
     [] \<Rightarrow> (0, s)
   | c # t \<Rightarrow>
       if toupper c = e then
         (case read_sign t of (neg, u) \<Rightarrow>
            let ds = takeWhile isdigit u in
            if ds = [] then (0, s)
            else ((if neg then - int (read_digits 0 ds) else int (read_digits 0 ds)), dropWhile isdigit u))
       else (0, s))"

definition read_fraction :: "(char \<Rightarrow> bool) \<Rightarrow> string \<Rightarrow> string \<times> string \<times> string" where
  "read_fraction P s =
     (let ip = takeWhile P s; r = dropWhile P s in
      case r of
        c # t \<Rightarrow> if c = CHR ''.'' then (ip, takeWhile P t, dropWhile P t) else (ip, [], r)
      | [] \<Rightarrow> (ip, [], r))"

definition strtod_dec :: "bool \<Rightarrow> string \<Rightarrow> (double \<times> string) option" where
  "strtod_dec neg s =
     (case read_fraction isdigit s of (ip, fp, r) \<Rightarrow>
        if ip = [] \<and> fp = [] then None
        else (case read_exponent (CHR ''E'') r of (e, r) \<Rightarrow>
          let m = int (read_digits 0 (ip @ fp)); x = e - int (length fp) in
          Some (if 0 \<le> x then dbl_of_ratio neg (m * 10 ^ nat x) 1
                else dbl_of_ratio neg m (10 ^ nat (- x)), r)))"

definition strtod_hex :: "bool \<Rightarrow> string \<Rightarrow> (double \<times> string) option" where
  "strtod_hex neg s =
     (case read_fraction is_xdigit s of (ip, fp, r) \<Rightarrow>
        if ip = [] \<and> fp = [] then None
        else (case read_exponent (CHR ''P'') r of (e, r) \<Rightarrow>
          Some (dbl_round neg (int (read_xdigits (ip @ fp))) (e - 4 * int (length fp)) False, r)))"

definition starts_nocase :: "string \<Rightarrow> string \<Rightarrow> bool" where
  "starts_nocase w s \<longleftrightarrow> map toupper (take (length w) s) = w"

text \<open>The optional \<^verbatim>\<open>(n-char-sequence)\<close> of a NaN.\<close>

definition nan_char :: "char \<Rightarrow> bool" where
  "nan_char c \<longleftrightarrow> isdigit c \<or> c = CHR ''_'' \<or> 65 \<le> ch (toupper c) \<and> ch (toupper c) \<le> 90"

definition skip_nan_seq :: "string \<Rightarrow> string" where
  "skip_nan_seq s = (case s of
     [] \<Rightarrow> s
   | c # t \<Rightarrow>
       if c = CHR ''('' then
         (case dropWhile nan_char t of
            [] \<Rightarrow> s
          | d # u \<Rightarrow> if d = CHR '')'' then u else s)
       else s)"

definition strtod :: "string \<Rightarrow> (double \<times> string) option" where
  "strtod str =
     (case read_sign (skip_space str) of (neg, s) \<Rightarrow>
        if starts_nocase ''INFINITY'' s then Some (dbl_inf neg, drop 8 s)
        else if starts_nocase ''INF'' s then Some (dbl_inf neg, drop 3 s)
        else if starts_nocase ''NAN'' s
          then Some (if neg then dbl_neg dbl_nan else dbl_nan, skip_nan_seq (drop 3 s))
        else if starts_nocase ''0X'' s \<and> strtod_hex neg (drop 2 s) \<noteq> None
          then strtod_hex neg (drop 2 s)
        else strtod_dec neg s)"

text \<open>\<^verbatim>\<open>(int) d\<close>: undefined unless the truncated value fits.\<close>

definition int_of_double :: "double \<Rightarrow> int32 option" where
  "int_of_double d =
     (let t = dbl_trunc_int d in
      if IS_REAL d \<and> - 2147483648 \<le> t \<and> t \<le> 2147483647 then Some (word_of_int t) else None)"

definition only_spaces :: "string \<Rightarrow> bool" where
  "only_spaces p \<longleftrightarrow> (\<forall>c \<in> set p. c = CHR '' '')"

section \<open>Conversions\<close>

text \<open>The number and the success flag.\<close>

definition parse_number :: "string \<Rightarrow> bool \<Rightarrow> (int32 \<times> bool) option" where
  "parse_number str try_floating_point =
     (let (result, p) = (case strtol str of None \<Rightarrow> (0, str) | Some (n, p) \<Rightarrow> (word_of_int n, p));
          next_char = (case p of [] \<Rightarrow> CHR 0x00 | c # _ \<Rightarrow> c) in
      if try_floating_point
         \<and> (p = str \<or> next_char = CHR ''.'' \<or> next_char = CHR ''e'' \<or> next_char = CHR ''E'')
      then (case strtod str of
              None \<Rightarrow> Some (0, False)
            | Some (d, p) \<Rightarrow> map_option (\<lambda>r. (r, only_spaces p)) (int_of_double d))
      else Some (result, p \<noteq> str \<and> only_spaces p))"

definition parse_object :: "string \<Rightarrow> (int32 \<times> bool) option" where
  "parse_object str =
     (let s = dropWhile (\<lambda>c. c = CHR '' '') str;
          s = (case s of c # t \<Rightarrow> if c = CHR ''#'' then t else s | [] \<Rightarrow> s)
      in parse_number s False)"

definition parse_float :: "string \<Rightarrow> double \<times> bool" where
  "parse_float str =
     (let s = dropWhile (\<lambda>c. c = CHR '' '') str;
          (negative, s) = (case s of c # t \<Rightarrow> if c = CHR ''-'' then (True, t) else (False, s) | [] \<Rightarrow> (False, s))
      in case strtod s of
           None \<Rightarrow> (0, False)
         | Some (d, p) \<Rightarrow>
             if \<not> only_spaces p then (d, False) else (if negative then dbl_neg d else d, True))"

text \<open>\<open>None\<close>: the result is not written, or the cast of the double is undefined.\<close>

definition become_integer :: "var \<Rightarrow> bool \<Rightarrow> (error \<times> int32) option" where
  "become_integer v called_from_tonum =
     (case v of
        VInt n \<Rightarrow> Some (E_NONE, n)
      | VStr s \<Rightarrow>
          map_option (\<lambda>(n, ok). (E_NONE, if ok then n else 0))
            (if called_from_tonum then parse_number s True else parse_object s)
      | VObj n \<Rightarrow> Some (E_NONE, word_of_int n)
      | VErr e \<Rightarrow> Some (E_NONE, word_of_int (error_num e))
      | VFloat d \<Rightarrow>
          if dbl_lt d (dbl_of_int (- 2147483648)) \<or> dbl_lt (dbl_of_int 2147483647) d
          then Some (E_FLOAT, 0)
          else map_option (\<lambda>n. (E_NONE, n)) (int_of_double d)
      | VList _ \<Rightarrow> Some (E_TYPE, 0)
      | _ \<Rightarrow> None)"

definition become_float :: "var \<Rightarrow> (error \<times> double) option" where
  "become_float v =
     (case v of
        VInt n \<Rightarrow> Some (E_NONE, dbl_of_int (sint n))
      | VStr s \<Rightarrow>
          (case parse_float s of (d, ok) \<Rightarrow>
             if \<not> ok \<or> \<not> IS_REAL d then Some (E_INVARG, d) else Some (E_NONE, d))
      | VObj n \<Rightarrow> Some (E_NONE, dbl_of_int n)
      | VErr e \<Rightarrow> Some (E_NONE, dbl_of_int (error_num e))
      | VFloat d \<Rightarrow> Some (E_NONE, d)
      | VList _ \<Rightarrow> Some (E_TYPE, 0)
      | _ \<Rightarrow> None)"

section \<open>Opcodes\<close>

definition new_float :: "double \<Rightarrow> var" where
  "new_float d = VFloat d"

definition compare_integers :: "int32 \<Rightarrow> int32 \<Rightarrow> int32" where
  "compare_integers a b = (if a <s b then -1 else if a = b then 0 else 1)"

text \<open>The operands are numbers: the interpreter checks it.  \<open>None\<close> is a read of a missing float.\<close>

fun compare_numbers :: "var \<Rightarrow> var \<Rightarrow> var option" where
  "compare_numbers (VInt a) (VInt b) = Some (VInt (compare_integers a b))"
| "compare_numbers (VFloat a) (VFloat b) =
     Some (VInt (if dbl_lt a b then -1 else if dbl_eq a b then 0 else 1))"
| "compare_numbers a b = (if type_of a \<noteq> type_of b then Some (VErr E_TYPE) else None)"

definition real_or_error :: "double \<Rightarrow> var" where
  "real_or_error d = (if IS_REAL d then new_float d else VErr E_FLOAT)"

fun simple_binary :: "(int32 \<Rightarrow> int32 \<Rightarrow> int32) \<Rightarrow> (double \<Rightarrow> double \<Rightarrow> double) \<Rightarrow> var \<Rightarrow> var \<Rightarrow> var option" where
  "simple_binary iop fop (VInt a) (VInt b) = Some (VInt (iop a b))"
| "simple_binary iop fop (VFloat a) (VFloat b) = Some (real_or_error (fop a b))"
| "simple_binary iop fop a b = (if type_of a \<noteq> type_of b then Some (VErr E_TYPE) else None)"

definition do_add :: "var \<Rightarrow> var \<Rightarrow> var option" where
  "do_add = simple_binary (+) dbl_add"

definition do_subtract :: "var \<Rightarrow> var \<Rightarrow> var option" where
  "do_subtract = simple_binary (-) dbl_sub"

definition do_multiply :: "var \<Rightarrow> var \<Rightarrow> var option" where
  "do_multiply = simple_binary (*) dbl_mul"

text \<open>The machine's signed division traps on \<^verbatim>\<open>INT_MIN / -1\<close>, for the quotient and the remainder.\<close>

definition trapping :: "(int \<Rightarrow> int \<Rightarrow> int) \<Rightarrow> int32 \<Rightarrow> int32 \<Rightarrow> int32 option" where
  "trapping iop a b = (if a = INT_MIN \<and> b = -1 then None else Some (word_of_int (iop (sint a) (sint b))))"

fun division_op :: "(int \<Rightarrow> int \<Rightarrow> int) \<Rightarrow> (double \<Rightarrow> double \<Rightarrow> double) \<Rightarrow> var \<Rightarrow> var \<Rightarrow> var option" where
  "division_op iop fop (VInt a) (VInt b) =
     (if b \<noteq> 0 then map_option VInt (trapping iop a b) else Some (VErr E_DIV))"
| "division_op iop fop (VFloat a) (VFloat b) =
     (if \<not> dbl_eq b 0 then Some (real_or_error (fop a b)) else Some (VErr E_DIV))"
| "division_op iop fop a b = (if type_of a \<noteq> type_of b then Some (VErr E_TYPE) else Some (VErr E_DIV))"

definition do_divide :: "var \<Rightarrow> var \<Rightarrow> var option" where
  "do_divide = division_op (\<lambda>a b. a sdiv b) dbl_div"

definition do_modulus :: "var \<Rightarrow> var \<Rightarrow> var option" where
  "do_modulus = division_op (\<lambda>a b. a smod b) dbl_fmod"

text \<open>\<^verbatim>\<open>while (b != 0) { if (b % 2 != 0) r *= a; a *= a; b >>= 1; }\<close> for \<open>b \<ge> 0\<close>.\<close>

fun power_loop :: "int32 \<Rightarrow> nat \<Rightarrow> int32 \<Rightarrow> int32" where
  "power_loop a b r =
     (if b = 0 then r else power_loop (a * a) (b div 2) (if b mod 2 \<noteq> 0 then r * a else r))"

declare power_loop.simps [simp del]

definition int_power :: "int32 \<Rightarrow> int32 \<Rightarrow> var" where
  "int_power a b =
     (if b <s 0 then
        (if a = -1 then VInt (if sint b smod 2 = 0 then 1 else -1)
         else if a = 0 then VErr E_DIV
         else if a = 1 then VInt 1
         else VInt 0)
      else VInt (power_loop a (nat (sint b)) 1))"

text \<open>\<open>c_pow\<close> is the library's \<^verbatim>\<open>pow\<close>; the flag says that \<^verbatim>\<open>errno\<close> was set.\<close>

definition do_power :: "(double \<Rightarrow> double \<Rightarrow> double \<times> bool) \<Rightarrow> var \<Rightarrow> var \<Rightarrow> var" where
  "do_power c_pow lhs rhs =
     (case lhs of
        VInt a \<Rightarrow> (case rhs of VInt b \<Rightarrow> int_power a b | _ \<Rightarrow> VErr E_TYPE)
      | VFloat x \<Rightarrow>
          (let float_power = (\<lambda>y. case c_pow x y of (d, err) \<Rightarrow>
                 if err \<or> \<not> IS_REAL d then VErr E_FLOAT else new_float d)
           in case rhs of
                VInt b \<Rightarrow> float_power (dbl_of_int (sint b))
              | VFloat y \<Rightarrow> float_power y
              | _ \<Rightarrow> VErr E_TYPE)
      | _ \<Rightarrow> VErr E_TYPE)"

section \<open>Built-in functions\<close>

fun bf_toint :: "var list \<Rightarrow> package" where
  "bf_toint (v # _) =
     (case become_integer v True of
        None \<Rightarrow> Crash
      | Some (e, n) \<Rightarrow> if e \<noteq> E_NONE then make_error_pack e else make_var_pack (VInt n))"
| "bf_toint [] = Crash"

fun bf_tofloat :: "var list \<Rightarrow> package" where
  "bf_tofloat (v # _) =
     (case become_float v of
        None \<Rightarrow> Crash
      | Some (e, d) \<Rightarrow> if e = E_NONE then make_var_pack (new_float d) else make_error_pack e)"
| "bf_tofloat [] = Crash"

text \<open>The loops of \<^verbatim>\<open>bf_min\<close> and \<^verbatim>\<open>bf_max\<close>: the best value so far and \<^verbatim>\<open>bad_types\<close>.\<close>

fun best_int :: "(int32 \<Rightarrow> int32 \<Rightarrow> bool) \<Rightarrow> int32 \<Rightarrow> bool \<Rightarrow> var list \<Rightarrow> int32 \<times> bool" where
  "best_int better r bad [] = (r, bad)"
| "best_int better r bad (VInt n # vs) = best_int better (if better n r then n else r) bad vs"
| "best_int better r bad (_ # vs) = best_int better r True vs"

fun best_float :: "(double \<Rightarrow> double \<Rightarrow> bool) \<Rightarrow> double \<Rightarrow> bool \<Rightarrow> var list \<Rightarrow> double \<times> bool" where
  "best_float better r bad [] = (r, bad)"
| "best_float better r bad (VFloat d # vs) = best_float better (if better d r then d else r) bad vs"
| "best_float better r bad (_ # vs) = best_float better r True vs"

definition best_package ::
  "(int32 \<Rightarrow> int32 \<Rightarrow> bool) \<Rightarrow> (double \<Rightarrow> double \<Rightarrow> bool) \<Rightarrow> var list \<Rightarrow> package" where
  "best_package ibetter fbetter args =
     (case args of
        VInt n # vs \<Rightarrow>
          (case best_int ibetter n False vs of (r, bad) \<Rightarrow>
             if bad then make_error_pack E_TYPE else make_var_pack (VInt r))
      | VFloat d # vs \<Rightarrow>
          (case best_float fbetter d False vs of (r, bad) \<Rightarrow>
             if bad then make_error_pack E_TYPE else make_var_pack (VFloat r))
      | _ \<Rightarrow> Crash)"

definition bf_min :: "var list \<Rightarrow> package" where
  "bf_min = best_package (\<lambda>n r. n <s r) dbl_lt"

definition bf_max :: "var list \<Rightarrow> package" where
  "bf_max = best_package (\<lambda>n r. r <s n) (\<lambda>d r. dbl_lt r d)"

fun bf_abs :: "var list \<Rightarrow> package" where
  "bf_abs (VInt n # _) = make_var_pack (VInt (if n <s 0 then - n else n))"
| "bf_abs (VFloat d # _) = make_var_pack (VFloat (dbl_fabs d))"
| "bf_abs _ = Crash"

datatype errno = NO_ERRNO | EDOM | OTHER_ERRNO

definition math_package :: "double \<times> errno \<Rightarrow> package" where
  "math_package r = (case r of (d, err) \<Rightarrow>
     if err = EDOM then make_error_pack E_INVARG
     else if err \<noteq> NO_ERRNO \<or> \<not> IS_REAL d then make_error_pack E_FLOAT
     else make_var_pack (new_float d))"

text \<open>One function for the fourteen instances of \<^verbatim>\<open>MATH_FUNC\<close>; \<open>name\<close> is the library function.\<close>

fun math_func :: "(double \<Rightarrow> double \<times> errno) \<Rightarrow> var list \<Rightarrow> package" where
  "math_func name (VFloat d # _) = math_package (name d)"
| "math_func name _ = Crash"

definition bf_ceil :: "var list \<Rightarrow> package" where
  "bf_ceil = math_func (\<lambda>d. (dbl_ceil d, NO_ERRNO))"

definition bf_floor :: "var list \<Rightarrow> package" where
  "bf_floor = math_func (\<lambda>d. (dbl_floor d, NO_ERRNO))"

fun bf_trunc :: "var list \<Rightarrow> package" where
  "bf_trunc (VFloat d # _) =
     math_package (if dbl_lt d 0 then dbl_ceil d else dbl_floor d, NO_ERRNO)"
| "bf_trunc _ = Crash"

fun bf_atan :: "(double \<Rightarrow> double \<times> errno) \<Rightarrow> (double \<Rightarrow> double \<Rightarrow> double \<times> errno) \<Rightarrow> var list \<Rightarrow> package" where
  "bf_atan atan atan2 [VFloat d] = math_package (atan d)"
| "bf_atan atan atan2 (VFloat d # VFloat dd # _) = math_package (atan2 d dd)"
| "bf_atan atan atan2 _ = Crash"

definition bf_time :: "int \<Rightarrow> var list \<Rightarrow> package" where
  "bf_time now args = make_var_pack (VInt (word_of_int now))"

text \<open>\<open>strf\<close> is \<^verbatim>\<open>strftime\<close> with the format of the code on the local time.\<close>

definition bf_ctime :: "(int \<Rightarrow> string) \<Rightarrow> int \<Rightarrow> var list \<Rightarrow> package" where
  "bf_ctime strf now args =
     (let fin = (\<lambda>buffer. make_var_pack (VStr
            (if 8 < length buffer \<and> buffer ! 8 = CHR ''0'' then buffer[8 := CHR '' ''] else buffer)))
      in case args of
           [VInt n] \<Rightarrow> fin (strf (sint n))
         | [_] \<Rightarrow> Crash
         | _ \<Rightarrow> fin (strf now))"

text \<open>\<open>rnd\<close> is what \<^verbatim>\<open>RANDOM()\<close> returns, a non-negative number.\<close>

definition bf_random :: "nat \<Rightarrow> var list \<Rightarrow> package" where
  "bf_random rnd args =
     (case args of
        [] \<Rightarrow> make_var_pack (VInt (of_nat rnd))
      | VInt num # _ \<Rightarrow>
          if num \<le>s 0 then make_error_pack E_INVARG
          else make_var_pack (VInt (word_of_int (int rnd mod sint num + 1)))
      | _ \<Rightarrow> Crash)"

text \<open>\<^verbatim>\<open>%.<prec>f\<close> and \<^verbatim>\<open>%.<prec>e\<close> for a positive \<open>num / den\<close>.\<close>

definition pad_exponent :: "int \<Rightarrow> string" where
  "pad_exponent x = (if x < 0 then ''e-'' else ''e+'')
     @ (let e = dec (nat \<bar>x\<bar>) in if length e < 2 then CHR ''0'' # e else e)"

definition point :: "string \<Rightarrow> nat \<Rightarrow> string" where
  "point ds prec = (if prec = 0 then ds
     else take (length ds - prec) ds @ CHR ''.'' # drop (length ds - prec) ds)"

definition fmt_f_ratio :: "nat \<Rightarrow> int \<Rightarrow> int \<Rightarrow> string" where
  "fmt_f_ratio prec num den =
     (let ds = dec (nat (div_half_even (num * 10 ^ prec) den))
      in point (replicate (prec + 1 - length ds) (CHR ''0'') @ ds) prec)"

definition fmt_e_ratio :: "nat \<Rightarrow> int \<Rightarrow> int \<Rightarrow> string" where
  "fmt_e_ratio prec num den =
     (if num = 0 then point (replicate (prec + 1) (CHR ''0'')) prec @ pad_exponent 0
      else
        let x0 = dec_exponent num den; k = x0 - int prec;
            d0 = (if 0 \<le> k then div_half_even num (den * 10 ^ nat k)
                  else div_half_even (num * 10 ^ nat (- k)) den);
            (x, d) = (if d0 = 10 ^ (prec + 1) then (x0 + 1, d0 div 10) else (x0, d0))
        in point (dec (nat d)) prec @ pad_exponent x)"

definition fmt_float :: "bool \<Rightarrow> nat \<Rightarrow> double \<Rightarrow> string" where
  "fmt_float use_sci prec d =
     (if dbl_is_nan d then (if dbl_sign d then ''-nan'' else ''nan'')
      else if dbl_is_inf d then (if dbl_sign d then ''-inf'' else ''inf'')
      else (if dbl_sign d then ''-'' else '''')
        @ (let num = (if 0 \<le> dbl_exp2 d then dbl_mant d * 2 ^ nat (dbl_exp2 d) else dbl_mant d);
               den = (if 0 \<le> dbl_exp2 d then 1 else 2 ^ nat (- dbl_exp2 d))
           in if use_sci then fmt_e_ratio prec num den else fmt_f_ratio prec num den))"

definition DBL_DIG :: int where "DBL_DIG = 15"

fun bf_floatstr :: "var list \<Rightarrow> package" where
  "bf_floatstr (VFloat d # VInt prec # rest) =
     (let use_sci = (rest \<noteq> [] \<and> is_true (hd rest));
          p = (if sint prec > DBL_DIG + 4 then DBL_DIG + 4 else sint prec)
      in if p < 0 then make_error_pack E_INVARG
         else make_var_pack (VStr (fmt_float use_sci (nat p) d)))"
| "bf_floatstr _ = Crash"

section \<open>What the operations compute\<close>

lemma power_loop_ok: "power_loop a b r = r * a ^ b"
proof (induction a b r rule: power_loop.induct)
  case (1 a b r)
  show ?case
  proof (cases "b = 0")
    case False
    have "(a * a) ^ (b div 2) = a ^ (2 * (b div 2))" by (simp add: power_mult power2_eq_square)
    moreover have "b = 2 * (b div 2) + b mod 2" by simp
    then have "a ^ b = a ^ (2 * (b div 2)) * a ^ (b mod 2)" by (metis power_add)
    ultimately show ?thesis using 1 False
      by (cases "b mod 2 = 0") (auto simp: power_loop.simps [of a b r] mult.assoc mult.commute odd_iff_mod_2_eq_one)
  qed (simp add: power_loop.simps)
qed

lemma sint_m1: "sint (w :: int32) = -1 \<longleftrightarrow> w = -1"
  by (metis signed_minus_1 signed_word_eqI)

lemma sint_zero: "sint (w :: int32) = 0 \<longleftrightarrow> w = 0"
  by (metis signed_0 signed_word_eqI)

lemma INT_MIN_sint: "sint (w :: int32) = - 2147483648 \<longleftrightarrow> w = INT_MIN"
  by (metis sint_INT_MIN signed_word_eqI)

lemma divide_modulus_ok:
  assumes "b \<noteq> 0" "\<not> (a = INT_MIN \<and> b = -1)"
  shows "\<exists>q r. do_divide (VInt a) (VInt b) = Some (VInt q) \<and> do_modulus (VInt a) (VInt b) = Some (VInt r)
    \<and> sint q * sint b + sint r = sint a \<and> \<bar>sint r\<bar> < \<bar>sint b\<bar> \<and> (sint r \<noteq> 0 \<longrightarrow> sgn (sint r) = sgn (sint a))"
proof -
  let ?q = "sint a sdiv sint b" and ?r = "sint a smod sint b"
  have b0: "sint b \<noteq> 0" using assms(1) sint_zero [of b] by simp
  have "\<bar>?q\<bar> \<le> \<bar>sint a\<bar>" using sdiv_int_range [of "sint a" "sint b"] by auto
  moreover have "?q \<noteq> 2147483648"
  proof
    assume q: "?q = 2147483648"
    then have "sint a = - 2147483648"
      using \<open>\<bar>?q\<bar> \<le> \<bar>sint a\<bar>\<close> sint32_range [of a] by linarith
    with q have "sint b = -1"
      using int_sdiv_negated_is_minus1 [of "sint a" "sint b"] by simp
    with \<open>sint a = - 2147483648\<close> assms(2) show False by (simp add: sint_m1 INT_MIN_sint)
  qed
  ultimately have q: "sint (word_of_int ?q :: int32) = ?q"
    using sint32_range [of a] by (intro sint32_of_int) linarith+
  have rr: "- \<bar>sint b\<bar> + 1 \<le> ?r" "?r \<le> \<bar>sint b\<bar> - 1"
    using smod_int_range [OF b0, of "sint a"] by auto
  then have r: "sint (word_of_int ?r :: int32) = ?r"
    using sint32_range [of b] by (intro sint32_of_int) linarith+
  have s: "?r \<noteq> 0 \<longrightarrow> sgn ?r = sgn (sint a)"
  proof -
    have "0 \<le> \<bar>sint a\<bar> mod \<bar>sint b\<bar>" using b0 by simp
    then show ?thesis
      by (cases "\<bar>sint a\<bar> mod \<bar>sint b\<bar> = 0") (simp_all add: signed_modulo_int_def sgn_mult)
  qed
  show ?thesis
    using assms rr s mult_sdiv_smod_eq [of "sint b" "sint a"] q r
    by (auto simp: do_divide_def do_modulus_def trapping_def mult.commute)
qed

text \<open>Arithmetic never makes a float that is not a real number.\<close>

lemma real_or_error_value: "user_value (real_or_error d)"
  by (simp add: real_or_error_def new_float_def)

lemma arithmetic_values:
  assumes "op \<in> {do_add, do_subtract, do_multiply, do_divide, do_modulus}" "op a b = Some v"
  shows "user_value v"
proof -
  have s: "simple_binary f g a b = Some v \<Longrightarrow> user_value v" for f g
    by (cases "(f, g, a, b)" rule: simple_binary.cases) (auto simp: real_or_error_value split: if_splits)
  have d: "division_op f g a b = Some v \<Longrightarrow> user_value v" for f g
    by (cases "(f, g, a, b)" rule: division_op.cases) (auto simp: real_or_error_value split: if_splits)
  from assms show ?thesis
    by (auto simp: do_add_def do_subtract_def do_multiply_def do_divide_def do_modulus_def intro: s d)
qed

text \<open>Numbers printed by the server are read back unchanged.\<close>

lemma takeWhile_digits: "takeWhile isdigit (dec n) = dec n" "dropWhile isdigit (dec n) = []"
  using dec_digits by (auto simp: takeWhile_eq_all_conv dropWhile_eq_Nil_conv)

lemma digit_not_special:
  assumes "isdigit c"
  shows "\<not> isspace c" "c \<noteq> CHR ''-''" "c \<noteq> CHR ''+''" "c \<noteq> CHR '' ''" "c \<noteq> CHR ''#''"
  using assms by (auto simp: isdigit_def isspace_def ch_def)

lemma strtol_dec_int:
  assumes "- 2147483648 \<le> i" "i < 2147483648"
  shows "strtol (dec_int i) = Some (i, [])"
proof (cases "i < 0")
  case True
  have "dropWhile isspace (CHR ''-'' # dec (nat (- i))) = CHR ''-'' # dec (nat (- i))"
    by (simp add: isspace_def ch_def)
  then show ?thesis using True assms
    by (simp add: strtol_def skip_space_def read_sign_def dec_int_def takeWhile_digits read_digits_dec)
next
  case False
  obtain c s where d: "dec (nat i) = c # s" by (cases "dec (nat i)") auto
  then have c: "isdigit c" using hd_dec [of "nat i"] by simp
  have "read_sign (skip_space (dec (nat i))) = (False, dec (nat i))"
    using digit_not_special [OF c] by (simp add: skip_space_def read_sign_def d)
  then show ?thesis using False assms
    by (simp add: strtol_def dec_int_def takeWhile_digits read_digits_dec)
qed

lemma parse_number_dec_int: "parse_number (dec_int (sint n)) fp = Some (n, True)"
  using strtol_dec_int [OF sint32_range] dec_int_not_Nil [symmetric]
  by (simp add: parse_number_def only_spaces_def)

lemma parse_object_literal: "parse_object (CHR ''#'' # dec_int (sint n)) = Some (n, True)"
  by (simp add: parse_object_def parse_number_dec_int)

subsection \<open>Minimum and maximum\<close>

lemma best_int_types: "snd (best_int better r bad vs) \<longleftrightarrow> bad \<or> (\<exists>v \<in> set vs. type_of v \<noteq> TYPE_INT)"
  by (induction better r bad vs rule: best_int.induct) auto

lemma best_int_min:
  assumes "\<forall>v \<in> set vs. type_of v = TYPE_INT"
  shows "VInt (fst (best_int (\<lambda>n r. n <s r) r bad vs)) \<in> insert (VInt r) (set vs)
    \<and> sint (fst (best_int (\<lambda>n r. n <s r) r bad vs)) \<le> sint r
    \<and> (\<forall>n. VInt n \<in> set vs \<longrightarrow> sint (fst (best_int (\<lambda>n r. n <s r) r bad vs)) \<le> sint n)"
  using assms
proof (induction vs arbitrary: r)
  case (Cons v vs)
  then obtain n where v: "v = VInt n" by (cases v) auto
  show ?case using Cons.IH [of "if n <s r then n else r"] Cons.prems v
    by (auto simp: word_sless_alt split: if_splits)
qed simp

lemma best_int_max:
  assumes "\<forall>v \<in> set vs. type_of v = TYPE_INT"
  shows "VInt (fst (best_int (\<lambda>n r. r <s n) r bad vs)) \<in> insert (VInt r) (set vs)
    \<and> sint r \<le> sint (fst (best_int (\<lambda>n r. r <s n) r bad vs))
    \<and> (\<forall>n. VInt n \<in> set vs \<longrightarrow> sint n \<le> sint (fst (best_int (\<lambda>n r. r <s n) r bad vs)))"
  using assms
proof (induction vs arbitrary: r)
  case (Cons v vs)
  then obtain n where v: "v = VInt n" by (cases v) auto
  show ?case using Cons.IH [of "if r <s n then n else r"] Cons.prems v
    by (auto simp: word_sless_alt split: if_splits)
qed simp

section \<open>Properties\<close>

text \<open>C17: integer division truncates towards zero and is consistent with the remainder: unless the divisor
  is zero or the pair is \<^verbatim>\<open>INT_MIN, -1\<close>, both operators return integers \<open>q\<close> and \<open>r\<close> with
  \<open>q * b + r = a\<close>, \<open>\<bar>r\<bar> < \<bar>b\<bar>\<close> and \<open>r\<close> of the sign of \<open>a\<close>.\<close>

theorem divide_modulus_consistent:
  assumes "b \<noteq> 0" "\<not> (a = INT_MIN \<and> b = -1)"
  shows "\<exists>q r. do_divide (VInt a) (VInt b) = Some (VInt q) \<and> do_modulus (VInt a) (VInt b) = Some (VInt r)
    \<and> sint q * sint b + sint r = sint a \<and> \<bar>sint r\<bar> < \<bar>sint b\<bar>
    \<and> (sint r \<noteq> 0 \<longrightarrow> sgn (sint r) = sgn (sint a))"
  using assms by (rule divide_modulus_ok)

theorem divide_modulus_consistent_witness:
  "\<exists>q r. do_divide (VInt (-7)) (VInt 2) = Some (VInt q) \<and> do_modulus (VInt (-7)) (VInt 2) = Some (VInt r)
    \<and> sint q * 2 + sint r = -7"
  using divide_modulus_consistent [of 2 "-7"] by auto


text \<open>C19: integer exponentiation by repeated squaring computes the power modulo \<open>2 ^ 32\<close> for every
  non-negative exponent, and the exact quotient \<open>1 / a ^ n\<close> truncated for negative ones.\<close>

theorem do_power_correct:
  "do_power c_pow (VInt a) (VInt b) =
    (if 0 \<le> sint b then VInt (a ^ nat (sint b))
     else if a = 0 then VErr E_DIV
     else if a = 1 \<or> a = -1 \<and> even (sint b) then VInt 1
     else if a = -1 then VInt (-1) else VInt 0)"
proof -
  have "sint b smod 2 = 0 \<longleftrightarrow> even (sint b)"
    by (auto simp: smod_int_alt_def sgn_if even_iff_mod_2_eq_zero abs_if minus_mod_int_eq zmod_zminus1_eq_if split: if_splits)
  then show ?thesis
    by (auto simp: do_power_def int_power_def power_loop_ok word_sless_alt)
qed

text \<open>C20: arithmetic on numbers never leaves the values a program may hold: whatever the operands, the
  result of an opcode is an integer, a float that is a real number, or an error value.\<close>

theorem arithmetic_preserves_values:
  assumes "op \<in> {do_add, do_subtract, do_multiply, do_divide, do_modulus}" "op a b = Some v"
  shows "user_value v"
  using assms by (rule arithmetic_values)

theorem arithmetic_preserves_values_witness:
  "user_value (real_or_error (dbl_add 0x7FE0000000000000 0x7FE0000000000000))"
  by (rule arithmetic_preserves_values [of do_add "VFloat 0x7FE0000000000000" "VFloat 0x7FE0000000000000"])
    (simp_all add: do_add_def)

text \<open>C16: numbers and object numbers survive the trip through text: \<^verbatim>\<open>toint\<close> of \<^verbatim>\<open>tostr\<close> of an integer is
  that integer, for all \<open>2 ^ 32\<close> of them, and \<^verbatim>\<open>toobj\<close>'s conversion of the text of an object number is
  that number.\<close>

theorem toint_tostr_roundtrip:
  "(case list2str [VInt n] of Some s \<Rightarrow> bf_toint [VStr s] = make_var_pack (VInt n) | None \<Rightarrow> False)
   \<and> (case list2str [VObj (sint n)] of
        Some s \<Rightarrow> become_integer (VStr s) False = Some (E_NONE, n) | None \<Rightarrow> False)"
proof
  show "case list2str [VInt n] of Some s \<Rightarrow> bf_toint [VStr s] = make_var_pack (VInt n) | None \<Rightarrow> False"
    by (simp add: list2str_ok become_integer_def parse_number_dec_int)
  have "list2str [VObj (sint n)] = Some (CHR ''#'' # dec_int (sint n))"
    using sint32_range [of n] by (simp add: list2str_ok)
  then show "case list2str [VObj (sint n)] of
        Some s \<Rightarrow> become_integer (VStr s) False = Some (E_NONE, n) | None \<Rightarrow> False"
    by (simp add: become_integer_def parse_object_literal)
qed

text \<open>C0: \<^verbatim>\<open>min\<close> and \<^verbatim>\<open>max\<close> of integers return an argument that bounds all of them, and raise \<^verbatim>\<open>E_TYPE\<close>
  exactly when a later argument is not an integer.\<close>

theorem min_max_correct:
  "if \<exists>v \<in> set vs. type_of v \<noteq> TYPE_INT
   then bf_min (VInt n # vs) = make_error_pack E_TYPE \<and> bf_max (VInt n # vs) = make_error_pack E_TYPE
   else \<exists>lo hi. bf_min (VInt n # vs) = make_var_pack (VInt lo) \<and> bf_max (VInt n # vs) = make_var_pack (VInt hi)
     \<and> VInt lo \<in> set (VInt n # vs) \<and> VInt hi \<in> set (VInt n # vs)
     \<and> (\<forall>m. VInt m \<in> set (VInt n # vs) \<longrightarrow> sint lo \<le> sint m \<and> sint m \<le> sint hi)"
proof (cases "\<exists>v \<in> set vs. type_of v \<noteq> TYPE_INT")
  case True
  then have "snd (best_int better n False vs)" for better by (simp add: best_int_types)
  with True show ?thesis by (simp add: bf_min_def bf_max_def best_package_def case_prod_unfold)
next
  case False
  then have t: "\<forall>v \<in> set vs. type_of v = TYPE_INT" by blast
  let ?lo = "fst (best_int (\<lambda>n r. n <s r) n False vs)" and ?hi = "fst (best_int (\<lambda>n r. r <s n) n False vs)"
  have "bf_min (VInt n # vs) = make_var_pack (VInt ?lo)" "bf_max (VInt n # vs) = make_var_pack (VInt ?hi)"
    using t by (simp_all add: bf_min_def bf_max_def best_package_def case_prod_unfold best_int_types)
  then show ?thesis
    using best_int_min [OF t, of n False] best_int_max [OF t, of n False] False by auto
qed

theorem min_max_correct_witness: "\<exists>lo. bf_min [VInt 3, VInt (-2)] = make_var_pack (VInt lo)"
  using min_max_correct [of "[VInt (-2)]" 3] by auto

end
