(* ===== verification/BiFuncs.thy ===== *)
theory BiFuncs
  imports ListFuncs Numbers
begin

text \<open>
  functions.c: the table of built-in functions and their dispatch.  \<open>top_bf_table\<close> is the length of
  the table.  What the dispatcher asks of the interpreter and of the database (\<^verbatim>\<open>caller\<close>,
  \<^verbatim>\<open>is_wizard\<close>, \<^verbatim>\<open>call_verb2\<close>, \<^verbatim>\<open>server_flag_option\<close>) are arguments.  The locale
  \<open>builtin_provider\<close> is the contract between the dispatcher and the functions it calls: a function
  that is safe on the arguments its prototype admits is never called on others.
\<close>

section \<open>The table\<close>

definition MAX_FUNC :: nat where "MAX_FUNC = 256"

definition FUNC_NOT_FOUND :: nat where "FUNC_NOT_FOUND = MAX_FUNC"

datatype 'v vdata = No_data | Call_bi_func_marker | Data 'v

record 'v bft_entry =
  f_name :: string
  f_protect_str :: string
  f_verb_str :: string
  f_minargs :: int
  f_maxargs :: int
  f_prototype :: "var_type list"
  f_func :: "var list \<Rightarrow> byte \<Rightarrow> 'v vdata \<Rightarrow> objid \<Rightarrow> package"
  f_read :: "'v option option"       \<comment> \<open>the reader, if any, as what it returns (\<open>None\<close> is a null pointer)\<close>
  f_protected :: bool

type_synonym 'v bf_table = "'v bft_entry list"

definition num_arg_types :: "int \<Rightarrow> int \<Rightarrow> nat" where
  "num_arg_types minargs maxargs = nat (if maxargs = -1 then minargs else maxargs)"

text \<open>The answer is the function's number; a full table answers \<open>0\<close> and is left as it is.\<close>

definition register_common ::
  "string \<Rightarrow> int \<Rightarrow> int \<Rightarrow> (var list \<Rightarrow> byte \<Rightarrow> 'v vdata \<Rightarrow> objid \<Rightarrow> package) \<Rightarrow> 'v option option
     \<Rightarrow> var_type list \<Rightarrow> 'v bf_table \<Rightarrow> nat \<times> 'v bf_table" where
  "register_common name minargs maxargs func read args bf_table =
     (if length bf_table = MAX_FUNC then (0, bf_table)
      else (length bf_table,
        bf_table @ [\<lparr>f_name = name, f_protect_str = ''protect_'' @ name, f_verb_str = ''bf_'' @ name,
          f_minargs = minargs, f_maxargs = maxargs,
          f_prototype = take (num_arg_types minargs maxargs) args,
          f_func = func, f_read = read, f_protected = False\<rparr>]))"

definition name_func_by_num :: "'v bf_table \<Rightarrow> nat \<Rightarrow> string" where
  "name_func_by_num bf_table n =
     (if n \<ge> length bf_table then ''no such function'' else f_name (bf_table ! n))"

fun number_loop :: "string \<Rightarrow> 'v bf_table \<Rightarrow> nat \<Rightarrow> nat" where
  "number_loop name [] i = FUNC_NOT_FOUND"
| "number_loop name (e # es) i =
     (if mystrcasecmp name (f_name e) = 0 then i else number_loop name es (i + 1))"

definition number_func_by_name :: "'v bf_table \<Rightarrow> string \<Rightarrow> nat" where
  "number_func_by_name bf_table name = number_loop name bf_table 0"

section \<open>Calling a function\<close>

record interp =
  i_caller :: objid
  i_is_wizard :: "objid \<Rightarrow> bool"
  i_call_verb2 :: "objid \<Rightarrow> string \<Rightarrow> var list \<Rightarrow> error"

definition type_admits :: "var_type \<Rightarrow> var_type \<Rightarrow> bool" where
  "type_admits proto arg \<longleftrightarrow>
     proto = TYPE_ANY \<or> proto = TYPE_NUMERIC \<and> (arg = TYPE_INT \<or> arg = TYPE_FLOAT) \<or> proto = arg"

text \<open>
  The loop over the first \<open>n\<close> arguments: \<open>None\<close> when it reads past the prototype or the arguments,
  else whether every type is admitted.
\<close>

fun check_types :: "nat \<Rightarrow> var_type list \<Rightarrow> var list \<Rightarrow> bool option" where
  "check_types 0 protos args = Some True"
| "check_types (Suc n) (p # protos) (a # args) =
     (if type_admits p (type_of a) then check_types n protos args else Some False)"
| "check_types (Suc n) _ _ = None"

definition check_call :: "'v bft_entry \<Rightarrow> var list \<Rightarrow> package option" where
  "check_call f args =
     (if int (length args) < f_minargs f
         \<or> f_maxargs f \<noteq> -1 \<and> int (length args) > f_maxargs f then Some (make_error_pack E_ARGS)
      else (case check_types (nat (if f_maxargs f = -1 then f_minargs f else int (length args)))
                  (f_prototype f) args of
        None \<Rightarrow> Some Crash
      | Some False \<Rightarrow> Some (make_error_pack E_TYPE)
      | Some True \<Rightarrow> None))"

definition check_protected :: "interp \<Rightarrow> 'v bft_entry \<Rightarrow> var list \<Rightarrow> objid \<Rightarrow> package option" where
  "check_protected env f args progr =
     (if i_caller env \<noteq> SYSTEM_OBJECT \<and> f_protected f then
        (let e = i_call_verb2 env SYSTEM_OBJECT (f_verb_str f) args in
         if e = E_NONE then Some tail_call_pack
         else if e = E_MAXREC \<or> \<not> i_is_wizard env progr
           then Some (make_error_pack (if e = E_MAXREC then e else E_PERM))
         else None)
      else None)"

definition call_bi_func ::
  "interp \<Rightarrow> 'v bf_table \<Rightarrow> nat \<Rightarrow> var list \<Rightarrow> byte \<Rightarrow> objid \<Rightarrow> 'v vdata \<Rightarrow> package" where
  "call_bi_func env bf_table n args func_pc progr vdata =
     (if n \<ge> length bf_table then no_var_pack
      else
        let f = bf_table ! n in
        if func_pc = 1 then
          (case check_protected env f args progr of
             Some p \<Rightarrow> p
           | None \<Rightarrow>
               (case check_call f args of
                  Some p \<Rightarrow> p
                | None \<Rightarrow> f_func f args func_pc vdata progr))
        else if func_pc = 2 \<and> vdata = Call_bi_func_marker then make_var_pack (VList args)
        else f_func f args func_pc vdata progr)"

section \<open>Data of suspended functions\<close>

text \<open>
  \<open>read_bi_func_data\<close>: success, the state pointer and the new pc; \<open>float_version\<close> says that the
  database being read has the version \<^verbatim>\<open>DBV_Float\<close>.
\<close>

definition read_bi_func_data ::
  "'v bf_table \<Rightarrow> bool \<Rightarrow> byte \<Rightarrow> byte \<Rightarrow> bool \<times> 'v option \<times> byte" where
  "read_bi_func_data bf_table float_version f_id pc =
     (if unat f_id \<ge> length bf_table then (False, None, pc)
      else (case f_read (bf_table ! unat f_id) of
        Some None \<Rightarrow> (False, None, pc)
      | Some (Some st) \<Rightarrow> (True, Some st, pc)
      | None \<Rightarrow> (True, None,
          if pc = 2 \<and> float_version \<and> strcmp (f_name (bf_table ! unat f_id)) ''eval'' \<noteq> 0
          then 0 else pc)))"

section \<open>Describing functions\<close>

definition function_description :: "'v bf_table \<Rightarrow> nat \<Rightarrow> var" where
  "function_description bf_table i =
     (let entry = bf_table ! i in
      VList [VStr (f_name entry), VInt (word_of_int (f_minargs entry)),
        VInt (word_of_int (f_maxargs entry)),
        VList (map (\<lambda>p. VInt (word_of_int (type_num p))) (f_prototype entry))])"

definition bf_function_info :: "'v bf_table \<Rightarrow> var list \<Rightarrow> package" where
  "bf_function_info bf_table args =
     (case args of
        [VStr name] \<Rightarrow>
          (let i = number_func_by_name bf_table name in
           if i = FUNC_NOT_FOUND then make_error_pack E_INVARG
           else make_var_pack (function_description bf_table i))
      | [_] \<Rightarrow> Crash
      | _ \<Rightarrow> make_var_pack (VList (map (function_description bf_table) [0..<length bf_table])))"

definition load_server_protect_flags :: "(string \<Rightarrow> bool) \<Rightarrow> 'v bf_table \<Rightarrow> 'v bf_table" where
  "load_server_protect_flags server_flag_option bf_table =
     map (\<lambda>e. e\<lparr>f_protected := server_flag_option (f_protect_str e)\<rparr>) bf_table"

definition bf_load_server_options ::
  "(objid \<Rightarrow> bool) \<Rightarrow> (string \<Rightarrow> bool) \<Rightarrow> objid \<Rightarrow> 'v bf_table \<Rightarrow> package \<times> 'v bf_table" where
  "bf_load_server_options is_wizard server_flag_option progr bf_table =
     (if \<not> is_wizard progr then (make_error_pack E_PERM, bf_table)
      else (no_var_pack, load_server_protect_flags server_flag_option bf_table))"

section \<open>The contract\<close>

text \<open>The arguments an entry admits: their number, and the types of those it has prototypes for.\<close>

definition admits :: "int \<Rightarrow> int \<Rightarrow> var_type list \<Rightarrow> var list \<Rightarrow> bool" where
  "admits minargs maxargs protos args \<longleftrightarrow>
     minargs \<le> int (length args) \<and> (maxargs = -1 \<or> int (length args) \<le> maxargs)
     \<and> list_all2 (\<lambda>p a. type_admits p (type_of a))
         (take (length args) protos) (take (length protos) args)"

definition entry_wf :: "'v bft_entry \<Rightarrow> bool" where
  "entry_wf f \<longleftrightarrow> 0 \<le> f_minargs f \<and> - 1 \<le> f_maxargs f
     \<and> length (f_prototype f) = num_arg_types (f_minargs f) (f_maxargs f)"

lemma check_types_ok:
  "n \<le> length protos \<Longrightarrow> n \<le> length args \<Longrightarrow>
   check_types n protos args
     = Some (list_all2 (\<lambda>p a. type_admits p (type_of a)) (take n protos) (take n args))"
proof (induction n protos args rule: check_types.induct)
  case (2 n p protos a args)
  then show ?case by auto
qed auto

lemma check_call_ok:
  assumes "entry_wf f"
  shows "check_call f args =
    (if admits (f_minargs f) (f_maxargs f) (f_prototype f) args then None
     else if f_minargs f \<le> int (length args) \<and> (f_maxargs f = -1 \<or> int (length args) \<le> f_maxargs f)
       then Some (make_error_pack E_TYPE) else Some (make_error_pack E_ARGS))"
proof (cases "f_minargs f \<le> int (length args) \<and> (f_maxargs f = -1 \<or> int (length args) \<le> f_maxargs f)")
  case True
  let ?n = "nat (if f_maxargs f = -1 then f_minargs f else int (length args))"
  have n: "?n \<le> length (f_prototype f)" "?n \<le> length args"
    using assms True by (auto simp: entry_wf_def num_arg_types_def)
  have m: "take ?n (f_prototype f) = take (length args) (f_prototype f)"
    "take ?n args = take (length (f_prototype f)) args"
    using assms True by (auto simp: entry_wf_def num_arg_types_def)
  show ?thesis
    using True check_types_ok [OF n] unfolding m
    by (auto simp: check_call_def admits_def split: bool.splits)
qed (auto simp: check_call_def admits_def)

locale builtin_provider =
  fixes table :: "'v bf_table"
    and value_ok :: "var \<Rightarrow> bool"
  assumes wf: "f \<in> set table \<Longrightarrow> entry_wf f"
    and safe: "f \<in> set table \<Longrightarrow> admits (f_minargs f) (f_maxargs f) (f_prototype f) args
      \<Longrightarrow> \<forall>v \<in> set args. value_ok v \<Longrightarrow> f_func f args 1 No_data progr \<noteq> Crash"
begin

lemma call_safe:
  assumes "\<forall>v \<in> set args. value_ok v"
  shows "call_bi_func env table n args 1 progr No_data \<noteq> Crash"
proof (cases "n < length table")
  case True
  then have m: "table ! n \<in> set table" by simp
  have "check_protected env (table ! n) args progr \<noteq> Some Crash"
    by (auto simp: check_protected_def Let_def split: if_splits)
  moreover have "check_call (table ! n) args \<noteq> Some Crash"
    by (simp add: check_call_ok [OF wf [OF m]])
  moreover have "f_func (table ! n) args 1 No_data progr \<noteq> Crash" if "check_call (table ! n) args = None"
    using that assms safe [OF m] by (simp add: check_call_ok [OF wf [OF m]] split: if_splits)
  ultimately show ?thesis using True
    by (auto simp: call_bi_func_def Let_def split: option.splits)
qed (simp add: call_bi_func_def)

lemma call_checked:
  assumes "n < length table" "i_caller env = SYSTEM_OBJECT \<or> \<not> f_protected (table ! n)"
  shows "call_bi_func env table n args 1 progr No_data =
    (let f = table ! n in
     if admits (f_minargs f) (f_maxargs f) (f_prototype f) args then f_func f args 1 No_data progr
     else if f_minargs f \<le> int (length args) \<and> (f_maxargs f = -1 \<or> int (length args) \<le> f_maxargs f)
       then make_error_pack E_TYPE else make_error_pack E_ARGS)"
proof -
  have "table ! n \<in> set table" using assms(1) by simp
  from check_call_ok [OF wf [OF this]] show ?thesis
    using assms by (auto simp: call_bi_func_def check_protected_def Let_def)
qed

end

end
