(* ===== verification/Builtins.thy ===== *)
theory Builtins
  imports BiFuncs
begin

text \<open>
  The registrations of list.c and numbers.c, and the proof that every function they register meets
  the dispatcher's contract: on the arguments its prototype admits, a call of it never reads a union
  member that is not there, never leaves a block and never panics.  The one proviso is \<open>castable\<close>:
  on a string, \<open>toint\<close> and \<open>tonum\<close> cast a double without a check that it fits.
\<close>

section \<open>What the functions take from the C library\<close>

record 're clib =
  l_crypt :: "(string \<Rightarrow> string \<Rightarrow> string) option"
  l_random :: "nat \<times> nat"
  l_re_compile :: "string \<Rightarrow> (char \<Rightarrow> char) option \<Rightarrow> 're option"
  l_re_search :: "'re \<Rightarrow> string \<Rightarrow> int \<Rightarrow> int \<Rightarrow> int \<times> regs"
  l_cache :: "'re pat_cache"
  l_math :: "string \<Rightarrow> double \<Rightarrow> double \<times> errno"
  l_atan2 :: "double \<Rightarrow> double \<Rightarrow> double \<times> errno"
  l_strftime :: "int \<Rightarrow> string"
  l_time :: int

section \<open>Registration\<close>

type_synonym reg = "string \<times> int \<times> int \<times> (var list \<Rightarrow> package) \<times> var_type list"

definition register_function :: "reg \<Rightarrow> 'v bf_table \<Rightarrow> 'v bf_table" where
  "register_function r bf_table = (case r of (name, minargs, maxargs, f, protos) \<Rightarrow>
     snd (register_common name minargs maxargs (\<lambda>args next vdata progr. f args) None protos bf_table))"

definition list_functions :: "'re clib \<Rightarrow> reg list" where
  "list_functions lib =
    [(''value_bytes'', 1, 1, bf_value_bytes, [TYPE_ANY]),
     (''value_hash'', 1, 1, bf_value_hash, [TYPE_ANY]),
     (''string_hash'', 1, 1, bf_string_hash, [TYPE_STR]),
     (''binary_hash'', 1, 1, bf_binary_hash, [TYPE_STR]),
     (''decode_binary'', 1, 2, bf_decode_binary, [TYPE_STR, TYPE_ANY]),
     (''encode_binary'', 0, -1, bf_encode_binary, []),
     (''length'', 1, 1, bf_length, [TYPE_ANY]),
     (''setadd'', 2, 2, bf_setadd, [TYPE_LIST, TYPE_ANY]),
     (''setremove'', 2, 2, bf_setremove, [TYPE_LIST, TYPE_ANY]),
     (''listappend'', 2, 3, bf_listappend, [TYPE_LIST, TYPE_ANY, TYPE_INT]),
     (''listinsert'', 2, 3, bf_listinsert, [TYPE_LIST, TYPE_ANY, TYPE_INT]),
     (''listdelete'', 2, 2, bf_listdelete, [TYPE_LIST, TYPE_INT]),
     (''listset'', 3, 3, bf_listset, [TYPE_LIST, TYPE_ANY, TYPE_INT]),
     (''equal'', 2, 2, bf_equal, [TYPE_ANY, TYPE_ANY]),
     (''is_member'', 2, 2, bf_is_member, [TYPE_ANY, TYPE_LIST]),
     (''tostr'', 0, -1, bf_tostr, []),
     (''toliteral'', 1, 1, bf_toliteral, [TYPE_ANY]),
     (''match'', 2, 3, (\<lambda>a. fst (bf_match (l_re_compile lib) (l_re_search lib) (l_cache lib) a)),
       [TYPE_STR, TYPE_STR, TYPE_ANY]),
     (''rmatch'', 2, 3, (\<lambda>a. fst (bf_rmatch (l_re_compile lib) (l_re_search lib) (l_cache lib) a)),
       [TYPE_STR, TYPE_STR, TYPE_ANY]),
     (''substitute'', 2, 2, bf_substitute, [TYPE_STR, TYPE_LIST]),
     (''crypt'', 1, 2, bf_crypt (l_crypt lib) (fst (l_random lib)) (snd (l_random lib)),
       [TYPE_STR, TYPE_STR]),
     (''index'', 2, 3, bf_index, [TYPE_STR, TYPE_STR, TYPE_ANY]),
     (''rindex'', 2, 3, bf_rindex, [TYPE_STR, TYPE_STR, TYPE_ANY]),
     (''strcmp'', 2, 2, bf_strcmp, [TYPE_STR, TYPE_STR]),
     (''strsub'', 3, 4, bf_strsub, [TYPE_STR, TYPE_STR, TYPE_STR, TYPE_ANY])]"

definition math_function :: "'re clib \<Rightarrow> string \<Rightarrow> reg" where
  "math_function lib n = (n, 1, 1, math_func (l_math lib n), [TYPE_FLOAT])"

definition number_functions :: "'re clib \<Rightarrow> reg list" where
  "number_functions lib =
    [(''toint'', 1, 1, bf_toint, [TYPE_ANY]),
     (''tonum'', 1, 1, bf_toint, [TYPE_ANY]),
     (''tofloat'', 1, 1, bf_tofloat, [TYPE_ANY]),
     (''min'', 1, -1, bf_min, [TYPE_NUMERIC]),
     (''max'', 1, -1, bf_max, [TYPE_NUMERIC]),
     (''abs'', 1, 1, bf_abs, [TYPE_NUMERIC]),
     (''random'', 0, 1, bf_random (fst (l_random lib)), [TYPE_INT]),
     (''time'', 0, 0, bf_time (l_time lib), []),
     (''ctime'', 0, 1, bf_ctime (l_strftime lib) (l_time lib), [TYPE_INT]),
     (''floatstr'', 2, 3, bf_floatstr, [TYPE_FLOAT, TYPE_INT, TYPE_ANY])]
    @ map (math_function lib) [''sqrt'', ''sin'', ''cos'', ''tan'', ''asin'', ''acos'']
    @ [(''atan'', 1, 2, bf_atan (l_math lib ''atan'') (l_atan2 lib), [TYPE_FLOAT, TYPE_FLOAT])]
    @ map (math_function lib) [''sinh'', ''cosh'', ''tanh'', ''exp'', ''log'', ''log10'']
    @ [(''ceil'', 1, 1, bf_ceil, [TYPE_FLOAT]),
       (''floor'', 1, 1, bf_floor, [TYPE_FLOAT]),
       (''trunc'', 1, 1, bf_trunc, [TYPE_FLOAT])]"

definition register_all :: "reg list \<Rightarrow> 'v bf_table" where
  "register_all regs = fold register_function regs []"

section \<open>Safety of each function\<close>

text \<open>
  A value a program can pass; of a string, also that the cast in \<^verbatim>\<open>parse_number\<close> is defined.
\<close>

definition castable :: "var \<Rightarrow> bool" where
  "castable v \<longleftrightarrow> user_value v \<and> (case v of VStr s \<Rightarrow> parse_number s True \<noteq> None | _ \<Rightarrow> True)"

text \<open>A registration is safe when its function is, on what its prototype admits.\<close>

definition reg_safe :: "reg \<Rightarrow> bool" where
  "reg_safe r = (case r of (name, minargs, maxargs, f, protos) \<Rightarrow>
     0 \<le> minargs \<and> - 1 \<le> maxargs \<and> length protos = num_arg_types minargs maxargs
     \<and> (\<forall>args. admits minargs maxargs protos args \<longrightarrow> (\<forall>v \<in> set args. castable v) \<longrightarrow> f args \<noteq> Crash))"

lemma type_admits_simps [simp]:
  "type_admits TYPE_ANY t"
  "type_admits TYPE_STR (type_of v) \<longleftrightarrow> (\<exists>s. v = VStr s)"
  "type_admits TYPE_LIST (type_of v) \<longleftrightarrow> (\<exists>s. v = VList s)"
  "type_admits TYPE_INT (type_of v) \<longleftrightarrow> (\<exists>s. v = VInt s)"
  "type_admits TYPE_FLOAT (type_of v) \<longleftrightarrow> (\<exists>s. v = VFloat s)"
  "type_admits TYPE_NUMERIC (type_of v) \<longleftrightarrow> (\<exists>s. v = VInt s) \<or> (\<exists>s. v = VFloat s)"
  by (cases v; simp add: type_admits_def)+

lemma admits_1: "admits 1 1 [p] args \<longleftrightarrow> (\<exists>v. args = [v] \<and> type_admits p (type_of v))"
  by (cases args) (auto simp: admits_def)

lemma admits_2: "admits 2 2 [p, q] args \<longleftrightarrow>
    (\<exists>v w. args = [v, w] \<and> type_admits p (type_of v) \<and> type_admits q (type_of w))"
  by (cases args; cases "tl args") (auto simp: admits_def)

lemma admits_3: "admits 3 3 [p, q, r] args \<longleftrightarrow> (\<exists>v w x. args = [v, w, x]
    \<and> type_admits p (type_of v) \<and> type_admits q (type_of w) \<and> type_admits r (type_of x))"
  by (cases args; cases "tl args"; cases "tl (tl args)") (auto simp: admits_def)

lemma admits_any: "admits 0 (-1) [] args"
  by (simp add: admits_def)

lemma admits_0: "admits 0 0 [] args \<longleftrightarrow> args = []"
  by (auto simp: admits_def)

lemma admits_01: "admits 0 1 [p] args \<longleftrightarrow> args = [] \<or> (\<exists>v. args = [v] \<and> type_admits p (type_of v))"
  by (cases args) (auto simp: admits_def)

lemma admits_1_any: "admits 1 (-1) [p] args \<longleftrightarrow> (\<exists>v vs. args = v # vs \<and> type_admits p (type_of v))"
  by (cases args) (auto simp: admits_def)

lemma admits_12: "admits 1 2 [p, q] args \<longleftrightarrow>
    (\<exists>v. args = [v] \<and> type_admits p (type_of v)) \<or>
    (\<exists>v w. args = [v, w] \<and> type_admits p (type_of v) \<and> type_admits q (type_of w))"
  by (cases args; cases "tl args") (auto simp: admits_def)

lemma admits_23: "admits 2 3 [p, q, r] args \<longleftrightarrow>
    (\<exists>v w. args = [v, w] \<and> type_admits p (type_of v) \<and> type_admits q (type_of w)) \<or>
    (\<exists>v w x. args = [v, w, x] \<and> type_admits p (type_of v) \<and> type_admits q (type_of w)
       \<and> type_admits r (type_of x))"
  by (cases args; cases "tl args"; cases "tl (tl args)") (auto simp: admits_def)

lemma admits_34: "admits 3 4 [p, q, r, t] args \<longleftrightarrow>
    (\<exists>v w x. args = [v, w, x] \<and> type_admits p (type_of v) \<and> type_admits q (type_of w)
       \<and> type_admits r (type_of x)) \<or>
    (\<exists>v w x y. args = [v, w, x, y] \<and> type_admits p (type_of v) \<and> type_admits q (type_of w)
       \<and> type_admits r (type_of x) \<and> type_admits t (type_of y))"
  by (cases args; cases "tl args"; cases "tl (tl args)"; cases "tl (tl (tl args))") (auto simp: admits_def)

lemmas admits_simps = admits_0 admits_any admits_01 admits_1 admits_1_any admits_12 admits_2
  admits_23 admits_3 admits_34

section \<open>The functions of list.c\<close>

lemma castable_simps [simp]:
  "castable (VInt n)" "castable (VList vs) \<longleftrightarrow> (\<forall>v \<in> set vs. user_value v)"
  "castable (VStr s) \<longleftrightarrow> cstring s \<and> parse_number s True \<noteq> None"
  "castable (VFloat d) \<longleftrightarrow> IS_REAL d"
  by (auto simp: castable_def)

lemma castable_user: "castable v \<Longrightarrow> user_value v"
  by (simp add: castable_def)

lemma ismember_from_defined:
  "user_value v \<Longrightarrow> \<forall>w \<in> set xs. user_value w \<Longrightarrow> 0 < i \<Longrightarrow>
   \<exists>k. ismember_from v xs cm i = Some k \<and> (k = 0 \<or> i \<le> k \<and> k < i + llen xs)"
proof (induction xs arbitrary: i)
  case (Cons x xs)
  obtain b where b: "equality v x cm = Some b"
    using equality_defined [of v x cm] Cons.prems by auto
  show ?case using Cons.IH [of "i + 1"] Cons.prems b by (cases b) auto
qed simp

lemma ismember_defined:
  assumes "user_value v" "\<forall>w \<in> set xs. user_value w"
  obtains k where "ismember v xs cm = Some k" "k = 0 \<or> 1 \<le> k \<and> k \<le> llen xs"
  using ismember_from_defined [OF assms, of 1 cm] by (auto simp: ismember_def)

lemma strsub_defined: "what \<noteq> [] \<Longrightarrow> strsub source what repl cm \<noteq> None"
proof (induction source what repl cm rule: strsub.induct)
  case (1 source what repl cm)
  then show ?case by (subst strsub.simps) (auto split: list.splits)
qed

lemma strsub_no_crash: "what \<noteq> [] \<Longrightarrow> return_str (strsub source what repl cm) \<noteq> Crash"
  using strsub_defined [of what source repl cm] by auto

lemma encode_no_crash: "bf_encode_binary args \<noteq> Crash"
  by (simp add: bf_encode_binary_def split: prod.splits)

lemma substitute_no_crash: "bf_substitute [VStr t, VList ss] \<noteq> Crash"
  unfolding bf_substitute_ok by (auto split: option.splits)

lemma match_no_crash:
  assumes "cache_ok (new_pattern re_compile) cache" "cstring p"
  shows "fst (bf_match re_compile re_search cache (VStr s # VStr p # r)) \<noteq> Crash"
    "fst (bf_rmatch re_compile re_search cache (VStr s # VStr p # r)) \<noteq> Crash"
proof -
  have "fst (match_package (do_match re_compile re_search cache (VStr s # VStr p # r) b)) \<noteq> Crash" for b
  proof -
    obtain pat cache' where "get_pattern (new_pattern re_compile) p
        (length (VStr s # VStr p # r) = 3 \<and> is_true (hd r)) cache = Some (pat, cache')"
      using get_pattern_ok [OF assms] by blast
    then show ?thesis by (auto simp: do_match_def match_package_def split: var.splits)
  qed
  then show "fst (bf_match re_compile re_search cache (VStr s # VStr p # r)) \<noteq> Crash"
    "fst (bf_rmatch re_compile re_search cache (VStr s # VStr p # r)) \<noteq> Crash"
    by (simp_all add: bf_match_def bf_rmatch_def)
qed

lemma setadd_no_crash:
  "castable v \<Longrightarrow> \<forall>w \<in> set xs. user_value w \<Longrightarrow> return_list (setadd xs v) \<noteq> Crash"
  by (rule ismember_defined [of v xs False]) (auto simp: setadd_def listappend_ok castable_user)

lemma setremove_no_crash:
  assumes "castable v" "\<forall>w \<in> set xs. user_value w"
  shows "return_list (setremove xs v) \<noteq> Crash"
proof -
  obtain k where "ismember v xs False = Some k" "k = 0 \<or> 1 \<le> k \<and> k \<le> llen xs"
    using castable_user [OF assms(1)] assms(2) by (rule ismember_defined)
  then show ?thesis using listdelete_ok [of k xs] by (auto simp: setremove_def)
qed

lemma is_member_no_crash:
  "castable v \<Longrightarrow> \<forall>w \<in> set xs. user_value w \<Longrightarrow> return_int (ismember v xs True) \<noteq> Crash"
  by (rule ismember_defined [of v xs True]) (auto simp: castable_user)

lemma equal_no_crash: "castable v \<Longrightarrow> castable w \<Longrightarrow> equality v w True \<noteq> None"
  using equality_defined [of v w True] by (auto simp: castable_user)

lemma length_no_crash: "bf_length [v] \<noteq> Crash"
  by (cases v) simp_all

lemma crypt_no_crash: "bf_crypt c r1 r2 [VStr s] \<noteq> Crash" "bf_crypt c r1 r2 [VStr s, VStr t] \<noteq> Crash"
  by (cases c; simp)+

lemma list_functions_safe:
  assumes "cache_ok (new_pattern (l_re_compile lib)) (l_cache lib)"
  shows "\<forall>r \<in> set (list_functions lib). reg_safe r"
  unfolding list_functions_def
proof (simp only: list.set ball_simps, intro conjI TrueI)
qed (auto simp: reg_safe_def num_arg_types_def admits_simps list2str_ok value_to_literal_ok bf_tostr_def
  encode_no_crash substitute_no_crash match_no_crash [OF assms] castable_user setadd_no_crash
  setremove_no_crash is_member_no_crash equal_no_crash length_no_crash crypt_no_crash listinsert_ok listappend_ok
  listdelete_ok listset_ok decode_chunks_ok strsub_no_crash case_arg_def Let_def split: option.splits var.splits if_splits)

section \<open>The functions of numbers.c\<close>

text \<open>A double between \<^verbatim>\<open>INT_MIN\<close> and \<^verbatim>\<open>INT_MAX\<close> truncates to an \<^verbatim>\<open>int\<close>.\<close>

lemma dbl_of_int_bounds:
  "dbl_key (dbl_of_int (- 2147483648)) = - (1054 * 2 ^ 52)"
  "dbl_key (dbl_of_int 2147483647) = 1054 * 2 ^ 52 - 2 ^ 22"
  "\<not> dbl_is_nan (dbl_of_int (- 2147483648))" "\<not> dbl_is_nan (dbl_of_int 2147483647)"
  by code_simp+

lemma dbl_mag_fields: "dbl_mag d = 2 ^ 52 * dbl_expo d + dbl_frac d" "0 \<le> dbl_frac d" "dbl_frac d < 2 ^ 52"
  by (simp_all add: dbl_expo_def dbl_frac_def)

lemma dbl_small_trunc:
  assumes "dbl_expo d \<le> 1053"
  shows "\<bar>dbl_trunc_int d\<bar> < 2147483648"
proof -
  define k where "k = nat (- dbl_exp2 d)"
  have k: "22 \<le> k" "\<not> 0 \<le> dbl_exp2 d" using assms by (auto simp: k_def dbl_exp2_def)
  have m: "0 \<le> dbl_mant d" "dbl_mant d < 2 ^ 53"
    using dbl_mag_fields(2,3) [of d] by (auto simp: dbl_mant_def)
  have "(2 :: int) ^ 22 \<le> 2 ^ k" using k(1) by (intro power_increasing) simp_all
  then have "dbl_mant d div 2 ^ k \<le> dbl_mant d div 2 ^ 22"
    using m(1) by (intro zdiv_mono2) simp_all
  also have "\<dots> < 2 ^ 31" using m by (simp add: div_less_iff_less_mult)
  finally have "dbl_mant d div 2 ^ k < 2147483648" "0 \<le> dbl_mant d div 2 ^ k"
    using m(1) by (simp_all add: pos_imp_zdiv_nonneg_iff)
  then show ?thesis using k by (simp add: dbl_trunc_int_def Let_def k_def [symmetric])
qed

lemma int_of_double_defined:
  assumes "IS_REAL d" "\<not> dbl_lt d (dbl_of_int (- 2147483648))" "\<not> dbl_lt (dbl_of_int 2147483647) d"
  shows "int_of_double d \<noteq> None"
proof -
  have nan: "\<not> dbl_is_nan d" using assms(1) by (rule dbl_nan_or_real)
  have lo: "- (1054 * 2 ^ 52) \<le> dbl_key d" and hi: "dbl_key d \<le> 1054 * 2 ^ 52 - 2 ^ 22"
    using assms(2,3) nan by (simp_all add: dbl_lt_def dbl_of_int_bounds not_less)
  have "- 2147483648 \<le> dbl_trunc_int d \<and> dbl_trunc_int d \<le> 2147483647"
  proof (cases "dbl_expo d \<le> 1053")
    case True
    from dbl_small_trunc [OF this] show ?thesis by linarith
  next
    case False
    then have s: "dbl_sign d" using hi dbl_mag_fields [of d] by (auto simp: dbl_key_def split: if_splits)
    then have "dbl_expo d = 1054" "dbl_frac d = 0"
      using lo False dbl_mag_fields [of d] by (auto simp: dbl_key_def)
    then show ?thesis using s by (simp add: dbl_trunc_int_def dbl_exp2_def dbl_mant_def)
  qed
  with assms(1) show ?thesis by (simp add: int_of_double_def Let_def)
qed

lemma toint_no_crash:
  assumes "castable v"
  shows "bf_toint [v] \<noteq> Crash"
proof (cases v)
  case (VFloat d)
  show ?thesis
  proof (cases "dbl_lt d (dbl_of_int (- 2147483648)) \<or> dbl_lt (dbl_of_int 2147483647) d")
    case False
    then obtain n where "int_of_double d = Some n"
      using int_of_double_defined [of d] assms VFloat by auto
    with False VFloat show ?thesis by (simp add: become_integer_def)
  qed (use VFloat in \<open>simp add: become_integer_def\<close>)
qed (use assms in \<open>auto simp: become_integer_def castable_def\<close>)

lemma tofloat_no_crash: "castable v \<Longrightarrow> bf_tofloat [v] \<noteq> Crash"
  by (cases v) (auto simp: become_float_def castable_def split: prod.splits)

lemma best_no_crash:
  "bf_min (VInt n # vs) \<noteq> Crash" "bf_min (VFloat d # vs) \<noteq> Crash"
  "bf_max (VInt n # vs) \<noteq> Crash" "bf_max (VFloat d # vs) \<noteq> Crash"
  by (simp_all add: bf_min_def bf_max_def best_package_def split: prod.splits)

lemma math_no_crash: "math_package r \<noteq> Crash"
  by (simp add: math_package_def split: prod.splits)

lemma random_no_crash: "bf_random r [VInt n] \<noteq> Crash"
  by (simp add: bf_random_def)

lemma floatstr_no_crash: "bf_floatstr (VFloat d # VInt n # vs) \<noteq> Crash"
  by (simp add: Let_def)

lemma number_functions_safe: "\<forall>r \<in> set (number_functions lib). reg_safe r"
  unfolding number_functions_def
proof (simp only: list.set set_append list.set_map ball_Un ball_simps math_function_def, intro conjI TrueI)
qed (auto simp: reg_safe_def num_arg_types_def admits_simps toint_no_crash tofloat_no_crash best_no_crash
  math_no_crash random_no_crash floatstr_no_crash bf_time_def bf_ctime_def bf_ceil_def bf_floor_def Let_def
  simp del: bf_toint.simps bf_tofloat.simps bf_floatstr.simps, simp_all add: bf_random_def)

section \<open>The table meets the contract\<close>

definition reg_entry :: "reg \<Rightarrow> 'v bft_entry" where
  "reg_entry r = (case r of (name, minargs, maxargs, f, protos) \<Rightarrow>
     \<lparr>f_name = name, f_protect_str = ''protect_'' @ name, f_verb_str = ''bf_'' @ name,
      f_minargs = minargs, f_maxargs = maxargs, f_prototype = protos,
      f_func = (\<lambda>args next vdata progr. f args), f_read = None, f_protected = False\<rparr>)"

lemma register_fold:
  assumes "\<forall>r \<in> set regs. reg_safe r" "length table + length regs \<le> MAX_FUNC"
  shows "fold register_function regs table = table @ map reg_entry regs"
  using assms
proof (induction regs arbitrary: table)
  case (Cons r regs)
  obtain name minargs maxargs f protos where r: "r = (name, minargs, maxargs, f, protos)"
    by (cases r) auto
  have "register_function r table = table @ [reg_entry r]"
    using Cons.prems unfolding r
    by (auto simp: register_function_def register_common_def reg_entry_def reg_safe_def)
  then show ?case using Cons by simp
qed simp

definition builtin_table :: "'re clib \<Rightarrow> 'v bf_table" where
  "builtin_table lib = register_all (list_functions lib @ number_functions lib)"

lemma builtin_table_entries:
  assumes "cache_ok (new_pattern (l_re_compile lib)) (l_cache lib)"
  shows "builtin_table lib = map reg_entry (list_functions lib @ number_functions lib)"
  unfolding builtin_table_def register_all_def
  by (subst register_fold)
    (use list_functions_safe [OF assms] number_functions_safe [of lib] in
      \<open>auto simp: MAX_FUNC_def list_functions_def number_functions_def\<close>)

lemma reg_entry_ok:
  assumes "reg_safe r"
  shows "entry_wf (reg_entry r)"
    and "admits (f_minargs (reg_entry r)) (f_maxargs (reg_entry r)) (f_prototype (reg_entry r)) args \<Longrightarrow>
      \<forall>v \<in> set args. castable v \<Longrightarrow> f_func (reg_entry r) args 1 No_data progr \<noteq> Crash"
  using assms by (auto simp: entry_wf_def reg_entry_def reg_safe_def)

locale pattern_state =
  fixes lib :: "'re clib"
  assumes cache: "cache_ok (new_pattern (l_re_compile lib)) (l_cache lib)"
begin

lemma table_provider: "builtin_provider (builtin_table lib :: 'v bf_table) castable"
proof
  fix f :: "'v bft_entry"
  assume "f \<in> set (builtin_table lib)"
  then obtain r where r: "f = reg_entry r" "reg_safe r"
    using list_functions_safe [OF cache] number_functions_safe [of lib]
    by (auto simp: builtin_table_entries [OF cache])
  then show "entry_wf f" by (simp add: reg_entry_ok(1))
  fix args progr
  assume "admits (f_minargs f) (f_maxargs f) (f_prototype f) args" "\<forall>v \<in> set args. castable v"
  with r show "f_func f args 1 No_data progr \<noteq> Crash" using reg_entry_ok(2) by blast
qed

end

sublocale pattern_state \<subseteq> builtins: builtin_provider "builtin_table lib" castable
  by (rule table_provider)

text \<open>The state after registration, when the cache has just been set up.\<close>

interpretation start: pattern_state "lib\<lparr>l_cache := setup_pattern_cache\<rparr>" for lib :: "'re clib"
  by unfold_locales (simp add: setup_pattern_cache_ok)

section \<open>Properties\<close>


text \<open>A library to evaluate at: patterns are matched as literal text, \<^verbatim>\<open>crypt\<close> is missing.\<close>

definition plain_lib :: "string clib" where
  "plain_lib = \<lparr>l_crypt = None, l_random = (1, 2), l_re_compile = (\<lambda>p t. Some p),
     l_re_search = literal_search, l_cache = setup_pattern_cache, l_math = (\<lambda>n d. (d, NO_ERRNO)),
     l_atan2 = (\<lambda>d e. (d, NO_ERRNO)), l_strftime = (\<lambda>t. []), l_time = 0\<rparr>"

definition plain_interp :: interp where
  "plain_interp = \<lparr>i_caller = 0, i_is_wizard = (\<lambda>n. False), i_call_verb2 = (\<lambda>n v args. E_VERBNF)\<rparr>"

lemma plain_lib_cache: "cache_ok (new_pattern (l_re_compile plain_lib)) (l_cache plain_lib)"
  by (simp add: plain_lib_def setup_pattern_cache_ok)


text \<open>C26: the dispatcher runs a built-in function exactly on the argument lists its registration admits, and
  otherwise raises \<^verbatim>\<open>E_ARGS\<close> for a wrong number of arguments and \<^verbatim>\<open>E_TYPE\<close> for a wrong type, for
  every function of list.c and numbers.c that is not protected.\<close>

theorem builtin_calls_checked:
  assumes "cache_ok (new_pattern (l_re_compile lib)) (l_cache lib)" "n < length (builtin_table lib :: 'v bf_table)"
    and "i_caller env = SYSTEM_OBJECT \<or> \<not> f_protected ((builtin_table lib :: 'v bf_table) ! n)"
  shows "call_bi_func env (builtin_table lib :: 'v bf_table) n args 1 progr No_data =
    (let f = (builtin_table lib :: 'v bf_table) ! n in
     if admits (f_minargs f) (f_maxargs f) (f_prototype f) args then f_func f args 1 No_data progr
     else if f_minargs f \<le> int (length args) \<and> (f_maxargs f = -1 \<or> int (length args) \<le> f_maxargs f)
       then make_error_pack E_TYPE else make_error_pack E_ARGS)"
  using builtin_provider.call_checked
    [OF pattern_state.table_provider [OF pattern_state.intro [OF assms(1)]] assms(2,3), of args progr] .

theorem builtin_calls_checked_witness:
  "call_bi_func plain_interp (builtin_table plain_lib :: unit bf_table) 6 [VInt 1, VInt 2] 1 2 No_data
    = make_error_pack E_ARGS"
proof -
  have l: "6 < length (builtin_table plain_lib :: unit bf_table)"
    and e: "(builtin_table plain_lib :: unit bf_table) ! 6
      = reg_entry (''length'', 1, 1, bf_length, [TYPE_ANY])"
    by (simp_all add: builtin_table_entries [OF plain_lib_cache] list_functions_def)
  have "i_caller plain_interp = SYSTEM_OBJECT \<or> \<not> f_protected ((builtin_table plain_lib :: unit bf_table) ! 6)"
    by (simp add: plain_interp_def)
  from builtin_calls_checked [OF plain_lib_cache l this, of "[VInt 1, VInt 2]" 2]
  show ?thesis unfolding Let_def e by (simp add: reg_entry_def admits_def)
qed

end
