(* ===== verification/DbObjects.thy ===== *)
theory DbObjects
  imports Lists
begin

text \<open>
  db_objects.c: the table of objects and the two hierarchies threaded through it, parents with
  their \<^verbatim>\<open>child\<close>/\<^verbatim>\<open>sibling\<close> lists and locations with their \<^verbatim>\<open>contents\<close>/\<^verbatim>\<open>next\<close> lists.  An
  operation is \<open>None\<close> when the code dereferences a null or missing object, panics, or walks a list for
  more steps than there are object numbers (the list is cyclic).  The macros \<^verbatim>\<open>LL_REMOVE\<close> and
  \<^verbatim>\<open>LL_APPEND\<close> take the names of two fields; here they take a record of accessors, \<open>link_fields\<close>.
  Programs of verbs are a type parameter.
\<close>

section \<open>The state\<close>

type_synonym short = "16 word"

record 'p verbdef =
  v_name :: string
  v_program :: "'p option"
  v_owner :: objid
  v_perms :: short
  v_prep :: int

record propdef =
  pd_name :: string
  pd_hash :: unsigned

record pval =
  p_var :: var
  p_owner :: objid
  p_perms :: short

record 'p object =
  o_id :: objid
  o_owner :: objid
  o_location :: objid
  o_contents :: objid
  o_next :: objid
  o_parent :: objid
  o_child :: objid
  o_sibling :: objid
  o_name :: string
  o_flags :: int32
  o_verbdefs :: "'p verbdef list"
  o_max_propdefs :: nat              \<comment> \<open>\<^verbatim>\<open>propdefs.max_length\<close>\<close>
  o_propdefs :: "propdef list"       \<comment> \<open>the \<^verbatim>\<open>propdefs.cur_length\<close> used slots of \<^verbatim>\<open>propdefs.l\<close>\<close>
  o_propval :: "pval list"

text \<open>The verb cache of db_verbs.c; its operations are in the theory of that file.\<close>

record handle =
  h_definer :: objid
  h_verbdef :: nat                   \<comment> \<open>position in the definer's list of verbs\<close>

record vc_entry =
  vc_hash :: unsigned
  vc_oid_key :: objid
  vc_verbname :: string
  vc_h :: "handle option"

record verb_cache =
  vc_table :: "(nat \<Rightarrow> vc_entry list) option"
  vc_size :: nat
  db_verb_generation :: int32
  verbcache_hit :: int32
  verbcache_neg_hit :: int32
  verbcache_miss :: int32

record 'p db =
  objects :: "objid \<Rightarrow> 'p object option"
  num_objects :: int
  max_objects :: int
  all_users :: "var list"
  cache :: verb_cache

definition db_priv_affected_callable_verb_lookup :: "'p db \<Rightarrow> 'p db" where
  "db_priv_affected_callable_verb_lookup db =
     (case vc_table (cache db) of
        None \<Rightarrow> db
      | Some _ \<Rightarrow> db\<lparr>cache := (cache db)\<lparr>vc_table := Some (\<lambda>i. []),
          db_verb_generation := db_verb_generation (cache db) + 1\<rparr>\<rparr>)"

section \<open>Objects\<close>

definition dbpriv_find_object :: "'p db \<Rightarrow> objid \<Rightarrow> 'p object option" where
  "dbpriv_find_object db oid =
     (if oid < 0 \<or> oid \<ge> num_objects db then None else objects db oid)"

definition valid :: "'p db \<Rightarrow> objid \<Rightarrow> bool" where
  "valid db oid \<longleftrightarrow> dbpriv_find_object db oid \<noteq> None"

text \<open>\<^verbatim>\<open>objects[oid]->...\<close>: a read or an update through an object that must be there.\<close>

definition update_object ::
  "objid \<Rightarrow> ('p object \<Rightarrow> 'p object) \<Rightarrow> 'p db \<Rightarrow> 'p db option" where
  "update_object oid f db =
     (case dbpriv_find_object db oid of
        None \<Rightarrow> None
      | Some ob \<Rightarrow> Some (db\<lparr>objects := (objects db)(oid \<mapsto> f ob)\<rparr>))"

definition db_last_used_objid :: "'p db \<Rightarrow> objid" where
  "db_last_used_objid db = num_objects db - 1"

text \<open>\<open>None\<close>: every number is free and the loop reads \<^verbatim>\<open>objects[-1]\<close>.\<close>

function reset_last_used :: "(objid \<Rightarrow> 'p object option) \<Rightarrow> int \<Rightarrow> int option" where
  "reset_last_used obs n =
     (if n \<le> 0 then None else if obs (n - 1) = None then reset_last_used obs (n - 1) else Some n)"
  by pat_completeness auto
termination
  by (relation "measure (\<lambda>(_, n). nat n)") auto

declare reset_last_used.simps [simp del]

definition db_reset_last_used_objid :: "'p db \<Rightarrow> 'p db option" where
  "db_reset_last_used_objid db =
     map_option (\<lambda>n. db\<lparr>num_objects := n\<rparr>) (reset_last_used (objects db) (num_objects db))"

definition ensure_new_object :: "'p db \<Rightarrow> 'p db" where
  "ensure_new_object db =
     (let db = (if max_objects db = 0 then db\<lparr>max_objects := 100\<rparr> else db) in
      if num_objects db \<ge> max_objects db then db\<lparr>max_objects := max_objects db * 2\<rparr> else db)"

text \<open>Storing at \<^verbatim>\<open>objects[num_objects]\<close>; \<open>None\<close> when that is outside the table.\<close>

definition push_object :: "'p object option \<Rightarrow> 'p db \<Rightarrow> 'p db option" where
  "push_object ob db =
     (if 0 \<le> num_objects db \<and> num_objects db < max_objects db
      then Some (db\<lparr>objects := (objects db)(num_objects db := ob), num_objects := num_objects db + 1\<rparr>)
      else None)"

text \<open>\<open>raw\<close> is the uninitialised memory of a fresh object.\<close>

definition dbpriv_new_object :: "'p object \<Rightarrow> 'p db \<Rightarrow> (objid \<times> 'p db) option" where
  "dbpriv_new_object raw db =
     (let db = ensure_new_object db; oid = num_objects db in
      map_option (\<lambda>db. (oid, db)) (push_object (Some (raw\<lparr>o_id := oid\<rparr>)) db))"

definition dbpriv_new_recycled_object :: "'p db \<Rightarrow> 'p db option" where
  "dbpriv_new_recycled_object db = push_object None (ensure_new_object db)"

definition db_create_object :: "'p object \<Rightarrow> 'p db \<Rightarrow> (objid \<times> 'p db) option" where
  "db_create_object raw db = do {
     (oid, db) \<leftarrow> dbpriv_new_object raw db;
     db \<leftarrow> update_object oid (\<lambda>ob. ob\<lparr>o_name := [], o_flags := 0, o_parent := NOTHING,
        o_child := NOTHING, o_sibling := NOTHING, o_location := NOTHING, o_contents := NOTHING,
        o_next := NOTHING, o_propval := [], o_max_propdefs := 0, o_propdefs := [],
        o_verbdefs := []\<rparr>) db;
     Some (oid, db) }"

section \<open>Flags and users\<close>

datatype db_object_flag =
  FLAG_USER | FLAG_PROGRAMMER | FLAG_WIZARD | FLAG_OBSOLETE_1 | FLAG_READ | FLAG_WRITE
| FLAG_OBSOLETE_2 | FLAG_FERTILE

fun flag_num :: "db_object_flag \<Rightarrow> nat" where
  "flag_num FLAG_USER = 0" | "flag_num FLAG_PROGRAMMER = 1" | "flag_num FLAG_WIZARD = 2"
| "flag_num FLAG_OBSOLETE_1 = 3" | "flag_num FLAG_READ = 4" | "flag_num FLAG_WRITE = 5"
| "flag_num FLAG_OBSOLETE_2 = 6" | "flag_num FLAG_FERTILE = 7"

definition has_flag :: "'p object \<Rightarrow> db_object_flag \<Rightarrow> bool" where
  "has_flag ob f \<longleftrightarrow> o_flags ob AND push_bit (flag_num f) 1 \<noteq> 0"

definition db_object_has_flag :: "'p db \<Rightarrow> objid \<Rightarrow> db_object_flag \<Rightarrow> bool option" where
  "db_object_has_flag db oid f = map_option (\<lambda>ob. has_flag ob f) (dbpriv_find_object db oid)"

definition db_set_object_flag :: "'p db \<Rightarrow> objid \<Rightarrow> db_object_flag \<Rightarrow> 'p db option" where
  "db_set_object_flag db oid f = do {
     db \<leftarrow> update_object oid (\<lambda>ob. ob\<lparr>o_flags := o_flags ob OR push_bit (flag_num f) 1\<rparr>) db;
     if f = FLAG_USER then map_option (\<lambda>us. db\<lparr>all_users := us\<rparr>) (setadd (all_users db) (VObj oid))
     else Some db }"

definition db_clear_object_flag :: "'p db \<Rightarrow> objid \<Rightarrow> db_object_flag \<Rightarrow> 'p db option" where
  "db_clear_object_flag db oid f = do {
     db \<leftarrow> update_object oid (\<lambda>ob. ob\<lparr>o_flags := o_flags ob AND NOT (push_bit (flag_num f) 1)\<rparr>) db;
     if f = FLAG_USER then map_option (\<lambda>us. db\<lparr>all_users := us\<rparr>) (setremove (all_users db) (VObj oid))
     else Some db }"

definition valid_with :: "db_object_flag \<Rightarrow> 'p db \<Rightarrow> objid \<Rightarrow> bool" where
  "valid_with f db oid =
     (case dbpriv_find_object db oid of None \<Rightarrow> False | Some ob \<Rightarrow> has_flag ob f)"

definition is_wizard :: "'p db \<Rightarrow> objid \<Rightarrow> bool" where
  "is_wizard = valid_with FLAG_WIZARD"

definition is_programmer :: "'p db \<Rightarrow> objid \<Rightarrow> bool" where
  "is_programmer = valid_with FLAG_PROGRAMMER"

definition is_user :: "'p db \<Rightarrow> objid \<Rightarrow> bool" where
  "is_user = valid_with FLAG_USER"

definition db_object_allows :: "'p db \<Rightarrow> objid \<Rightarrow> objid \<Rightarrow> db_object_flag \<Rightarrow> bool option" where
  "db_object_allows db oid progr f =
     map_option (\<lambda>ob. progr = o_owner ob \<or> is_wizard db progr \<or> has_flag ob f)
       (dbpriv_find_object db oid)"

definition db_all_users :: "'p db \<Rightarrow> var" where
  "db_all_users db = VList (all_users db)"

definition dbpriv_set_all_users :: "var list \<Rightarrow> 'p db \<Rightarrow> 'p db" where
  "dbpriv_set_all_users v db = db\<lparr>all_users := v\<rparr>"

text \<open>Attributes read and written through the object pointer.\<close>

definition db_object_owner :: "'p db \<Rightarrow> objid \<Rightarrow> objid option" where
  "db_object_owner db oid = map_option o_owner (dbpriv_find_object db oid)"

definition db_set_object_owner :: "'p db \<Rightarrow> objid \<Rightarrow> objid \<Rightarrow> 'p db option" where
  "db_set_object_owner db oid owner = update_object oid (\<lambda>ob. ob\<lparr>o_owner := owner\<rparr>) db"

definition db_object_name :: "'p db \<Rightarrow> objid \<Rightarrow> string option" where
  "db_object_name db oid = map_option o_name (dbpriv_find_object db oid)"

definition db_set_object_name :: "'p db \<Rightarrow> objid \<Rightarrow> string \<Rightarrow> 'p db option" where
  "db_set_object_name db oid name = update_object oid (\<lambda>ob. ob\<lparr>o_name := name\<rparr>) db"

definition db_object_parent :: "'p db \<Rightarrow> objid \<Rightarrow> objid option" where
  "db_object_parent db oid = map_option o_parent (dbpriv_find_object db oid)"

definition db_object_location :: "'p db \<Rightarrow> objid \<Rightarrow> objid option" where
  "db_object_location db oid = map_option o_location (dbpriv_find_object db oid)"

section \<open>Lists threaded through the objects\<close>

text \<open>
  The loop \<^verbatim>\<open>for (c = x; c != NOTHING; c = objects[c]->next)\<close>, as the list of the values of \<open>c\<close>; at
  most as many steps as there are numbers, since more would repeat one.
\<close>

fun walk :: "(objid \<Rightarrow> objid option) \<Rightarrow> nat \<Rightarrow> objid \<Rightarrow> objid list option" where
  "walk nx n x =
     (if x = NOTHING then Some []
      else (case n of
        0 \<Rightarrow> None
      | Suc n \<Rightarrow>
          (case nx x of
             None \<Rightarrow> None
           | Some y \<Rightarrow> map_option ((#) x) (walk nx n y))))"

declare walk.simps [simp del]

definition walk_db :: "'p db \<Rightarrow> ('p object \<Rightarrow> objid) \<Rightarrow> objid \<Rightarrow> objid list option" where
  "walk_db db next = walk (\<lambda>x. map_option next (dbpriv_find_object db x)) (nat (num_objects db))"

record 'p link_fields =
  get_head :: "'p object \<Rightarrow> objid"
  set_head :: "objid \<Rightarrow> 'p object \<Rightarrow> 'p object"
  get_next :: "'p object \<Rightarrow> objid"
  set_next :: "objid \<Rightarrow> 'p object \<Rightarrow> 'p object"
  get_up :: "'p object \<Rightarrow> objid"
  set_up :: "objid \<Rightarrow> 'p object \<Rightarrow> 'p object"

definition parent_fields :: "'p link_fields" where
  "parent_fields = \<lparr>get_head = o_child, set_head = (\<lambda>x ob. ob\<lparr>o_child := x\<rparr>),
     get_next = o_sibling, set_next = (\<lambda>x ob. ob\<lparr>o_sibling := x\<rparr>),
     get_up = o_parent, set_up = (\<lambda>x ob. ob\<lparr>o_parent := x\<rparr>)\<rparr>"

definition location_fields :: "'p link_fields" where
  "location_fields = \<lparr>get_head = o_contents, set_head = (\<lambda>x ob. ob\<lparr>o_contents := x\<rparr>),
     get_next = o_next, set_next = (\<lambda>x ob. ob\<lparr>o_next := x\<rparr>),
     get_up = o_location, set_up = (\<lambda>x ob. ob\<lparr>o_location := x\<rparr>)\<rparr>"

definition members :: "'p link_fields \<Rightarrow> 'p db \<Rightarrow> objid \<Rightarrow> objid list option" where
  "members F db oid = do {
     ob \<leftarrow> dbpriv_find_object db oid;
     walk_db db (get_next F) (get_head F ob) }"

definition db_count_children :: "'p db \<Rightarrow> objid \<Rightarrow> int option" where
  "db_count_children db oid = map_option (\<lambda>cs. llen cs) (members parent_fields db oid)"

definition db_count_contents :: "'p db \<Rightarrow> objid \<Rightarrow> int option" where
  "db_count_contents db oid = map_option (\<lambda>cs. llen cs) (members location_fields db oid)"

text \<open>\<open>func\<close> folds over its data and says whether to stop.\<close>

fun for_all_members :: "('d \<Rightarrow> 'x \<Rightarrow> bool \<times> 'd) \<Rightarrow> 'd \<Rightarrow> 'x list \<Rightarrow> bool \<times> 'd" where
  "for_all_members func d [] = (False, d)"
| "for_all_members func d (c # cs) =
     (case func d c of (stop, d) \<Rightarrow> if stop then (True, d) else for_all_members func d cs)"

definition db_for_all_children ::
  "'p db \<Rightarrow> objid \<Rightarrow> ('d \<Rightarrow> objid \<Rightarrow> bool \<times> 'd) \<Rightarrow> 'd \<Rightarrow> (bool \<times> 'd) option" where
  "db_for_all_children db oid func d = map_option (for_all_members func d) (members parent_fields db oid)"

definition db_for_all_contents ::
  "'p db \<Rightarrow> objid \<Rightarrow> ('d \<Rightarrow> objid \<Rightarrow> bool \<times> 'd) \<Rightarrow> 'd \<Rightarrow> (bool \<times> 'd) option" where
  "db_for_all_contents db oid func d = map_option (for_all_members func d) (members location_fields db oid)"

text \<open>The search loops of the two macros, over the values \<open>lid\<close> takes.\<close>

fun unlink_loop :: "'p link_fields \<Rightarrow> objid \<Rightarrow> objid \<Rightarrow> nat \<Rightarrow> objid \<Rightarrow> 'p db \<Rightarrow> 'p db option" where
  "unlink_loop F what after n lid db =
     (if lid = NOTHING then Some db
      else (case n of
        0 \<Rightarrow> None
      | Suc n \<Rightarrow>
          (case dbpriv_find_object db lid of
             None \<Rightarrow> None
           | Some ob \<Rightarrow>
               if get_next F ob = what then update_object lid (set_next F after) db
               else unlink_loop F what after n (get_next F ob) db)))"

declare unlink_loop.simps [simp del]

definition LL_REMOVE :: "'p link_fields \<Rightarrow> objid \<Rightarrow> objid \<Rightarrow> 'p db \<Rightarrow> 'p db option" where
  "LL_REMOVE F where what db = do {
     w \<leftarrow> dbpriv_find_object db where;
     ob \<leftarrow> dbpriv_find_object db what;
     db \<leftarrow> (if get_head F w = what then update_object where (set_head F (get_next F ob)) db
           else unlink_loop F what (get_next F ob) (nat (num_objects db)) (get_head F w) db);
     update_object what (set_next F NOTHING) db }"

fun find_last :: "'p link_fields \<Rightarrow> 'p db \<Rightarrow> nat \<Rightarrow> objid \<Rightarrow> objid option" where
  "find_last F db n lid =
     (case dbpriv_find_object db lid of
        None \<Rightarrow> None
      | Some ob \<Rightarrow>
          if get_next F ob = NOTHING then Some lid
          else (case n of 0 \<Rightarrow> None | Suc n \<Rightarrow> find_last F db n (get_next F ob)))"

declare find_last.simps [simp del]

definition LL_APPEND :: "'p link_fields \<Rightarrow> objid \<Rightarrow> objid \<Rightarrow> 'p db \<Rightarrow> 'p db option" where
  "LL_APPEND F where what db = do {
     w \<leftarrow> dbpriv_find_object db where;
     db \<leftarrow> (if get_head F w = NOTHING then update_object where (set_head F what) db
           else do {
             lid \<leftarrow> find_last F db (nat (num_objects db)) (get_head F w);
             update_object lid (set_next F what) db });
     update_object what (set_next F NOTHING) db }"

definition db_change_location :: "objid \<Rightarrow> objid \<Rightarrow> 'p db \<Rightarrow> 'p db option" where
  "db_change_location oid location db = do {
     ob \<leftarrow> dbpriv_find_object db oid;
     let old_location = o_location ob;
     db \<leftarrow> (if valid db old_location then LL_REMOVE location_fields old_location oid db else Some db);
     db \<leftarrow> (if valid db location then LL_APPEND location_fields location oid db else Some db);
     update_object oid (\<lambda>ob. ob\<lparr>o_location := location\<rparr>) db }"


section \<open>Destroying an object\<close>

text \<open>\<open>None\<close>: the object is invalid or not a barren orphan (the code panics), or it has fewer values than
  properties of its own, which the code would read.\<close>

definition barren :: "'p object \<Rightarrow> bool" where
  "barren ob \<longleftrightarrow> o_location ob = NOTHING \<and> o_contents ob = NOTHING
     \<and> o_parent ob = NOTHING \<and> o_child ob = NOTHING"

definition db_destroy_object :: "objid \<Rightarrow> 'p db \<Rightarrow> 'p db option" where
  "db_destroy_object oid db0 =
     (let db = db_priv_affected_callable_verb_lookup db0 in
      case dbpriv_find_object db oid of
        None \<Rightarrow> None
      | Some ob \<Rightarrow>
          if \<not> barren ob \<or> length (o_propval ob) < length (o_propdefs ob) then None
          else do {
            us \<leftarrow> (if is_user db oid then setremove (all_users db) (VObj oid) else Some (all_users db));
            Some (db\<lparr>all_users := us, objects := (objects db)(oid := None)\<rparr>) })"

end
