(* ===== verification/DbProperties.thy ===== *)
theory DbProperties
  imports DbObjects
begin

text \<open>
  db_properties.c: the definitions of properties, their inherited value slots, lookup, and the
  adjustment of the slots when an object changes its parent.  An object's slots hold the values of
  its own properties first, then those of its parent's, and so on up; a slot may be clear, which
  makes lookup go on at the parent.  \<open>None\<close> is a null dereference, an access outside an array, a
  panic, or a loop over a cyclic hierarchy.
\<close>

section \<open>Properties defined by an object and its relatives\<close>

definition dbpriv_new_propdef :: "string \<Rightarrow> propdef" where
  "dbpriv_new_propdef pname = \<lparr>pd_name = pname, pd_hash = str_hash pname\<rparr>"

text \<open>
  \<^verbatim>\<open>for (o = dbpriv_find_object(oid); o; o = dbpriv_find_object(o->parent))\<close>, as the list of the
  objects \<open>o\<close> points to.
\<close>

fun up_chain :: "'p db \<Rightarrow> nat \<Rightarrow> objid \<Rightarrow> 'p object list option" where
  "up_chain db n oid =
     (case dbpriv_find_object db oid of
        None \<Rightarrow> Some []
      | Some ob \<Rightarrow>
          (case n of
             0 \<Rightarrow> None
           | Suc n \<Rightarrow> map_option ((#) ob) (up_chain db n (o_parent ob))))"

declare up_chain.simps [simp del]

definition ancestry :: "'p db \<Rightarrow> objid \<Rightarrow> 'p object list option" where
  "ancestry db oid = up_chain db (nat (num_objects db)) oid"

definition total_propdefs :: "'p object list \<Rightarrow> nat" where
  "total_propdefs obs = sum_list (map (\<lambda>ob. length (o_propdefs ob)) obs)"

definition dbpriv_count_properties :: "'p db \<Rightarrow> objid \<Rightarrow> nat option" where
  "dbpriv_count_properties db oid = map_option total_propdefs (ancestry db oid)"

text \<open>The test of every search: the hashes agree, and then the names up to case.\<close>

definition propdef_is :: "string \<Rightarrow> unsigned \<Rightarrow> propdef \<Rightarrow> bool" where
  "propdef_is pname phash d \<longleftrightarrow> pd_hash d = phash \<and> mystrcasecmp (pd_name d) pname = 0"

fun propdef_index :: "string \<Rightarrow> unsigned \<Rightarrow> propdef list \<Rightarrow> nat option" where
  "propdef_index pname phash [] = None"
| "propdef_index pname phash (d # ds) =
     (if propdef_is pname phash d then Some 0 else map_option Suc (propdef_index pname phash ds))"

fun any_of :: "('a \<Rightarrow> bool option) \<Rightarrow> 'a list \<Rightarrow> bool option" where
  "any_of f [] = Some False"
| "any_of f (x # xs) =
     (case f x of None \<Rightarrow> None | Some True \<Rightarrow> Some True | Some False \<Rightarrow> any_of f xs)"

fun fold_all :: "('a \<Rightarrow> 's \<Rightarrow> 's option) \<Rightarrow> 'a list \<Rightarrow> 's \<Rightarrow> 's option" where
  "fold_all f [] s = Some s"
| "fold_all f (x # xs) s = (case f x s of None \<Rightarrow> None | Some s \<Rightarrow> fold_all f xs s)"

text \<open>The recursion down the children; \<open>n\<close> bounds its depth.\<close>

fun defined_below :: "'p db \<Rightarrow> string \<Rightarrow> unsigned \<Rightarrow> nat \<Rightarrow> objid \<Rightarrow> bool option" where
  "defined_below db pname phash 0 oid = None"
| "defined_below db pname phash (Suc n) oid = do {
     ob \<leftarrow> dbpriv_find_object db oid;
     if propdef_index pname phash (o_propdefs ob) \<noteq> None then Some True
     else do {
       cs \<leftarrow> members parent_fields db oid;
       any_of (defined_below db pname phash n) cs } }"

definition property_defined_at_or_below :: "'p db \<Rightarrow> string \<Rightarrow> unsigned \<Rightarrow> objid \<Rightarrow> bool option" where
  "property_defined_at_or_below db pname phash oid =
     defined_below db pname phash (nat (num_objects db)) oid"

section \<open>Inserting and removing value slots\<close>

definition PF_READ :: short where "PF_READ = 0x01"
definition PF_WRITE :: short where "PF_WRITE = 0x02"
definition PF_CHOWN :: short where "PF_CHOWN = 0x04"

definition chown_slot :: "objid \<Rightarrow> pval \<Rightarrow> pval" where
  "chown_slot owner pv = (if p_perms pv AND PF_CHOWN \<noteq> 0 then pv\<lparr>p_owner := owner\<rparr> else pv)"

definition insert_prop :: "objid \<Rightarrow> nat \<Rightarrow> pval \<Rightarrow> 'p db \<Rightarrow> 'p db option" where
  "insert_prop oid pos pv db = do {
     nprops \<leftarrow> dbpriv_count_properties db oid;
     ob \<leftarrow> dbpriv_find_object db oid;
     if pos < nprops \<and> nprops \<le> length (o_propval ob) + 1
     then update_object oid (\<lambda>ob. ob\<lparr>o_propval := take pos (o_propval ob) @
       chown_slot (o_owner ob) pv # take (nprops - pos - 1) (drop pos (o_propval ob))\<rparr>) db
     else None }"

text \<open>A recursion that changes the slots of an object and goes on at its children, further along by
  the number of their own properties.\<close>

fun slots_recursively ::
  "(objid \<Rightarrow> nat \<Rightarrow> 'a \<Rightarrow> 'p db \<Rightarrow> 'p db option) \<Rightarrow> ('a \<Rightarrow> 'a) \<Rightarrow> nat \<Rightarrow> objid \<Rightarrow> nat \<Rightarrow> 'a \<Rightarrow> 'p db
   \<Rightarrow> 'p db option" where
  "slots_recursively op below 0 root root_pos a db = None"
| "slots_recursively op below (Suc n) root root_pos a db = do {
     db \<leftarrow> op root root_pos a db;
     cs \<leftarrow> members parent_fields db root;
     fold_all (\<lambda>c db. do {
        cob \<leftarrow> dbpriv_find_object db c;
        slots_recursively op below n c (length (o_propdefs cob) + root_pos) (below a) db }) cs db }"

definition insert_prop_recursively :: "objid \<Rightarrow> nat \<Rightarrow> pval \<Rightarrow> 'p db \<Rightarrow> 'p db option" where
  "insert_prop_recursively root root_pos pv db =
     slots_recursively insert_prop (\<lambda>pv. pv\<lparr>p_var := VClear\<rparr>) (nat (num_objects db)) root root_pos pv db"

definition remove_prop :: "objid \<Rightarrow> nat \<Rightarrow> 'p db \<Rightarrow> 'p db option" where
  "remove_prop oid pos db = do {
     ob \<leftarrow> dbpriv_find_object db oid;
     nprops \<leftarrow> dbpriv_count_properties db oid;
     if pos \<le> nprops \<and> nprops < length (o_propval ob)
     then update_object oid (\<lambda>ob. ob\<lparr>o_propval :=
       take pos (o_propval ob) @ take (nprops - pos) (drop (pos + 1) (o_propval ob))\<rparr>) db
     else None }"

definition remove_prop_recursively :: "objid \<Rightarrow> nat \<Rightarrow> 'p db \<Rightarrow> 'p db option" where
  "remove_prop_recursively root root_pos db =
     slots_recursively (\<lambda>oid pos _. remove_prop oid pos) id (nat (num_objects db)) root root_pos () db"

section \<open>Looking up\<close>

datatype bi_prop =
  BP_NONE | BP_NAME | BP_OWNER | BP_PROGRAMMER | BP_WIZARD | BP_R | BP_W | BP_F
| BP_LOCATION | BP_CONTENTS

definition ptable :: "(string \<times> bi_prop) list" where
  "ptable = [(''name'', BP_NAME), (''owner'', BP_OWNER), (''programmer'', BP_PROGRAMMER),
     (''wizard'', BP_WIZARD), (''r'', BP_R), (''w'', BP_W), (''f'', BP_F),
     (''location'', BP_LOCATION), (''contents'', BP_CONTENTS)]"

text \<open>
  What \<^verbatim>\<open>h.ptr\<close> points to.  Handles are volatile (db.h): the pointer to an object number goes to a
  static variable that the next lookup overwrites, and a slot moves when slots are inserted.
\<close>

datatype prop_ptr = PNull | PObjid objid | PSlot objid nat

record db_prop_handle =
  ph_built_in :: bi_prop
  ph_definer :: objid
  ph_ptr :: prop_ptr

fun find_built_in :: "string \<Rightarrow> unsigned \<Rightarrow> (string \<times> bi_prop) list \<Rightarrow> bi_prop option" where
  "find_built_in pname hash [] = None"
| "find_built_in pname hash ((s, p) # t) =
     (if str_hash s = hash \<and> mystrcasecmp pname s = 0 then Some p else find_built_in pname hash t)"

definition flag_value :: "'p db \<Rightarrow> objid \<Rightarrow> db_object_flag \<Rightarrow> var option" where
  "flag_value db oid f = map_option (\<lambda>b. VInt (if b then 1 else 0)) (db_object_has_flag db oid f)"

fun get_bi_value :: "'p db \<Rightarrow> bi_prop \<Rightarrow> objid \<Rightarrow> var option" where
  "get_bi_value db BP_NAME oid = map_option VStr (db_object_name db oid)"
| "get_bi_value db BP_OWNER oid = map_option VObj (db_object_owner db oid)"
| "get_bi_value db BP_PROGRAMMER oid = flag_value db oid FLAG_PROGRAMMER"
| "get_bi_value db BP_WIZARD oid = flag_value db oid FLAG_WIZARD"
| "get_bi_value db BP_R oid = flag_value db oid FLAG_READ"
| "get_bi_value db BP_W oid = flag_value db oid FLAG_WRITE"
| "get_bi_value db BP_F oid = flag_value db oid FLAG_FERTILE"
| "get_bi_value db BP_LOCATION oid = map_option VObj (db_object_location db oid)"
| "get_bi_value db BP_CONTENTS oid =
     map_option (\<lambda>(_, cs). VList (map VObj cs))
       (db_for_all_contents db oid (\<lambda>r c. (False, r @ [c])) [])"
| "get_bi_value db BP_NONE oid = None"

text \<open>The search up the ancestors: the definer and the slot number.\<close>

fun find_up :: "string \<Rightarrow> unsigned \<Rightarrow> nat \<Rightarrow> 'p object list \<Rightarrow> (objid \<times> nat) option" where
  "find_up pname hash n [] = None"
| "find_up pname hash n (ob # obs) =
     (case propdef_index pname hash (o_propdefs ob) of
        Some p \<Rightarrow> Some (o_id ob, n + p)
      | None \<Rightarrow> find_up pname hash (n + length (o_propdefs ob)) obs)"

text \<open>\<^verbatim>\<open>while (prop->var.type == TYPE_CLEAR)\<close>; \<open>n\<close> is the slot of \<open>prop\<close> in \<open>o\<close>.\<close>

fun clear_walk :: "'p db \<Rightarrow> nat \<Rightarrow> objid \<Rightarrow> nat \<Rightarrow> var option" where
  "clear_walk db fuel oid n = do {
     ob \<leftarrow> dbpriv_find_object db oid;
     if n < length (o_propval ob)
     then (if p_var (o_propval ob ! n) = VClear
           then (case fuel of
                   0 \<Rightarrow> None
                 | Suc fuel \<Rightarrow>
                     if length (o_propdefs ob) \<le> n
                     then clear_walk db fuel (o_parent ob) (n - length (o_propdefs ob)) else None)
           else Some (p_var (o_propval ob ! n)))
     else None }"

declare clear_walk.simps [simp del]

text \<open>The second component is what is stored through \<open>value\<close>, when \<open>want\<close> says that it is not null.\<close>

definition db_find_property ::
  "'p db \<Rightarrow> objid \<Rightarrow> string \<Rightarrow> bool \<Rightarrow> (db_prop_handle \<times> var option) option" where
  "db_find_property db oid pname want =
     (let hash = str_hash pname in
      case find_built_in pname hash ptable of
        Some p \<Rightarrow>
          let h = \<lparr>ph_built_in = p, ph_definer = NOTHING, ph_ptr = PObjid oid\<rparr> in
          if want then map_option (\<lambda>v. (h, Some v)) (get_bi_value db p oid) else Some (h, None)
      | None \<Rightarrow> do {
          obs \<leftarrow> ancestry db oid;
          case find_up pname hash 0 obs of
            None \<Rightarrow> Some (\<lparr>ph_built_in = BP_NONE, ph_definer = NOTHING, ph_ptr = PNull\<rparr>, None)
          | Some (definer, n) \<Rightarrow>
              let h = \<lparr>ph_built_in = BP_NONE, ph_definer = definer, ph_ptr = PSlot oid n\<rparr> in
              if want
              then map_option (\<lambda>v. (h, Some v)) (clear_walk db (nat (num_objects db)) oid n)
              else Some (h, None) })"

section \<open>Adding, renaming and deleting definitions\<close>

definition grow_propdefs :: "'p object \<Rightarrow> 'p object" where
  "grow_propdefs ob =
     (if length (o_propdefs ob) = o_max_propdefs ob
      then ob\<lparr>o_max_propdefs := (if o_max_propdefs ob = 0 then 8 else 2 * o_max_propdefs ob)\<rparr>
      else ob)"

text \<open>Is the name taken by an ancestor, a built-in property or a descendant?\<close>

definition name_taken :: "'p db \<Rightarrow> objid \<Rightarrow> string \<Rightarrow> bool option" where
  "name_taken db oid pname = do {
     (h, _) \<leftarrow> db_find_property db oid pname False;
     if ph_ptr h \<noteq> PNull then Some True
     else property_defined_at_or_below db pname (str_hash pname) oid }"

text \<open>\<open>None\<close> also when the new definition would be written past the capacity.\<close>

definition db_add_propdef ::
  "objid \<Rightarrow> string \<Rightarrow> var \<Rightarrow> objid \<Rightarrow> unsigned \<Rightarrow> 'p db \<Rightarrow> (bool \<times> 'p db) option" where
  "db_add_propdef oid pname v owner flags db = do {
     taken \<leftarrow> name_taken db oid pname;
     if taken then Some (False, db)
     else do {
       ob \<leftarrow> dbpriv_find_object db oid;
       let ob' = grow_propdefs ob;
       if length (o_propdefs ob') < o_max_propdefs ob' then do {
         db \<leftarrow> update_object oid (\<lambda>_. ob'\<lparr>o_propdefs := o_propdefs ob' @ [dbpriv_new_propdef pname]\<rparr>) db;
         db \<leftarrow> insert_prop_recursively oid (length (o_propdefs ob'))
                 \<lparr>p_var = v, p_owner = owner, p_perms = ucast flags\<rparr> db;
         Some (True, db) }
       else None } }"

definition db_rename_propdef :: "objid \<Rightarrow> string \<Rightarrow> string \<Rightarrow> 'p db \<Rightarrow> (bool \<times> 'p db) option" where
  "db_rename_propdef oid old new db = do {
     ob \<leftarrow> dbpriv_find_object db oid;
     case propdef_index old (str_hash old) (o_propdefs ob) of
       None \<Rightarrow> Some (False, db)
     | Some i \<Rightarrow> do {
         taken \<leftarrow> (if mystrcasecmp old new \<noteq> 0 then name_taken db oid new else Some False);
         if taken then Some (False, db)
         else map_option (Pair True)
           (update_object oid (\<lambda>ob. ob\<lparr>o_propdefs := (o_propdefs ob)[i := dbpriv_new_propdef new]\<rparr>) db) } }"

text \<open>Dropping entry \<open>i\<close> of the definitions, in a smaller block when the old one is mostly unused;
  \<open>None\<close> when the remaining ones do not fit.\<close>

definition shrink_propdefs :: "nat \<Rightarrow> 'p object \<Rightarrow> 'p object option" where
  "shrink_propdefs i ob =
     (let mx = o_max_propdefs ob; count = length (o_propdefs ob);
          defs = take i (o_propdefs ob) @ drop (i + 1) (o_propdefs ob)
      in if mx > 8 \<and> count \<le> mx * 3 div 8
         then (if count - 1 \<le> mx div 2
               then Some (ob\<lparr>o_max_propdefs := mx div 2, o_propdefs := defs\<rparr>) else None)
         else Some (ob\<lparr>o_propdefs := defs\<rparr>))"

definition db_delete_propdef :: "objid \<Rightarrow> string \<Rightarrow> 'p db \<Rightarrow> (bool \<times> 'p db) option" where
  "db_delete_propdef oid pname db = do {
     ob \<leftarrow> dbpriv_find_object db oid;
     case propdef_index pname (str_hash pname) (o_propdefs ob) of
       None \<Rightarrow> Some (False, db)
     | Some i \<Rightarrow> do {
         ob' \<leftarrow> shrink_propdefs i ob;
         db \<leftarrow> update_object oid (\<lambda>_. ob') db;
         db \<leftarrow> remove_prop_recursively oid i db;
         Some (True, db) } }"

definition db_count_propdefs :: "'p db \<Rightarrow> objid \<Rightarrow> nat option" where
  "db_count_propdefs db oid = map_option (\<lambda>ob. length (o_propdefs ob)) (dbpriv_find_object db oid)"

definition db_for_all_propdefs ::
  "'p db \<Rightarrow> objid \<Rightarrow> ('d \<Rightarrow> string \<Rightarrow> bool \<times> 'd) \<Rightarrow> 'd \<Rightarrow> (bool \<times> 'd) option" where
  "db_for_all_propdefs db oid func d =
     map_option (\<lambda>ob. for_all_members func d (map pd_name (o_propdefs ob))) (dbpriv_find_object db oid)"

section \<open>Reading and writing through a handle\<close>

definition read_slot :: "'p db \<Rightarrow> db_prop_handle \<Rightarrow> pval option" where
  "read_slot db h =
     (case ph_ptr h of
        PSlot oid n \<Rightarrow> do {
          ob \<leftarrow> dbpriv_find_object db oid;
          if n < length (o_propval ob) then Some (o_propval ob ! n) else None }
      | _ \<Rightarrow> None)"

definition write_slot :: "(pval \<Rightarrow> pval) \<Rightarrow> db_prop_handle \<Rightarrow> 'p db \<Rightarrow> 'p db option" where
  "write_slot f h db =
     (case ph_ptr h of
        PSlot oid n \<Rightarrow> do {
          ob \<leftarrow> dbpriv_find_object db oid;
          if n < length (o_propval ob)
          then update_object oid (\<lambda>ob. ob\<lparr>o_propval := (o_propval ob)[n := f (o_propval ob ! n)]\<rparr>) db
          else None }
      | _ \<Rightarrow> None)"

definition handle_objid :: "db_prop_handle \<Rightarrow> objid option" where
  "handle_objid h = (case ph_ptr h of PObjid oid \<Rightarrow> Some oid | _ \<Rightarrow> None)"

definition db_property_value :: "'p db \<Rightarrow> db_prop_handle \<Rightarrow> var option" where
  "db_property_value db h =
     (if ph_built_in h \<noteq> BP_NONE
      then Option.bind (handle_objid h) (get_bi_value db (ph_built_in h))
      else map_option p_var (read_slot db h))"

fun set_bi_value :: "bi_prop \<Rightarrow> objid \<Rightarrow> var \<Rightarrow> 'p db \<Rightarrow> 'p db option" where
  "set_bi_value BP_NAME oid v db = (case v of VStr s \<Rightarrow> db_set_object_name db oid s | _ \<Rightarrow> None)"
| "set_bi_value BP_OWNER oid v db = (case v of VObj x \<Rightarrow> db_set_object_owner db oid x | _ \<Rightarrow> None)"
| "set_bi_value BP_LOCATION oid v db = None"
| "set_bi_value BP_CONTENTS oid v db = None"
| "set_bi_value BP_NONE oid v db = None"
| "set_bi_value p oid v db =
     (let flag = (case p of BP_PROGRAMMER \<Rightarrow> FLAG_PROGRAMMER | BP_WIZARD \<Rightarrow> FLAG_WIZARD
                  | BP_R \<Rightarrow> FLAG_READ | BP_W \<Rightarrow> FLAG_WRITE | _ \<Rightarrow> FLAG_FERTILE)
      in if is_true v then db_set_object_flag db oid flag else db_clear_object_flag db oid flag)"

definition db_set_property_value :: "db_prop_handle \<Rightarrow> var \<Rightarrow> 'p db \<Rightarrow> 'p db option" where
  "db_set_property_value h v db =
     (if ph_built_in h = BP_NONE then write_slot (\<lambda>pv. pv\<lparr>p_var := v\<rparr>) h db
      else Option.bind (handle_objid h) (\<lambda>oid. set_bi_value (ph_built_in h) oid v db))"

definition db_property_owner :: "'p db \<Rightarrow> db_prop_handle \<Rightarrow> objid option" where
  "db_property_owner db h =
     (if ph_built_in h \<noteq> BP_NONE then None else map_option p_owner (read_slot db h))"

definition db_set_property_owner :: "db_prop_handle \<Rightarrow> objid \<Rightarrow> 'p db \<Rightarrow> 'p db option" where
  "db_set_property_owner h oid db =
     (if ph_built_in h \<noteq> BP_NONE then None else write_slot (\<lambda>pv. pv\<lparr>p_owner := oid\<rparr>) h db)"

definition db_property_flags :: "'p db \<Rightarrow> db_prop_handle \<Rightarrow> unsigned option" where
  "db_property_flags db h =
     (if ph_built_in h \<noteq> BP_NONE then None else map_option (\<lambda>pv. scast (p_perms pv)) (read_slot db h))"

definition db_set_property_flags :: "db_prop_handle \<Rightarrow> unsigned \<Rightarrow> 'p db \<Rightarrow> 'p db option" where
  "db_set_property_flags h flags db =
     (if ph_built_in h \<noteq> BP_NONE then None else write_slot (\<lambda>pv. pv\<lparr>p_perms := ucast flags\<rparr>) h db)"

definition db_property_allows ::
  "'p db \<Rightarrow> db_prop_handle \<Rightarrow> objid \<Rightarrow> unsigned \<Rightarrow> bool option" where
  "db_property_allows db h progr flag = do {
     flags \<leftarrow> db_property_flags db h;
     if flags AND flag \<noteq> 0 then Some True
     else do {
       owner \<leftarrow> db_property_owner db h;
       Some (progr = owner \<or> is_wizard db progr) } }"

section \<open>Changing the parent\<close>

text \<open>The slots copied from the new ancestors: clear, and owned by the object under \<open>PF_CHOWN\<close>.\<close>

definition inherit_slot :: "objid \<Rightarrow> pval \<Rightarrow> pval" where
  "inherit_slot owner pv = chown_slot owner (pv\<lparr>p_var := VClear\<rparr>)"

definition fix_slots :: "nat \<Rightarrow> nat \<Rightarrow> nat \<Rightarrow> nat \<Rightarrow> nat \<Rightarrow> pval list \<Rightarrow> 'p object \<Rightarrow> 'p object option" where
  "fix_slots parent_local local old new common pvals me =
     (if local + old + common \<le> length (o_propval me) \<and> (new = 0 \<or> parent_local + new \<le> length pvals)
      then Some (me\<lparr>o_propval := take local (o_propval me)
        @ map (inherit_slot (o_owner me)) (take new (drop parent_local pvals))
        @ take common (drop (local + old) (o_propval me))\<rparr>)
      else None)"

fun fix_props :: "nat \<Rightarrow> objid \<Rightarrow> nat \<Rightarrow> nat \<Rightarrow> nat \<Rightarrow> nat \<Rightarrow> 'p db \<Rightarrow> 'p db option" where
  "fix_props 0 oid parent_local old new common db = None"
| "fix_props (Suc n) oid parent_local old new common db = do {
     me \<leftarrow> dbpriv_find_object db oid;
     let local = parent_local + length (o_propdefs me);
     let pvals = (case dbpriv_find_object db (o_parent me) of None \<Rightarrow> [] | Some p \<Rightarrow> o_propval p);
     me' \<leftarrow> fix_slots parent_local local old new common pvals me;
     db \<leftarrow> update_object oid (\<lambda>_. me') db;
     cs \<leftarrow> members parent_fields db oid;
     fold_all (\<lambda>c. fix_props n c local old new common) cs db }"

definition dbpriv_check_properties_for_chparent :: "'p db \<Rightarrow> objid \<Rightarrow> objid \<Rightarrow> bool option" where
  "dbpriv_check_properties_for_chparent db oid new_parent = do {
     obs \<leftarrow> ancestry db new_parent;
     clash \<leftarrow> any_of (\<lambda>d. property_defined_at_or_below db (pd_name d) (pd_hash d) oid)
               (concat (map o_propdefs obs));
     Some (\<not> clash) }"

text \<open>The nearest object of the new parent's line that is also in the old parent's.\<close>

definition common_ancestor :: "objid list \<Rightarrow> objid list \<Rightarrow> objid" where
  "common_ancestor new_line old_line =
     (case List.find (\<lambda>o1. List.member old_line o1) new_line of None \<Rightarrow> NOTHING | Some c \<Rightarrow> c)"

definition dbpriv_fix_properties_after_chparent :: "objid \<Rightarrow> objid \<Rightarrow> 'p db \<Rightarrow> 'p db option" where
  "dbpriv_fix_properties_after_chparent oid old_parent db = do {
     new_parent \<leftarrow> db_object_parent db oid;
     new_line \<leftarrow> walk_db db o_parent new_parent;
     old_line \<leftarrow> walk_db db o_parent old_parent;
     let common = common_ancestor new_line old_line;
     common_props \<leftarrow> (if common \<noteq> NOTHING then dbpriv_count_properties db common else Some 0);
     old_total \<leftarrow> dbpriv_count_properties db old_parent;
     new_total \<leftarrow> dbpriv_count_properties db new_parent;
     if common_props \<le> old_total \<and> common_props \<le> new_total
     then fix_props (nat (num_objects db)) oid 0 (old_total - common_props)
            (new_total - common_props) common_props db
     else None }"

end
