(* ===== verification/DbHierarchy.thy ===== *)
theory DbHierarchy
  imports DbProperties
begin

text \<open>
  The operations of db_objects.c that need the properties: a change of parent, the renumbering of an
  object, and its size.
\<close>

section \<open>Changing the parent\<close>

definition db_change_parent :: "objid \<Rightarrow> objid \<Rightarrow> 'p db \<Rightarrow> (bool \<times> 'p db) option" where
  "db_change_parent oid parent db = do {
     ok \<leftarrow> dbpriv_check_properties_for_chparent db oid parent;
     if \<not> ok then Some (False, db)
     else do {
       ob \<leftarrow> dbpriv_find_object db oid;
       let db = (if o_child ob = NOTHING \<and> o_verbdefs ob = [] then db
                 else db_priv_affected_callable_verb_lookup db);
       let old_parent = o_parent ob;
       db \<leftarrow> (if old_parent \<noteq> NOTHING then LL_REMOVE parent_fields old_parent oid db else Some db);
       db \<leftarrow> (if parent \<noteq> NOTHING then LL_APPEND parent_fields parent oid db else Some db);
       db \<leftarrow> update_object oid (\<lambda>ob. ob\<lparr>o_parent := parent\<rparr>) db;
       db \<leftarrow> dbpriv_fix_properties_after_chparent oid old_parent db;
       Some (True, db) } }"

section \<open>Renumbering\<close>

text \<open>The walk of \<^verbatim>\<open>oidp\<close> to the link that holds \<open>old\<close>; \<open>None\<close> when there is none (the code panics).\<close>

fun relink_loop :: "'p link_fields \<Rightarrow> objid \<Rightarrow> objid \<Rightarrow> nat \<Rightarrow> objid \<Rightarrow> 'p db \<Rightarrow> 'p db option" where
  "relink_loop F old new n lid db =
     (if lid = NOTHING then None
      else (case dbpriv_find_object db lid of
        None \<Rightarrow> None
      | Some ob \<Rightarrow>
          if get_next F ob = old then update_object lid (set_next F new) db
          else (case n of 0 \<Rightarrow> None | Suc n \<Rightarrow> relink_loop F old new n (get_next F ob) db)))"

declare relink_loop.simps [simp del]

definition relink :: "'p link_fields \<Rightarrow> objid \<Rightarrow> objid \<Rightarrow> objid \<Rightarrow> 'p db \<Rightarrow> 'p db option" where
  "relink F where old new db = do {
     w \<leftarrow> dbpriv_find_object db where;
     if get_head F w = old then update_object where (set_head F new) db
     else relink_loop F old new (nat (num_objects db)) (get_head F w) db }"

text \<open>\<open>o\<close> is the renumbered object; its members get their new owner after its own link is fixed.\<close>

definition fix_hierarchy :: "'p link_fields \<Rightarrow> objid \<Rightarrow> objid \<Rightarrow> 'p db \<Rightarrow> 'p db option" where
  "fix_hierarchy F old new db = do {
     ob \<leftarrow> dbpriv_find_object db new;
     db \<leftarrow> (if get_up F ob \<noteq> NOTHING then relink F (get_up F ob) old new db else Some db);
     cs \<leftarrow> members F db new;
     fold_all (\<lambda>c. update_object c (set_up F new)) cs db }"

text \<open>An entry that is no object has no \<^verbatim>\<open>v.obj\<close>.\<close>

fun rename_user :: "objid \<Rightarrow> objid \<Rightarrow> var list \<Rightarrow> var list option" where
  "rename_user old new [] = Some []"
| "rename_user old new (u # us) =
     (case u of
        VObj x \<Rightarrow> if x = old then Some (VObj new # us) else map_option ((#) u) (rename_user old new us)
      | _ \<Rightarrow> None)"

definition renumber_owner :: "objid \<Rightarrow> objid \<Rightarrow> objid \<Rightarrow> objid" where
  "renumber_owner old new x = (if x = new then NOTHING else if x = old then new else x)"

definition fix_owners :: "objid \<Rightarrow> objid \<Rightarrow> objid \<Rightarrow> 'p db \<Rightarrow> 'p db option" where
  "fix_owners old new oid db =
     (case dbpriv_find_object db oid of
        None \<Rightarrow> Some db
      | Some ob \<Rightarrow> do {
          count \<leftarrow> dbpriv_count_properties db oid;
          if count \<le> length (o_propval ob)
          then update_object oid (\<lambda>ob. ob\<lparr>o_owner := renumber_owner old new (o_owner ob),
            o_verbdefs := map (\<lambda>v. v\<lparr>v_owner := renumber_owner old new (v_owner v)\<rparr>) (o_verbdefs ob),
            o_propval := map (\<lambda>p. p\<lparr>p_owner := renumber_owner old new (p_owner p)\<rparr>)
                (take count (o_propval ob)) @ drop count (o_propval ob)\<rparr>) db
          else None })"

definition change_identity :: "objid \<Rightarrow> objid \<Rightarrow> 'p db \<Rightarrow> 'p db option" where
  "change_identity old new db = do {
     ob \<leftarrow> dbpriv_find_object db old;
     Some (db\<lparr>objects := (objects db)(old := None, new \<mapsto> ob\<lparr>o_id := new\<rparr>)\<rparr>) }"

definition db_renumber_object :: "objid \<Rightarrow> 'p db \<Rightarrow> (objid \<times> 'p db) option" where
  "db_renumber_object old db =
     (let db = db_priv_affected_callable_verb_lookup db in
      case List.find (\<lambda>n. objects db n = None) [0..old - 1] of
        None \<Rightarrow> Some (old, db)
      | Some new \<Rightarrow> do {
          db \<leftarrow> change_identity old new db;
          db \<leftarrow> fix_hierarchy parent_fields old new db;
          db \<leftarrow> fix_hierarchy location_fields old new db;
          us \<leftarrow> (if is_user db new then rename_user old new (all_users db) else Some (all_users db));
          db \<leftarrow> fold_all (fix_owners old new) [0..num_objects db - 1] (db\<lparr>all_users := us\<rparr>);
          Some (new, db) })"

section \<open>Size\<close>

text \<open>\<^verbatim>\<open>sizeof\<close> on the 64-bit platforms; the size of a program is a parameter.\<close>

definition sizeof_Object :: int where "sizeof_Object = 80"
definition sizeof_pointer :: int where "sizeof_pointer = 8"
definition sizeof_Verbdef :: int where "sizeof_Verbdef = 32"
definition sizeof_Propdef :: int where "sizeof_Propdef = 16"
definition sizeof_Pval :: int where "sizeof_Pval = 24"

definition verbdef_bytes :: "('p \<Rightarrow> int) \<Rightarrow> 'p verbdef \<Rightarrow> int" where
  "verbdef_bytes program_bytes v = sizeof_Verbdef + (llen (v_name v) + 1)
     + (case v_program v of None \<Rightarrow> 0 | Some p \<Rightarrow> program_bytes p)"

definition db_object_bytes :: "('p \<Rightarrow> int) \<Rightarrow> 'p db \<Rightarrow> objid \<Rightarrow> int option" where
  "db_object_bytes program_bytes db oid = do {
     ob \<leftarrow> dbpriv_find_object db oid;
     len \<leftarrow> dbpriv_count_properties db oid;
     if len \<le> length (o_propval ob)
     then Some (sizeof_Object + sizeof_pointer + (llen (o_name ob) + 1)
       + sum_list (map (verbdef_bytes program_bytes) (o_verbdefs ob))
       + sizeof_Propdef * llen (o_propdefs ob)
       + sum_list (map (\<lambda>d. llen (pd_name d) + 1) (o_propdefs ob))
       + (sizeof_Pval - sizeof_Var) * int len
       + sum_list (map (\<lambda>p. value_bytes (p_var p)) (take len (o_propval ob))))
     else None }"

end
