(* ===== verification/DbForest.thy ===== *)
theory DbForest
  imports DbHierarchy
begin

text \<open>
  The lists threaded through the objects.  A locale states the laws of the accessors of one hierarchy
  (the three fields are independent), proves what \<^verbatim>\<open>LL_REMOVE\<close> and \<^verbatim>\<open>LL_APPEND\<close> do to the lists of
  members, and is interpreted on the two hierarchies of the code.
\<close>

section \<open>Updates\<close>

definition upd :: "objid \<Rightarrow> 'p object \<Rightarrow> 'p db \<Rightarrow> 'p db" where
  "upd x ob db = db\<lparr>objects := (objects db)(x \<mapsto> ob)\<rparr>"

lemma update_object_upd: "dbpriv_find_object db x = Some ob \<Longrightarrow> update_object x f db = Some (upd x (f ob) db)"
  by (simp add: update_object_def upd_def)

lemma find_upd [simp]:
  "dbpriv_find_object db x = Some ob0 \<Longrightarrow>
     dbpriv_find_object (upd x ob db) y = (if y = x then Some ob else dbpriv_find_object db y)"
  by (auto simp: dbpriv_find_object_def upd_def split: if_splits)

lemma upd_rest [simp]:
  "num_objects (upd x ob db) = num_objects db" "max_objects (upd x ob db) = max_objects db"
  "all_users (upd x ob db) = all_users db" "cache (upd x ob db) = cache db"
  by (simp_all add: upd_def)

lemma find_update_rest [simp]:
  "dbpriv_find_object (db\<lparr>all_users := us\<rparr>) x = dbpriv_find_object db x"
  "dbpriv_find_object (db\<lparr>cache := c\<rparr>) x = dbpriv_find_object db x"
  "dbpriv_find_object (db\<lparr>max_objects := n\<rparr>) x = dbpriv_find_object db x"
  by (simp_all add: dbpriv_find_object_def)

lemma affected_rest [simp]:
  "dbpriv_find_object (db_priv_affected_callable_verb_lookup db) x = dbpriv_find_object db x"
  "objects (db_priv_affected_callable_verb_lookup db) = objects db"
  "num_objects (db_priv_affected_callable_verb_lookup db) = num_objects db"
  "max_objects (db_priv_affected_callable_verb_lookup db) = max_objects db"
  "all_users (db_priv_affected_callable_verb_lookup db) = all_users db"
  by (simp_all add: db_priv_affected_callable_verb_lookup_def split: option.split)

lemma find_range: "dbpriv_find_object db x = Some ob \<Longrightarrow> 0 \<le> x \<and> x < num_objects db"
  by (simp add: dbpriv_find_object_def split: if_splits)

lemma not_nothing: "dbpriv_find_object db x = Some ob \<Longrightarrow> x \<noteq> -1"
  by (auto dest: find_range)

lemma valid_iff: "valid db x \<longleftrightarrow> (\<exists>ob. dbpriv_find_object db x = Some ob)"
  by (simp add: valid_def)

text \<open>Nothing but what \<open>g\<close> forgets has changed.\<close>

definition same_but :: "('p object \<Rightarrow> 'b) \<Rightarrow> 'p db \<Rightarrow> 'p db \<Rightarrow> bool" where
  "same_but g db db' \<longleftrightarrow> num_objects db' = num_objects db \<and> max_objects db' = max_objects db
     \<and> all_users db' = all_users db \<and> cache db' = cache db
     \<and> (\<forall>y. map_option g (dbpriv_find_object db' y) = map_option g (dbpriv_find_object db y))"

lemma same_but_refl [simp]: "same_but g db db"
  by (simp add: same_but_def)

lemma same_but_trans: "same_but g a b \<Longrightarrow> same_but g b c \<Longrightarrow> same_but g a c"
  by (simp add: same_but_def)

lemma same_but_upd:
  "dbpriv_find_object db x = Some ob \<Longrightarrow> g ob' = g ob \<Longrightarrow> same_but g db (upd x ob' db)"
  by (auto simp: same_but_def)

lemma same_but_coarser:
  assumes "same_but g db db'" "\<And>ob. h ob = k (g ob)"
  shows "same_but h db db'"
proof -
  have "map_option h z = map_option k (map_option g z)" for z
    using assms(2) by (cases z) simp_all
  then show ?thesis using assms(1) by (simp add: same_but_def)
qed

lemma same_but_find:
  assumes "same_but g db db'" "dbpriv_find_object db x = Some ob"
  obtains ob' where "dbpriv_find_object db' x = Some ob'" "g ob' = g ob"
  using assms by (auto simp: same_but_def dest!: spec [of _ x])

lemma same_but_valid: "same_but g db db' \<Longrightarrow> valid db' x = valid db x"
  unfolding same_but_def valid_def by (metis option.map_disc_iff)

section \<open>Chains\<close>

fun chain :: "(objid \<Rightarrow> objid option) \<Rightarrow> objid \<Rightarrow> objid list \<Rightarrow> bool" where
  "chain nx x [] \<longleftrightarrow> x = NOTHING"
| "chain nx x (y # ys) \<longleftrightarrow> x = y \<and> x \<noteq> NOTHING \<and> (\<exists>z. nx x = Some z \<and> chain nx z ys)"

lemma chain_unique: "chain nx x xs \<Longrightarrow> chain nx x ys \<Longrightarrow> xs = ys"
proof (induction xs arbitrary: x ys)
  case Nil
  then show ?case by (cases ys) auto
next
  case (Cons a xs)
  then show ?case by (cases ys) auto
qed

lemma chain_suffix: "chain nx x (as @ y # bs) \<Longrightarrow> chain nx y (y # bs)"
  by (induction as arbitrary: x) auto

lemma chain_distinct: "chain nx x xs \<Longrightarrow> distinct xs"
proof (induction xs arbitrary: x)
  case (Cons y ys)
  have "y \<notin> set ys"
  proof
    assume "y \<in> set ys"
    then obtain as bs where ys: "ys = as @ y # bs" by (meson split_list)
    then have "chain nx y (y # bs)" "chain nx y (y # as @ y # bs)"
      using Cons.prems chain_suffix [of nx x "y # as" y bs] by auto
    then show False using chain_unique by fastforce
  qed
  then show ?case using Cons by auto
qed simp

lemma chain_fun_upd: "y \<notin> set xs \<Longrightarrow> chain (nx(y := v)) x xs = chain nx x xs"
  by (induction xs arbitrary: x) auto

lemma chain_cong: "(\<And>y. y \<in> set xs \<Longrightarrow> nx' y = nx y) \<Longrightarrow> chain nx' x xs = chain nx x xs"
  by (induction xs arbitrary: x) auto

lemma chain_defined: "chain nx x xs \<Longrightarrow> y \<in> set xs \<Longrightarrow> nx y \<noteq> None"
  by (induction xs arbitrary: x) auto

lemma chain_unlink:
  assumes "chain nx x (as @ a # w # bs)" "chain nx after bs"
  shows "chain (nx(a := Some after)) x (as @ a # bs)"
  using assms chain_distinct [OF assms(1)]
proof (induction as arbitrary: x)
  case Nil
  then have "chain (nx(a := Some after)) after bs"
    using chain_fun_upd [of a bs nx "Some after" after] by simp
  then show ?case using Nil by (auto simp: fun_upd_def)
qed auto

lemma chain_link:
  assumes "chain nx x (as @ [a])" "w \<notin> set (as @ [a])" "w \<noteq> NOTHING"
  shows "chain (nx(a := Some w, w := Some NOTHING)) x (as @ [a, w])"
  using assms chain_distinct [OF assms(1)]
  by (induction as arbitrary: x) auto

lemma walk_chain: "chain nx x xs \<Longrightarrow> length xs \<le> n \<Longrightarrow> walk nx n x = Some xs"
proof (induction xs arbitrary: x n)
  case (Cons y ys)
  then obtain z m where "n = Suc m" "nx y = Some z" "chain nx z ys" "x = y" "y \<noteq> NOTHING" "length ys \<le> m"
    by (cases n) auto
  then show ?case using Cons.IH by (subst walk.simps) simp
qed (subst walk.simps, simp)

lemma chain_walk: "walk nx n x = Some xs \<Longrightarrow> chain nx x xs"
proof (induction xs arbitrary: x n)
  case Nil
  then show ?case by (simp add: walk.simps [of nx n x] split: if_splits nat.splits option.splits)
next
  case (Cons y ys)
  show ?case
    using Cons.prems Cons.IH unfolding walk.simps [of nx n x]
    by (auto split: if_splits nat.splits option.splits)
qed

text \<open>A field as a partial function on numbers, for a chain over it.\<close>

definition field :: "('p object \<Rightarrow> 'b) \<Rightarrow> 'p db \<Rightarrow> objid \<Rightarrow> 'b option" where
  "field f db x = map_option f (dbpriv_find_object db x)"

lemma field_Some: "field f db x = Some y \<longleftrightarrow> (\<exists>ob. dbpriv_find_object db x = Some ob \<and> f ob = y)"
  by (auto simp: field_def)

lemma field_upd:
  "dbpriv_find_object db x = Some ob0 \<Longrightarrow> field f (upd x ob db) = (field f db)(x := Some (f ob))"
  by (rule ext) (simp add: field_def)

lemma chain_valid: "chain (field f db) x xs \<Longrightarrow> y \<in> set xs \<Longrightarrow> valid db y"
  using chain_defined [of "field f db" x xs y] by (simp add: field_def valid_def)

lemma chain_length:
  assumes "chain (field f db) x xs"
  shows "length xs \<le> nat (num_objects db)"
proof -
  have "set xs \<subseteq> {0..<num_objects db}"
    using chain_valid [OF assms] find_range by (fastforce simp: valid_iff)
  then have "card (set xs) \<le> nat (num_objects db)"
    using card_mono [of "{0..<num_objects db}" "set xs"] by simp
  then show ?thesis using distinct_card [OF chain_distinct [OF assms]] by simp
qed

lemma walk_db_chain: "walk_db db f x = Some xs \<longleftrightarrow> chain (field f db) x xs"
proof -
  have e: "walk_db db f x = walk (field f db) (nat (num_objects db)) x"
    unfolding walk_db_def field_def ..
  show ?thesis
    unfolding e using walk_chain [of "field f db" x xs] chain_walk chain_length [of f db x xs] by blast
qed


section \<open>Hierarchies\<close>

text \<open>
  \<open>ks\<close> gives the members of every object: their list hangs from its head, and no object is in two
  lists.  In a hierarchy the members are exactly the objects that point up to it.
\<close>

definition linked :: "'p link_fields \<Rightarrow> 'p db \<Rightarrow> (objid \<Rightarrow> objid list) \<Rightarrow> bool" where
  "linked F db ks \<longleftrightarrow>
     (\<forall>p ob. dbpriv_find_object db p = Some ob \<longrightarrow> chain (field (get_next F) db) (get_head F ob) (ks p))
     \<and> (\<forall>p q c. valid db p \<longrightarrow> valid db q \<longrightarrow> c \<in> set (ks p) \<longrightarrow> c \<in> set (ks q) \<longrightarrow> p = q)"

definition points_up :: "'p link_fields \<Rightarrow> 'p db \<Rightarrow> (objid \<Rightarrow> objid list) \<Rightarrow> bool" where
  "points_up F db ks \<longleftrightarrow>
     (\<forall>p c. valid db p \<longrightarrow> (c \<in> set (ks p) \<longleftrightarrow> field (get_up F) db c = Some p))
     \<and> (\<forall>x p. field (get_up F) db x = Some p \<longrightarrow> p = NOTHING \<or> valid db p)"

definition hierarchy :: "'p link_fields \<Rightarrow> 'p db \<Rightarrow> (objid \<Rightarrow> objid list) \<Rightarrow> bool" where
  "hierarchy F db ks \<longleftrightarrow> linked F db ks \<and> points_up F db ks"

text \<open>Every line of owners ends, so that no object is above itself.\<close>

definition rooted :: "'p link_fields \<Rightarrow> 'p db \<Rightarrow> bool" where
  "rooted F db \<longleftrightarrow> (\<forall>x. valid db x \<longrightarrow> (\<exists>xs. chain (field (get_up F) db) x xs))"

lemma linkedD:
  assumes "linked F db ks"
  shows "dbpriv_find_object db p = Some ob \<Longrightarrow> chain (field (get_next F) db) (get_head F ob) (ks p)"
    and "valid db p \<Longrightarrow> valid db q \<Longrightarrow> c \<in> set (ks p) \<Longrightarrow> c \<in> set (ks q) \<Longrightarrow> p = q"
  using assms by (auto simp: linked_def)

lemma linked_cong:
  assumes "\<And>q. valid db q \<Longrightarrow> ks' q = ks q"
  shows "linked F db ks' = linked F db ks"
proof -
  have "dbpriv_find_object db p = Some ob \<Longrightarrow> ks' p = ks p" for p ob
    using assms by (simp add: valid_iff)
  then show ?thesis using assms unfolding linked_def by (simp cong: conj_cong imp_cong)
qed

lemma valid_not_nothing: "valid db x \<Longrightarrow> x \<noteq> NOTHING"
  by (auto simp: valid_iff dest: not_nothing)

lemma hierarchy_members:
  assumes "hierarchy F db ks" "valid db p"
  shows "members F db p = Some (ks p)"
  using assms by (auto simp: hierarchy_def linked_def members_def valid_iff walk_db_chain)

lemma hierarchy_distinct:
  assumes "hierarchy F db ks" "valid db p"
  shows "distinct (ks p)"
  using assms chain_distinct by (fastforce simp: hierarchy_def linked_def valid_iff)

lemma hierarchy_member_valid:
  assumes "hierarchy F db ks" "valid db p" "c \<in> set (ks p)"
  shows "valid db c"
  using assms chain_valid by (fastforce simp: hierarchy_def linked_def valid_iff)

definition strip_links :: "'p link_fields \<Rightarrow> 'p object \<Rightarrow> 'p object" where
  "strip_links F ob = set_head F 0 (set_next F 0 ob)"

definition strip_all :: "'p link_fields \<Rightarrow> 'p object \<Rightarrow> 'p object" where
  "strip_all F ob = set_up F 0 (strip_links F ob)"

text \<open>The members after \<open>x\<close> has gone to the end of the list of \<open>p\<close>.\<close>

definition move :: "objid \<Rightarrow> objid \<Rightarrow> (objid \<Rightarrow> objid list) \<Rightarrow> objid \<Rightarrow> objid list" where
  "move x p ks q = (if q = p then remove1 x (ks q) @ [x] else remove1 x (ks q))"

locale link_laws =
  fixes F :: "'p link_fields"
  assumes head_set [simp]: "get_head F (set_head F v ob) = v"
      "get_head F (set_next F v ob) = get_head F ob" "get_head F (set_up F v ob) = get_head F ob"
    and next_set [simp]: "get_next F (set_next F v ob) = v"
      "get_next F (set_head F v ob) = get_next F ob" "get_next F (set_up F v ob) = get_next F ob"
    and up_set [simp]: "get_up F (set_up F v ob) = v"
      "get_up F (set_head F v ob) = get_up F ob" "get_up F (set_next F v ob) = get_up F ob"
    and strip_set [simp]: "strip_links F (set_head F v ob) = strip_links F ob"
      "strip_links F (set_next F v ob) = strip_links F ob"
      "strip_all F (set_up F v ob) = strip_all F ob"
begin

lemma strip_up [simp]: "get_up F (strip_links F ob) = get_up F ob"
  by (simp add: strip_links_def)

lemma same_links_up:
  "same_but (strip_links F) db db' \<Longrightarrow> field (get_up F) db' = field (get_up F) db"
  using same_but_coarser [of "strip_links F" db db' "get_up F" "get_up F"]
  by (auto simp: same_but_def field_def)

text \<open>An update of the links of one object, seen by the chains.\<close>

lemma find_last_chain:
  "chain (field (get_next F) db) x (as @ [a]) \<Longrightarrow> length as \<le> n \<Longrightarrow> find_last F db n x = Some a"
proof (induction as arbitrary: x n)
  case Nil
  then show ?case by (subst find_last.simps) (auto simp: field_def)
next
  case (Cons b as)
  then obtain m where n: "n = Suc m" by (cases n) auto
  obtain ob where ob: "dbpriv_find_object db b = Some ob"
      "chain (field (get_next F) db) (get_next F ob) (as @ [a])" "x = b"
    using Cons.prems by (auto simp: field_Some)
  then have "get_next F ob \<noteq> NOTHING" by (cases as) auto
  then show ?case using Cons ob n by (subst find_last.simps) simp
qed

lemma unlink_loop_chain:
  assumes "dbpriv_find_object db a = Some oa"
  shows "chain (field (get_next F) db) x (as @ a # w # bs) \<Longrightarrow> length as < n \<Longrightarrow>
    unlink_loop F w after n x db = Some (upd a (set_next F after oa) db)"
proof (induction as arbitrary: x n)
  case Nil
  then obtain m where "n = Suc m" by (cases n) auto
  then show ?case
    using Nil assms by (subst unlink_loop.simps) (auto simp: field_def update_object_upd)
next
  case (Cons b as)
  then obtain m where n: "n = Suc m" by (cases n) auto
  obtain ob where ob: "dbpriv_find_object db b = Some ob" "x = b" "b \<noteq> NOTHING"
      "chain (field (get_next F) db) (get_next F ob) (as @ a # w # bs)"
    using Cons.prems by (auto simp: field_Some)
  have "get_next F ob \<noteq> w"
    using ob(4) chain_distinct [OF ob(4)] by (cases as) auto
  then show ?case using Cons ob n by (subst unlink_loop.simps) simp
qed

lemma linked_upd:
  assumes "linked F db ks" "dbpriv_find_object db x = Some ob"
    and "\<And>q obq. q \<noteq> x \<Longrightarrow> dbpriv_find_object db q = Some obq \<Longrightarrow>
      chain ((field (get_next F) db)(x := Some (get_next F ob'))) (get_head F obq) (ks' q)"
    and "chain ((field (get_next F) db)(x := Some (get_next F ob'))) (get_head F ob') (ks' x)"
    and "\<And>p q c. valid db p \<Longrightarrow> valid db q \<Longrightarrow> c \<in> set (ks' p) \<Longrightarrow> c \<in> set (ks' q) \<Longrightarrow> p = q"
  shows "linked F (upd x ob' db) ks'"
proof -
  have v: "valid (upd x ob' db) p = valid db p" for p
    using assms(2) by (auto simp: valid_def)
  show ?thesis
    unfolding linked_def v using assms by (auto simp: field_upd split: if_splits)
qed

text \<open>An object in no list may have any link.\<close>

lemma linked_set_next:
  assumes "linked F db ks" "dbpriv_find_object db x = Some ob"
    and "\<And>q. valid db q \<Longrightarrow> x \<notin> set (ks q)"
  shows "linked F (upd x (set_next F v ob) db) ks"
proof (rule linked_upd [OF assms(1,2)])
  show "chain ((field (get_next F) db)(x \<mapsto> get_next F (set_next F v ob))) (get_head F obq) (ks q)"
    if "q \<noteq> x" "dbpriv_find_object db q = Some obq" for q obq
    using linkedD(1) [OF assms(1) that(2)] assms(3) [of q] that(2)
    by (simp add: chain_fun_upd valid_iff)
  show "chain ((field (get_next F) db)(x \<mapsto> get_next F (set_next F v ob)))
      (get_head F (set_next F v ob)) (ks x)"
    using linkedD(1) [OF assms(1,2)] assms(2,3) by (simp add: chain_fun_upd valid_iff)
qed (use linkedD(2) [OF assms(1)] in blast)

lemma LL_REMOVE_ok:
  assumes "linked F db ks" "valid db p" "x \<in> set (ks p)"
  obtains db' where "LL_REMOVE F p x db = Some db'"
    "linked F db' (ks(p := remove1 x (ks p)))" "same_but (strip_links F) db db'"
proof -
  obtain op where op: "dbpriv_find_object db p = Some op" using assms(2) by (auto simp: valid_iff)
  note ch = linkedD(1) [OF assms(1) op]
  have dist: "distinct (ks p)" using chain_distinct [OF ch] .
  obtain ox where ox: "dbpriv_find_object db x = Some ox"
    using chain_valid [OF ch assms(3)] by (auto simp: valid_iff)
  let ?ks = "ks(p := remove1 x (ks p))"
  have notin: "x \<notin> set (?ks q)" if "valid db q" for q
    using dist linkedD(2) [OF assms(1) assms(2) that assms(3)] by auto
  have disj: "p1 = q" if "valid db p1" "valid db q" "c \<in> set (?ks p1)" "c \<in> set (?ks q)" for p1 q c
    using linkedD(2) [OF assms(1) that(1,2), of c] that(3,4)
    by (auto split: if_splits dest: notin_set_remove1 set_mp [OF set_remove1_subset])
  have "\<exists>db1. (if get_head F op = x then update_object p (set_head F (get_next F ox)) db
          else unlink_loop F x (get_next F ox) (nat (num_objects db)) (get_head F op) db) = Some db1
      \<and> linked F db1 ?ks \<and> same_but (strip_links F) db db1"
  proof (cases "get_head F op = x")
    case True
    obtain bs where bs: "ks p = x # bs" "chain (field (get_next F) db) (get_next F ox) bs"
      using ch assms(3) ox True by (cases "ks p") (auto simp: field_def)
    have same: "(field (get_next F) db)(p \<mapsto> get_next F (set_head F v op)) = field (get_next F) db" for v
      using op by (auto simp: field_def)
    have "linked F (upd p (set_head F (get_next F ox) op) db) ?ks"
      using linkedD(1) [OF assms(1)] bs disj unfolding same [symmetric]
      by (intro linked_upd [OF assms(1) op]) (simp_all only: same fun_upd_apply, auto)
    then show ?thesis
      using True op by (simp add: update_object_upd same_but_upd)
  next
    case False
    obtain as bs where split: "ks p = as @ x # bs" using assms(3) by (meson split_list)
    have "as \<noteq> []" using False ch split by auto
    then obtain cs a where as: "as = cs @ [a]" by (meson rev_exhaust)
    have ks: "ks p = cs @ a # x # bs" using split as by simp
    obtain oa where oa: "dbpriv_find_object db a = Some oa"
      using chain_valid [OF ch, of a] ks by (auto simp: valid_iff)
    have after: "chain (field (get_next F) db) (get_next F ox) bs"
      using chain_suffix [of "field (get_next F) db" "get_head F op" "cs @ [a]" x bs] ch ks ox
      by (auto simp: field_Some)
    have rem: "remove1 x (ks p) = cs @ a # bs" using dist ks by (simp add: remove1_append)
    have un: "unlink_loop F x (get_next F ox) (nat (num_objects db)) (get_head F op) db
        = Some (upd a (set_next F (get_next F ox) oa) db)"
      using chain_length [OF ch] ch ks by (intro unlink_loop_chain [OF oa]) auto
    have other: "chain ((field (get_next F) db)(a := Some v)) (get_head F obq) (ks q)"
      if "q \<noteq> p" "dbpriv_find_object db q = Some obq" for q obq v
    proof -
      have "a \<notin> set (ks q)"
        using linkedD(2) [OF assms(1) assms(2), of q a] that ks by (auto simp: valid_iff)
      then show ?thesis using linkedD(1) [OF assms(1) that(2)] by (simp add: chain_fun_upd)
    qed
    have this_one: "chain ((field (get_next F) db)(a := Some (get_next F ox))) (get_head F op) (cs @ a # bs)"
      using chain_unlink [of _ _ cs a x bs] ch after ks by simp
    have "linked F (upd a (set_next F (get_next F ox) oa) db) ?ks"
    proof (rule linked_upd [OF assms(1) oa])
      show "chain ((field (get_next F) db)(a \<mapsto> get_next F (set_next F (get_next F ox) oa)))
          (get_head F obq) (?ks q)" if "q \<noteq> a" "dbpriv_find_object db q = Some obq" for q obq
        using other [OF _ that(2)] this_one rem op that(2) by (cases "q = p") simp_all
      show "chain ((field (get_next F) db)(a \<mapsto> get_next F (set_next F (get_next F ox) oa)))
          (get_head F (set_next F (get_next F ox) oa)) (?ks a)"
        using other [of a oa] this_one rem op oa by (cases "a = p") simp_all
    qed (use disj in blast)
    then show ?thesis using False un oa by (simp add: same_but_upd)
  qed
  then obtain db1 where db1: "(if get_head F op = x then update_object p (set_head F (get_next F ox)) db
        else unlink_loop F x (get_next F ox) (nat (num_objects db)) (get_head F op) db) = Some db1"
      "linked F db1 ?ks" "same_but (strip_links F) db db1" by blast
  obtain ox1 where ox1: "dbpriv_find_object db1 x = Some ox1"
    by (rule same_but_find [OF db1(3) ox])
  show thesis
  proof
    show "LL_REMOVE F p x db = Some (upd x (set_next F NOTHING ox1) db1)"
      unfolding LL_REMOVE_def using op ox db1(1) ox1 by (simp add: update_object_upd)
    show "linked F (upd x (set_next F NOTHING ox1) db1) ?ks"
      using notin same_but_valid [OF db1(3)] by (intro linked_set_next [OF db1(2) ox1]) simp
    show "same_but (strip_links F) db (upd x (set_next F NOTHING ox1) db1)"
      using same_but_trans [OF db1(3) same_but_upd [OF ox1]] by simp
  qed
qed

lemma LL_APPEND_ok:
  assumes "linked F db ks" "valid db p" "valid db x" "\<And>q. valid db q \<Longrightarrow> x \<notin> set (ks q)"
  obtains db' where "LL_APPEND F p x db = Some db'"
    "linked F db' (ks(p := ks p @ [x]))" "same_but (strip_links F) db db'"
proof -
  obtain op where op: "dbpriv_find_object db p = Some op" using assms(2) by (auto simp: valid_iff)
  obtain ox where ox: "dbpriv_find_object db x = Some ox" using assms(3) by (auto simp: valid_iff)
  note ch = linkedD(1) [OF assms(1) op]
  have xn: "x \<noteq> NOTHING" using not_nothing [OF ox] by simp
  let ?ks = "ks(p := ks p @ [x])"
  have disj: "p1 = q" if "valid db p1" "valid db q" "c \<in> set (?ks p1)" "c \<in> set (?ks q)" for p1 q c
    using linkedD(2) [OF assms(1) that(1,2), of c] that assms(4) [of p1] assms(4) [of q]
    by (auto split: if_splits)
  text \<open>The link to \<open>x\<close> is set in one object and the end mark in \<open>x\<close>; the order of the two does not
    matter to the chains, so they are followed through both.\<close>
  have "\<exists>db1. (if get_head F op = NOTHING then update_object p (set_head F x) db
        else do { lid \<leftarrow> find_last F db (nat (num_objects db)) (get_head F op);
                  update_object lid (set_next F x) db }) = Some db1
      \<and> same_but (strip_links F) db db1
      \<and> (\<forall>ox1. dbpriv_find_object db1 x = Some ox1 \<longrightarrow>
            linked F (upd x (set_next F NOTHING ox1) db1) ?ks)"
  proof (cases "get_head F op = NOTHING")
    case True
    have ksp: "ks p = []" using ch True by (cases "ks p") auto
    let ?db1 = "upd p (set_head F x op) db"
    have "linked F (upd x (set_next F NOTHING ox1) ?db1) ?ks"
      if ox1: "dbpriv_find_object ?db1 x = Some ox1" for ox1
    proof -
      have fld: "field (get_next F) ?db1 = field (get_next F) db"
        using op by (auto simp: field_upd field_def)
      have v: "valid (upd x (set_next F NOTHING ox1) ?db1) q = valid db q" for q
        using op ox1 by (auto simp: valid_def)
      have "chain ((field (get_next F) db)(x \<mapsto> NOTHING)) (get_head F obq) (?ks q)"
        if q: "dbpriv_find_object (upd x (set_next F NOTHING ox1) ?db1) q = Some obq" for q obq
      proof (cases "q = p")
        case True
        then have "get_head F obq = x"
          using q op ox1 by (auto split: if_splits)
        then show ?thesis using True ksp xn by simp
      next
        case False
        then obtain ob0 where ob0: "dbpriv_find_object db q = Some ob0" "get_head F obq = get_head F ob0"
          using q op ox1 by (auto split: if_splits)
        then show ?thesis
          using linkedD(1) [OF assms(1) ob0(1)] assms(4) [of q] False by (simp add: chain_fun_upd valid_iff)
      qed
      then show ?thesis
        using disj ox1 unfolding linked_def v by (simp add: field_upd fld)
    qed
    then show ?thesis using True op by (simp add: update_object_upd same_but_upd)
  next
    case False
    then obtain as a where as: "ks p = as @ [a]" using ch by (cases "ks p" rule: rev_cases) auto
    obtain oa where oa: "dbpriv_find_object db a = Some oa"
      using chain_valid [OF ch, of a] as by (auto simp: valid_iff)
    have last: "find_last F db (nat (num_objects db)) (get_head F op) = Some a"
      using chain_length [OF ch] ch as by (intro find_last_chain) auto
    have ax: "a \<noteq> x" using assms(4) [OF assms(2)] as by auto
    let ?db1 = "upd a (set_next F x oa) db"
    have "linked F (upd x (set_next F NOTHING ox1) ?db1) ?ks"
      if ox1: "dbpriv_find_object ?db1 x = Some ox1" for ox1
    proof -
      have v: "valid (upd x (set_next F NOTHING ox1) ?db1) q = valid db q" for q
        using oa ox1 by (auto simp: valid_def)
      have fld: "field (get_next F) (upd x (set_next F NOTHING ox1) ?db1)
          = (field (get_next F) db)(a \<mapsto> x, x \<mapsto> NOTHING)"
        using field_upd [OF ox1, of "get_next F" "set_next F NOTHING ox1"]
          field_upd [OF oa, of "get_next F" "set_next F x oa"] by simp
      have "chain ((field (get_next F) db)(a \<mapsto> x, x \<mapsto> NOTHING)) (get_head F obq) (?ks q)"
        if q: "dbpriv_find_object (upd x (set_next F NOTHING ox1) ?db1) q = Some obq" for q obq
      proof -
        obtain ob0 where ob0: "dbpriv_find_object db q = Some ob0" "get_head F obq = get_head F ob0"
          using q oa ox1 ax by (auto split: if_splits)
        note chq = linkedD(1) [OF assms(1) ob0(1)]
        show ?thesis
        proof (cases "q = p")
          case True
          then show ?thesis
            using chain_link [of "field (get_next F) db" "get_head F op" as a x]
              ch as assms(4) [OF assms(2)] xn ob0 op by simp
        next
          case False
          then have "a \<notin> set (ks q)" "x \<notin> set (ks q)"
            using linkedD(2) [OF assms(1,2), of q a] assms(4) [of q] as ob0(1) by (auto simp: valid_iff)
          then show ?thesis using False chq ob0(2) by (simp add: chain_fun_upd)
        qed
      qed
      then show ?thesis
        using disj unfolding linked_def v fld by simp
    qed
    then show ?thesis using False last oa by (simp add: update_object_upd same_but_upd)
  qed
  then obtain db1 where db1: "(if get_head F op = NOTHING then update_object p (set_head F x) db
        else do { lid \<leftarrow> find_last F db (nat (num_objects db)) (get_head F op);
                  update_object lid (set_next F x) db }) = Some db1"
      "same_but (strip_links F) db db1"
      "\<forall>ox1. dbpriv_find_object db1 x = Some ox1 \<longrightarrow> linked F (upd x (set_next F NOTHING ox1) db1) ?ks"
    by blast
  obtain ox1 where ox1: "dbpriv_find_object db1 x = Some ox1"
    by (rule same_but_find [OF db1(2) ox])
  show thesis
  proof
    show "LL_APPEND F p x db = Some (upd x (set_next F NOTHING ox1) db1)"
      unfolding LL_APPEND_def using op db1(1) ox1 by (simp add: update_object_upd)
    show "linked F (upd x (set_next F NOTHING ox1) db1) ?ks" using db1(3) ox1 by blast
    show "same_but (strip_links F) db (upd x (set_next F NOTHING ox1) db1)"
      using same_but_trans [OF db1(2) same_but_upd [OF ox1]] by simp
  qed
qed

text \<open>Taking an object from its owner's list and appending it to another's: the common part of the two
  changes of hierarchy.\<close>

definition relocate :: "objid \<Rightarrow> objid \<Rightarrow> objid \<Rightarrow> 'p db \<Rightarrow> 'p db option" where
  "relocate x old new db = do {
     db \<leftarrow> (if old \<noteq> NOTHING then LL_REMOVE F old x db else Some db);
     db \<leftarrow> (if new \<noteq> NOTHING then LL_APPEND F new x db else Some db);
     update_object x (set_up F new) db }"

lemma remove_absent: "x \<notin> set xs \<Longrightarrow> remove1 x xs = xs"
  by (rule remove1_idem)

lemma relocate_ok:
  assumes h: "hierarchy F db ks" and x: "field (get_up F) db x = Some old"
    and new: "new = NOTHING \<or> valid db new"
  obtains db' where "relocate x old new db = Some db'"
    "hierarchy F db' (move x new ks)" "same_but (strip_all F) db db'"
    "field (get_up F) db' = (field (get_up F) db)(x \<mapsto> new)"
proof -
  have l: "linked F db ks" and u: "points_up F db ks" using h by (auto simp: hierarchy_def)
  have vx: "valid db x" using x by (auto simp: field_Some valid_iff)
  have old: "old = NOTHING \<or> valid db old" using u x by (auto simp: points_up_def)
  have mem: "x \<in> set (ks q) \<longleftrightarrow> q = old" if "valid db q" for q
    using u that x by (auto simp: points_up_def)
  let ?ks1 = "\<lambda>q. remove1 x (ks q)"
  have dist: "distinct (ks q)" if "valid db q" for q
    using hierarchy_distinct [OF h that] .
  have "\<exists>db1. (if old \<noteq> NOTHING then LL_REMOVE F old x db else Some db) = Some db1
      \<and> linked F db1 ?ks1 \<and> same_but (strip_links F) db db1"
  proof (cases "old = NOTHING")
    case True
    have "?ks1 q = ks q" if "valid db q" for q
      using mem [OF that] True valid_not_nothing [OF that] by (simp add: remove_absent)
    then have "linked F db ?ks1" using l linked_cong [of db ?ks1 ks F] by blast
    then show ?thesis using True by simp
  next
    case False
    then have vo: "valid db old" using old by simp
    obtain db1 where db1: "LL_REMOVE F old x db = Some db1"
        "linked F db1 (ks(old := remove1 x (ks old)))" "same_but (strip_links F) db db1"
      using LL_REMOVE_ok [OF l vo] mem [OF vo] by blast
    have "(ks(old := remove1 x (ks old))) q = ?ks1 q" if "valid db q" for q
      using mem [OF that] by (simp add: remove_absent)
    then have "linked F db1 ?ks1"
      using db1(2) same_but_valid [OF db1(3)]
        linked_cong [of db1 ?ks1 "ks(old := remove1 x (ks old))" F] by auto
    then show ?thesis using False db1 by simp
  qed
  then obtain db1 where db1: "(if old \<noteq> NOTHING then LL_REMOVE F old x db else Some db) = Some db1"
      "linked F db1 ?ks1" "same_but (strip_links F) db db1" by blast
  note v1 = same_but_valid [OF db1(3)]
  have gone: "x \<notin> set (?ks1 q)" if "valid db q" for q using dist [OF that] by simp
  let ?ks2 = "move x new ks"
  have "\<exists>db2. (if new \<noteq> NOTHING then LL_APPEND F new x db1 else Some db1) = Some db2
      \<and> linked F db2 ?ks2 \<and> same_but (strip_links F) db1 db2"
  proof (cases "new = NOTHING")
    case True
    have "?ks2 q = ?ks1 q" if "valid db1 q" for q
      using True valid_not_nothing [OF that] by (simp add: move_def)
    then have "linked F db1 ?ks2" using db1(2) linked_cong [of db1 ?ks2 ?ks1 F] by blast
    then show ?thesis using True by simp
  next
    case False
    have e: "?ks1(new := ?ks1 new @ [x]) = ?ks2" by (auto simp: move_def)
    have pre: "valid db1 new" "valid db1 x" "\<And>q. valid db1 q \<Longrightarrow> x \<notin> set (?ks1 q)"
      using v1 vx new False gone by simp_all
    obtain db2 where db2: "LL_APPEND F new x db1 = Some db2" "linked F db2 ?ks2"
        "same_but (strip_links F) db1 db2"
      by (rule LL_APPEND_ok [OF db1(2) pre, unfolded e])
    then show ?thesis using False by (intro exI [of _ db2]) simp
  qed
  then obtain db2 where db2: "(if new \<noteq> NOTHING then LL_APPEND F new x db1 else Some db1) = Some db2"
      "linked F db2 ?ks2" "same_but (strip_links F) db1 db2" by blast
  note same = same_but_trans [OF db1(3) db2(3)]
  note v2 = same_but_valid [OF same]
  obtain ox where ox: "dbpriv_find_object db2 x = Some ox" using vx v2 by (auto simp: valid_iff)
  let ?db3 = "upd x (set_up F new ox) db2"
  have v3: "valid ?db3 q = valid db q" for q using ox v2 [of q] by (auto simp: valid_def)
  have up: "field (get_up F) ?db3 = (field (get_up F) db)(x \<mapsto> new)"
    using ox same_links_up [OF same] by (simp add: field_upd)
  have nx: "field (get_next F) ?db3 = field (get_next F) db2"
    using ox by (auto simp: field_upd field_def)
  show thesis
  proof
    show "relocate x old new db = Some ?db3"
      unfolding relocate_def using db1(1) db2(1) ox by (simp add: update_object_upd)
    show "field (get_up F) ?db3 = (field (get_up F) db)(x \<mapsto> new)" by (rule up)
    show "same_but (strip_all F) db ?db3"
    proof (rule same_but_trans)
      show "same_but (strip_all F) db db2"
        using same by (rule same_but_coarser) (simp add: strip_all_def strip_links_def)
      show "same_but (strip_all F) db2 ?db3" using ox by (rule same_but_upd) simp
    qed
    have "linked F ?db3 ?ks2"
      using db2(2) ox v2 v3 unfolding linked_def nx by (auto split: if_splits)
    moreover have "points_up F ?db3 ?ks2"
      using u new mem dist unfolding points_up_def v3 up by (auto simp: move_def x)
    ultimately show "hierarchy F ?db3 ?ks2" by (simp add: hierarchy_def)
  qed
qed

text \<open>Lines still end when the object did not go below itself.\<close>

lemma rooted_move:
  assumes "rooted F db" "field (get_up F) db' = (field (get_up F) db)(x \<mapsto> new)"
    and "\<And>y. valid db' y = valid db y" "chain (field (get_up F) db) new line" "x \<notin> set line" "valid db x"
  shows "rooted F db'"
  unfolding rooted_def assms(3)
proof (intro allI impI)
  fix y assume "valid db y"
  then obtain xs where xs: "chain (field (get_up F) db) y xs" using assms(1) by (auto simp: rooted_def)
  have line: "chain (field (get_up F) db') new line" using assms by (simp add: chain_fun_upd)
  have xl: "chain (field (get_up F) db') x (x # line)"
    using line assms(2,6) by (auto simp: valid_iff dest: not_nothing)
  show "\<exists>xs. chain (field (get_up F) db') y xs"
  proof (cases "x \<in> set xs")
    case False
    then show ?thesis using xs assms(2) by (auto simp: chain_fun_upd intro: exI [of _ xs])
  next
    case True
    then obtain as bs where "xs = as @ x # bs" "x \<notin> set as" by (meson split_list_first)
    then have "chain (field (get_up F) db') y (as @ x # line)"
      using xs xl unfolding assms(2)
      by (induction as arbitrary: y xs) auto
    then show ?thesis ..
  qed
qed

end

interpretation parents: link_laws parent_fields
  by unfold_locales (simp_all add: parent_fields_def strip_links_def strip_all_def)

interpretation locations: link_laws location_fields
  by unfold_locales (simp_all add: location_fields_def strip_links_def strip_all_def)


text \<open>What a change of one hierarchy leaves of the other: \<open>g\<close> forgets some fields, but not \<open>f\<close>.\<close>

definition keeps :: "('p object \<Rightarrow> 'b) \<Rightarrow> ('p object \<Rightarrow> 'p object) \<Rightarrow> bool" where
  "keeps f g \<longleftrightarrow> (\<forall>ob. f (g ob) = f ob)"

lemma same_but_field: "same_but g db db' \<Longrightarrow> keeps f g \<Longrightarrow> field f db' = field f db"
  using same_but_coarser [of g db db' f f] by (auto simp: same_but_def field_def keeps_def)

lemma keeps_location [simp]:
  "keeps o_child (strip_all location_fields)" "keeps o_sibling (strip_all location_fields)"
  "keeps o_parent (strip_all location_fields)" "keeps o_id (strip_all location_fields)"
  by (simp_all add: keeps_def strip_all_def strip_links_def location_fields_def)

lemma keeps_parent [simp]:
  "keeps o_contents (strip_all parent_fields)" "keeps o_next (strip_all parent_fields)"
  "keeps o_location (strip_all parent_fields)" "keeps o_id (strip_all parent_fields)"
  "keeps o_propdefs (strip_all parent_fields)" "keeps o_propval (strip_all parent_fields)"
  "keeps o_verbdefs (strip_all parent_fields)" "keeps o_owner (strip_all parent_fields)"
  "keeps o_max_propdefs (strip_all parent_fields)"
  by (simp_all add: keeps_def strip_all_def strip_links_def parent_fields_def)

lemma fields_simps [simp]:
  "get_head parent_fields = o_child" "get_next parent_fields = o_sibling" "get_up parent_fields = o_parent"
  "get_head location_fields = o_contents" "get_next location_fields = o_next"
  "get_up location_fields = o_location"
  by (simp_all add: parent_fields_def location_fields_def)

lemma hierarchy_same:
  assumes "same_but g db db'" "keeps (get_head F) g" "keeps (get_next F) g" "keeps (get_up F) g"
    and "hierarchy F db ks"
  shows "hierarchy F db' ks"
proof -
  have v: "valid db' y = valid db y" for y by (rule same_but_valid [OF assms(1)])
  note nx = same_but_field [OF assms(1,3)] and up = same_but_field [OF assms(1,4)]
  have "chain (field (get_next F) db) (get_head F ob) (ks p)" if "dbpriv_find_object db' p = Some ob" for p ob
  proof -
    have "field (get_head F) db p = Some (get_head F ob)"
      using fun_cong [OF same_but_field [OF assms(1,2)], of p] that by (simp add: field_def)
    then show ?thesis
      using linkedD(1) [of F db ks p] assms(5) by (auto simp: field_Some hierarchy_def)
  qed
  then show ?thesis
    using assms(5) by (simp add: hierarchy_def linked_def points_up_def v nx up)
qed

lemma rooted_same: "same_but g db db' \<Longrightarrow> keeps (get_up F) g \<Longrightarrow> rooted F db \<Longrightarrow> rooted F db'"
  by (simp add: rooted_def same_but_valid same_but_field)

text \<open>The links of the whole database.\<close>

definition forest :: "'p link_fields \<Rightarrow> 'p db \<Rightarrow> bool" where
  "forest F db \<longleftrightarrow> (\<exists>ks. hierarchy F db ks) \<and> rooted F db"

definition db_links :: "'p db \<Rightarrow> bool" where
  "db_links db \<longleftrightarrow> forest parent_fields db \<and> forest location_fields db
     \<and> (\<forall>x ob. dbpriv_find_object db x = Some ob \<longrightarrow> o_id ob = x)
     \<and> 0 \<le> num_objects db \<and> num_objects db \<le> max_objects db"

lemma forest_same:
  "same_but g db db' \<Longrightarrow> keeps (get_head F) g \<Longrightarrow> keeps (get_next F) g \<Longrightarrow> keeps (get_up F) g \<Longrightarrow>
     forest F db \<Longrightarrow> forest F db'"
  unfolding forest_def using hierarchy_same [of g db db' F] rooted_same [of g db db' F] by blast

lemma db_links_id:
  "(\<forall>x ob. dbpriv_find_object db x = Some ob \<longrightarrow> o_id ob = x) \<longleftrightarrow> (\<forall>x y. field o_id db x = Some y \<longrightarrow> y = x)"
  by (auto simp: field_def)

section \<open>Moving an object\<close>

lemma change_location_relocate:
  assumes "hierarchy location_fields db ks" "field o_location db oid = Some old"
    and "location = NOTHING \<or> valid db location"
  shows "db_change_location oid location db = locations.relocate oid old location db"
proof -
  obtain ob where ob: "dbpriv_find_object db oid = Some ob" "o_location ob = old"
    using assms(2) by (auto simp: field_Some)
  have u: "points_up location_fields db ks" and l: "linked location_fields db ks"
    using assms(1) by (auto simp: hierarchy_def)
  have "old = NOTHING \<or> valid db old"
    using u assms(2) by (auto simp: points_up_def)
  then have o: "valid db old \<longleftrightarrow> old \<noteq> NOTHING" using valid_not_nothing by blast
  have n: "valid db location \<longleftrightarrow> location \<noteq> NOTHING" using assms(3) valid_not_nothing by blast
  have "valid db1 location \<longleftrightarrow> location \<noteq> NOTHING"
    if r: "LL_REMOVE location_fields old oid db = Some db1" and v: "valid db old" for db1
  proof -
    have "oid \<in> set (ks old)" using u assms(2) v by (auto simp: points_up_def)
    then obtain db2 where "LL_REMOVE location_fields old oid db = Some db2"
        "same_but (strip_links location_fields) db db2"
      by (rule locations.LL_REMOVE_ok [OF l v])
    then show ?thesis using r n same_but_valid [of _ db db2 location] by simp
  qed
  note v1 = this
  have set: "set_up location_fields location = (\<lambda>ob. ob\<lparr>o_location := location\<rparr>)"
    by (simp add: location_fields_def fun_eq_iff)
  show ?thesis
  proof (cases "old = NOTHING")
    case True
    then show ?thesis
      using o n ob by (simp add: db_change_location_def locations.relocate_def set)
  next
    case False
    then show ?thesis
      using o ob v1 by (cases "LL_REMOVE location_fields old oid db")
        (simp_all add: db_change_location_def locations.relocate_def set)
  qed
qed

text \<open>Moving an object takes it out of its old location's contents and appends it to the new
  location's; the contents of every other object, the inheritance hierarchy and all other fields stay as
  they were, and both hierarchies stay well linked. (The destination must not be inside the object, which
  the callers check.)\<close>

lemma db_change_location_ok:
  assumes "db_links db" "valid db oid" "location = NOTHING \<or> valid db location"
    and "walk_db db o_location location = Some line" "oid \<notin> set line"
  shows "\<exists>db'. db_change_location oid location db = Some db' \<and> db_links db'
    \<and> same_but (strip_all location_fields) db db'
    \<and> db_object_location db' oid = Some location
    \<and> (\<forall>p. valid db p \<longrightarrow> members location_fields db' p =
          map_option (\<lambda>cs. remove1 oid cs @ (if p = location then [oid] else [])) (members location_fields db p))"
proof -
  obtain ks where h: "hierarchy location_fields db ks" and r: "rooted location_fields db"
    using assms(1) by (auto simp: db_links_def forest_def)
  obtain old where old: "field o_location db oid = Some old"
    using assms(2) by (auto simp: field_Some valid_iff)
  obtain db' where db': "locations.relocate oid old location db = Some db'"
      "hierarchy location_fields db' (move oid location ks)" "same_but (strip_all location_fields) db db'"
      "field o_location db' = (field o_location db)(oid \<mapsto> location)"
    by (rule locations.relocate_ok [OF h _ assms(3), of oid old]) (use old in simp_all)
  have v: "valid db' y = valid db y" for y by (rule same_but_valid [OF db'(3)])
  have "rooted location_fields db'"
    using locations.rooted_move [OF r, of db' oid location line] db'(4) v assms(2,4,5)
    unfolding walk_db_chain by simp
  then have "forest location_fields db'" using db'(2) by (auto simp: forest_def)
  moreover have "forest parent_fields db'"
    using assms(1) forest_same [OF db'(3), of parent_fields] by (simp add: db_links_def)
  ultimately have "db_links db'"
    using assms(1) same_but_field [OF db'(3), of o_id] db'(3)
    unfolding db_links_def db_links_id by (simp add: same_but_def)
  moreover have "members location_fields db' p =
      map_option (\<lambda>cs. remove1 oid cs @ (if p = location then [oid] else [])) (members location_fields db p)"
    if "valid db p" for p
    using hierarchy_members [OF h that] hierarchy_members [OF db'(2)] v that by (simp add: move_def)
  moreover have "db_object_location db' oid = Some location"
    using fun_cong [OF db'(4), of oid] by (simp add: db_object_location_def field_def)
  ultimately show ?thesis
    using db'(1,3) change_location_relocate [OF h old assms(3)] by auto
qed


section \<open>Creating and destroying\<close>

lemma forest_add:
  assumes "forest F db" "\<not> valid db n" "n \<noteq> NOTHING"
    and "\<And>y. dbpriv_find_object db' y = (if y = n then Some ob else dbpriv_find_object db y)"
    and "get_head F ob = NOTHING" "get_up F ob = NOTHING"
  shows "forest F db'"
proof -
  obtain ks where h: "hierarchy F db ks" and r: "rooted F db" using assms(1) by (auto simp: forest_def)
  have f: "field g db' = (field g db)(n := Some (g ob))" for g :: "'a object \<Rightarrow> objid"
    using assms(4) by (auto simp: field_def)
  have v: "valid db' y \<longleftrightarrow> y = n \<or> valid db y" for y using assms(4) by (simp add: valid_def)
  have notin: "n \<notin> set xs" if "chain (field g db) x xs" for g :: "'a object \<Rightarrow> objid" and x xs
    using chain_valid [OF that] assms(2) by blast
  let ?ks = "ks(n := [])"
  have mem: "valid db c" if "valid db p" "c \<in> set (ks p)" for p c
    using hierarchy_member_valid [OF h that] .
  have "linked F db' ?ks"
  proof -
    have "chain (field (get_next F) db') (get_head F obp) (?ks p)"
      if "dbpriv_find_object db' p = Some obp" for p obp
    proof (cases "p = n")
      case True
      then show ?thesis using that assms(4,5) by simp
    next
      case False
      then have "chain (field (get_next F) db) (get_head F obp) (ks p)"
        using h that assms(4) by (auto simp: hierarchy_def linked_def)
      then show ?thesis using False notin by (simp add: f chain_fun_upd)
    qed
    moreover have "p = q" if "valid db' p" "valid db' q" "c \<in> set (?ks p)" "c \<in> set (?ks q)" for p q c
      using h that v by (auto simp: hierarchy_def linked_def split: if_splits)
    ultimately show ?thesis by (simp add: linked_def)
  qed
  moreover have "points_up F db' ?ks"
  proof -
    have u: "points_up F db ks" using h by (simp add: hierarchy_def)
    have "c \<in> set (?ks p) \<longleftrightarrow> field (get_up F) db' c = Some p" if "valid db' p" for p c
    proof (cases "p = n")
      case True
      then show ?thesis
        using u assms(2,3,6) by (auto simp: f points_up_def split: if_splits)
    next
      case False
      then show ?thesis
        using u that v assms(2,6) mem [of p c] valid_not_nothing [of db p]
        by (auto simp: f points_up_def)
    qed
    then show ?thesis using u v assms(6) by (auto simp: points_up_def f)
  qed
  moreover have "rooted F db'"
  proof -
    have "\<exists>xs. chain (field (get_up F) db') y xs" if "valid db' y" for y
    proof (cases "y = n")
      case True
      then have "chain (field (get_up F) db') y [n]" using assms(3,6) by (simp add: f)
      then show ?thesis ..
    next
      case False
      then have "valid db y" using that v by simp
      then obtain xs where "chain (field (get_up F) db) y xs" using r unfolding rooted_def by blast
      then have "chain (field (get_up F) db') y xs" using notin by (simp add: f chain_fun_upd)
      then show ?thesis ..
    qed
    then show ?thesis by (simp add: rooted_def)
  qed
  ultimately show ?thesis by (auto simp: forest_def hierarchy_def)
qed

lemma forest_remove:
  assumes "forest F db" "dbpriv_find_object db n = Some ob"
    and "\<And>y. dbpriv_find_object db' y = (if y = n then None else dbpriv_find_object db y)"
    and "get_head F ob = NOTHING" "get_up F ob = NOTHING"
  shows "forest F db'"
proof -
  obtain ks where h: "hierarchy F db ks" and r: "rooted F db" using assms(1) by (auto simp: forest_def)
  have u: "points_up F db ks" and l: "linked F db ks" using h by (auto simp: hierarchy_def)
  have f: "field g db' = (field g db)(n := None)" for g :: "'a object \<Rightarrow> objid"
    using assms(3) by (auto simp: field_def)
  have v: "valid db' y \<longleftrightarrow> y \<noteq> n \<and> valid db y" for y using assms(3) by (simp add: valid_def)
  have vn: "valid db n" using assms(2) by (simp add: valid_iff)
  have notin: "n \<notin> set (ks p)" if "valid db p" for p
    using u that assms(2,5) valid_not_nothing [OF that] by (auto simp: points_up_def field_def)
  have empty: "ks n = []"
    using linkedD(1) [OF l assms(2)] assms(4) by (cases "ks n") auto
  have nobody: "field (get_up F) db y \<noteq> Some n" for y
    using u vn empty by (auto simp: points_up_def)
  have "linked F db' ks"
    using l notin v assms(3) unfolding linked_def f by (auto simp: chain_fun_upd valid_iff)
  moreover have "points_up F db' ks"
  proof -
    have "c \<in> set (ks p) \<longleftrightarrow> field (get_up F) db' c = Some p" if "valid db' p" for p c
      using u notin [of p] that v [of p] by (auto simp: points_up_def f)
    moreover have "p = NOTHING \<or> valid db' p" if "field (get_up F) db' x = Some p" for x p
      using u nobody [of x] that v [of p] unfolding points_up_def f by (metis fun_upd_apply option.distinct(1))
    ultimately show ?thesis by (simp add: points_up_def)
  qed
  moreover have "rooted F db'"
  proof -
    have "\<exists>xs. chain (field (get_up F) db') y xs" if y: "valid db' y" for y
    proof -
      have "valid db y" using y v by simp
      then obtain xs where xs: "chain (field (get_up F) db) y xs" using r unfolding rooted_def by blast
      have "n \<notin> set xs"
      proof
        assume "n \<in> set xs"
        then obtain as bs where s: "xs = as @ n # bs" by (meson split_list)
        show False
        proof (cases as rule: rev_cases)
          case Nil
          then show False using xs s y v by simp
        next
          case (snoc cs a)
          then have "chain (field (get_up F) db) a (a # n # bs)"
            using chain_suffix [of "field (get_up F) db" y cs a "n # bs"] xs s by simp
          then show False using nobody [of a] by auto
        qed
      qed
      then have "chain (field (get_up F) db') y xs" using xs by (simp add: f chain_fun_upd)
      then show ?thesis ..
    qed
    then show ?thesis by (simp add: rooted_def)
  qed
  ultimately show ?thesis by (auto simp: forest_def hierarchy_def)
qed


definition barren_new :: "'p object \<Rightarrow> bool" where
  "barren_new ob \<longleftrightarrow> barren ob \<and> o_sibling ob = NOTHING \<and> o_next ob = NOTHING \<and> o_name ob = []
     \<and> o_flags ob = 0 \<and> o_propval ob = [] \<and> o_propdefs ob = [] \<and> o_max_propdefs ob = 0
     \<and> o_verbdefs ob = []"

lemma ensure_new_object_room:
  assumes "0 \<le> num_objects db" "num_objects db \<le> max_objects db"
  shows "num_objects (ensure_new_object db) = num_objects db"
    and "num_objects db < max_objects (ensure_new_object db)"
    and "objects (ensure_new_object db) = objects db"
    and "all_users (ensure_new_object db) = all_users db"
    and "cache (ensure_new_object db) = cache db"
  using assms by (auto simp: ensure_new_object_def Let_def)

lemma db_create_object_new:
  assumes "0 \<le> num_objects db" "num_objects db \<le> max_objects db"
  obtains db' ob where "db_create_object raw db = Some (num_objects db, db')"
    "num_objects db' = num_objects db + 1" "num_objects db' \<le> max_objects db'"
    "\<And>y. dbpriv_find_object db' y = (if y = num_objects db then Some ob else dbpriv_find_object db y)"
    "barren_new ob" "o_id ob = num_objects db" "all_users db' = all_users db" "cache db' = cache db"
proof -
  let ?n = "num_objects db" and ?db = "ensure_new_object db"
  note room = ensure_new_object_room [OF assms]
  let ?db1 = "?db\<lparr>objects := (objects db)(?n \<mapsto> raw\<lparr>o_id := ?n\<rparr>), num_objects := ?n + 1\<rparr>"
  have find1: "dbpriv_find_object ?db1 y = (if y = ?n then Some (raw\<lparr>o_id := ?n\<rparr>) else dbpriv_find_object db y)" for y
    using assms by (auto simp: dbpriv_find_object_def)
  have new: "dbpriv_new_object raw db = Some (?n, ?db1)"
    using room assms by (simp add: dbpriv_new_object_def push_object_def Let_def)
  show thesis
  proof (rule that)
    show "db_create_object raw db = Some (?n, upd ?n (raw\<lparr>o_id := ?n, o_name := [], o_flags := 0,
        o_parent := NOTHING, o_child := NOTHING, o_sibling := NOTHING, o_location := NOTHING,
        o_contents := NOTHING, o_next := NOTHING, o_propval := [], o_max_propdefs := 0, o_propdefs := [],
        o_verbdefs := []\<rparr>) ?db1)"
      using find1 [of ?n] by (simp add: db_create_object_def new update_object_upd)
  qed (use find1 room in \<open>auto simp: barren_new_def barren_def\<close>)
qed

text \<open>A new object gets the next number, which no object had, belongs to no hierarchy and has no
  properties or verbs; every other object is as it was, the table has room for it, and the hierarchies stay
  well linked.\<close>

lemma db_create_object_ok:
  assumes "db_links db"
  shows "\<exists>db' ob. db_create_object raw db = Some (num_objects db, db') \<and> db_links db'
    \<and> \<not> valid db (num_objects db) \<and> db_last_used_objid db' = num_objects db
    \<and> (\<forall>y. dbpriv_find_object db' y = (if y = num_objects db then Some ob else dbpriv_find_object db y))
    \<and> barren_new ob \<and> all_users db' = all_users db"
proof -
  let ?n = "num_objects db"
  have n: "0 \<le> ?n" "?n \<le> max_objects db" using assms by (simp_all add: db_links_def)
  obtain db' ob where c: "db_create_object raw db = Some (?n, db')"
      "num_objects db' = ?n + 1" "num_objects db' \<le> max_objects db'"
      "\<And>y. dbpriv_find_object db' y = (if y = ?n then Some ob else dbpriv_find_object db y)"
      "barren_new ob" "o_id ob = ?n" "all_users db' = all_users db"
    using db_create_object_new [OF n, of raw] by blast
  have nv: "\<not> valid db ?n" by (simp add: valid_def dbpriv_find_object_def)
  have "forest F db'" if "forest F db" "get_head F ob = NOTHING" "get_up F ob = NOTHING" for F
    using forest_add [OF that(1) nv _ c(4) that(2,3)] n by simp
  then have "forest parent_fields db'" "forest location_fields db'"
    using assms c(5) by (auto simp: db_links_def barren_new_def barren_def)
  then have "db_links db'" using assms c n by (auto simp: db_links_def split: if_splits)
  then show ?thesis using c nv by (auto simp: db_last_used_objid_def)
qed

definition users_ok :: "'p db \<Rightarrow> bool" where
  "users_ok db \<longleftrightarrow> (\<forall>u \<in> set (all_users db). \<exists>x. u = VObj x)"

lemma ismember_objects:
  "\<forall>u \<in> set us. \<exists>x. u = VObj x \<Longrightarrow> ismember_from (VObj x) us cm i =
     Some (if VObj x \<in> set us then i + int (length (takeWhile (\<lambda>u. u \<noteq> VObj x) us)) else 0)"
  by (induction us arbitrary: i) auto

lemma remove1_takeWhile:
  "v \<in> set xs \<Longrightarrow> length (takeWhile (\<lambda>u. u \<noteq> v) xs) < length xs
     \<and> remove1 v xs = take (length (takeWhile (\<lambda>u. u \<noteq> v) xs)) xs
         @ drop (Suc (length (takeWhile (\<lambda>u. u \<noteq> v) xs))) xs"
  by (induction xs) auto

lemma setremove_objects:
  assumes "\<forall>u \<in> set us. \<exists>x. u = VObj x"
  shows "setremove us (VObj x) = Some (remove1 (VObj x) us)"
proof (cases "VObj x \<in> set us")
  case True
  let ?k = "length (takeWhile (\<lambda>u. u \<noteq> VObj x) us)"
  have "ismember (VObj x) us False = Some (1 + int ?k)"
    using ismember_objects [OF assms] True by (simp add: ismember_def)
  then show ?thesis
    using remove1_takeWhile [OF True] listdelete_ok [of "1 + int ?k" us]
    by (simp add: setremove_def nat_add_distrib)
next
  case False
  then show ?thesis
    using ismember_objects [OF assms] by (simp add: setremove_def ismember_def remove1_idem)
qed

lemma affected_flushed:
  "case vc_table (cache (db_priv_affected_callable_verb_lookup db)) of
     None \<Rightarrow> True | Some t \<Rightarrow> \<forall>i. t i = []"
  by (simp add: db_priv_affected_callable_verb_lookup_def split: option.split)

text \<open>An object can be destroyed exactly when it is valid and a barren orphan (anything else is a
  panic); its number is then free, it is off the list of users and the verb cache is empty, every other
  object is as it was, and the hierarchies stay well linked.\<close>

lemma db_destroy_object_ok:
  assumes "db_links db" "users_ok db"
    and "\<And>ob. dbpriv_find_object db oid = Some ob \<Longrightarrow> length (o_propdefs ob) \<le> length (o_propval ob)"
  shows "case db_destroy_object oid db of
      None \<Rightarrow> \<not> (\<exists>ob. dbpriv_find_object db oid = Some ob \<and> barren ob)
    | Some db' \<Rightarrow> (\<exists>ob. dbpriv_find_object db oid = Some ob \<and> barren ob) \<and> db_links db'
        \<and> (\<forall>y. dbpriv_find_object db' y = (if y = oid then None else dbpriv_find_object db y))
        \<and> all_users db' = (if is_user db oid then remove1 (VObj oid) (all_users db) else all_users db)
        \<and> (case vc_table (cache db') of None \<Rightarrow> True | Some t \<Rightarrow> \<forall>i. t i = [])"
proof (cases "\<exists>ob. dbpriv_find_object db oid = Some ob \<and> barren ob")
  case False
  then have "db_destroy_object oid db = None"
    by (auto simp: db_destroy_object_def Let_def split: option.split)
  then show ?thesis using False by simp
next
  case True
  then obtain ob where ob: "dbpriv_find_object db oid = Some ob" "barren ob" by blast
  let ?us = "if is_user db oid then remove1 (VObj oid) (all_users db) else all_users db"
  let ?db = "db_priv_affected_callable_verb_lookup db"
  let ?db' = "?db\<lparr>all_users := ?us, objects := (objects db)(oid := None)\<rparr>"
  have "is_user ?db oid = is_user db oid" by (simp add: is_user_def valid_with_def)
  then have d: "db_destroy_object oid db = Some ?db'"
    using ob assms(3) setremove_objects assms(2)
    by (simp add: db_destroy_object_def Let_def users_ok_def not_less)
  have f: "dbpriv_find_object ?db' y = (if y = oid then None else dbpriv_find_object db y)" for y
    using affected_rest(1) [of db y] by (simp add: dbpriv_find_object_def)
  have "forest F ?db'" if "forest F db" "get_head F ob = NOTHING" "get_up F ob = NOTHING" for F
    using forest_remove [OF that(1) ob(1) f that(2,3)] .
  then have "db_links ?db'"
    using assms(1) ob(2) unfolding db_links_def f by (auto simp: barren_def split: if_splits)
  moreover have "case vc_table (cache ?db') of None \<Rightarrow> True | Some t \<Rightarrow> \<forall>i. t i = []"
    using affected_flushed [of db] by simp
  ultimately show ?thesis using True d f by simp
qed

end
