(* ===== verification/DbSlots.thy ===== *)
theory DbSlots
  imports DbForest
begin

text \<open>
  The layout of property slots.  \<open>line_defs db x\<close> lists the definitions an object inherits, nearest
  first, each with the object that defines it; the slots of an object are the values for exactly these.
  \<open>slot_map db x\<close> is the same as a finite map: an object's inherited properties and their slots.  The
  operations of db_properties.c are shown to change this map as their names say.
\<close>

section \<open>Lines of ancestors and subtrees\<close>

definition line :: "'p db \<Rightarrow> objid \<Rightarrow> objid list" where
  "line db x = (case walk_db db o_parent x of None \<Rightarrow> [] | Some xs \<Rightarrow> xs)"

definition sub :: "'p db \<Rightarrow> objid \<Rightarrow> objid set" where
  "sub db x = {y. valid db y \<and> x \<in> set (line db y)}"

lemma line_chain: "chain (field o_parent db) x xs \<Longrightarrow> line db x = xs"
  using walk_db_chain [of db o_parent x xs] by (simp add: line_def)

lemma line_nothing [simp]: "line db (-1) = []"
  by (rule line_chain) simp

lemma rooted_chain:
  assumes "rooted parent_fields db" "valid db x"
  shows "chain (field o_parent db) x (line db x)"
  using assms line_chain by (fastforce simp: rooted_def)

lemma line_Cons:
  assumes "rooted parent_fields db" "dbpriv_find_object db x = Some ob"
  shows "line db x = x # line db (o_parent ob)" "chain (field o_parent db) (o_parent ob) (line db (o_parent ob))"
proof -
  have c: "chain (field o_parent db) x (line db x)" using rooted_chain [OF assms(1)] assms(2) by (simp add: valid_iff)
  then obtain xs where "line db x = x # xs" "chain (field o_parent db) (o_parent ob) xs"
    using assms(2) not_nothing [OF assms(2)] by (cases "line db x") (auto simp: field_Some)
  then show "line db x = x # line db (o_parent ob)"
    "chain (field o_parent db) (o_parent ob) (line db (o_parent ob))"
    using line_chain by auto
qed

lemma line_suffix:
  assumes "chain (field o_parent db) x (line db x)" "y \<in> set (line db x)"
  obtains as where "line db x = as @ line db y" "valid db y" "y \<notin> set as"
proof -
  obtain as bs where s: "line db x = as @ y # bs" "y \<notin> set as" by (meson assms(2) split_list_first)
  then have "chain (field o_parent db) y (y # bs)" using chain_suffix assms(1) by metis
  then have "line db y = y # bs" by (rule line_chain)
  then show thesis using that s chain_valid [OF assms] by simp
qed

lemma line_field_cong:
  assumes "field o_parent db' = field o_parent db" "num_objects db' = num_objects db"
  shows "line db' x = line db x"
proof -
  have "walk_db db' o_parent x = Some xs \<longleftrightarrow> walk_db db o_parent x = Some xs" for xs
    by (simp add: walk_db_chain assms(1))
  then have "walk_db db' o_parent x = walk_db db o_parent x"
    by (metis not_None_eq)
  then show ?thesis by (simp add: line_def)
qed

lemma ancestry_line:
  assumes "chain (field o_parent db) x (line db x)"
  shows "ancestry db x = Some (map (\<lambda>y. the (dbpriv_find_object db y)) (line db x))"
proof -
  have "up_chain db n x = Some (map (\<lambda>y. the (dbpriv_find_object db y)) xs)"
    if "chain (field o_parent db) x xs" "length xs \<le> n" for n xs
    using that
  proof (induction xs arbitrary: x n)
    case Nil
    then show ?case by (subst up_chain.simps) (simp add: dbpriv_find_object_def)
  next
    case (Cons a xs)
    then obtain ob m where "x = a" "dbpriv_find_object db a = Some ob" "n = Suc m" "length xs \<le> m"
        "chain (field o_parent db) (o_parent ob) xs"
      by (cases n) (auto simp: field_Some)
    then show ?case using Cons.IH by (subst up_chain.simps) simp
  qed
  then show ?thesis using assms chain_length [OF assms] by (simp add: ancestry_def)
qed

lemma line_length: "length (line db x) \<le> nat (num_objects db)"
  using chain_length line_chain walk_db_chain by (cases "walk_db db o_parent x") (fastforce simp: line_def)+

text \<open>The children split a subtree.\<close>

lemma sub_self: "rooted parent_fields db \<Longrightarrow> valid db x \<Longrightarrow> x \<in> sub db x"
  using line_Cons(1) by (fastforce simp: sub_def valid_iff)

lemma sub_valid: "y \<in> sub db x \<Longrightarrow> valid db y"
  by (simp add: sub_def)

lemma sub_trans:
  assumes "rooted parent_fields db" "y \<in> sub db x" "z \<in> sub db y"
  shows "z \<in> sub db x"
proof -
  obtain as where "line db z = as @ line db y"
    using assms by (auto simp: sub_def elim: line_suffix [OF rooted_chain])
  then show ?thesis using assms(2,3) by (simp add: sub_def)
qed

lemma sub_line_suffix:
  assumes "rooted parent_fields db" "y \<in> sub db x"
  obtains as where "line db y = as @ line db x" "x \<notin> set as"
  using assms by (auto simp: sub_def elim: line_suffix [OF rooted_chain])

lemma child_field:
  assumes "hierarchy parent_fields db ks" "valid db x"
  shows "c \<in> set (ks x) \<longleftrightarrow> field o_parent db c = Some x"
  using assms by (auto simp: hierarchy_def points_up_def)

lemma child_line:
  assumes "hierarchy parent_fields db ks" "rooted parent_fields db" "valid db x" "c \<in> set (ks x)"
  shows "line db c = c # line db x"
  using child_field [OF assms(1,3)] assms(4) line_Cons(1) [OF assms(2)] by (auto simp: field_Some)

lemma sub_not_parent:
  assumes "hierarchy parent_fields db ks" "rooted parent_fields db" "valid db x" "c \<in> set (ks x)"
  shows "x \<notin> sub db c"
proof
  assume "x \<in> sub db c"
  then obtain as where "line db x = as @ line db c" by (rule sub_line_suffix [OF assms(2)])
  then show False using child_line [OF assms] by (metis append_Cons append_is_Nil_conv
      append_self_conv2 impossible_Cons length_append le_add2 list.distinct(1) append.assoc same_append_eq)
qed

lemma sub_disjoint:
  assumes "hierarchy parent_fields db ks" "rooted parent_fields db" "valid db x"
    and "c \<in> set (ks x)" "d \<in> set (ks x)" "y \<in> sub db c" "y \<in> sub db d"
  shows "c = d"
proof -
  obtain as bs where "line db y = as @ line db c" "line db y = bs @ line db d"
    using assms(6,7) sub_line_suffix [OF assms(2)] by metis
  then have "as @ c # line db x = bs @ d # line db x"
    using child_line [OF assms(1-3)] assms(4,5) by simp
  then show ?thesis by (simp add: append_eq_append_conv2) (metis append.assoc append_Cons append_eq_append_conv
        append_same_eq butlast.simps(2) last_snoc list.inject)
qed

lemma sub_children:
  assumes "hierarchy parent_fields db ks" "rooted parent_fields db" "valid db x"
  shows "sub db x = insert x (\<Union>c \<in> set (ks x). sub db c)"
proof (intro equalityI subsetI)
  fix y assume y: "y \<in> sub db x"
  then obtain as where as: "line db y = as @ line db x" by (rule sub_line_suffix [OF assms(2)])
  have ch: "chain (field o_parent db) y (line db y)" using rooted_chain [OF assms(2) sub_valid [OF y]] .
  obtain ob where x: "dbpriv_find_object db x = Some ob" using assms(3) by (auto simp: valid_iff)
  note lx = line_Cons(1) [OF assms(2) x]
  show "y \<in> insert x (\<Union>c \<in> set (ks x). sub db c)"
  proof (cases as rule: rev_cases)
    case Nil
    then have "y = x" using ch as lx by simp
    then show ?thesis by simp
  next
    case (snoc bs c)
    have "chain (field o_parent db) c (c # line db x)"
      using chain_suffix [of "field o_parent db" y bs c "line db x"] ch as snoc by simp
    then have "c \<in> set (ks x)" using child_field [OF assms(1,3)] lx by auto
    moreover have "y \<in> sub db c" using as snoc sub_valid [OF y] by (simp add: sub_def)
    ultimately show ?thesis by blast
  qed
next
  fix y assume "y \<in> insert x (\<Union>c \<in> set (ks x). sub db c)"
  then consider "y = x" | c where "c \<in> set (ks x)" "y \<in> sub db c" by blast
  then show "y \<in> sub db x"
  proof cases
    case 1
    then show ?thesis using sub_self [OF assms(2,3)] by simp
  next
    case (2 c)
    have "c \<in> sub db x"
      using child_line [OF assms 2(1)] sub_self [OF assms(2,3)] hierarchy_member_valid [OF assms(1,3) 2(1)]
      by (simp add: sub_def)
    then show ?thesis using sub_trans [OF assms(2)] 2(2) by blast
  qed
qed


section \<open>Definitions along a line\<close>

definition defs_on :: "'p db \<Rightarrow> objid \<Rightarrow> propdef list" where
  "defs_on db x = (case dbpriv_find_object db x of None \<Rightarrow> [] | Some ob \<Rightarrow> o_propdefs ob)"

definition defs_of :: "'p db \<Rightarrow> objid list \<Rightarrow> (objid \<times> propdef) list" where
  "defs_of db xs = concat (map (\<lambda>y. map (Pair y) (defs_on db y)) xs)"

definition line_defs :: "'p db \<Rightarrow> objid \<Rightarrow> (objid \<times> propdef) list" where
  "line_defs db x = defs_of db (line db x)"

lemma defs_on_find [simp]: "dbpriv_find_object db x = Some ob \<Longrightarrow> defs_on db x = o_propdefs ob"
  by (simp add: defs_on_def)

lemma defs_of_simps [simp]:
  "defs_of db [] = []" "defs_of db (x # xs) = map (Pair x) (defs_on db x) @ defs_of db xs"
  "defs_of db (xs @ ys) = defs_of db xs @ defs_of db ys"
  by (simp_all add: defs_of_def)

lemma set_defs_of: "(y, d) \<in> set (defs_of db xs) \<longleftrightarrow> y \<in> set xs \<and> d \<in> set (defs_on db y)"
  by (auto simp: defs_of_def)

lemma defs_on_cong:
  assumes "field o_propdefs db' = field o_propdefs db"
  shows "defs_on db' = defs_on db"
proof
  fix x show "defs_on db' x = defs_on db x"
    using fun_cong [OF assms, of x] by (auto simp: defs_on_def field_def split: option.splits)
qed

lemma line_defs_cong:
  assumes "field o_parent db' = field o_parent db" "field o_propdefs db' = field o_propdefs db"
    and "num_objects db' = num_objects db"
  shows "line_defs db' x = line_defs db x"
  using line_field_cong [OF assms(1,3)] defs_on_cong [OF assms(2)] by (simp add: line_defs_def defs_of_def)

lemma count_line_defs:
  assumes "chain (field o_parent db) x (line db x)"
  shows "dbpriv_count_properties db x = Some (length (line_defs db x))"
proof -
  have "total_propdefs (map (\<lambda>y. the (dbpriv_find_object db y)) xs) = length (defs_of db xs)"
    if "\<forall>y \<in> set xs. valid db y" for xs
    using that by (induction xs) (auto simp: total_propdefs_def valid_iff)
  then show ?thesis
    using ancestry_line [OF assms] chain_valid [OF assms]
    by (simp add: dbpriv_count_properties_def line_defs_def)
qed

lemma count_nothing [simp]: "dbpriv_count_properties db (-1) = Some 0"
  using count_line_defs [of db "-1"] by (simp add: line_defs_def)

text \<open>The names of definitions, up to case; the hash is that of the name.\<close>

definition name_key :: "propdef \<Rightarrow> string" where
  "name_key d = map cmap (pd_name d)"

definition propdef_ok :: "propdef \<Rightarrow> bool" where
  "propdef_ok d \<longleftrightarrow> cstring (pd_name d) \<and> pd_hash d = str_hash (pd_name d)"

definition defs_ok :: "'p db \<Rightarrow> bool" where
  "defs_ok db \<longleftrightarrow> (\<forall>x. \<forall>d \<in> set (defs_on db x). propdef_ok d)"

lemma defs_ok_find:
  "defs_ok db \<longleftrightarrow> (\<forall>x ob. dbpriv_find_object db x = Some ob \<longrightarrow> (\<forall>d \<in> set (o_propdefs ob). propdef_ok d))"
proof -
  have "(\<forall>d \<in> set (defs_on db x). propdef_ok d) \<longleftrightarrow>
      (\<forall>ob. dbpriv_find_object db x = Some ob \<longrightarrow> (\<forall>d \<in> set (o_propdefs ob). propdef_ok d))" for x
    by (cases "dbpriv_find_object db x") (simp_all add: defs_on_def)
  then show ?thesis by (simp add: defs_ok_def)
qed

lemma defs_okD: "defs_ok db \<Longrightarrow> d \<in> set (defs_on db x) \<Longrightarrow> propdef_ok d"
  by (auto simp: defs_ok_def)

lemma new_propdef_ok: "cstring s \<Longrightarrow> propdef_ok (dbpriv_new_propdef s)"
  by (simp add: propdef_ok_def dbpriv_new_propdef_def)

lemma name_key_new [simp]: "name_key (dbpriv_new_propdef s) = map cmap s"
  by (simp add: name_key_def dbpriv_new_propdef_def)

lemma propdef_is_key:
  assumes "propdef_ok d" "cstring s"
  shows "propdef_is s (str_hash s) d \<longleftrightarrow> name_key d = map cmap s"
  using assms mystrcasecmp_0 [of "pd_name d" s] str_hash_casefold [of "pd_name d" s]
  by (auto simp: propdef_is_def propdef_ok_def name_key_def)

lemma propdef_index_None:
  "propdef_index s h ds = None \<longleftrightarrow> (\<forall>d \<in> set ds. \<not> propdef_is s h d)"
  by (induction ds) auto

lemma propdef_index_Some:
  "propdef_index s h ds = Some i \<Longrightarrow> i < length ds \<and> propdef_is s h (ds ! i)
     \<and> (\<forall>j < i. \<not> propdef_is s h (ds ! j))"
proof (induction ds arbitrary: i)
  case (Cons d ds)
  then show ?case by (cases i) (auto simp: less_Suc_eq_0_disj split: if_splits)
qed simp

lemma any_of_Some: "(\<And>x. x \<in> set xs \<Longrightarrow> f x = Some (P x)) \<Longrightarrow> any_of f xs = Some (\<exists>x \<in> set xs. P x)"
  by (induction xs) (auto split: bool.splits)

text \<open>The search below an object finds exactly the definitions in its subtree.\<close>

lemma defined_below_sub:
  assumes "hierarchy parent_fields db ks" "rooted parent_fields db"
  shows "valid db x \<Longrightarrow> nat (num_objects db) < length (line db x) + n \<Longrightarrow>
    defined_below db s h n x = Some (\<exists>y \<in> sub db x. \<exists>d \<in> set (defs_on db y). propdef_is s h d)"
proof (induction n arbitrary: x)
  case 0
  then show ?case using line_length [of db x] by simp
next
  case (Suc n)
  obtain ob where ob: "dbpriv_find_object db x = Some ob" using Suc.prems by (auto simp: valid_iff)
  have "any_of (defined_below db s h n) (ks x)
      = Some (\<exists>c \<in> set (ks x). \<exists>y \<in> sub db c. \<exists>d \<in> set (defs_on db y). propdef_is s h d)"
  proof (rule any_of_Some, rule Suc.IH)
    fix c assume c: "c \<in> set (ks x)"
    show "valid db c" using hierarchy_member_valid [OF assms(1) Suc.prems(1) c] .
    show "nat (num_objects db) < length (line db c) + n"
      using child_line [OF assms Suc.prems(1) c] Suc.prems(2) by simp
  qed
  then show ?case
    using hierarchy_members [OF assms(1) Suc.prems(1)] sub_children [OF assms Suc.prems(1)] ob
      propdef_index_None [of s h "o_propdefs ob"]
    by auto
qed

lemma defined_at_or_below:
  assumes "forest parent_fields db" "valid db x"
  shows "property_defined_at_or_below db s h x
    = Some (\<exists>y \<in> sub db x. \<exists>d \<in> set (defs_on db y). propdef_is s h d)"
proof -
  obtain ks where h: "hierarchy parent_fields db ks" "rooted parent_fields db"
    using assms(1) by (auto simp: forest_def)
  have "line db x \<noteq> []" using sub_self [OF h(2) assms(2)] by (auto simp: sub_def)
  then show ?thesis
    using defined_below_sub [OF h assms(2)] by (simp add: property_defined_at_or_below_def)
qed

section \<open>Changing the slots of a subtree\<close>

text \<open>The database in which the objects of \<open>S\<close> already have their new slots \<open>T\<close>.\<close>

definition stage :: "(objid \<Rightarrow> pval list) \<Rightarrow> objid set \<Rightarrow> 'p db \<Rightarrow> 'p db" where
  "stage T S db = db\<lparr>objects := \<lambda>y. if y \<in> S then map_option (\<lambda>ob. ob\<lparr>o_propval := T y\<rparr>) (objects db y)
     else objects db y\<rparr>"

abbreviation no_slots :: "'p object \<Rightarrow> 'p object" where
  "no_slots ob \<equiv> ob\<lparr>o_propval := []\<rparr>"

lemma find_stage:
  "dbpriv_find_object (stage T S db) y = (if y \<in> S
     then map_option (\<lambda>ob. ob\<lparr>o_propval := T y\<rparr>) (dbpriv_find_object db y) else dbpriv_find_object db y)"
  by (simp add: stage_def dbpriv_find_object_def)

lemma stage_empty [simp]: "stage T {} db = db"
  by (simp add: stage_def)

lemma stage_same: "same_but no_slots db (stage T S db)"
proof -
  have "map_option no_slots (dbpriv_find_object (stage T S db) y) = map_option no_slots (dbpriv_find_object db y)" for y
    by (cases "dbpriv_find_object db y") (simp_all add: find_stage)
  then show ?thesis by (simp add: same_but_def) (simp add: stage_def)
qed

lemma stage_upd:
  assumes "dbpriv_find_object db x = Some ob" "x \<notin> S"
  shows "update_object x (\<lambda>ob. ob\<lparr>o_propval := T x\<rparr>) (stage T S db) = Some (stage T (insert x S) db)"
proof -
  have "objects db x = Some ob" using assms(1) by (simp add: dbpriv_find_object_def split: if_splits)
  then have "upd x (ob\<lparr>o_propval := T x\<rparr>) (stage T S db) = stage T (insert x S) db"
    using assms(2) by (auto simp: upd_def stage_def fun_eq_iff)
  then show ?thesis using assms by (simp add: update_object_upd find_stage)
qed

lemma keeps_no_slots [simp]:
  "keeps o_child no_slots" "keeps o_sibling no_slots" "keeps o_parent no_slots"
  "keeps o_contents no_slots" "keeps o_next no_slots" "keeps o_location no_slots"
  "keeps o_id no_slots" "keeps o_propdefs no_slots" "keeps o_owner no_slots"
  "keeps o_verbdefs no_slots" "keeps o_max_propdefs no_slots"
  by (simp_all add: keeps_def)

lemma same_slots_hierarchy:
  assumes "same_but no_slots db db'"
  shows "hierarchy parent_fields db ks \<Longrightarrow> hierarchy parent_fields db' ks"
    and "rooted parent_fields db \<Longrightarrow> rooted parent_fields db'"
    and "forest parent_fields db \<Longrightarrow> forest parent_fields db'"
    and "forest location_fields db \<Longrightarrow> forest location_fields db'"
    and "line db' x = line db x" "defs_on db' = defs_on db" "line_defs db' x = line_defs db x"
    and "valid db' x = valid db x"
  using hierarchy_same [OF assms, of parent_fields] rooted_same [OF assms, of parent_fields]
    forest_same [OF assms, of parent_fields] forest_same [OF assms, of location_fields]
    line_field_cong [OF same_but_field [OF assms]] defs_on_cong [OF same_but_field [OF assms]]
    line_defs_cong [OF same_but_field [OF assms] same_but_field [OF assms]] same_but_valid [OF assms] assms
  by (simp_all add: same_but_def)

lemma slots_recursively_stage:
  assumes h: "hierarchy parent_fields db ks" "rooted parent_fields db"
    and step: "\<And>x S. x \<in> sub db root \<Longrightarrow> x \<notin> S \<Longrightarrow> x = root \<or> (\<exists>p \<in> S. field o_parent db x = Some p) \<Longrightarrow>
      S \<subseteq> sub db root \<Longrightarrow> opr x (pos x) (arg x) (stage T S db) = Some (stage T (insert x S) db)"
    and child: "\<And>x c cob. x \<in> sub db root \<Longrightarrow> c \<in> set (ks x) \<Longrightarrow> dbpriv_find_object db c = Some cob \<Longrightarrow>
      pos c = length (o_propdefs cob) + pos x \<and> arg c = below (arg x)"
  shows "x \<in> sub db root \<Longrightarrow> S \<inter> sub db x = {} \<Longrightarrow> x = root \<or> (\<exists>p \<in> S. field o_parent db x = Some p) \<Longrightarrow>
    S \<subseteq> sub db root \<Longrightarrow> nat (num_objects db) < length (line db x) + n \<Longrightarrow>
    slots_recursively opr below n x (pos x) (arg x) (stage T S db) = Some (stage T (S \<union> sub db x) db)"
proof (induction n arbitrary: x S)
  case 0
  then show ?case using line_length [of db x] by simp
next
  case (Suc n)
  have v: "valid db x" using sub_valid Suc.prems(1) by blast
  note self = sub_self [OF h(2) v] and split = sub_children [OF h v]
  have xS: "x \<notin> S" using Suc.prems(2) self by blast
  let ?f = "\<lambda>c db. do { cob \<leftarrow> dbpriv_find_object db c;
        slots_recursively opr below n c (length (o_propdefs cob) + pos x) (below (arg x)) db }"
  have "fold_all ?f cs (stage T S' db) = Some (stage T (S' \<union> (\<Union>c \<in> set cs. sub db c)) db)"
    if "set cs \<subseteq> set (ks x)" "distinct cs" "x \<in> S'" "S' \<inter> (\<Union>c \<in> set cs. sub db c) = {}" "S' \<subseteq> sub db root"
    for cs S'
    using that
  proof (induction cs arbitrary: S')
    case (Cons c cs)
    have c: "c \<in> set (ks x)" using Cons.prems by simp
    note lc = child_line [OF h v c]
    have vc: "valid db c" using hierarchy_member_valid [OF h(1) v c] .
    then obtain cob where cob: "dbpriv_find_object db c = Some cob" by (auto simp: valid_iff)
    have cr: "c \<in> sub db root"
      using sub_trans [OF h(2) Suc.prems(1)] split sub_self [OF h(2) vc] c by blast
    have cS: "c \<notin> S'" using Cons.prems(4) sub_self [OF h(2) vc] by auto
    have "slots_recursively opr below n c (pos c) (arg c) (stage T S' db)
        = Some (stage T (S' \<union> sub db c) db)"
    proof (rule Suc.IH [OF cr])
      show "c = root \<or> (\<exists>p \<in> S'. field o_parent db c = Some p)"
        using child_field [OF h(1) v] c Cons.prems(3) by blast
    qed (use Cons.prems lc Suc.prems(5) in auto)
    then have one: "?f c (stage T S' db) = Some (stage T (S' \<union> sub db c) db)"
      using child [OF Suc.prems(1) c cob] cob cS by (simp add: find_stage)
    have "sub db c \<inter> sub db d = {}" if "d \<in> set cs" for d
      using sub_disjoint [OF h v c, of d] Cons.prems(1,2) that by auto
    then have "(S' \<union> sub db c) \<inter> (\<Union>c \<in> set cs. sub db c) = {}"
      using Cons.prems(4) by auto
    moreover have "S' \<union> sub db c \<subseteq> sub db root"
      using Cons.prems(5) sub_trans [OF h(2) cr] by blast
    ultimately have "fold_all ?f cs (stage T (S' \<union> sub db c) db)
        = Some (stage T (S' \<union> sub db c \<union> (\<Union>c \<in> set cs. sub db c)) db)"
      using Cons.prems by (intro Cons.IH) auto
    then show ?case using one by (simp add: Un_assoc)
  qed simp
  from this [of "ks x" "insert x S"]
  have kids: "fold_all ?f (ks x) (stage T (insert x S) db) = Some (stage T (S \<union> sub db x) db)"
    using hierarchy_distinct [OF h(1) v] split Suc.prems(1,2,4) sub_not_parent [OF h v] by auto
  have mem: "members parent_fields (stage T (insert x S) db) x = Some (ks x)"
    using hierarchy_members same_slots_hierarchy(1,8) [OF stage_same] h(1) v by blast
  show ?case using step [OF Suc.prems(1) xS Suc.prems(3,4)] mem kids by simp
qed


section \<open>The invariant and the slot map\<close>

definition owner_of :: "'p db \<Rightarrow> objid \<Rightarrow> objid" where
  "owner_of db x = (case dbpriv_find_object db x of None \<Rightarrow> NOTHING | Some ob \<Rightarrow> o_owner ob)"

definition built_in_name :: "string \<Rightarrow> bool" where
  "built_in_name s \<longleftrightarrow> find_built_in s (str_hash s) ptable \<noteq> None"

text \<open>What holds of one object: as many slots as definitions on its line, no name twice on the line, room
  for its definitions, and no clear slot among its own.\<close>

definition object_props_ok :: "'p db \<Rightarrow> objid \<Rightarrow> 'p object \<Rightarrow> bool" where
  "object_props_ok db x ob \<longleftrightarrow>
     length (o_propval ob) = length (line_defs db x)
     \<and> distinct (map (name_key \<circ> snd) (line_defs db x))
     \<and> length (o_propdefs ob) \<le> o_max_propdefs ob
     \<and> (\<forall>s \<in> set (take (length (o_propdefs ob)) (o_propval ob)). p_var s \<noteq> VClear)
     \<and> (\<forall>d \<in> set (o_propdefs ob). propdef_ok d \<and> \<not> built_in_name (pd_name d))"

definition props_ok :: "'p db \<Rightarrow> bool" where
  "props_ok db \<longleftrightarrow> forest parent_fields db
     \<and> (\<forall>x ob. dbpriv_find_object db x = Some ob \<longrightarrow> o_id ob = x \<and> object_props_ok db x ob)"

definition slot_map :: "'p db \<Rightarrow> objid \<Rightarrow> objid \<times> propdef \<Rightarrow> pval option" where
  "slot_map db x = (case dbpriv_find_object db x of
     None \<Rightarrow> Map.empty
   | Some ob \<Rightarrow> map_of (zip (line_defs db x) (o_propval ob)))"

definition name_in_use :: "'p db \<Rightarrow> objid \<Rightarrow> string \<Rightarrow> bool" where
  "name_in_use db x s \<longleftrightarrow> built_in_name s
     \<or> (\<exists>y \<in> set (line db x) \<union> sub db x. \<exists>d \<in> set (defs_on db y). name_key d = map cmap s)"

lemma props_okD:
  assumes "props_ok db"
  shows "forest parent_fields db" "rooted parent_fields db" "defs_ok db"
    and "dbpriv_find_object db x = Some ob \<Longrightarrow> object_props_ok db x ob"
    and "dbpriv_find_object db x = Some ob \<Longrightarrow> o_id ob = x"
  using assms by (auto simp: props_ok_def forest_def defs_ok_find object_props_ok_def)

text \<open>The definitions on the line of a member of a subtree, cut at the root of the subtree.\<close>

definition before :: "'p db \<Rightarrow> objid \<Rightarrow> objid \<Rightarrow> objid list" where
  "before db root x = takeWhile (\<lambda>z. z \<noteq> root) (line db x)"

lemma line_before:
  assumes "rooted parent_fields db" "x \<in> sub db root"
  shows "line db x = before db root x @ line db root" "root \<notin> set (before db root x)"
proof -
  obtain as where as: "line db x = as @ line db root" "root \<notin> set as"
    by (rule sub_line_suffix [OF assms])
  have "valid db root" using assms line_suffix [OF rooted_chain [OF assms(1) sub_valid [OF assms(2)]], of root]
    by (auto simp: sub_def)
  then obtain ob where "dbpriv_find_object db root = Some ob" by (auto simp: valid_iff)
  then have "line db root = root # line db (o_parent ob)" using line_Cons(1) [OF assms(1)] by blast
  then have "before db root x = as"
    unfolding before_def as(1) using as(2) by (simp add: takeWhile_tail) (induction as, auto)
  then show "line db x = before db root x @ line db root" "root \<notin> set (before db root x)" using as by auto
qed

lemma before_sub:
  assumes "rooted parent_fields db" "y \<in> sub db oid" "z \<in> set (before db oid y)"
  shows "z \<in> sub db oid"
proof -
  note ch = rooted_chain [OF assms(1) sub_valid [OF assms(2)]]
  obtain as bs where "before db oid y = as @ z # bs" using assms(3) by (meson split_list)
  then have s: "line db y = as @ z # (bs @ line db oid)" using line_before(1) [OF assms(1,2)] by simp
  then have "chain (field o_parent db) z (z # bs @ line db oid)" using chain_suffix ch by metis
  then have l: "line db z = z # bs @ line db oid" by (rule line_chain)
  have "valid db oid" "valid db z"
    using line_suffix [OF ch, of oid] chain_valid [OF ch, of z] assms(2) s by (auto simp: sub_def)
  moreover have "oid \<in> set (line db oid)" using sub_self [OF assms(1) \<open>valid db oid\<close>] by (simp add: sub_def)
  ultimately show ?thesis using l by (simp add: sub_def)
qed

lemma before_root [simp]:
  assumes "rooted parent_fields db" "valid db root"
  shows "before db root root = []"
  using line_before(1) [OF assms(1) sub_self [OF assms]] by simp

lemma sub_root_valid: "rooted parent_fields db \<Longrightarrow> x \<in> sub db root \<Longrightarrow> valid db root"
  using line_suffix [OF rooted_chain] by (auto simp: sub_def)

lemma before_child:
  assumes "hierarchy parent_fields db ks" "rooted parent_fields db" "x \<in> sub db root" "c \<in> set (ks x)"
  shows "before db root c = c # before db root x"
proof -
  have v: "valid db x" using sub_valid [OF assms(3)] .
  have "c \<noteq> root" using sub_not_parent [OF assms(1,2) v assms(4)] assms(3) by blast
  then show ?thesis using child_line [OF assms(1,2) v assms(4)] by (simp add: before_def)
qed

lemma line_defs_before:
  assumes "rooted parent_fields db" "x \<in> sub db root" "dbpriv_find_object db root = Some ob"
  shows "line_defs db x = defs_of db (before db root x) @ map (Pair root) (o_propdefs ob)
    @ line_defs db (o_parent ob)"
  using line_before(1) [OF assms(1,2)] line_Cons(1) [OF assms(1,3)] assms(3)
  by (simp add: line_defs_def)

section \<open>Is a name in use?\<close>

lemma propdef_index_append:
  "propdef_index s h (xs @ ys) = (case propdef_index s h xs of
     Some i \<Rightarrow> Some i | None \<Rightarrow> map_option ((+) (length xs)) (propdef_index s h ys))"
  by (cases "propdef_index s h ys"; induction xs) (auto split: option.splits)

lemma find_up_line:
  assumes "\<And>y. y \<in> set xs \<Longrightarrow> \<exists>ob. dbpriv_find_object db y = Some ob \<and> o_id ob = y"
  shows "find_up s h n (map (\<lambda>y. the (dbpriv_find_object db y)) xs) =
    map_option (\<lambda>k. (fst (defs_of db xs ! k), n + k)) (propdef_index s h (map snd (defs_of db xs)))"
  using assms
proof (induction xs arbitrary: n)
  case (Cons x xs)
  obtain ob where ob: "dbpriv_find_object db x = Some ob" "o_id ob = x" using Cons.prems by fastforce
  have m: "map snd (defs_of db (x # xs)) = o_propdefs ob @ map snd (defs_of db xs)"
    using ob by (simp add: comp_def)
  show ?case
  proof (cases "propdef_index s h (o_propdefs ob)")
    case (Some i)
    then have "i < length (o_propdefs ob)" using propdef_index_Some by blast
    then show ?thesis using Some ob unfolding m by (simp add: propdef_index_append nth_append)
  next
    case None
    then show ?thesis
      using Cons ob unfolding m
      by (simp add: propdef_index_append nth_append option.map_comp comp_def add.assoc)
  qed
qed simp

lemma find_up_ancestry:
  assumes "props_ok db" "valid db x"
  obtains obs where "ancestry db x = Some obs"
    "find_up s h 0 obs = map_option (\<lambda>k. (fst (line_defs db x ! k), k))
       (propdef_index s h (map snd (line_defs db x)))"
proof
  have c: "chain (field o_parent db) x (line db x)" using rooted_chain [OF props_okD(2) [OF assms(1)] assms(2)] .
  show "ancestry db x = Some (map (\<lambda>y. the (dbpriv_find_object db y)) (line db x))" by (rule ancestry_line [OF c])
  have "\<exists>ob. dbpriv_find_object db y = Some ob \<and> o_id ob = y" if "y \<in> set (line db x)" for y
    using chain_valid [OF c that] props_okD(5) [OF assms(1)] by (auto simp: valid_iff)
  then show "find_up s h 0 (map (\<lambda>y. the (dbpriv_find_object db y)) (line db x)) =
      map_option (\<lambda>k. (fst (line_defs db x ! k), k)) (propdef_index s h (map snd (line_defs db x)))"
    by (simp add: find_up_line line_defs_def)
qed

lemma name_taken_in_use:
  assumes "props_ok db" "valid db x" "cstring s"
  shows "name_taken db x s = Some (name_in_use db x s)"
proof -
  have key: "propdef_is s (str_hash s) d \<longleftrightarrow> name_key d = map cmap s" if "d \<in> set (defs_on db y)" for d y
    using propdef_is_key defs_okD [OF props_okD(3) [OF assms(1)] that] assms(3) by blast
  obtain obs where obs: "ancestry db x = Some obs"
      "find_up s (str_hash s) 0 obs = map_option (\<lambda>k. (fst (line_defs db x ! k), k))
         (propdef_index s (str_hash s) (map snd (line_defs db x)))"
    by (rule find_up_ancestry [OF assms(1,2)])
  have up: "propdef_index s (str_hash s) (map snd (line_defs db x)) = None \<longleftrightarrow>
      \<not> (\<exists>y \<in> set (line db x). \<exists>d \<in> set (defs_on db y). name_key d = map cmap s)"
    using key by (auto simp: propdef_index_None line_defs_def defs_of_def)
  note below = defined_at_or_below [OF props_okD(1) [OF assms(1)] assms(2), of s "str_hash s"]
  show ?thesis
  proof (cases "built_in_name s")
    case True
    then show ?thesis
      by (auto simp: name_taken_def db_find_property_def name_in_use_def built_in_name_def Let_def)
  next
    case nb: False
    show ?thesis
    proof (cases "propdef_index s (str_hash s) (map snd (line_defs db x))")
      case None
      then show ?thesis
        using nb obs up below key
        by (auto simp: name_taken_def db_find_property_def name_in_use_def built_in_name_def Let_def)
    next
      case (Some k)
      then have "name_in_use db x s" using up by (auto simp: name_in_use_def)
      then show ?thesis
        using nb obs Some
        by (simp add: name_taken_def db_find_property_def built_in_name_def Let_def split_def)
    qed
  qed
qed


section \<open>Adding a definition\<close>

text \<open>Changes that leave the two hierarchies alone.\<close>

definition keeps_links :: "('p object \<Rightarrow> 'p object) \<Rightarrow> bool" where
  "keeps_links g \<longleftrightarrow> keeps o_child g \<and> keeps o_sibling g \<and> keeps o_parent g
     \<and> keeps o_contents g \<and> keeps o_next g \<and> keeps o_location g \<and> keeps o_id g"

lemma same_structure:
  assumes "same_but g db db'" "keeps_links g"
  shows "hierarchy parent_fields db ks \<Longrightarrow> hierarchy parent_fields db' ks"
    and "rooted parent_fields db \<Longrightarrow> rooted parent_fields db'"
    and "forest parent_fields db \<Longrightarrow> forest parent_fields db'"
    and "forest location_fields db \<Longrightarrow> forest location_fields db'"
    and "line db' x = line db x" "valid db' x = valid db x" "sub db' x = sub db x"
proof -
  note k = assms(2) [unfolded keeps_links_def]
  show "hierarchy parent_fields db ks \<Longrightarrow> hierarchy parent_fields db' ks"
    using hierarchy_same [OF assms(1), of parent_fields] k by simp
  show "rooted parent_fields db \<Longrightarrow> rooted parent_fields db'"
    using rooted_same [OF assms(1), of parent_fields] k by simp
  show "forest parent_fields db \<Longrightarrow> forest parent_fields db'"
    using forest_same [OF assms(1), of parent_fields] k by simp
  show "forest location_fields db \<Longrightarrow> forest location_fields db'"
    using forest_same [OF assms(1), of location_fields] k by simp
  show l: "line db' x = line db x" for x
    using line_field_cong [OF same_but_field [OF assms(1)]] k assms(1) by (simp add: same_but_def)
  show v: "valid db' x = valid db x" for x using same_but_valid [OF assms(1)] .
  show "sub db' x = sub db x" by (simp add: sub_def l v)
qed

abbreviation no_defs :: "'p object \<Rightarrow> 'p object" where
  "no_defs ob \<equiv> ob\<lparr>o_propdefs := [], o_max_propdefs := 0\<rparr>"

abbreviation no_props :: "'p object \<Rightarrow> 'p object" where
  "no_props ob \<equiv> ob\<lparr>o_propdefs := [], o_max_propdefs := 0, o_propval := []\<rparr>"

lemma keeps_links_props [simp]:
  "keeps_links no_slots" "keeps_links no_defs" "keeps_links no_props"
  "keeps o_owner no_defs" "keeps o_propval no_defs" "keeps o_owner no_props"
  by (simp_all add: keeps_links_def keeps_def)

lemma map_of_zip_insert:
  assumes "length xs = length us" "k \<notin> set xs"
  shows "map_of (zip (xs @ k # ys) (us @ v # vs)) = (map_of (zip (xs @ ys) (us @ vs)))(k \<mapsto> v)"
  using assms
  by (auto simp: fun_eq_iff map_add_def split: option.split dest: map_of_SomeD set_zip_leftD)

lemma grow_propdefs_simps [simp]:
  "o_propdefs (grow_propdefs ob) = o_propdefs ob" "o_propval (grow_propdefs ob) = o_propval ob"
  "o_owner (grow_propdefs ob) = o_owner ob" "no_defs (grow_propdefs ob) = no_defs ob"
  "o_id (grow_propdefs ob) = o_id ob" "o_parent (grow_propdefs ob) = o_parent ob"
  by (simp_all add: grow_propdefs_def)

lemma grow_propdefs_room:
  "length (o_propdefs ob) \<le> o_max_propdefs ob \<Longrightarrow> length (o_propdefs ob) < o_max_propdefs (grow_propdefs ob)"
  by (auto simp: grow_propdefs_def)

text \<open>The slot an object of the subtree gets, and where: after the definitions that come before the new
  one on its line.\<close>

definition new_slot :: "'p db \<Rightarrow> objid \<Rightarrow> pval \<Rightarrow> objid \<Rightarrow> pval" where
  "new_slot db root pv x =
     chown_slot (owner_of db x) (if x = root then pv else pv\<lparr>p_var := VClear\<rparr>)"

text \<open>
  Two databases that differ by a definition \<open>d\<close> of \<open>oid\<close>, at the same place in its list: \<open>db\<close> without and
  \<open>db1\<close> with it.  On every line of the subtree the definitions before it are \<open>upto_defs\<close>.
\<close>

definition upto_defs :: "'p db \<Rightarrow> objid \<Rightarrow> propdef list \<Rightarrow> objid \<Rightarrow> (objid \<times> propdef) list" where
  "upto_defs db oid ds1 y = defs_of db (before db oid y) @ map (Pair oid) ds1"

definition extends :: "'p db \<Rightarrow> objid \<Rightarrow> propdef list \<Rightarrow> propdef \<Rightarrow> propdef list \<Rightarrow> 'p db \<Rightarrow> bool" where
  "extends db oid ds1 d ds2 db1 \<longleftrightarrow> rooted parent_fields db \<and> valid db oid \<and> same_but no_props db db1
     \<and> defs_on db oid = ds1 @ ds2
     \<and> (\<forall>y. defs_on db1 y = (if y = oid then ds1 @ d # ds2 else defs_on db y))"

lemma extends_upto:
  assumes "extends db oid ds1 d ds2 db1" "y \<in> sub db oid"
  obtains Z where "line_defs db y = upto_defs db oid ds1 y @ Z" "line_defs db1 y = upto_defs db oid ds1 y @ (oid, d) # Z"
    "upto_defs db1 oid ds1 y = upto_defs db oid ds1 y" "oid \<notin> fst ` set (drop (length ds2) Z)" "take (length ds2) Z = map (Pair oid) ds2"
proof -
  note e = assms(1) [unfolded extends_def]
  obtain ob where ob: "dbpriv_find_object db oid = Some ob" using e by (auto simp: valid_iff)
  have st: "line db1 x = line db x" for x using same_structure(5) [of no_props db db1] e by simp
  have other: "defs_of db1 xs = defs_of db xs" if "oid \<notin> set xs" for xs
    using that e by (induction xs) auto
  have lc: "line db oid = oid # line db (o_parent ob)" using line_Cons(1) ob e by blast
  have ch: "chain (field o_parent db) oid (line db oid)" using rooted_chain e by blast
  then have lp: "oid \<notin> set (line db (o_parent ob))" using chain_distinct [OF ch] lc by simp
  have b: "line db y = before db oid y @ line db oid" "oid \<notin> set (before db oid y)"
    using line_before [OF _ assms(2)] e by blast+
  have bb: "before db1 oid y = before db oid y" by (simp add: before_def st)
  show thesis
  proof
    show "line_defs db y = upto_defs db oid ds1 y @ (map (Pair oid) ds2 @ defs_of db (line db (o_parent ob)))"
      using b(1) lc e by (simp add: line_defs_def upto_defs_def)
    show "line_defs db1 y = upto_defs db oid ds1 y @ (oid, d) # (map (Pair oid) ds2 @ defs_of db (line db (o_parent ob)))"
      using b lc e other lp by (simp add: line_defs_def st upto_defs_def)
    show "upto_defs db1 oid ds1 y = upto_defs db oid ds1 y" using b(2) other by (simp add: upto_defs_def bb)
    show "oid \<notin> fst ` set (drop (length ds2) (map (Pair oid) ds2 @ defs_of db (line db (o_parent ob))))"
      using lp by (auto simp: set_defs_of)
  qed simp
qed

lemma extends_outside:
  assumes "extends db oid ds1 d ds2 db1" "y \<notin> sub db oid" "valid db y"
  shows "line_defs db1 y = line_defs db y"
proof -
  note e = assms(1) [unfolded extends_def]
  have st: "line db1 x = line db x" for x using same_structure(5) [of no_props db db1] e by simp
  have "defs_of db1 xs = defs_of db xs" if "oid \<notin> set xs" for xs
    using that e by (induction xs) auto
  then show ?thesis using assms(2,3) by (simp add: line_defs_def st sub_def)
qed

lemma extends_sub:
  assumes "extends db oid ds1 d ds2 db1"
  shows "sub db1 x = sub db x" "rooted parent_fields db1" "valid db1 x = valid db x"
  using assms same_structure [of no_props db db1] by (simp_all add: extends_def)

lemma upto_own:
  assumes "rooted parent_fields db" "dbpriv_find_object db y = Some ob" "y \<in> sub db oid"
  shows "y = oid \<Longrightarrow> upto_defs db oid ds1 y = map (Pair oid) ds1"
    and "y \<noteq> oid \<Longrightarrow> length (o_propdefs ob) \<le> length (upto_defs db oid ds1 y)"
proof -
  show "y = oid \<Longrightarrow> upto_defs db oid ds1 y = map (Pair oid) ds1"
    using assms before_root [OF assms(1)] by (simp add: upto_defs_def valid_iff)
  assume "y \<noteq> oid"
  then have "before db oid y = y # tl (before db oid y)"
    using line_Cons(1) [OF assms(1,2)] by (simp add: before_def)
  then have "defs_of db (before db oid y) = map (Pair y) (o_propdefs ob) @ defs_of db (tl (before db oid y))"
    using assms(2) by (metis defs_of_simps(2) defs_on_find)
  then show "length (o_propdefs ob) \<le> length (upto_defs db oid ds1 y)" by (simp add: upto_defs_def)
qed

text \<open>The recursions over the subtree put a slot in and take it out at this place.\<close>

lemma upto_child:
  assumes "hierarchy parent_fields db ks" "rooted parent_fields db" "x \<in> sub db root" "c \<in> set (ks x)"
    and "dbpriv_find_object db c = Some cob"
  shows "length (upto_defs db root ds1 c) = length (o_propdefs cob) + length (upto_defs db root ds1 x)" "c \<noteq> root"
  using before_child [OF assms(1-4)] assms(5) sub_not_parent [OF assms(1,2) sub_valid [OF assms(3)] assms(4)]
    assms(3) by (auto simp: upto_defs_def)

lemma count_stage:
  assumes "rooted parent_fields db" "valid db x"
  shows "dbpriv_count_properties (stage T S db) x = Some (length (line_defs db x))"
proof -
  have "valid (stage T S db) x" using assms(2) by (simp add: same_structure(6) [OF stage_same])
  then have "chain (field o_parent (stage T S db)) x (line (stage T S db) x)"
    using rooted_chain [OF same_structure(2) [OF stage_same _ assms(1)]] by simp
  then show ?thesis by (simp add: count_line_defs same_slots_hierarchy(7) [OF stage_same])
qed

definition slots_with :: "(pval \<Rightarrow> pval) \<Rightarrow> nat \<Rightarrow> pval \<Rightarrow> pval list \<Rightarrow> pval list" where
  "slots_with f k pv pvs = take k pvs @ f pv # drop k pvs"

lemma insert_prop_recursively_ok:
  assumes e: "extends db0 root ds d [] db" and f: "forest parent_fields db"
    and len: "\<And>x ob. x \<in> sub db root \<Longrightarrow> dbpriv_find_object db x = Some ob \<Longrightarrow>
      length (o_propval ob) = length (line_defs db0 x)"
  shows "insert_prop_recursively root (length ds) pv db = Some (stage (\<lambda>x.
    slots_with (chown_slot (owner_of db x)) (length (upto_defs db root ds x))
      (if x = root then pv else pv\<lparr>p_var := VClear\<rparr>)
      (case dbpriv_find_object db x of None \<Rightarrow> [] | Some ob \<Rightarrow> o_propval ob)) (sub db root) db)"
    (is "_ = Some (stage ?T _ _)")
proof -
  obtain ks where h: "hierarchy parent_fields db ks" "rooted parent_fields db"
    using f by (auto simp: forest_def)
  have vr: "valid db root" using e extends_sub(3) [OF e] by (simp add: extends_def)
  then obtain rob where r: "dbpriv_find_object db root = Some rob" by (auto simp: valid_iff)
  let ?pos = "\<lambda>x. length (upto_defs db root ds x)"
  let ?arg = "\<lambda>x. if x = root then pv else pv\<lparr>p_var := VClear\<rparr>"
  have step: "insert_prop x (?pos x) (?arg x) (stage ?T S db) = Some (stage ?T (insert x S) db)"
    if x: "x \<in> sub db root" "x \<notin> S" for x S
  proof -
    obtain ob where ob: "dbpriv_find_object db x = Some ob" using sub_valid [OF x(1)] by (auto simp: valid_iff)
    obtain Z where Z: "line_defs db0 x = upto_defs db0 root ds x @ Z" "line_defs db x = upto_defs db0 root ds x @ (root, d) # Z"
        "upto_defs db root ds x = upto_defs db0 root ds x"
      using extends_upto [OF e] x(1) extends_sub(1) [OF e] by metis
    have l: "length (o_propval ob) = ?pos x + length Z" using len [OF x(1) ob] Z by simp
    have "insert_prop x (?pos x) (?arg x) (stage ?T S db)
        = update_object x (\<lambda>ob. ob\<lparr>o_propval := ?T x\<rparr>) (stage ?T S db)"
      using count_stage [OF h(2) sub_valid [OF x(1)], of ?T S] ob x l Z
      by (simp add: insert_prop_def find_stage update_object_def slots_with_def owner_of_def)
    also have "\<dots> = Some (stage ?T (insert x S) db)" by (rule stage_upd [OF ob x(2)])
    finally show ?thesis .
  qed
  have "slots_recursively insert_prop (\<lambda>pv. pv\<lparr>p_var := VClear\<rparr>) (nat (num_objects db)) root (?pos root) (?arg root)
      (stage ?T {} db) = Some (stage ?T ({} \<union> sub db root) db)"
  proof (rule slots_recursively_stage [where opr = insert_prop and pos = ?pos and arg = ?arg and T = ?T
        and root = root and below = "\<lambda>pv. pv\<lparr>p_var := VClear\<rparr>", OF h])
    show "insert_prop x (?pos x) (?arg x) (stage ?T S db) = Some (stage ?T (insert x S) db)"
      if "x \<in> sub db root" "x \<notin> S" for x S using that by (rule step)
    show "?pos c = length (o_propdefs cob) + ?pos x \<and> ?arg c = (?arg x)\<lparr>p_var := VClear\<rparr>"
      if "x \<in> sub db root" "c \<in> set (ks x)" "dbpriv_find_object db c = Some cob" for x c cob
      using upto_child [OF h that] by simp
  qed (use sub_self [OF h(2) vr] line_Cons(1) [OF h(2) r] in auto)
  then show ?thesis
    using upto_own(1) [OF h(2) r sub_self [OF h(2) vr]] by (simp add: insert_prop_recursively_def)
qed

lemma remove_prop_recursively_ok:
  assumes e: "extends db root ds1 d ds2 db1" and f: "forest parent_fields db"
    and len: "\<And>x ob. x \<in> sub db root \<Longrightarrow> dbpriv_find_object db x = Some ob \<Longrightarrow>
      length (o_propval ob) = length (line_defs db1 x)"
  shows "remove_prop_recursively root (length ds1) db = Some (stage (\<lambda>x.
    (case dbpriv_find_object db x of None \<Rightarrow> [] | Some ob \<Rightarrow>
       take (length (upto_defs db root ds1 x)) (o_propval ob) @ drop (length (upto_defs db root ds1 x) + 1) (o_propval ob)))
    (sub db root) db)" (is "_ = Some (stage ?T _ _)")
proof -
  obtain ks where h: "hierarchy parent_fields db ks" "rooted parent_fields db"
    using f by (auto simp: forest_def)
  have vr: "valid db root" using e by (simp add: extends_def)
  then obtain rob where r: "dbpriv_find_object db root = Some rob" by (auto simp: valid_iff)
  let ?pos = "\<lambda>x. length (upto_defs db root ds1 x)" and ?opr = "\<lambda>oid pos (_ :: unit). remove_prop oid pos"
  have step: "remove_prop x (?pos x) (stage ?T S db) = Some (stage ?T (insert x S) db)"
    if x: "x \<in> sub db root" "x \<notin> S" for x S
  proof -
    obtain ob where ob: "dbpriv_find_object db x = Some ob" using sub_valid [OF x(1)] by (auto simp: valid_iff)
    obtain Z where Z: "line_defs db x = upto_defs db root ds1 x @ Z" "line_defs db1 x = upto_defs db root ds1 x @ (root, d) # Z"
      using extends_upto [OF e x(1)] by metis
    have l: "length (o_propval ob) = ?pos x + 1 + length Z" using len [OF x(1) ob] Z by simp
    have "remove_prop x (?pos x) (stage ?T S db) = update_object x (\<lambda>ob. ob\<lparr>o_propval := ?T x\<rparr>) (stage ?T S db)"
      using count_stage [OF h(2) sub_valid [OF x(1)], of ?T S] ob x l Z
      by (simp add: remove_prop_def find_stage update_object_def)
    also have "\<dots> = Some (stage ?T (insert x S) db)" by (rule stage_upd [OF ob x(2)])
    finally show ?thesis .
  qed
  have "slots_recursively ?opr id (nat (num_objects db)) root (?pos root) ()
      (stage ?T {} db) = Some (stage ?T ({} \<union> sub db root) db)"
  proof (rule slots_recursively_stage [where opr = ?opr and pos = ?pos and arg = "\<lambda>_. ()" and T = ?T
        and root = root and below = id, OF h])
    show "remove_prop x (?pos x) (stage ?T S db) = Some (stage ?T (insert x S) db)"
      if "x \<in> sub db root" "x \<notin> S" for x S using that by (rule step)
    show "?pos c = length (o_propdefs cob) + ?pos x \<and> () = id ()"
      if "x \<in> sub db root" "c \<in> set (ks x)" "dbpriv_find_object db c = Some cob" for x c cob
      using upto_child [OF h that] by simp
  qed (use sub_self [OF h(2) vr] line_Cons(1) [OF h(2) r] in auto)
  then show ?thesis
    using upto_own(1) [OF h(2) r sub_self [OF h(2) vr]] by (simp add: remove_prop_recursively_def)
qed

lemma chown_slot_var [simp]: "p_var (chown_slot w pv) = p_var pv"
  by (simp add: chown_slot_def)

lemma owner_of_same: "same_but g db db' \<Longrightarrow> keeps o_owner g \<Longrightarrow> owner_of db' x = owner_of db x"
  using same_but_field [of g db db' o_owner] by (auto simp: owner_of_def field_def fun_eq_iff split: option.splits)
    (metis option.simps(8,9) option.distinct(1) option.inject)+

lemma built_in_name_key:
  assumes "cstring s" "cstring t" "map cmap s = map cmap t" "built_in_name s"
  shows "built_in_name t"
proof -
  have "find_built_in s (str_hash s) tab = find_built_in t (str_hash t) tab" if "\<forall>(n, p) \<in> set tab. cstring n" for tab
    using that
  proof (induction tab)
    case (Cons a tab)
    obtain n p where a: "a = (n, p)" by (cases a)
    have "str_hash s = str_hash t" using assms(3) str_hash_map_cmap by metis
    then show ?case
      using Cons a assms(1-3) mystrcasecmp_0 [of s n] mystrcasecmp_0 [of t n] by simp
  qed simp
  moreover have "\<forall>(n, p) \<in> set ptable. cstring n" by (simp add: ptable_def)
  ultimately show ?thesis using assms(4) by (simp add: built_in_name_def)
qed

text \<open>One object of the subtree, without and with the slot \<open>w\<close> for the definition.\<close>

definition object_extends ::
  "'p db \<Rightarrow> objid \<Rightarrow> propdef list \<Rightarrow> objid \<Rightarrow> 'p object \<Rightarrow> pval \<Rightarrow> 'p object \<Rightarrow> bool" where
  "object_extends db oid ds1 y ob w ob1 \<longleftrightarrow>
     (\<exists>us vs. o_propval ob = us @ vs \<and> o_propval ob1 = us @ w # vs \<and> length us = length (upto_defs db oid ds1 y))"

lemma extends_own:
  assumes e: "extends db oid ds1 d ds2 db1" and y: "y \<in> sub db oid"
    and ob: "dbpriv_find_object db y = Some ob" "dbpriv_find_object db1 y = Some ob1"
    and ext: "object_extends db oid ds1 y ob w ob1"
  shows "set (take (length (o_propdefs ob1)) (o_propval ob1)) =
      set (take (length (o_propdefs ob)) (o_propval ob)) \<union> (if y = oid then {w} else {})"
    and "set (o_propdefs ob1) = set (o_propdefs ob) \<union> (if y = oid then {d} else {})"
proof -
  have r: "rooted parent_fields db" using e by (simp add: extends_def)
  obtain us vs where us: "o_propval ob = us @ vs" "o_propval ob1 = us @ w # vs"
      "length us = length (upto_defs db oid ds1 y)"
    using ext by (auto simp: object_extends_def)
  have d: "o_propdefs ob = ds1 @ ds2" "o_propdefs ob1 = ds1 @ d # ds2" if "y = oid"
    using e that ob defs_on_find [OF ob(1)] defs_on_find [OF ob(2)] by (auto simp: extends_def)
  have d': "o_propdefs ob1 = o_propdefs ob" if "y \<noteq> oid"
    using e that defs_on_find [OF ob(1)] defs_on_find [OF ob(2)] by (auto simp: extends_def)
  note own = upto_own [OF r ob(1) y, of ds1]
  show "set (take (length (o_propdefs ob1)) (o_propval ob1)) =
      set (take (length (o_propdefs ob)) (o_propval ob)) \<union> (if y = oid then {w} else {})"
  proof (cases "y = oid")
    case True
    then have "length us = length ds1" using own(1) us(3) by simp
    then show ?thesis using True d us(1,2) by auto
  next
    case False
    then show ?thesis using own(2) us d' by simp
  qed
  show "set (o_propdefs ob1) = set (o_propdefs ob) \<union> (if y = oid then {d} else {})"
    using d d' by auto
qed

lemma extends_object_ok:
  assumes e: "extends db oid ds1 d ds2 db1" and y: "y \<in> sub db oid"
    and ob: "dbpriv_find_object db y = Some ob" "dbpriv_find_object db1 y = Some ob1"
    and ext: "object_extends db oid ds1 y ob w ob1"
  shows "object_props_ok db1 y ob1 \<Longrightarrow> length (o_propdefs ob) \<le> o_max_propdefs ob \<Longrightarrow> object_props_ok db y ob"
    and "object_props_ok db y ob \<Longrightarrow> name_key d \<notin> set (map (name_key \<circ> snd) (line_defs db y)) \<Longrightarrow>
      propdef_ok d \<Longrightarrow> \<not> built_in_name (pd_name d) \<Longrightarrow> (y = oid \<Longrightarrow> p_var w \<noteq> VClear) \<Longrightarrow>
      length (o_propdefs ob1) \<le> o_max_propdefs ob1 \<Longrightarrow> object_props_ok db1 y ob1"
proof -
  obtain us vs where us: "o_propval ob = us @ vs" "o_propval ob1 = us @ w # vs"
      "length us = length (upto_defs db oid ds1 y)"
    using ext by (auto simp: object_extends_def)
  obtain Z where Z: "line_defs db y = upto_defs db oid ds1 y @ Z" "line_defs db1 y = upto_defs db oid ds1 y @ (oid, d) # Z"
    using extends_upto [OF e y] by metis
  note own = extends_own [OF e y ob ext]
  show "object_props_ok db1 y ob1 \<Longrightarrow> length (o_propdefs ob) \<le> o_max_propdefs ob \<Longrightarrow> object_props_ok db y ob"
    using us Z own by (auto simp: object_props_ok_def)
  show "object_props_ok db y ob \<Longrightarrow> name_key d \<notin> set (map (name_key \<circ> snd) (line_defs db y)) \<Longrightarrow>
      propdef_ok d \<Longrightarrow> \<not> built_in_name (pd_name d) \<Longrightarrow> (y = oid \<Longrightarrow> p_var w \<noteq> VClear) \<Longrightarrow>
      length (o_propdefs ob1) \<le> o_max_propdefs ob1 \<Longrightarrow> object_props_ok db1 y ob1"
    using us Z own by (auto simp: object_props_ok_def split: if_splits)
qed

lemma extends_slot_map:
  assumes e: "extends db oid ds1 d ds2 db1" and y: "y \<in> sub db oid"
    and ob: "dbpriv_find_object db y = Some ob" "dbpriv_find_object db1 y = Some ob1"
    and ext: "object_extends db oid ds1 y ob w ob1" and new: "d \<notin> set ds1"
  shows "slot_map db1 y = (slot_map db y)((oid, d) \<mapsto> w)"
proof -
  obtain us vs where us: "o_propval ob = us @ vs" "o_propval ob1 = us @ w # vs"
      "length us = length (upto_defs db oid ds1 y)"
    using ext by (auto simp: object_extends_def)
  obtain Z where Z: "line_defs db y = upto_defs db oid ds1 y @ Z" "line_defs db1 y = upto_defs db oid ds1 y @ (oid, d) # Z"
    using extends_upto [OF e y] by metis
  have "(oid, d) \<notin> set (upto_defs db oid ds1 y)"
    using line_before(2) [of db y oid] e y new by (auto simp: upto_defs_def set_defs_of extends_def)
  then show ?thesis
    using ob us Z map_of_zip_insert [of "upto_defs db oid ds1 y" us] by (simp add: slot_map_def)
qed

lemma extends_outside_ok:
  assumes e: "extends db oid ds1 d ds2 db1" and y: "y \<notin> sub db oid"
    and ob: "dbpriv_find_object db1 y = dbpriv_find_object db y"
  shows "slot_map db1 y = slot_map db y"
    and "dbpriv_find_object db y = Some oby \<Longrightarrow> object_props_ok db1 y oby = object_props_ok db y oby"
  using extends_outside [OF e y] ob
  by (auto simp: slot_map_def object_props_ok_def valid_iff split: option.split)

lemma extends_stage:
  "extends db0 oid ds1 d ds2 db1 \<Longrightarrow> extends db0 oid ds1 d ds2 (stage T S db1)"
  "extends db0 oid ds1 d ds2 db1 \<Longrightarrow> extends (stage T S db0) oid ds1 d ds2 db1"
proof -
  have c: "same_but no_props db (stage T S db)" for db :: "'a db"
    by (rule same_but_coarser [OF stage_same, of no_props no_props]) simp
  have c': "same_but no_props (stage T S db) db" for db :: "'a db"
    using c [of db] by (simp add: same_but_def)
  show "extends db0 oid ds1 d ds2 db1 \<Longrightarrow> extends db0 oid ds1 d ds2 (stage T S db1)"
    using same_but_trans [OF _ c, of db0 db1]
    by (simp add: extends_def same_slots_hierarchy(6) [OF stage_same])
  show "extends db0 oid ds1 d ds2 db1 \<Longrightarrow> extends (stage T S db0) oid ds1 d ds2 db1"
    using same_but_trans [OF c', of db0 db1] same_slots_hierarchy(2) [OF stage_same, of db0]
    by (simp add: extends_def same_slots_hierarchy(6) [OF stage_same] same_structure(6) [OF stage_same])
qed

text \<open>A name that is not in use is not on the line of any member of the subtree.\<close>

lemma name_not_on_lines:
  assumes "rooted parent_fields db" "\<not> name_in_use db oid s" "y \<in> sub db oid"
  shows "map cmap s \<notin> set (map (name_key \<circ> snd) (line_defs db y))"
proof
  assume "map cmap s \<in> set (map (name_key \<circ> snd) (line_defs db y))"
  then obtain z e where ze: "z \<in> set (line db y)" "e \<in> set (defs_on db z)" "name_key e = map cmap s"
    unfolding line_defs_def by (auto simp: set_defs_of)
  have "z \<in> set (line db oid) \<union> sub db oid"
    using ze(1) line_before(1) [OF assms(1,3)] before_sub [OF assms(1,3)] by auto
  then show False using assms(2) ze by (auto simp: name_in_use_def)
qed

text \<open>A definition is added exactly when no ancestor, descendant or built-in property has the name.
  Every object of the subtree then gets one more slot, which holds the value at the object itself and is
  clear below, and is owned by the object under the \<^verbatim>\<open>c\<close> flag; all other slots keep their values, and the
  layout of slots stays correct.\<close>

lemma db_add_propdef_ok:
  assumes ok: "props_ok db" and "valid db oid" "cstring pname" "v \<noteq> VClear"
  shows "case db_add_propdef oid pname v owner flags db of
      None \<Rightarrow> False
    | Some (added, db') \<Rightarrow>
        added = (\<not> name_in_use db oid pname)
        \<and> (if added then
             props_ok db' \<and> same_but no_props db db'
             \<and> (\<forall>y. slot_map db' y = (if y \<in> sub db oid
                  then (slot_map db y)((oid, dbpriv_new_propdef pname) \<mapsto> chown_slot (owner_of db y)
                    \<lparr>p_var = (if y = oid then v else VClear), p_owner = owner, p_perms = ucast flags\<rparr>)
                  else slot_map db y))
           else db' = db)"
proof (cases "name_in_use db oid pname")
  case True
  then show ?thesis
    using name_taken_in_use [OF ok assms(2,3)] by (simp add: db_add_propdef_def)
next
  case False
  obtain ob where ob: "dbpriv_find_object db oid = Some ob" using assms(2) by (auto simp: valid_iff)
  define d where "d = dbpriv_new_propdef pname"
  define ob1 where "ob1 = (grow_propdefs ob)\<lparr>o_propdefs := o_propdefs ob @ [d]\<rparr>"
  define db1 where "db1 = upd oid ob1 db"
  define pv where "pv = \<lparr>p_var = v, p_owner = owner, p_perms = ucast flags\<rparr>"
  note P = props_okD [OF ok]
  have obp: "object_props_ok db oid ob" using P(4) ob .
  have f1: "dbpriv_find_object db1 y = (if y = oid then Some ob1 else dbpriv_find_object db y)" for y
    using ob by (simp add: db1_def)
  have s1: "same_but no_defs db db1"
    unfolding db1_def using ob by (rule same_but_upd) (simp add: ob1_def)
  note st1 = same_structure [OF s1, simplified]
  have e1: "extends db oid (o_propdefs ob) d [] db1"
    using P(2) assms(2) ob same_but_coarser [OF s1, of no_props no_props]
    by (simp add: extends_def defs_on_def f1 ob1_def)
  have pv1: "o_propval oy1 = o_propval oy"
    if "dbpriv_find_object db1 y = Some oy1" "dbpriv_find_object db y = Some oy" for y oy1 oy
    using that ob by (auto simp: f1 ob1_def split: if_splits)
  define T where "T x = slots_with (chown_slot (owner_of db1 x)) (length (upto_defs db1 oid (o_propdefs ob) x))
      (if x = oid then pv else pv\<lparr>p_var := VClear\<rparr>)
      (case dbpriv_find_object db1 x of None \<Rightarrow> [] | Some ob \<Rightarrow> o_propval ob)" for x
  define db' where "db' = stage T (sub db1 oid) db1"
  have "insert_prop_recursively oid (length (o_propdefs ob)) pv db1 = Some db'"
    unfolding db'_def T_def
  proof (rule insert_prop_recursively_ok [OF e1 st1(3) [OF P(1)]])
    fix x obx assume x: "x \<in> sub db1 oid" "dbpriv_find_object db1 x = Some obx"
    then obtain oy where "dbpriv_find_object db x = Some oy" using sub_valid [of x db oid] st1(7) by (auto simp: valid_iff)
    then show "length (o_propval obx) = length (line_defs db x)"
      using pv1 [OF x(2)] P(4) [of x oy] by (simp add: object_props_ok_def)
  qed
  moreover have room: "length (o_propdefs ob) < o_max_propdefs (grow_propdefs ob)"
    using grow_propdefs_room obp by (auto simp: object_props_ok_def)
  moreover have "update_object oid (\<lambda>_. ob1) db = Some db1" by (simp add: update_object_upd [OF ob] db1_def)
  ultimately have res: "db_add_propdef oid pname v owner flags db = Some (True, db')"
    using name_taken_in_use [OF ok assms(2,3)] False ob
    by (simp add: db_add_propdef_def ob1_def [symmetric] d_def [symmetric] pv_def [symmetric] Let_def)
  have e': "extends db oid (o_propdefs ob) d [] db'" unfolding db'_def by (rule extends_stage(1) [OF e1])
  have mem: "slot_map db' y = (slot_map db y)((oid, d) \<mapsto> chown_slot (owner_of db y) (if y = oid then pv else pv\<lparr>p_var := VClear\<rparr>))
      \<and> (\<forall>oy'. dbpriv_find_object db' y = Some oy' \<longrightarrow> o_id oy' = y \<and> object_props_ok db' y oy')"
    if y: "y \<in> sub db oid" for y
  proof -
    let ?w = "chown_slot (owner_of db y) (if y = oid then pv else pv\<lparr>p_var := VClear\<rparr>)"
    obtain oy where oy: "dbpriv_find_object db y = Some oy" using sub_valid [OF y] by (auto simp: valid_iff)
    obtain oy1 where oy1: "dbpriv_find_object db1 y = Some oy1" using f1 [of y] oy by (cases "y = oid") auto
    let ?oy' = "oy1\<lparr>o_propval := T y\<rparr>"
    have f': "dbpriv_find_object db' y = Some ?oy'" using oy1 y st1(7) by (simp add: db'_def find_stage)
    have "owner_of db1 y = owner_of db y" by (rule owner_of_same [OF s1]) simp
    moreover obtain Z where Z: "line_defs db y = upto_defs db oid (o_propdefs ob) y @ Z"
        "upto_defs db1 oid (o_propdefs ob) y = upto_defs db oid (o_propdefs ob) y"
      using extends_upto [OF e1 y] by metis
    moreover have "length (o_propval oy) = length (line_defs db y)"
      using P(4) [OF oy] by (simp add: object_props_ok_def)
    ultimately have ext: "object_extends db oid (o_propdefs ob) y oy ?w ?oy'"
      unfolding object_extends_def using pv1 [OF oy1 oy] oy1
      by (intro exI [of _ "take (length (upto_defs db oid (o_propdefs ob) y)) (o_propval oy)"]
          exI [of _ "drop (length (upto_defs db oid (o_propdefs ob) y)) (o_propval oy)"])
        (simp add: T_def slots_with_def)
    have key: "name_key d \<notin> set (map (name_key \<circ> snd) (line_defs db z))" if "z \<in> sub db oid" for z
      using name_not_on_lines [OF P(2) False that] by (simp add: d_def)
    then have "d \<notin> set (o_propdefs ob)"
      using sub_self [OF P(2) assms(2)] line_defs_before [OF P(2) _ ob, of oid] by force
    moreover have "propdef_ok d" by (simp add: d_def new_propdef_ok assms(3))
    moreover have "\<not> built_in_name (pd_name d)"
      using False by (simp add: d_def name_in_use_def dbpriv_new_propdef_def)
    moreover have "length (o_propdefs ?oy') \<le> o_max_propdefs ?oy'"
      using oy1 f1 [of y] oy P(4) [OF oy] room by (auto simp: object_props_ok_def ob1_def split: if_splits)
    moreover have "y = oid \<Longrightarrow> p_var ?w \<noteq> VClear" using assms(4) by (simp add: pv_def)
    ultimately have "object_props_ok db' y ?oy'" "slot_map db' y = (slot_map db y)((oid, d) \<mapsto> ?w)"
      using extends_object_ok(2) [OF e' y oy f' ext P(4) [OF oy] key [OF y]] extends_slot_map [OF e' y oy f' ext] by auto
    moreover have "o_id oy1 = y" using oy1 f1 [of y] oy P(5) [OF oy] ob by (auto simp: ob1_def split: if_splits)
    ultimately show ?thesis using f' by simp
  qed
  have out: "slot_map db' y = slot_map db y
      \<and> (\<forall>ob'. dbpriv_find_object db' y = Some ob' \<longrightarrow> o_id ob' = y \<and> object_props_ok db' y ob')"
    if y: "y \<notin> sub db oid" for y
  proof -
    have "dbpriv_find_object db' y = dbpriv_find_object db y"
      using y sub_self [OF P(2) assms(2)] f1 [of y] st1(7) by (auto simp: db'_def find_stage)
    then show ?thesis using extends_outside_ok [OF e' y] P(4,5) by auto
  qed
  have "same_but no_props db db'" using e' by (simp add: extends_def)
  moreover have "props_ok db'"
    unfolding props_ok_def using same_structure(3) [OF calculation] P(1) mem out by simp blast
  moreover have "(if y = oid then pv else pv\<lparr>p_var := VClear\<rparr>)
      = \<lparr>p_var = (if y = oid then v else VClear), p_owner = owner, p_perms = ucast flags\<rparr>" for y
    by (simp add: pv_def)
  ultimately show ?thesis using res mem out False by (simp add: d_def)
qed


section \<open>Deleting a definition\<close>

lemma shrink_propdefs_ok:
  assumes "i < length (o_propdefs ob)" "length (o_propdefs ob) \<le> o_max_propdefs ob"
  shows "\<exists>ob'. shrink_propdefs i ob = Some ob'
    \<and> o_propdefs ob' = take i (o_propdefs ob) @ drop (Suc i) (o_propdefs ob)
    \<and> no_defs ob' = no_defs ob \<and> length (o_propdefs ob') \<le> o_max_propdefs ob'"
proof (cases "8 < o_max_propdefs ob \<and> length (o_propdefs ob) \<le> o_max_propdefs ob * 3 div 8")
  case True
  then have "length (o_propdefs ob) - 1 \<le> o_max_propdefs ob div 2" by linarith
  then show ?thesis using True assms(1) by (simp add: shrink_propdefs_def Let_def)
next
  case False
  then show ?thesis using assms by (simp add: shrink_propdefs_def Let_def)
qed

lemma line_defs_distinct: "object_props_ok db x ob \<Longrightarrow> distinct (line_defs db x)"
  by (auto simp: object_props_ok_def distinct_map)

lemma slot_map_None: "k \<notin> set (line_defs db y) \<Longrightarrow> slot_map db y k = None"
  by (auto simp: slot_map_def map_of_eq_None_iff split: option.split dest: set_zip_leftD)

text \<open>A definition is deleted exactly when the object itself has one of that name. Every object of the
  subtree then loses its slot for it and no other, the block of definitions may be halved but always holds
  the remaining ones, and the layout of slots stays correct.\<close>

lemma db_delete_propdef_ok:
  assumes ok: "props_ok db" and "valid db oid" "cstring pname"
  shows "case db_delete_propdef oid pname db of
      None \<Rightarrow> False
    | Some (deleted, db') \<Rightarrow>
        if deleted then
          props_ok db' \<and> same_but no_props db db'
          \<and> (\<exists>d \<in> set (defs_on db oid). name_key d = map cmap pname \<and> d \<notin> set (defs_on db' oid)
              \<and> (\<forall>y. slot_map db' y = (if y \<in> sub db oid then (slot_map db y)((oid, d) := None) else slot_map db y)))
        else db' = db \<and> (\<forall>d \<in> set (defs_on db oid). name_key d \<noteq> map cmap pname)"
proof -
  obtain ob where ob: "dbpriv_find_object db oid = Some ob" using assms(2) by (auto simp: valid_iff)
  note P = props_okD [OF ok]
  have obp: "object_props_ok db oid ob" using P(4) ob .
  have key: "propdef_is pname (str_hash pname) e \<longleftrightarrow> name_key e = map cmap pname" if "e \<in> set (o_propdefs ob)" for e
    using propdef_is_key that obp assms(3) by (auto simp: object_props_ok_def)
  show ?thesis
  proof (cases "propdef_index pname (str_hash pname) (o_propdefs ob)")
    case None
    then have "\<forall>e \<in> set (o_propdefs ob). \<not> propdef_is pname (str_hash pname) e" using propdef_index_None by metis
    then show ?thesis using ob key None by (simp add: db_delete_propdef_def)
  next
    case (Some i)
    define d ds1 ds2 where "d = o_propdefs ob ! i" "ds1 = take i (o_propdefs ob)" "ds2 = drop (Suc i) (o_propdefs ob)"
    have i: "i < length (o_propdefs ob)" "propdef_is pname (str_hash pname) d"
      using propdef_index_Some [OF Some] by (auto simp: d_ds1_ds2_def)
    have split: "o_propdefs ob = ds1 @ d # ds2" unfolding d_ds1_ds2_def using i(1) by (rule id_take_nth_drop)
    have dk: "d \<in> set (o_propdefs ob)" "name_key d = map cmap pname" using i key split by auto
    obtain ob0 where ob0: "shrink_propdefs i ob = Some ob0" "o_propdefs ob0 = ds1 @ ds2"
        "no_defs ob0 = no_defs ob" "length (o_propdefs ob0) \<le> o_max_propdefs ob0"
      using shrink_propdefs_ok [OF i(1)] obp by (auto simp: object_props_ok_def d_ds1_ds2_def)
    define db0 where "db0 = upd oid ob0 db"
    have f0: "dbpriv_find_object db0 y = (if y = oid then Some ob0 else dbpriv_find_object db y)" for y
      using ob by (simp add: db0_def)
    have s0: "same_but no_defs db db0" unfolding db0_def using ob ob0(3) by (rule same_but_upd)
    note st0 = same_structure [OF s0, simplified]
    have "same_but no_props db0 db"
      using same_but_coarser [OF s0, of no_props no_props] by (simp add: same_but_def)
    then have e0: "extends db0 oid ds1 d ds2 db"
      using st0(2) [OF P(2)] assms(2) ob ob0(2) split st0(6)
      by (simp add: extends_def defs_on_def f0)
    have pv0: "o_propval oy0 = o_propval oy \<and> o_id oy0 = o_id oy"
      if "dbpriv_find_object db0 y = Some oy0" "dbpriv_find_object db y = Some oy" for y oy0 oy
    proof (cases "y = oid")
      case True
      then show ?thesis
        using that f0 ob arg_cong [OF ob0(3), of o_propval] arg_cong [OF ob0(3), of o_id] by simp
    qed (use that f0 in simp)
    define T where "T x = (case dbpriv_find_object db0 x of None \<Rightarrow> [] | Some ob \<Rightarrow>
        take (length (upto_defs db0 oid ds1 x)) (o_propval ob) @ drop (length (upto_defs db0 oid ds1 x) + 1) (o_propval ob))" for x
    define db' where "db' = stage T (sub db0 oid) db0"
    have "remove_prop_recursively oid (length ds1) db0 = Some db'"
      unfolding db'_def T_def
    proof (rule remove_prop_recursively_ok [OF e0 st0(3) [OF P(1)]])
      fix x obx assume x: "x \<in> sub db0 oid" "dbpriv_find_object db0 x = Some obx"
      then obtain oy where "dbpriv_find_object db x = Some oy" using sub_valid [of x db oid] st0(7) by (auto simp: valid_iff)
      then show "length (o_propval obx) = length (line_defs db x)"
        using pv0 [OF x(2)] P(4) [of x oy] by (simp add: object_props_ok_def)
    qed
    moreover have "length ds1 = i" using i(1) by (simp add: d_ds1_ds2_def)
    moreover have "update_object oid (\<lambda>_. ob0) db = Some db0" by (simp add: update_object_upd [OF ob] db0_def)
    ultimately have res: "db_delete_propdef oid pname db = Some (True, db')"
      using ob Some ob0(1) by (simp add: db_delete_propdef_def)
    have e': "extends db' oid ds1 d ds2 db" unfolding db'_def by (rule extends_stage(2) [OF e0])
    have sub: "sub db' oid = sub db oid" using extends_sub(1) [OF e'] by simp
    have mem: "slot_map db' y = (slot_map db y)((oid, d) := None)
        \<and> (\<forall>oy'. dbpriv_find_object db' y = Some oy' \<longrightarrow> o_id oy' = y \<and> object_props_ok db' y oy')"
      if y: "y \<in> sub db oid" for y
    proof -
      obtain oy where oy: "dbpriv_find_object db y = Some oy" using sub_valid [OF y] by (auto simp: valid_iff)
      obtain oy0 where oy0: "dbpriv_find_object db0 y = Some oy0" using f0 [of y] oy by (cases "y = oid") auto
      let ?oy' = "oy0\<lparr>o_propval := T y\<rparr>" and ?X = "upto_defs db0 oid ds1 y"
      have y': "y \<in> sub db' oid" using y sub by simp
      have f': "dbpriv_find_object db' y = Some ?oy'" using oy0 y st0(7) by (simp add: db'_def find_stage)
      have y0: "y \<in> sub db0 oid" using y st0(7) by simp
      obtain Z where Z: "line_defs db0 y = ?X @ Z" "line_defs db y = ?X @ (oid, d) # Z" "upto_defs db oid ds1 y = ?X"
        by (rule extends_upto [OF e0 y0])
      have len: "length (o_propval oy) = length ?X + 1 + length Z"
        using P(4) [OF oy] Z by (simp add: object_props_ok_def)
      have X': "upto_defs db' oid ds1 y = ?X"
        by (rule extends_upto [OF e' y']) (use Z(3) in simp)
      have ext: "object_extends db' oid ds1 y ?oy' (o_propval oy ! length ?X) oy"
        unfolding object_extends_def X'
      proof (intro exI conjI)
        show "o_propval oy = take (length ?X) (o_propval oy) @ o_propval oy ! length ?X
            # drop (Suc (length ?X)) (o_propval oy)" by (rule id_take_nth_drop) (use len in simp)
        show "o_propval ?oy' = take (length ?X) (o_propval oy) @ drop (Suc (length ?X)) (o_propval oy)"
          using pv0 [OF oy0 oy] oy0 by (simp add: T_def)
      qed (use len in simp)
      have dist: "distinct (line_defs db y)" by (rule line_defs_distinct [OF P(4) [OF oy]])
      have "d \<notin> set ds1"
        using obp split by (auto simp: object_props_ok_def line_defs_before [OF P(2) sub_self [OF P(2) assms(2)] ob])
      then have "slot_map db y = (slot_map db' y)((oid, d) \<mapsto> o_propval oy ! length ?X)"
        by (rule extends_slot_map [OF e' y' f' oy ext])
      moreover have "line_defs db' y = ?X @ Z"
        using Z(1) same_slots_hierarchy(7) [OF stage_same, of T "sub db0 oid" db0] by (simp add: db'_def)
      then have "slot_map db' y (oid, d) = None" using dist Z(2) by (intro slot_map_None) auto
      ultimately have m: "slot_map db' y = (slot_map db y)((oid, d) := None)" by auto
      have "length (o_propdefs ?oy') \<le> o_max_propdefs ?oy'"
        using oy0 f0 [of y] oy P(4) [OF oy] ob0(4) by (auto simp: object_props_ok_def split: if_splits)
      then have "object_props_ok db' y ?oy'"
        by (rule extends_object_ok(1) [OF e' y' f' oy ext P(4) [OF oy]])
      then show ?thesis using m f' pv0 [OF oy0 oy] P(5) [OF oy] by simp
    qed
    have out: "slot_map db' y = slot_map db y
        \<and> (\<forall>ob'. dbpriv_find_object db' y = Some ob' \<longrightarrow> o_id ob' = y \<and> object_props_ok db' y ob')"
      if y: "y \<notin> sub db oid" for y
    proof -
      have f: "dbpriv_find_object db y = dbpriv_find_object db' y"
        using y sub_self [OF P(2) assms(2)] f0 [of y] st0(7) by (auto simp: db'_def find_stage)
      have "y \<notin> sub db' oid" using y sub by simp
      note o = extends_outside_ok [OF e' this f]
      show ?thesis
      proof (intro conjI allI impI)
        show "slot_map db' y = slot_map db y" using o(1) ..
        fix oy assume oy: "dbpriv_find_object db' y = Some oy"
        show "o_id oy = y" using P(5) [of y oy] oy f by simp
        show "object_props_ok db' y oy" using o(2) [OF oy] P(4) [of y oy] oy f by simp
      qed
    qed
    have s': "same_but no_props db' db" using e' by (simp add: extends_def)
    then have s'': "same_but no_props db db'" by (simp add: same_but_def)
    have "props_ok db'"
      unfolding props_ok_def using same_structure(3) [OF s''] P(1) mem out by simp blast
    moreover have "d \<notin> set (defs_on db' oid)"
    proof -
      have "defs_on db' oid = ds1 @ ds2" using e' by (simp add: extends_def)
      then show ?thesis
        using obp split by (auto simp: object_props_ok_def line_defs_before [OF P(2) sub_self [OF P(2) assms(2)] ob])
    qed
    moreover have "\<forall>y. slot_map db' y = (if y \<in> sub db oid then (slot_map db y)((oid, d) := None) else slot_map db y)"
      using mem out by simp
    moreover have "d \<in> set (defs_on db oid)" using dk ob by simp
    ultimately show ?thesis unfolding res using s'' dk(2) by simp blast
  qed
qed

section \<open>Looking up a value\<close>

text \<open>The value of an inherited property: that of the nearest slot on the line that is not clear.\<close>

fun nearest_value :: "'p db \<Rightarrow> objid \<times> propdef \<Rightarrow> objid list \<Rightarrow> var option" where
  "nearest_value db k [] = None"
| "nearest_value db k (y # ys) =
     (case slot_map db y k of
        None \<Rightarrow> None
      | Some s \<Rightarrow> if p_var s = VClear then nearest_value db k ys else Some (p_var s))"

lemma slot_map_nth:
  assumes "props_ok db" "dbpriv_find_object db x = Some ob" "n < length (line_defs db x)"
  shows "slot_map db x (line_defs db x ! n) = Some (o_propval ob ! n)" "n < length (o_propval ob)"
proof -
  have len: "length (line_defs db x) = length (o_propval ob)"
    using props_okD(4) [OF assms(1,2)] by (simp add: object_props_ok_def)
  then show "n < length (o_propval ob)" using assms(3) by simp
  then show "slot_map db x (line_defs db x ! n) = Some (o_propval ob ! n)"
    using map_of_zip_nth [OF len line_defs_distinct [OF props_okD(4) [OF assms(1,2)]]] assms(2)
    by (simp add: slot_map_def)
qed

lemma clear_walk_nearest:
  assumes "props_ok db"
  shows "valid db x \<Longrightarrow> n < length (line_defs db x) \<Longrightarrow> length (line db x) \<le> Suc fuel \<Longrightarrow>
    \<exists>v. clear_walk db fuel x n = Some v \<and> nearest_value db (line_defs db x ! n) (line db x) = Some v
      \<and> v \<noteq> VClear"
proof (induction fuel arbitrary: x n)
  case 0
  obtain ob where ob: "dbpriv_find_object db x = Some ob" using "0.prems" by (auto simp: valid_iff)
  note P = props_okD [OF assms] and s = slot_map_nth [OF assms ob "0.prems"(2)]
  have l: "line db x = [x]" using line_Cons(1) [OF P(2) ob] "0.prems"(3) by simp
  then have "line_defs db x = map (Pair x) (o_propdefs ob)" using ob by (simp add: line_defs_def)
  then have "p_var (o_propval ob ! n) \<noteq> VClear"
    using P(4) [OF ob] "0.prems"(2) by (auto simp: object_props_ok_def)
  then show ?case using ob s l by (subst clear_walk.simps) simp
next
  case (Suc fuel)
  obtain ob where ob: "dbpriv_find_object db x = Some ob" using Suc.prems by (auto simp: valid_iff)
  note P = props_okD [OF assms] and s = slot_map_nth [OF assms ob Suc.prems(2)]
  note l = line_Cons(1) [OF P(2) ob]
  have ld: "line_defs db x = map (Pair x) (o_propdefs ob) @ line_defs db (o_parent ob)"
    using ob l by (simp add: line_defs_def)
  show ?case
  proof (cases "p_var (o_propval ob ! n) = VClear")
    case False
    then show ?thesis using ob s l by (subst clear_walk.simps) simp
  next
    case True
    have own: "length (o_propdefs ob) \<le> n"
    proof (rule ccontr)
      assume "\<not> length (o_propdefs ob) \<le> n"
      then have "o_propval ob ! n \<in> set (take (length (o_propdefs ob)) (o_propval ob))"
        using s(2) by (auto simp: in_set_conv_nth)
      then show False using True P(4) [OF ob] by (auto simp: object_props_ok_def)
    qed
    let ?m = "n - length (o_propdefs ob)"
    have m: "?m < length (line_defs db (o_parent ob))" "line_defs db x ! n = line_defs db (o_parent ob) ! ?m"
      using own Suc.prems(2) ld by (auto simp: nth_append)
    have "valid db (o_parent ob)"
      using m(1) line_Cons(2) [OF P(2) ob] chain_valid [OF line_Cons(2) [OF P(2) ob]]
      by (cases "line db (o_parent ob)") (auto simp: line_defs_def)
    then obtain v where "clear_walk db fuel (o_parent ob) ?m = Some v"
        "nearest_value db (line_defs db (o_parent ob) ! ?m) (line db (o_parent ob)) = Some v" "v \<noteq> VClear"
      using Suc.IH [OF _ m(1)] Suc.prems(3) l by auto
    then show ?thesis using ob s l True own m by (subst clear_walk.simps) simp
  qed
qed

text \<open>Looking up a name that is not built in finds the definition of that name on the object's line, if
  there is one: the handle gives the object that defines it and designates the object's own slot for it, and
  the value is that of the nearest slot up the line that is not clear, which exists.\<close>

lemma db_find_property_ok:
  assumes ok: "props_ok db" and "valid db x" "cstring s" "\<not> built_in_name s"
  shows "\<exists>h v. db_find_property db x s True = Some (h, v) \<and> ph_built_in h = BP_NONE
    \<and> (if \<exists>k \<in> set (line_defs db x). name_key (snd k) = map cmap s
       then \<exists>k \<in> set (line_defs db x). name_key (snd k) = map cmap s \<and> ph_definer h = fst k
            \<and> read_slot db h = slot_map db x k \<and> v = nearest_value db k (line db x) \<and> v \<noteq> None \<and> v \<noteq> Some VClear
       else ph_ptr h = PNull \<and> v = None)"
proof -
  obtain ob where ob: "dbpriv_find_object db x = Some ob" using assms(2) by (auto simp: valid_iff)
  obtain obs where obs: "ancestry db x = Some obs"
      "find_up s (str_hash s) 0 obs = map_option (\<lambda>k. (fst (line_defs db x ! k), k))
         (propdef_index s (str_hash s) (map snd (line_defs db x)))"
    by (rule find_up_ancestry [OF ok assms(2)])
  have key: "propdef_is s (str_hash s) (snd k) \<longleftrightarrow> name_key (snd k) = map cmap s"
    if "k \<in> set (line_defs db x)" for k
    using propdef_is_key assms(3) that defs_okD [OF props_okD(3) [OF ok]]
    by (cases k) (auto simp: line_defs_def set_defs_of)
  have nb: "find_built_in s (str_hash s) ptable = None" using assms(4) by (simp add: built_in_name_def)
  show ?thesis
  proof (cases "propdef_index s (str_hash s) (map snd (line_defs db x))")
    case None
    then have "\<not> (\<exists>k \<in> set (line_defs db x). name_key (snd k) = map cmap s)"
      using key by (auto simp: propdef_index_None)
    then show ?thesis using None obs nb by (simp add: db_find_property_def)
  next
    case (Some n)
    let ?k = "line_defs db x ! n"
    have n: "n < length (line_defs db x)" "?k \<in> set (line_defs db x)" "name_key (snd ?k) = map cmap s"
      using propdef_index_Some [OF Some] key [OF nth_mem] by auto
    obtain v where v: "clear_walk db (nat (num_objects db)) x n = Some v"
        "nearest_value db ?k (line db x) = Some v" "v \<noteq> VClear"
      using clear_walk_nearest [OF ok assms(2) n(1), of "nat (num_objects db)"] line_length [of db x] by auto
    have "db_find_property db x s True =
        Some (\<lparr>ph_built_in = BP_NONE, ph_definer = fst ?k, ph_ptr = PSlot x n\<rparr>, Some v)"
      using obs nb Some v(1) by (simp add: db_find_property_def Let_def)
    then show ?thesis
      using n v(2,3) slot_map_nth [OF ok ob n(1)] ob by (auto simp: read_slot_def intro!: bexI [of _ ?k])
  qed
qed

end
