(* ===== verification/DbChparent.thy ===== *)
theory DbChparent
  imports DbSlots
begin

text \<open>
  A change of parent: the check that no name would occur twice on a line, the move in the hierarchy, and
  the new layout of the slots of the whole subtree.
\<close>

section \<open>The check\<close>

lemma line_chain_up:
  assumes "rooted parent_fields db" "p = NOTHING \<or> valid db p"
  shows "chain (field o_parent db) p (line db p)"
  using assms rooted_chain by auto

definition clash :: "'p db \<Rightarrow> objid \<Rightarrow> objid \<Rightarrow> bool" where
  "clash db oid parent \<longleftrightarrow>
     (\<exists>k \<in> set (line_defs db parent). \<exists>y \<in> sub db oid. \<exists>e \<in> set (defs_on db y). name_key e = name_key (snd k))"

lemma concat_defs: "concat (map o_propdefs (map (\<lambda>y. the (dbpriv_find_object db y)) xs)) = map snd (defs_of db xs)"
  if "\<forall>y \<in> set xs. valid db y"
  using that by (induction xs) (auto simp: valid_iff comp_def)

lemma propdef_is_same:
  assumes "propdef_ok d" "propdef_ok e"
  shows "propdef_is (pd_name d) (pd_hash d) e \<longleftrightarrow> name_key e = name_key d"
  using propdef_is_key [OF assms(2), of "pd_name d"] assms(1) by (simp add: propdef_ok_def name_key_def)

lemma check_properties_ok:
  assumes ok: "props_ok db" and "valid db oid" "parent = NOTHING \<or> valid db parent"
  shows "dbpriv_check_properties_for_chparent db oid parent = Some (\<not> clash db oid parent)"
proof -
  note P = props_okD [OF ok]
  note ch = line_chain_up [OF P(2) assms(3)]
  have "any_of (\<lambda>d. property_defined_at_or_below db (pd_name d) (pd_hash d) oid) (map snd (line_defs db parent))
      = Some (\<exists>d \<in> set (map snd (line_defs db parent)). \<exists>y \<in> sub db oid. \<exists>e \<in> set (defs_on db y). name_key e = name_key d)"
  proof (rule any_of_Some)
    fix d assume "d \<in> set (map snd (line_defs db parent))"
    then have "propdef_ok d" using defs_okD [OF P(3)] by (auto simp: line_defs_def set_defs_of)
    then show "property_defined_at_or_below db (pd_name d) (pd_hash d) oid
        = Some (\<exists>y \<in> sub db oid. \<exists>e \<in> set (defs_on db y). name_key e = name_key d)"
      using defined_at_or_below [OF P(1) assms(2)] propdef_is_same defs_okD [OF P(3)] by simp
  qed
  moreover have "concat (map o_propdefs (map (\<lambda>y. the (dbpriv_find_object db y)) (line db parent)))
      = map snd (line_defs db parent)"
    using concat_defs [of "line db parent" db] chain_valid [OF ch] unfolding line_defs_def by blast
  ultimately have "dbpriv_check_properties_for_chparent db oid parent = Some (\<not> (\<exists>d \<in> set (map snd (line_defs db parent)).
      \<exists>y \<in> sub db oid. \<exists>e \<in> set (defs_on db y). name_key e = name_key d))"
    unfolding dbpriv_check_properties_for_chparent_def ancestry_line [OF ch] by simp
  then show ?thesis by (auto simp: clash_def)
qed

section \<open>The recursion\<close>

definition fix_op :: "nat \<Rightarrow> nat \<Rightarrow> nat \<Rightarrow> objid \<Rightarrow> nat \<Rightarrow> unit \<Rightarrow> 'p db \<Rightarrow> 'p db option" where
  "fix_op old new common x local _ db = do {
     me \<leftarrow> dbpriv_find_object db x;
     let pvals = (case dbpriv_find_object db (o_parent me) of None \<Rightarrow> [] | Some p \<Rightarrow> o_propval p);
     me' \<leftarrow> fix_slots (local - length (o_propdefs me)) local old new common pvals me;
     update_object x (\<lambda>_. me') db }"

text \<open>\<^verbatim>\<open>fix_props\<close> is an instance of the recursion over a subtree.\<close>

lemma fix_props_slots:
  fixes db :: "'p db"
  shows "fix_props n x parent_local old new common db = do {
     me \<leftarrow> dbpriv_find_object db x;
     slots_recursively (fix_op old new common) (\<lambda>_. ()) n x (length (o_propdefs me) + parent_local) () db }"
proof (induction n arbitrary: x parent_local db)
  case 0
  then show ?case by (cases "dbpriv_find_object db x") simp_all
next
  case (Suc n)
  have ih: "fix_props n c l old new common = (\<lambda>db :: 'p db. do {
      me \<leftarrow> dbpriv_find_object db c;
      slots_recursively (fix_op old new common) (\<lambda>_. ()) n c (length (o_propdefs me) + l) () db })" for c l
    by (rule ext) (rule Suc.IH)
  show ?case
    by (cases "dbpriv_find_object db x")
      (simp_all add: ih fix_op_def [of old new common x] Let_def add.commute)
qed

lemma inherit_slot_twice [simp]: "inherit_slot w (inherit_slot u pv) = inherit_slot w pv"
  by (simp add: inherit_slot_def chown_slot_def)

definition slots_on :: "'p db \<Rightarrow> objid \<Rightarrow> pval list" where
  "slots_on db x = (case dbpriv_find_object db x of None \<Rightarrow> [] | Some ob \<Rightarrow> o_propval ob)"

text \<open>\<open>local\<close>: the definitions of the line up to and including the root of the subtree.\<close>

definition local_defs :: "'p db \<Rightarrow> objid \<Rightarrow> objid \<Rightarrow> (objid \<times> propdef) list" where
  "local_defs db oid x = upto_defs db oid (defs_on db oid) x"

definition moved_slots :: "'p db \<Rightarrow> objid \<Rightarrow> nat \<Rightarrow> pval list \<Rightarrow> objid \<Rightarrow> pval list" where
  "moved_slots db oid old new_slots x =
     take (length (local_defs db oid x)) (slots_on db x)
     @ map (inherit_slot (owner_of db x)) new_slots
     @ drop (length (local_defs db oid x) + old) (slots_on db x)"

lemma fix_props_ok:
  assumes f: "forest parent_fields db" and r: "dbpriv_find_object db oid = Some rob"
    and len: "\<And>x. x \<in> sub db oid \<Longrightarrow> length (slots_on db x) = length (local_defs db oid x) + old + common"
    and new: "new \<le> length (slots_on db (o_parent rob))" "o_parent rob \<notin> sub db oid"
  shows "fix_props (nat (num_objects db)) oid 0 old new common db
    = Some (stage (moved_slots db oid old (take new (slots_on db (o_parent rob)))) (sub db oid) db)"
    (is "_ = Some (stage ?T _ _)")
proof -
  obtain ks where h: "hierarchy parent_fields db ks" "rooted parent_fields db"
    using f by (auto simp: forest_def)
  have vr: "valid db oid" using r by (simp add: valid_iff)
  let ?pos = "\<lambda>x. length (local_defs db oid x)"
  have step: "fix_op old new common x (?pos x) () (stage ?T S db) = Some (stage ?T (insert x S) db)"
    if x: "x \<in> sub db oid" "x \<notin> S" "x = oid \<or> (\<exists>p \<in> S. field o_parent db x = Some p)" "S \<subseteq> sub db oid" for x S
  proof -
    obtain ob where ob: "dbpriv_find_object db x = Some ob" using sub_valid [OF x(1)] by (auto simp: valid_iff)
    have so: "slots_on db x = o_propval ob" using ob by (simp add: slots_on_def)
    let ?pl = "?pos x - length (o_propdefs ob)"
    let ?pvals = "case dbpriv_find_object (stage ?T S db) (o_parent ob) of None \<Rightarrow> [] | Some p \<Rightarrow> o_propval p"
    have src: "?pl + new \<le> length ?pvals \<or> new = 0"
      "map (inherit_slot (o_owner ob)) (take new (drop ?pl ?pvals))
        = map (inherit_slot (o_owner ob)) (take new (slots_on db (o_parent rob)))"
    proof -
      show "?pl + new \<le> length ?pvals \<or> new = 0"
        "map (inherit_slot (o_owner ob)) (take new (drop ?pl ?pvals))
          = map (inherit_slot (o_owner ob)) (take new (slots_on db (o_parent rob)))"
      proof (atomize (full), cases "x = oid")
        case True
        then have "?pl = 0" using upto_own(1) [OF h(2) ob x(1)] ob by (simp add: local_defs_def)
        moreover have "?pvals = slots_on db (o_parent rob)"
          using True ob r new(2) x(4) by (auto simp: find_stage slots_on_def)
        ultimately show "(?pl + new \<le> length ?pvals \<or> new = 0) \<and>
            map (inherit_slot (o_owner ob)) (take new (drop ?pl ?pvals))
            = map (inherit_slot (o_owner ob)) (take new (slots_on db (o_parent rob)))"
          using new(1) by simp
      next
        case False
        then have p: "o_parent ob \<in> S" using x(3) ob by (auto simp: field_Some)
        then have ps: "o_parent ob \<in> sub db oid" using x(4) by blast
        then obtain op where op: "dbpriv_find_object db (o_parent ob) = Some op"
          using sub_valid [OF ps] by (auto simp: valid_iff)
        have "x \<in> set (ks (o_parent ob))"
          using child_field [OF h(1) sub_valid [OF ps]] ob by (auto simp: field_Some)
        then have "?pl = ?pos (o_parent ob)" using upto_child(1) [OF h ps _ ob] by (simp add: local_defs_def)
        moreover have "?pvals = ?T (o_parent ob)" using op p by (simp add: find_stage)
        moreover have "length (take (?pos (o_parent ob)) (slots_on db (o_parent ob))) = ?pos (o_parent ob)"
          using len [OF ps] by simp
        ultimately show "(?pl + new \<le> length ?pvals \<or> new = 0) \<and>
            map (inherit_slot (o_owner ob)) (take new (drop ?pl ?pvals))
            = map (inherit_slot (o_owner ob)) (take new (slots_on db (o_parent rob)))"
          using new(1) by (simp add: moved_slots_def)
      qed
    qed
    have "fix_slots ?pl (?pos x) old new common ?pvals ob = Some (ob\<lparr>o_propval := ?T x\<rparr>)"
      using src len [OF x(1)] so ob
      by (auto simp: fix_slots_def moved_slots_def owner_of_def)
    then have "fix_op old new common x (?pos x) () (stage ?T S db)
        = update_object x (\<lambda>ob. ob\<lparr>o_propval := ?T x\<rparr>) (stage ?T S db)"
      using ob x(2) by (simp add: fix_op_def find_stage update_object_def)
    also have "\<dots> = Some (stage ?T (insert x S) db)" by (rule stage_upd [OF ob x(2)])
    finally show ?thesis .
  qed
  have "slots_recursively (fix_op old new common) (\<lambda>_. ()) (nat (num_objects db)) oid (?pos oid) () (stage ?T {} db)
      = Some (stage ?T ({} \<union> sub db oid) db)"
  proof (rule slots_recursively_stage [where opr = "fix_op old new common" and pos = ?pos and arg = "\<lambda>_. ()"
        and T = ?T and root = oid and below = "\<lambda>_. ()", OF h])
    show "fix_op old new common x (?pos x) () (stage ?T S db) = Some (stage ?T (insert x S) db)"
      if "x \<in> sub db oid" "x \<notin> S" "x = oid \<or> (\<exists>p \<in> S. field o_parent db x = Some p)" "S \<subseteq> sub db oid" for x S
      using that by (rule step)
    show "?pos c = length (o_propdefs cob) + ?pos x \<and> () = ()"
      if "x \<in> sub db oid" "c \<in> set (ks x)" "dbpriv_find_object db c = Some cob" for x c cob
      using upto_child [OF h that] by (simp add: local_defs_def)
  qed (use sub_self [OF h(2) vr] line_Cons(1) [OF h(2) r] in auto)
  then show ?thesis
    using r upto_own(1) [OF h(2) r sub_self [OF h(2) vr]] by (simp add: fix_props_slots local_defs_def)
qed


section \<open>The move in the hierarchy\<close>

lemma chain_redirect:
  "chain nx y (as @ x # bs) \<Longrightarrow> x \<notin> set as \<Longrightarrow> chain (nx(x := v)) x (x # cs) \<Longrightarrow>
     chain (nx(x := v)) y (as @ x # cs)"
  by (induction as arbitrary: y) auto

text \<open>The lines of the subtree now go on at the new parent, all others are as they were.\<close>

lemma moved_line:
  assumes r: "rooted parent_fields db" and ob: "dbpriv_find_object db oid = Some ob"
    and up: "field o_parent db1 = (field o_parent db)(oid \<mapsto> parent)"
    and par: "chain (field o_parent db) parent (line db parent)" "oid \<notin> set (line db parent)"
    and v: "\<And>y. valid db1 y = valid db y"
  shows "y \<in> sub db oid \<Longrightarrow> line db1 y = before db oid y @ oid # line db parent"
    and "y \<notin> sub db oid \<Longrightarrow> valid db y \<Longrightarrow> line db1 y = line db y"
    and "line db1 parent = line db parent" "sub db1 oid = sub db oid"
proof -
  have vo: "valid db oid" using ob by (simp add: valid_iff)
  have keep: "chain (field o_parent db1) x xs" if "chain (field o_parent db) x xs" "oid \<notin> set xs" for x xs
    using that by (simp add: up chain_fun_upd)
  have cp: "chain (field o_parent db1) parent (line db parent)" using keep par by blast
  then show lp: "line db1 parent = line db parent" by (rule line_chain)
  have co: "chain (field o_parent db1) oid (oid # line db parent)"
    using cp up valid_not_nothing [OF vo] by auto
  show out: "line db1 y = line db y" if "y \<notin> sub db oid" "valid db y" for y
    using keep [OF rooted_chain [OF r that(2)]] that by (intro line_chain) (auto simp: sub_def)
  show ins: "line db1 y = before db oid y @ oid # line db parent" if y: "y \<in> sub db oid" for y
  proof -
    have b: "line db y = before db oid y @ line db oid" "oid \<notin> set (before db oid y)"
      using line_before [OF r y] by blast+
    have "chain (field o_parent db) y (before db oid y @ oid # line db (o_parent ob))"
      using rooted_chain [OF r sub_valid [OF y]] b line_Cons(1) [OF r ob] by simp
    then have "chain (field o_parent db1) y (before db oid y @ oid # line db parent)"
      using b(2) co unfolding up by (rule chain_redirect)
    then show ?thesis by (rule line_chain)
  qed
  have "y \<in> sub db1 oid \<longleftrightarrow> y \<in> sub db oid" for y
    using ins [of y] out [of y] v [of y] by (cases "oid \<in> set (line db y)") (auto simp: sub_def)
  then show "sub db1 oid = sub db oid" by blast
qed


section \<open>The nearest common ancestor\<close>

lemma common_ancestor_split:
  assumes "chain (field o_parent db) p (line db p)" "chain (field o_parent db) q (line db q)"
  obtains N R c where "common_ancestor (line db p) (line db q) = c"
    "line db p = N @ line db c" "line db q = R @ line db c" "set N \<inter> set (line db q) = {}"
    "c = NOTHING \<or> valid db c" "chain (field o_parent db) c (line db c)"
proof (cases "List.find (\<lambda>o1. List.member (line db q) o1) (line db p)")
  case None
  then have "set (line db p) \<inter> set (line db q) = {}" by (auto simp: find_None_iff)
  moreover have "common_ancestor (line db p) (line db q) = NOTHING" using None by (simp add: common_ancestor_def)
  ultimately show thesis using that [of NOTHING "line db p" "line db q"] by simp
next
  case (Some c)
  then obtain i where i: "i < length (line db p)" "c = line db p ! i" "c \<in> set (line db q)"
      "\<forall>j < i. line db p ! j \<notin> set (line db q)"
    by (auto simp: find_Some_iff)
  let ?N = "take i (line db p)"
  have s: "line db p = ?N @ c # drop (Suc i) (line db p)"
    using id_take_nth_drop [OF i(1)] i(2) by simp
  have "chain (field o_parent db) c (c # drop (Suc i) (line db p))"
    using assms(1) s by (metis chain_suffix)
  then have l: "line db c = c # drop (Suc i) (line db p)" "chain (field o_parent db) c (line db c)"
    using line_chain by fastforce+
  have "c \<in> set (line db p)" using i by simp
  then have v: "valid db c" by (rule chain_valid [OF assms(1)])
  obtain R where R: "line db q = R @ line db c" by (rule line_suffix [OF assms(2) i(3)])
  have N: "set ?N \<inter> set (line db q) = {}" using i(1,4) by (auto simp: in_set_conv_nth)
  show thesis
  proof (rule that [OF _ _ R N])
    show "common_ancestor (line db p) (line db q) = c" using Some by (simp add: common_ancestor_def)
    show "line db p = ?N @ line db c" unfolding l(1) by (rule s)
  qed (use v l(2) in simp_all)
qed

section \<open>What a change of parent does to the slots\<close>

lemma map_of_zip_append:
  "length xs = length us \<Longrightarrow> map_of (zip (xs @ ys) (us @ vs)) k =
     (case map_of (zip xs us) k of None \<Rightarrow> map_of (zip ys vs) k | Some u \<Rightarrow> Some u)"
  by (simp add: map_add_def)

lemma map_of_zip_None: "k \<notin> set xs \<Longrightarrow> map_of (zip xs us) k = None"
  by (auto simp: map_of_eq_None_iff dest: set_zip_leftD)

lemma map_of_zip_Some: "length xs = length us \<Longrightarrow> k \<in> set xs \<Longrightarrow> \<exists>u. map_of (zip xs us) k = Some u"
  by (metis map_of_zip_is_Some)

lemma map_of_zip_map: "map_of (zip xs (map f us)) k = map_option f (map_of (zip xs us) k)"
  by (induction xs us rule: list_induct2') auto

text \<open>
  The slots of a line \<open>A @ O @ C\<close> (the part up to the moved object, the old ancestors, the common ones)
  become those of \<open>A @ N @ C\<close>: \<open>A\<close> and \<open>C\<close> keep theirs, those of \<open>N\<close> are inherited.
\<close>

lemma moved_map:
  assumes "length pv = length (A @ R @ C)" "length (A @ N @ C) = length A + length us + length C"
    and "length us = length N" "set N \<inter> set (A @ R @ C) = {}" "set C \<inter> set (A @ R) = {}"
  shows "map_of (zip (A @ N @ C) (take (length A) pv @ map f us @ drop (length A + length R) pv)) k =
    (if k \<in> set (A @ N @ C)
     then (case map_of (zip (A @ R @ C) pv) k of Some s \<Rightarrow> Some s | None \<Rightarrow> map_option f (map_of (zip N us) k))
     else None)"
proof -
  define pa pr pc where "pa = take (length A) pv" "pr = take (length R) (drop (length A) pv)"
    "pc = drop (length A + length R) pv"
  have "drop (length A + length R) pv = drop (length R) (drop (length A) pv)" by (simp add: add.commute)
  then have pv: "pv = pa @ pr @ pc" unfolding pa_pr_pc_def by (metis append_take_drop_id)
  have l: "length A = length pa" "length R = length pr" "length C = length pc"
    using assms(1) by (simp_all add: pa_pr_pc_def)
  have "map_of (zip (A @ N @ C) (pa @ map f us @ pc)) k =
      (case map_of (zip A pa) k of Some u \<Rightarrow> Some u | None \<Rightarrow>
        (case map_option f (map_of (zip N us) k) of Some u \<Rightarrow> Some u | None \<Rightarrow> map_of (zip C pc) k))"
    using l assms(3) [symmetric]
    by (simp add: map_of_zip_append map_of_zip_map del: zip_append cong: option.case_cong)
  moreover have "map_of (zip (A @ R @ C) pv) k =
      (case map_of (zip A pa) k of Some u \<Rightarrow> Some u | None \<Rightarrow>
        (case map_of (zip R pr) k of Some u \<Rightarrow> Some u | None \<Rightarrow> map_of (zip C pc) k))"
    unfolding pv using l by (simp add: map_of_zip_append del: zip_append cong: option.case_cong)
  moreover have "map_of (zip A pa) k \<noteq> None \<longleftrightarrow> k \<in> set A" "map_of (zip N us) k \<noteq> None \<longleftrightarrow> k \<in> set N"
      "map_of (zip R pr) k \<noteq> None \<longleftrightarrow> k \<in> set R" "map_of (zip C pc) k \<noteq> None \<longleftrightarrow> k \<in> set C"
    using map_of_zip_None map_of_zip_Some l assms(3) by (metis option.distinct(1))+
  ultimately show ?thesis
    unfolding pa_pr_pc_def(1,3) [symmetric] using assms(4,5)
    by (cases "k \<in> set A"; cases "k \<in> set N"; cases "k \<in> set C"; cases "k \<in> set R") (auto split: option.splits)
qed


lemma slots_on_same: "same_but g db db' \<Longrightarrow> keeps o_propval g \<Longrightarrow> slots_on db' x = slots_on db x"
  using fun_cong [OF same_but_field [of g db db' o_propval], of x]
  by (auto simp: slots_on_def field_def split: option.splits)

lemma slots_on_length:
  assumes "props_ok db" "x = NOTHING \<or> valid db x"
  shows "length (slots_on db x) = length (line_defs db x)"
  using assms props_okD(4) [OF assms(1), of x]
  by (auto simp: slots_on_def line_defs_def valid_iff object_props_ok_def dbpriv_find_object_def)

lemma line_defs_local:
  assumes "rooted parent_fields db" "x \<in> sub db oid" "dbpriv_find_object db oid = Some ob"
  shows "line_defs db x = local_defs db oid x @ line_defs db (o_parent ob)"
  using line_defs_before [OF assms] assms(3) by (simp add: local_defs_def upto_defs_def)

lemma line_inside:
  assumes "chain (field o_parent db) p (line db p)" "z \<in> set (line db p)" "w \<in> set (line db z)"
  shows "w \<in> set (line db p)"
  using line_suffix [OF assms(1,2)] assms(3) by (metis UnCI set_append)

lemma fix_properties_ok:
  assumes ok: "props_ok db" and ob: "dbpriv_find_object db oid = Some ob"
    and same: "same_but (strip_all parent_fields) db db1" and f1: "forest parent_fields db1"
    and up: "field o_parent db1 = (field o_parent db)(oid \<mapsto> parent)"
    and par: "parent = NOTHING \<or> valid db parent" "oid \<notin> set (line db parent)"
  obtains N R C where "dbpriv_fix_properties_after_chparent oid (o_parent ob) db1
      = Some (stage (moved_slots db oid (length R) (take (length N) (slots_on db parent))) (sub db oid) db1)"
    "line_defs db (o_parent ob) = R @ C" "line_defs db parent = N @ C"
    "set N \<inter> set R = {}" "\<And>x. x \<in> sub db oid \<Longrightarrow> set N \<inter> set (local_defs db oid x) = {}"
    "\<And>x. x \<in> sub db oid \<Longrightarrow> line_defs db1 x = local_defs db oid x @ line_defs db parent"
    "\<And>x. x \<notin> sub db oid \<Longrightarrow> valid db x \<Longrightarrow> line_defs db1 x = line_defs db x"
    "sub db1 oid = sub db oid"
proof -
  note P = props_okD [OF ok]
  let ?old = "o_parent ob"
  have v: "valid db1 y = valid db y" for y by (rule same_but_valid [OF same])
  have vo: "valid db oid" using ob by (simp add: valid_iff)
  have r1: "rooted parent_fields db1" using f1 by (simp add: forest_def)
  note cp = line_chain_up [OF P(2) par(1)] and cold = line_Cons(2) [OF P(2) ob]
  note ml = moved_line [OF P(2) ob up cp par(2) v]
  have oldn: "oid \<notin> set (line db ?old)"
    using chain_distinct [OF rooted_chain [OF P(2) vo]] line_Cons(1) [OF P(2) ob] by simp
  have l1: "line db1 z = line db z" if "z = NOTHING \<or> valid db z" "oid \<notin> set (line db z)" for z
    using ml(2) [of z] that by (auto simp: sub_def)
  have vold: "?old = NOTHING \<or> valid db ?old"
    using cold chain_valid [OF cold] by (cases "line db ?old") auto
  have don: "defs_on db1 = defs_on db" by (intro defs_on_cong same_but_field [OF same]) simp
  have ld1: "line_defs db1 z = line_defs db z" if "z = NOTHING \<or> valid db z" "oid \<notin> set (line db z)" for z
    using l1 [OF that] don by (simp add: line_defs_def defs_of_def)
  obtain N R c where c: "common_ancestor (line db parent) (line db ?old) = c"
      "line db parent = N @ line db c" "line db ?old = R @ line db c" "set N \<inter> set (line db ?old) = {}"
      "c = NOTHING \<or> valid db c"
    using common_ancestor_split [OF cp cold] by metis
  have cn: "oid \<notin> set (line db c)" using c(2) par(2) by simp
  let ?N = "defs_of db N" and ?R = "defs_of db R" and ?C = "line_defs db c"
  have ldp: "line_defs db parent = ?N @ ?C" and ldo: "line_defs db ?old = ?R @ ?C"
    using c(2,3) by (simp_all add: line_defs_def)
  have count: "dbpriv_count_properties db1 z = Some (length (line_defs db z))"
    if z: "z = NOTHING \<or> valid db z" "oid \<notin> set (line db z)" for z
    using count_line_defs [OF line_chain_up [OF r1]] z v ld1 [OF z] by simp
  have lens: "length (slots_on db1 x) = length (local_defs db1 oid x) + length ?R + length ?C"
    "local_defs db1 oid x = local_defs db oid x" if x: "x \<in> sub db oid" for x
  proof -
    have "before db1 oid x = before db oid x"
      using ml(1) [OF x] line_before(2) [OF P(2) x] unfolding before_def [of db1]
      by (auto simp: takeWhile_append)
    then show l: "local_defs db1 oid x = local_defs db oid x" by (simp add: local_defs_def upto_defs_def don defs_of_def)
    have "length (slots_on db1 x) = length (line_defs db x)"
      using slots_on_same [OF same] slots_on_length [OF ok] sub_valid [OF x] by simp
    then show "length (slots_on db1 x) = length (local_defs db1 oid x) + length ?R + length ?C"
      using line_defs_local [OF P(2) x ob] ldo l by simp
  qed
  obtain rob where rob: "dbpriv_find_object db1 oid = Some rob" "o_parent rob = parent"
    using fun_cong [OF up, of oid] by (auto simp: field_Some)
  have psub: "parent \<notin> sub db oid" using par(2) by (auto simp: sub_def)
  have sl: "slots_on db1 = slots_on db" using slots_on_same [OF same] by (intro ext) simp
  have ow: "owner_of db1 x = owner_of db x" for x by (rule owner_of_same [OF same]) simp
  have N_le: "length ?N \<le> length (slots_on db parent)"
    using slots_on_length [OF ok par(1)] ldp by simp
  have "fix_props (nat (num_objects db1)) oid 0 (length ?R) (length ?N) (length ?C) db1
      = Some (stage (moved_slots db1 oid (length ?R) (take (length ?N) (slots_on db1 parent))) (sub db1 oid) db1)"
    using fix_props_ok [OF f1 rob(1), of "length ?R" "length ?C" "length ?N"] lens ml(4) rob(2) psub N_le sl
    by simp
  also have "stage (moved_slots db1 oid (length ?R) (take (length ?N) (slots_on db1 parent))) (sub db1 oid) db1
      = stage (moved_slots db oid (length ?R) (take (length ?N) (slots_on db parent))) (sub db oid) db1"
    unfolding stage_def moved_slots_def sl ow ml(4) using lens(2) by (simp cong: if_cong)
  finally have fp: "fix_props (nat (num_objects db1)) oid 0 (length ?R) (length ?N) (length ?C) db1
      = Some (stage (moved_slots db oid (length ?R) (take (length ?N) (slots_on db parent))) (sub db oid) db1)" .
  have w: "walk_db db1 o_parent z = Some (line db z)" if "z = NOTHING \<or> valid db z" "oid \<notin> set (line db z)" for z
    unfolding walk_db_chain using line_chain_up [OF r1, of z] v that l1 [OF that] by simp
  show thesis
  proof (rule that [of "?R" "?N" "?C"])
    have "db_object_parent db1 oid = Some parent" using rob by (simp add: db_object_parent_def)
    then show "dbpriv_fix_properties_after_chparent oid ?old db1
        = Some (stage (moved_slots db oid (length ?R) (take (length ?N) (slots_on db parent))) (sub db oid) db1)"
      using w [OF par] w [OF vold oldn] c(1) count [OF par] count [OF vold oldn] count [OF c(5) cn] ldp ldo fp
      by (auto simp: dbpriv_fix_properties_after_chparent_def Let_def line_defs_def)
    show "set ?N \<inter> set ?R = {}" using c(3,4) by (auto simp: set_defs_of)
    fix x
    show "set ?N \<inter> set (local_defs db oid x) = {}" if x: "x \<in> sub db oid"
    proof -
      have "z \<notin> set N" if "z \<in> sub db oid" for z
        using line_inside [OF cp, of z oid] par(2) c(2) that by (auto simp: sub_def)
      then show ?thesis
        using before_sub [OF P(2) x] sub_self [OF P(2) vo] by (auto simp: local_defs_def upto_defs_def set_defs_of)
    qed
    show "line_defs db1 x = local_defs db oid x @ line_defs db parent" if x: "x \<in> sub db oid"
      using ml(1) [OF x] don by (simp add: line_defs_def local_defs_def upto_defs_def defs_of_def)
    show "line_defs db1 x = line_defs db x" if "x \<notin> sub db oid" "valid db x"
      using ld1 [of x] that by (simp add: sub_def)
  qed (use ldp ldo ml(4) in simp_all)
qed


section \<open>The whole operation\<close>

lemma set_up_parent: "set_up parent_fields v = (\<lambda>ob. ob\<lparr>o_parent := v\<rparr>)"
  by (simp add: parent_fields_def fun_eq_iff)

lemma change_parent_relocate:
  assumes "dbpriv_check_properties_for_chparent db oid parent = Some True"
    and "dbpriv_find_object db oid = Some ob"
  shows "db_change_parent oid parent db = do {
     db1 \<leftarrow> parents.relocate oid (o_parent ob) parent
       (if o_child ob = NOTHING \<and> o_verbdefs ob = [] then db else db_priv_affected_callable_verb_lookup db);
     db2 \<leftarrow> dbpriv_fix_properties_after_chparent oid (o_parent ob) db1;
     Some (True, db2) }"
  using assms by (simp add: db_change_parent_def parents.relocate_def Let_def set_up_parent)

text \<open>All that a change of parent can touch.\<close>

definition no_line :: "'p object \<Rightarrow> 'p object" where
  "no_line ob = strip_all parent_fields (no_slots ob)"

text \<open>A childless object without verbs has no part in the verb cache.\<close>

definition flush_for :: "'p object \<Rightarrow> 'p db \<Rightarrow> 'p db" where
  "flush_for ob db = (if o_child ob = NOTHING \<and> o_verbdefs ob = [] then db
     else db_priv_affected_callable_verb_lookup db)"

lemma same_find_structure:
  assumes "\<And>y. dbpriv_find_object db' y = dbpriv_find_object db y" "num_objects db' = num_objects db"
  shows "hierarchy F db' ks = hierarchy F db ks" "rooted F db' = rooted F db" "field f db' = field f db"
    "line db' x = line db x" "sub db' x = sub db x" "line_defs db' x = line_defs db x" "valid db' x = valid db x"
    "defs_on db' = defs_on db" "slots_on db' = slots_on db" "owner_of db' = owner_of db" "slot_map db' = slot_map db"
proof -
  have f: "field f db' = field f db" for f :: "'a object \<Rightarrow> 'c" by (rule ext) (simp add: field_def assms)
  then show "field f db' = field f db" .
  have f': "field f db' = field f db" for f :: "'a object \<Rightarrow> objid" by (rule ext) (simp add: field_def assms)
  show v: "valid db' x = valid db x" for x by (simp add: valid_def assms)
  show "hierarchy F db' ks = hierarchy F db ks" "rooted F db' = rooted F db"
    by (simp_all add: hierarchy_def linked_def points_up_def rooted_def v f' assms)
  show l: "line db' x = line db x" for x by (rule line_field_cong [OF f' assms(2)])
  show "sub db' x = sub db x" by (simp add: sub_def v l)
  show d: "defs_on db' = defs_on db" by (rule ext) (simp add: defs_on_def assms)
  show ld: "line_defs db' x = line_defs db x" for x by (simp add: line_defs_def defs_of_def l d)
  show "slots_on db' = slots_on db" "owner_of db' = owner_of db" "slot_map db' = slot_map db"
    by (rule ext, simp add: slots_on_def owner_of_def slot_map_def assms ld cong: option.case_cong)+
qed

definition same_find :: "'p db \<Rightarrow> 'p db \<Rightarrow> bool" where
  "same_find db db' \<longleftrightarrow> (\<forall>y. dbpriv_find_object db' y = dbpriv_find_object db y) \<and> num_objects db' = num_objects db"

lemma props_ok_same_find: "same_find db db' \<Longrightarrow> props_ok db \<Longrightarrow> props_ok db'"
  using same_find_structure [of db' db]
  by (simp add: same_find_def props_ok_def forest_def object_props_ok_def)

text \<open>A change of parent succeeds exactly when no definition on the new parent's line has the name of one
  in the subtree.  The object then hangs from the new parent; every object of the subtree keeps its slots
  for the properties it had and still inherits, loses those it no longer inherits, and gets a clear slot,
  owned under the \<^verbatim>\<open>c\<close> flag, for each one it newly inherits; no other object's slots change, and both
  hierarchies and the layout stay correct.\<close>

lemma db_change_parent_ok:
  assumes ok: "props_ok db" and links: "db_links db" and "valid db oid"
    and par: "parent = NOTHING \<or> valid db parent" "oid \<notin> set (line db parent)"
  shows "case db_change_parent oid parent db of
      None \<Rightarrow> False
    | Some (changed, db') \<Rightarrow>
        changed = (\<not> clash db oid parent)
        \<and> (if changed then
             props_ok db' \<and> db_links db' \<and> db_object_parent db' oid = Some parent
             \<and> (\<forall>y. y \<noteq> oid \<longrightarrow> db_object_parent db' y = db_object_parent db y)
             \<and> (\<exists>ob. dbpriv_find_object db oid = Some ob \<and> same_but no_line (flush_for ob db) db')
             \<and> (\<forall>y. slot_map db' y = (if y \<in> sub db oid
                  then (\<lambda>k. if k \<in> set (line_defs db' y)
                         then (case slot_map db y k of Some s \<Rightarrow> Some s
                               | None \<Rightarrow> map_option (inherit_slot (owner_of db y)) (slot_map db parent k))
                         else None)
                  else slot_map db y))
           else db' = db)"
proof -
  note P = props_okD [OF ok]
  obtain ob where ob: "dbpriv_find_object db oid = Some ob" using assms(3) by (auto simp: valid_iff)
  note check = check_properties_ok [OF ok assms(3) par(1)]
  show ?thesis
  proof (cases "clash db oid parent")
    case True
    then show ?thesis using check by (simp add: db_change_parent_def)
  next
    case nc: False
    define db0 where "db0 = flush_for ob db"
    note db0' = db0_def [unfolded flush_for_def]
    have sf: "\<And>y. dbpriv_find_object db0 y = dbpriv_find_object db y" "num_objects db0 = num_objects db"
        "max_objects db0 = max_objects db" "all_users db0 = all_users db"
      by (simp_all add: db0')
    note S0 = same_find_structure [OF sf(1,2)]
    have ok0: "props_ok db0" using ok props_ok_same_find [of db db0] sf by (simp add: same_find_def)
    note P0 = props_okD [OF ok0]
    obtain ks where h: "hierarchy parent_fields db0 ks" using P0(1) by (auto simp: forest_def)
    have ob0: "dbpriv_find_object db0 oid = Some ob" using ob sf by simp
    obtain db1 where db1: "parents.relocate oid (o_parent ob) parent db0 = Some db1"
        "hierarchy parent_fields db1 (move oid parent ks)" "same_but (strip_all parent_fields) db0 db1"
        "field o_parent db1 = (field o_parent db0)(oid \<mapsto> parent)"
      by (rule parents.relocate_ok [OF h, of oid "o_parent ob" parent]) (use ob0 par S0(7) in \<open>auto simp: field_Some\<close>)
    have par0: "parent = NOTHING \<or> valid db0 parent" "oid \<notin> set (line db0 parent)" using par S0 by simp_all
    have "rooted parent_fields db1"
      using parents.rooted_move [OF P0(2), of db1 oid parent "line db0 parent"] db1(4) same_but_valid [OF db1(3)]
        line_chain_up [OF P0(2) par0(1)] par0(2) ob0 by (simp add: valid_iff)
    then have f1: "forest parent_fields db1" using db1(2) by (auto simp: forest_def)
    obtain N R C where fx: "dbpriv_fix_properties_after_chparent oid (o_parent ob) db1
        = Some (stage (moved_slots db0 oid (length R) (take (length N) (slots_on db0 parent))) (sub db0 oid) db1)"
      "line_defs db0 (o_parent ob) = R @ C" "line_defs db0 parent = N @ C"
      "set N \<inter> set R = {}" "\<And>x. x \<in> sub db0 oid \<Longrightarrow> set N \<inter> set (local_defs db0 oid x) = {}"
      "\<And>x. x \<in> sub db0 oid \<Longrightarrow> line_defs db1 x = local_defs db0 oid x @ line_defs db0 parent"
      "\<And>x. x \<notin> sub db0 oid \<Longrightarrow> valid db0 x \<Longrightarrow> line_defs db1 x = line_defs db0 x"
      "sub db1 oid = sub db0 oid"
      using fix_properties_ok [OF ok0 ob0 db1(3) f1 db1(4) par0] by metis
    define T where "T = moved_slots db0 oid (length R) (take (length N) (slots_on db0 parent))"
    define db' where "db' = stage T (sub db0 oid) db1"
    have res: "db_change_parent oid parent db = Some (True, db')"
      using change_parent_relocate [OF _ ob, of parent, folded db0'] check nc db1(1) fx(1)
      by (simp add: db'_def T_def)
    note s2 = same_slots_hierarchy [OF stage_same [of db1 T "sub db0 oid"], folded db'_def]
    have f': "dbpriv_find_object db' y = (if y \<in> sub db oid then map_option (\<lambda>o1. o1\<lparr>o_propval := T y\<rparr>)
        (dbpriv_find_object db1 y) else dbpriv_find_object db1 y)" for y
      by (simp add: db'_def find_stage S0)
    have v: "valid db1 y = valid db y" for y using same_but_valid [OF db1(3)] S0(7) by simp
    have keep: "f oy1 = f oy" if "keeps f (strip_all parent_fields)" "dbpriv_find_object db1 y = Some oy1"
        "dbpriv_find_object db y = Some oy" for f :: "'a object \<Rightarrow> 'c" and y oy1 oy
      using fun_cong [OF same_but_field [OF db1(3) that(1)], of y] that(2,3) sf(1) by (simp add: field_def)
    have lens: "length (slots_on db y) = length (local_defs db0 oid y @ R @ C)" if "y \<in> sub db oid" for y
      using slots_on_length [OF ok] sub_valid [OF that] line_defs_local [OF P0(2) _ ob0, of y] that S0 fx(2)
      by simp
    have lenN: "length (take (length N) (slots_on db parent)) = length N"
      using slots_on_length [OF ok par(1)] fx(3) S0 by simp
    have ld: "line_defs db' y = local_defs db0 oid y @ N @ C" "line_defs db y = local_defs db0 oid y @ R @ C"
      if "y \<in> sub db oid" for y
      using fx(2,3) fx(6) [of y] s2(7) line_defs_local [OF P0(2) _ ob0, of y] that S0 by simp_all
    have ld': "line_defs db' y = line_defs db y" if "y \<notin> sub db oid" "valid db y" for y
      using fx(7) [of y] s2(7) that S0 by simp
    have T: "T y = take (length (local_defs db0 oid y)) (slots_on db y)
        @ map (inherit_slot (owner_of db y)) (take (length N) (slots_on db parent))
        @ drop (length (local_defs db0 oid y) + length R) (slots_on db y)" for y
      by (simp add: T_def moved_slots_def S0)
    have names: "distinct (map (name_key \<circ> snd) (local_defs db0 oid y @ N @ C))" if y: "y \<in> sub db oid" for y
    proof -
      obtain oy where oy: "dbpriv_find_object db y = Some oy" using sub_valid [OF y] by (auto simp: valid_iff)
      have "distinct (map (name_key \<circ> snd) (local_defs db0 oid y))"
        using P(4) [OF oy] ld(2) [OF y] by (simp add: object_props_ok_def)
      moreover have "distinct (map (name_key \<circ> snd) (N @ C))"
      proof (cases "parent = NOTHING")
        case True
        then show ?thesis using fx(3) by (simp add: line_defs_def)
      next
        case False
        then obtain op where op: "dbpriv_find_object db parent = Some op" using par(1) by (auto simp: valid_iff)
        then show ?thesis using P(4) [OF op] fx(3) S0(6) [of parent] by (simp add: object_props_ok_def)
      qed
      moreover have "z \<in> sub db oid \<and> e \<in> set (defs_on db z)" if "(z, e) \<in> set (local_defs db0 oid y)" for z e
        using that before_sub [OF P0(2), of y oid z] y sub_self [OF P(2) assms(3)]
        by (auto simp: local_defs_def upto_defs_def set_defs_of S0)
      then have "name_key (snd k) \<noteq> name_key (snd k')"
        if "k \<in> set (local_defs db0 oid y)" "k' \<in> set (N @ C)" for k k'
        using nc that fx(3) S0(6) [of parent] unfolding clash_def by (cases k) fastforce
      then have "(name_key \<circ> snd) ` set (local_defs db0 oid y) \<inter> (name_key \<circ> snd) ` set (N @ C) = {}"
        by fastforce
      ultimately show ?thesis by (simp add: image_Un)
    qed
    have mem: "object_props_ok db' y (oy1\<lparr>o_propval := T y\<rparr>) \<and> o_id oy1 = y"
      if y: "y \<in> sub db oid" "dbpriv_find_object db1 y = Some oy1" for y oy1
    proof -
      obtain oy where oy: "dbpriv_find_object db y = Some oy" using sub_valid [OF y(1)] by (auto simp: valid_iff)
      note k = keep [OF _ y(2) oy]
      have "length (o_propdefs oy) \<le> length (local_defs db0 oid y)"
        using upto_own [OF P0(2), of y oy oid "defs_on db0 oid"] oy sf(1) y(1) S0
        by (cases "y = oid") (simp_all add: local_defs_def)
      then have "take (length (o_propdefs oy)) (T y) = take (length (o_propdefs oy)) (o_propval oy)"
        using lens [OF y(1)] oy by (simp add: T slots_on_def)
      moreover have "length (T y) = length (line_defs db' y)"
        using lens [OF y(1)] lenN ld(1) [OF y(1)] by (simp add: T)
      ultimately show ?thesis
        using names [OF y(1)] ld(1) [OF y(1)] P(4,5) [OF oy] k [of o_propdefs] k [of o_max_propdefs] k [of o_id]
        by (simp add: object_props_ok_def)
    qed
    have mem2: "slot_map db' y = (\<lambda>k. if k \<in> set (line_defs db' y)
         then (case slot_map db y k of Some s \<Rightarrow> Some s
               | None \<Rightarrow> map_option (inherit_slot (owner_of db y)) (slot_map db parent k))
         else None)" if y: "y \<in> sub db oid" for y
    proof
      fix k
      let ?A = "local_defs db0 oid y" and ?us = "take (length N) (slots_on db parent)"
      obtain oy where oy: "dbpriv_find_object db y = Some oy" using sub_valid [OF y] by (auto simp: valid_iff)
      obtain oy1 where oy1: "dbpriv_find_object db1 y = Some oy1" using v [of y] oy by (auto simp: valid_iff)
      have "distinct (?A @ R @ C)" using line_defs_distinct [OF P(4) [OF oy]] ld(2) [OF y] by simp
      moreover have "distinct (?A @ N @ C)" using names [OF y] unfolding distinct_map by (rule conjunct1)
      ultimately have disj: "set N \<inter> set (?A @ R @ C) = {}" "set C \<inter> set (?A @ R) = {}"
        using fx(4) fx(5) [of y] y S0 by auto
      have "slot_map db' y k = map_of (zip (?A @ N @ C) (T y)) k"
        using f' [of y] y oy1 ld(1) [OF y] by (simp add: slot_map_def)
      also have "\<dots> = (if k \<in> set (?A @ N @ C)
          then (case map_of (zip (?A @ R @ C) (slots_on db y)) k of Some s \<Rightarrow> Some s
                | None \<Rightarrow> map_option (inherit_slot (owner_of db y)) (map_of (zip N ?us) k))
          else None)"
        unfolding T by (rule moved_map) (use lens [OF y] lenN disj in simp_all)
      also have "map_of (zip (?A @ R @ C) (slots_on db y)) k = slot_map db y k"
        using oy ld(2) [OF y] by (simp add: slot_map_def slots_on_def)
      also have "(if k \<in> set (?A @ N @ C)
          then (case slot_map db y k of Some s \<Rightarrow> Some s
                | None \<Rightarrow> map_option (inherit_slot (owner_of db y)) (map_of (zip N ?us) k)) else None)
        = (if k \<in> set (?A @ N @ C)
          then (case slot_map db y k of Some s \<Rightarrow> Some s
                | None \<Rightarrow> map_option (inherit_slot (owner_of db y)) (slot_map db parent k)) else None)"
      proof (cases "slot_map db y k = None \<and> k \<in> set (?A @ N @ C)")
        case True
        have "k \<in> set (?A @ R @ C) \<Longrightarrow> slot_map db y k \<noteq> None"
          using map_of_zip_Some [of "line_defs db y" "slots_on db y" k] lens [OF y] ld(2) [OF y] oy
          by (auto simp: slot_map_def slots_on_def)
        then have kN: "k \<in> set N" using True by auto
        then have "parent \<noteq> NOTHING" using fx(3) by (auto simp: line_defs_def)
        then obtain op where op: "dbpriv_find_object db parent = Some op" using par(1) by (auto simp: valid_iff)
        have "slot_map db parent k = map_of (zip (N @ C) (?us @ drop (length N) (slots_on db parent))) k"
          using op fx(3) S0 by (simp add: slot_map_def slots_on_def)
        also have "\<dots> = map_of (zip N ?us) k"
          using map_of_zip_append [of N ?us C "drop (length N) (slots_on db parent)" k] lenN
            map_of_zip_Some [of N ?us k] kN by auto
        finally show ?thesis using True by simp
      qed auto
      also have "set (?A @ N @ C) = set (line_defs db' y)" using ld(1) [OF y] by simp
      finally show "slot_map db' y k = (if k \<in> set (line_defs db' y)
         then (case slot_map db y k of Some s \<Rightarrow> Some s
               | None \<Rightarrow> map_option (inherit_slot (owner_of db y)) (slot_map db parent k))
         else None)" .
    qed
    have out: "slot_map db' y = slot_map db y
        \<and> (\<forall>oy'. dbpriv_find_object db' y = Some oy' \<longrightarrow> o_id oy' = y \<and> object_props_ok db' y oy')"
      if y: "y \<notin> sub db oid" for y
    proof (cases "dbpriv_find_object db1 y")
      case None
      then have "dbpriv_find_object db y = None" using v [of y] by (simp add: valid_def)
      then show ?thesis using None f' [of y] y by (simp add: slot_map_def)
    next
      case (Some oy1)
      then obtain oy where oy: "dbpriv_find_object db y = Some oy" using v [of y] by (auto simp: valid_iff)
      note k = keep [OF _ Some oy]
      show ?thesis
        using Some oy f' [of y] y k [of o_propval] k [of o_propdefs] k [of o_max_propdefs] k [of o_id]
          ld' [OF y] P(4,5) [OF oy] by (simp add: slot_map_def object_props_ok_def valid_iff)
    qed
    have ids: "o_id oy' = y \<and> object_props_ok db' y oy'" if oy': "dbpriv_find_object db' y = Some oy'" for y oy'
    proof (cases "y \<in> sub db oid")
      case True
      then obtain oy1 where "dbpriv_find_object db1 y = Some oy1" "oy' = oy1\<lparr>o_propval := T y\<rparr>"
        using oy' f' [of y] by auto
      then show ?thesis using mem [OF True] by simp
    next
      case False
      then show ?thesis using out oy' by blast
    qed
    have pok: "props_ok db'"
      unfolding props_ok_def using s2(3) [OF f1] ids by blast
    have "forest location_fields db0" using links S0 by (simp add: db_links_def forest_def)
    then have "forest location_fields db'"
      using s2(4) forest_same [OF db1(3), of location_fields] by simp
    moreover have "num_objects db' = num_objects db" "max_objects db' = max_objects db"
      using stage_same [of db1 T "sub db0 oid"] db1(3) sf by (simp_all add: db'_def same_but_def)
    ultimately have lok: "db_links db'"
      using links s2(3) [OF f1] ids by (simp add: db_links_def)
    have "field o_parent db' = (field o_parent db)(oid \<mapsto> parent)"
      using same_but_field [OF stage_same [of db1 T "sub db0 oid"], of o_parent] db1(4) S0(3) [of o_parent]
      by (simp add: db'_def)
    then have "db_object_parent db' y = (if y = oid then Some parent else db_object_parent db y)" for y
      by (simp add: db_object_parent_def field_def fun_eq_iff)
    moreover have "same_but no_line db0 db1"
      by (rule same_but_coarser [OF db1(3), of no_line no_line])
        (simp add: no_line_def strip_all_def strip_links_def parent_fields_def)
    then have "same_but no_line db0 db'"
      unfolding db'_def
      by (rule same_but_trans) (rule same_but_coarser [OF stage_same, of no_line no_line],
        simp add: no_line_def)
    ultimately show ?thesis using res nc pok lok mem2 out ob by (simp add: db0_def)
  qed
qed

end
