(* ===== verification/ParseWords.thy ===== *)
theory ParseWords
  imports Utils "HOL-Library.Monad_Syntax"
begin

text \<open>
  \<^verbatim>\<open>parse_into_words\<close> of parse_cmd.c, which splits a line into words in place: it reads the buffer at
  one pointer and writes the words, without their quotes, at another.  The theorem says that the
  writes never overtake the reads and what the words are.
\<close>

section \<open>The code\<close>

text \<open>A buffer is the characters up to and including the terminating NUL; an access outside it is
  \<open>None\<close>.\<close>

abbreviation NUL :: char where "NUL \<equiv> CHR 0x00"

function skip_blanks :: "string \<Rightarrow> nat \<Rightarrow> nat option" where
  "skip_blanks buf i =
     (if i < length buf then (if buf ! i = CHR '' '' then skip_blanks buf (Suc i) else Some i)
      else None)"
  by pat_completeness auto
termination
  by (relation "measure (\<lambda>(buf, i). length buf - i)") auto

declare skip_blanks.simps [simp del]

definition put_char :: "nat \<Rightarrow> char \<Rightarrow> string \<Rightarrow> string option" where
  "put_char p c buf = (if p < length buf then Some (buf[p := c]) else None)"

text \<open>The loop over the characters of one word: the buffer, the two pointers and \<open>in_quotes\<close>; a round
  consumes one character or two, so the length of the buffer is fuel enough.\<close>

fun word_loop :: "nat \<Rightarrow> string \<Rightarrow> nat \<Rightarrow> nat \<Rightarrow> bool \<Rightarrow> (string \<times> nat \<times> nat \<times> bool) option" where
  "word_loop n buf inp ptr in_quotes =
     (if \<not> inp < length buf then None
      else
        let c = buf ! inp in
        if c = NUL \<or> \<not> in_quotes \<and> c = CHR '' '' then Some (buf, inp, ptr, in_quotes)
        else (case n of
          0 \<Rightarrow> None
        | Suc n \<Rightarrow>
            if c = CHR 0x22 then word_loop n buf (inp + 1) ptr (\<not> in_quotes)
            else if c = CHR 0x5C then
              (if \<not> inp + 1 < length buf then None
               else if buf ! (inp + 1) \<noteq> NUL
               then Option.bind (put_char ptr (buf ! (inp + 1)) buf)
                      (\<lambda>buf. word_loop n buf (inp + 2) (ptr + 1) in_quotes)
               else word_loop n buf (inp + 1) ptr in_quotes)
            else Option.bind (put_char ptr c buf) (\<lambda>buf. word_loop n buf (inp + 1) (ptr + 1) in_quotes)))"

declare word_loop.simps [simp del]

text \<open>The loop over the words: the offsets where they begin, and the buffer they are in.\<close>

fun words_loop :: "nat \<Rightarrow> string \<Rightarrow> nat \<Rightarrow> nat \<Rightarrow> bool \<Rightarrow> (nat list \<times> string) option" where
  "words_loop n buf inp ptr in_quotes =
     (if \<not> inp < length buf then None
      else if buf ! inp = NUL then Some ([], buf)
      else (case n of
        0 \<Rightarrow> None
      | Suc n \<Rightarrow> do {
          (buf, inp, ptr', in_quotes) \<leftarrow> word_loop (length buf) buf inp ptr in_quotes;
          inp \<leftarrow> skip_blanks buf inp;
          buf \<leftarrow> put_char ptr' NUL buf;
          (offs, buf) \<leftarrow> words_loop n buf inp (ptr' + 1) in_quotes;
          Some (ptr # offs, buf) }))"

declare words_loop.simps [simp del]

definition cstr_at :: "string \<Rightarrow> nat \<Rightarrow> string" where
  "cstr_at buf off = takeWhile (\<lambda>c. c \<noteq> NUL) (drop off buf)"

definition parse_into_words :: "string \<Rightarrow> string list option" where
  "parse_into_words s =
     (let buf = s @ [NUL] in do {
        inp \<leftarrow> skip_blanks buf 0;
        (offs, buf) \<leftarrow> words_loop (length buf) buf inp 0 False;
        Some (map (cstr_at buf) offs) })"


section \<open>What the words are\<close>

text \<open>One word and the rest of the text: quotes toggle the protection of blanks, a backslash protects the
  next character.\<close>

fun scan_word :: "bool \<Rightarrow> string \<Rightarrow> string \<times> string \<times> bool" where
  "scan_word q [] = ([], [], q)"
| "scan_word q (c # s) =
     (if \<not> q \<and> c = CHR '' '' then ([], c # s, q)
      else if c = CHR 0x22 then scan_word (\<not> q) s
      else if c = CHR 0x5C then
        (case s of [] \<Rightarrow> ([], [], q)
         | d # t \<Rightarrow> (case scan_word q t of (w, r, q') \<Rightarrow> (d # w, r, q')))
      else (case scan_word q s of (w, r, q') \<Rightarrow> (c # w, r, q')))"

abbreviation drop_blanks :: "string \<Rightarrow> string" where
  "drop_blanks s \<equiv> dropWhile (\<lambda>c. c = CHR '' '') s"

lemma length_drop_blanks: "length (drop_blanks s) \<le> length s"
  by (rule length_dropWhile_le)

lemma hd_drop_blanks: "drop_blanks s \<noteq> [] \<Longrightarrow> hd (drop_blanks s) \<noteq> CHR '' ''"
  using hd_dropWhile [of "\<lambda>c. c = CHR '' ''" s] by simp

lemma scan_word_shape:
  "case scan_word q s of (w, r, q') \<Rightarrow> length w + length r \<le> length s
     \<and> (s \<noteq> [] \<and> (q \<or> hd s \<noteq> CHR '' '') \<longrightarrow> length r < length s)
     \<and> (r \<noteq> [] \<longrightarrow> hd r = CHR '' '' \<and> \<not> q') \<and> (cstring s \<longrightarrow> cstring w \<and> cstring r)"
proof (induction q s rule: scan_word.induct)
  case (2 q c s)
  show ?case
  proof (cases "\<not> q \<and> c = CHR '' ''")
    case a: False
    show ?thesis
    proof (cases "c = CHR 0x22")
      case True
      then show ?thesis using 2(1) [OF a True] by (cases "scan_word (\<not> q) s") auto
    next
      case b: False
      show ?thesis
      proof (cases "c = CHR 0x5C")
        case c: True
        show ?thesis
        proof (cases s)
          case (Cons d t)
          then show ?thesis using 2(2) [OF a b c Cons] c by (cases "scan_word q t") auto
        qed (use c in simp)
      next
        case c: False
        then show ?thesis using 2(3) [OF a b c] a b by (cases "scan_word q s") auto
      qed
    qed
  qed simp
qed simp

lemma scan_word_length:
  assumes "scan_word q s = (w, r, q')"
  shows "length w + length r \<le> length s"
    and "s \<noteq> [] \<Longrightarrow> q \<or> hd s \<noteq> CHR '' '' \<Longrightarrow> length r < length s"
  using scan_word_shape [of s q] unfolding assms by simp_all

lemma scan_word_rest: "scan_word q s = (w, r, q') \<Longrightarrow> r \<noteq> [] \<Longrightarrow> hd r = CHR '' '' \<and> \<not> q'"
  using scan_word_shape [of s q] by simp

lemma scan_word_cstring: "scan_word q s = (w, r, q') \<Longrightarrow> cstring s \<Longrightarrow> cstring w \<and> cstring r"
  using scan_word_shape [of s q] by simp

declare scan_word.simps(2) [simp del]

function words_of :: "string \<Rightarrow> string list" where
  "words_of s =
     (case drop_blanks s of
        [] \<Rightarrow> []
      | c # t \<Rightarrow> (case scan_word False (c # t) of (w, r, _) \<Rightarrow> w # words_of r))"
  by pat_completeness auto
termination
proof (relation "measure length")
  fix s c t w r q and y :: "string \<times> bool"
  assume a: "drop_blanks s = c # t" "(w, y) = scan_word False (c # t)" "(r, q) = y"
  have "c \<noteq> CHR '' ''" using hd_dropWhile [of "\<lambda>c. c = CHR '' ''" s] a(1) by simp
  then have "length r < length (c # t)"
    using scan_word_length(2) [of False "c # t" w r q] a(2,3) by simp
  then show "(r, s) \<in> measure length"
    using length_drop_blanks [of s] a(1) by simp
qed (simp_all)

declare words_of.simps [simp del]

lemma words_of_blank [simp]: "drop_blanks s = [] \<Longrightarrow> words_of s = []"
  unfolding words_of.simps [of s] by (simp only: list.case)

lemma words_of_drop_blanks [simp]: "words_of (drop_blanks s) = words_of s"
  by (subst (1 2) words_of.simps) simp

lemma words_of_scan:
  "scan_word False s = (w, r, q) \<Longrightarrow> s \<noteq> [] \<Longrightarrow> hd s \<noteq> CHR '' '' \<Longrightarrow> words_of s = w # words_of r"
  by (cases s) (simp, subst words_of.simps, simp)

section \<open>The code computes them\<close>

text \<open>What is still to be read, from \<open>i\<close> on.\<close>

definition reads :: "string \<Rightarrow> nat \<Rightarrow> string \<Rightarrow> bool" where
  "reads buf i s \<longleftrightarrow> i < length buf \<and> drop i buf = s @ [NUL] \<and> cstring s"

lemma reads_Nil: "reads buf i [] \<Longrightarrow> buf ! i = NUL"
  by (metis append_Nil hd_drop_conv_nth list.sel(1) reads_def)

lemma reads_Cons:
  assumes "reads buf i (c # s)"
  shows "buf ! i = c" "reads buf (Suc i) s" "c \<noteq> NUL" "Suc i < length buf"
proof -
  have d: "drop i buf = c # s @ [NUL]" "i < length buf" using assms by (auto simp: reads_def)
  then show "buf ! i = c" by (metis hd_drop_conv_nth list.sel(1))
  have e: "drop (Suc i) buf = s @ [NUL]" using d(1) by (metis drop_Suc list.sel(3) tl_drop)
  then show l: "Suc i < length buf" by (metis Nil_is_append_conv drop_all linorder_not_le not_Cons_self2)
  show "reads buf (Suc i) s" "c \<noteq> NUL" using e l assms by (auto simp: reads_def)
qed

lemma reads_update: "p < i \<Longrightarrow> reads buf i s \<Longrightarrow> reads (buf[p := c]) i s"
  by (simp add: reads_def)

lemma skip_blanks_reads:
  "reads buf i s \<Longrightarrow> \<exists>j \<ge> i. skip_blanks buf i = Some j \<and> reads buf j (drop_blanks s)
     \<and> (s \<noteq> [] \<and> hd s = CHR '' '' \<longrightarrow> i < j)"
proof (induction s arbitrary: i)
  case Nil
  then show ?case by (intro exI [of _ i]) (simp add: skip_blanks.simps [of buf i] reads_Nil reads_def)
next
  case (Cons c s)
  note r = reads_Cons [OF Cons.prems]
  show ?case
  proof (cases "c = CHR '' ''")
    case True
    then obtain j where "Suc i \<le> j" "skip_blanks buf (Suc i) = Some j" "reads buf j (drop_blanks s)"
      using Cons.IH [OF r(2)] by blast
    then show ?thesis
      using True r by (intro exI [of _ j]) (simp add: skip_blanks.simps [of buf i])
  next
    case False
    then show ?thesis
      using r Cons.prems by (intro exI [of _ i]) (simp add: skip_blanks.simps [of buf i])
  qed
qed

text \<open>What one run of the word loop leaves.\<close>

definition word_done ::
  "string \<Rightarrow> nat \<Rightarrow> string \<times> string \<times> bool \<Rightarrow> (string \<times> nat \<times> nat \<times> bool) option \<Rightarrow> bool" where
  "word_done buf ptr res out =
     (case res of (w, r, q') \<Rightarrow>
        \<exists>buf' inp'. out = Some (buf', inp', ptr + length w, q') \<and> length buf' = length buf
          \<and> reads buf' inp' r \<and> ptr + length w \<le> inp' \<and> take (ptr + length w) buf' = take ptr buf @ w)"

lemma word_done_put:
  assumes "word_done (buf[ptr := c]) (ptr + 1) (w, r, q') out" "ptr < length buf"
  shows "word_done buf ptr (c # w, r, q') out"
  using assms by (auto simp: word_done_def take_Suc_conv_app_nth)

lemma word_loop_done:
  "reads buf inp s \<Longrightarrow> ptr \<le> inp \<Longrightarrow> length s \<le> n \<Longrightarrow>
     word_done buf ptr (scan_word q s) (word_loop n buf inp ptr q)"
proof (induction n arbitrary: buf inp ptr q s rule: less_induct)
  case (less n)
  note scan_word.simps(2) [simp]
  show ?case
  proof (cases s)
    case Nil
    then show ?thesis
      using less.prems reads_Nil [of buf inp]
      by (auto simp: word_loop.simps [of n] word_done_def reads_def)
  next
    case (Cons c t)
    note r = reads_Cons [OF less.prems(1) [unfolded Cons]]
    have il: "inp < length buf" using less.prems(1) by (simp add: reads_def)
    obtain m where m: "n = Suc m" using less.prems(3) Cons by (cases n) auto
    have pl: "ptr < length buf" using less.prems(2) il by simp
    show ?thesis
    proof (cases "\<not> q \<and> c = CHR '' ''")
      case True
      then show ?thesis
        using Cons r less.prems il by (auto simp: word_loop.simps [of n] word_done_def)
    next
      case go: False
      show ?thesis
      proof (cases "c = CHR 0x22")
        case True
        have "word_done buf ptr (scan_word (\<not> q) t) (word_loop m buf (inp + 1) ptr (\<not> q))"
          using less.prems Cons m r(2) by (intro less.IH) simp_all
        then show ?thesis
          using True go Cons r il m by (simp add: word_loop.simps [of "Suc m"])
      next
        case nq: False
        show ?thesis
        proof (cases "c = CHR 0x5C")
          case False
          have "word_done (buf[ptr := c]) (ptr + 1) (scan_word q t)
              (word_loop m (buf[ptr := c]) (inp + 1) (ptr + 1) q)"
            using less.prems Cons m r(2) by (intro less.IH) (simp_all add: reads_update)
          then show ?thesis
            using False nq go Cons r il m pl word_done_put [of buf ptr c]
            by (auto simp: word_loop.simps [of "Suc m"] put_char_def split: prod.split)
        next
          case True
          show ?thesis
          proof (cases t)
            case Nil
            have "buf ! (inp + 1) = NUL" using reads_Nil r(2) Nil by simp
            moreover have "word_done buf ptr (scan_word q []) (word_loop m buf (inp + 1) ptr q)"
              using less.prems Cons m r(2) Nil by (intro less.IH) simp_all
            ultimately show ?thesis
              using True nq go Cons r il m Nil by (simp add: word_loop.simps [of "Suc m"])
          next
            case t: (Cons d u)
            note r2 = reads_Cons [OF r(2) [unfolded t]]
            have "word_done (buf[ptr := d]) (ptr + 1) (scan_word q u)
                (word_loop m (buf[ptr := d]) (inp + 2) (ptr + 1) q)"
              using less.prems Cons m r2(2) t by (intro less.IH) (simp_all add: reads_update)
            then show ?thesis
              using True nq go Cons r r2 t il m pl word_done_put [of buf ptr d]
              by (auto simp: word_loop.simps [of "Suc m"] put_char_def split: prod.split)
          qed
        qed
      qed
    qed
  qed
qed

lemma takeWhile_NUL: "NUL \<notin> set w \<Longrightarrow> takeWhile (\<lambda>c. c \<noteq> NUL) (w @ NUL # z) = w"
  by (induction w) auto

lemma cstr_at_take:
  assumes "take (p + length w + 1) buf = pre @ w @ [NUL]" "length pre = p" "cstring w"
  shows "cstr_at buf p = w"
proof -
  have "buf = (pre @ w @ [NUL]) @ drop (p + length w + 1) buf"
    using append_take_drop_id [of "p + length w + 1" buf] unfolding assms(1) by (rule sym)
  then have "drop p buf = w @ [NUL] @ drop (p + length w + 1) buf"
    using assms(2) by (metis append.assoc append_eq_conv_conj)
  then show ?thesis
    using assms(3) by (simp add: cstr_at_def cstring_def takeWhile_NUL)
qed

lemma words_loop_words:
  "reads buf inp s \<Longrightarrow> ptr \<le> inp \<or> s = [] \<Longrightarrow> s = [] \<or> hd s \<noteq> CHR '' '' \<Longrightarrow> length s \<le> n \<Longrightarrow>
     \<exists>offs buf'. words_loop n buf inp ptr False = Some (offs, buf') \<and> length buf' = length buf
       \<and> take ptr buf' = take ptr buf \<and> map (cstr_at buf') offs = words_of s"
proof (induction n arbitrary: buf inp ptr s rule: less_induct)
  case (less n)
  have il: "inp < length buf" using less.prems(1) by (simp add: reads_def)
  show ?case
  proof (cases s)
    case Nil
    then show ?thesis
      using less.prems reads_Nil il by (auto simp: words_loop.simps [of n])
  next
    case (Cons c t)
    note r = reads_Cons [OF less.prems(1) [unfolded Cons]]
    obtain m where m: "n = Suc m" using less.prems(4) Cons by (cases n) auto
    have p: "ptr \<le> inp" and nb: "c \<noteq> CHR '' ''" using less.prems Cons by auto
    obtain w r1 q1 where sw: "scan_word False s = (w, r1, q1)" by (cases "scan_word False s")
    have "length (drop inp buf) = length (s @ [NUL])" using less.prems(1) by (simp add: reads_def)
    then have len: "length s \<le> length buf" by simp
    obtain buf1 inp1 where w1: "word_loop (length buf) buf inp ptr False = Some (buf1, inp1, ptr + length w, q1)"
        "length buf1 = length buf" "reads buf1 inp1 r1" "ptr + length w \<le> inp1"
        "take (ptr + length w) buf1 = take ptr buf @ w"
      using word_loop_done [OF less.prems(1) p len, of False] unfolding sw word_done_def by auto
    obtain j where j: "inp1 \<le> j" "skip_blanks buf1 inp1 = Some j" "reads buf1 j (drop_blanks r1)"
        "r1 \<noteq> [] \<and> hd r1 = CHR '' '' \<longrightarrow> inp1 < j"
      using skip_blanks_reads [OF w1(3)] by blast
    have q1: "q1 = False" if "r1 \<noteq> []" using scan_word_rest [OF sw that] by simp
    let ?p = "ptr + length w" and ?s = "drop_blanks r1"
    let ?b = "buf1[?p := NUL]"
    have pl: "?p < length buf1" using w1 by (simp add: reads_def)
    have jr: "reads ?b j ?s"
    proof (cases "r1 = []")
      case True
      then show ?thesis
        using j(1,3) w1(4) by (cases "?p = j") (auto simp: reads_def drop_update_swap)
    next
      case False
      then show ?thesis
        using j scan_word_rest [OF sw False] w1(4) by (intro reads_update) auto
    qed
    have "\<exists>offs buf'. words_loop m ?b j (?p + 1) q1 = Some (offs, buf') \<and> length buf' = length ?b
        \<and> take (?p + 1) buf' = take (?p + 1) ?b \<and> map (cstr_at buf') offs = words_of ?s"
    proof (cases "?s = []")
      case True
      have "j < length ?b" "?b ! j = NUL" using jr reads_Nil [of ?b j] True by (auto simp: reads_def)
      then show ?thesis using True by (simp add: words_loop.simps [of m])
    next
      case False
      have "length r1 < length s" using scan_word_length(2) [OF sw] Cons nb by simp
      then have "length ?s \<le> m" using length_drop_blanks [of r1] less.prems(4) m by simp
      moreover have "r1 \<noteq> []" using False by auto
      moreover have "hd ?s \<noteq> CHR '' ''" using hd_drop_blanks False by blast
      ultimately show ?thesis
        using less.IH [of m ?b j ?s "?p + 1"] jr m j scan_word_rest [OF sw] w1(4) q1 by auto
    qed
    then obtain offs buf' where rec: "words_loop m ?b j (?p + 1) q1 = Some (offs, buf')"
        "length buf' = length buf" "take (?p + 1) buf' = take (?p + 1) ?b"
        "map (cstr_at buf') offs = words_of ?s" using w1(2) by auto
    have pre: "take (?p + 1) ?b = take ptr buf @ w @ [NUL]"
      using w1(5) pl by (simp add: take_Suc_conv_app_nth)
    have "cstr_at buf' ptr = w"
      using rec(3) pre p il scan_word_cstring [OF sw] less.prems(1)
      by (intro cstr_at_take [of _ _ _ "take ptr buf"]) (auto simp: reads_def)
    moreover have "take ptr buf' = take ptr buf"
      using arg_cong [OF rec(3), of "take ptr"] arg_cong [OF pre, of "take ptr"] p il
      by (simp add: min_def)
    moreover have "words_of s = w # words_of ?s"
      using words_of_scan [OF sw] Cons nb by simp
    moreover have "words_loop n buf inp ptr False = Some (ptr # offs, buf')"
      using r Cons il m w1(1) j(2) pl rec(1) by (simp add: words_loop.simps [of "Suc m"] put_char_def)
    ultimately show ?thesis using rec by simp
  qed
qed

lemma parse_into_words_words:
  assumes "cstring s"
  shows "parse_into_words s = Some (words_of s)"
proof -
  let ?b = "s @ [NUL]"
  have r0: "reads ?b 0 s" using assms by (simp add: reads_def)
  obtain j where j: "skip_blanks ?b 0 = Some j" "reads ?b j (drop_blanks s)"
    using skip_blanks_reads [OF r0] by blast
  have h: "drop_blanks s = [] \<or> hd (drop_blanks s) \<noteq> CHR '' ''" using hd_drop_blanks by blast
  have "length (drop_blanks s) \<le> length ?b" using length_drop_blanks [of s] by simp
  then obtain offs buf' where "words_loop (length ?b) ?b j 0 False = Some (offs, buf')"
      "map (cstr_at buf') offs = words_of (drop_blanks s)"
    using words_loop_words [OF j(2) _ h, of 0 "length ?b"] by auto
  then show ?thesis using j(1) by (simp add: parse_into_words_def Let_def)
qed

text \<open>C40: splitting a command in place, with blanks, quotes and backslashes removed as the buffer is rewritten,
  gives the words a direct reading of the string gives, for every string without a null byte, and never
  reads or writes outside the buffer.\<close>

theorem parse_into_words_correct:
  assumes "cstring s"
  shows "parse_into_words s = Some (words_of s)"
  by (rule parse_into_words_words [OF assms])

theorem parse_into_words_correct_witness:
  "parse_into_words (''put '' @ [CHR 0x22] @ ''big box'' @ [CHR 0x22]) = Some (words_of (''put '' @ [CHR 0x22] @ ''big box'' @ [CHR 0x22]))"
  by (rule parse_into_words_correct) simp

end
