(* ===== verification/DbVerbs.thy ===== *)
theory DbVerbs
  imports DbHierarchy ParseWords Numbers
begin

text \<open>
  db_verbs.c: prepositions, the verbs of an object, the searches for command and callable verbs, and
  the cache of the latter.  A verb handle is the definer and the position of the verb in its list;
  like the pointers of the code it is good until the next change.  \<open>None\<close> is a panic (a null handle)
  or a dangling pointer.
\<close>

section \<open>Prepositions\<close>

definition PREP_ANY :: int where "PREP_ANY = -2"
definition PREP_NONE :: int where "PREP_NONE = -1"

definition prep_list :: "string list" where
  "prep_list =
    [''with/using'', ''at/to'', ''in front of'', ''in/inside/into'', ''on top of/on/onto/upon'',
     ''out of/from inside/from'', ''over'', ''through'', ''under/underneath/beneath'', ''behind'',
     ''beside'', ''for/about'', ''is'', ''as'', ''off/off of'']"

definition NPREPS :: nat where "NPREPS = length prep_list"
definition MAXPPHRASE :: nat where "MAXPPHRASE = 3"

lemma prep_phrases_less:
  assumes "p \<noteq> []"
  shows "length (dropWhile (\<lambda>c. c \<noteq> CHR ''/'') (if hd p = CHR ''/'' then tl p else p)) < length p"
proof (cases "hd p = CHR ''/''")
  case True
  then show ?thesis
    using assms length_dropWhile_le [of _ "tl p"] by (cases p) (auto simp: less_Suc_eq_le)
next
  case False
  then show ?thesis
    using assms length_dropWhile_le [of _ "tl p"] by (cases p) (auto simp: less_Suc_eq_le)
qed

text \<open>The phrases between the slashes; \<open>None\<close> when one overflows \<^verbatim>\<open>cprep\<close> or has too many words.\<close>

function prep_phrases :: "string \<Rightarrow> string list" where
  "prep_phrases p =
     (if p = [] then []
      else let p = (if hd p = CHR ''/'' then tl p else p)
           in takeWhile (\<lambda>c. c \<noteq> CHR ''/'') p # prep_phrases (dropWhile (\<lambda>c. c \<noteq> CHR ''/'') p))"
  by pat_completeness auto
termination
  by (relation "measure length") (use prep_phrases_less in \<open>auto simp: Let_def\<close>)

declare prep_phrases.simps [simp del]

definition prep_alias :: "string \<Rightarrow> string list option" where
  "prep_alias cprep =
     (if length cprep < 100
      then Option.bind (parse_into_words cprep) (\<lambda>ws. if length ws \<le> MAXPPHRASE then Some ws else None)
      else None)"

type_synonym prep_table = "string list list list"

definition dbpriv_build_prep_table :: "prep_table option" where
  "dbpriv_build_prep_table =
     those (map (\<lambda>p. those (map prep_alias (prep_phrases p))) prep_list)"

text \<open>The words at the front of \<open>argv\<close> are those of the alias.\<close>

definition alias_matches :: "string list \<Rightarrow> string list \<Rightarrow> bool \<Rightarrow> bool" where
  "alias_matches alias argv exact_match \<longleftrightarrow>
     length alias \<le> length argv \<and> list_all2 (\<lambda>a w. mystrcasecmp a w = 0) (take (length alias) argv) alias
     \<and> (\<not> exact_match \<or> length alias = length argv)"

fun find_alias :: "prep_table \<Rightarrow> int \<Rightarrow> string list \<Rightarrow> bool \<Rightarrow> (int \<times> nat) option" where
  "find_alias [] j argv exact_match = None"
| "find_alias (aliases # t) j argv exact_match =
     (case List.find (\<lambda>a. alias_matches a argv exact_match) aliases of
        Some a \<Rightarrow> Some (j, length a)
      | None \<Rightarrow> find_alias t (j + 1) argv exact_match)"

text \<open>The preposition with the first and the last of its words.\<close>

fun find_prep_from :: "prep_table \<Rightarrow> string list \<Rightarrow> nat \<Rightarrow> bool \<Rightarrow> int \<times> nat \<times> int" where
  "find_prep_from tab [] i exact_match = (PREP_NONE, 0, 0)"
| "find_prep_from tab (w # ws) i exact_match =
     (case find_alias tab 0 (w # ws) exact_match of
        Some (j, n) \<Rightarrow> (j, i, int i + int n - 1)
      | None \<Rightarrow> if exact_match then (PREP_NONE, 0, 0) else find_prep_from tab ws (i + 1) exact_match)"

definition db_find_prep :: "prep_table \<Rightarrow> string list \<Rightarrow> bool \<Rightarrow> int \<times> nat \<times> int" where
  "db_find_prep tab argv exact_match = find_prep_from tab argv 0 exact_match"

text \<open>The comparison with \<^verbatim>\<open>NPREPS\<close> is unsigned, so that a negative number is out of range too.\<close>

definition db_match_prep :: "prep_table \<Rightarrow> string \<Rightarrow> int option" where
  "db_match_prep tab prepname =
     (let s = (if prepname \<noteq> [] \<and> hd prepname = CHR ''#'' then tl prepname else prepname);
          (n, rest) = (case strtol s of None \<Rightarrow> (0, s) | Some r \<Rightarrow> r);
          prep = sint (word_of_int n :: int32)
      in if rest = []
         then Some (if s = [] \<or> \<not> isdigit (hd s) \<or> prep < 0 \<or> prep \<ge> int NPREPS then PREP_NONE else prep)
         else map_option (\<lambda>argv. fst (db_find_prep tab argv True))
                (parse_into_words (takeWhile (\<lambda>c. c \<noteq> CHR ''/'') s)))"

definition db_unparse_prep :: "int \<Rightarrow> string option" where
  "db_unparse_prep prep =
     (if prep = PREP_NONE then Some ''none''
      else if prep = PREP_ANY then Some ''any''
      else if 0 \<le> prep \<and> prep < int NPREPS then Some (prep_list ! nat prep) else None)"

section \<open>The verbs of an object\<close>

definition VF_READ :: unsigned where "VF_READ = 0x1"
definition VF_WRITE :: unsigned where "VF_WRITE = 0x2"
definition VF_EXEC :: unsigned where "VF_EXEC = 0x4"
definition VF_DEBUG :: unsigned where "VF_DEBUG = 0x8"

definition ASPEC_NONE :: unsigned where "ASPEC_NONE = 0"
definition ASPEC_ANY :: unsigned where "ASPEC_ANY = 1"
definition ASPEC_THIS :: unsigned where "ASPEC_THIS = 2"

definition DOBJSHIFT :: nat where "DOBJSHIFT = 4"
definition IOBJSHIFT :: nat where "IOBJSHIFT = 6"
definition OBJMASK :: unsigned where "OBJMASK = 0x3"
definition PERMMASK :: unsigned where "PERMMASK = 0xF"

text \<open>\<^verbatim>\<open>perms\<close> is a short, promoted to an int by every operator.\<close>

definition perms_int :: "'p verbdef \<Rightarrow> unsigned" where
  "perms_int v = scast (v_perms v)"

definition verb_dobj :: "'p verbdef \<Rightarrow> unsigned" where
  "verb_dobj v = signed_drop_bit DOBJSHIFT (perms_int v) AND OBJMASK"

definition verb_iobj :: "'p verbdef \<Rightarrow> unsigned" where
  "verb_iobj v = signed_drop_bit IOBJSHIFT (perms_int v) AND OBJMASK"

definition arg_bits :: "unsigned \<Rightarrow> unsigned \<Rightarrow> unsigned" where
  "arg_bits dobj iobj = push_bit DOBJSHIFT dobj OR push_bit IOBJSHIFT iobj"

definition db_add_verb ::
  "objid \<Rightarrow> string \<Rightarrow> objid \<Rightarrow> unsigned \<Rightarrow> unsigned \<Rightarrow> int \<Rightarrow> unsigned \<Rightarrow> 'p db \<Rightarrow> (nat \<times> 'p db) option" where
  "db_add_verb oid vnames owner flags dobj prep iobj db = do {
     ob \<leftarrow> dbpriv_find_object db oid;
     let db = db_priv_affected_callable_verb_lookup db;
     let newv = \<lparr>v_name = vnames, v_program = None, v_owner = owner,
                 v_perms = ucast (flags OR arg_bits dobj iobj), v_prep = prep\<rparr>;
     db \<leftarrow> update_object oid (\<lambda>ob. ob\<lparr>o_verbdefs := o_verbdefs ob @ [newv]\<rparr>) db;
     Some (length (o_verbdefs ob) + 1, db) }"

fun position :: "('a \<Rightarrow> bool) \<Rightarrow> 'a list \<Rightarrow> nat option" where
  "position P [] = None"
| "position P (x # xs) = (if P x then Some 0 else map_option Suc (position P xs))"

definition find_verbdef_by_name :: "'p object \<Rightarrow> string \<Rightarrow> bool \<Rightarrow> nat option" where
  "find_verbdef_by_name ob vname check_x_bit =
     position (\<lambda>v. verbcasecmp (v_name v) vname \<and> (\<not> check_x_bit \<or> perms_int v AND VF_EXEC \<noteq> 0))
       (o_verbdefs ob)"

definition db_count_verbs :: "'p db \<Rightarrow> objid \<Rightarrow> nat option" where
  "db_count_verbs db oid = map_option (\<lambda>ob. length (o_verbdefs ob)) (dbpriv_find_object db oid)"

definition db_for_all_verbs ::
  "'p db \<Rightarrow> objid \<Rightarrow> ('d \<Rightarrow> string \<Rightarrow> bool \<times> 'd) \<Rightarrow> 'd \<Rightarrow> (bool \<times> 'd) option" where
  "db_for_all_verbs db oid func d =
     map_option (\<lambda>ob. for_all_members func d (map v_name (o_verbdefs ob))) (dbpriv_find_object db oid)"

definition db_delete_verb :: "handle \<Rightarrow> 'p db \<Rightarrow> 'p db option" where
  "db_delete_verb h db = do {
     ob \<leftarrow> dbpriv_find_object db (h_definer h);
     if h_verbdef h < length (o_verbdefs ob)
     then update_object (h_definer h) (\<lambda>ob. ob\<lparr>o_verbdefs :=
            take (h_verbdef h) (o_verbdefs ob) @ drop (h_verbdef h + 1) (o_verbdefs ob)\<rparr>)
            (db_priv_affected_callable_verb_lookup db)
     else None }"

section \<open>Searching\<close>

text \<open>The first verb with the property on an object of the list.\<close>

fun find_verb_in :: "('p object \<Rightarrow> nat option) \<Rightarrow> 'p object list \<Rightarrow> handle option" where
  "find_verb_in f [] = None"
| "find_verb_in f (ob # obs) =
     (case f ob of
        Some i \<Rightarrow> Some \<lparr>h_definer = o_id ob, h_verbdef = i\<rparr>
      | None \<Rightarrow> find_verb_in f obs)"

definition command_verb_matches :: "string \<Rightarrow> unsigned \<Rightarrow> int \<Rightarrow> unsigned \<Rightarrow> 'p verbdef \<Rightarrow> bool" where
  "command_verb_matches verb dobj prep iobj v \<longleftrightarrow>
     verbcasecmp (v_name v) verb
     \<and> (verb_dobj v = ASPEC_ANY \<or> verb_dobj v = dobj)
     \<and> (v_prep v = PREP_ANY \<or> v_prep v = prep)
     \<and> (verb_iobj v = ASPEC_ANY \<or> verb_iobj v = iobj)"

definition db_find_command_verb ::
  "'p db \<Rightarrow> objid \<Rightarrow> string \<Rightarrow> unsigned \<Rightarrow> int \<Rightarrow> unsigned \<Rightarrow> handle option option" where
  "db_find_command_verb db oid verb dobj prep iobj =
     map_option (find_verb_in (\<lambda>ob. position (command_verb_matches verb dobj prep iobj) (o_verbdefs ob)))
       (ancestry db oid)"

definition DEFAULT_VC_SIZE :: nat where "DEFAULT_VC_SIZE = 7507"

definition make_vc_table :: "nat \<Rightarrow> verb_cache \<Rightarrow> verb_cache" where
  "make_vc_table n c = c\<lparr>vc_size := n, vc_table := Some (\<lambda>i. [])\<rparr>"

fun vc_lookup :: "unsigned \<Rightarrow> objid \<Rightarrow> string \<Rightarrow> vc_entry list \<Rightarrow> vc_entry option" where
  "vc_lookup hash key verb [] = None"
| "vc_lookup hash key verb (e # es) =
     (if hash = vc_hash e \<and> key = vc_oid_key e \<and> mystrcasecmp verb (vc_verbname e) = 0 then Some e
      else vc_lookup hash key verb es)"

text \<open>The line of ancestors from the first one that has verbs.\<close>

definition verb_line :: "'p object list \<Rightarrow> 'p object list" where
  "verb_line obs = dropWhile (\<lambda>ob. o_verbdefs ob = []) obs"

definition line_key :: "'p object list \<Rightarrow> objid" where
  "line_key obs = (case obs of [] \<Rightarrow> NOTHING | ob # _ \<Rightarrow> o_id ob)"

definition vc_hash_of :: "string \<Rightarrow> objid \<Rightarrow> unsigned" where
  "vc_hash_of verb key = str_hash verb XOR NOT (word_of_int key)"

definition count_hit :: "vc_entry \<Rightarrow> verb_cache \<Rightarrow> verb_cache" where
  "count_hit e c =
     (if vc_h e \<noteq> None then c\<lparr>verbcache_hit := verbcache_hit c + 1\<rparr>
      else c\<lparr>verbcache_neg_hit := verbcache_neg_hit c + 1\<rparr>)"

definition insert_entry :: "nat \<Rightarrow> vc_entry \<Rightarrow> verb_cache \<Rightarrow> verb_cache" where
  "insert_entry bucket e c =
     c\<lparr>verbcache_miss := verbcache_miss c + 1,
       vc_table := map_option (\<lambda>t. t(bucket := e # t bucket)) (vc_table c)\<rparr>"

definition db_find_callable_verb :: "objid \<Rightarrow> string \<Rightarrow> 'p db \<Rightarrow> (handle option \<times> 'p db) option" where
  "db_find_callable_verb oid verb db = do {
     let c = (if vc_table (cache db) = None then make_vc_table DEFAULT_VC_SIZE (cache db) else cache db);
     obs \<leftarrow> map_option verb_line (ancestry db oid);
     let key = line_key obs;
     let hash = vc_hash_of verb key;
     let bucket = unat hash mod vc_size c;
     table \<leftarrow> vc_table c;
     case vc_lookup hash key verb (table bucket) of
       Some e \<Rightarrow> Some (vc_h e, db\<lparr>cache := count_hit e c\<rparr>)
     | None \<Rightarrow>
         let h = find_verb_in (\<lambda>ob. find_verbdef_by_name ob verb True) obs;
             e = \<lparr>vc_hash = hash, vc_oid_key = key, vc_verbname = verb, vc_h = h\<rparr>
         in Some (h, db\<lparr>cache := insert_entry bucket e c\<rparr>) }"

definition db_find_defined_verb :: "'p db \<Rightarrow> objid \<Rightarrow> string \<Rightarrow> bool \<Rightarrow> handle option option" where
  "db_find_defined_verb db oid vname allow_numbers = do {
     ob \<leftarrow> dbpriv_find_object db oid;
     let (n, p) = (case strtol vname of None \<Rightarrow> (0, vname) | Some r \<Rightarrow> r);
     let num = (if \<not> allow_numbers \<or> vname \<noteq> [] \<and> isspace (hd vname) \<or> p \<noteq> [] then -1
                else sint (word_of_int n :: int32));
     Some (map_option (\<lambda>i. \<lparr>h_definer = o_id ob, h_verbdef = i\<rparr>)
       (position (\<lambda>(i, v). int i = num \<or> verbcasecmp (v_name v) vname)
         (enumerate 0 (o_verbdefs ob)))) }"

definition db_find_indexed_verb :: "'p db \<Rightarrow> objid \<Rightarrow> nat \<Rightarrow> handle option option" where
  "db_find_indexed_verb db oid index = do {
     ob \<leftarrow> dbpriv_find_object db oid;
     Some (if 1 \<le> index \<and> index \<le> length (o_verbdefs ob)
           then Some \<lparr>h_definer = o_id ob, h_verbdef = index - 1\<rparr> else None) }"

section \<open>Cache statistics\<close>

definition VC_CACHE_STATS_MAX :: nat where "VC_CACHE_STATS_MAX = 16"

definition vc_histogram :: "verb_cache \<Rightarrow> int32 list" where
  "vc_histogram c =
     fold (\<lambda>i hist.
         let depth = min VC_CACHE_STATS_MAX (case vc_table c of None \<Rightarrow> 0 | Some t \<Rightarrow> length (t i))
         in hist[depth := hist ! depth + 1])
       [0..<vc_size c] (replicate (VC_CACHE_STATS_MAX + 1) 0)"

definition db_verb_cache_stats :: "'p db \<Rightarrow> var" where
  "db_verb_cache_stats db =
     (let c = cache db in
      VList [VInt (verbcache_hit c), VInt (verbcache_neg_hit c), VInt (verbcache_miss c),
             VInt (db_verb_generation c), VList (map VInt (vc_histogram c))])"

section \<open>Access through a handle\<close>

definition handle_verb :: "'p db \<Rightarrow> handle option \<Rightarrow> 'p verbdef option" where
  "handle_verb db vh = do {
     h \<leftarrow> vh;
     ob \<leftarrow> dbpriv_find_object db (h_definer h);
     if h_verbdef h < length (o_verbdefs ob) then Some (o_verbdefs ob ! h_verbdef h) else None }"

definition update_verb :: "('p verbdef \<Rightarrow> 'p verbdef) \<Rightarrow> handle option \<Rightarrow> 'p db \<Rightarrow> 'p db option" where
  "update_verb f vh db = do {
     h \<leftarrow> vh;
     v \<leftarrow> handle_verb db vh;
     update_object (h_definer h) (\<lambda>ob. ob\<lparr>o_verbdefs := (o_verbdefs ob)[h_verbdef h := f v]\<rparr>) db }"

definition db_verb_definer :: "handle option \<Rightarrow> objid option" where
  "db_verb_definer vh = map_option h_definer vh"

definition db_verb_names :: "'p db \<Rightarrow> handle option \<Rightarrow> string option" where
  "db_verb_names db vh = map_option v_name (handle_verb db vh)"

definition db_set_verb_names :: "handle option \<Rightarrow> string \<Rightarrow> 'p db \<Rightarrow> 'p db option" where
  "db_set_verb_names vh names db =
     update_verb (\<lambda>v. v\<lparr>v_name := names\<rparr>) vh (db_priv_affected_callable_verb_lookup db)"

definition db_verb_owner :: "'p db \<Rightarrow> handle option \<Rightarrow> objid option" where
  "db_verb_owner db vh = map_option v_owner (handle_verb db vh)"

definition db_set_verb_owner :: "handle option \<Rightarrow> objid \<Rightarrow> 'p db \<Rightarrow> 'p db option" where
  "db_set_verb_owner vh owner db = update_verb (\<lambda>v. v\<lparr>v_owner := owner\<rparr>) vh db"

definition db_verb_flags :: "'p db \<Rightarrow> handle option \<Rightarrow> unsigned option" where
  "db_verb_flags db vh = map_option (\<lambda>v. perms_int v AND PERMMASK) (handle_verb db vh)"

definition db_set_verb_flags :: "handle option \<Rightarrow> unsigned \<Rightarrow> 'p db \<Rightarrow> 'p db option" where
  "db_set_verb_flags vh flags db =
     update_verb (\<lambda>v. v\<lparr>v_perms := ucast ((perms_int v AND NOT PERMMASK) OR flags)\<rparr>) vh
       (db_priv_affected_callable_verb_lookup db)"

text \<open>\<open>null_program\<close> is the program of program.c that a verb without one runs.\<close>

definition db_verb_program :: "'p \<Rightarrow> 'p db \<Rightarrow> handle option \<Rightarrow> 'p option" where
  "db_verb_program null_program db vh =
     map_option (\<lambda>v. case v_program v of None \<Rightarrow> null_program | Some p \<Rightarrow> p) (handle_verb db vh)"

definition db_set_verb_program :: "handle option \<Rightarrow> 'p option \<Rightarrow> 'p db \<Rightarrow> 'p db option" where
  "db_set_verb_program vh program db = update_verb (\<lambda>v. v\<lparr>v_program := program\<rparr>) vh db"

definition db_verb_arg_specs :: "'p db \<Rightarrow> handle option \<Rightarrow> (unsigned \<times> int \<times> unsigned) option" where
  "db_verb_arg_specs db vh = map_option (\<lambda>v. (verb_dobj v, v_prep v, verb_iobj v)) (handle_verb db vh)"

definition db_set_verb_arg_specs ::
  "handle option \<Rightarrow> unsigned \<Rightarrow> int \<Rightarrow> unsigned \<Rightarrow> 'p db \<Rightarrow> 'p db option" where
  "db_set_verb_arg_specs vh dobj prep iobj db =
     update_verb (\<lambda>v. v\<lparr>v_perms := ucast ((perms_int v AND PERMMASK) OR arg_bits dobj iobj), v_prep := prep\<rparr>)
       vh (db_priv_affected_callable_verb_lookup db)"

definition db_verb_allows :: "'p db \<Rightarrow> handle option \<Rightarrow> objid \<Rightarrow> unsigned \<Rightarrow> bool option" where
  "db_verb_allows db vh progr flag = do {
     flags \<leftarrow> db_verb_flags db vh;
     if flags AND flag \<noteq> 0 then Some True
     else do {
       owner \<leftarrow> db_verb_owner db vh;
       Some (progr = owner \<or> is_wizard db progr) } }"

end
