(* ===== verification/VerbCache.thy ===== *)
theory VerbCache
  imports DbVerbs DbForest
begin

text \<open>
  The cache of callable verbs.  Its invariant says what every entry means; lookup through the cache is then
  the same as lookup without it, and each change either empties the cache or cannot be seen by an entry.
\<close>

section \<open>Lookup without the cache\<close>

definition callable_verb :: "string \<Rightarrow> 'p object list \<Rightarrow> handle option" where
  "callable_verb verb obs = find_verb_in (\<lambda>ob. find_verbdef_by_name ob verb True) obs"

definition uncached_lookup :: "'p db \<Rightarrow> objid \<Rightarrow> string \<Rightarrow> handle option" where
  "uncached_lookup db oid verb =
     (case ancestry db oid of None \<Rightarrow> None | Some obs \<Rightarrow> callable_verb verb obs)"

lemma callable_verb_line: "callable_verb verb (verb_line obs) = callable_verb verb obs"
  by (induction obs) (auto simp: callable_verb_def verb_line_def find_verbdef_by_name_def)

lemma verbcasecmp_fold:
  assumes "map cmap a = map cmap b"
  shows "verbcasecmp n a = verbcasecmp n b"
  unfolding verbcasecmp_names by (simp add: name_matches_def assms)

lemma callable_verb_fold: "map cmap a = map cmap b \<Longrightarrow> callable_verb a obs = callable_verb b obs"
  by (simp add: callable_verb_def find_verbdef_by_name_def verbcasecmp_fold [of a b])

section \<open>The invariant\<close>

text \<open>An entry under the key of an object with verbs is what lookup on that object finds; one under
  \<open>NOTHING\<close> records that there is nothing to find.\<close>

definition entry_ok :: "'p db \<Rightarrow> nat \<Rightarrow> nat \<Rightarrow> vc_entry \<Rightarrow> bool" where
  "entry_ok db n i e \<longleftrightarrow>
     vc_hash e = vc_hash_of (vc_verbname e) (vc_oid_key e) \<and> i = unat (vc_hash e) mod n
     \<and> cstring (vc_verbname e)
     \<and> (if vc_oid_key e = NOTHING then vc_h e = None
        else (\<exists>ob. dbpriv_find_object db (vc_oid_key e) = Some ob \<and> o_verbdefs ob \<noteq> [])
          \<and> vc_h e = uncached_lookup db (vc_oid_key e) (vc_verbname e))"

definition cache_ok :: "'p db \<Rightarrow> bool" where
  "cache_ok db \<longleftrightarrow> (\<forall>t i e. vc_table (cache db) = Some t \<longrightarrow> e \<in> set (t i) \<longrightarrow> entry_ok db (vc_size (cache db)) i e)"

lemma flushed_cache_ok:
  "(case vc_table (cache db) of None \<Rightarrow> True | Some t \<Rightarrow> \<forall>i. t i = []) \<Longrightarrow> cache_ok db"
  by (auto simp: cache_ok_def)

lemma vc_lookup_Some:
  "vc_lookup hash key verb es = Some e \<Longrightarrow>
     e \<in> set es \<and> vc_hash e = hash \<and> vc_oid_key e = key \<and> mystrcasecmp verb (vc_verbname e) = 0"
  by (induction es) (auto split: if_splits)

declare up_chain.simps [simp del]

lemma up_chain_suffix:
  "up_chain db n x = Some obs \<Longrightarrow> obs = as @ ob # bs \<Longrightarrow>
     (\<And>y ob. dbpriv_find_object db y = Some ob \<Longrightarrow> o_id ob = y) \<Longrightarrow>
     \<exists>m \<le> n. up_chain db m (o_id ob) = Some (ob # bs)"
proof (induction n arbitrary: x obs as)
  case 0
  then show ?case by (simp add: up_chain.simps [of db 0] split: option.splits)
next
  case (Suc n)
  show ?case
  proof (cases as)
    case Nil
    have "dbpriv_find_object db x = Some ob"
      using Suc.prems(1,2) Nil by (auto simp: up_chain.simps [of db "Suc n"] split: option.splits)
    then show ?thesis using Suc.prems Nil by (intro exI [of _ "Suc n"]) auto
  next
    case (Cons a as')
    then obtain ox where "dbpriv_find_object db x = Some ox" "up_chain db n (o_parent ox) = Some (as' @ ob # bs)"
      using Suc.prems(1,2) by (auto simp: up_chain.simps [of db "Suc n"] split: option.splits)
    then obtain m where "m \<le> n" "up_chain db m (o_id ob) = Some (ob # bs)"
      using Suc.IH [OF _ refl Suc.prems(3), of "o_parent ox" as'] by blast
    then show ?thesis using le_SucI by blast
  qed
qed

lemma up_chain_mono: "up_chain db m x = Some obs \<Longrightarrow> m \<le> n \<Longrightarrow> up_chain db n x = Some obs"
proof (induction m arbitrary: n x obs)
  case 0
  then show ?case by (simp add: up_chain.simps [of db 0] up_chain.simps [of db n] split: option.splits)
next
  case (Suc m)
  obtain k where k: "n = Suc k" "m \<le> k" using Suc.prems(2) by (cases n) auto
  show ?case
  proof (cases "dbpriv_find_object db x")
    case None
    then show ?thesis using Suc.prems(1) by (simp add: up_chain.simps [of db "Suc m"] up_chain.simps [of db n])
  next
    case (Some ox)
    then obtain os where "up_chain db m (o_parent ox) = Some os" "obs = ox # os"
      using Suc.prems(1) by (auto simp: up_chain.simps [of db "Suc m"])
    then show ?thesis using Suc.IH [OF _ k(2)] Some k(1) by (simp add: up_chain.simps [of db "Suc k"])
  qed
qed

lemma up_chain_find: "up_chain db n x = Some obs \<Longrightarrow> ob \<in> set obs \<Longrightarrow> \<exists>y. dbpriv_find_object db y = Some ob"
proof (induction n arbitrary: x obs)
  case 0
  then show ?case by (simp add: up_chain.simps [of db 0] split: option.splits)
next
  case (Suc n)
  then show ?case by (auto simp: up_chain.simps [of db "Suc n"] split: option.splits)
qed

text \<open>The line from the first object with verbs is the whole line of that object.\<close>

lemma verb_line_key:
  assumes ids: "\<And>y ob. dbpriv_find_object db y = Some ob \<Longrightarrow> o_id ob = y"
    and obs: "ancestry db oid = Some obs" and ob: "verb_line obs = ob # bs"
  shows "dbpriv_find_object db (o_id ob) = Some ob" "o_verbdefs ob \<noteq> []"
    "uncached_lookup db (o_id ob) verb = callable_verb verb obs" "o_id ob \<noteq> NOTHING"
proof -
  have "takeWhile (\<lambda>ob. o_verbdefs ob = []) obs @ verb_line obs = obs"
    unfolding verb_line_def by (rule takeWhile_dropWhile_id)
  then have as: "obs = takeWhile (\<lambda>ob. o_verbdefs ob = []) obs @ ob # bs" using ob by simp
  have "ob \<in> set obs" by (subst as) simp
  then obtain y where "dbpriv_find_object db y = Some ob"
    using up_chain_find [OF obs [unfolded ancestry_def]] by blast
  then show f: "dbpriv_find_object db (o_id ob) = Some ob" using ids [of y ob] by simp
  then show "o_id ob \<noteq> NOTHING" by (auto simp: dbpriv_find_object_def)
  show "o_verbdefs ob \<noteq> []"
    using ob hd_dropWhile [of "\<lambda>ob. o_verbdefs ob = []" obs] unfolding verb_line_def by simp
  obtain m where "m \<le> nat (num_objects db)" "up_chain db m (o_id ob) = Some (ob # bs)"
    using up_chain_suffix [OF obs [unfolded ancestry_def] as ids] by blast
  then have "ancestry db (o_id ob) = Some (ob # bs)"
    using up_chain_mono unfolding ancestry_def by blast
  then show "uncached_lookup db (o_id ob) verb = callable_verb verb obs"
    using callable_verb_line [of verb obs] ob by (simp add: uncached_lookup_def)
qed

section \<open>Lookup through the cache\<close>

text \<open>Looking a verb up through the cache gives what walking the ancestors gives, for every state of a
  cache that satisfies the invariant, and leaves such a cache; names are cached up to case, failures too.\<close>

lemma db_find_callable_verb_ok:
  assumes ids: "\<And>y ob. dbpriv_find_object db y = Some ob \<Longrightarrow> o_id ob = y"
    and c: "cache_ok db" and "cstring verb" and obs: "ancestry db oid = Some obs"
  shows "\<exists>c'. db_find_callable_verb oid verb db = Some (uncached_lookup db oid verb, db\<lparr>cache := c'\<rparr>)
    \<and> cache_ok (db\<lparr>cache := c'\<rparr>)"
proof -
  define c0 where "c0 = (if vc_table (cache db) = None then make_vc_table DEFAULT_VC_SIZE (cache db) else cache db)"
  define key where "key = line_key (verb_line obs)"
  define hash where "hash = vc_hash_of verb key"
  define bucket where "bucket = unat hash mod vc_size c0"
  obtain t where t: "vc_table c0 = Some t"
    by (cases "vc_table (cache db)") (auto simp: c0_def make_vc_table_def)
  have find: "dbpriv_find_object (db\<lparr>cache := c\<rparr>) x = dbpriv_find_object db x" for c x
    by (simp add: dbpriv_find_object_def)
  have lk: "uncached_lookup (db\<lparr>cache := c\<rparr>) x v = uncached_lookup db x v" for c x v
  proof -
    have "up_chain (db\<lparr>cache := c\<rparr>) n x = up_chain db n x" for n x
    proof (induction n arbitrary: x)
      case 0
      show ?case by (simp add: up_chain.simps [of _ 0] find cong: option.case_cong)
    next
      case (Suc n)
      show ?case by (simp add: up_chain.simps [of _ "Suc n"] find Suc cong: option.case_cong)
    qed
    then show ?thesis by (simp add: uncached_lookup_def ancestry_def)
  qed
  have ec: "entry_ok (db\<lparr>cache := c\<rparr>) n i e = entry_ok db n i e" for c n i e
    by (simp add: entry_ok_def lk)
  have e0: "entry_ok db (vc_size c0) i e" if "e \<in> set (t i)" for i e
    using c t that by (auto simp: c0_def make_vc_table_def cache_ok_def split: if_splits)
  have look: "uncached_lookup db oid verb = callable_verb verb obs" by (simp add: uncached_lookup_def obs)
  have hit: "vc_h e = callable_verb verb obs" if e: "vc_lookup hash key verb (t bucket) = Some e" for e
  proof -
    note l = vc_lookup_Some [OF e]
    have eo: "entry_ok db (vc_size c0) bucket e" using e0 l by blast
    then have "map cmap verb = map cmap (vc_verbname e)"
      using l mystrcasecmp_0 [OF assms(3)] by (auto simp: entry_ok_def)
    then have f: "callable_verb (vc_verbname e) obs = callable_verb verb obs" by (rule callable_verb_fold [symmetric])
    show ?thesis
    proof (cases "verb_line obs")
      case Nil
      then have "callable_verb verb obs = None"
        using callable_verb_line [of verb obs] by (simp add: callable_verb_def)
      then show ?thesis using eo l Nil by (simp add: entry_ok_def key_def line_key_def)
    next
      case (Cons ob bs)
      then have "key = o_id ob" by (simp add: key_def line_key_def)
      then show ?thesis
        using eo l verb_line_key [OF ids obs Cons] f by (auto simp: entry_ok_def)
    qed
  qed
  define h where "h = find_verb_in (\<lambda>ob. find_verbdef_by_name ob verb True) (verb_line obs)"
  have h: "h = callable_verb verb obs" using callable_verb_line [of verb obs] by (simp add: h_def callable_verb_def)
  define e where "e = \<lparr>vc_hash = hash, vc_oid_key = key, vc_verbname = verb, vc_h = h\<rparr>"
  have new: "entry_ok db (vc_size c0) bucket e"
  proof (cases "verb_line obs")
    case Nil
    then show ?thesis
      using assms(3) by (simp add: entry_ok_def e_def hash_def bucket_def key_def line_key_def h_def)
  next
    case (Cons ob bs)
    then show ?thesis
      using assms(3) verb_line_key [OF ids obs Cons] h
      by (auto simp: entry_ok_def e_def hash_def bucket_def key_def line_key_def)
  qed
  show ?thesis
  proof (cases "vc_lookup hash key verb (t bucket)")
    case None
    have "db_find_callable_verb oid verb db = Some (h, db\<lparr>cache := insert_entry bucket e c0\<rparr>)"
      using obs t None by (simp add: db_find_callable_verb_def c0_def [symmetric] key_def [symmetric]
        hash_def [symmetric] bucket_def [symmetric] h_def [symmetric] e_def [symmetric] Let_def)
    moreover have "cache_ok (db\<lparr>cache := insert_entry bucket e c0\<rparr>)"
      using t e0 new by (auto simp: cache_ok_def insert_entry_def ec split: if_splits)
    ultimately show ?thesis using h look by auto
  next
    case (Some e1)
    have "db_find_callable_verb oid verb db = Some (vc_h e1, db\<lparr>cache := count_hit e1 c0\<rparr>)"
      using obs t Some by (simp add: db_find_callable_verb_def c0_def [symmetric] key_def [symmetric]
        hash_def [symmetric] bucket_def [symmetric] Let_def)
    moreover have "cache_ok (db\<lparr>cache := count_hit e1 c0\<rparr>)"
      using t e0 by (auto simp: cache_ok_def count_hit_def ec)
    ultimately show ?thesis using hit [OF Some] look by auto
  qed
qed

end
