(* ===== verification/DbInvariant.thy ===== *)
theory DbInvariant
  imports DbChparent VerbCache
begin

text \<open>
  The invariant of the whole database: well linked hierarchies, the layout of property slots, an exact
  list of users, and a verb cache that tells the truth.  Every operation of db_objects.c, db_properties.c
  and db_verbs.c keeps it, under what its callers check.
\<close>

section \<open>The invariant\<close>

definition users_exact :: "'p db \<Rightarrow> bool" where
  "users_exact db \<longleftrightarrow> distinct (all_users db) \<and> set (all_users db) = VObj ` {x. is_user db x}"

definition db_ok :: "'p db \<Rightarrow> bool" where
  "db_ok db \<longleftrightarrow> db_links db \<and> props_ok db \<and> users_exact db \<and> cache_ok db"

lemma db_okD:
  assumes "db_ok db"
  shows "db_links db" "props_ok db" "users_exact db" "cache_ok db" "users_ok db"
    "dbpriv_find_object db x = Some ob \<Longrightarrow> o_id ob = x"
  using assms by (auto simp: db_ok_def users_exact_def users_ok_def db_links_def)

section \<open>Changes that a part of the invariant cannot see\<close>

lemma map_option_find:
  assumes "map_option g u = map_option g v"
  shows "u = Some a \<Longrightarrow> \<exists>b. v = Some b \<and> g a = g b" and "v = Some b \<Longrightarrow> \<exists>a. u = Some a \<and> g a = g b"
  using assms by (cases u; cases v; simp)+

lemma map_option_view:
  assumes "map_option g u = map_option g v" "\<And>a b. g a = g b \<Longrightarrow> h a = h b"
  shows "map_option h u = map_option h v"
proof (cases u)
  case None
  then show ?thesis using assms(1) by simp
next
  case (Some a)
  then obtain b where "v = Some b" "g a = g b" using map_option_find(1) [OF assms(1)] by blast
  then show ?thesis using Some assms(2) [of a b] by simp
qed

lemma map_option_pair:
  "map_option g u = map_option g v \<Longrightarrow> map_option h u = map_option h v \<Longrightarrow>
     map_option (\<lambda>x. (g x, h x)) u = map_option (\<lambda>x. (g x, h x)) v"
  by (cases u; cases v) simp_all

lemma same_but_view:
  assumes "same_but g db db'" "\<And>a b. g a = g b \<Longrightarrow> h a = h b"
  shows "map_option h (dbpriv_find_object db' y) = map_option h (dbpriv_find_object db y)"
  using assms(1) by (intro map_option_view [of g, OF _ assms(2)]) (simp_all add: same_but_def)

lemma same_but_back:
  assumes "same_but g db db'" "dbpriv_find_object db' x = Some ob'"
  obtains ob where "dbpriv_find_object db x = Some ob" "g ob' = g ob"
proof -
  have "map_option g (dbpriv_find_object db' x) = map_option g (dbpriv_find_object db x)"
    using assms(1) by (simp add: same_but_def)
  then show thesis using map_option_find(1) [OF _ assms(2)] that by metis
qed

text \<open>What verb lookup reads of an object.\<close>

definition call_view :: "'p object \<Rightarrow> objid \<times> objid \<times> (string \<times> short) list" where
  "call_view ob = (o_id ob, o_parent ob, map (\<lambda>v. (v_name v, v_perms v)) (o_verbdefs ob))"

lemma position_map: "position P (map f xs) = position (P \<circ> f) xs"
  by (induction xs) auto

lemma find_verbdef_names:
  "find_verbdef_by_name ob verb x =
     position (\<lambda>(n, p). verbcasecmp n verb \<and> (\<not> x \<or> (scast (p :: short) :: unsigned) AND VF_EXEC \<noteq> 0))
       (map (\<lambda>v. (v_name v, v_perms v)) (o_verbdefs ob))"
  by (simp add: find_verbdef_by_name_def position_map perms_int_def comp_def)

lemma find_verbdef_view: "call_view a = call_view b \<Longrightarrow> find_verbdef_by_name a verb x = find_verbdef_by_name b verb x"
  by (simp add: find_verbdef_names call_view_def)

lemma callable_verb_view: "map call_view as = map call_view bs \<Longrightarrow> callable_verb verb as = callable_verb verb bs"
  for as bs :: "'p object list"
proof (induction as arbitrary: bs)
  case (Cons a as)
  then obtain b bs' where b: "bs = b # bs'" "call_view a = call_view b" "map call_view as = map call_view bs'"
    by (cases bs) auto
  then have "o_id a = o_id b" by (simp add: call_view_def)
  then show ?case
    using b(1) find_verbdef_view [OF b(2)] Cons.IH [OF b(3)]
    by (simp add: callable_verb_def cong: option.case_cong)
qed simp

lemma up_chain_view:
  fixes db db' :: "'p db"
  assumes "\<And>y. map_option call_view (dbpriv_find_object db' y) = map_option call_view (dbpriv_find_object db y)"
  shows "map_option (map call_view) (up_chain db' n x) = map_option (map call_view) (up_chain db n x)"
proof (induction n arbitrary: x)
  case 0
  show ?case
    using assms [of x] by (cases "dbpriv_find_object db x"; cases "dbpriv_find_object db' x")
      (simp_all add: up_chain.simps [of _ 0])
next
  case (Suc n)
  show ?case
  proof (cases "dbpriv_find_object db x")
    case None
    then show ?thesis using assms [of x] by (simp add: up_chain.simps [of _ "Suc n"])
  next
    case (Some ob)
    then obtain ob' where ob': "dbpriv_find_object db' x = Some ob'" "call_view ob' = call_view ob"
      using map_option_find(2) [OF assms] by blast
    then have "o_parent ob' = o_parent ob" by (simp add: call_view_def)
    then show ?thesis
      using Some ob' Suc [of "o_parent ob"]
      by (cases "up_chain db n (o_parent ob)"; cases "up_chain db' n (o_parent ob)")
        (simp_all add: up_chain.simps [of _ "Suc n"])
  qed
qed

lemma uncached_lookup_view:
  fixes db db' :: "'p db"
  assumes "\<And>y. map_option call_view (dbpriv_find_object db' y) = map_option call_view (dbpriv_find_object db y)"
    and "num_objects db' = num_objects db"
  shows "uncached_lookup db' x verb = uncached_lookup db x verb"
proof -
  have "map_option (map call_view) (ancestry db' x) = map_option (map call_view) (ancestry db x)"
    using up_chain_view [OF assms(1)] assms(2) by (simp add: ancestry_def)
  then show ?thesis using callable_verb_view
    by (auto simp: uncached_lookup_def split: option.splits)
qed

lemma uncached_lookup_line:
  assumes "rooted parent_fields db" "valid db x"
  shows "uncached_lookup db x verb = callable_verb verb (map (\<lambda>y. the (dbpriv_find_object db y)) (line db x))"
  using ancestry_line [OF rooted_chain [OF assms]] by (simp add: uncached_lookup_def)

text \<open>A cache survives a change under which the objects with verbs still have verbs and find the same.\<close>

lemma cache_ok_keys:
  fixes db db' :: "'p db"
  assumes "cache_ok db" "cache db' = cache db"
    and "\<And>k ob verb. dbpriv_find_object db k = Some ob \<Longrightarrow> o_verbdefs ob \<noteq> [] \<Longrightarrow>
      (\<exists>ob'. dbpriv_find_object db' k = Some ob' \<and> o_verbdefs ob' \<noteq> [])
      \<and> uncached_lookup db' k verb = uncached_lookup db k verb"
  shows "cache_ok db'"
proof -
  have "entry_ok db' n i e" if "entry_ok db n i e" for n i e
    using that assms(3) [of "vc_oid_key e" _ "vc_verbname e"] by (auto simp: entry_ok_def split: if_splits)
  then show ?thesis using assms(1,2) by (simp add: cache_ok_def)
qed

lemma cache_ok_line:
  fixes db db' :: "'p db"
  assumes "cache_ok db" "cache db' = cache db" "rooted parent_fields db" "rooted parent_fields db'"
    and "\<And>k. valid db k \<Longrightarrow> defs_verbs k \<Longrightarrow> line db' k = line db k"
    and "\<And>k ob. dbpriv_find_object db k = Some ob \<Longrightarrow> o_verbdefs ob \<noteq> [] \<Longrightarrow> defs_verbs k"
    and "\<And>k y. valid db k \<Longrightarrow> defs_verbs k \<Longrightarrow> y \<in> set (line db k) \<Longrightarrow>
      map_option call_view (dbpriv_find_object db' y) = map_option call_view (dbpriv_find_object db y)"
  shows "cache_ok db'"
proof (rule cache_ok_keys [OF assms(1,2)])
  fix k ob verb assume ob: "dbpriv_find_object db k = Some ob" "o_verbdefs ob \<noteq> []"
  have v: "valid db k" using ob by (simp add: valid_iff)
  note dv = assms(6) [OF ob]
  have "k \<in> set (line db k)" using line_Cons(1) [OF assms(3) ob(1)] by simp
  then obtain ob' where ob': "dbpriv_find_object db' k = Some ob'" "call_view ob' = call_view ob"
    using map_option_find(2) [OF assms(7) [OF v dv] ob(1)] by blast
  have "o_verbdefs ob' \<noteq> []" using ob(2) ob'(2) by (auto simp: call_view_def)
  moreover have "call_view (the (dbpriv_find_object db' y)) = call_view (the (dbpriv_find_object db y))"
    if "y \<in> set (line db k)" for y
    using assms(7) [OF v dv that] chain_valid [OF rooted_chain [OF assms(3) v] that] by (auto simp: valid_iff)
  then have "callable_verb verb (map (\<lambda>y. the (dbpriv_find_object db' y)) (line db k))
      = callable_verb verb (map (\<lambda>y. the (dbpriv_find_object db y)) (line db k))"
    by (intro callable_verb_view) simp
  moreover have "valid db' k" using ob' by (simp add: valid_iff)
  ultimately show "(\<exists>ob'. dbpriv_find_object db' k = Some ob' \<and> o_verbdefs ob' \<noteq> [])
      \<and> uncached_lookup db' k verb = uncached_lookup db k verb"
    using ob'(1) uncached_lookup_line assms(3,4,5) v dv by metis
qed

lemma cache_ok_same:
  assumes "same_but g db db'" "\<And>a b. g a = g b \<Longrightarrow> call_view a = call_view b" "cache_ok db"
  shows "cache_ok db'"
proof (rule cache_ok_keys [OF assms(3)])
  note view = same_but_view [OF assms(1,2)]
  show "cache db' = cache db" using assms(1) by (simp add: same_but_def)
  fix k ob verb assume "dbpriv_find_object db k = Some ob" "o_verbdefs ob \<noteq> []"
  moreover have "uncached_lookup db' k verb = uncached_lookup db k verb"
    using uncached_lookup_view [OF view] assms(1) by (simp add: same_but_def)
  ultimately show "(\<exists>ob'. dbpriv_find_object db' k = Some ob' \<and> o_verbdefs ob' \<noteq> [])
      \<and> uncached_lookup db' k verb = uncached_lookup db k verb"
    using map_option_find(2) [OF view] by (fastforce simp: call_view_def)
qed

lemma cache_ok_same_find:
  assumes "same_find db db'" "cache db' = cache db" "cache_ok db"
  shows "cache_ok db'"
  using assms(1) uncached_lookup_view [of db' db]
  by (intro cache_ok_keys [OF assms(3,2)]) (simp add: same_find_def)

lemma cache_ok_flushed: "cache db' = cache (db_priv_affected_callable_verb_lookup db) \<Longrightarrow> cache_ok db'"
  using affected_flushed [of db] by (intro flushed_cache_ok) simp

lemma users_exact_same:
  fixes db db' :: "'p db"
  assumes "same_but g db db'" "\<And>a b. g a = g b \<Longrightarrow> has_flag a FLAG_USER = has_flag b FLAG_USER" "users_exact db"
  shows "users_exact db'"
proof -
  have u: "is_user db x = (map_option (\<lambda>ob. has_flag ob FLAG_USER) (dbpriv_find_object db x) = Some True)" for db :: "'p db" and x
    by (auto simp: is_user_def valid_with_def split: option.split)
  have "is_user db' x = is_user db x" for x
  proof -
    have "map_option (\<lambda>ob. has_flag ob FLAG_USER) (dbpriv_find_object db' x)
        = map_option (\<lambda>ob. has_flag ob FLAG_USER) (dbpriv_find_object db x)"
      by (rule same_but_view [OF assms(1)]) (rule assms(2))
    then show ?thesis by (simp add: u)
  qed
  then show ?thesis using assms(1,3) by (simp add: users_exact_def same_but_def)
qed

definition own_slots_set :: "'p object \<Rightarrow> bool" where
  "own_slots_set ob \<longleftrightarrow> (\<forall>s \<in> set (take (length (o_propdefs ob)) (o_propval ob)). p_var s \<noteq> VClear)"

lemma props_ok_same:
  assumes s: "same_but g db db'" and k: "keeps o_child g" "keeps o_sibling g" "keeps o_parent g" "keeps o_id g"
      "keeps o_propdefs g" "keeps o_max_propdefs g" "\<And>ob. length (o_propval (g ob)) = length (o_propval ob)"
    and own: "\<And>x ob'. dbpriv_find_object db' x = Some ob' \<Longrightarrow> own_slots_set ob'"
    and ok: "props_ok db"
  shows "props_ok db'"
proof -
  have "forest parent_fields db'" using forest_same [OF s, of parent_fields] k props_okD(1) [OF ok] by simp
  moreover have "o_id ob' = x \<and> object_props_ok db' x ob'" if f: "dbpriv_find_object db' x = Some ob'" for x ob'
  proof -
    obtain ob where ob: "dbpriv_find_object db x = Some ob" "g ob' = g ob"
      using same_but_back [OF s f] by blast
    have "o_id ob' = o_id ob" "o_propdefs ob' = o_propdefs ob" "o_max_propdefs ob' = o_max_propdefs ob"
      "length (o_propval ob') = length (o_propval ob)"
      using k ob(2) unfolding keeps_def by metis+
    moreover have "line_defs db' x = line_defs db x"
      using line_defs_cong [OF same_but_field [OF s] same_but_field [OF s]] k s by (simp add: same_but_def)
    ultimately show ?thesis
      using props_okD(4,5) [OF ok ob(1)] own [OF f] by (simp add: object_props_ok_def own_slots_set_def)
  qed
  ultimately show ?thesis by (simp add: props_ok_def)
qed

lemma own_slots_set_same:
  assumes "same_but g db db'" "keeps o_propdefs g" "keeps o_propval g" "props_ok db" "dbpriv_find_object db' x = Some ob'"
  shows "own_slots_set ob'"
proof -
  obtain ob where ob: "dbpriv_find_object db x = Some ob" "g ob' = g ob"
    using same_but_back [OF assms(1,5)] by blast
  then have "o_propdefs ob' = o_propdefs ob" "o_propval ob' = o_propval ob"
    using assms(2,3) unfolding keeps_def by metis+
  then show ?thesis
    using props_okD(4) [OF assms(4) ob(1)] by (simp add: object_props_ok_def own_slots_set_def)
qed

lemma db_links_same:
  assumes "same_but g db db'" "keeps_links g" "db_links db"
  shows "db_links db'"
proof -
  have "o_id ob' = x" if f: "dbpriv_find_object db' x = Some ob'" for x ob'
  proof -
    obtain ob where "dbpriv_find_object db x = Some ob" "g ob' = g ob" using same_but_back [OF assms(1) f] by blast
    then show ?thesis using assms(2,3) unfolding keeps_links_def keeps_def db_links_def by metis
  qed
  then show ?thesis
    using same_structure(3,4) [OF assms(1,2)] assms(1,3) by (simp add: db_links_def same_but_def)
qed

section \<open>Attributes, slots and verbs\<close>

text \<open>\<open>g\<close> forgets only what no part of the invariant reads.\<close>

definition invisible :: "('p object \<Rightarrow> 'p object) \<Rightarrow> bool" where
  "invisible g \<longleftrightarrow> keeps_links g \<and> keeps o_propdefs g \<and> keeps o_max_propdefs g
     \<and> (\<forall>ob. length (o_propval (g ob)) = length (o_propval ob))
     \<and> (\<forall>ob. has_flag (g ob) FLAG_USER = has_flag ob FLAG_USER) \<and> (\<forall>ob. call_view (g ob) = call_view ob)"

lemma db_ok_same:
  assumes "same_but g db db'" "invisible g"
    and "\<And>x ob'. dbpriv_find_object db' x = Some ob' \<Longrightarrow> own_slots_set ob'"
    and ok: "db_ok db"
  shows "db_ok db'"
proof -
  note ok = db_okD [OF ok] and g = assms(2) [unfolded invisible_def]
  have "props_ok db'"
    using props_ok_same [OF assms(1) _ _ _ _ _ _ _ assms(3) ok(2)] g by (simp add: keeps_links_def)
  moreover have "users_exact db'" by (rule users_exact_same [OF assms(1) _ ok(3)]) (use g in metis)
  moreover have "cache_ok db'" by (rule cache_ok_same [OF assms(1) _ ok(4)]) (use g in metis)
  ultimately show ?thesis using db_links_same [OF assms(1) _ ok(1)] g by (simp add: db_ok_def)
qed

lemma own_slots: "props_ok db \<Longrightarrow> dbpriv_find_object db x = Some ob \<Longrightarrow> own_slots_set ob"
  using props_okD(4) [of db x ob] by (simp add: object_props_ok_def own_slots_set_def)

lemma update_objectD:
  assumes "update_object x f db = Some db'"
  obtains ob where "dbpriv_find_object db x = Some ob" "db' = upd x (f ob) db"
  using assms by (auto simp: update_object_def upd_def split: option.splits)

lemma own_slots_upd:
  assumes "props_ok db" "dbpriv_find_object db x = Some ob" "own_slots_set ob'"
    and "dbpriv_find_object (upd x ob' db) y = Some oy"
  shows "own_slots_set oy"
  using assms own_slots [OF assms(1)] by (auto split: if_splits)

lemma db_ok_attribute:
  assumes "db_ok db" "update_object x f db = Some db'" "invisible g"
    and "\<And>ob. dbpriv_find_object db x = Some ob \<Longrightarrow> g (f ob) = g ob"
    and "\<And>ob. dbpriv_find_object db x = Some ob \<Longrightarrow> own_slots_set ob \<Longrightarrow> own_slots_set (f ob)"
  shows "db_ok db'"
proof -
  obtain ob where ob: "dbpriv_find_object db x = Some ob" "db' = upd x (f ob) db"
    using update_objectD [OF assms(2)] by blast
  note P = db_okD(2) [OF assms(1)]
  show ?thesis unfolding ob(2)
  proof (rule db_ok_same [OF _ assms(3) _ assms(1)])
    show "same_but g db (upd x (f ob) db)" by (rule same_but_upd [OF ob(1) assms(4) [OF ob(1)]])
  qed (rule own_slots_upd [OF P ob(1) assms(5) [OF ob(1) own_slots [OF P ob(1)]]])
qed

lemma has_user_flag: "has_flag ob FLAG_USER = (o_flags ob AND 1 \<noteq> 0)"
  by (simp add: has_flag_def)

lemma invisible_fields:
  "invisible (\<lambda>ob. ob\<lparr>o_name := []\<rparr>)" "invisible (\<lambda>ob. ob\<lparr>o_owner := 0\<rparr>)"
  "invisible (\<lambda>ob. ob\<lparr>o_flags := o_flags ob AND 1\<rparr>)"
  "invisible (\<lambda>ob. ob\<lparr>o_propval := replicate (length (o_propval ob)) pv\<rparr>)"
  "invisible (\<lambda>ob. ob\<lparr>o_verbdefs := map (\<lambda>v. v\<lparr>v_owner := 0, v_program := None\<rparr>) (o_verbdefs ob)\<rparr>)"
  by (simp_all add: invisible_def keeps_links_def keeps_def call_view_def has_user_flag comp_def and.assoc)

lemma db_set_object_name_ok: "db_ok db \<Longrightarrow> db_set_object_name db x s = Some db' \<Longrightarrow> db_ok db'"
  unfolding db_set_object_name_def
  by (erule (1) db_ok_attribute [OF _ _ invisible_fields(1)]) (auto simp: own_slots_set_def)

lemma db_set_object_owner_ok: "db_ok db \<Longrightarrow> db_set_object_owner db x y = Some db' \<Longrightarrow> db_ok db'"
  unfolding db_set_object_owner_def
  by (erule (1) db_ok_attribute [OF _ _ invisible_fields(2)]) (auto simp: own_slots_set_def)

lemma write_slot_ok:
  assumes "db_ok db" "write_slot f h db = Some db'"
    and own: "\<And>x n ob. ph_ptr h = PSlot x n \<Longrightarrow> dbpriv_find_object db x = Some ob \<Longrightarrow> n < length (o_propdefs ob) \<Longrightarrow>
      n < length (o_propval ob) \<Longrightarrow> p_var (o_propval ob ! n) \<noteq> VClear \<Longrightarrow> p_var (f (o_propval ob ! n)) \<noteq> VClear"
  shows "db_ok db'"
proof -
  obtain x n ob where h: "ph_ptr h = PSlot x n" "dbpriv_find_object db x = Some ob" "n < length (o_propval ob)"
      "update_object x (\<lambda>ob. ob\<lparr>o_propval := (o_propval ob)[n := f (o_propval ob ! n)]\<rparr>) db = Some db'"
    using assms(2) by (auto simp: write_slot_def bind_eq_Some_conv split: prop_ptr.splits if_splits)
  have set: "own_slots_set (ob\<lparr>o_propval := (o_propval ob)[n := f (o_propval ob ! n)]\<rparr>)" if o: "own_slots_set ob"
  proof (cases "n < length (o_propdefs ob)")
    case True
    then have "p_var (o_propval ob ! n) \<noteq> VClear"
      using o h(3) by (auto simp: own_slots_set_def set_conv_nth)
    then have "p_var (f (o_propval ob ! n)) \<noteq> VClear" using own [OF h(1,2) True h(3)] by simp
    then show ?thesis
      using o True h(3) by (auto simp: own_slots_set_def take_update_swap dest!: set_update_subset_insert [THEN subsetD])
  next
    case False
    then show ?thesis using o by (simp add: own_slots_set_def take_update_cancel)
  qed
  show ?thesis
    by (rule db_ok_attribute [OF assms(1) h(4) invisible_fields(4) [of _]])
      (use h set in \<open>auto simp: map_replicate_const\<close>)
qed

lemma db_set_property_owner_ok: "db_ok db \<Longrightarrow> db_set_property_owner h x db = Some db' \<Longrightarrow> db_ok db'"
  by (rule write_slot_ok [of db "\<lambda>pv. pv\<lparr>p_owner := x\<rparr>" h]) (auto simp: db_set_property_owner_def split: if_splits)

lemma db_set_property_flags_ok: "db_ok db \<Longrightarrow> db_set_property_flags h f db = Some db' \<Longrightarrow> db_ok db'"
  by (rule write_slot_ok [of db "\<lambda>pv. pv\<lparr>p_perms := ucast f\<rparr>" h])
    (auto simp: db_set_property_flags_def split: if_splits)

text \<open>Flags; the player flag goes with the list of users.\<close>

lemma flag_bit_user: "f \<noteq> FLAG_USER \<Longrightarrow> flag_num f \<noteq> 0"
  by (cases f) simp_all

lemma user_bit_set: "flag_num f \<noteq> 0 \<Longrightarrow> (w OR 2 ^ flag_num f) AND 1 = w AND (1 :: int32)"
  by (rule bit_eqI) (auto simp: bit_simps)

lemma user_bit_clear: "flag_num f \<noteq> 0 \<Longrightarrow> w AND (NOT (2 ^ flag_num f) AND 1) = w AND (1 :: int32)"
  by (rule bit_eqI) (auto simp: bit_simps)

lemma setadd_objects:
  assumes "\<forall>u \<in> set us. \<exists>x. u = VObj x"
  shows "setadd us (VObj x) = Some (if VObj x \<in> set us then us else us @ [VObj x])"
  using ismember_objects [OF assms] by (simp add: setadd_def ismember_def listappend_ok)

lemma users_change:
  assumes ok: "db_ok db" and ob: "dbpriv_find_object db x = Some ob"
    and g: "o_flags_update (\<lambda>_. 0) (f ob) = o_flags_update (\<lambda>_. 0) ob"
    and "distinct us" "set us = (if has_flag (f ob) FLAG_USER then insert (VObj x) (set (all_users db))
           else set (all_users db) - {VObj x})"
  shows "db_ok ((upd x (f ob) db)\<lparr>all_users := us\<rparr>)" (is "db_ok ?db")
proof -
  note D = db_okD [OF ok]
  let ?g = "\<lambda>ob. ob\<lparr>o_flags := 0\<rparr>"
  let ?u = "upd x (f ob) db"
  have s: "same_but ?g db ?u" by (rule same_but_upd [OF ob]) (use g in simp)
  have "own_slots_set (f ob)"
  proof -
    have "o_propdefs (?g (f ob)) = o_propdefs (?g ob)" "o_propval (?g (f ob)) = o_propval (?g ob)" by (simp_all add: g)
    then show ?thesis using own_slots [OF D(2) ob] by (simp add: own_slots_set_def)
  qed
  then have "props_ok ?u"
    by (intro props_ok_same [OF s _ _ _ _ _ _ _ own_slots_upd [OF D(2) ob] D(2)]) (auto simp: keeps_def)
  moreover have "db_links ?u" by (rule db_links_same [OF s _ D(1)]) (simp add: keeps_links_def keeps_def)
  moreover have "cache_ok ?u"
  proof (rule cache_ok_same [OF s _ D(4)])
    fix a b :: "'a object" assume "?g a = ?g b"
    then have "call_view (?g a) = call_view (?g b)" by (rule arg_cong)
    then show "call_view a = call_view b" by (simp add: call_view_def)
  qed
  have sf: "same_find ?u ?db" by (simp add: same_find_def)
  note S = same_find_structure [of ?db ?u, OF find_update_rest(1)]
  have "is_user ?db y = (if y = x then has_flag (f ob) FLAG_USER else is_user db y)" for y
    using ob by (simp add: is_user_def valid_with_def)
  then have "users_exact ?db" using D(3) assms(4,5) by (auto simp: users_exact_def)
  moreover have "cache_ok ?db" using cache_ok_same_find [OF sf] \<open>cache_ok ?u\<close> by simp
  ultimately show ?thesis
    using props_ok_same_find [OF sf] S by (simp add: db_ok_def db_links_def forest_def)
qed

lemma user_bit_clear_now [simp]: "\<not> has_flag (ob\<lparr>o_flags := o_flags ob AND - 2\<rparr>) FLAG_USER"
proof -
  have "(w AND - 2) AND 1 = (0 :: int32)" for w by (simp add: and.assoc)
  then show ?thesis by (simp add: has_user_flag)
qed

lemma user_bit_now [simp]:
  "has_flag (ob\<lparr>o_flags := o_flags ob OR 1\<rparr>) FLAG_USER"
  "\<not> has_flag (ob\<lparr>o_flags := o_flags ob AND NOT 1\<rparr>) FLAG_USER"
  by (simp_all add: has_user_flag bit_eq_iff [of _ "0 :: int32"] bit_simps exI [of _ 0] cong: conj_cong)

lemma db_set_object_flag_ok:
  assumes ok: "db_ok db" and r: "db_set_object_flag db x f = Some db'"
  shows "db_ok db'"
proof -
  obtain ob where ob: "dbpriv_find_object db x = Some ob"
    using r by (auto simp: db_set_object_flag_def update_object_def split: option.splits)
  show ?thesis
  proof (cases "f = FLAG_USER")
    case True
    have "db' = upd x (ob\<lparr>o_flags := o_flags ob OR 1\<rparr>) db
        \<lparr>all_users := if VObj x \<in> set (all_users db) then all_users db else all_users db @ [VObj x]\<rparr>"
      using r True setadd_objects [of "all_users db" x] db_okD(5) [OF ok]
      by (simp add: db_set_object_flag_def update_object_upd [OF ob] users_ok_def)
    then show ?thesis
      using users_change [OF ok ob, of "\<lambda>ob. ob\<lparr>o_flags := o_flags ob OR 1\<rparr>"] db_okD(3) [OF ok]
      by (auto simp: users_exact_def)
  next
    case False
    then show ?thesis
      using r flag_bit_user [OF False] unfolding db_set_object_flag_def
      by (intro db_ok_attribute [OF ok _ invisible_fields(3), of x "\<lambda>ob. ob\<lparr>o_flags := o_flags ob OR push_bit (flag_num f) 1\<rparr>"])
        (auto simp: user_bit_set own_slots_set_def)
  qed
qed

lemma db_clear_object_flag_ok:
  assumes ok: "db_ok db" and r: "db_clear_object_flag db x f = Some db'"
  shows "db_ok db'"
proof -
  obtain ob where ob: "dbpriv_find_object db x = Some ob"
    using r by (auto simp: db_clear_object_flag_def update_object_def split: option.splits)
  show ?thesis
  proof (cases "f = FLAG_USER")
    case True
    have "db' = upd x (ob\<lparr>o_flags := o_flags ob AND NOT 1\<rparr>) db\<lparr>all_users := remove1 (VObj x) (all_users db)\<rparr>"
      using r True setremove_objects [of "all_users db" x] db_okD(5) [OF ok]
      by (simp add: db_clear_object_flag_def update_object_upd [OF ob] users_ok_def)
    then show ?thesis
      using users_change [OF ok ob, of "\<lambda>ob. ob\<lparr>o_flags := o_flags ob AND NOT 1\<rparr>"] db_okD(3) [OF ok]
      by (simp add: users_exact_def)
  next
    case False
    then show ?thesis
      using r flag_bit_user [OF False] unfolding db_clear_object_flag_def
      by (intro db_ok_attribute [OF ok _ invisible_fields(3), of x "\<lambda>ob. ob\<lparr>o_flags := o_flags ob AND NOT (push_bit (flag_num f) 1)\<rparr>"])
        (auto simp: user_bit_clear own_slots_set_def and.assoc)
  qed
qed

lemma db_set_property_value_ok:
  assumes ok: "db_ok db" and r: "db_set_property_value h v db = Some db'"
    and own: "\<And>x n ob. ph_ptr h = PSlot x n \<Longrightarrow> dbpriv_find_object db x = Some ob \<Longrightarrow> n < length (o_propdefs ob) \<Longrightarrow>
      v \<noteq> VClear"
  shows "db_ok db'"
proof (cases "ph_built_in h = BP_NONE")
  case True
  then show ?thesis
    using r own by (intro write_slot_ok [OF ok, of "\<lambda>pv. pv\<lparr>p_var := v\<rparr>" h]) (auto simp: db_set_property_value_def)
next
  case False
  then obtain x where "set_bi_value (ph_built_in h) x v db = Some db'"
    using r by (auto simp: db_set_property_value_def bind_eq_Some_conv)
  then show ?thesis
    using db_set_object_name_ok [OF ok] db_set_object_owner_ok [OF ok] db_set_object_flag_ok [OF ok]
      db_clear_object_flag_ok [OF ok]
    by (cases "ph_built_in h") (auto split: var.splits if_splits)
qed

section \<open>Verbs\<close>

text \<open>A change of verbs after the cache has been emptied.\<close>

abbreviation no_verbs :: "'p object \<Rightarrow> 'p object" where
  "no_verbs ob \<equiv> ob\<lparr>o_verbdefs := []\<rparr>"

lemma db_ok_verbs:
  assumes ok: "db_ok db" and r: "update_object x f (db_priv_affected_callable_verb_lookup db) = Some db'"
    and f: "\<And>ob. no_verbs (f ob) = no_verbs ob"
  shows "db_ok db'"
proof -
  let ?db = "db_priv_affected_callable_verb_lookup db"
  note D = db_okD [OF ok]
  have sf: "same_find db ?db" by (simp add: same_find_def)
  note S = same_find_structure [of ?db db, OF affected_rest(1,3)]
  have P: "props_ok ?db" by (rule props_ok_same_find [OF sf D(2)])
  have L: "db_links ?db" using D(1) by (simp add: db_links_def forest_def S)
  have U: "users_exact ?db" using D(3) by (simp add: users_exact_def is_user_def valid_with_def)
  obtain ob where ob: "dbpriv_find_object ?db x = Some ob" "db' = upd x (f ob) ?db"
    using update_objectD [OF r] by blast
  have s: "same_but no_verbs ?db db'" unfolding ob(2) by (rule same_but_upd [OF ob(1)]) (rule f)
  have "own_slots_set oy" if "dbpriv_find_object db' y = Some oy" for y oy
    using own_slots_set_same [OF s _ _ P that] by (simp add: keeps_def)
  then have "props_ok db'" by (intro props_ok_same [OF s _ _ _ _ _ _ _ _ P]) (simp_all add: keeps_def)
  moreover have "db_links db'" by (rule db_links_same [OF s _ L]) (simp add: keeps_links_def keeps_def)
  moreover have "users_exact db'"
  proof (rule users_exact_same [OF s _ U])
    fix a b :: "'a object" assume "no_verbs a = no_verbs b"
    then have "o_flags (no_verbs a) = o_flags (no_verbs b)" by (rule arg_cong)
    then show "has_flag a FLAG_USER = has_flag b FLAG_USER" by (simp add: has_flag_def)
  qed
  moreover have "cache_ok db'" by (rule cache_ok_flushed [of _ db]) (simp add: ob(2))
  ultimately show ?thesis by (simp add: db_ok_def)
qed

lemma db_add_verb_ok: "db_ok db \<Longrightarrow> db_add_verb x names owner flags dobj prep iobj db = Some (n, db') \<Longrightarrow> db_ok db'"
  unfolding db_add_verb_def Let_def bind_eq_Some_conv by (auto elim!: db_ok_verbs)

lemma db_delete_verb_ok: "db_ok db \<Longrightarrow> db_delete_verb h db = Some db' \<Longrightarrow> db_ok db'"
  unfolding db_delete_verb_def bind_eq_Some_conv by (auto elim!: db_ok_verbs split: if_splits)

lemma update_verb_ok:
  "db_ok db \<Longrightarrow> update_verb f vh (db_priv_affected_callable_verb_lookup db) = Some db' \<Longrightarrow> db_ok db'"
  unfolding update_verb_def bind_eq_Some_conv by (auto elim!: db_ok_verbs)

lemma db_set_verb_ok:
  assumes "db_ok db"
  shows "db_set_verb_names vh names db = Some db' \<Longrightarrow> db_ok db'"
    and "db_set_verb_flags vh flags db = Some db' \<Longrightarrow> db_ok db'"
    and "db_set_verb_arg_specs vh dobj prep iobj db = Some db' \<Longrightarrow> db_ok db'"
  using update_verb_ok [OF assms]
  by (auto simp: db_set_verb_names_def db_set_verb_flags_def db_set_verb_arg_specs_def)

text \<open>Owner and program are not seen by lookup, and the cache is kept.\<close>

lemma update_verb_unseen:
  assumes ok: "db_ok db" and r: "update_verb f vh db = Some db'"
    and f: "\<And>v. (f v)\<lparr>v_owner := 0, v_program := None\<rparr> = v\<lparr>v_owner := 0, v_program := None\<rparr>"
  shows "db_ok db'"
proof -
  obtain h :: handle and ob where h: "dbpriv_find_object db (h_definer h) = Some ob" "h_verbdef h < length (o_verbdefs ob)"
      "update_object (h_definer h) (\<lambda>o1. o1\<lparr>o_verbdefs := (o_verbdefs o1)[h_verbdef h := f (o_verbdefs ob ! h_verbdef h)]\<rparr>) db
        = Some db'"
    using r by (clarsimp simp: update_verb_def handle_verb_def bind_eq_Some_conv split: if_splits)
  let ?e = "\<lambda>v. v\<lparr>v_owner := 0, v_program := None\<rparr>"
  have "map ?e ((o_verbdefs ob)[h_verbdef h := f (o_verbdefs ob ! h_verbdef h)]) = map ?e (o_verbdefs ob)"
    using h(2) f by (simp add: map_update list_update_same_conv)
  then show ?thesis
    using h by (intro db_ok_attribute [OF ok h(3) invisible_fields(5)]) (auto simp: own_slots_set_def)
qed

lemma db_set_verb_owner_ok: "db_ok db \<Longrightarrow> db_set_verb_owner vh x db = Some db' \<Longrightarrow> db_ok db'"
  unfolding db_set_verb_owner_def by (erule (1) update_verb_unseen) simp

lemma db_set_verb_program_ok: "db_ok db \<Longrightarrow> db_set_verb_program vh p db = Some db' \<Longrightarrow> db_ok db'"
  unfolding db_set_verb_program_def by (erule (1) update_verb_unseen) simp

lemma db_lookup_keeps_ok:
  assumes ok: "db_ok db" and "valid db x" "cstring verb"
  shows "\<exists>c'. db_find_callable_verb x verb db = Some (uncached_lookup db x verb, db\<lparr>cache := c'\<rparr>)
    \<and> db_ok (db\<lparr>cache := c'\<rparr>)"
proof -
  note D = db_okD [OF ok]
  obtain obs where "ancestry db x = Some obs"
    using ancestry_line [OF rooted_chain [OF props_okD(2) [OF D(2)] assms(2)]] by blast
  then obtain c' where c: "db_find_callable_verb x verb db = Some (uncached_lookup db x verb, db\<lparr>cache := c'\<rparr>)"
      "cache_ok (db\<lparr>cache := c'\<rparr>)"
    using db_find_callable_verb_ok [OF D(6) D(4) assms(3)] by blast
  let ?db = "db\<lparr>cache := c'\<rparr>"
  have sf: "same_find db ?db" by (simp add: same_find_def)
  note S = same_find_structure [of ?db db, OF find_update_rest(2)]
  have "users_exact ?db" using D(3) by (simp add: users_exact_def is_user_def valid_with_def)
  moreover have "db_links ?db" using D(1) by (simp add: db_links_def forest_def S)
  ultimately have "db_ok ?db" using c(2) props_ok_same_find [OF sf D(2)] by (simp add: db_ok_def)
  then show ?thesis using c(1) by blast
qed

section \<open>Objects\<close>

lemma line_avoids:
  assumes "rooted parent_fields db" "valid db y" "\<not> valid db n"
  shows "n \<notin> set (line db y)"
  using chain_valid [OF rooted_chain [OF assms(1,2)]] assms(3) by blast

lemma db_create_object_keeps_ok:
  assumes ok: "db_ok db"
  shows "\<exists>db' ob. db_create_object raw db = Some (num_objects db, db') \<and> db_ok db'
    \<and> \<not> valid db (num_objects db) \<and> db_last_used_objid db' = num_objects db
    \<and> (\<forall>y. dbpriv_find_object db' y = (if y = num_objects db then Some ob else dbpriv_find_object db y))
    \<and> barren_new ob \<and> o_id ob = num_objects db \<and> all_users db' = all_users db"
proof -
  let ?n = "num_objects db"
  note D = db_okD [OF ok] and P = props_okD [OF db_okD(2) [OF ok]]
  have n: "0 \<le> ?n" "?n \<le> max_objects db" using D(1) by (simp_all add: db_links_def)
  obtain db' ob where c: "db_create_object raw db = Some (?n, db')"
      "\<And>y. dbpriv_find_object db' y = (if y = ?n then Some ob else dbpriv_find_object db y)"
      "barren_new ob" "o_id ob = ?n" "all_users db' = all_users db" "cache db' = cache db"
    using db_create_object_new [OF n, of raw] by blast
  obtain ob2 where L: "db_links db'" and nv: "\<not> valid db ?n" and l: "db_last_used_objid db' = ?n"
    using db_create_object_ok [OF D(1), of raw] c(1) by auto
  have f: "field g db' = (field g db)(?n := Some (g ob))" for g :: "'a object \<Rightarrow> objid"
    using c(2) by (auto simp: field_def)
  have line: "line db' y = line db y" if "valid db y" for y
    using rooted_chain [OF P(2) that] line_avoids [OF P(2) that nv]
    by (intro line_chain) (simp add: f chain_fun_upd)
  have defs: "defs_on db' y = defs_on db y" if "y \<noteq> ?n" for y using c(2) that by (simp add: defs_on_def)
  have R: "rooted parent_fields db'" using L by (simp add: db_links_def forest_def)
  have "line_defs db' y = line_defs db y" if v: "valid db y" for y
  proof -
    have "defs_on db' x = defs_on db x" if "x \<in> set (line db y)" for x
      using defs [of x] line_avoids [OF P(2) v nv] that by blast
    then show ?thesis
      unfolding line_defs_def line [OF v] defs_of_def by (intro arg_cong [where f = concat] map_cong refl) simp
  qed
  moreover have "line_defs db' ?n = []"
    using line_Cons(1) [OF R, of ?n ob] c(2,3)
    by (simp add: line_defs_def barren_new_def barren_def defs_on_def)
  ultimately have "object_props_ok db' y oy" if "dbpriv_find_object db' y = Some oy" for y oy
    using that P(4) c(2,3) by (cases "y = ?n") (auto simp: object_props_ok_def barren_new_def valid_iff)
  then have "props_ok db'" using L by (auto simp: props_ok_def db_links_def)
  moreover have "is_user db' y = is_user db y" for y
  proof (cases "y = ?n")
    case True
    then have "dbpriv_find_object db y = None" using nv by (simp add: valid_def)
    then show ?thesis using True c(2,3) by (simp add: is_user_def valid_with_def has_user_flag barren_new_def)
  qed (simp add: is_user_def valid_with_def c(2))
  then have "users_exact db'" using D(3) c(5) by (simp add: users_exact_def)
  moreover have "cache_ok db'"
  proof (rule cache_ok_line [OF D(4) c(6) P(2) R, of "\<lambda>_. True"])
    fix k y assume "valid db k" "y \<in> set (line db k)"
    then have "y \<noteq> ?n" using line_avoids [OF P(2) _ nv] by blast
    then show "map_option call_view (dbpriv_find_object db' y) = map_option call_view (dbpriv_find_object db y)"
      by (simp add: c(2))
  qed (use line in auto)
  ultimately show ?thesis using L c nv l by (auto simp: db_ok_def)
qed

lemma own_propdefs_fit:
  assumes "db_ok db" "dbpriv_find_object db x = Some ob"
  shows "length (o_propdefs ob) \<le> length (o_propval ob)"
  using props_okD(4) [OF db_okD(2) [OF assms(1)] assms(2)] assms(2)
    line_Cons(1) [OF props_okD(2) [OF db_okD(2) [OF assms(1)]] assms(2)]
  by (simp add: object_props_ok_def line_defs_def)

lemma db_destroy_object_keeps_ok:
  assumes ok: "db_ok db"
  shows "case db_destroy_object x db of
      None \<Rightarrow> \<not> (\<exists>ob. dbpriv_find_object db x = Some ob \<and> barren ob)
    | Some db' \<Rightarrow> (\<exists>ob. dbpriv_find_object db x = Some ob \<and> barren ob) \<and> db_ok db'
        \<and> (\<forall>y. dbpriv_find_object db' y = (if y = x then None else dbpriv_find_object db y))
        \<and> all_users db' = (if is_user db x then remove1 (VObj x) (all_users db) else all_users db)"
proof (cases "db_destroy_object x db")
  case None
  then show ?thesis
    using db_destroy_object_ok [where oid = x, OF db_okD(1) [OF ok] db_okD(5) [OF ok] own_propdefs_fit [OF ok, of x]] by simp
next
  case (Some db')
  note D = db_okD [OF ok] and P = props_okD [OF db_okD(2) [OF ok]]
  obtain ob where ob: "dbpriv_find_object db x = Some ob" "barren ob" and L: "db_links db'"
    and f: "\<And>y. dbpriv_find_object db' y = (if y = x then None else dbpriv_find_object db y)"
    and u: "all_users db' = (if is_user db x then remove1 (VObj x) (all_users db) else all_users db)"
    and c: "case vc_table (cache db') of None \<Rightarrow> True | Some t \<Rightarrow> \<forall>i. t i = []"
    using db_destroy_object_ok [where oid = x, OF D(1,5) own_propdefs_fit [OF ok, of x]] Some by auto
  have fl: "field g db' = (field g db)(x := None)" for g :: "'a object \<Rightarrow> objid"
    using f by (auto simp: field_def)
  have avoid: "x \<notin> set (line db y)" if v: "valid db y" "y \<noteq> x" for y
  proof
    assume "x \<in> set (line db y)"
    then have "y \<in> sub db x" using v by (simp add: sub_def)
    moreover have "valid db x" using ob by (simp add: valid_iff)
    moreover obtain ks where h: "hierarchy parent_fields db ks" using P(1) by (auto simp: forest_def)
    moreover have "ks x = []"
      using h ob linkedD(1) [of parent_fields db ks x ob] by (cases "ks x") (auto simp: hierarchy_def barren_def)
    ultimately show False using sub_children [OF h P(2), of x] v(2) by simp
  qed
  have line: "line db' y = line db y" if "valid db y" "y \<noteq> x" for y
    using rooted_chain [OF P(2) that(1)] avoid [OF that]
    by (intro line_chain) (simp add: fl chain_fun_upd)
  have "line_defs db' y = line_defs db y" if v: "valid db y" "y \<noteq> x" for y
  proof -
    have "defs_on db' z = defs_on db z" if "z \<in> set (line db y)" for z
      using f [of z] avoid [OF v] that by (auto simp: defs_on_def)
    then show ?thesis
      unfolding line_defs_def line [OF v] defs_of_def by (intro arg_cong [where f = concat] map_cong refl) simp
  qed
  then have "object_props_ok db' y oy" if "dbpriv_find_object db' y = Some oy" for y oy
    using that P(4) [of y oy] f [of y] by (auto simp: object_props_ok_def valid_iff split: if_splits)
  then have "props_ok db'" using L by (auto simp: props_ok_def db_links_def)
  moreover have "is_user db' y \<longleftrightarrow> y \<noteq> x \<and> is_user db y" for y
    by (simp add: is_user_def valid_with_def f)
  then have "users_exact db'" using D(3) u by (auto simp: users_exact_def)
  ultimately have "db_ok db'" using L flushed_cache_ok [OF c] by (simp add: db_ok_def)
  then show ?thesis using Some ob f u by auto
qed

lemma db_change_location_keeps_ok:
  assumes ok: "db_ok db" and v: "valid db x" "location = NOTHING \<or> valid db location"
    and w: "walk_db db o_location location = Some place" "x \<notin> set place"
  shows "\<exists>db'. db_change_location x location db = Some db' \<and> db_ok db'
    \<and> same_but (strip_all location_fields) db db' \<and> db_object_location db' x = Some location
    \<and> (\<forall>p. valid db p \<longrightarrow> members location_fields db' p =
          map_option (\<lambda>cs. remove1 x cs @ (if p = location then [x] else [])) (members location_fields db p))"
proof -
  note D = db_okD [OF ok]
  obtain db' where c: "db_change_location x location db = Some db'" "db_links db'"
      "same_but (strip_all location_fields) db db'" "db_object_location db' x = Some location"
      "\<forall>p. valid db p \<longrightarrow> members location_fields db' p =
          map_option (\<lambda>cs. remove1 x cs @ (if p = location then [x] else [])) (members location_fields db p)"
    using db_change_location_ok [OF D(1) v w] by blast
  let ?g = "strip_all location_fields"
  have g: "o_propdefs (?g ob) = o_propdefs ob" "o_max_propdefs (?g ob) = o_max_propdefs ob"
    "o_propval (?g ob) = o_propval ob" "o_flags (?g ob) = o_flags ob" "call_view (?g ob) = call_view ob" for ob :: "'a object"
    by (simp_all add: strip_all_def strip_links_def location_fields_def call_view_def)
  have own: "own_slots_set oy" if "dbpriv_find_object db' y = Some oy" for y oy
    by (rule own_slots_set_same [OF c(3) _ _ D(2) that]) (simp_all add: keeps_def g)
  have "props_ok db'"
    by (rule props_ok_same [OF c(3) _ _ _ _ _ _ _ own D(2)]) (simp_all add: keeps_def g strip_all_def strip_links_def
        location_fields_def)
  moreover have "users_exact db'"
    by (rule users_exact_same [OF c(3) _ D(3)]) (metis g(4) has_user_flag)
  moreover have "cache_ok db'"
    by (rule cache_ok_same [OF c(3) _ D(4)]) (metis g(5))
  ultimately show ?thesis using c by (auto simp: db_ok_def)
qed

section \<open>Properties and parents\<close>

lemma db_ok_no_props:
  assumes "same_but no_props db db'" "props_ok db'" and ok: "db_ok db"
  shows "db_ok db'"
proof -
  note D = db_okD [OF ok]
  have g: "o_flags (no_props ob) = o_flags ob" "call_view (no_props ob) = call_view ob" for ob :: "'a object"
    by (simp_all add: call_view_def)
  have "users_exact db'"
    by (rule users_exact_same [OF assms(1) _ D(3)]) (metis g(1) has_user_flag)
  moreover have "cache_ok db'"
    by (rule cache_ok_same [OF assms(1) _ D(4)]) (metis g(2))
  moreover have "db_links db'"
    by (rule db_links_same [OF assms(1) _ D(1)]) (simp add: keeps_links_def keeps_def)
  ultimately show ?thesis using assms(2) by (simp add: db_ok_def)
qed

lemma db_add_propdef_keeps_ok:
  assumes "db_ok db" "valid db x" "cstring pname" "v \<noteq> VClear" "db_add_propdef x pname v owner flags db = Some (b, db')"
  shows "db_ok db'"
  using db_add_propdef_ok [OF db_okD(2) [OF assms(1)] assms(2-4), of owner flags] assms(1,5) db_ok_no_props [of db db']
  by (auto split: if_splits)

lemma db_delete_propdef_keeps_ok:
  assumes "db_ok db" "valid db x" "cstring pname" "db_delete_propdef x pname db = Some (b, db')"
  shows "db_ok db'"
  using db_delete_propdef_ok [OF db_okD(2) [OF assms(1)] assms(2,3)] assms(1,4) db_ok_no_props [of db db']
  by (auto split: if_splits)

lemma db_change_parent_keeps_ok:
  assumes ok: "db_ok db" and v: "valid db x" "parent = NOTHING \<or> valid db parent" "x \<notin> set (line db parent)"
    and r: "db_change_parent x parent db = Some (b, db')"
  shows "db_ok db'"
proof (cases "clash db x parent")
  case True
  then show ?thesis using db_change_parent_ok [OF db_okD(2,1) [OF ok] v] ok r by simp
next
  case False
  note D = db_okD [OF ok] and P = props_okD [OF db_okD(2) [OF ok]]
  obtain ob where P': "props_ok db'" and L': "db_links db'" and ob: "dbpriv_find_object db x = Some ob"
    and s: "same_but no_line (flush_for ob db) db'" and px: "db_object_parent db' x = Some parent"
    and py: "\<And>y. y \<noteq> x \<Longrightarrow> db_object_parent db' y = db_object_parent db y"
    using db_change_parent_ok [OF D(2,1) v] False r by auto
  have g: "o_flags (no_line ob) = o_flags ob" "o_id (no_line ob) = o_id ob" "o_verbdefs (no_line ob) = o_verbdefs ob"
    for ob :: "'a object"
    by (simp_all add: no_line_def strip_all_def strip_links_def parent_fields_def)
  have view: "call_view a = call_view b" if "o_parent a = o_parent b" "no_line a = no_line b" for a b :: "'a object"
    using that(1) arg_cong [OF that(2), of o_id] arg_cong [OF that(2), of o_verbdefs] by (simp add: call_view_def g)
  have fl: "dbpriv_find_object (flush_for ob db) y = dbpriv_find_object db y" "all_users (flush_for ob db) = all_users db" for y
    by (simp_all add: flush_for_def)
  have U: "users_exact db'"
  proof (rule users_exact_same [OF s])
    show "users_exact (flush_for ob db)"
      using D(3) by (simp add: users_exact_def is_user_def valid_with_def fl)
  qed (metis g(1) has_user_flag)
  have C: "cache_ok db'"
  proof (cases "o_child ob = NOTHING \<and> o_verbdefs ob = []")
    case False
    then have "cache db' = cache (db_priv_affected_callable_verb_lookup db)"
      using s by (auto simp: same_but_def flush_for_def)
    then show ?thesis by (rule cache_ok_flushed)
  next
    case True
    then have s: "same_but no_line db db'" using s by (simp add: flush_for_def)
    have vx: "valid db' y = valid db y" for y by (rule same_but_valid [OF s])
    obtain ks where h: "hierarchy parent_fields db ks" using P(1) by (auto simp: forest_def)
    have "ks x = []"
      using h ob True linkedD(1) [of parent_fields db ks x ob] by (cases "ks x") (auto simp: hierarchy_def)
    then have sub: "sub db x = {x}" using sub_children [OF h P(2) v(1)] by simp
    have key: "k \<noteq> x" if "dbpriv_find_object db k = Some obk" "o_verbdefs obk \<noteq> []" for k obk
      using that ob True by auto
    have avoid: "x \<notin> set (line db k)" if "valid db k" "k \<noteq> x" for k
      using sub that by (auto simp: sub_def)
    have fp: "field o_parent db' y = field o_parent db y" if "y \<noteq> x" for y
      using py [OF that] by (simp add: field_def db_object_parent_def)
    show ?thesis
    proof (rule cache_ok_line [OF D(4) _ P(2) props_okD(2) [OF P'], of "\<lambda>k. k \<noteq> x"])
      show "cache db' = cache db" using s by (simp add: same_but_def)
      fix k assume k: "valid db k" "k \<noteq> x"
      have "chain (field o_parent db') k (line db k)"
      proof (subst chain_cong [of _ "field o_parent db'" "field o_parent db"])
        fix y assume "y \<in> set (line db k)"
        then show "field o_parent db' y = field o_parent db y" using avoid [OF k] by (intro fp) blast
      qed (rule rooted_chain [OF P(2) k(1)])
      then show "line db' k = line db k" by (rule line_chain)
      fix y assume "y \<in> set (line db k)"
      then have "y \<noteq> x" using avoid [OF k] by blast
      have "map_option (\<lambda>ob. (o_parent ob, no_line ob)) (dbpriv_find_object db' y)
          = map_option (\<lambda>ob. (o_parent ob, no_line ob)) (dbpriv_find_object db y)"
        using py [OF \<open>y \<noteq> x\<close>] s unfolding db_object_parent_def same_but_def by (intro map_option_pair) simp_all
      then show "map_option call_view (dbpriv_find_object db' y) = map_option call_view (dbpriv_find_object db y)"
        by (rule map_option_view) (rule view, auto)
    qed (use key in auto)
  qed
  show ?thesis using P' L' U C by (simp add: db_ok_def)
qed

section \<open>Renaming a definition\<close>

definition renamed :: "'a \<Rightarrow> 'a \<Rightarrow> 'a \<Rightarrow> 'a" where
  "renamed k k' z = (if z = k then k' else z)"

lemma map_of_zip_renamed:
  assumes "k' \<notin> set xs \<or> k' = k"
  shows "map_of (zip (map (renamed k k') xs) us) = (map_of (zip xs us))(k := None, k' := map_of (zip xs us) k)"
  using assms
proof (induction xs arbitrary: us)
  case Nil
  show ?case by auto
next
  case (Cons x xs)
  show ?case
  proof (cases us)
    case Nil
    show ?thesis unfolding Nil by auto
  next
    case (Cons u us')
    then show ?thesis using Cons.IH [of us'] Cons.prems by (auto simp: renamed_def fun_eq_iff)
  qed
qed

lemma map_renamed_update:
  assumes "distinct xs" "i < length xs"
  shows "map (renamed (xs ! i) e) xs = xs[i := e]"
  using assms by (intro nth_equalityI) (auto simp: renamed_def nth_list_update nth_eq_iff_index_eq)

lemma db_rename_propdef_ok:
  assumes ok: "props_ok db" and "valid db x" "cstring old" "cstring new"
  shows "case db_rename_propdef x old new db of
      None \<Rightarrow> False
    | Some (b, db') \<Rightarrow>
        (b \<longleftrightarrow> (\<exists>d \<in> set (defs_on db x). name_key d = map cmap old)
            \<and> (map cmap old = map cmap new \<or> \<not> name_in_use db x new))
        \<and> (if b then
             props_ok db' \<and> same_but no_props db db'
             \<and> (\<exists>d \<in> set (defs_on db x). name_key d = map cmap old
                 \<and> (\<forall>y. slot_map db' y = (if y \<in> sub db x
                      then (slot_map db y)((x, d) := None, (x, dbpriv_new_propdef new) := slot_map db y (x, d))
                      else slot_map db y)))
           else db' = db)"
proof -
  obtain ob where ob: "dbpriv_find_object db x = Some ob" using assms(2) by (auto simp: valid_iff)
  note P = props_okD [OF ok]
  have obp: "object_props_ok db x ob" using P(4) [OF ob] .
  have key: "propdef_is old (str_hash old) e \<longleftrightarrow> name_key e = map cmap old" if "e \<in> set (o_propdefs ob)" for e
    using propdef_is_key that obp assms(3) by (auto simp: object_props_ok_def)
  have mc: "mystrcasecmp old new = 0 \<longleftrightarrow> map cmap old = map cmap new" using mystrcasecmp_0 assms(3,4) by blast
  show ?thesis
  proof (cases "propdef_index old (str_hash old) (o_propdefs ob)")
    case None
    then have "\<forall>e \<in> set (o_propdefs ob). \<not> propdef_is old (str_hash old) e" using propdef_index_None by metis
    then show ?thesis using ob key None by (simp add: db_rename_propdef_def)
  next
    case (Some i)
    define d e where "d = o_propdefs ob ! i" "e = dbpriv_new_propdef new"
    have i: "i < length (o_propdefs ob)" "propdef_is old (str_hash old) d"
      using propdef_index_Some [OF Some] by (simp_all add: d_e_def)
    have dk: "d \<in> set (o_propdefs ob)" "name_key d = map cmap old" using i key by (auto simp: d_e_def)
    show ?thesis
    proof (cases "map cmap old \<noteq> map cmap new \<and> name_in_use db x new")
      case True
      then show ?thesis using ob Some mc name_taken_in_use [OF ok assms(2,4)] by (auto simp: db_rename_propdef_def)
    next
      case False
      define ob' where "ob' = ob\<lparr>o_propdefs := (o_propdefs ob)[i := e]\<rparr>"
      define db' where "db' = upd x ob' db"
      have res: "db_rename_propdef x old new db = Some (True, db')"
        using ob Some False mc name_taken_in_use [OF ok assms(2,4)]
        by (auto simp: db_rename_propdef_def update_object_upd [OF ob] db'_def ob'_def d_e_def)
      have f': "dbpriv_find_object db' y = (if y = x then Some ob' else dbpriv_find_object db y)" for y
        using ob by (simp add: db'_def)
      have s: "same_but no_defs db db'" unfolding db'_def by (rule same_but_upd [OF ob]) (simp add: ob'_def)
      note st = same_structure [OF s, simplified]
      have fresh: "(x, e) \<notin> set (line_defs db y) \<or> (x, e) = (x, d)"
        and key': "\<And>z. z \<in> set (line_defs db y) \<Longrightarrow> z \<noteq> (x, d) \<Longrightarrow> name_key (snd z) \<noteq> name_key e" if y: "y \<in> sub db x" for y
      proof -
        have "name_key (snd z) \<noteq> name_key e" if z: "z \<in> set (line_defs db y)" "z \<noteq> (x, d)" for z
        proof (cases "map cmap old = map cmap new")
          case True
          obtain oy where oy: "dbpriv_find_object db y = Some oy" using sub_valid [OF y] by (auto simp: valid_iff)
          have "(x, d) \<in> set (line_defs db y)"
            using y dk(1) ob unfolding line_defs_def by (simp add: set_defs_of sub_def)
          then have "(name_key \<circ> snd) z \<noteq> (name_key \<circ> snd) (x, d)"
            using z P(4) [OF oy] unfolding object_props_ok_def distinct_map inj_on_def by blast
          then show ?thesis using True dk(2) by (simp add: d_e_def)
        next
          case ne: False
          then have "map cmap new \<notin> set (map (name_key \<circ> snd) (line_defs db y))"
            using name_not_on_lines [OF P(2) _ y, of new] False by blast
          then show ?thesis using z(1) by (force simp: d_e_def)
        qed
        then show "\<And>z. z \<in> set (line_defs db y) \<Longrightarrow> z \<noteq> (x, d) \<Longrightarrow> name_key (snd z) \<noteq> name_key e" .
        then show "(x, e) \<notin> set (line_defs db y) \<or> (x, e) = (x, d)" by force
      qed
      have dist: "distinct (o_propdefs ob)"
        using obp line_Cons(1) [OF P(2) ob] ob
        by (auto simp: object_props_ok_def line_defs_def distinct_map inj_on_def)
      have defs: "map (Pair z) (defs_on db' z) = map (renamed (x, d) (x, e)) (map (Pair z) (defs_on db z))" for z
      proof (cases "z = x")
        case True
        have "distinct (map (Pair x) (o_propdefs ob))" using dist by (simp add: distinct_map inj_on_def)
        then show ?thesis
          using True ob f' [of x] map_renamed_update [of "map (Pair x) (o_propdefs ob)" i "(x, e)"] i(1)
          by (simp add: ob'_def map_update d_e_def del: map_map)
      next
        case False
        then show ?thesis by (auto simp: renamed_def defs_on_def f')
      qed
      have ld: "line_defs db' y = map (renamed (x, d) (x, e)) (line_defs db y)" for y
        unfolding line_defs_def st(5) defs_of_def map_concat map_map
        by (rule arg_cong [where f = concat]) (use defs in \<open>simp add: comp_def\<close>)
      have out: "line_defs db' y = line_defs db y" if "y \<notin> sub db x" "valid db y" for y
        unfolding ld using that by (intro map_idI) (auto simp: renamed_def line_defs_def set_defs_of sub_def)
      have pv: "\<exists>oy. dbpriv_find_object db y = Some oy \<and> o_propval oy' = o_propval oy \<and> o_id oy' = o_id oy
          \<and> length (o_propdefs oy') = length (o_propdefs oy) \<and> o_max_propdefs oy' = o_max_propdefs oy"
        if "dbpriv_find_object db' y = Some oy'" for y oy'
        using that ob f' [of y] by (auto simp: ob'_def split: if_splits)
      have names: "distinct (map (name_key \<circ> snd) (line_defs db' y))" if oy: "dbpriv_find_object db y = Some oy" for y oy
      proof (cases "y \<in> sub db x")
        case True
        have "distinct (line_defs db y)" "inj_on (name_key \<circ> snd) (set (line_defs db y))"
          using P(4) [OF oy] by (auto simp: object_props_ok_def distinct_map)
        then show ?thesis
          using key' [OF True] unfolding ld distinct_map
          by (auto simp: inj_on_def renamed_def split: if_splits) metis+
      next
        case False
        then show ?thesis using P(4) [OF oy] out oy by (simp add: object_props_ok_def valid_iff)
      qed
      have "object_props_ok db' y oy' \<and> o_id oy' = y" if oy': "dbpriv_find_object db' y = Some oy'" for y oy'
      proof -
        obtain oy where oy: "dbpriv_find_object db y = Some oy" "o_propval oy' = o_propval oy" "o_id oy' = o_id oy"
            "length (o_propdefs oy') = length (o_propdefs oy)" "o_max_propdefs oy' = o_max_propdefs oy"
          using pv [OF oy'] by blast
        have "propdef_ok k \<and> \<not> built_in_name (pd_name k)" if k: "k \<in> set (o_propdefs oy')" for k
        proof (cases "k = e")
          case True
          have "cstring (pd_name d)" "\<not> built_in_name (pd_name d)"
            using obp dk(1) by (auto simp: object_props_ok_def propdef_ok_def)
          then have "\<not> built_in_name new"
            using False built_in_name_key [of new "pd_name d"] assms(4) dk(2)
            by (auto simp: name_in_use_def name_key_def)
          then show ?thesis
            using True assms(4) new_propdef_ok by (simp add: d_e_def dbpriv_new_propdef_def)
        next
          case False
          then have "k \<in> set (o_propdefs oy)"
            using k oy' f' [of y] oy(1) ob set_update_subset_insert [of "o_propdefs ob" i e]
            by (auto simp: ob'_def split: if_splits)
          then show ?thesis using P(4) [OF oy(1)] by (simp add: object_props_ok_def)
        qed
        then show ?thesis
          using P(4,5) [OF oy(1)] oy names [OF oy(1)] ld [of y] by (simp add: object_props_ok_def)
      qed
      then have pok: "props_ok db'" using st(3) P(1) by (simp add: props_ok_def)
      have sm: "slot_map db' y = (if y \<in> sub db x
          then (slot_map db y)((x, d) := None, (x, e) := slot_map db y (x, d)) else slot_map db y)" for y
      proof (cases "dbpriv_find_object db y")
        case None
        then have "dbpriv_find_object db' y = None" using f' [of y] ob by auto
        then show ?thesis using None by (auto simp: slot_map_def)
      next
        case (Some oy)
        then obtain oy' where oy': "dbpriv_find_object db' y = Some oy'" "o_propval oy' = o_propval oy"
          using f' [of y] ob by (auto simp: ob'_def split: if_splits)
        then show ?thesis
          using Some out [of y] map_of_zip_renamed [OF fresh, of y "o_propval oy"] ld [of y]
          by (simp add: slot_map_def valid_iff)
      qed
      have "same_but no_props db db'" by (rule same_but_coarser [OF s, of no_props no_props]) simp
      then show ?thesis using res False dk ob pok sm by (auto simp: d_e_def)
    qed
  qed
qed

end
