(* ===== verification/DbCorrect.thy ===== *)
theory DbCorrect
  imports DbInvariant
begin

text \<open>
  The database as its callers see it: every operation of the three files from every state the program can
  reach.  Each property says what an operation does to the abstract view (members of an object, map of
  slots, uncached lookup) and that the invariant is kept; the last one is the invariant of all reachable
  states.
\<close>

section \<open>The table of objects\<close>

lemma db_ok_same_objects:
  assumes ok: "db_ok db" and f: "\<And>y. dbpriv_find_object db' y = dbpriv_find_object db y"
    and n: "0 \<le> num_objects db'" "num_objects db' \<le> max_objects db'"
    and u: "all_users db' = all_users db" "cache db' = cache db"
  shows "db_ok db'"
proof -
  note D = db_okD [OF ok] and P = props_okD [OF db_okD(2) [OF ok]]
  have fl: "field g db' = field g db" for g :: "'a object \<Rightarrow> objid" by (rule ext) (simp add: field_def f)
  have v: "valid db' y = valid db y" for y by (simp add: valid_def f)
  have d: "defs_on db' = defs_on db" by (rule ext) (simp add: defs_on_def f)
  have forest: "forest F db' = forest F db" for F
    by (simp add: forest_def hierarchy_def linked_def points_up_def rooted_def v fl f)
  have line: "line db' y = line db y" if "valid db y" for y
    using rooted_chain [OF P(2) that] by (intro line_chain) (simp add: fl)
  have "object_props_ok db' y ob = object_props_ok db y ob" if "valid db y" for y ob
    using line [OF that] by (simp add: object_props_ok_def line_defs_def defs_of_def d)
  then have "props_ok db'" using D(2) by (auto simp: props_ok_def forest f valid_iff)
  moreover have "db_links db'" using D(1) n by (simp add: db_links_def forest f)
  moreover have "users_exact db'" using D(3) by (simp add: users_exact_def is_user_def valid_with_def f u)
  moreover have "cache_ok db'"
    by (rule cache_ok_line [OF D(4) u(2) P(2), of "\<lambda>_. True"])
      (use line f P(1) forest in \<open>auto simp: forest_def\<close>)
  ultimately show ?thesis by (simp add: db_ok_def)
qed

lemma reset_last_used_Some:
  "reset_last_used obs n = Some m \<Longrightarrow> 0 < m \<and> m \<le> n \<and> (\<forall>y. m \<le> y \<longrightarrow> y < n \<longrightarrow> obs y = None)"
proof (induction obs n rule: reset_last_used.induct)
  case (1 obs n)
  show ?case
  proof (cases "0 < n \<and> obs (n - 1) = None")
    case True
    then have "reset_last_used obs (n - 1) = Some m" using 1(2) by (simp add: reset_last_used.simps [of obs n])
    then have ih: "0 < m \<and> m \<le> n - 1 \<and> (\<forall>y. m \<le> y \<longrightarrow> y < n - 1 \<longrightarrow> obs y = None)" using 1(1) True by simp
    have "obs y = None" if "m \<le> y" "y < n" for y using ih True that by (cases "y = n - 1") auto
    then show ?thesis using ih by simp
  next
    case False
    then show ?thesis using 1(2) by (auto simp: reset_last_used.simps [of obs n] split: if_splits)
  qed
qed

lemma db_reset_last_used_objid_ok:
  assumes ok: "db_ok db" and r: "db_reset_last_used_objid db = Some db'"
  shows "db_ok db'"
proof -
  obtain n where n: "reset_last_used (objects db) (num_objects db) = Some n" "db' = db\<lparr>num_objects := n\<rparr>"
    using r by (auto simp: db_reset_last_used_objid_def)
  note m = reset_last_used_Some [OF n(1)]
  show ?thesis
    using m db_okD(1) [OF ok] by (intro db_ok_same_objects [OF ok]) (auto simp: n(2) dbpriv_find_object_def db_links_def)
qed

lemma dbpriv_new_recycled_object_ok:
  assumes ok: "db_ok db" and r: "dbpriv_new_recycled_object db = Some db'"
  shows "db_ok db'"
proof -
  have n: "0 \<le> num_objects db" "num_objects db \<le> max_objects db"
    using db_okD(1) [OF ok] by (simp_all add: db_links_def)
  note room = ensure_new_object_room [OF n]
  have "db' = (ensure_new_object db)\<lparr>objects := (objects db)(num_objects db := None), num_objects := num_objects db + 1\<rparr>"
    using r room n by (simp add: dbpriv_new_recycled_object_def push_object_def)
  then show ?thesis
    using room n by (intro db_ok_same_objects [OF ok]) (auto simp: dbpriv_find_object_def)
qed

section \<open>The states the program can reach\<close>

text \<open>One call of an operation that changes the database, under what the callers check first: a destination
  is valid or \<open>NOTHING\<close> and not inside the object that moves, names are C strings, a value stored in a slot of
  the definer is not clear.\<close>

inductive db_step :: "'p db \<Rightarrow> 'p db \<Rightarrow> bool" where
  create: "db_create_object raw db = Some (x, db') \<Longrightarrow> db_step db db'"
| recycled: "dbpriv_new_recycled_object db = Some db' \<Longrightarrow> db_step db db'"
| reset_last: "db_reset_last_used_objid db = Some db' \<Longrightarrow> db_step db db'"
| destroy: "db_destroy_object x db = Some db' \<Longrightarrow> db_step db db'"
| change_location: "valid db x \<Longrightarrow> location = NOTHING \<or> valid db location \<Longrightarrow>
    walk_db db o_location location = Some place \<Longrightarrow> x \<notin> set place \<Longrightarrow>
    db_change_location x location db = Some db' \<Longrightarrow> db_step db db'"
| change_parent: "valid db x \<Longrightarrow> parent = NOTHING \<or> valid db parent \<Longrightarrow> x \<notin> set (line db parent) \<Longrightarrow>
    db_change_parent x parent db = Some (b, db') \<Longrightarrow> db_step db db'"
| set_name: "db_set_object_name db x s = Some db' \<Longrightarrow> db_step db db'"
| set_owner: "db_set_object_owner db x y = Some db' \<Longrightarrow> db_step db db'"
| set_flag: "db_set_object_flag db x f = Some db' \<Longrightarrow> db_step db db'"
| clear_flag: "db_clear_object_flag db x f = Some db' \<Longrightarrow> db_step db db'"
| add_propdef: "valid db x \<Longrightarrow> cstring pname \<Longrightarrow> v \<noteq> VClear \<Longrightarrow>
    db_add_propdef x pname v owner flags db = Some (b, db') \<Longrightarrow> db_step db db'"
| rename_propdef: "valid db x \<Longrightarrow> cstring old \<Longrightarrow> cstring new \<Longrightarrow>
    db_rename_propdef x old new db = Some (b, db') \<Longrightarrow> db_step db db'"
| delete_propdef: "valid db x \<Longrightarrow> cstring pname \<Longrightarrow> db_delete_propdef x pname db = Some (b, db') \<Longrightarrow> db_step db db'"
| set_value: "(\<And>x n ob. ph_ptr h = PSlot x n \<Longrightarrow> dbpriv_find_object db x = Some ob \<Longrightarrow> n < length (o_propdefs ob) \<Longrightarrow>
      v \<noteq> VClear) \<Longrightarrow> db_set_property_value h v db = Some db' \<Longrightarrow> db_step db db'"
| set_prop_owner: "db_set_property_owner h x db = Some db' \<Longrightarrow> db_step db db'"
| set_prop_flags: "db_set_property_flags h flags db = Some db' \<Longrightarrow> db_step db db'"
| add_verb: "db_add_verb x names owner flags dobj prep iobj db = Some (n, db') \<Longrightarrow> db_step db db'"
| delete_verb: "db_delete_verb vh db = Some db' \<Longrightarrow> db_step db db'"
| verb_names: "db_set_verb_names vh' names db = Some db' \<Longrightarrow> db_step db db'"
| verb_owner: "db_set_verb_owner vh' owner db = Some db' \<Longrightarrow> db_step db db'"
| verb_flags: "db_set_verb_flags vh' flags db = Some db' \<Longrightarrow> db_step db db'"
| verb_program: "db_set_verb_program vh' p db = Some db' \<Longrightarrow> db_step db db'"
| verb_args: "db_set_verb_arg_specs vh' dobj prep iobj db = Some db' \<Longrightarrow> db_step db db'"
| call_verb: "valid db x \<Longrightarrow> cstring verb \<Longrightarrow> db_find_callable_verb x verb db = Some (r, db') \<Longrightarrow> db_step db db'"

definition empty_db :: "'p db" where
  "empty_db = \<lparr>objects = (\<lambda>x. None), num_objects = 0, max_objects = 0, all_users = [],
     cache = \<lparr>vc_table = None, vc_size = 0, db_verb_generation = 0, verbcache_hit = 0,
       verbcache_neg_hit = 0, verbcache_miss = 0\<rparr>\<rparr>"

inductive db_reachable :: "'p db \<Rightarrow> bool" where
  start: "db_reachable empty_db"
| step: "db_reachable db \<Longrightarrow> db_step db db' \<Longrightarrow> db_reachable db'"

lemma empty_db_ok: "db_ok (empty_db :: 'p db)"
proof -
  let ?e = "empty_db :: 'p db"
  have [simp]: "dbpriv_find_object ?e x = None" for x by (simp add: empty_db_def dbpriv_find_object_def)
  have "forest F ?e" for F
    unfolding forest_def hierarchy_def linked_def points_up_def rooted_def by (simp add: valid_def field_def)
  moreover have "users_exact ?e" by (simp add: users_exact_def is_user_def valid_with_def) (simp add: empty_db_def)
  moreover have "cache_ok ?e" "0 \<le> num_objects ?e" "num_objects ?e \<le> max_objects ?e"
    by (simp_all add: cache_ok_def empty_db_def)
  ultimately show ?thesis by (simp add: db_ok_def db_links_def props_ok_def)
qed

lemma db_rename_propdef_keeps_ok:
  assumes "db_ok db" "valid db x" "cstring old" "cstring new" "db_rename_propdef x old new db = Some (b, db')"
  shows "db_ok db'"
  using db_rename_propdef_ok [OF db_okD(2) [OF assms(1)] assms(2-4)] assms(1,5) db_ok_no_props [of db db']
  by (auto split: if_splits)

lemma db_step_keeps_ok: "db_step db db' \<Longrightarrow> db_ok db \<Longrightarrow> db_ok db'"
proof (induction rule: db_step.induct)
  case (create raw db x db')
  then show ?case using db_create_object_keeps_ok [of db raw] by auto
next
  case (destroy x db db')
  then show ?case using db_destroy_object_keeps_ok [of db x] by auto
next
  case (change_location db x location place db')
  then show ?case using db_change_location_keeps_ok [of db x location place] by auto
next
  case (set_value h db v db')
  then show ?case using db_set_property_value_ok [of db h v db'] by blast
next
  case (call_verb db x verb r db')
  then show ?case using db_lookup_keeps_ok [of db x verb] by auto
qed (rule dbpriv_new_recycled_object_ok db_reset_last_used_objid_ok db_change_parent_keeps_ok
    db_set_object_name_ok db_set_object_owner_ok db_set_object_flag_ok db_clear_object_flag_ok
    db_add_propdef_keeps_ok db_rename_propdef_keeps_ok db_delete_propdef_keeps_ok db_set_property_owner_ok
    db_set_property_flags_ok db_add_verb_ok db_delete_verb_ok db_set_verb_ok db_set_verb_owner_ok
    db_set_verb_program_ok, assumption+)+

lemma db_reachable_db_ok: "db_reachable db \<Longrightarrow> db_ok db"
  by (induction rule: db_reachable.induct) (auto intro: empty_db_ok db_step_keeps_ok)

section \<open>A small database\<close>

definition blank_object :: "'p object" where
  "blank_object = \<lparr>o_id = 0, o_owner = 0, o_location = NOTHING, o_contents = NOTHING, o_next = NOTHING,
     o_parent = NOTHING, o_child = NOTHING, o_sibling = NOTHING, o_name = [], o_flags = 0, o_verbdefs = [],
     o_max_propdefs = 0, o_propdefs = [], o_propval = []\<rparr>"

definition sample_db :: "unit db" where
  "sample_db = snd (the (db_create_object blank_object (snd (the (db_create_object blank_object empty_db)))))"

lemmas create_defs = db_create_object_def dbpriv_new_object_def push_object_def ensure_new_object_def
  update_object_def dbpriv_find_object_def

lemma sample_db_steps:
  shows "db_create_object blank_object (empty_db :: unit db) =
      Some (0, empty_db\<lparr>objects := [0 \<mapsto> blank_object], num_objects := 1, max_objects := 100\<rparr>)"
    and "db_create_object blank_object
        (empty_db\<lparr>objects := [0 \<mapsto> blank_object], num_objects := 1, max_objects := 100\<rparr> :: unit db) =
      Some (1, empty_db\<lparr>objects := [0 \<mapsto> blank_object, 1 \<mapsto> blank_object\<lparr>o_id := 1\<rparr>], num_objects := 2,
        max_objects := 100\<rparr>)"
  by (simp_all add: create_defs empty_db_def blank_object_def Let_def)

lemma sample_db_eq:
  "sample_db = empty_db\<lparr>objects := [0 \<mapsto> blank_object, 1 \<mapsto> blank_object\<lparr>o_id := 1\<rparr>], num_objects := 2,
     max_objects := 100\<rparr>"
  by (simp add: sample_db_def sample_db_steps)

lemma sample_db_reachable: "db_reachable sample_db"
  using db_step.create [OF sample_db_steps(1)] db_step.create [OF sample_db_steps(2)]
  unfolding sample_db_eq by (blast intro: db_reachable.intros)

lemma sample_db_facts:
  shows "db_ok sample_db" "num_objects sample_db = 2"
    and "dbpriv_find_object sample_db x = (if x = 0 \<or> x = 1 then Some (blank_object\<lparr>o_id := x\<rparr>) else None)"
    and "valid sample_db x \<longleftrightarrow> x = 0 \<or> x = 1" "walk_db sample_db o_location 0 = Some [0]" "line sample_db 0 = [0]"
proof -
  show "db_ok sample_db" by (rule db_reachable_db_ok [OF sample_db_reachable])
  show f: "dbpriv_find_object sample_db x = (if x = 0 \<or> x = 1 then Some (blank_object\<lparr>o_id := x\<rparr>) else None)" for x
    by (auto simp: sample_db_eq dbpriv_find_object_def blank_object_def)
  show "valid sample_db x \<longleftrightarrow> x = 0 \<or> x = 1" by (simp add: valid_def f)
  have b: "o_location (blank_object\<lparr>o_id := x\<rparr>) = NOTHING" "o_parent (blank_object\<lparr>o_id := x\<rparr>) = NOTHING" for x
    by (simp_all add: blank_object_def)
  show "walk_db sample_db o_location 0 = Some [0]"
    by (simp add: walk_db_chain field_def f b)
  show "line sample_db 0 = [0]"
    by (rule line_chain) (simp add: field_def f b)
  show "num_objects sample_db = 2" by (simp add: sample_db_eq)
qed

section \<open>Properties\<close>



text \<open>C30: a change of parent succeeds exactly when no definition on the new parent's line has the name of one
  in the subtree.  The object then hangs from the new parent and no other object's parent changes; every
  object of the subtree keeps its slots for the properties it had and still inherits, loses those it no
  longer inherits, and gets a clear slot, owned under the \<^verbatim>\<open>c\<close> flag, for each one it newly inherits; no
  other object's slots change, and the invariant is kept although the verb cache is not always emptied.\<close>

theorem db_change_parent_correct:
  assumes ok: "db_ok db" and "valid db x"
    and "parent = NOTHING \<or> valid db parent" "x \<notin> set (line db parent)"
  shows "case db_change_parent x parent db of
      None \<Rightarrow> False
    | Some (changed, db') \<Rightarrow>
        changed = (\<not> clash db x parent) \<and> db_ok db'
        \<and> (if changed then
             (\<forall>y. db_object_parent db' y = (if y = x then Some parent else db_object_parent db y))
             \<and> (\<forall>y. slot_map db' y = (if y \<in> sub db x
                  then (\<lambda>k. if k \<in> set (line_defs db' y)
                         then (case slot_map db y k of Some s \<Rightarrow> Some s
                               | None \<Rightarrow> map_option (inherit_slot (owner_of db y)) (slot_map db parent k))
                         else None)
                  else slot_map db y))
           else db' = db)"
  using db_change_parent_ok [OF db_okD(2,1) [OF ok] assms(2-4)] db_change_parent_keeps_ok [OF ok assms(2-4)]
  by (auto split: option.splits if_splits)

lemma sample_db_defs: "defs_on sample_db x = []" "line_defs sample_db x = []"
proof -
  show d: "defs_on sample_db x = []" for x by (simp add: defs_on_def sample_db_facts blank_object_def)
  show "line_defs sample_db x = []" by (simp add: line_defs_def defs_of_def d)
qed

theorem db_change_parent_correct_witness:
  "\<exists>db'. db_change_parent 1 0 sample_db = Some (True, db') \<and> db_ok db' \<and> db_object_parent db' 1 = Some 0"
proof -
  have "\<not> clash sample_db 1 0" by (simp add: clash_def sample_db_defs)
  then show ?thesis
    using db_change_parent_correct [of sample_db 1 0]
    by (auto simp: sample_db_facts split: option.splits)
qed

text \<open>C32: a definition is added exactly when no ancestor, descendant or built-in property has the name.
  Every object of the subtree then gets one more slot, which holds the value at the object itself and is
  clear below, and is owned by the object under the \<^verbatim>\<open>c\<close> flag; all other slots keep their values, nothing
  but the properties changes, and the invariant is kept.\<close>

theorem db_add_propdef_correct:
  assumes ok: "db_ok db" and "valid db x" "cstring pname" "v \<noteq> VClear"
  shows "case db_add_propdef x pname v owner flags db of
      None \<Rightarrow> False
    | Some (added, db') \<Rightarrow>
        added = (\<not> name_in_use db x pname) \<and> db_ok db'
        \<and> (if added then same_but no_props db db'
             \<and> (\<forall>y. slot_map db' y = (if y \<in> sub db x
                  then (slot_map db y)((x, dbpriv_new_propdef pname) \<mapsto> chown_slot (owner_of db y)
                    \<lparr>p_var = (if y = x then v else VClear), p_owner = owner, p_perms = ucast flags\<rparr>)
                  else slot_map db y))
           else db' = db)"
  using db_add_propdef_ok [OF db_okD(2) [OF ok] assms(2-4), of owner flags] db_add_propdef_keeps_ok [OF ok assms(2-4)]
  by (auto split: option.splits if_splits)

lemma built_in_name_length:
  assumes "cstring s" "built_in_name s"
  shows "length s \<in> {1, 4, 5, 6, 8, 10}"
proof -
  have "find_built_in s (str_hash s) tab \<noteq> None \<Longrightarrow> \<forall>(n, p) \<in> set tab. cstring n \<Longrightarrow>
      \<exists>(n, p) \<in> set tab. length s = length n" for tab
    using mystrcasecmp_0 [OF assms(1)] by (induction tab) (auto split: if_splits dest!: map_eq_imp_length_eq)
  moreover have "\<forall>(n, p) \<in> set ptable. cstring n" by (simp add: ptable_def)
  ultimately have "\<exists>(n, p) \<in> set ptable. length s = length n" using assms(2) by (simp add: built_in_name_def)
  then show ?thesis by (auto simp: ptable_def)
qed

lemma sample_name_free: "\<not> name_in_use sample_db 0 ''foo''"
proof -
  have "\<not> built_in_name ''foo''" using built_in_name_length [of "''foo''"] by auto
  then show ?thesis by (simp add: name_in_use_def sample_db_defs)
qed

theorem db_add_propdef_correct_witness:
  "\<exists>db'. db_add_propdef 0 ''foo'' (VInt 3) 0 0 sample_db = Some (True, db') \<and> db_ok db'"
  using db_add_propdef_correct [of sample_db 0 "''foo''" "VInt 3" 0 0] sample_name_free
  by (auto simp: sample_db_facts split: option.splits)

text \<open>C33: a definition is deleted exactly when the object itself has one of that name. Every object of the
  subtree then loses its slot for it and no other, and the invariant is kept.\<close>

theorem db_delete_propdef_correct:
  assumes ok: "db_ok db" and "valid db x" "cstring pname"
  shows "case db_delete_propdef x pname db of
      None \<Rightarrow> False
    | Some (deleted, db') \<Rightarrow> db_ok db' \<and>
       (if deleted then same_but no_props db db'
          \<and> (\<exists>d \<in> set (defs_on db x). name_key d = map cmap pname \<and> d \<notin> set (defs_on db' x)
              \<and> (\<forall>y. slot_map db' y = (if y \<in> sub db x then (slot_map db y)((x, d) := None) else slot_map db y)))
        else db' = db \<and> (\<forall>d \<in> set (defs_on db x). name_key d \<noteq> map cmap pname))"
  using db_delete_propdef_ok [OF db_okD(2) [OF ok] assms(2,3)] db_delete_propdef_keeps_ok [OF ok assms(2,3)]
  by (auto split: option.splits if_splits)

text \<open>The sample with a property of object 0.\<close>

definition sample_prop_db :: "unit db" where
  "sample_prop_db = snd (the (db_add_propdef 0 ''foo'' (VInt 3) 0 0 sample_db))"

lemma sample_prop_facts:
  shows "db_ok sample_prop_db" "valid sample_prop_db x \<longleftrightarrow> x = 0 \<or> x = 1" "line sample_prop_db 0 = [0]"
    and "slot_map sample_prop_db 0 = [(0, dbpriv_new_propdef ''foo'') \<mapsto> \<lparr>p_var = VInt 3, p_owner = 0, p_perms = 0\<rparr>]"
    and "set (line_defs sample_prop_db 0) = {(0, dbpriv_new_propdef ''foo'')}"
proof -
  have r: "sub sample_db 0 = {0}"
  proof -
    have "line sample_db 1 = [1]" by (rule line_chain) (simp add: field_def sample_db_facts blank_object_def)
    then show ?thesis by (auto simp: sub_def sample_db_facts)
  qed
  obtain db' where db': "db_add_propdef 0 ''foo'' (VInt 3) 0 0 sample_db = Some (True, db')" "props_ok db'"
      "same_but no_props sample_db db'"
      "slot_map db' 0 = (slot_map sample_db 0)((0, dbpriv_new_propdef ''foo'') \<mapsto> chown_slot (owner_of sample_db 0)
         \<lparr>p_var = VInt 3, p_owner = 0, p_perms = 0\<rparr>)"
  proof -
    have "valid sample_db 0" by (simp add: sample_db_facts)
    note a = db_add_propdef_ok [OF db_okD(2) [OF sample_db_facts(1)] this, of "''foo''" "VInt 3" 0 0]
    show thesis
    proof (cases "db_add_propdef 0 ''foo'' (VInt 3) 0 0 sample_db")
      case None
      then show thesis using a by simp
    next
      case (Some q)
      moreover obtain b db' where "q = (b, db')" by (cases q)
      ultimately show thesis using a sample_name_free by (intro that [of db']) (simp_all add: r)
    qed
  qed
  have e: "sample_prop_db = db'" by (simp add: sample_prop_db_def db'(1))
  show "db_ok sample_prop_db"
    unfolding e by (rule db_ok_no_props [OF db'(3,2)]) (rule sample_db_facts)
  show "valid sample_prop_db x \<longleftrightarrow> x = 0 \<or> x = 1"
    unfolding e same_but_valid [OF db'(3)] by (rule sample_db_facts)
  have "keeps_links no_props" by (simp add: keeps_links_def keeps_def)
  show "line sample_prop_db 0 = [0]"
    unfolding e same_structure(5) [OF db'(3) \<open>keeps_links no_props\<close>] by (rule sample_db_facts)
  have m: "slot_map db' 0 = [(0, dbpriv_new_propdef ''foo'') \<mapsto> \<lparr>p_var = VInt 3, p_owner = 0, p_perms = 0\<rparr>]"
    unfolding db'(4) by (auto simp: slot_map_def sample_db_facts sample_db_defs chown_slot_def)
  then show "slot_map sample_prop_db 0 = [(0, dbpriv_new_propdef ''foo'') \<mapsto> \<lparr>p_var = VInt 3, p_owner = 0, p_perms = 0\<rparr>]"
    by (simp add: e)
  obtain ob where ob: "dbpriv_find_object db' 0 = Some ob"
    using same_but_valid [OF db'(3), of 0] sample_db_facts by (auto simp: valid_iff)
  have "length (line_defs db' 0) = length (o_propval ob)"
    using props_okD(4) [OF db'(2) ob] by (simp add: object_props_ok_def)
  then have "dom (slot_map db' 0) = set (line_defs db' 0)" using ob by (simp add: slot_map_def)
  then show "set (line_defs sample_prop_db 0) = {(0, dbpriv_new_propdef ''foo'')}" by (simp add: e m)
qed

lemma sample_prop_defs: "set (defs_on sample_prop_db 0) = {dbpriv_new_propdef ''foo''}"
proof -
  have "snd ` set (line_defs sample_prop_db 0) = set (defs_on sample_prop_db 0)"
    by (simp add: line_defs_def sample_prop_facts(3) image_image)
  then show ?thesis by (simp add: sample_prop_facts(5))
qed

lemma sample_fold: "map cmap ''FOO'' = map cmap ''foo''"
  by code_simp

theorem db_delete_propdef_correct_witness:
  "\<exists>db'. db_delete_propdef 0 ''FOO'' sample_prop_db = Some (True, db') \<and> db_ok db'"
  using db_delete_propdef_correct [of sample_prop_db 0 "''FOO''"]
  by (auto simp: sample_prop_facts sample_prop_defs sample_fold simp del: list.map split: option.splits if_splits)

text \<open>C34: a definition is renamed exactly when the object has one of the old name and the new name differs
  from it only in case or is not in use by an ancestor, a descendant or a built-in property.  The slots of
  the subtree then belong to the new definition, and the invariant is kept.\<close>

theorem db_rename_propdef_correct:
  assumes ok: "db_ok db" and "valid db x" "cstring old" "cstring new"
  shows "case db_rename_propdef x old new db of
      None \<Rightarrow> False
    | Some (done, db') \<Rightarrow>
        done = ((\<exists>d \<in> set (defs_on db x). name_key d = map cmap old)
          \<and> (map cmap old = map cmap new \<or> \<not> name_in_use db x new)) \<and> db_ok db'
        \<and> (if done then same_but no_props db db'
             \<and> (\<exists>d \<in> set (defs_on db x). name_key d = map cmap old
                 \<and> (\<forall>y. slot_map db' y = (if y \<in> sub db x
                      then (slot_map db y)((x, d) := None, (x, dbpriv_new_propdef new) := slot_map db y (x, d))
                      else slot_map db y)))
           else db' = db)"
  using db_rename_propdef_ok [OF db_okD(2) [OF ok] assms(2-4)] db_rename_propdef_keeps_ok [OF ok assms(2-4)]
  by (auto split: option.splits if_splits)

theorem db_rename_propdef_correct_witness:
  "\<exists>db'. db_rename_propdef 0 ''foo'' ''FOO'' sample_prop_db = Some (True, db') \<and> db_ok db'"
  using db_rename_propdef_correct [of sample_prop_db 0 "''foo''" "''FOO''"]
  by (auto simp: sample_prop_facts sample_prop_defs sample_fold simp del: list.map split: option.splits if_splits)

text \<open>C35: looking up a name that is not built in finds the definition of that name on the object's line, if
  there is one: the handle gives the object that defines it and designates the object's own slot for it, and
  the value is that of the nearest slot up the line that is not clear, which exists.\<close>

theorem db_find_property_correct:
  assumes ok: "db_ok db" and "valid db x" "cstring s" "\<not> built_in_name s"
  shows "\<exists>h v. db_find_property db x s True = Some (h, v) \<and> ph_built_in h = BP_NONE
    \<and> (if \<exists>k \<in> set (line_defs db x). name_key (snd k) = map cmap s
       then \<exists>k \<in> set (line_defs db x). name_key (snd k) = map cmap s \<and> ph_definer h = fst k
            \<and> read_slot db h = slot_map db x k \<and> v = nearest_value db k (line db x) \<and> v \<noteq> None \<and> v \<noteq> Some VClear
       else ph_ptr h = PNull \<and> v = None)"
  by (rule db_find_property_ok [OF db_okD(2) [OF ok] assms(2-4)])

theorem db_find_property_correct_witness:
  "\<exists>h. db_find_property sample_prop_db 0 ''FOO'' True = Some (h, Some (VInt 3)) \<and> ph_definer h = 0"
proof -
  have "\<not> built_in_name ''FOO''" using built_in_name_length [of "''FOO''"] by auto
  moreover have "nearest_value sample_prop_db (0, dbpriv_new_propdef ''foo'') [0] = Some (VInt 3)"
    by (simp add: sample_prop_facts)
  ultimately show ?thesis
    using db_find_property_correct [of sample_prop_db 0 "''FOO''"]
    by (auto simp: sample_prop_facts sample_fold simp del: list.map)
qed

text \<open>C37: moving an object takes it out of its old location's contents and appends it to the new location's;
  the contents of every other object and all other fields stay as they were, and the invariant is kept.
  (The destination must not be inside the object, which the callers check.)\<close>

theorem db_change_location_correct:
  assumes "db_ok db" "valid db x" "location = NOTHING \<or> valid db location"
    and "walk_db db o_location location = Some place" "x \<notin> set place"
  shows "\<exists>db'. db_change_location x location db = Some db' \<and> db_ok db'
    \<and> same_but (strip_all location_fields) db db' \<and> db_object_location db' x = Some location
    \<and> (\<forall>p. valid db p \<longrightarrow> members location_fields db' p =
          map_option (\<lambda>cs. remove1 x cs @ (if p = location then [x] else [])) (members location_fields db p))"
  by (rule db_change_location_keeps_ok [OF assms])

theorem db_change_location_correct_witness:
  "\<exists>db'. db_change_location 1 0 sample_db = Some db' \<and> db_ok db' \<and> db_object_location db' 1 = Some 0"
  using db_change_location_correct [of sample_db 1 0 "[0]"] by (auto simp: sample_db_facts)



text \<open>C38: an object can be destroyed exactly when it is valid and a barren orphan (anything else is a panic);
  its number is then free, it is off the list of users, every other object is as it was, and the invariant
  is kept.\<close>

theorem db_destroy_object_correct:
  assumes "db_ok db"
  shows "case db_destroy_object x db of
      None \<Rightarrow> \<not> (\<exists>ob. dbpriv_find_object db x = Some ob \<and> barren ob)
    | Some db' \<Rightarrow> (\<exists>ob. dbpriv_find_object db x = Some ob \<and> barren ob) \<and> db_ok db'
        \<and> (\<forall>y. dbpriv_find_object db' y = (if y = x then None else dbpriv_find_object db y))
        \<and> all_users db' = (if is_user db x then remove1 (VObj x) (all_users db) else all_users db)"
  by (rule db_destroy_object_keeps_ok [OF assms])

theorem db_destroy_object_correct_witness:
  "\<exists>db'. db_destroy_object 1 sample_db = Some db' \<and> db_ok db' \<and> \<not> valid db' 1"
proof -
  have "barren (blank_object\<lparr>o_id := 1\<rparr> :: unit object)" by (simp add: barren_def blank_object_def)
  then show ?thesis
    using db_destroy_object_correct [OF sample_db_facts(1), of 1]
    by (auto simp: sample_db_facts valid_def split: option.splits)
qed



end
