(* ===== verification/ParseCmd.thy ===== *)
theory ParseCmd
  imports DbVerbs
begin

text \<open>
  match.c, parse_cmd.c and quota.c: how the words of a command line denote objects, how a line is cut
  into verb, direct object, preposition and indirect object, and the quota on object creation.
\<close>

section \<open>Matching objects\<close>

definition aliases :: "'p db \<Rightarrow> objid \<Rightarrow> var list option" where
  "aliases db oid = do {
     (h, v) \<leftarrow> db_find_property db oid ''aliases'' True;
     Some (case v of Some (VList xs) \<Rightarrow> if ph_ptr h = PNull then [] else xs | _ \<Rightarrow> []) }"

record match_data =
  d_name :: string
  d_exact :: objid
  d_partial :: objid

text \<open>The loop over the names of an object; \<open>True\<close> when the enumeration is to stop.\<close>

fun match_names :: "objid \<Rightarrow> string list \<Rightarrow> match_data \<Rightarrow> bool \<times> match_data" where
  "match_names oid [] d = (False, d)"
| "match_names oid (s # ss) d =
     (if mystrncasecmp s (d_name d) (length (d_name d)) = 0 then
        (if drop (length (d_name d)) s = [] then
           (if d_exact d = NOTHING \<or> d_exact d = oid then match_names oid ss (d\<lparr>d_exact := oid\<rparr>)
            else (True, d))
         else match_names oid ss
           (d\<lparr>d_partial := if d_partial d = FAILED_MATCH \<or> d_partial d = oid then oid else AMBIGUOUS\<rparr>))
      else match_names oid ss d)"

definition names_of :: "'p db \<Rightarrow> objid \<Rightarrow> string list option" where
  "names_of db oid = do {
     als \<leftarrow> aliases db oid;
     nm \<leftarrow> db_object_name db oid;
     Some (nm # concat (map (\<lambda>v. case v of VStr s \<Rightarrow> [s] | _ \<Rightarrow> []) als)) }"

fun match_proc :: "'p db \<Rightarrow> objid list \<Rightarrow> match_data \<Rightarrow> (bool \<times> match_data) option" where
  "match_proc db [] d = Some (False, d)"
| "match_proc db (oid # oids) d = do {
     names \<leftarrow> names_of db oid;
     let (stop, d) = match_names oid names d;
     if stop then Some (True, d) else match_proc db oids d }"

definition match_members :: "'p db \<Rightarrow> objid \<Rightarrow> match_data \<Rightarrow> (bool \<times> match_data) option" where
  "match_members db oid d =
     (if valid db oid then Option.bind (members location_fields db oid) (\<lambda>cs. match_proc db cs d)
      else Some (False, d))"

definition match_contents :: "'p db \<Rightarrow> objid \<Rightarrow> string \<Rightarrow> objid option" where
  "match_contents db player nm =
     (if \<not> valid db player then Some FAILED_MATCH
      else do {
        loc \<leftarrow> db_object_location db player;
        (stop, d) \<leftarrow> match_members db player \<lparr>d_name = nm, d_exact = NOTHING, d_partial = FAILED_MATCH\<rparr>;
        if stop then Some AMBIGUOUS
        else do {
          (stop, d) \<leftarrow> match_members db loc d;
          Some (if stop then AMBIGUOUS else if d_exact d \<noteq> NOTHING then d_exact d else d_partial d) } })"

definition match_object :: "'p db \<Rightarrow> objid \<Rightarrow> string \<Rightarrow> objid option" where
  "match_object db player nm =
     (case nm of
        [] \<Rightarrow> Some NOTHING
      | c # s \<Rightarrow>
          if c = CHR ''#'' then
            (let (n, p) = (case strtol s of None \<Rightarrow> (0, s) | Some r \<Rightarrow> r); r = sint (word_of_int n :: int32)
             in Some (if p \<noteq> [] \<or> \<not> valid db r then FAILED_MATCH else r))
          else if \<not> valid db player then Some FAILED_MATCH
          else if mystrcasecmp nm ''me'' = 0 then Some player
          else if mystrcasecmp nm ''here'' = 0 then db_object_location db player
          else match_contents db player nm)"

section \<open>Parsing a command\<close>

fun build_string :: "string list \<Rightarrow> string" where
  "build_string [] = []"
| "build_string (a # as) = a @ concat (map ((#) (CHR '' '')) as)"

definition parse_into_wordlist :: "string \<Rightarrow> var option" where
  "parse_into_wordlist command = map_option (\<lambda>ws. VList (map VStr ws)) (parse_into_words command)"

record Parsed_Command =
  pc_verb :: string
  pc_argstr :: string
  pc_args :: "var list"
  pc_dobjstr :: string
  pc_dobj :: objid
  pc_prepstr :: string
  pc_prep :: int
  pc_iobjstr :: string
  pc_iobj :: objid

text \<open>The loop that skips past even complexly quoted verbs.\<close>

fun skip_quoted :: "bool \<Rightarrow> string \<Rightarrow> string" where
  "skip_quoted in_quotes [] = []"
| "skip_quoted in_quotes (c # s) =
     (if \<not> in_quotes \<and> c = CHR '' '' then c # s
      else if c = CHR 0x22 then skip_quoted (\<not> in_quotes) s
      else if c = CHR 0x5C then (case s of [] \<Rightarrow> [] | _ # t \<Rightarrow> skip_quoted in_quotes t)
      else skip_quoted in_quotes s)"

definition special_verb :: "char \<Rightarrow> string option" where
  "special_verb c =
     (if c = CHR 0x22 then Some ''say''
      else if c = CHR '':'' then Some ''emote''
      else if c = CHR '';'' then Some ''eval''
      else None)"

text \<open>The buffer that is cut into words, and \<^verbatim>\<open>argstr\<close>.\<close>

definition command_text :: "string \<Rightarrow> string \<times> string" where
  "command_text command =
     (case command of
        c # s \<Rightarrow>
          (case special_verb c of
             Some verb \<Rightarrow> (verb @ '' '' @ s, s)
           | None \<Rightarrow> (command, drop_blanks (skip_quoted False command)))
      | [] \<Rightarrow> (command, drop_blanks (skip_quoted False command)))"

text \<open>\<open>Some None\<close> is the null pointer returned for an empty command.\<close>

definition parse_command :: "prep_table \<Rightarrow> 'p db \<Rightarrow> string \<Rightarrow> objid \<Rightarrow> Parsed_Command option option" where
  "parse_command tab db command user = do {
     let (buf, argstr) = command_text (drop_blanks command);
     argv \<leftarrow> parse_into_words buf;
     if argv = [] then Some None
     else do {
       let argc = length argv;
       let (prep, pstart, pend) =
         (if argc > 1 then
            (case db_find_prep tab (tl argv) False of (prep, i, j) \<Rightarrow>
               if prep = PREP_NONE then (PREP_NONE, argc, argc) else (prep, i + 1, nat (j + 1)))
          else (PREP_NONE, argc, argc));
       let prepstr = (if prep \<noteq> PREP_NONE then build_string (take (pend - pstart + 1) (drop pstart argv)) else []);
       let iobjstr = (if prep \<noteq> PREP_NONE then build_string (drop (pend + 1) argv) else []);
       iobj \<leftarrow> (if prep \<noteq> PREP_NONE then match_object db user iobjstr else Some NOTHING);
       let dlen = pstart - 1;
       let dobjstr = (if dlen = 0 then [] else build_string (take dlen (tl argv)));
       dobj \<leftarrow> (if dlen = 0 then Some NOTHING else match_object db user dobjstr);
       Some (Some \<lparr>pc_verb = hd argv, pc_argstr = argstr, pc_args = map VStr (tl argv),
         pc_dobjstr = dobjstr, pc_dobj = dobj, pc_prepstr = prepstr, pc_prep = prep,
         pc_iobjstr = iobjstr, pc_iobj = iobj\<rparr>) } }"

section \<open>Quota\<close>

definition quota_name :: string where "quota_name = ''ownership_quota''"

text \<open>The lookup both operations start with: the handle and the number, when there is one.\<close>

definition find_quota :: "'p db \<Rightarrow> objid \<Rightarrow> (db_prop_handle \<times> int32) option option" where
  "find_quota db player =
     (if \<not> valid db player then Some None
      else do {
        (h, v) \<leftarrow> db_find_property db player quota_name True;
        Some (case v of Some (VInt n) \<Rightarrow> if ph_ptr h = PNull then None else Some (h, n) | _ \<Rightarrow> None) })"

definition decr_quota :: "objid \<Rightarrow> 'p db \<Rightarrow> (bool \<times> 'p db) option" where
  "decr_quota player db = do {
     q \<leftarrow> find_quota db player;
     case q of
       None \<Rightarrow> Some (True, db)
     | Some (h, n) \<Rightarrow>
         if sint n \<le> 0 then Some (False, db)
         else map_option (Pair True) (db_set_property_value h (VInt (n - 1)) db) }"

definition incr_quota :: "objid \<Rightarrow> 'p db \<Rightarrow> 'p db option" where
  "incr_quota player db = do {
     q \<leftarrow> find_quota db player;
     case q of
       None \<Rightarrow> Some db
     | Some (h, n) \<Rightarrow> db_set_property_value h (VInt (n + 1)) db }"

end
