(* ===== verification/Vm.thy ===== *)
theory Vm
  imports EvalEnv Builtins DbCorrect ParseCmd
begin

text \<open>
  The virtual machine of execute.c: activations, the decoding of instructions from a vector, and the
  instructions that change only the running activation.  The run-time stack has its top first.  An
  operation is \<open>None\<close> when the C code panics, reads the wrong member of a union, leaves a block (the stack
  below its base or above \<^verbatim>\<open>rt_stack_size\<close>, a vector, an environment), or computes a division that traps.
  \<^verbatim>\<open>BYTECODE_REDUCE_REF\<close> is not defined, and \<^verbatim>\<open>IGNORE_PROP_PROTECTED\<close> is.
\<close>

section \<open>State\<close>

datatype finally_reason = FIN_FALL_THRU | FIN_RAISE | FIN_UNCAUGHT | FIN_RETURN | FIN_ABORT | FIN_EXIT

fun reason_num :: "finally_reason \<Rightarrow> int32" where
  "reason_num FIN_FALL_THRU = 0" | "reason_num FIN_RAISE = 1" | "reason_num FIN_UNCAUGHT = 2"
| "reason_num FIN_RETURN = 3" | "reason_num FIN_ABORT = 4" | "reason_num FIN_EXIT = 5"

datatype outcome = OUTCOME_DONE | OUTCOME_ABORTED | OUTCOME_BLOCKED

record 'd activation =
  ac_prog :: program
  ac_rt_env :: rt_env
  ac_stack :: "var list"
  ac_rt_stack_size :: nat
  ac_pc :: nat
  ac_error_pc :: nat
  ac_bi_func_pc :: nat
  ac_bi_func_id :: nat
  ac_bi_func_data :: "'d option"
  ac_temp :: var
  ac_self :: objid
  ac_player :: objid
  ac_progr :: objid
  ac_vloc :: objid
  ac_verb :: string
  ac_verbname :: string
  ac_debug :: bool

definition MAIN_VECTOR :: int where "MAIN_VECTOR = -1"

section \<open>Decoding\<close>

datatype instr =
  I_op opcode                       \<comment> \<open>an opcode without operands\<close>
| I_branch opcode nat               \<comment> \<open>\<^verbatim>\<open>IF\<close>, \<^verbatim>\<open>EIF\<close>, \<^verbatim>\<open>WHILE\<close>, \<^verbatim>\<open>IF_QUES\<close>, \<^verbatim>\<open>AND\<close>, \<^verbatim>\<open>OR\<close>, \<^verbatim>\<open>JUMP\<close>\<close>
| I_for opcode nat nat
| I_imm nat
| I_num int
| I_push nat
| I_put nat
| I_gput nat
| I_fork nat "nat option"
| I_call nat
| E_rangeset
| E_length nat
| E_exp
| E_scatter nat nat nat "(nat \<times> nat) list" nat
| E_push_label nat
| E_try_finally nat
| E_catch
| E_try_except nat
| E_end_catch nat
| E_end_except nat
| E_end_finally
| E_continue
| E_while_id nat nat
| E_exit nat nat

fun bytes_value :: "byte list \<Rightarrow> nat" where
  "bytes_value bs = foldl (\<lambda>v b. v * 256 + unat b) 0 bs"

definition READ_BYTES :: "byte list \<Rightarrow> nat \<Rightarrow> nat \<Rightarrow> (nat \<times> nat) option" where
  "READ_BYTES v pos nb =
     (if pos + nb \<le> length v then Some (bytes_value (take nb (drop pos v)), pos + nb) else None)"

definition simple_opcodes :: "opcode list" where
  "simple_opcodes =
     [OP_INDEXSET, OP_PUSH_GET_PROP, OP_GET_PROP, OP_CALL_VERB, OP_PUT_PROP, OP_REF, OP_RANGE_REF,
      OP_MAKE_SINGLETON_LIST, OP_CHECK_LIST_FOR_SPLICE, OP_MULT, OP_DIV, OP_MOD, OP_ADD, OP_MINUS, OP_EQ,
      OP_NE, OP_LT, OP_LE, OP_GT, OP_GE, OP_IN, OP_UNARY_MINUS, OP_NOT, OP_MAKE_EMPTY_LIST,
      OP_LIST_ADD_TAIL, OP_LIST_APPEND, OP_PUSH_REF, OP_PUT_TEMP, OP_PUSH_TEMP, OP_RETURN, OP_RETURN0,
      OP_DONE, OP_POP]"

definition branch_opcodes :: "opcode list" where
  "branch_opcodes = [OP_IF, OP_WHILE, OP_EIF, OP_IF_QUES, OP_AND, OP_OR, OP_JUMP]"

fun lookup_opcode :: "nat \<Rightarrow> opcode list \<Rightarrow> opcode option" where
  "lookup_opcode b [] = None"
| "lookup_opcode b (op # ops) = (if opcode_num op = b then Some op else lookup_opcode b ops)"

fun read_scatter :: "bytecodes \<Rightarrow> nat \<Rightarrow> nat \<Rightarrow> ((nat \<times> nat) list \<times> nat) option" where
  "read_scatter bc 0 pos = Some ([], pos)"
| "read_scatter bc (Suc n) pos = do {
     (i, pos) \<leftarrow> READ_BYTES (bc_vector bc) pos (numbytes_var_name bc);
     (lab, pos) \<leftarrow> READ_BYTES (bc_vector bc) pos (numbytes_label bc);
     (rest, pos) \<leftarrow> read_scatter bc n pos;
     Some ((i, lab) # rest, pos) }"

text \<open>The operands of an extended opcode \<open>b\<close>, from \<open>pos\<close>.\<close>

definition decode_extended :: "bytecodes \<Rightarrow> nat \<Rightarrow> nat \<Rightarrow> (instr \<times> nat) option" where
  "decode_extended bc b pos =
     (let v = bc_vector bc;
          label = (\<lambda>f. do { (l, pos) \<leftarrow> READ_BYTES v pos (numbytes_label bc); Some (f l, pos) })
      in
      if b = extended_opcode_num EOP_RANGESET then Some (E_rangeset, pos)
      else if b = extended_opcode_num EOP_LENGTH then do {
        (i, pos) \<leftarrow> READ_BYTES v pos (numbytes_stack bc); Some (E_length i, pos) }
      else if b = extended_opcode_num EOP_EXP then Some (E_exp, pos)
      else if b = extended_opcode_num EOP_SCATTER then do {
        (nargs, pos) \<leftarrow> READ_BYTES v pos 1;
        (nreq, pos) \<leftarrow> READ_BYTES v pos 1;
        (rest, pos) \<leftarrow> READ_BYTES v pos 1;
        (targets, pos) \<leftarrow> read_scatter bc nargs pos;
        (done_label, pos) \<leftarrow> READ_BYTES v pos (numbytes_label bc);
        Some (E_scatter nargs nreq rest targets done_label, pos) }
      else if b = extended_opcode_num EOP_PUSH_LABEL then label E_push_label
      else if b = extended_opcode_num EOP_TRY_FINALLY then label E_try_finally
      else if b = extended_opcode_num EOP_CATCH then Some (E_catch, pos)
      else if b = extended_opcode_num EOP_TRY_EXCEPT then do {
        (n, pos) \<leftarrow> READ_BYTES v pos 1; Some (E_try_except n, pos) }
      else if b = extended_opcode_num EOP_END_CATCH then label E_end_catch
      else if b = extended_opcode_num EOP_END_EXCEPT then label E_end_except
      else if b = extended_opcode_num EOP_END_FINALLY then Some (E_end_finally, pos)
      else if b = extended_opcode_num EOP_CONTINUE then Some (E_continue, pos)
      else if b = extended_opcode_num EOP_WHILE_ID then do {
        (i, pos) \<leftarrow> READ_BYTES v pos (numbytes_var_name bc);
        (l, pos) \<leftarrow> READ_BYTES v pos (numbytes_label bc);
        Some (E_while_id i l, pos) }
      else if b = extended_opcode_num EOP_EXIT_ID \<or> b = extended_opcode_num EOP_EXIT then do {
        (_, pos) \<leftarrow> READ_BYTES v pos (if b = extended_opcode_num EOP_EXIT_ID then numbytes_var_name bc else 0);
        (sp, pos) \<leftarrow> READ_BYTES v pos (numbytes_stack bc);
        (l, pos) \<leftarrow> READ_BYTES v pos (numbytes_label bc);
        Some (E_exit sp l, pos) }
      else None)"

text \<open>The instruction at \<open>pos\<close> and the position after it.\<close>

definition decode_op :: "bytecodes \<Rightarrow> nat \<Rightarrow> nat \<Rightarrow> (instr \<times> nat) option" where
  "decode_op bc b pos =
     (let v = bc_vector bc in
      case lookup_opcode b simple_opcodes of
        Some op \<Rightarrow> Some (I_op op, pos)
      | None \<Rightarrow>
      (case lookup_opcode b branch_opcodes of
        Some op \<Rightarrow> do { (l, pos) \<leftarrow> READ_BYTES v pos (numbytes_label bc); Some (I_branch op l, pos) }
      | None \<Rightarrow>
      if b = opcode_num OP_FOR_LIST \<or> b = opcode_num OP_FOR_RANGE then do {
        (i, pos) \<leftarrow> READ_BYTES v pos (numbytes_var_name bc);
        (l, pos) \<leftarrow> READ_BYTES v pos (numbytes_label bc);
        Some (I_for (if b = opcode_num OP_FOR_LIST then OP_FOR_LIST else OP_FOR_RANGE) i l, pos) }
      else if b = opcode_num OP_IMM then do {
        (slot, pos) \<leftarrow> READ_BYTES v pos (numbytes_literal bc); Some (I_imm slot, pos) }
      else if b = opcode_num OP_G_PUT then do {
        (i, pos) \<leftarrow> READ_BYTES v pos (numbytes_var_name bc); Some (I_gput i, pos) }
      else if b = opcode_num OP_G_PUSH then do {
        (i, pos) \<leftarrow> READ_BYTES v pos (numbytes_var_name bc); Some (I_push i, pos) }
      else if b = opcode_num OP_FORK then do {
        (f, pos) \<leftarrow> READ_BYTES v pos (numbytes_fork bc); Some (I_fork f None, pos) }
      else if b = opcode_num OP_FORK_WITH_ID then do {
        (f, pos) \<leftarrow> READ_BYTES v pos (numbytes_fork bc);
        (i, pos) \<leftarrow> READ_BYTES v pos (numbytes_var_name bc);
        Some (I_fork f (Some i), pos) }
      else if b = opcode_num OP_BI_FUNC_CALL then do {
        (f, pos) \<leftarrow> READ_BYTES v pos 1; Some (I_call f, pos) }
      else if b = opcode_num OP_EXTENDED then do {
        (e, pos) \<leftarrow> READ_BYTES v pos 1; decode_extended bc e pos }
      else if IS_PUSH_n b then Some (I_push (PUSH_n_INDEX b), pos)
      else if IS_PUT_n b then Some (I_put (PUT_n_INDEX b), pos)
      else if IS_OPTIM_NUM_OPCODE b then Some (I_num (OPCODE_TO_OPTIM_NUM b), pos)
      else None))"

definition decode :: "bytecodes \<Rightarrow> nat \<Rightarrow> (instr \<times> nat) option" where
  "decode bc pos = do {
     (b, pos) \<leftarrow> READ_BYTES (bc_vector bc) pos 1;
     decode_op bc b pos }"

section \<open>The run-time stack\<close>

definition POP :: "'d activation \<Rightarrow> (var \<times> 'd activation) option" where
  "POP a = (case ac_stack a of [] \<Rightarrow> None | v # vs \<Rightarrow> Some (v, a\<lparr>ac_stack := vs\<rparr>))"

definition PUSH :: "var \<Rightarrow> 'd activation \<Rightarrow> 'd activation option" where
  "PUSH v a = (if length (ac_stack a) < ac_rt_stack_size a
     then Some (a\<lparr>ac_stack := v # ac_stack a\<rparr>) else None)"

definition TOP_RT_VALUE :: "'d activation \<Rightarrow> var option" where
  "TOP_RT_VALUE a = (case ac_stack a of v # _ \<Rightarrow> Some v | _ \<Rightarrow> None)"

definition NEXT_TOP_RT_VALUE :: "'d activation \<Rightarrow> var option" where
  "NEXT_TOP_RT_VALUE a = (case ac_stack a of _ # v # _ \<Rightarrow> Some v | _ \<Rightarrow> None)"

definition JUMP :: "nat \<Rightarrow> 'd activation \<Rightarrow> 'd activation" where
  "JUMP l a = a\<lparr>ac_pc := l\<rparr>"

definition read_env :: "nat \<Rightarrow> 'd activation \<Rightarrow> var option" where
  "read_env i a = (if i < length (ac_rt_env a) then Some (ac_rt_env a ! i) else None)"

definition write_env :: "nat \<Rightarrow> var \<Rightarrow> 'd activation \<Rightarrow> 'd activation option" where
  "write_env i v a =
     (if i < length (ac_rt_env a) then Some (a\<lparr>ac_rt_env := (ac_rt_env a)[i := v]\<rparr>) else None)"

text \<open>The slot \<open>i\<close> counted from the base.\<close>

definition base_rt_stack :: "nat \<Rightarrow> 'd activation \<Rightarrow> var option" where
  "base_rt_stack i a =
     (if i < length (ac_stack a) then Some (ac_stack a ! (length (ac_stack a) - 1 - i)) else None)"

text \<open>
  What an instruction does to the running activation.  With an error comes the activation as it is when
  the error is raised, and as it is when execution continues without the \<open>d\<close> flag (\<open>None\<close> when that leaves
  the stack).
\<close>

datatype 'd op_result =
  Normal "'d activation"
| Raises error "'d activation" "'d activation option"

definition PUSH_ERROR :: "error \<Rightarrow> 'd activation \<Rightarrow> 'd op_result" where
  "PUSH_ERROR e a = Raises e a (PUSH (VErr e) a)"

definition pushed :: "var \<Rightarrow> 'd activation \<Rightarrow> 'd op_result option" where
  "pushed v a = map_option Normal (PUSH v a)"

definition push_result :: "var \<Rightarrow> 'd activation \<Rightarrow> 'd op_result option" where
  "push_result v a = (case v of VErr e \<Rightarrow> Some (PUSH_ERROR e a) | _ \<Rightarrow> pushed v a)"

section \<open>Control\<close>

text \<open>\<^verbatim>\<open>do_test\<close>: jump if false.\<close>

definition op_test :: "nat \<Rightarrow> 'd activation \<Rightarrow> 'd op_result option" where
  "op_test lab a = do {
     (cond, a) \<leftarrow> POP a;
     Some (Normal (if is_true cond then a else JUMP lab a)) }"

definition op_and_or :: "bool \<Rightarrow> nat \<Rightarrow> 'd activation \<Rightarrow> 'd op_result option" where
  "op_and_or is_and lab a = do {
     lhs \<leftarrow> TOP_RT_VALUE a;
     if is_true lhs \<noteq> is_and then Some (Normal (JUMP lab a))
     else do { (_, a) \<leftarrow> POP a; Some (Normal a) } }"

definition op_branch :: "opcode \<Rightarrow> nat \<Rightarrow> 'd activation \<Rightarrow> 'd op_result option" where
  "op_branch op lab a =
     (if op = OP_JUMP then Some (Normal (JUMP lab a))
      else if op = OP_AND \<or> op = OP_OR then op_and_or (op = OP_AND) lab a
      else op_test lab a)"

text \<open>Both operands are popped and the loop is left.\<close>

definition leave_loop :: "nat \<Rightarrow> 'd activation \<Rightarrow> 'd activation option" where
  "leave_loop lab a = do {
     (_, a) \<leftarrow> POP a;
     (_, a) \<leftarrow> POP a;
     Some (JUMP lab a) }"

definition op_for_list :: "nat \<Rightarrow> nat \<Rightarrow> 'd activation \<Rightarrow> 'd op_result option" where
  "op_for_list i lab a = do {
     count \<leftarrow> TOP_RT_VALUE a;
     lst \<leftarrow> NEXT_TOP_RT_VALUE a;
     (case lst of
        VList vs \<Rightarrow>
          (case count of
             VInt n \<Rightarrow>
               if sint n > llen vs then map_option Normal (leave_loop lab a)
               else if sint n < 1 then None
               else do {
                 a \<leftarrow> write_env i (vs ! nat (sint n - 1)) a;
                 Some (Normal (a\<lparr>ac_stack := VInt (n + 1) # tl (ac_stack a)\<rparr>)) }
           | _ \<Rightarrow> None)
      | _ \<Rightarrow> Some (Raises E_TYPE a (leave_loop lab a))) }"

text \<open>The increment of the counter wraps at the maximum of its type.\<close>

definition op_for_range :: "nat \<Rightarrow> nat \<Rightarrow> 'd activation \<Rightarrow> 'd op_result option" where
  "op_for_range i lab a = do {
     to \<leftarrow> TOP_RT_VALUE a;
     from \<leftarrow> NEXT_TOP_RT_VALUE a;
     let step = (\<lambda>over next.
       if over then map_option Normal (leave_loop lab a)
       else do {
         a \<leftarrow> write_env i from a;
         Some (Normal (a\<lparr>ac_stack := hd (ac_stack a) # next # tl (tl (ac_stack a))\<rparr>)) });
     (case (from, to) of
        (VInt m, VInt n) \<Rightarrow> step (n <s m) (VInt (m + 1))
      | (VObj m, VObj n) \<Rightarrow> step (n < m) (VObj (sint (word_of_int (m + 1) :: int32)))
      | _ \<Rightarrow> Some (Raises E_TYPE a (leave_loop lab a))) }"

section \<open>Literals and variables\<close>

text \<open>A literal that the next instruction pops is not pushed at all.\<close>

definition next_is_pop :: "bytecodes \<Rightarrow> nat \<Rightarrow> bool" where
  "next_is_pop bc pos \<longleftrightarrow> pos < length (bc_vector bc) \<and> unat (bc_vector bc ! pos) = opcode_num OP_POP"

definition op_imm :: "bytecodes \<Rightarrow> nat \<Rightarrow> 'd activation \<Rightarrow> 'd op_result option" where
  "op_imm bc slot a =
     (if \<not> ac_pc a < length (bc_vector bc) then None
      else if next_is_pop bc (ac_pc a) then Some (Normal (a\<lparr>ac_pc := ac_pc a + 1\<rparr>))
      else if slot < length (pr_literals (ac_prog a)) then pushed (pr_literals (ac_prog a) ! slot) a
      else None)"

definition op_push :: "nat \<Rightarrow> 'd activation \<Rightarrow> 'd op_result option" where
  "op_push i a = do {
     v \<leftarrow> read_env i a;
     if v = VNone then Some (PUSH_ERROR E_VARNF a) else pushed v a }"

definition op_gput :: "nat \<Rightarrow> 'd activation \<Rightarrow> 'd op_result option" where
  "op_gput i a = do {
     v \<leftarrow> TOP_RT_VALUE a;
     map_option Normal (write_env i v a) }"

definition op_put :: "bytecodes \<Rightarrow> nat \<Rightarrow> 'd activation \<Rightarrow> 'd op_result option" where
  "op_put bc i a =
     (if \<not> ac_pc a < length (bc_vector bc) then None
      else if next_is_pop bc (ac_pc a) then do {
        (v, a) \<leftarrow> POP a;
        a \<leftarrow> write_env i v a;
        Some (Normal (a\<lparr>ac_pc := ac_pc a + 1\<rparr>)) }
      else op_gput i a)"

definition op_put_temp :: "'d activation \<Rightarrow> 'd op_result option" where
  "op_put_temp a = do {
     v \<leftarrow> TOP_RT_VALUE a;
     Some (Normal (a\<lparr>ac_temp := v\<rparr>)) }"

definition op_push_temp :: "'d activation \<Rightarrow> 'd op_result option" where
  "op_push_temp a = do {
     a \<leftarrow> PUSH (ac_temp a) a;
     Some (Normal (a\<lparr>ac_temp := VNone\<rparr>)) }"

section \<open>Lists, strings and their elements\<close>

definition op_make_empty_list :: "'d activation \<Rightarrow> 'd op_result option" where
  "op_make_empty_list a = pushed (VList []) a"

definition op_list_add_tail :: "'d activation \<Rightarrow> 'd op_result option" where
  "op_list_add_tail a = do {
     (tail, a) \<leftarrow> POP a;
     (lst, a) \<leftarrow> POP a;
     (case lst of
        VList vs \<Rightarrow> Option.bind (listappend vs tail) (\<lambda>r. pushed (VList r) a)
      | _ \<Rightarrow> Some (PUSH_ERROR E_TYPE a)) }"

definition op_list_append :: "'d activation \<Rightarrow> 'd op_result option" where
  "op_list_append a = do {
     (tail, a) \<leftarrow> POP a;
     (lst, a) \<leftarrow> POP a;
     (case (tail, lst) of
        (VList ts, VList vs) \<Rightarrow> Option.bind (listconcat vs ts) (\<lambda>r. pushed (VList r) a)
      | _ \<Rightarrow> Some (PUSH_ERROR E_TYPE a)) }"

definition op_make_singleton_list :: "'d activation \<Rightarrow> 'd op_result option" where
  "op_make_singleton_list a = do {
     (v, a) \<leftarrow> POP a;
     pushed (VList [v]) a }"

definition op_check_list_for_splice :: "'d activation \<Rightarrow> 'd op_result option" where
  "op_check_list_for_splice a = do {
     v \<leftarrow> TOP_RT_VALUE a;
     if type_of v \<noteq> TYPE_LIST then do {
       (_, a) \<leftarrow> POP a;
       Some (PUSH_ERROR E_TYPE a) }
     else Some (Normal a) }"

text \<open>\<open>list[index] = value\<close>: the new list or string, or the error.\<close>

definition index_set :: "var \<Rightarrow> var \<Rightarrow> var \<Rightarrow> (error + var) option" where
  "index_set lst index val =
     (case index of
        VInt i \<Rightarrow>
          (case lst of
             VList vs \<Rightarrow>
               if sint i < 1 \<or> sint i > llen vs then Some (Inl E_RANGE)
               else map_option (\<lambda>r. Inr (VList r)) (listset vs val (sint i))
           | VStr s \<Rightarrow>
               (case val of
                  VStr t \<Rightarrow>
                    if sint i < 1 \<or> sint i > llen s then Some (Inl E_RANGE)
                    else if length t \<noteq> 1 then Some (Inl E_INVARG)
                    else Some (Inr (VStr (s[nat (sint i - 1) := hd t])))
                | _ \<Rightarrow> Some (Inl E_TYPE))
           | _ \<Rightarrow> Some (Inl E_TYPE))
      | _ \<Rightarrow> Some (Inl E_TYPE))"

text \<open>An element of a list or string.\<close>

definition index_ref :: "var \<Rightarrow> var \<Rightarrow> (error + var) option" where
  "index_ref lst index =
     (case index of
        VInt i \<Rightarrow>
          (case lst of
             VList vs \<Rightarrow>
               Some (if sint i \<le> 0 \<or> sint i > llen vs then Inl E_RANGE else Inr (vs ! nat (sint i - 1)))
           | VStr s \<Rightarrow>
               if sint i \<le> 0 \<or> sint i > llen s then Some (Inl E_RANGE)
               else map_option (\<lambda>t. Inr (VStr t)) (strget s (sint i))
           | _ \<Rightarrow> Some (Inl E_TYPE))
      | _ \<Rightarrow> Some (Inl E_TYPE))"

definition range_ref :: "var \<Rightarrow> var \<Rightarrow> var \<Rightarrow> (error + var) option" where
  "range_ref base from to =
     (case (from, to) of
        (VInt f, VInt t) \<Rightarrow>
          (let out = (\<lambda>len. sint f \<le> sint t
                 \<and> (sint f \<le> 0 \<or> sint f > len \<or> sint t \<le> 0 \<or> sint t > len))
           in case base of
             VStr s \<Rightarrow>
               if out (llen s) then Some (Inl E_RANGE)
               else map_option (\<lambda>r. Inr (VStr r)) (substr s (sint f) (sint t))
           | VList vs \<Rightarrow>
               if out (llen vs) then Some (Inl E_RANGE)
               else map_option (\<lambda>r. Inr (VList r)) (sublist_c vs (sint f) (sint t))
           | _ \<Rightarrow> Some (Inl E_TYPE))
      | _ \<Rightarrow> Some (Inl E_TYPE))"

definition rangeset_check :: "int \<Rightarrow> int \<Rightarrow> int \<Rightarrow> bool" where
  "rangeset_check end_pos from to \<longleftrightarrow> from > end_pos + 1 \<or> to < 0"

definition range_set :: "var \<Rightarrow> var \<Rightarrow> var \<Rightarrow> var \<Rightarrow> (error + var) option" where
  "range_set base from to val =
     (case (from, to) of
        (VInt f, VInt t) \<Rightarrow>
          (case (base, val) of
             (VList vs, VList ws) \<Rightarrow>
               if rangeset_check (llen vs) (sint f) (sint t) then Some (Inl E_RANGE)
               else map_option (\<lambda>r. Inr (VList r)) (listrangeset vs (sint f) (sint t) ws)
           | (VStr s, VStr r) \<Rightarrow>
               if rangeset_check (llen s) (sint f) (sint t) then Some (Inl E_RANGE)
               else map_option (\<lambda>r. Inr (VStr r)) (strrangeset s (sint f) (sint t) r)
           | _ \<Rightarrow> Some (Inl E_TYPE))
      | _ \<Rightarrow> Some (Inl E_TYPE))"

text \<open>Pushing what an operation answers.\<close>

definition push_answer :: "(error + var) option \<Rightarrow> 'd activation \<Rightarrow> 'd op_result option" where
  "push_answer r a =
     (case r of
        None \<Rightarrow> None
      | Some (Inl e) \<Rightarrow> Some (PUSH_ERROR e a)
      | Some (Inr v) \<Rightarrow> pushed v a)"

definition op_indexset :: "'d activation \<Rightarrow> 'd op_result option" where
  "op_indexset a = do {
     (val, a) \<leftarrow> POP a;
     (index, a) \<leftarrow> POP a;
     (lst, a) \<leftarrow> POP a;
     push_answer (index_set lst index val) a }"

definition op_ref :: "'d activation \<Rightarrow> 'd op_result option" where
  "op_ref a = do {
     (index, a) \<leftarrow> POP a;
     (lst, a) \<leftarrow> POP a;
     push_answer (index_ref lst index) a }"

text \<open>Only lists: the elements of a string are not themselves indexed in an assignment.\<close>

definition push_ref :: "var \<Rightarrow> var \<Rightarrow> error + var" where
  "push_ref lst index =
     (case (index, lst) of
        (VInt i, VList vs) \<Rightarrow>
          if sint i \<le> 0 \<or> sint i > llen vs then Inl E_RANGE else Inr (vs ! nat (sint i - 1))
      | _ \<Rightarrow> Inl E_TYPE)"

definition op_push_ref :: "'d activation \<Rightarrow> 'd op_result option" where
  "op_push_ref a = do {
     index \<leftarrow> TOP_RT_VALUE a;
     lst \<leftarrow> NEXT_TOP_RT_VALUE a;
     push_answer (Some (push_ref lst index)) a }"

definition op_range_ref :: "'d activation \<Rightarrow> 'd op_result option" where
  "op_range_ref a = do {
     (to, a) \<leftarrow> POP a;
     (from, a) \<leftarrow> POP a;
     (base, a) \<leftarrow> POP a;
     push_answer (range_ref base from to) a }"

definition op_rangeset :: "'d activation \<Rightarrow> 'd op_result option" where
  "op_rangeset a = do {
     (val, a) \<leftarrow> POP a;
     (to, a) \<leftarrow> POP a;
     (from, a) \<leftarrow> POP a;
     (base, a) \<leftarrow> POP a;
     push_answer (range_set base from to val) a }"

definition op_length :: "nat \<Rightarrow> 'd activation \<Rightarrow> 'd op_result option" where
  "op_length i a = do {
     item \<leftarrow> base_rt_stack i a;
     (case item of
        VStr s \<Rightarrow> pushed (VInt (word_of_int (llen s))) a
      | VList vs \<Rightarrow> pushed (VInt (word_of_int (llen vs))) a
      | _ \<Rightarrow> Some (PUSH_ERROR E_TYPE a)) }"

section \<open>Operators\<close>

definition is_number :: "var \<Rightarrow> bool" where
  "is_number v \<longleftrightarrow> type_of v = TYPE_INT \<or> type_of v = TYPE_FLOAT"

definition op_equality :: "bool \<Rightarrow> 'd activation \<Rightarrow> 'd op_result option" where
  "op_equality positive a = do {
     (rhs, a) \<leftarrow> POP a;
     (lhs, a) \<leftarrow> POP a;
     b \<leftarrow> equality rhs lhs False;
     pushed (VInt (of_truth (b = positive))) a }"

fun comparison_holds :: "opcode \<Rightarrow> int \<Rightarrow> bool" where
  "comparison_holds OP_LT c = (c < 0)"
| "comparison_holds OP_LE c = (c \<le> 0)"
| "comparison_holds OP_GT c = (c > 0)"
| "comparison_holds OP_GE c = (c \<ge> 0)"
| "comparison_holds _ c = False"

text \<open>The comparison of two operands: its sign, or the error.\<close>

definition compare_vars :: "var \<Rightarrow> var \<Rightarrow> (error + int) option" where
  "compare_vars lhs rhs =
     (if is_number lhs \<and> is_number rhs then
        (case compare_numbers lhs rhs of
           Some (VErr e) \<Rightarrow> Some (Inl e)
         | Some (VInt c) \<Rightarrow> Some (Inr (sint c))
         | _ \<Rightarrow> None)
      else if type_of rhs \<noteq> type_of lhs \<or> type_of rhs = TYPE_LIST then Some (Inl E_TYPE)
      else (case (lhs, rhs) of
        (VObj m, VObj n) \<Rightarrow> Some (Inr (sint (compare_integers (word_of_int m) (word_of_int n))))
      | (VErr e, VErr f) \<Rightarrow> Some (Inr (error_num e - error_num f))
      | (VStr s, VStr t) \<Rightarrow> Some (Inr (mystrcasecmp s t))
      | _ \<Rightarrow> Some (Inr 0)))"

definition op_compare :: "opcode \<Rightarrow> 'd activation \<Rightarrow> 'd op_result option" where
  "op_compare op a = do {
     (rhs, a) \<leftarrow> POP a;
     (lhs, a) \<leftarrow> POP a;
     push_answer (map_option (map_sum id (\<lambda>c. VInt (of_truth (comparison_holds op c)))) (compare_vars lhs rhs)) a }"

definition op_in :: "'d activation \<Rightarrow> 'd op_result option" where
  "op_in a = do {
     (rhs, a) \<leftarrow> POP a;
     (lhs, a) \<leftarrow> POP a;
     (case rhs of
        VList vs \<Rightarrow> Option.bind (ismember lhs vs False) (\<lambda>i. pushed (VInt (word_of_int i)) a)
      | _ \<Rightarrow> Some (PUSH_ERROR E_TYPE a)) }"

fun arith_function :: "opcode \<Rightarrow> var \<Rightarrow> var \<Rightarrow> var option" where
  "arith_function OP_MULT = do_multiply"
| "arith_function OP_MINUS = do_subtract"
| "arith_function OP_DIV = do_divide"
| "arith_function OP_MOD = do_modulus"
| "arith_function _ = (\<lambda>lhs rhs. None)"

definition op_arith :: "opcode \<Rightarrow> 'd activation \<Rightarrow> 'd op_result option" where
  "op_arith op a = do {
     (rhs, a) \<leftarrow> POP a;
     (lhs, a) \<leftarrow> POP a;
     ans \<leftarrow> (if is_number lhs \<and> is_number rhs then arith_function op lhs rhs else Some (VErr E_TYPE));
     push_result ans a }"

definition add_vars :: "var \<Rightarrow> var \<Rightarrow> var option" where
  "add_vars lhs rhs =
     (if is_number lhs \<and> is_number rhs then do_add lhs rhs
      else (case (lhs, rhs) of (VStr s, VStr t) \<Rightarrow> Some (VStr (s @ t)) | _ \<Rightarrow> Some (VErr E_TYPE)))"

definition op_add :: "'d activation \<Rightarrow> 'd op_result option" where
  "op_add a = do {
     (rhs, a) \<leftarrow> POP a;
     (lhs, a) \<leftarrow> POP a;
     ans \<leftarrow> add_vars lhs rhs;
     push_result ans a }"

definition op_exp :: "(double \<Rightarrow> double \<Rightarrow> double \<times> bool) \<Rightarrow> 'd activation \<Rightarrow> 'd op_result option" where
  "op_exp c_pow a = do {
     (rhs, a) \<leftarrow> POP a;
     (lhs, a) \<leftarrow> POP a;
     push_result (do_power c_pow lhs rhs) a }"

definition op_not :: "'d activation \<Rightarrow> 'd op_result option" where
  "op_not a = do {
     (arg, a) \<leftarrow> POP a;
     pushed (VInt (of_truth (\<not> is_true arg))) a }"

definition negate_var :: "var \<Rightarrow> error + var" where
  "negate_var arg =
     (case arg of
        VInt n \<Rightarrow> Inr (VInt (- n))
      | VFloat d \<Rightarrow> Inr (new_float (dbl_neg d))
      | _ \<Rightarrow> Inl E_TYPE)"

definition op_unary_minus :: "'d activation \<Rightarrow> 'd op_result option" where
  "op_unary_minus a = do {
     (arg, a) \<leftarrow> POP a;
     push_answer (Some (negate_var arg)) a }"

section \<open>Scattering assignment\<close>

text \<open>
  The loop over the operands; \<open>i\<close> counts them from 1, \<open>dest\<close> is the first default to run (\<open>0\<close> for none).
  The answer is \<open>dest\<close> and the new environment.
\<close>

fun scatter_loop ::
  "nat \<Rightarrow> int \<Rightarrow> var list \<Rightarrow> (nat \<times> nat) list \<Rightarrow> nat \<Rightarrow> int \<Rightarrow> int \<Rightarrow> nat \<Rightarrow> 'd activation
     \<Rightarrow> (nat \<times> 'd activation) option" where
  "scatter_loop rest nrest vs [] i offset nopt_avail dest a = Some (dest, a)"
| "scatter_loop rest nrest vs ((slot, label) # ts) i offset nopt_avail dest a =
     (let element = (if 1 \<le> int i + offset \<and> int i + offset \<le> llen vs
                     then Some (vs ! nat (int i + offset - 1)) else None)
      in
      if i = rest then do {
        r \<leftarrow> sublist_c vs (int i) (int i + nrest - 1);
        a \<leftarrow> write_env slot (VList r) a;
        scatter_loop rest nrest vs ts (i + 1) (offset + (nrest - 1)) nopt_avail dest a }
      else if label = 0 then do {
        v \<leftarrow> element;
        a \<leftarrow> write_env slot v a;
        scatter_loop rest nrest vs ts (i + 1) offset nopt_avail dest a }
      else if nopt_avail > 0 then do {
        v \<leftarrow> element;
        a \<leftarrow> write_env slot v a;
        scatter_loop rest nrest vs ts (i + 1) offset (nopt_avail - 1) dest a }
      else
        scatter_loop rest nrest vs ts (i + 1) (offset - 1) nopt_avail
          (if dest = 0 \<and> label \<noteq> 1 then label else dest) a)"

definition op_scatter ::
  "nat \<Rightarrow> nat \<Rightarrow> nat \<Rightarrow> (nat \<times> nat) list \<Rightarrow> nat \<Rightarrow> 'd activation \<Rightarrow> 'd op_result option" where
  "op_scatter nargs nreq rest targets done_label a = do {
     lst \<leftarrow> TOP_RT_VALUE a;
     let have_rest = (rest \<le> nargs);
     let fail = (\<lambda>e. do {
       (_, a) \<leftarrow> POP a;
       Some (Raises e a (map_option (JUMP done_label) (PUSH (VErr e) a))) });
     (case lst of
        VList vs \<Rightarrow>
          if length vs < nreq \<or> \<not> have_rest \<and> length vs > nargs then fail E_ARGS
          else do {
            let nrest = (if have_rest \<and> length vs \<ge> nargs then llen vs - int nargs + 1 else 0);
            (dest, a) \<leftarrow> scatter_loop rest nrest vs targets 1 0 (llen vs - int nreq) 0 a;
            Some (Normal (JUMP (if dest = 0 then done_label else dest) a)) }
      | _ \<Rightarrow> fail E_TYPE) }"

section \<open>Exceptions\<close>

definition op_push_label :: "nat \<Rightarrow> 'd activation \<Rightarrow> 'd op_result option" where
  "op_push_label l a = pushed (VInt (word_of_nat l)) a"

definition op_try_finally :: "nat \<Rightarrow> 'd activation \<Rightarrow> 'd op_result option" where
  "op_try_finally l a = pushed (VFinally (word_of_nat l)) a"

definition op_catch :: "nat \<Rightarrow> 'd activation \<Rightarrow> 'd op_result option" where
  "op_catch n a = pushed (VCatch (word_of_nat n)) a"

text \<open>The handlers below the marker are popped, two slots each.\<close>

definition pop_handlers :: "'d activation \<Rightarrow> 'd activation option" where
  "pop_handlers a = do {
     (marker, a) \<leftarrow> POP a;
     (case marker of
        VCatch n \<Rightarrow>
          (let k = 2 * nat (sint n) in
           if k \<le> length (ac_stack a) then Some (a\<lparr>ac_stack := drop k (ac_stack a)\<rparr>) else None)
      | _ \<Rightarrow> None) }"

definition op_end_catch :: "nat \<Rightarrow> 'd activation \<Rightarrow> 'd op_result option" where
  "op_end_catch lab a = do {
     (v, a) \<leftarrow> POP a;
     a \<leftarrow> pop_handlers a;
     a \<leftarrow> PUSH v a;
     Some (Normal (JUMP lab a)) }"

definition op_end_except :: "nat \<Rightarrow> 'd activation \<Rightarrow> 'd op_result option" where
  "op_end_except lab a = do {
     a \<leftarrow> pop_handlers a;
     Some (Normal (JUMP lab a)) }"

definition op_end_finally :: "'d activation \<Rightarrow> 'd op_result option" where
  "op_end_finally a = do {
     (v, a) \<leftarrow> POP a;
     (case v of
        VFinally _ \<Rightarrow> do {
          a \<leftarrow> PUSH (VInt (reason_num FIN_FALL_THRU)) a;
          pushed zero a }
      | _ \<Rightarrow> None) }"

definition op_while_id :: "nat \<Rightarrow> nat \<Rightarrow> 'd activation \<Rightarrow> 'd op_result option" where
  "op_while_id i lab a = do {
     v \<leftarrow> TOP_RT_VALUE a;
     a \<leftarrow> write_env i v a;
     op_test lab a }"

section \<open>Instructions of one activation\<close>

fun exec_op :: "opcode \<Rightarrow> 'd activation \<Rightarrow> 'd op_result option" where
  "exec_op OP_POP a = do { (_, a) \<leftarrow> POP a; Some (Normal a) }"
| "exec_op OP_MAKE_EMPTY_LIST a = op_make_empty_list a"
| "exec_op OP_LIST_ADD_TAIL a = op_list_add_tail a"
| "exec_op OP_LIST_APPEND a = op_list_append a"
| "exec_op OP_INDEXSET a = op_indexset a"
| "exec_op OP_MAKE_SINGLETON_LIST a = op_make_singleton_list a"
| "exec_op OP_CHECK_LIST_FOR_SPLICE a = op_check_list_for_splice a"
| "exec_op OP_PUT_TEMP a = op_put_temp a"
| "exec_op OP_PUSH_TEMP a = op_push_temp a"
| "exec_op OP_EQ a = op_equality True a"
| "exec_op OP_NE a = op_equality False a"
| "exec_op OP_GT a = op_compare OP_GT a"
| "exec_op OP_LT a = op_compare OP_LT a"
| "exec_op OP_GE a = op_compare OP_GE a"
| "exec_op OP_LE a = op_compare OP_LE a"
| "exec_op OP_IN a = op_in a"
| "exec_op OP_MULT a = op_arith OP_MULT a"
| "exec_op OP_MINUS a = op_arith OP_MINUS a"
| "exec_op OP_DIV a = op_arith OP_DIV a"
| "exec_op OP_MOD a = op_arith OP_MOD a"
| "exec_op OP_ADD a = op_add a"
| "exec_op OP_NOT a = op_not a"
| "exec_op OP_UNARY_MINUS a = op_unary_minus a"
| "exec_op OP_REF a = op_ref a"
| "exec_op OP_PUSH_REF a = op_push_ref a"
| "exec_op OP_RANGE_REF a = op_range_ref a"
| "exec_op _ a = None"

text \<open>\<open>None\<close> also for the instructions that reach beyond the activation.\<close>

fun exec_local ::
  "(double \<Rightarrow> double \<Rightarrow> double \<times> bool) \<Rightarrow> bytecodes \<Rightarrow> instr \<Rightarrow> 'd activation \<Rightarrow> 'd op_result option" where
  "exec_local c_pow bc (I_op op) a = exec_op op a"
| "exec_local c_pow bc (I_branch op l) a = op_branch op l a"
| "exec_local c_pow bc (I_for op i l) a = (if op = OP_FOR_LIST then op_for_list i l a else op_for_range i l a)"
| "exec_local c_pow bc (I_imm slot) a = op_imm bc slot a"
| "exec_local c_pow bc (I_num n) a = pushed (VInt (word_of_int n)) a"
| "exec_local c_pow bc (I_push i) a = op_push i a"
| "exec_local c_pow bc (I_put i) a = op_put bc i a"
| "exec_local c_pow bc (I_gput i) a = op_gput i a"
| "exec_local c_pow bc E_rangeset a = op_rangeset a"
| "exec_local c_pow bc (E_length i) a = op_length i a"
| "exec_local c_pow bc E_exp a = op_exp c_pow a"
| "exec_local c_pow bc (E_scatter nargs nreq rest ts l) a = op_scatter nargs nreq rest ts l a"
| "exec_local c_pow bc (E_push_label l) a = op_push_label l a"
| "exec_local c_pow bc (E_try_finally l) a = op_try_finally l a"
| "exec_local c_pow bc E_catch a = op_catch 1 a"
| "exec_local c_pow bc (E_try_except n) a = op_catch n a"
| "exec_local c_pow bc (E_end_catch l) a = op_end_catch l a"
| "exec_local c_pow bc (E_end_except l) a = op_end_except l a"
| "exec_local c_pow bc E_end_finally a = op_end_finally a"
| "exec_local c_pow bc (E_while_id i l) a = op_while_id i l a"
| "exec_local c_pow bc _ a = None"

end
