(* ===== verification/CodeLayout.thy ===== *)
theory CodeLayout
  imports CodeGen Vm
begin

text \<open>
  From the generator's bytes and fixups to the finished vector: the position \<open>mu\<close> of an old position after
  the operands have grown, and what the decoder of the virtual machine reads there.  A label that was
  captured at an old position is moved to the new position of the same instruction.
\<close>

section \<open>Positions\<close>

definition growth :: "bytecodes \<Rightarrow> fixup \<Rightarrow> nat" where
  "growth bc f = fixup_size bc f - 1"

definition mu :: "bytecodes \<Rightarrow> fixup list \<Rightarrow> nat \<Rightarrow> nat" where
  "mu bc fs p = p + sum_list (map (growth bc) (filter (\<lambda>f. fx_pc f < p) fs))"

definition widths_ok :: "bytecodes \<Rightarrow> bool" where
  "widths_ok bc \<longleftrightarrow> {numbytes_label bc, numbytes_literal bc, numbytes_fork bc, numbytes_var_name bc,
     numbytes_stack bc} \<subseteq> {1, 2, 4}"

definition pcs_sorted :: "fixup list \<Rightarrow> bool" where
  "pcs_sorted fs \<longleftrightarrow> sorted_wrt (<) (map fx_pc fs)"

lemma fixup_size_cases: "widths_ok bc \<Longrightarrow> fixup_size bc f \<in> {1, 2, 4}"
  by (cases "fx_kind f") (auto simp: widths_ok_def fixup_size_def)

lemma length_operand_bytes: "sz \<in> {1, 2, 4} \<Longrightarrow> length (operand_bytes sz v) = sz"
  by (auto simp: operand_bytes_def)

lemma pcs_sorted_Cons: "pcs_sorted (f # fs) \<longleftrightarrow> (\<forall>g \<in> set fs. fx_pc f < fx_pc g) \<and> pcs_sorted fs"
  by (simp add: pcs_sorted_def)

lemma no_pcs_below: "\<forall>g \<in> set fs. p \<le> fx_pc g \<Longrightarrow> filter (\<lambda>f. fx_pc f < p) fs = []"
  by (auto simp: filter_empty_conv)

text \<open>The rest of the vector from a position on is the expansion of what is left there.\<close>

lemma drop_expand:
  assumes "widths_ok bc" "pcs_sorted fs" "\<forall>f \<in> set fs. i \<le> fx_pc f" "i \<le> p" "p \<le> i + length bs"
  shows "drop (p - i + sum_list (map (growth bc) (filter (\<lambda>f. fx_pc f < p) fs))) (expand bc fs i bs)
       = expand bc (dropWhile (\<lambda>f. fx_pc f < p) fs) p (drop (p - i) bs)
     \<and> p - i + sum_list (map (growth bc) (filter (\<lambda>f. fx_pc f < p) fs)) \<le> length (expand bc fs i bs)"
  using assms
proof (induction bc fs i bs rule: expand.induct)
  case (2 bc i b bs)
  then show ?case by (cases "p = i") (auto simp: Suc_diff_le le_Suc_eq drop_Cons' split: nat.splits)
next
  case (3 bc f fs i b bs)
  show ?case
  proof (cases "p = i")
    case True
    then have "filter (\<lambda>g. fx_pc g < p) (f # fs) = []" "dropWhile (\<lambda>g. fx_pc g < p) (f # fs) = f # fs"
      using 3(5) by (auto simp: filter_empty_conv)
    then show ?thesis using True by simp
  next
    case False
    then have p: "i + 1 \<le> p" "p \<le> i + 1 + length bs" "p - i = Suc (p - (i + 1))" using 3(6,7) by auto
    show ?thesis
    proof (cases "fx_pc f = i")
      case True
      have rest: "pcs_sorted fs" "\<forall>g \<in> set fs. i + 1 \<le> fx_pc g"
        using 3(4) True by (auto simp: pcs_sorted_Cons)
      have len: "length (operand_bytes (fixup_size bc f) (fixup_operand bc f)) = fixup_size bc f"
        "fixup_size bc f = Suc (growth bc f)"
        using fixup_size_cases [OF 3(3), of f] by (auto simp: length_operand_bytes growth_def)
      show ?thesis
        using 3(1) [OF True 3(3) rest p(1,2)] True p(1) len by (simp add: p(3) drop_append) linarith
    next
      case False
      then have lower: "\<forall>g \<in> set (f # fs). i + 1 \<le> fx_pc g"
        using 3(4,5) by (auto simp: pcs_sorted_Cons)
      show ?thesis using 3(2) [OF False 3(3,4) lower p(1,2)] False by (simp add: p(3))
    qed
  qed
qed auto

section \<open>A finished vector\<close>

definition laid_out :: "bytecodes \<Rightarrow> fixup list \<Rightarrow> byte list \<Rightarrow> bool" where
  "laid_out bc fs bs \<longleftrightarrow> widths_ok bc \<and> pcs_sorted fs \<and> (\<forall>f \<in> set fs. fx_pc f < length bs)
     \<and> bc_vector bc = expand bc fs 0 bs"

definition byte_at :: "fixup list \<Rightarrow> byte list \<Rightarrow> nat \<Rightarrow> nat \<Rightarrow> bool" where
  "byte_at fs bs p b \<longleftrightarrow> p < length bs \<and> bs ! p = word_of_nat b \<and> (\<forall>f \<in> set fs. fx_pc f \<noteq> p)"

lemma drop_vector:
  assumes "laid_out bc fs bs" "p \<le> length bs"
  shows "drop (mu bc fs p) (bc_vector bc) = expand bc (dropWhile (\<lambda>f. fx_pc f < p) fs) p (drop p bs)"
    and "mu bc fs p \<le> length (bc_vector bc)"
  using drop_expand [of bc fs 0 p bs] assms by (simp_all add: laid_out_def mu_def)

lemma mu_0 [simp]: "mu bc fs 0 = 0"
  by (simp add: mu_def)

lemma filter_pc_Suc:
  assumes "pcs_sorted fs"
  shows "sum_list (map (growth bc) (filter (\<lambda>f. fx_pc f < Suc p) fs))
       = sum_list (map (growth bc) (filter (\<lambda>f. fx_pc f < p) fs))
         + (case find (\<lambda>f. fx_pc f = p) fs of Some f \<Rightarrow> growth bc f | None \<Rightarrow> 0)"
  using assms
proof (induction fs)
  case (Cons f fs)
  consider "fx_pc f < p" | "fx_pc f = p" | "p < fx_pc f" by linarith
  then show ?case
  proof cases
    case 2
    then have "\<forall>g \<in> set fs. Suc p \<le> fx_pc g" "\<forall>g \<in> set fs. p \<le> fx_pc g"
      using Cons.prems by (auto simp: pcs_sorted_Cons)
    then show ?thesis using 2 by (simp add: no_pcs_below)
  qed (use Cons in \<open>auto simp: pcs_sorted_Cons\<close>)
qed simp

lemma mu_byte: "laid_out bc fs bs \<Longrightarrow> byte_at fs bs p b \<Longrightarrow> mu bc fs (Suc p) = Suc (mu bc fs p)"
  using filter_pc_Suc [of fs bc p]
  by (simp add: mu_def laid_out_def byte_at_def find_None_iff [THEN iffD2])

lemma find_pc: "pcs_sorted fs \<Longrightarrow> f \<in> set fs \<Longrightarrow> find (\<lambda>g. fx_pc g = fx_pc f) fs = Some f"
  by (induction fs) (auto simp: pcs_sorted_Cons)

lemma mu_fixup:
  assumes "laid_out bc fs bs" "f \<in> set fs"
  shows "mu bc fs (Suc (fx_pc f)) = mu bc fs (fx_pc f) + fixup_size bc f"
proof -
  have "fixup_size bc f = Suc (growth bc f)"
    using fixup_size_cases [of bc f] assms by (auto simp: growth_def laid_out_def)
  then show ?thesis
    using filter_pc_Suc [of fs bc "fx_pc f"] find_pc [of fs f] assms by (simp add: mu_def laid_out_def)
qed

lemma dropWhile_at:
  "pcs_sorted fs \<Longrightarrow> f \<in> set fs \<Longrightarrow> \<exists>gs. dropWhile (\<lambda>g. fx_pc g < fx_pc f) fs = f # gs"
  by (induction fs) (auto simp: pcs_sorted_Cons)

lemma dropWhile_pc_Suc:
  assumes "pcs_sorted fs" "\<forall>f \<in> set fs. fx_pc f \<noteq> p"
  shows "dropWhile (\<lambda>f. fx_pc f < Suc p) fs = dropWhile (\<lambda>f. fx_pc f < p) fs"
proof -
  have "(fx_pc f < Suc p) = (fx_pc f < p)" if "f \<in> set fs" for f
    using assms(2) that by (auto simp: less_Suc_eq)
  then show ?thesis by (intro dropWhile_cong) auto
qed

lemma expand_no_fixup:
  "\<forall>f \<in> set fs. fx_pc f \<noteq> i \<Longrightarrow> expand bc fs i (b # bs) = b # expand bc fs (i + 1) bs"
  by (cases fs) auto

lemma vector_byte:
  assumes l: "laid_out bc fs bs" and b: "byte_at fs bs p b"
  shows "mu bc fs p < length (bc_vector bc)" "bc_vector bc ! mu bc fs p = word_of_nat b"
proof -
  have p: "p < length bs" "bs ! p = word_of_nat b" and no: "\<forall>f \<in> set fs. fx_pc f \<noteq> p"
    using b by (auto simp: byte_at_def)
  obtain rest where "drop p bs = word_of_nat b # rest" using p by (simp flip: Cons_nth_drop_Suc)
  moreover have "\<forall>f \<in> set (dropWhile (\<lambda>f. fx_pc f < p) fs). fx_pc f \<noteq> p"
    using no by (auto dest: set_dropWhileD)
  ultimately have "\<exists>rest. drop (mu bc fs p) (bc_vector bc) = word_of_nat b # rest"
    using drop_vector(1) [OF l, of p] p(1) by (simp add: expand_no_fixup)
  then show "mu bc fs p < length (bc_vector bc)" "bc_vector bc ! mu bc fs p = word_of_nat b"
    by (auto simp: not_less [symmetric] dest: arg_cong [where f = length])
      (metis drop_eq_Nil hd_drop_conv_nth linorder_not_le list.distinct(1) list.sel(1))
qed

section \<open>Reading operands\<close>

lemma bytes_value_operand:
  assumes "sz \<in> {1, 2, 4}" "v < 256 ^ sz"
  shows "bytes_value (operand_bytes sz v) = v"
proof -
  have m: "unat (word_of_nat n :: byte) = n mod 256" for n by (simp add: unat_of_nat)
  have two: "a div 256 mod 256 * 256 + a mod 256 = a" if "a < 65536" for a :: nat
  proof -
    have "a div 256 mod 256 = a div 256" using that by simp
    then show ?thesis by simp
  qed
  consider "sz = 1" | "sz = 2" | "sz = 4" using assms(1) by auto
  then show ?thesis
  proof cases
    case 3
    then have v: "v < 4294967296" using assms(2) by simp
    let ?a = "v div 65536" and ?b = "v div 256"
    have "v div 16777216 = ?a div 256" "?b div 256 = ?a" by (simp_all add: div_mult2_eq [symmetric])
    moreover have "?a div 256 mod 256 * 256 + ?a mod 256 = ?a" using v by (intro two) simp
    ultimately have "((v div 16777216 mod 256 * 256 + ?a mod 256) * 256 + ?b mod 256) * 256 + v mod 256 = v"
      by (metis div_mult_mod_eq)
    moreover have "v div 16777216 mod 256 = v div 16777216" using v by simp
    ultimately show ?thesis using 3 by (simp add: operand_bytes_def m)
  qed (use assms(2) two [of v] in \<open>simp_all add: operand_bytes_def m\<close>)
qed

lemma READ_BYTES_drop:
  assumes "drop pos v = xs @ drop pos' v" "length xs = nb" "pos' = pos + nb" "pos' \<le> length v"
  shows "READ_BYTES v pos nb = Some (bytes_value xs, pos')"
  using assms by (simp add: READ_BYTES_def)

lemma read_byte:
  assumes l: "laid_out bc fs bs" and b: "byte_at fs bs p b" and small: "b < 256"
  shows "READ_BYTES (bc_vector bc) (mu bc fs p) (Suc 0) = Some (b, mu bc fs (Suc p))"
proof (rule READ_BYTES_drop [where xs = "[word_of_nat b]", THEN trans])
  show "drop (mu bc fs p) (bc_vector bc) = [word_of_nat b] @ drop (mu bc fs (Suc p)) (bc_vector bc)"
    using vector_byte [OF l b] mu_byte [OF l b] by (metis Cons_nth_drop_Suc append_Cons append_Nil)
  show "mu bc fs (Suc p) \<le> length (bc_vector bc)"
    using vector_byte(1) [OF l b] mu_byte [OF l b] by simp
  have "b mod 256 = b" using small by simp
  then show "Some (bytes_value [word_of_nat b], mu bc fs (Suc p)) = Some (b, mu bc fs (Suc p))"
    by (simp add: unat_of_nat)
qed (simp_all add: mu_byte [OF l b])

lemma read_fixup:
  assumes l: "laid_out bc fs bs" and f: "f \<in> set fs" "fx_pc f = p"
    and fits: "fixup_operand bc f < 256 ^ fixup_size bc f"
  shows "READ_BYTES (bc_vector bc) (mu bc fs p) (fixup_size bc f) = Some (fixup_operand bc f, mu bc fs (Suc p))"
proof (rule READ_BYTES_drop [where xs = "operand_bytes (fixup_size bc f) (fixup_operand bc f)", THEN trans])
  have w: "fixup_size bc f \<in> {1, 2, 4}" using l fixup_size_cases by (simp add: laid_out_def)
  have p: "p < length bs" and sorted: "pcs_sorted fs" using l f by (auto simp: laid_out_def)
  obtain gs where gs: "dropWhile (\<lambda>g. fx_pc g < p) fs = f # gs"
    using dropWhile_at [OF sorted f(1)] f(2) by auto
  have "f # gs = dropWhile (\<lambda>g. fx_pc g < p) fs" by (simp add: gs)
  then have gs_sorted: "pcs_sorted (f # gs)"
    using sorted unfolding pcs_sorted_def by (metis sorted_wrt_drop drop_map dropWhile_eq_drop)
  have gs': "dropWhile (\<lambda>g. fx_pc g < Suc p) fs = gs"
  proof -
    have "dropWhile (\<lambda>g. fx_pc g < Suc p) fs = dropWhile (\<lambda>g. fx_pc g < Suc p) (dropWhile (\<lambda>g. fx_pc g < p) fs)"
      by (induction fs) auto
    also have "\<dots> = dropWhile (\<lambda>g. fx_pc g < Suc p) gs" by (simp add: gs f(2))
    also have "\<dots> = gs" using gs_sorted f(2) by (cases gs) (auto simp: pcs_sorted_Cons)
    finally show ?thesis .
  qed
  have "drop (mu bc fs p) (bc_vector bc)
      = operand_bytes (fixup_size bc f) (fixup_operand bc f) @ expand bc gs (Suc p) (drop (Suc p) bs)"
    using drop_vector(1) [OF l, of p] p gs f(2) by (simp flip: Cons_nth_drop_Suc)
  then show "drop (mu bc fs p) (bc_vector bc) = operand_bytes (fixup_size bc f) (fixup_operand bc f)
      @ drop (mu bc fs (Suc p)) (bc_vector bc)"
    using drop_vector(1) [OF l, of "Suc p"] p gs' by simp
  show "length (operand_bytes (fixup_size bc f) (fixup_operand bc f)) = fixup_size bc f"
    using w by (rule length_operand_bytes)
  show "mu bc fs (Suc p) = mu bc fs p + fixup_size bc f" using mu_fixup [OF l f(1)] f(2) by simp
  show "mu bc fs (Suc p) \<le> length (bc_vector bc)" using drop_vector(2) [OF l, of "Suc p"] p by simp
  show "Some (bytes_value (operand_bytes (fixup_size bc f) (fixup_operand bc f)), mu bc fs (Suc p))
      = Some (fixup_operand bc f, mu bc fs (Suc p))"
    by (simp only: bytes_value_operand [OF w fits])
qed

text \<open>The operand of the given kind at an old position.\<close>

definition operand_at :: "bytecodes \<Rightarrow> fixup list \<Rightarrow> nat \<Rightarrow> fixup_kind \<Rightarrow> nat \<Rightarrow> bool" where
  "operand_at bc fs p k v \<longleftrightarrow> (\<exists>f \<in> set fs. fx_pc f = p \<and> fx_kind f = k \<and> fixup_operand bc f = v
     \<and> v < 256 ^ fixup_size bc f)"

lemma read_operand:
  assumes "laid_out bc fs bs" "operand_at bc fs p k v"
  shows "k = FIXUP_LABEL \<Longrightarrow> READ_BYTES (bc_vector bc) (mu bc fs p) (numbytes_label bc) = Some (v, mu bc fs (Suc p))"
    "k = FIXUP_LITERAL \<Longrightarrow> READ_BYTES (bc_vector bc) (mu bc fs p) (numbytes_literal bc) = Some (v, mu bc fs (Suc p))"
    "k = FIXUP_FORK \<Longrightarrow> READ_BYTES (bc_vector bc) (mu bc fs p) (numbytes_fork bc) = Some (v, mu bc fs (Suc p))"
    "k = FIXUP_VAR_REF \<Longrightarrow> READ_BYTES (bc_vector bc) (mu bc fs p) (numbytes_var_name bc) = Some (v, mu bc fs (Suc p))"
    "k = FIXUP_STACK \<Longrightarrow> READ_BYTES (bc_vector bc) (mu bc fs p) (numbytes_stack bc) = Some (v, mu bc fs (Suc p))"
  using assms read_fixup [OF assms(1)] by (fastforce simp: operand_at_def fixup_size_def)+

section \<open>Decoding at old positions\<close>

lemma lookup_opcode_num: "lookup_opcode (opcode_num op) ops = (if op \<in> set ops then Some op else None)"
  by (induction ops) auto

lemma lookup_opcode_None: "(\<forall>op \<in> set ops. opcode_num op \<noteq> b) \<Longrightarrow> lookup_opcode b ops = None"
  by (induction ops) auto

lemma opcode_num_byte: "opcode_num op < 256"
  by (cases op) simp_all

lemma extended_opcode_num_byte: "extended_opcode_num op < 256"
  by (cases op) simp_all

lemma extended_opcode_num_inj [simp]: "extended_opcode_num a = extended_opcode_num b \<longleftrightarrow> a = b"
  by (cases a; cases b) simp_all

definition instr_at :: "bytecodes \<Rightarrow> fixup list \<Rightarrow> nat \<Rightarrow> instr \<Rightarrow> nat \<Rightarrow> bool" where
  "instr_at bc fs p i p' \<longleftrightarrow> decode bc (mu bc fs p) = Some (i, mu bc fs p')"

lemma decode_byte:
  "laid_out bc fs bs \<Longrightarrow> byte_at fs bs p b \<Longrightarrow> b < 256
     \<Longrightarrow> decode bc (mu bc fs p) = decode_op bc b (mu bc fs (Suc p))"
  by (simp add: decode_def read_byte)

lemma decode_opcode:
  "laid_out bc fs bs \<Longrightarrow> byte_at fs bs p (opcode_num op)
     \<Longrightarrow> decode bc (mu bc fs p) = decode_op bc (opcode_num op) (mu bc fs (Suc p))"
  by (simp add: decode_byte opcode_num_byte)

lemma at_simple:
  assumes "laid_out bc fs bs" "byte_at fs bs p (opcode_num op)" "op \<in> set simple_opcodes"
  shows "instr_at bc fs p (I_op op) (Suc p)"
  using assms(3) decode_opcode [OF assms(1,2)] by (simp add: instr_at_def decode_op_def lookup_opcode_num)

lemma branch_not_simple: "op \<in> set branch_opcodes \<Longrightarrow> op \<notin> set simple_opcodes"
  by (auto simp: branch_opcodes_def simple_opcodes_def)

lemma at_branch:
  assumes "laid_out bc fs bs" "byte_at fs bs p (opcode_num op)" "op \<in> set branch_opcodes"
    and "operand_at bc fs (Suc p) FIXUP_LABEL l"
  shows "instr_at bc fs p (I_branch op l) (p + 2)"
  using assms(3) read_operand(1) [OF assms(1,4)] branch_not_simple [of op] decode_opcode [OF assms(1,2)]
  by (simp add: instr_at_def decode_op_def lookup_opcode_num)

lemma at_for:
  assumes "laid_out bc fs bs" "byte_at fs bs p (opcode_num op)" "op = OP_FOR_LIST \<or> op = OP_FOR_RANGE"
    and "operand_at bc fs (Suc p) FIXUP_VAR_REF i" "operand_at bc fs (Suc (Suc p)) FIXUP_LABEL l"
  shows "instr_at bc fs p (I_for op i l) (p + 3)"
proof -
  have "op \<notin> set simple_opcodes" "op \<notin> set branch_opcodes"
    using assms(3) by (auto simp: branch_opcodes_def simple_opcodes_def)
  then show ?thesis
    using assms(3) read_operand(1) [OF assms(1,5)] read_operand(4) [OF assms(1,4)] decode_opcode [OF assms(1,2)]
    by (elim disjE) (simp_all add: instr_at_def decode_op_def lookup_opcode_num numeral_3_eq_3 del: opcode_num.simps)
qed

lemmas opcode_lists = branch_opcodes_def simple_opcodes_def NUM_READY_VARS_def

lemma at_imm:
  assumes "laid_out bc fs bs" "byte_at fs bs p (opcode_num OP_IMM)" "operand_at bc fs (Suc p) FIXUP_LITERAL i"
  shows "instr_at bc fs p (I_imm i) (p + 2)"
  using read_operand(2) [OF assms(1,3)] decode_opcode [OF assms(1,2)]
  by (simp add: instr_at_def decode_op_def opcode_lists)

lemma at_num:
  assumes l: "laid_out bc fs bs" "byte_at fs bs p (OPTIM_NUM_TO_OPCODE i)" and i: "IN_OPTIM_NUM_RANGE i"
  shows "instr_at bc fs p (I_num i) (Suc p)"
proof -
  let ?b = "OPTIM_NUM_TO_OPCODE i"
  have b: "113 \<le> ?b" "?b < 256"
    using optim_num_roundtrip(2) [OF i] by (auto simp: IS_OPTIM_NUM_OPCODE_def OPTIM_NUM_START_def Last_Opcode_def)
  have ops: "opcode_num op < 113" for op by (cases op) simp_all
  have no: "opcode_num op \<noteq> ?b" "?b \<noteq> opcode_num op" for op using b ops by (metis linorder_not_le)+
  show ?thesis
    using b optim_num_roundtrip [OF i] decode_byte [OF l b(2)]
    by (simp add: instr_at_def decode_op_def lookup_opcode_None no IS_PUSH_n_def IS_PUT_n_def
        del: opcode_num.simps) (simp add: not_less)
qed

lemma at_push:
  assumes "laid_out bc fs bs" "byte_at fs bs p (opcode_num OP_PUSH + i)" "i < NUM_READY_VARS"
  shows "instr_at bc fs p (I_push i) (Suc p)"
  using assms(3) decode_byte [OF assms(1,2)]
  by (simp add: instr_at_def decode_op_def opcode_lists IS_PUSH_n_def PUSH_n_INDEX_def)

lemma at_put:
  assumes "laid_out bc fs bs" "byte_at fs bs p (opcode_num OP_PUT + i)" "i < NUM_READY_VARS"
  shows "instr_at bc fs p (I_put i) (Suc p)"
  using assms(3) decode_byte [OF assms(1,2)]
  by (simp add: instr_at_def decode_op_def opcode_lists IS_PUSH_n_def IS_PUT_n_def PUT_n_INDEX_def)

lemma at_gpush:
  assumes "laid_out bc fs bs" "byte_at fs bs p (opcode_num OP_PUSH + NUM_READY_VARS)"
    and "operand_at bc fs (Suc p) FIXUP_VAR_REF i"
  shows "instr_at bc fs p (I_push i) (p + 2)"
  using read_operand(4) [OF assms(1,3)] decode_byte [OF assms(1,2)]
  by (simp add: instr_at_def decode_op_def opcode_lists)

lemma at_gput:
  assumes "laid_out bc fs bs" "byte_at fs bs p (opcode_num OP_PUT + NUM_READY_VARS)"
    and "operand_at bc fs (Suc p) FIXUP_VAR_REF i"
  shows "instr_at bc fs p (I_gput i) (p + 2)"
  using read_operand(4) [OF assms(1,3)] decode_byte [OF assms(1,2)]
  by (simp add: instr_at_def decode_op_def opcode_lists)

lemma at_call:
  assumes "laid_out bc fs bs" "byte_at fs bs p (opcode_num OP_BI_FUNC_CALL)" "byte_at fs bs (Suc p) f" "f < 256"
  shows "instr_at bc fs p (I_call f) (p + 2)"
  using read_byte [OF assms(1,3,4)] decode_opcode [OF assms(1,2)]
  by (simp add: instr_at_def decode_op_def opcode_lists)

text \<open>Extended opcodes.\<close>

definition eop_at :: "fixup list \<Rightarrow> byte list \<Rightarrow> nat \<Rightarrow> extended_opcode \<Rightarrow> bool" where
  "eop_at fs bs p eop \<longleftrightarrow> byte_at fs bs p (opcode_num OP_EXTENDED) \<and> byte_at fs bs (Suc p) (extended_opcode_num eop)"

lemma decode_eop:
  assumes "laid_out bc fs bs" "eop_at fs bs p eop"
  shows "decode bc (mu bc fs p) = decode_extended bc (extended_opcode_num eop) (mu bc fs (p + 2))"
  using assms(2) read_byte [OF assms(1), of "Suc p" "extended_opcode_num eop"] decode_opcode [OF assms(1), of p OP_EXTENDED]
  by (simp add: eop_at_def decode_op_def opcode_lists extended_opcode_num_byte)

lemma at_eop:
  assumes "laid_out bc fs bs" "eop_at fs bs p eop"
  shows "eop = EOP_RANGESET \<Longrightarrow> instr_at bc fs p E_rangeset (p + 2)"
    and "eop = EOP_EXP \<Longrightarrow> instr_at bc fs p E_exp (p + 2)"
    and "eop = EOP_CATCH \<Longrightarrow> instr_at bc fs p E_catch (p + 2)"
    and "eop = EOP_END_FINALLY \<Longrightarrow> instr_at bc fs p E_end_finally (p + 2)"
    and "eop = EOP_CONTINUE \<Longrightarrow> instr_at bc fs p E_continue (p + 2)"
  using decode_eop [OF assms] by (simp_all add: instr_at_def decode_extended_def del: extended_opcode_num.simps)

lemma at_eop_label:
  assumes "laid_out bc fs bs" "eop_at fs bs p eop" "operand_at bc fs (p + 2) FIXUP_LABEL l"
  shows "eop = EOP_PUSH_LABEL \<Longrightarrow> instr_at bc fs p (E_push_label l) (p + 3)"
    and "eop = EOP_TRY_FINALLY \<Longrightarrow> instr_at bc fs p (E_try_finally l) (p + 3)"
    and "eop = EOP_END_CATCH \<Longrightarrow> instr_at bc fs p (E_end_catch l) (p + 3)"
    and "eop = EOP_END_EXCEPT \<Longrightarrow> instr_at bc fs p (E_end_except l) (p + 3)"
  using decode_eop [OF assms(1,2)] read_operand(1) [OF assms(1,3)]
  by (simp_all add: instr_at_def decode_extended_def numeral_3_eq_3 del: extended_opcode_num.simps)

lemma at_length:
  assumes "laid_out bc fs bs" "eop_at fs bs p EOP_LENGTH" "operand_at bc fs (p + 2) FIXUP_STACK i"
  shows "instr_at bc fs p (E_length i) (p + 3)"
  using decode_eop [OF assms(1,2)] read_operand(5) [OF assms(1,3)]
  by (simp add: instr_at_def decode_extended_def numeral_3_eq_3 del: extended_opcode_num.simps)

lemma at_try_except:
  assumes "laid_out bc fs bs" "eop_at fs bs p EOP_TRY_EXCEPT" "byte_at fs bs (p + 2) n" "n < 256"
  shows "instr_at bc fs p (E_try_except n) (p + 3)"
  using decode_eop [OF assms(1,2)] read_byte [OF assms(1,3,4)]
  by (simp add: instr_at_def decode_extended_def numeral_3_eq_3 del: extended_opcode_num.simps)

lemma at_while_id:
  assumes "laid_out bc fs bs" "eop_at fs bs p EOP_WHILE_ID" "operand_at bc fs (p + 2) FIXUP_VAR_REF i"
    and "operand_at bc fs (p + 3) FIXUP_LABEL l"
  shows "instr_at bc fs p (E_while_id i l) (p + 4)"
  using decode_eop [OF assms(1,2)] read_operand(4) [OF assms(1,3)] read_operand(1) [OF assms(1,4)]
  by (simp add: instr_at_def decode_extended_def eval_nat_numeral del: extended_opcode_num.simps)

text \<open>The operands of a scattering assignment: a slot and a label each.\<close>

fun scatter_at :: "bytecodes \<Rightarrow> fixup list \<Rightarrow> nat \<Rightarrow> (nat \<times> nat) list \<Rightarrow> bool" where
  "scatter_at bc fs p [] = True"
| "scatter_at bc fs p ((i, l) # ts) \<longleftrightarrow> operand_at bc fs p FIXUP_VAR_REF i
     \<and> operand_at bc fs (Suc p) FIXUP_LABEL l \<and> scatter_at bc fs (p + 2) ts"

lemma read_scatter_at:
  assumes l: "laid_out bc fs bs" and ts: "scatter_at bc fs p ts"
  shows "read_scatter bc (length ts) (mu bc fs p) = Some (ts, mu bc fs (p + 2 * length ts))"
  using ts
proof (induction ts arbitrary: p)
  case (Cons t ts)
  obtain i lab where t: "t = (i, lab)" by (cases t)
  have ops: "operand_at bc fs p FIXUP_VAR_REF i" "operand_at bc fs (Suc p) FIXUP_LABEL lab"
    and rest: "scatter_at bc fs (p + 2) ts" using Cons.prems t by auto
  show ?case
    using read_operand(4) [OF l ops(1)] read_operand(1) [OF l ops(2)] Cons.IH [OF rest]
    by (simp add: t)
qed simp

lemma at_scatter:
  assumes l: "laid_out bc fs bs" and e: "eop_at fs bs p EOP_SCATTER"
    and b: "byte_at fs bs (p + 2) nargs" "byte_at fs bs (p + 3) nreq" "byte_at fs bs (p + 4) rest"
    and n: "nargs < 256" "nreq < 256" "rest < 256"
    and ts: "scatter_at bc fs (p + 5) ts" "length ts = nargs"
    and d: "operand_at bc fs (p + 5 + 2 * nargs) FIXUP_LABEL lab"
  shows "instr_at bc fs p (E_scatter nargs nreq rest ts lab) (p + 6 + 2 * nargs)"
proof -
  have "p + 5 + 2 * length ts = p + 5 + 2 * nargs" "p + 6 + 2 * nargs = Suc (p + 5 + 2 * nargs)"
    using ts(2) by simp_all
  then show ?thesis
    using decode_eop [OF l e] read_byte [OF l b(1) n(1)] read_byte [OF l b(2) n(2)] read_byte [OF l b(3) n(3)]
      read_scatter_at [OF l ts(1)] read_operand(1) [OF l d] ts(2)
    by (simp add: instr_at_def decode_extended_def eval_nat_numeral del: extended_opcode_num.simps)
qed

end
