(* ===== verification/CodeFrame.thy ===== *)
theory CodeFrame
  imports CodeLayout
begin

text \<open>
  What the emitting operations of the generator preserve: the invariant of its state, and the frame of what
  was generated before.  A label that waits for its definition is an index in a set of pending labels; every
  other label carries the counts of the operands before its target.
\<close>

section \<open>The invariant of the generator\<close>

definition count_kind :: "fixup_kind \<Rightarrow> fixup list \<Rightarrow> nat" where
  "count_kind k fs = length (filter (\<lambda>f. fx_kind f = k) fs)"

definition count_below :: "fixup_kind \<Rightarrow> nat \<Rightarrow> fixup list \<Rightarrow> nat" where
  "count_below k q fs = length (filter (\<lambda>f. fx_kind f = k \<and> fx_pc f < q) fs)"

text \<open>The literals of a program: what the parser makes is not a negative float.\<close>

definition wf_literal :: "var \<Rightarrow> bool" where
  "wf_literal v \<longleftrightarrow> user_value v \<and> (case v of VFloat d \<Rightarrow> \<not> dbl_sign d | _ \<Rightarrow> no_floats v)"

definition operand_ok :: "cg_state \<Rightarrow> fixup \<Rightarrow> bool" where
  "operand_ok s f \<longleftrightarrow> (case fx_kind f of
     FIXUP_LITERAL \<Rightarrow> fx_value f \<le> max_literal s \<and> fx_value f < length (g_literals (gst s))
   | FIXUP_FORK \<Rightarrow> fx_value f \<le> max_fork s \<and> fx_value f < length (g_fork_vectors (gst s))
   | FIXUP_VAR_REF \<Rightarrow> fx_value f \<le> max_var_ref s
   | FIXUP_STACK \<Rightarrow> fx_value f < max_stack s
   | FIXUP_LABEL \<Rightarrow> True)"

definition wf_cg :: "cg_state \<Rightarrow> bool" where
  "wf_cg s \<longleftrightarrow> pcs_sorted (fixups s) \<and> (\<forall>f \<in> set (fixups s). fx_pc f < num_bytes s \<and> operand_ok s f)
     \<and> num_literals s = count_kind FIXUP_LITERAL (fixups s) \<and> num_forks s = count_kind FIXUP_FORK (fixups s)
     \<and> num_var_refs s = count_kind FIXUP_VAR_REF (fixups s) \<and> num_labels s = count_kind FIXUP_LABEL (fixups s)
     \<and> num_stacks s = 0 \<and> cur_stack s \<le> max_stack s
     \<and> (\<forall>i. saved_stack s = Some i \<longrightarrow> i < max_stack s) \<and> (\<forall>v \<in> set (g_literals (gst s)). wf_literal v)"

text \<open>A label with a target, or one of the marks of a scattering assignment.\<close>

definition targets :: "fixup list \<Rightarrow> fixup \<Rightarrow> nat \<Rightarrow> bool" where
  "targets fs f q \<longleftrightarrow> fx_value f = q \<and> prev_literals f = count_below FIXUP_LITERAL q fs
     \<and> prev_forks f = count_below FIXUP_FORK q fs \<and> prev_var_refs f = count_below FIXUP_VAR_REF q fs
     \<and> prev_labels f = count_below FIXUP_LABEL q fs"

definition pseudo_label :: "fixup \<Rightarrow> bool" where
  "pseudo_label f \<longleftrightarrow> fx_value f < 2 \<and> prev_literals f = 0 \<and> prev_forks f = 0 \<and> prev_var_refs f = 0
     \<and> prev_labels f = 0 \<and> prev_stacks f = 0"

definition good_label :: "cg_state \<Rightarrow> fixup \<Rightarrow> bool" where
  "good_label s f \<longleftrightarrow> pseudo_label f \<or> fx_value f \<le> num_bytes s \<and> targets (fixups s) f (fx_value f)"

section \<open>Frames\<close>

text \<open>The shape of the fixups that later operations keep.\<close>

definition skeleton :: "fixup list \<Rightarrow> (fixup_kind \<times> nat) list" where
  "skeleton fs = map (\<lambda>f. (fx_kind f, fx_pc f)) fs"

definition later :: "cg_state \<Rightarrow> cg_state \<Rightarrow> bool" where
  "later s s' \<longleftrightarrow> (\<exists>bs. cg_bytes s' = cg_bytes s @ bs)
     \<and> (\<exists>gs. skeleton (fixups s') = skeleton (fixups s) @ skeleton gs \<and> (\<forall>g \<in> set gs. num_bytes s \<le> fx_pc g))
     \<and> (\<exists>ls. g_literals (gst s') = g_literals (gst s) @ ls)
     \<and> (\<exists>vs. g_fork_vectors (gst s') = g_fork_vectors (gst s) @ vs)
     \<and> max_stack s \<le> max_stack s' \<and> max_literal s \<le> max_literal s' \<and> max_fork s \<le> max_fork s'
     \<and> max_var_ref s \<le> max_var_ref s' \<and> total_var_refs (gst s) \<le> total_var_refs (gst s')"

definition keeps :: "cg_state \<Rightarrow> cg_state \<Rightarrow> bool" where
  "keeps s s' \<longleftrightarrow> take (length (fixups s)) (fixups s') = fixups s \<and> saved_stack s' = saved_stack s
     \<and> loops s' = loops s"

text \<open>\<open>X\<close> are the labels that have been added since \<open>s0\<close> and are not yet defined.\<close>

definition gen :: "nat set \<Rightarrow> cg_state \<Rightarrow> cg_state \<Rightarrow> bool" where
  "gen X s0 s \<longleftrightarrow> wf_cg s \<and> later s0 s \<and> keeps s0 s
     \<and> (\<forall>i \<in> X. length (fixups s0) \<le> i \<and> i < length (fixups s) \<and> fx_kind (fixups s ! i) = FIXUP_LABEL
          \<and> fx_next (fixups s ! i) = -1)
     \<and> (\<forall>i. length (fixups s0) \<le> i \<and> i < length (fixups s) \<and> i \<notin> X \<and> fx_kind (fixups s ! i) = FIXUP_LABEL
          \<longrightarrow> good_label s (fixups s ! i))"

lemma skeleton_simps [simp]:
  "skeleton [] = []" "skeleton (f # fs) = (fx_kind f, fx_pc f) # skeleton fs"
  "skeleton (fs @ gs) = skeleton fs @ skeleton gs" "length (skeleton fs) = length fs"
  by (simp_all add: skeleton_def)

lemma skeleton_update [simp]:
  "fx_kind f = fx_kind (fs ! i) \<Longrightarrow> fx_pc f = fx_pc (fs ! i) \<Longrightarrow> skeleton (fs[i := f]) = skeleton fs"
  by (cases "i < length fs") (auto simp: skeleton_def map_update list_update_same_conv list_update_beyond)

lemma count_kind_skeleton: "count_kind k fs = length (filter (\<lambda>(k', _). k' = k) (skeleton fs))"
  by (simp add: count_kind_def skeleton_def filter_map o_def)

lemma count_below_skeleton: "count_below k q fs = length (filter (\<lambda>(k', pc). k' = k \<and> pc < q) (skeleton fs))"
  by (simp add: count_below_def skeleton_def filter_map o_def)

lemma pcs_sorted_skeleton: "pcs_sorted fs = sorted_wrt (<) (map snd (skeleton fs))"
  by (simp add: pcs_sorted_def skeleton_def o_def)

lemma set_pcs_skeleton: "(\<forall>f \<in> set fs. P (fx_pc f)) \<longleftrightarrow> (\<forall>x \<in> set (skeleton fs). P (snd x))"
  by (simp add: skeleton_def)

lemma count_below_all: "\<forall>f \<in> set fs. fx_pc f < q \<Longrightarrow> count_below k q fs = count_kind k fs"
  unfolding count_below_def count_kind_def by (metis (mono_tags, lifting) filter_cong)

lemma count_below_later:
  assumes "later s s'" "q \<le> num_bytes s"
  shows "count_below k q (fixups s') = count_below k q (fixups s)"
proof -
  obtain gs where gs: "skeleton (fixups s') = skeleton (fixups s) @ skeleton gs" "\<forall>g \<in> set gs. num_bytes s \<le> fx_pc g"
    using assms(1) by (auto simp: later_def)
  have "filter (\<lambda>(k', pc). k' = k \<and> pc < q) (skeleton gs) = []"
    using gs(2) assms(2) by (auto simp: filter_empty_conv skeleton_def)
  then show ?thesis by (simp add: count_below_skeleton gs(1))
qed

lemma later_refl [simp]: "later s s"
  by (auto simp: later_def intro: exI [of _ "[]"])

lemma later_length: "later s s' \<Longrightarrow> length (fixups s) \<le> length (fixups s')"
  by (auto simp: later_def dest: arg_cong [where f = length])

lemma later_num_bytes: "later s s' \<Longrightarrow> num_bytes s \<le> num_bytes s'"
  by (auto simp: later_def num_bytes_def)

lemma later_trans:
  assumes "later a b" "later b c"
  shows "later a c"
proof -
  obtain gs where gs: "skeleton (fixups b) = skeleton (fixups a) @ skeleton gs" "\<forall>g \<in> set gs. num_bytes a \<le> fx_pc g"
    using assms(1) by (auto simp: later_def)
  obtain hs where hs: "skeleton (fixups c) = skeleton (fixups b) @ skeleton hs" "\<forall>g \<in> set hs. num_bytes b \<le> fx_pc g"
    using assms(2) by (auto simp: later_def)
  have "num_bytes a \<le> num_bytes b" using assms(1) by (rule later_num_bytes)
  then have "skeleton (fixups c) = skeleton (fixups a) @ skeleton (gs @ hs) \<and> (\<forall>g \<in> set (gs @ hs). num_bytes a \<le> fx_pc g)"
    using gs hs by auto
  moreover have "\<exists>bs. cg_bytes c = cg_bytes a @ bs" "\<exists>ls. g_literals (gst c) = g_literals (gst a) @ ls"
    "\<exists>vs. g_fork_vectors (gst c) = g_fork_vectors (gst a) @ vs"
    using assms unfolding later_def by force+
  moreover have "max_stack a \<le> max_stack c" "max_literal a \<le> max_literal c" "max_fork a \<le> max_fork c"
    "max_var_ref a \<le> max_var_ref c" "total_var_refs (gst a) \<le> total_var_refs (gst c)"
    using assms unfolding later_def by simp_all
  ultimately show ?thesis unfolding later_def by blast
qed

lemma good_label_later: "later s s' \<Longrightarrow> good_label s f \<Longrightarrow> good_label s' f"
  using later_num_bytes [of s s'] by (auto simp: good_label_def targets_def count_below_later)

lemma keeps_refl [simp]: "keeps s s"
  by (simp add: keeps_def)

lemma keeps_trans: "keeps a b \<Longrightarrow> keeps b c \<Longrightarrow> keeps a c"
  unfolding keeps_def by (metis length_take min.absorb_iff1 min.commute take_take nat_le_linear min_def take_all)

lemma keeps_nth: "keeps s s' \<Longrightarrow> i < length (fixups s) \<Longrightarrow> fixups s' ! i = fixups s ! i"
  unfolding keeps_def by (metis nth_take)

lemma gen_refl: "wf_cg s \<Longrightarrow> gen {} s s"
  by (auto simp: gen_def)

lemma gen_trans:
  assumes "gen X a b" "gen Y b c"
  shows "gen (X \<union> Y) a c"
proof -
  have l: "later a b" "later b c" and k: "keeps a b" "keeps b c" using assms by (auto simp: gen_def)
  have len: "length (fixups a) \<le> length (fixups b)" "length (fixups b) \<le> length (fixups c)"
    using l later_length by blast+
  have "good_label c (fixups c ! i)"
    if "length (fixups a) \<le> i" "i < length (fixups c)" "i \<notin> X \<union> Y" "fx_kind (fixups c ! i) = FIXUP_LABEL" for i
  proof (cases "i < length (fixups b)")
    case True
    then show ?thesis
      using assms(1) that keeps_nth [OF k(2) True] good_label_later [OF l(2)] by (simp add: gen_def)
  next
    case False
    then show ?thesis using assms(2) that by (simp add: gen_def)
  qed
  moreover have "fixups c ! i = fixups b ! i" if "i \<in> X" for i
    using assms(1) that keeps_nth [OF k(2)] by (simp add: gen_def)
  ultimately show ?thesis
    using assms later_trans [OF l] keeps_trans [OF k] len unfolding gen_def by auto
qed

section \<open>Emitting\<close>

lemma num_bytes_simps [simp]:
  "num_bytes (emit_byte b s) = Suc (num_bytes s)" "num_bytes (emit_op op s) = Suc (num_bytes s)"
  "num_bytes (emit_extended_byte eop s) = num_bytes s + 2" "num_bytes (push_stack n s) = num_bytes s"
  "num_bytes (restore_stack_top old s) = num_bytes s"
  by (simp_all add: num_bytes_def emit_byte_def emit_op_def emit_extended_byte_def push_stack_def
      restore_stack_top_def)

lemma emit_fields [simp]:
  "cur_stack (emit_byte b s) = cur_stack s" "max_stack (emit_byte b s) = max_stack s"
  "saved_stack (emit_byte b s) = saved_stack s" "loops (emit_byte b s) = loops s"
  "fixups (emit_byte b s) = fixups s" "gst (emit_byte b s) = gst s"
  "cur_stack (emit_op op s) = cur_stack s" "max_stack (emit_op op s) = max_stack s"
  "saved_stack (emit_op op s) = saved_stack s" "loops (emit_op op s) = loops s"
  "fixups (emit_op op s) = fixups s" "gst (emit_op op s) = gst s"
  "cur_stack (emit_extended_byte eop s) = cur_stack s" "max_stack (emit_extended_byte eop s) = max_stack s"
  "saved_stack (emit_extended_byte eop s) = saved_stack s" "loops (emit_extended_byte eop s) = loops s"
  "fixups (emit_extended_byte eop s) = fixups s" "gst (emit_extended_byte eop s) = gst s"
  by (simp_all add: emit_byte_def emit_op_def emit_extended_byte_def)

lemma stack_fields [simp]:
  "cur_stack (push_stack n s) = cur_stack s + n" "max_stack (push_stack n s) = max (cur_stack s + n) (max_stack s)"
  "saved_stack (push_stack n s) = saved_stack s" "loops (push_stack n s) = loops s"
  "fixups (push_stack n s) = fixups s" "gst (push_stack n s) = gst s"
  "cur_stack (restore_stack_top old s) = cur_stack s" "max_stack (restore_stack_top old s) = max_stack s"
  "saved_stack (restore_stack_top old s) = old" "loops (restore_stack_top old s) = loops s"
  "fixups (restore_stack_top old s) = fixups s" "gst (restore_stack_top old s) = gst s"
  by (simp_all add: push_stack_def restore_stack_top_def)

lemma operand_ok_later: "later s s' \<Longrightarrow> operand_ok s f \<Longrightarrow> operand_ok s' f"
  by (auto simp: later_def operand_ok_def split: fixup_kind.splits)

lemma gen_step:
  assumes g: "gen X s0 s" and w: "wf_cg s'" and l: "later s s'"
    and fs: "fixups s' = fixups s @ gs"
    and good: "\<forall>f \<in> set gs. fx_kind f = FIXUP_LABEL \<longrightarrow> good_label s' f"
    and same: "saved_stack s' = saved_stack s" "loops s' = loops s"
  shows "gen X s0 s'"
proof -
  have step: "gen {} s s'"
    using w l same good by (auto simp: gen_def keeps_def fs nth_append)
  show ?thesis using gen_trans [OF g step] by simp
qed

lemma wf_emit_byte: "wf_cg s \<Longrightarrow> wf_cg (emit_byte b s)"
  by (auto simp: wf_cg_def emit_byte_def num_bytes_def operand_ok_def split: fixup_kind.splits)

lemma later_emit_byte: "later s (emit_byte b s)"
  by (auto simp: later_def emit_byte_def intro: exI [of _ "[]"])

lemma gen_emit_byte [intro]: "gen X s0 s \<Longrightarrow> gen X s0 (emit_byte b s)"
  by (rule gen_step [where gs = "[]"]) (auto simp: gen_def wf_emit_byte later_emit_byte)

lemma gen_emit_op [intro]: "gen X s0 s \<Longrightarrow> gen X s0 (emit_op op s)"
  by (auto simp: emit_op_def)

lemma gen_emit_extended [intro]: "gen X s0 s \<Longrightarrow> gen X s0 (emit_extended_byte eop s)"
  by (auto simp: emit_extended_byte_def)

lemma gen_push_stack [intro]:
  assumes "gen X s0 s" shows "gen X s0 (push_stack n s)"
proof (rule gen_step [OF assms, where gs = "[]"])
  have "wf_cg s" using assms by (simp add: gen_def)
  then show "wf_cg (push_stack n s)"
    by (fastforce simp: wf_cg_def push_stack_def num_bytes_def operand_ok_def split: fixup_kind.splits)
  show "later s (push_stack n s)" by (auto simp: later_def push_stack_def intro: exI [of _ "[]"])
qed auto

definition popped :: "nat \<Rightarrow> cg_state \<Rightarrow> cg_state" where
  "popped n s = s\<lparr>cur_stack := cur_stack s - n\<rparr>"

lemma pop_stack_Some [simp]: "n \<le> cur_stack s \<Longrightarrow> pop_stack n s = Some (popped n s)"
  by (simp add: pop_stack_def popped_def)

lemma popped_fields [simp]:
  "cur_stack (popped n s) = cur_stack s - n" "max_stack (popped n s) = max_stack s"
  "saved_stack (popped n s) = saved_stack s" "loops (popped n s) = loops s" "fixups (popped n s) = fixups s"
  "gst (popped n s) = gst s" "num_bytes (popped n s) = num_bytes s" "cg_bytes (popped n s) = cg_bytes s"
  by (simp_all add: popped_def num_bytes_def)

lemma later_popped [simp]: "later s (popped n s)"
  by (auto simp: later_def popped_def intro: exI [of _ "[]"])

lemma wf_popped: "wf_cg s \<Longrightarrow> wf_cg (popped n s)"
  by (auto simp: wf_cg_def popped_def num_bytes_def operand_ok_def split: fixup_kind.splits)

lemma gen_popped [intro]: "gen X s0 s \<Longrightarrow> gen X s0 (popped n s)"
  by (rule gen_step [where gs = "[]"]) (auto simp: gen_def wf_popped)

section \<open>Fixups\<close>

text \<open>A fixup added at the present position, whatever counter is bumped with it.\<close>

definition with_fixup :: "fixup \<Rightarrow> cg_state \<Rightarrow> cg_state" where
  "with_fixup f s = snd (add_known_fixup f s)"

lemma with_fixup_fields [simp]:
  "fixups (with_fixup f s) = fixups s @ [f\<lparr>fx_pc := num_bytes s\<rparr>]" "num_bytes (with_fixup f s) = Suc (num_bytes s)"
  "cg_bytes (with_fixup f s) = cg_bytes s @ [0]" "cur_stack (with_fixup f s) = cur_stack s"
  "max_stack (with_fixup f s) = max_stack s" "saved_stack (with_fixup f s) = saved_stack s"
  "loops (with_fixup f s) = loops s" "gst (with_fixup f s) = gst s" "num_literals (with_fixup f s) = num_literals s"
  "num_forks (with_fixup f s) = num_forks s" "num_var_refs (with_fixup f s) = num_var_refs s"
  "num_labels (with_fixup f s) = num_labels s" "num_stacks (with_fixup f s) = num_stacks s"
  "max_literal (with_fixup f s) = max_literal s" "max_fork (with_fixup f s) = max_fork s"
  "max_var_ref (with_fixup f s) = max_var_ref s"
  by (simp_all add: with_fixup_def add_known_fixup_def emit_byte_def num_bytes_def)

lemma add_known_fixup_eq: "add_known_fixup f s = (int (length (fixups s)), with_fixup f s)"
  by (simp add: add_known_fixup_def with_fixup_def)

lemma pcs_sorted_append:
  "pcs_sorted (fs @ [f]) \<longleftrightarrow> pcs_sorted fs \<and> (\<forall>g \<in> set fs. fx_pc g < fx_pc f)"
  by (auto simp: pcs_sorted_def sorted_wrt_append)

lemma count_kind_append [simp]: "count_kind k (fs @ [f]) = count_kind k fs + (if fx_kind f = k then 1 else 0)"
  by (simp add: count_kind_def)

definition bumped :: "fixup_kind \<Rightarrow> fixup \<Rightarrow> cg_state \<Rightarrow> cg_state \<Rightarrow> bool" where
  "bumped k f s s' \<longleftrightarrow> cg_bytes s' = cg_bytes s @ [0] \<and> fixups s' = fixups s @ [f\<lparr>fx_pc := num_bytes s\<rparr>] \<and> fx_kind f = k
     \<and> num_literals s' = num_literals s + (if k = FIXUP_LITERAL then 1 else 0)
     \<and> num_forks s' = num_forks s + (if k = FIXUP_FORK then 1 else 0)
     \<and> num_var_refs s' = num_var_refs s + (if k = FIXUP_VAR_REF then 1 else 0)
     \<and> num_labels s' = num_labels s + (if k = FIXUP_LABEL then 1 else 0) \<and> num_stacks s' = num_stacks s
     \<and> cur_stack s' = cur_stack s \<and> max_stack s' = max_stack s \<and> saved_stack s' = saved_stack s \<and> loops s' = loops s
     \<and> (\<exists>ls. g_literals (gst s') = g_literals (gst s) @ ls \<and> (\<forall>v \<in> set ls. wf_literal v))
     \<and> (\<exists>vs. g_fork_vectors (gst s') = g_fork_vectors (gst s) @ vs)
     \<and> max_literal s \<le> max_literal s' \<and> max_fork s \<le> max_fork s'
     \<and> max_var_ref s \<le> max_var_ref s' \<and> total_var_refs (gst s) \<le> total_var_refs (gst s') \<and> operand_ok s' f"

lemma bumped_num_bytes: "bumped k f s s' \<Longrightarrow> num_bytes s' = Suc (num_bytes s)"
  by (simp add: bumped_def num_bytes_def)

lemma later_bumped: "bumped k f s s' \<Longrightarrow> later s s'"
  by (auto simp: bumped_def later_def intro!: exI [of _ "[f\<lparr>fx_pc := num_bytes s\<rparr>]"])

lemma operand_ok_pc [simp]: "operand_ok s (f\<lparr>fx_pc := p\<rparr>) = operand_ok s f"
  by (simp add: operand_ok_def cong: fixup_kind.case_cong)

lemma wf_bumped:
  assumes "bumped k f s s'" "wf_cg s"
  shows "wf_cg s'"
proof -
  have "\<forall>g \<in> set (fixups s). operand_ok s' g"
    using assms later_bumped [OF assms(1)] operand_ok_later by (auto simp: wf_cg_def)
  then show ?thesis
    using assms bumped_num_bytes [OF assms(1)] unfolding wf_cg_def
    by (auto simp: bumped_def pcs_sorted_append less_Suc_eq)
qed

lemma gen_bumped:
  assumes "bumped k f s s'" "gen X s0 s" "k = FIXUP_LABEL \<longrightarrow> good_label s' (f\<lparr>fx_pc := num_bytes s\<rparr>)"
  shows "gen X s0 s'"
  using assms wf_bumped [OF assms(1)] later_bumped [OF assms(1)]
  by (intro gen_step [OF assms(2), where gs = "[f\<lparr>fx_pc := num_bytes s\<rparr>]"]) (auto simp: bumped_def gen_def)

lemma gen_bumped_pending:
  assumes b: "bumped FIXUP_LABEL f s s'" and w: "wf_cg s" and "fx_next f = -1"
  shows "gen {length (fixups s)} s s'"
  using b w wf_bumped [OF b] later_bumped [OF b] assms(3)
  by (auto simp: gen_def bumped_def keeps_def nth_append less_Suc_eq)

section \<open>Operands\<close>

lemma non_negative_double:
  assumes "\<not> dbl_sign d" "\<not> dbl_sign e" "dbl_mag d = dbl_mag e"
  shows "d = e"
proof -
  have "x AND mask 63 = x" if "\<not> dbl_sign x" for x
  proof (rule bit_word_eqI)
    fix n assume "n < LENGTH(64)"
    then show "bit (x AND mask 63) n = bit x n"
      using that by (cases "n = 63") (auto simp: bit_simps dbl_sign_def)
  qed
  then show ?thesis using assms by (metis dbl_mag_def word_uint_eqI)
qed

lemma literal_equal:
  assumes "wf_literal v" "wf_literal w" "type_of v = type_of w"
  shows "equality v w True = Some (v = w)"
proof (cases "type_of v = TYPE_FLOAT")
  case True
  then obtain d e where "v = VFloat d" "w = VFloat e" using assms(3) by (cases v; cases w) auto
  moreover have "dbl_eq d e \<longleftrightarrow> d = e" if "IS_REAL d" "IS_REAL e" "\<not> dbl_sign d" "\<not> dbl_sign e"
    using that non_negative_double [of d e] by (auto simp: dbl_eq_def dbl_key_def IS_REAL_def dbl_is_nan_def)
  ultimately show ?thesis using assms by (auto simp: wf_literal_def do_equals_def)
next
  case False
  then show ?thesis
    using assms by (intro equality_exact) (cases v; cases w; simp add: wf_literal_def)+
qed

lemma find_literal_ok:
  assumes "wf_literal v" "\<forall>w \<in> set ls. wf_literal w"
  shows "\<exists>k. find_literal v ls i = Some (i + k) \<and> k \<le> length ls \<and> (k < length ls \<longrightarrow> ls ! k = v)"
  using assms(2)
proof (induction ls arbitrary: i)
  case (Cons l ls)
  show ?case
  proof (cases "v = l")
    case True
    then show ?thesis using literal_equal [of v l] assms(1) Cons.prems by (intro exI [of _ 0]) simp
  next
    case False
    obtain k where "find_literal v ls (Suc i) = Some (Suc i + k)" "k \<le> length ls" "k < length ls \<longrightarrow> ls ! k = v"
      using Cons.IH [of "Suc i"] Cons.prems by auto
    then show ?thesis
      using False literal_equal [of v l] assms(1) Cons.prems by (intro exI [of _ "Suc k"]) auto
  qed
qed simp

lemma add_literal_ok:
  assumes w: "wf_cg s" and v: "wf_literal v"
  obtains s' i f where "add_literal v s = Some s'" "bumped FIXUP_LITERAL f s s'" "fx_value f = i"
    "i < length (g_literals (gst s'))" "g_literals (gst s') ! i = v"
proof -
  let ?ls = "g_literals (gst s)"
  obtain k where k: "find_literal v ?ls 0 = Some k" "k \<le> length ?ls" "k < length ?ls \<longrightarrow> ?ls ! k = v"
    using find_literal_ok [of v ?ls 0] w v by (auto simp: wf_cg_def)
  define s1 where "s1 = (if k = length ?ls then s\<lparr>gst := (gst s)\<lparr>g_literals := ?ls @ [v]\<rparr>\<rparr> else s)"
  define f where "f = here FIXUP_LITERAL k (-1) s1"
  define s' where "s' = (with_fixup f s1)\<lparr>num_literals := num_literals (with_fixup f s1) + 1,
    max_literal := max k (max_literal (with_fixup f s1))\<rparr>"
  have "add_literal v s = Some s'"
    by (simp add: add_literal_def k(1) Let_def s'_def s1_def f_def add_fixup_def add_linked_fixup_def add_known_fixup_eq)
  moreover have "bumped FIXUP_LITERAL f s s'"
    using v k(2) by (auto simp: bumped_def s'_def s1_def f_def here_def operand_ok_def num_bytes_def with_fixup_def
        add_known_fixup_def emit_byte_def)
  moreover have "k < length (g_literals (gst s'))" "g_literals (gst s') ! k = v"
    using k by (auto simp: s'_def s1_def nth_append)
  ultimately show ?thesis using that [of s' f k] by (simp add: f_def here_def)
qed

lemma add_var_ref_bumped: "bumped FIXUP_VAR_REF (here FIXUP_VAR_REF i (-1) s) s (add_var_ref i s)"
  by (auto simp: bumped_def add_var_ref_def add_fixup_def add_linked_fixup_def add_known_fixup_eq Let_def here_def
      operand_ok_def)

lemma add_stack_ref_bumped:
  "i < max_stack s \<Longrightarrow> bumped FIXUP_STACK (here FIXUP_STACK i (-1) s) s (add_stack_ref i s)"
  by (auto simp: bumped_def add_stack_ref_def add_fixup_def add_linked_fixup_def add_known_fixup_eq Let_def here_def
      operand_ok_def)

definition labelled :: "fixup \<Rightarrow> cg_state \<Rightarrow> cg_state" where
  "labelled f s = snd (count_label (add_known_fixup f s))"

lemma labelled_bumped: "fx_kind f = FIXUP_LABEL \<Longrightarrow> bumped FIXUP_LABEL f s (labelled f s)"
  by (auto simp: bumped_def labelled_def count_label_def add_known_fixup_eq operand_ok_def)

lemma add_label_eq: "add_label s = (int (length (fixups s)), labelled (here FIXUP_LABEL 0 (-1) s) s)"
  by (simp add: add_label_def add_linked_label_def add_linked_fixup_def labelled_def count_label_def add_known_fixup_eq)

lemma add_pseudo_label_eq:
  "add_pseudo_label v s = labelled \<lparr>fx_kind = FIXUP_LABEL, fx_pc = 0, fx_value = v, prev_literals = 0,
     prev_forks = 0, prev_var_refs = 0, prev_labels = 0, prev_stacks = 0, fx_next = -1\<rparr> s"
  by (simp add: add_pseudo_label_def labelled_def)

section \<open>Labels\<close>

definition retarget :: "fixup \<Rightarrow> fixup \<Rightarrow> fixup" where
  "retarget h f = f\<lparr>fx_value := fx_value h, prev_literals := prev_literals h, prev_forks := prev_forks h,
     prev_var_refs := prev_var_refs h, prev_labels := prev_labels h, prev_stacks := prev_stacks h\<rparr>"

definition label_defined :: "nat \<Rightarrow> cg_state \<Rightarrow> cg_state" where
  "label_defined n s = s\<lparr>fixups := (fixups s)[n := retarget (capture_label s) (fixups s ! n)]\<rparr>"

lemma define_label_Some:
  assumes "gen X s0 s" "n \<in> X"
  shows "define_label (int n) s = Some (label_defined n s)"
proof -
  have n: "n < length (fixups s)" "fx_next (fixups s ! n) = -1" using assms by (auto simp: gen_def)
  then obtain m where "length (fixups s) = Suc m" by (cases "length (fixups s)") auto
  then show ?thesis
    using n by (simp add: define_label_def define_chain.simps [of "Suc _"] define_chain.simps [of _ "-1"]
        label_defined_def retarget_def)
qed

lemma label_defined_fields [simp]:
  "num_bytes (label_defined n s) = num_bytes s" "cg_bytes (label_defined n s) = cg_bytes s"
  "cur_stack (label_defined n s) = cur_stack s" "max_stack (label_defined n s) = max_stack s"
  "saved_stack (label_defined n s) = saved_stack s" "loops (label_defined n s) = loops s"
  "gst (label_defined n s) = gst s" "length (fixups (label_defined n s)) = length (fixups s)"
  by (simp_all add: label_defined_def num_bytes_def)

lemma retarget_fields [simp]:
  "fx_kind (retarget h f) = fx_kind f" "fx_pc (retarget h f) = fx_pc f" "fx_next (retarget h f) = fx_next f"
  by (simp_all add: retarget_def)

lemma skeleton_label_defined [simp]: "skeleton (fixups (label_defined n s)) = skeleton (fixups s)"
  by (simp add: label_defined_def)

lemma later_label_defined [simp]: "later s (label_defined n s)"
  unfolding later_def by (intro conjI exI [of _ "[]"]) (simp_all add: label_defined_def)

lemma wf_label_defined:
  assumes w: "wf_cg s" and k: "n < length (fixups s)" "fx_kind (fixups s ! n) = FIXUP_LABEL"
  shows "wf_cg (label_defined n s)"
proof -
  have pcs: "pcs_sorted (fixups (label_defined n s))" "count_kind k (fixups (label_defined n s)) = count_kind k (fixups s)" for k
    using w by (simp_all add: pcs_sorted_skeleton count_kind_skeleton wf_cg_def)
  have "fx_pc f < num_bytes s \<and> operand_ok (label_defined n s) f" if "f \<in> set (fixups (label_defined n s))" for f
  proof -
    from that have "f \<in> insert (retarget (capture_label s) (fixups s ! n)) (set (fixups s))"
      using set_update_subset_insert [of "fixups s" n] by (auto simp: label_defined_def)
    moreover have "operand_ok (label_defined n s) g" if "operand_ok s g" for g
      using that later_label_defined operand_ok_later by blast
    ultimately show ?thesis
      using w k nth_mem [OF k(1)] by (auto simp: wf_cg_def operand_ok_def)
  qed
  then show ?thesis using w pcs unfolding wf_cg_def by (simp add: label_defined_def num_bytes_def)
qed

text \<open>A defined label is good: its counts are those of all the fixups up to here.\<close>

lemma retarget_good:
  assumes "wf_cg s"
  shows "targets (fixups s) (retarget (capture_label s) f) (num_bytes s)"
proof -
  have "\<forall>g \<in> set (fixups s). fx_pc g < num_bytes s" using assms by (simp add: wf_cg_def)
  then show ?thesis
    using assms by (simp add: targets_def retarget_def capture_label_def here_def count_below_all wf_cg_def)
qed

lemma gen_label_defined:
  assumes g: "gen X s0 s" and n: "n \<in> X"
  shows "gen (X - {n}) s0 (label_defined n s)"
proof -
  have w: "wf_cg s" and len: "length (fixups s0) \<le> n" "n < length (fixups s)" and k: "fx_kind (fixups s ! n) = FIXUP_LABEL"
    using g n by (auto simp: gen_def)
  have l: "later s (label_defined n s)" by simp
  have "targets (fixups (label_defined n s)) f q \<longleftrightarrow> targets (fixups s) f q" for f q
    by (simp add: targets_def count_below_skeleton)
  then have "good_label (label_defined n s) (fixups (label_defined n s) ! n)"
    using retarget_good [OF w, of "fixups s ! n"] len(2)
    by (auto simp: good_label_def label_defined_def retarget_def capture_label_def here_def num_bytes_def)
  moreover have "keeps s0 (label_defined n s)"
    using g len by (simp add: gen_def keeps_def label_defined_def take_update_cancel)
  moreover have "fixups (label_defined n s) ! i = fixups s ! i" if "i \<noteq> n" for i
    using that by (simp add: label_defined_def)
  ultimately show ?thesis
    using g wf_label_defined [OF w len(2) k] later_trans [OF _ l] good_label_later [OF l]
    unfolding gen_def by (auto simp: Ball_def) metis
qed

end
