(* ===== verification/CodeShape.thy ===== *)
theory CodeShape
  imports CodeFrame
begin

text \<open>
  What the code of an expression is, as a predicate on a finished vector: \<open>expr_code V e d sv p q\<close> says that
  from the old position \<open>p\<close> to \<open>q\<close> the vector decodes to code for \<open>e\<close>, to be run with \<open>d\<close> values on the
  stack and with \<open>sv\<close> the stack index of the value that \<^verbatim>\<open>$\<close> is the length of.  Labels are new positions.
\<close>

section \<open>Well-formed expressions\<close>

definition no_rest_twice :: "scatter list \<Rightarrow> bool" where
  "no_rest_twice scs \<longleftrightarrow> length (filter (\<lambda>sc. case sc of Scatter k _ _ \<Rightarrow> k = SCAT_REST) scs) \<le> 1"

text \<open>
  What the grammar makes, and numbers that fit the operands: at most 256 variables, functions numbered by a
  byte, and at most 254 targets in a scattering assignment.  The flag says whether \<^verbatim>\<open>$\<close> has a meaning.
\<close>

fun wf_expr :: "bool \<Rightarrow> expr \<Rightarrow> bool"
and wf_args :: "bool \<Rightarrow> arg list \<Rightarrow> bool"
and wf_scatter :: "bool \<Rightarrow> scatter list \<Rightarrow> bool"
and wf_lvalue :: "bool \<Rightarrow> bool \<Rightarrow> expr \<Rightarrow> bool" where
  "wf_expr dl (EXPR_VAR v) = wf_literal v"
| "wf_expr dl (EXPR_ID i) = (i < 256)"
| "wf_expr dl (EXPR_AND l r) = (wf_expr dl l \<and> wf_expr dl r)"
| "wf_expr dl (EXPR_OR l r) = (wf_expr dl l \<and> wf_expr dl r)"
| "wf_expr dl (EXPR_NEGATE e) = wf_expr dl e"
| "wf_expr dl (EXPR_NOT e) = wf_expr dl e"
| "wf_expr dl (EXPR_BIN k l r) = (wf_expr dl l \<and> wf_expr dl r)"
| "wf_expr dl (EXPR_EXP l r) = (wf_expr dl l \<and> wf_expr dl r)"
| "wf_expr dl (EXPR_INDEX l r) = (wf_expr dl l \<and> wf_expr True r)"
| "wf_expr dl (EXPR_RANGE base from to) = (wf_expr dl base \<and> wf_expr True from \<and> wf_expr True to)"
| "wf_expr dl EXPR_LENGTH = dl"
| "wf_expr dl (EXPR_LIST args) = wf_args dl args"
| "wf_expr dl (EXPR_CALL func args) = (func < 256 \<and> wf_args dl args)"
| "wf_expr dl (EXPR_VERB obj verb args) = (wf_expr dl obj \<and> wf_expr dl verb \<and> wf_args dl args)"
| "wf_expr dl (EXPR_COND c t e) = (wf_expr dl c \<and> wf_expr dl t \<and> wf_expr dl e)"
| "wf_expr dl (EXPR_ASGN lhs rhs) = (wf_expr dl rhs \<and>
     (case lhs of
        EXPR_SCATTER scs \<Rightarrow> length scs < 255 \<and> no_rest_twice scs \<and> wf_scatter dl scs
      | _ \<Rightarrow> wf_lvalue dl False lhs))"
| "wf_expr dl (EXPR_CATCH e codes except) = (wf_expr dl e \<and> wf_args dl codes \<and>
     (case except of None \<Rightarrow> True | Some h \<Rightarrow> wf_expr dl h))"
| "wf_expr dl (EXPR_SCATTER scs) = False"
| "wf_args dl [] = True"
| "wf_args dl (Arg k e # args) = (wf_expr dl e \<and> wf_args dl args)"
| "wf_scatter dl [] = True"
| "wf_scatter dl (Scatter k i dflt # scs) = (i < 256 \<and> wf_scatter dl scs \<and>
     (case dflt of None \<Rightarrow> True | Some e \<Rightarrow> wf_expr dl e))"
| "wf_lvalue dl inner (EXPR_RANGE base from to) =
     (\<not> inner \<and> wf_lvalue dl True base \<and> wf_expr True from \<and> wf_expr True to)"
| "wf_lvalue dl inner (EXPR_INDEX l r) = (wf_lvalue dl True l \<and> wf_expr True r)"
| "wf_lvalue dl inner (EXPR_ID i) = (i < 256)"
| "wf_lvalue dl inner (EXPR_BIN k l r) = (k = EXPR_PROP \<and> wf_expr dl l \<and> wf_expr dl r)"
| "wf_lvalue dl inner _ = False"

section \<open>Code of expressions\<close>

record code_view =
  cv_bc :: bytecodes
  cv_fixups :: "fixup list"
  cv_literals :: "var list"
  cv_max :: nat

definition at :: "code_view \<Rightarrow> nat \<Rightarrow> instr \<Rightarrow> nat \<Rightarrow> bool" where
  "at V p i q \<longleftrightarrow> instr_at (cv_bc V) (cv_fixups V) p i q"

definition lab :: "code_view \<Rightarrow> nat \<Rightarrow> nat" where
  "lab V q = mu (cv_bc V) (cv_fixups V) q"

definition constant_code :: "code_view \<Rightarrow> var \<Rightarrow> nat \<Rightarrow> nat \<Rightarrow> bool" where
  "constant_code V v p q \<longleftrightarrow>
     (\<exists>n. v = VInt n \<and> at V p (I_num (sint n)) q)
     \<or> (\<exists>i. at V p (I_imm i) q \<and> i < length (cv_literals V) \<and> cv_literals V ! i = v)"

definition put_code :: "code_view \<Rightarrow> nat \<Rightarrow> nat \<Rightarrow> nat \<Rightarrow> bool" where
  "put_code V i p q \<longleftrightarrow> at V p (I_put i) q \<or> at V p (I_gput i) q"

definition mark_code :: "code_view \<Rightarrow> scatter_kind \<Rightarrow> expr option \<Rightarrow> nat \<Rightarrow> bool" where
  "mark_code V k dflt l \<longleftrightarrow> (if k \<noteq> SCAT_OPTIONAL then l = 0 else case dflt of None \<Rightarrow> l = 1 | Some _ \<Rightarrow> 1 < l)"

fun lval_depth :: "expr \<Rightarrow> bool \<Rightarrow> nat" where
  "lval_depth (EXPR_RANGE base from to) inner = lval_depth base True + 2"
| "lval_depth (EXPR_INDEX l r) inner = lval_depth l True + 1 + (if inner then 1 else 0)"
| "lval_depth (EXPR_BIN k l r) inner = 2 + (if inner then 1 else 0)"
| "lval_depth _ inner = (if inner then 1 else 0)"

fun store_code :: "code_view \<Rightarrow> expr \<Rightarrow> nat \<Rightarrow> nat \<Rightarrow> bool" where
  "store_code V (EXPR_RANGE base from to) p q = (\<exists>p1. at V p E_rangeset p1 \<and> store_code V base p1 q)"
| "store_code V (EXPR_INDEX l r) p q = (\<exists>p1. at V p (I_op OP_INDEXSET) p1 \<and> store_code V l p1 q)"
| "store_code V (EXPR_ID i) p q = put_code V i p q"
| "store_code V (EXPR_BIN k l r) p q = at V p (I_op OP_PUT_PROP) q"
| "store_code V _ p q = False"

fun expr_code :: "code_view \<Rightarrow> expr \<Rightarrow> nat \<Rightarrow> nat option \<Rightarrow> nat \<Rightarrow> nat \<Rightarrow> bool"
and args_code :: "code_view \<Rightarrow> bool \<Rightarrow> arg list \<Rightarrow> nat \<Rightarrow> nat option \<Rightarrow> nat \<Rightarrow> nat \<Rightarrow> bool"
and defaults_code :: "code_view \<Rightarrow> scatter list \<Rightarrow> (nat \<times> nat) list \<Rightarrow> nat \<Rightarrow> nat option \<Rightarrow> nat \<Rightarrow> nat \<Rightarrow> bool"
and lval_code :: "code_view \<Rightarrow> expr \<Rightarrow> bool \<Rightarrow> nat \<Rightarrow> nat option \<Rightarrow> nat \<Rightarrow> nat \<Rightarrow> bool" where
  "expr_code V (EXPR_VAR v) = (\<lambda>d sv p q. (d < cv_max V \<and> constant_code V v p q))"
| "expr_code V (EXPR_ID i) = (\<lambda>d sv p q. (d < cv_max V \<and> at V p (I_push i) q))"
| "expr_code V (EXPR_AND l r) = (\<lambda>d sv p q.
     (\<exists>p1 p2. expr_code V l d sv p p1 \<and> at V p1 (I_branch OP_AND (lab V q)) p2 \<and> expr_code V r d sv p2 q))"
| "expr_code V (EXPR_OR l r) = (\<lambda>d sv p q.
     (\<exists>p1 p2. expr_code V l d sv p p1 \<and> at V p1 (I_branch OP_OR (lab V q)) p2 \<and> expr_code V r d sv p2 q))"
| "expr_code V (EXPR_NEGATE e) = (\<lambda>d sv p q. (\<exists>p1. expr_code V e d sv p p1 \<and> at V p1 (I_op OP_UNARY_MINUS) q))"
| "expr_code V (EXPR_NOT e) = (\<lambda>d sv p q. (\<exists>p1. expr_code V e d sv p p1 \<and> at V p1 (I_op OP_NOT) q))"
| "expr_code V (EXPR_BIN k l r) = (\<lambda>d sv p q.
     (\<exists>p1 p2. expr_code V l d sv p p1 \<and> expr_code V r (Suc d) sv p1 p2 \<and> at V p2 (I_op (bin_opcode k)) q))"
| "expr_code V (EXPR_EXP l r) = (\<lambda>d sv p q.
     (\<exists>p1 p2. expr_code V l d sv p p1 \<and> expr_code V r (Suc d) sv p1 p2 \<and> at V p2 E_exp q))"
| "expr_code V (EXPR_INDEX l r) = (\<lambda>d sv p q.
     (\<exists>p1 p2. expr_code V l d sv p p1 \<and> expr_code V r (Suc d) (Some d) p1 p2 \<and> at V p2 (I_op OP_REF) q))"
| "expr_code V (EXPR_RANGE base from to) = (\<lambda>d sv p q.
     (\<exists>p1 p2 p3. expr_code V base d sv p p1 \<and> expr_code V from (Suc d) (Some d) p1 p2
        \<and> expr_code V to (Suc (Suc d)) (Some d) p2 p3 \<and> at V p3 (I_op OP_RANGE_REF) q))"
| "expr_code V EXPR_LENGTH = (\<lambda>d sv p q. (d < cv_max V \<and> (\<exists>k. sv = Some k \<and> at V p (E_length k) q)))"
| "expr_code V (EXPR_LIST args) = (\<lambda>d sv p q. args_code V True args d sv p q)"
| "expr_code V (EXPR_CALL func args) = (\<lambda>d sv p q.
     (\<exists>p1. args_code V True args d sv p p1 \<and> at V p1 (I_call func) q))"
| "expr_code V (EXPR_VERB obj verb args) = (\<lambda>d sv p q.
     (\<exists>p1 p2 p3. expr_code V obj d sv p p1 \<and> expr_code V verb (Suc d) sv p1 p2
        \<and> args_code V True args (Suc (Suc d)) sv p2 p3 \<and> at V p3 (I_op OP_CALL_VERB) q))"
| "expr_code V (EXPR_COND c t e) = (\<lambda>d sv p q.
     (\<exists>p1 p2 p3 p4. expr_code V c d sv p p1 \<and> at V p1 (I_branch OP_IF_QUES (lab V p4)) p2
        \<and> expr_code V t d sv p2 p3 \<and> at V p3 (I_branch OP_JUMP (lab V q)) p4 \<and> expr_code V e d sv p4 q))"
| "expr_code V (EXPR_ASGN lhs rhs) = (\<lambda>d sv p q.
     (case lhs of
        EXPR_SCATTER scs \<Rightarrow>
          \<exists>p1 p2 ts. expr_code V rhs d sv p p1
            \<and> at V p1 (E_scatter (scatter_nargs scs) (scatter_nreq scs) (scatter_rest scs 0 None) ts (lab V q)) p2
            \<and> defaults_code V scs ts (Suc d) sv p2 q
      | _ \<Rightarrow>
          \<exists>p1 p2 p3 p4 p5. lval_code V lhs False d sv p p1 \<and> expr_code V rhs (d + lval_depth lhs False) sv p1 p2
            \<and> (if is_indexed_lvalue lhs
               then at V p2 (I_op OP_PUT_TEMP) p3 \<and> store_code V lhs p3 p4 \<and> at V p4 (I_op OP_POP) p5
                 \<and> at V p5 (I_op OP_PUSH_TEMP) q
               else store_code V lhs p2 q)))"
| "expr_code V (EXPR_CATCH e codes except) = (\<lambda>d sv p q.
     (\<exists>p1 p2 p3 p4 p5.
        (if codes = [] then d < cv_max V \<and> at V p (I_num 0) p1 else args_code V True codes d sv p p1)
        \<and> Suc (Suc d) < cv_max V \<and> at V p1 (E_push_label (lab V p5)) p2 \<and> at V p2 E_catch p3
        \<and> expr_code V e (Suc (Suc (Suc d))) sv p3 p4 \<and> at V p4 (E_end_catch (lab V q)) p5
        \<and> (case except of
             Some h \<Rightarrow> \<exists>p6. at V p5 (I_op OP_POP) p6 \<and> expr_code V h d sv p6 q
           | None \<Rightarrow> \<exists>p6. at V p5 (I_num 1) p6 \<and> at V p6 (I_op OP_REF) q)))"
| "expr_code V (EXPR_SCATTER scs) = (\<lambda>d sv p q. False)"
| "args_code V first [] = (\<lambda>d sv p q.
     (if first then d < cv_max V \<and> at V p (I_op OP_MAKE_EMPTY_LIST) q else p = q))"
| "args_code V first (Arg k e # args) = (\<lambda>d sv p q.
     (\<exists>p1 p2. expr_code V e (if first then d else Suc d) sv p p1 \<and> at V p1 (I_op (arg_opcode first k)) p2
        \<and> args_code V False args d sv p2 q))"
| "defaults_code V [] ts = (\<lambda>d sv p q. (ts = [] \<and> p = q))"
| "defaults_code V (Scatter k i dflt # scs) ts = (\<lambda>d sv p q.
     (case ts of
        [] \<Rightarrow> False
      | (j, l) # ts \<Rightarrow> j = i \<and> mark_code V k dflt l \<and>
          (case dflt of
             Some e \<Rightarrow>
               if k = SCAT_OPTIONAL
               then l = lab V p \<and> (\<exists>p1 p2 p3. expr_code V e d sv p p1 \<and> put_code V i p1 p2 \<and> at V p2 (I_op OP_POP) p3
                      \<and> defaults_code V scs ts d sv p3 q)
               else defaults_code V scs ts d sv p q
           | None \<Rightarrow> defaults_code V scs ts d sv p q)))"
| "lval_code V (EXPR_RANGE base from to) inner = (\<lambda>d sv p q.
     (\<exists>p1 p2. let k = d + lval_depth base True in
        lval_code V base True d sv p p1 \<and> expr_code V from k (Some (k - 1)) p1 p2
        \<and> expr_code V to (Suc k) (Some (k - 1)) p2 q))"
| "lval_code V (EXPR_INDEX l r) inner = (\<lambda>d sv p q.
     (\<exists>p1 p2. let k = d + lval_depth l True in
        lval_code V l True d sv p p1 \<and> expr_code V r k (Some (k - 1)) p1 p2
        \<and> (if inner then Suc k < cv_max V \<and> at V p2 (I_op OP_PUSH_REF) q else p2 = q)))"
| "lval_code V (EXPR_ID i) inner = (\<lambda>d sv p q. (if inner then d < cv_max V \<and> at V p (I_push i) q else p = q))"
| "lval_code V (EXPR_BIN k l r) inner = (\<lambda>d sv p q.
     (\<exists>p1 p2. expr_code V l d sv p p1 \<and> expr_code V r (Suc d) sv p1 p2
        \<and> (if inner then Suc (Suc d) < cv_max V \<and> at V p2 (I_op OP_PUSH_GET_PROP) q else p2 = q)))"
| "lval_code V _ inner = (\<lambda>d sv p q. False)"

section \<open>Finished states\<close>

definition finished :: "bytecodes \<Rightarrow> cg_state \<Rightarrow> bool" where
  "finished bc S \<longleftrightarrow> laid_out bc (fixups S) (cg_bytes S) \<and> wf_cg S
     \<and> (\<forall>f \<in> set (fixups S). fx_kind f = FIXUP_LABEL \<longrightarrow> good_label S f)
     \<and> (\<forall>f \<in> set (fixups S). fx_kind f \<noteq> FIXUP_LABEL \<longrightarrow> fx_value f < 256 ^ fixup_size bc f)
     \<and> numbytes_stack bc = 1
     \<and> length (bc_vector bc) \<le> 256 ^ numbytes_label bc"

lemma byte_at_emitted:
  assumes w: "wf_cg s" and l: "later (emit_byte b s) S"
  shows "byte_at (fixups S) (cg_bytes S) (num_bytes s) b"
proof -
  obtain bs where bs: "cg_bytes S = cg_bytes s @ [word_of_nat b] @ bs"
    using l by (auto simp: later_def emit_byte_def)
  obtain gs where gs: "skeleton (fixups S) = skeleton (fixups s) @ skeleton gs" "\<forall>g \<in> set gs. Suc (num_bytes s) \<le> fx_pc g"
    using l by (auto simp: later_def)
  have "\<forall>x \<in> set (skeleton (fixups S)). snd x \<noteq> num_bytes s"
    using gs w by (fastforce simp: gs(1) wf_cg_def skeleton_def)
  then have "\<forall>f \<in> set (fixups S). fx_pc f \<noteq> num_bytes s" by (auto simp: skeleton_def)
  then show ?thesis by (simp add: byte_at_def bs num_bytes_def nth_append)
qed

lemma byte_at_op: "wf_cg s \<Longrightarrow> later (emit_op op s) S \<Longrightarrow> byte_at (fixups S) (cg_bytes S) (num_bytes s) (opcode_num op)"
  unfolding emit_op_def by (rule byte_at_emitted)

lemma eop_at_emitted:
  assumes w: "wf_cg s" and l: "later (emit_extended_byte eop s) S"
  shows "eop_at (fixups S) (cg_bytes S) (num_bytes s) eop"
proof -
  have "later (emit_op OP_EXTENDED s) S"
    using later_trans [OF later_emit_byte l [unfolded emit_extended_byte_def]] by (simp add: emit_op_def)
  moreover have "wf_cg (emit_op OP_EXTENDED s)" using w by (simp add: emit_op_def wf_emit_byte)
  ultimately show ?thesis
    using byte_at_op [OF w, of OP_EXTENDED S] byte_at_emitted [of "emit_op OP_EXTENDED s" "extended_opcode_num eop" S] l
    by (simp add: eop_at_def emit_extended_byte_def)
qed

lemma operand_at_value:
  assumes f: "finished bc S" "f \<in> set (fixups S)" and k: "fx_kind f \<noteq> FIXUP_LABEL"
  shows "operand_at bc (fixups S) (fx_pc f) (fx_kind f) (fx_value f)"
  using f k unfolding operand_at_def by (intro bexI [of _ f]) (auto simp: fixup_operand_def finished_def)

lemma mu_less:
  assumes l: "laid_out bc fs bs" and "q < length bs"
  shows "mu bc fs q < length (bc_vector bc)"
proof -
  have "mu bc fs q < mu bc fs (Suc q)"
    using filter_pc_Suc [of fs bc q] l by (simp add: mu_def laid_out_def)
  also have "\<dots> \<le> length (bc_vector bc)" using drop_vector(2) [OF l, of "Suc q"] assms(2) by simp
  finally show ?thesis .
qed

lemma sum_growth:
  assumes "numbytes_stack bc = 1"
  shows "sum_list (map (growth bc) (filter (\<lambda>f. fx_pc f < q) fs))
    = count_below FIXUP_LITERAL q fs * (numbytes_literal bc - 1) + count_below FIXUP_FORK q fs * (numbytes_fork bc - 1)
      + count_below FIXUP_VAR_REF q fs * (numbytes_var_name bc - 1)
      + count_below FIXUP_LABEL q fs * (numbytes_label bc - 1)"
proof (induction fs)
  case (Cons f fs)
  then show ?case
    using assms by (cases "fx_kind f") (auto simp: count_below_def growth_def fixup_size_def)
qed (simp add: count_below_def)

lemma operand_at_label:
  assumes fin: "finished bc S" and f: "f \<in> set (fixups S)" "fx_kind f = FIXUP_LABEL"
    and q: "2 \<le> fx_value f" "fx_value f < num_bytes S"
  shows "operand_at bc (fixups S) (fx_pc f) FIXUP_LABEL (mu bc (fixups S) (fx_value f))"
proof -
  have "good_label S f" using fin f by (auto simp: finished_def)
  then have "targets (fixups S) f (fx_value f)" using q(1) by (auto simp: good_label_def pseudo_label_def)
  then have "moved_label bc f = mu bc (fixups S) (fx_value f)"
    using fin sum_growth [of bc "fx_value f" "fixups S"]
    by (simp add: moved_label_def mu_def targets_def finished_def)
  moreover have "mu bc (fixups S) (fx_value f) < 256 ^ numbytes_label bc"
    using fin mu_less [of bc "fixups S" "cg_bytes S" "fx_value f"] q(2) by (simp add: finished_def num_bytes_def)
  ultimately show ?thesis
    using f unfolding operand_at_def by (intro bexI [of _ f]) (auto simp: fixup_operand_def fixup_size_def)
qed

lemma operand_at_pseudo:
  assumes fin: "finished bc S" and f: "f \<in> set (fixups S)" "fx_kind f = FIXUP_LABEL" and ps: "pseudo_label f"
  shows "operand_at bc (fixups S) (fx_pc f) FIXUP_LABEL (fx_value f)"
proof -
  have "numbytes_label bc \<in> {1, 2, 4}" using fin by (auto simp: finished_def laid_out_def widths_ok_def)
  then have "fx_value f < 256 ^ numbytes_label bc" using ps by (auto simp: pseudo_label_def)
  then show ?thesis
    using f ps unfolding operand_at_def
    by (intro bexI [of _ f]) (auto simp: fixup_operand_def fixup_size_def moved_label_def pseudo_label_def)
qed

section \<open>Pieces of code\<close>

definition view :: "bytecodes \<Rightarrow> cg_state \<Rightarrow> var list \<Rightarrow> code_view" where
  "view bc S ls = \<lparr>cv_bc = bc, cv_fixups = fixups S, cv_literals = g_literals (gst S) @ ls, cv_max = max_stack S\<rparr>"

text \<open>
  From \<open>s\<close> to \<open>s'\<close> the fixups have their last values in \<open>S\<close>, but for the pending labels, whose targets are
  sane; and more code follows.
\<close>

definition settled :: "nat set \<Rightarrow> cg_state \<Rightarrow> cg_state \<Rightarrow> cg_state \<Rightarrow> bool" where
  "settled X s s' S \<longleftrightarrow> later s' S \<and> num_bytes s' < num_bytes S
     \<and> (\<forall>i. length (fixups s) \<le> i \<and> i < length (fixups s') \<and> i \<notin> X \<longrightarrow> fixups S ! i = fixups s' ! i)
     \<and> (\<forall>i \<in> X. 2 \<le> fx_value (fixups S ! i) \<and> fx_value (fixups S ! i) < num_bytes S)"

text \<open>The step from \<open>s\<close> to \<open>s'\<close> generates code with the property \<open>P\<close>; \<open>T\<close> gives the targets of labels.\<close>

definition produces ::
  "nat set \<Rightarrow> cg_state \<Rightarrow> cg_state \<Rightarrow> (code_view \<Rightarrow> (nat \<Rightarrow> nat) \<Rightarrow> nat \<Rightarrow> nat \<Rightarrow> bool) \<Rightarrow> bool" where
  "produces X s s' P \<longleftrightarrow> gen X s s'
     \<and> (\<forall>bc S ls. finished bc S \<and> settled X s s' S
          \<longrightarrow> P (view bc S ls) (\<lambda>i. fx_value (fixups S ! i)) (num_bytes s) (num_bytes s'))"

lemma producesI:
  assumes "gen X s s'"
    and "\<And>bc S ls. finished bc S \<Longrightarrow> settled X s s' S
       \<Longrightarrow> P (view bc S ls) (\<lambda>i. fx_value (fixups S ! i)) (num_bytes s) (num_bytes s')"
  shows "produces X s s' P"
  using assms by (simp add: produces_def)

lemma produces_gen: "produces X s s' P \<Longrightarrow> gen X s s'"
  by (simp add: produces_def)

lemma produces_wf: "produces X s s' P \<Longrightarrow> wf_cg s'"
  by (simp add: produces_def gen_def)

lemma produces_fields:
  assumes "produces X s s' P"
  shows "saved_stack s' = saved_stack s" "num_bytes s \<le> num_bytes s'" "length (fixups s) \<le> length (fixups s')"
    "max_stack s \<le> max_stack s'"
  using assms later_num_bytes later_length by (auto simp: produces_def gen_def keeps_def later_def)

lemma produces_weaken:
  assumes "produces X s s' P" "\<And>V T p q. P V T p q \<Longrightarrow> Q V T p q"
  shows "produces X s s' Q"
  using assms by (simp add: produces_def)

lemma produces_seq:
  assumes a: "produces X s s1 P" and b: "produces Y s1 s2 Q"
  shows "produces (X \<union> Y) s s2 (\<lambda>V T p q. \<exists>p1. P V T p p1 \<and> Q V T p1 q)"
proof (rule producesI)
  have g: "gen X s s1" "gen Y s1 s2" using a b by (simp_all add: produces_def)
  show "gen (X \<union> Y) s s2" by (rule gen_trans [OF g])
  fix bc S ls
  assume fin: "finished bc S" and st: "settled (X \<union> Y) s s2 S"
  have l: "later s s1" "later s1 s2" "later s2 S" and k: "keeps s1 s2" using g st by (simp_all add: gen_def settled_def)
  have X: "length (fixups s) \<le> i" "i < length (fixups s1)" if "i \<in> X" for i using g(1) that by (auto simp: gen_def)
  have Y: "length (fixups s1) \<le> i" if "i \<in> Y" for i using g(2) that by (auto simp: gen_def)
  have "fixups S ! i = fixups s1 ! i" if "length (fixups s) \<le> i" "i < length (fixups s1)" "i \<notin> X" for i
    using st that Y [of i] keeps_nth [OF k that(2)] later_length [OF l(2)] by (fastforce simp: settled_def)
  then have "settled X s s1 S"
    using st later_trans [OF l(2,3)] later_num_bytes [OF l(2)] by (auto simp: settled_def)
  moreover have "settled Y s1 s2 S" unfolding settled_def
  proof (intro conjI ballI allI impI)
    fix i assume i: "length (fixups s1) \<le> i \<and> i < length (fixups s2) \<and> i \<notin> Y"
    then have "i \<notin> X \<union> Y" "length (fixups s) \<le> i" using X [of i] later_length [OF l(1)] by auto
    then show "fixups S ! i = fixups s2 ! i" using st i by (simp add: settled_def)
  qed (use st in \<open>auto simp: settled_def\<close>)
  ultimately show "\<exists>p1. P (view bc S ls) (\<lambda>i. fx_value (fixups S ! i)) (num_bytes s) p1
      \<and> Q (view bc S ls) (\<lambda>i. fx_value (fixups S ! i)) p1 (num_bytes s2)"
    using a b fin unfolding produces_def by blast
qed

lemma produces_silent:
  assumes "gen {} s s'" "num_bytes s' = num_bytes s"
  shows "produces {} s s' (\<lambda>V T p q. p = q)"
  using assms by (simp add: produces_def)

lemma produces_popped: "wf_cg s \<Longrightarrow> produces {} s (popped n s) (\<lambda>V T p q. p = q)"
  by (rule produces_silent) (auto intro: gen_refl)

lemma produces_push_stack:
  "wf_cg s \<Longrightarrow> produces {} s (push_stack n s) (\<lambda>V T p q. p = q \<and> cur_stack s + n \<le> cv_max V)"
  by (rule producesI) (auto simp: settled_def later_def view_def intro: gen_refl)

text \<open>A label is defined: its target is the position reached.\<close>

lemma produces_define:
  assumes a: "produces X s s' P" and n: "n \<in> X" and big: "2 \<le> num_bytes s'"
  shows "produces (X - {n}) s (label_defined n s') (\<lambda>V T p q. P V T p q \<and> T n = q)"
proof (rule producesI)
  have g: "gen X s s'" using a by (simp add: produces_def)
  then show "gen (X - {n}) s (label_defined n s')" using n by (rule gen_label_defined)
  fix bc S ls
  assume fin: "finished bc S" and st: "settled (X - {n}) s (label_defined n s') S"
  have len: "length (fixups s) \<le> n" "n < length (fixups s')" using g n by (auto simp: gen_def)
  have v: "fx_value (fixups S ! n) = num_bytes s'"
    using st len
    by (auto simp: settled_def label_defined_def retarget_def capture_label_def here_def num_bytes_def)
  have "fixups S ! i = fixups s' ! i" if "length (fixups s) \<le> i" "i < length (fixups s')" "i \<notin> X" for i
    using st that n by (auto simp: settled_def label_defined_def split: if_splits) (metis nth_list_update_neq)
  then have "settled X s s' S"
    using st v big later_trans [OF later_label_defined, of n s' S] by (auto simp: settled_def)
  then show "P (view bc S ls) (\<lambda>i. fx_value (fixups S ! i)) (num_bytes s) (num_bytes (label_defined n s'))
      \<and> fx_value (fixups S ! n) = num_bytes (label_defined n s')"
    using a fin v by (simp add: produces_def)
qed

end
