(* ===== verification/CodeExpr.thy ===== *)
theory CodeExpr
  imports CodeShape
begin

text \<open>
  The generator of expressions is total on well-formed expressions and generates the code of the
  expression, with the stack one higher; the primitives first, then one lemma for each kind.
\<close>

section \<open>Instructions\<close>

lemma view_fields [simp]:
  "cv_bc (view bc S ls) = bc" "cv_fixups (view bc S ls) = fixups S" "cv_max (view bc S ls) = max_stack S"
  "cv_literals (view bc S ls) = g_literals (gst S) @ ls"
  by (simp_all add: view_def)

lemma finished_laid: "finished bc S \<Longrightarrow> laid_out bc (fixups S) (cg_bytes S)"
  by (simp add: finished_def)

lemma settled_later: "settled X s s' S \<Longrightarrow> later s' S"
  by (simp add: settled_def)

lemma at_view: "at (view bc S ls) p i q \<longleftrightarrow> instr_at bc (fixups S) p i q"
  by (simp add: at_def)

lemma produces_op:
  assumes "wf_cg s" "op \<in> set simple_opcodes"
  shows "produces {} s (emit_op op s) (\<lambda>V T p q. at V p (I_op op) q)"
proof (rule producesI)
  show "gen {} s (emit_op op s)" using gen_refl [OF assms(1)] by auto
  fix bc S ls assume f: "finished bc S" and st: "settled {} s (emit_op op s) S"
  show "at (view bc S ls) (num_bytes s) (I_op op) (num_bytes (emit_op op s))"
    using at_simple [OF finished_laid [OF f] byte_at_op [OF assms(1) settled_later [OF st]] assms(2)]
    by (simp add: at_view)
qed

lemma produces_num:
  assumes "wf_cg s" "IN_OPTIM_NUM_RANGE i"
  shows "produces {} s (emit_byte (OPTIM_NUM_TO_OPCODE i) s) (\<lambda>V T p q. at V p (I_num i) q)"
proof (rule producesI)
  let ?s' = "emit_byte (OPTIM_NUM_TO_OPCODE i) s"
  show "gen {} s ?s'" using gen_refl [OF assms(1)] by auto
  fix bc S ls assume f: "finished bc S" and st: "settled {} s ?s' S"
  show "at (view bc S ls) (num_bytes s) (I_num i) (num_bytes ?s')"
    using at_num [OF finished_laid [OF f] byte_at_emitted [OF assms(1) settled_later [OF st]] assms(2)]
    by (simp add: at_view)
qed

lemma produces_eop:
  assumes "wf_cg s"
    and "(eop, i) \<in> {(EOP_RANGESET, E_rangeset), (EOP_EXP, E_exp), (EOP_CATCH, E_catch),
           (EOP_END_FINALLY, E_end_finally), (EOP_CONTINUE, E_continue)}"
  shows "produces {} s (emit_extended_byte eop s) (\<lambda>V T p q. at V p i q)"
proof (rule producesI)
  show "gen {} s (emit_extended_byte eop s)" using gen_refl [OF assms(1)] by auto
  fix bc S ls assume f: "finished bc S" and st: "settled {} s (emit_extended_byte eop s) S"
  show "at (view bc S ls) (num_bytes s) i (num_bytes (emit_extended_byte eop s))"
    using at_eop [OF finished_laid [OF f] eop_at_emitted [OF assms(1) settled_later [OF st]]] assms(2)
    by (auto simp: at_view)
qed

text \<open>The operand that a fixup becomes.\<close>

lemma fixup_in_final:
  assumes b: "bumped k f s s'" and st: "later s' S"
  shows "fixups S ! length (fixups s) \<in> set (fixups S)" "fx_pc (fixups S ! length (fixups s)) = num_bytes s"
    "fx_kind (fixups S ! length (fixups s)) = k"
proof -
  obtain gs where gs: "skeleton (fixups S) = skeleton (fixups s) @ (k, num_bytes s) # skeleton gs"
    using b st by (auto simp: bumped_def later_def)
  then have len: "length (fixups s) < length (fixups S)" by (metis length_append length_Cons skeleton_simps(4) less_add_Suc1 add_Suc_right)
  then show "fixups S ! length (fixups s) \<in> set (fixups S)" by simp
  have "skeleton (fixups S) ! length (fixups s) = (k, num_bytes s)"
    unfolding gs by (metis nth_append_length skeleton_simps(4))
  then show "fx_pc (fixups S ! length (fixups s)) = num_bytes s" "fx_kind (fixups S ! length (fixups s)) = k"
    using len by (simp_all add: skeleton_def)
qed

lemma value_operand:
  assumes b: "bumped k f s s'" and k: "k \<noteq> FIXUP_LABEL" and st: "settled X s s' S" "X = {}" and fin: "finished bc S"
  shows "operand_at bc (fixups S) (num_bytes s) k (fx_value f)"
proof -
  have "fixups S ! length (fixups s) = f\<lparr>fx_pc := num_bytes s\<rparr>"
    using b st by (auto simp: settled_def bumped_def)
  then show ?thesis
    using operand_at_value [OF fin fixup_in_final(1) [OF b settled_later [OF st(1)]]] fixup_in_final [OF b settled_later [OF st(1)]] k b
    by simp
qed

lemma label_operand:
  assumes b: "bumped FIXUP_LABEL f s s'" and st: "later s' S" and fin: "finished bc S"
    and n: "2 \<le> fx_value (fixups S ! length (fixups s))" "fx_value (fixups S ! length (fixups s)) < num_bytes S"
  shows "operand_at bc (fixups S) (num_bytes s) FIXUP_LABEL
    (mu bc (fixups S) (fx_value (fixups S ! length (fixups s))))"
  using operand_at_label [OF fin fixup_in_final(1,3) [OF b st] n] fixup_in_final(2) [OF b st] by simp

lemma later_emit_op: "later s (emit_op op s)"
  by (simp add: emit_op_def later_emit_byte)

lemma later_emit_extended: "later s (emit_extended_byte eop s)"
  unfolding emit_extended_byte_def using later_emit_op later_emit_byte later_trans by blast

lemma wf_emit_op: "wf_cg s \<Longrightarrow> wf_cg (emit_op op s)"
  by (simp add: emit_op_def wf_emit_byte)

lemma wf_emit_extended: "wf_cg s \<Longrightarrow> wf_cg (emit_extended_byte eop s)"
  by (simp add: emit_extended_byte_def wf_emit_byte wf_emit_op)

text \<open>A pending label after an opcode.\<close>

definition new_label :: "cg_state \<Rightarrow> cg_state" where
  "new_label s = labelled (here FIXUP_LABEL 0 (-1) s) s"

lemma add_label_new: "add_label s = (int (length (fixups s)), new_label s)"
  by (simp add: add_label_eq new_label_def)

lemma new_label_bumped: "bumped FIXUP_LABEL (here FIXUP_LABEL 0 (-1) s) s (new_label s)"
  unfolding new_label_def by (rule labelled_bumped) (simp add: here_def)

lemma new_label_fields [simp]:
  "num_bytes (new_label s) = Suc (num_bytes s)" "cur_stack (new_label s) = cur_stack s"
  "saved_stack (new_label s) = saved_stack s" "max_stack (new_label s) = max_stack s"
  "length (fixups (new_label s)) = Suc (length (fixups s))" "loops (new_label s) = loops s"
  using new_label_bumped [of s] bumped_num_bytes [OF new_label_bumped] by (simp_all add: bumped_def)

lemma gen_new_label: "wf_cg s \<Longrightarrow> gen {length (fixups s)} s (new_label s)"
  by (rule gen_bumped_pending [OF new_label_bumped]) (simp_all add: here_def)

lemma produces_branch:
  assumes w: "wf_cg s" and op: "op \<in> set branch_opcodes"
  shows "produces {length (fixups s)} s (new_label (emit_op op s))
    (\<lambda>V T p q. at V p (I_branch op (lab V (T (length (fixups s))))) q)"
proof (rule producesI)
  let ?s = "emit_op op s"
  show "gen {length (fixups s)} s (new_label ?s)"
    using gen_trans [OF gen_emit_op [OF gen_refl [OF w], of op] gen_new_label [OF wf_emit_op [OF w, of op]]] by simp
  fix bc S ls assume f: "finished bc S" and st: "settled {length (fixups s)} s (new_label ?s) S"
  have l: "later (new_label ?s) S" using st by (rule settled_later)
  have b: "byte_at (fixups S) (cg_bytes S) (num_bytes s) (opcode_num op)"
    using later_trans [OF later_bumped [OF new_label_bumped] l] by (intro byte_at_op [OF w])
  have "operand_at bc (fixups S) (Suc (num_bytes s)) FIXUP_LABEL (mu bc (fixups S) (fx_value (fixups S ! length (fixups s))))"
    using label_operand [OF new_label_bumped l f] st by (simp add: settled_def)
  then show "at (view bc S ls) (num_bytes s)
      (I_branch op (lab (view bc S ls) (fx_value (fixups S ! length (fixups s))))) (num_bytes (new_label ?s))"
    using at_branch [OF finished_laid [OF f] b op] by (simp add: at_view lab_def)
qed

definition label_instr :: "extended_opcode \<Rightarrow> nat \<Rightarrow> instr" where
  "label_instr eop l = (case eop of EOP_PUSH_LABEL \<Rightarrow> E_push_label l | EOP_TRY_FINALLY \<Rightarrow> E_try_finally l
     | EOP_END_CATCH \<Rightarrow> E_end_catch l | _ \<Rightarrow> E_end_except l)"

lemma produces_eop_label:
  assumes w: "wf_cg s" and eop: "eop \<in> {EOP_PUSH_LABEL, EOP_TRY_FINALLY, EOP_END_CATCH, EOP_END_EXCEPT}"
  shows "produces {length (fixups s)} s (new_label (emit_extended_byte eop s))
    (\<lambda>V T p q. at V p (label_instr eop (lab V (T (length (fixups s))))) q)"
proof (rule producesI)
  let ?s = "emit_extended_byte eop s"
  show "gen {length (fixups s)} s (new_label ?s)"
    using gen_trans [OF gen_emit_extended [OF gen_refl [OF w], of eop] gen_new_label [OF wf_emit_extended [OF w, of eop]]] by simp
  fix bc S ls assume f: "finished bc S" and st: "settled {length (fixups s)} s (new_label ?s) S"
  have l: "later (new_label ?s) S" using st by (rule settled_later)
  have b: "eop_at (fixups S) (cg_bytes S) (num_bytes s) eop"
    using later_trans [OF later_bumped [OF new_label_bumped] l] by (intro eop_at_emitted [OF w])
  have "operand_at bc (fixups S) (num_bytes s + 2) FIXUP_LABEL (mu bc (fixups S) (fx_value (fixups S ! length (fixups s))))"
    using label_operand [OF new_label_bumped l f] st by (simp add: settled_def)
  then show "at (view bc S ls) (num_bytes s)
      (label_instr eop (lab (view bc S ls) (fx_value (fixups S ! length (fixups s))))) (num_bytes (new_label ?s))"
    using at_eop_label [OF finished_laid [OF f] b] eop by (auto simp: at_view lab_def label_instr_def eval_nat_numeral)
qed

lemma add_var_ref_fields [simp]:
  "num_bytes (add_var_ref i s) = Suc (num_bytes s)" "cur_stack (add_var_ref i s) = cur_stack s"
  "saved_stack (add_var_ref i s) = saved_stack s" "max_stack (add_var_ref i s) = max_stack s"
  "length (fixups (add_var_ref i s)) = Suc (length (fixups s))" "loops (add_var_ref i s) = loops s"
  using add_var_ref_bumped [of i s] bumped_num_bytes [OF add_var_ref_bumped] by (simp_all add: bumped_def)

lemma gen_add_var_ref: "wf_cg s \<Longrightarrow> gen {} s (add_var_ref i s)"
  by (rule gen_bumped [OF add_var_ref_bumped gen_refl]) auto

lemma var_operand:
  assumes "settled {} s0 (add_var_ref i s) S" "length (fixups s0) \<le> length (fixups s)" "finished bc S"
  shows "operand_at bc (fixups S) (num_bytes s) FIXUP_VAR_REF i"
proof -
  have "settled {} s (add_var_ref i s) S" using assms(1,2) unfolding settled_def by auto
  then show ?thesis using value_operand [OF add_var_ref_bumped _ _ refl assms(3)] by (simp add: here_def)
qed

lemma emit_var_op_fields [simp]:
  "cur_stack (emit_var_op op i s) = cur_stack s" "saved_stack (emit_var_op op i s) = saved_stack s"
  "max_stack (emit_var_op op i s) = max_stack s" "loops (emit_var_op op i s) = loops s"
  by (simp_all add: emit_var_op_def)

lemma produces_var_op:
  assumes w: "wf_cg s" and op: "op = OP_PUSH \<or> op = OP_PUT"
  shows "produces {} s (emit_var_op op i s) (\<lambda>V T p q. if op = OP_PUSH then at V p (I_push i) q else put_code V i p q)"
proof (cases "NUM_READY_VARS \<le> i")
  case True
  let ?s = "emit_byte (opcode_num op + NUM_READY_VARS) s"
  have e: "emit_var_op op i s = add_var_ref i ?s" using True by (simp add: emit_var_op_def)
  show ?thesis
  proof (rule producesI)
    show "gen {} s (emit_var_op op i s)"
      using gen_trans [OF gen_emit_byte [OF gen_refl [OF w]] gen_add_var_ref [OF wf_emit_byte [OF w]]] by (simp add: e)
    fix bc S ls assume f: "finished bc S" and st: "settled {} s (emit_var_op op i s) S"
    have l: "later ?s S"
      using later_trans [OF later_bumped [OF add_var_ref_bumped] settled_later [OF st [unfolded e]]] .
    have o: "operand_at bc (fixups S) (Suc (num_bytes s)) FIXUP_VAR_REF i"
      using var_operand [OF st [unfolded e] _ f] by simp
    show "if op = OP_PUSH then at (view bc S ls) (num_bytes s) (I_push i) (num_bytes (emit_var_op op i s))
        else put_code (view bc S ls) i (num_bytes s) (num_bytes (emit_var_op op i s))"
      unfolding e
      using op at_gpush [OF finished_laid [OF f] _ o] at_gput [OF finished_laid [OF f] _ o] byte_at_emitted [OF w l]
      by (auto simp: at_view put_code_def)
  qed
next
  case False
  then have e: "emit_var_op op i s = emit_byte (opcode_num op + i) s" by (simp add: emit_var_op_def)
  show ?thesis
  proof (rule producesI)
    show "gen {} s (emit_var_op op i s)" using gen_emit_byte [OF gen_refl [OF w]] by (simp add: e)
    fix bc S ls assume f: "finished bc S" and st: "settled {} s (emit_var_op op i s) S"
    show "if op = OP_PUSH then at (view bc S ls) (num_bytes s) (I_push i) (num_bytes (emit_var_op op i s))
        else put_code (view bc S ls) i (num_bytes s) (num_bytes (emit_var_op op i s))"
      unfolding e
      using op False at_push [OF finished_laid [OF f], of "num_bytes s" i] at_put [OF finished_laid [OF f], of "num_bytes s" i]
        byte_at_emitted [OF w settled_later [OF st [unfolded e]]]
      by (auto simp: at_view put_code_def)
  qed
qed

lemmas produces_push = produces_var_op [where op = OP_PUSH, simplified]
lemmas produces_put = produces_var_op [where op = OP_PUT, simplified]

lemma produces_length:
  assumes w: "wf_cg s" and i: "saved_stack s = Some i"
  shows "produces {} s (add_stack_ref i (emit_extended_byte EOP_LENGTH s)) (\<lambda>V T p q. at V p (E_length i) q)"
proof (rule producesI)
  let ?s = "emit_extended_byte EOP_LENGTH s"
  have "i < max_stack ?s" using w i by (simp add: wf_cg_def)
  note b = add_stack_ref_bumped [OF this]
  show "gen {} s (add_stack_ref i ?s)"
    using gen_bumped [OF b gen_emit_extended [OF gen_refl [OF w]]] by simp
  fix bc S ls assume f: "finished bc S" and st: "settled {} s (add_stack_ref i ?s) S"
  have l: "later ?s S" using later_trans [OF later_bumped [OF b] settled_later [OF st]] .
  have "settled {} ?s (add_stack_ref i ?s) S" using st unfolding settled_def by auto
  then have "operand_at bc (fixups S) (num_bytes s + 2) FIXUP_STACK i"
    using value_operand [OF b _ _ refl f] by (simp add: here_def)
  then show "at (view bc S ls) (num_bytes s) (E_length i) (num_bytes (add_stack_ref i ?s))"
    using at_length [OF finished_laid [OF f] eop_at_emitted [OF w l]] bumped_num_bytes [OF b]
    by (simp add: at_view eval_nat_numeral)
qed

lemma produces_call:
  assumes w: "wf_cg s" and func: "func < 256"
  shows "produces {} s (emit_byte func (emit_op OP_BI_FUNC_CALL s)) (\<lambda>V T p q. at V p (I_call func) q)"
proof (rule producesI)
  let ?s = "emit_op OP_BI_FUNC_CALL s"
  show "gen {} s (emit_byte func ?s)" using gen_refl [OF w] by auto
  fix bc S ls assume f: "finished bc S" and st: "settled {} s (emit_byte func ?s) S"
  have l: "later ?s S" using later_trans [OF later_emit_byte settled_later [OF st]] .
  show "at (view bc S ls) (num_bytes s) (I_call func) (num_bytes (emit_byte func ?s))"
    using at_call [OF finished_laid [OF f] byte_at_op [OF w l] _ func]
      byte_at_emitted [OF wf_emit_op [OF w] settled_later [OF st]]
    by (simp add: at_view)
qed

lemma emit_constant_ok:
  assumes w: "wf_cg s" and v: "wf_literal v"
  obtains s' where "emit_constant v s = Some s'" "cur_stack s' = cur_stack s"
    "produces {} s s' (\<lambda>V T p q. constant_code V v p q)"
proof (cases "\<exists>n. v = VInt n \<and> IN_OPTIM_NUM_RANGE (sint n)")
  case True
  then obtain n where n: "v = VInt n" "IN_OPTIM_NUM_RANGE (sint n)" by blast
  show ?thesis
    using that [of "emit_byte (OPTIM_NUM_TO_OPCODE (sint n)) s"] n produces_num [OF w n(2)]
    by (simp add: emit_constant_def) (metis (mono_tags, lifting) constant_code_def produces_weaken)
next
  case False
  let ?s = "emit_op OP_IMM s"
  obtain s' i f where s': "add_literal v ?s = Some s'" and b: "bumped FIXUP_LITERAL f ?s s'" and i: "fx_value f = i"
    and L: "i < length (g_literals (gst s'))" "g_literals (gst s') ! i = v"
    using add_literal_ok [OF wf_emit_op [OF w] v] by metis
  have e: "emit_constant v s = Some s'" using False s' by (auto simp: emit_constant_def split: var.splits)
  have g: "gen {} s s'" using gen_bumped [OF b gen_emit_op [OF gen_refl [OF w]]] by simp
  have "produces {} s s' (\<lambda>V T p q. constant_code V v p q)"
  proof (rule producesI [OF g])
    fix bc S ls assume fin: "finished bc S" and st: "settled {} s s' S"
    have l: "later ?s S" using later_trans [OF later_bumped [OF b] settled_later [OF st]] .
    have "settled {} ?s s' S" using st unfolding settled_def by auto
    then have o: "operand_at bc (fixups S) (Suc (num_bytes s)) FIXUP_LITERAL i"
      using value_operand [OF b _ _ refl fin] i by simp
    have "g_literals (gst S) ! i = v" "i < length (g_literals (gst S))"
      using settled_later [OF st] L by (auto simp: later_def nth_append)
    then show "constant_code (view bc S ls) v (num_bytes s) (num_bytes s')"
      using at_imm [OF finished_laid [OF fin] byte_at_op [OF w l] o] bumped_num_bytes [OF b]
      by (auto simp: constant_code_def at_view nth_append)
  qed
  then show ?thesis using that [OF e] b by (simp add: bumped_def)
qed

section \<open>Expressions\<close>

definition expr_ok :: "expr \<Rightarrow> bool" where
  "expr_ok e \<longleftrightarrow> (\<forall>dl s. wf_expr dl e \<longrightarrow> wf_cg s \<longrightarrow> (dl \<longrightarrow> saved_stack s \<noteq> None) \<longrightarrow>
     (\<exists>s'. generate_expr e s = Some s' \<and> cur_stack s' = Suc (cur_stack s)
        \<and> produces {} s s' (\<lambda>V T. expr_code V e (cur_stack s) (saved_stack s))))"

lemma expr_okI:
  assumes "\<And>dl s. wf_expr dl e \<Longrightarrow> wf_cg s \<Longrightarrow> (dl \<Longrightarrow> saved_stack s \<noteq> None) \<Longrightarrow>
     \<exists>s'. generate_expr e s = Some s' \<and> cur_stack s' = Suc (cur_stack s)
        \<and> produces {} s s' (\<lambda>V T. expr_code V e (cur_stack s) (saved_stack s))"
  shows "expr_ok e"
  using assms by (auto simp: expr_ok_def)

lemma expr_okE:
  assumes "expr_ok e" "wf_expr dl e" "wf_cg s" "dl \<Longrightarrow> saved_stack s \<noteq> None"
  obtains s' where "generate_expr e s = Some s'" "cur_stack s' = Suc (cur_stack s)"
    "produces {} s s' (\<lambda>V T. expr_code V e (cur_stack s) (saved_stack s))"
    "wf_cg s'" "saved_stack s' = saved_stack s"
  using assms unfolding expr_ok_def by (metis produces_wf produces_fields(1))

lemma produces_seq3:
  "produces X s s1 P \<Longrightarrow> produces Y s1 s2 Q \<Longrightarrow> produces Z s2 s3 R
     \<Longrightarrow> produces (X \<union> Y \<union> Z) s s3 (\<lambda>V T p q. \<exists>p1 p2. P V T p p1 \<and> Q V T p1 p2 \<and> R V T p2 q)"
  by (drule (1) produces_seq, drule (1) produces_seq, erule produces_weaken) blast

lemma produces_seq4:
  "produces X s s1 P \<Longrightarrow> produces Y s1 s2 Q \<Longrightarrow> produces Z s2 s3 R \<Longrightarrow> produces W s3 s4 U
     \<Longrightarrow> produces (X \<union> Y \<union> Z \<union> W) s s4
           (\<lambda>V T p q. \<exists>p1 p2 p3. P V T p p1 \<and> Q V T p1 p2 \<and> R V T p2 p3 \<and> U V T p3 q)"
  by (drule (2) produces_seq3, drule (1) produces_seq, erule produces_weaken) blast

lemma produces_op_popped:
  assumes "wf_cg s" "op \<in> set simple_opcodes"
  shows "produces {} s (popped n (emit_op op s)) (\<lambda>V T p q. at V p (I_op op) q)"
  using produces_seq [OF produces_op [OF assms] produces_popped [OF wf_emit_op [OF assms(1)], of op n]] by simp

lemma produces_branch_popped:
  assumes "wf_cg s" "op \<in> set branch_opcodes"
  shows "produces {length (fixups s)} s (popped n (new_label (emit_op op s)))
    (\<lambda>V T p q. at V p (I_branch op (lab V (T (length (fixups s))))) q)"
  using produces_seq [OF produces_branch [OF assms] produces_popped [of _ n]]
    produces_wf [OF produces_branch [OF assms]] by simp

lemma ok_var: "expr_ok (EXPR_VAR v)"
proof (rule expr_okI)
  fix dl s assume "wf_expr dl (EXPR_VAR v)" and w: "wf_cg s"
  then obtain s1 where 1: "emit_constant v s = Some s1" "cur_stack s1 = cur_stack s"
    "produces {} s s1 (\<lambda>V T p q. constant_code V v p q)" using emit_constant_ok by auto
  show "\<exists>s'. generate_expr (EXPR_VAR v) s = Some s' \<and> cur_stack s' = Suc (cur_stack s)
      \<and> produces {} s s' (\<lambda>V T. expr_code V (EXPR_VAR v) (cur_stack s) (saved_stack s))"
    using 1 produces_seq [OF 1(3) produces_push_stack [OF produces_wf [OF 1(3)], of 1]]
    by (auto intro: produces_weaken simp: Suc_le_eq)
qed

lemma ok_id: "expr_ok (EXPR_ID i)"
proof (rule expr_okI)
  fix dl s assume w: "wf_cg s"
  note 1 = produces_push [OF w, of i]
  show "\<exists>s'. generate_expr (EXPR_ID i) s = Some s' \<and> cur_stack s' = Suc (cur_stack s)
      \<and> produces {} s s' (\<lambda>V T. expr_code V (EXPR_ID i) (cur_stack s) (saved_stack s))"
    using produces_seq [OF 1 produces_push_stack [OF produces_wf [OF 1], of 1]]
    by (auto intro: produces_weaken simp: Suc_le_eq)
qed

lemma ok_and_or:
  assumes l: "expr_ok l" and r: "expr_ok r"
  shows "expr_ok (EXPR_AND l r)" "expr_ok (EXPR_OR l r)"
proof -
  have main: "\<exists>s1 s4. generate_expr l s = Some s1 \<and> 1 \<le> cur_stack s1
      \<and> generate_expr r (popped 1 (new_label (emit_op op s1))) = Some s4
      \<and> define_label (int (length (fixups s1))) s4 = Some (label_defined (length (fixups s1)) s4)
      \<and> cur_stack s4 = Suc (cur_stack s)
      \<and> produces {} s (label_defined (length (fixups s1)) s4)
          (\<lambda>V T p q. \<exists>p1 p2. expr_code V l (cur_stack s) (saved_stack s) p p1
             \<and> at V p1 (I_branch op (lab V q)) p2 \<and> expr_code V r (cur_stack s) (saved_stack s) p2 q)"
    if wf: "wf_expr dl l" "wf_expr dl r" and w: "wf_cg s" and dl: "dl \<Longrightarrow> saved_stack s \<noteq> None"
      and op: "op \<in> set branch_opcodes" for dl s op
  proof -
    obtain s1 where 1: "generate_expr l s = Some s1" "cur_stack s1 = Suc (cur_stack s)"
      "produces {} s s1 (\<lambda>V T. expr_code V l (cur_stack s) (saved_stack s))" "wf_cg s1" "saved_stack s1 = saved_stack s"
      using expr_okE [OF l wf(1) w dl] by metis
    let ?n = "length (fixups s1)" and ?s3 = "popped 1 (new_label (emit_op op s1))"
    note 3 = produces_branch_popped [OF 1(4) op, of 1]
    obtain s4 where 4: "generate_expr r ?s3 = Some s4" "cur_stack s4 = Suc (cur_stack ?s3)"
      "produces {} ?s3 s4 (\<lambda>V T. expr_code V r (cur_stack ?s3) (saved_stack ?s3))"
      using expr_okE [OF r wf(2) produces_wf [OF 3]] dl 1(5) by (metis emit_fields(9) new_label_fields(3) popped_fields(3))
    note all = produces_seq3 [OF 1(3) 3 4(3)]
    have "2 \<le> num_bytes s4" using produces_fields(2) [OF 4(3)] by simp
    then have "produces {} s (label_defined ?n s4)
        (\<lambda>V T p q. \<exists>p1 p2. expr_code V l (cur_stack s) (saved_stack s) p p1
             \<and> at V p1 (I_branch op (lab V q)) p2 \<and> expr_code V r (cur_stack s) (saved_stack s) p2 q)"
      using produces_define [OF all, of ?n] 1(2,5) by (auto elim: produces_weaken)
    then show ?thesis using 1 4 define_label_Some [OF produces_gen [OF all], of ?n] by auto
  qed
  show "expr_ok (EXPR_AND l r)"
  proof (rule expr_okI)
    fix dl s assume "wf_expr dl (EXPR_AND l r)" "wf_cg s" "dl \<Longrightarrow> saved_stack s \<noteq> None"
    then show "\<exists>s'. generate_expr (EXPR_AND l r) s = Some s' \<and> cur_stack s' = Suc (cur_stack s)
        \<and> produces {} s s' (\<lambda>V T. expr_code V (EXPR_AND l r) (cur_stack s) (saved_stack s))"
      using main [of dl s OP_AND] by (auto simp: add_label_new branch_opcodes_def)
  qed
  show "expr_ok (EXPR_OR l r)"
  proof (rule expr_okI)
    fix dl s assume "wf_expr dl (EXPR_OR l r)" "wf_cg s" "dl \<Longrightarrow> saved_stack s \<noteq> None"
    then show "\<exists>s'. generate_expr (EXPR_OR l r) s = Some s' \<and> cur_stack s' = Suc (cur_stack s)
        \<and> produces {} s s' (\<lambda>V T. expr_code V (EXPR_OR l r) (cur_stack s) (saved_stack s))"
      using main [of dl s OP_OR] by (auto simp: add_label_new branch_opcodes_def)
  qed
qed

lemma ok_unary:
  assumes e: "expr_ok e"
  shows "expr_ok (EXPR_NEGATE e)" "expr_ok (EXPR_NOT e)"
proof -
  have main: "\<exists>s1. generate_expr e s = Some s1 \<and> cur_stack s1 = Suc (cur_stack s)
      \<and> produces {} s (emit_op op s1) (\<lambda>V T p q. \<exists>p1. expr_code V e (cur_stack s) (saved_stack s) p p1 \<and> at V p1 (I_op op) q)"
    if pre: "wf_expr dl e" "wf_cg s" "dl \<Longrightarrow> saved_stack s \<noteq> None" "op \<in> set simple_opcodes" for dl s op
  proof -
    obtain s1 where 1: "generate_expr e s = Some s1" "cur_stack s1 = Suc (cur_stack s)"
      "produces {} s s1 (\<lambda>V T. expr_code V e (cur_stack s) (saved_stack s))" "wf_cg s1"
      using expr_okE [OF e pre(1-3)] by metis
    show ?thesis using 1 produces_seq [OF 1(3) produces_op [OF 1(4) pre(4)]] by auto
  qed
  show "expr_ok (EXPR_NEGATE e)"
  proof (rule expr_okI)
    fix dl s assume "wf_expr dl (EXPR_NEGATE e)" "wf_cg s" "dl \<Longrightarrow> saved_stack s \<noteq> None"
    then show "\<exists>s'. generate_expr (EXPR_NEGATE e) s = Some s' \<and> cur_stack s' = Suc (cur_stack s)
        \<and> produces {} s s' (\<lambda>V T. expr_code V (EXPR_NEGATE e) (cur_stack s) (saved_stack s))"
      using main [of dl s OP_UNARY_MINUS] by (auto simp: simple_opcodes_def)
  qed
  show "expr_ok (EXPR_NOT e)"
  proof (rule expr_okI)
    fix dl s assume "wf_expr dl (EXPR_NOT e)" "wf_cg s" "dl \<Longrightarrow> saved_stack s \<noteq> None"
    then show "\<exists>s'. generate_expr (EXPR_NOT e) s = Some s' \<and> cur_stack s' = Suc (cur_stack s)
        \<and> produces {} s s' (\<lambda>V T. expr_code V (EXPR_NOT e) (cur_stack s) (saved_stack s))"
      using main [of dl s OP_NOT] by (auto simp: simple_opcodes_def)
  qed
qed

lemma bin_opcode_simple: "bin_opcode k \<in> set simple_opcodes"
  by (cases k) (simp_all add: simple_opcodes_def)

lemma two_operands:
  assumes l: "expr_ok l" and r: "expr_ok r" and wf: "wf_expr dl l" "wf_expr dl r" and w: "wf_cg s"
    and dl: "dl \<Longrightarrow> saved_stack s \<noteq> None"
  obtains s1 s2 where "generate_expr l s = Some s1" "generate_expr r s1 = Some s2"
    "cur_stack s2 = Suc (Suc (cur_stack s))" "wf_cg s2" "saved_stack s2 = saved_stack s"
    "produces {} s s2 (\<lambda>V T p q. \<exists>p1. expr_code V l (cur_stack s) (saved_stack s) p p1
       \<and> expr_code V r (Suc (cur_stack s)) (saved_stack s) p1 q)"
proof -
  obtain s1 where 1: "generate_expr l s = Some s1" "cur_stack s1 = Suc (cur_stack s)"
    "produces {} s s1 (\<lambda>V T. expr_code V l (cur_stack s) (saved_stack s))" "wf_cg s1" "saved_stack s1 = saved_stack s"
    using expr_okE [OF l wf(1) w dl] by metis
  obtain s2 where 2: "generate_expr r s1 = Some s2" "cur_stack s2 = Suc (cur_stack s1)"
    "produces {} s1 s2 (\<lambda>V T. expr_code V r (cur_stack s1) (saved_stack s1))" "wf_cg s2" "saved_stack s2 = saved_stack s1"
    using expr_okE [OF r wf(2) 1(4)] dl 1(5) by metis
  show ?thesis using that [OF 1(1) 2(1)] 1 2 produces_seq [OF 1(3) 2(3)] by simp
qed

lemma ok_bin:
  assumes l: "expr_ok l" and r: "expr_ok r"
  shows "expr_ok (EXPR_BIN k l r)"
proof (rule expr_okI)
  fix dl s assume a: "wf_expr dl (EXPR_BIN k l r)" "wf_cg s" "dl \<Longrightarrow> saved_stack s \<noteq> None"
  then have "wf_expr dl l" "wf_expr dl r" by simp_all
  note ops = two_operands [OF l r this a(2,3)]
  obtain s1 s2 where 2: "generate_expr l s = Some s1" "generate_expr r s1 = Some s2"
    "cur_stack s2 = Suc (Suc (cur_stack s))" "wf_cg s2" "saved_stack s2 = saved_stack s"
    "produces {} s s2 (\<lambda>V T p q. \<exists>p1. expr_code V l (cur_stack s) (saved_stack s) p p1
       \<and> expr_code V r (Suc (cur_stack s)) (saved_stack s) p1 q)"
    by (rule ops)
  show "\<exists>s'. generate_expr (EXPR_BIN k l r) s = Some s' \<and> cur_stack s' = Suc (cur_stack s)
      \<and> produces {} s s' (\<lambda>V T. expr_code V (EXPR_BIN k l r) (cur_stack s) (saved_stack s))"
    using 2 produces_seq [OF 2(6) produces_op_popped [OF 2(4) bin_opcode_simple, of 1 k]]
    by (auto elim!: produces_weaken)
qed

lemma ok_exp:
  assumes l: "expr_ok l" and r: "expr_ok r"
  shows "expr_ok (EXPR_EXP l r)"
proof (rule expr_okI)
  fix dl s assume a: "wf_expr dl (EXPR_EXP l r)" "wf_cg s" "dl \<Longrightarrow> saved_stack s \<noteq> None"
  then have "wf_expr dl l" "wf_expr dl r" by simp_all
  note ops = two_operands [OF l r this a(2,3)]
  obtain s1 s2 where 2: "generate_expr l s = Some s1" "generate_expr r s1 = Some s2"
    "cur_stack s2 = Suc (Suc (cur_stack s))" "wf_cg s2" "saved_stack s2 = saved_stack s"
    "produces {} s s2 (\<lambda>V T p q. \<exists>p1. expr_code V l (cur_stack s) (saved_stack s) p p1
       \<and> expr_code V r (Suc (cur_stack s)) (saved_stack s) p1 q)"
    by (rule ops)
  have 3: "produces {} s2 (emit_extended_byte EOP_EXP s2) (\<lambda>V T p q. at V p E_exp q)"
    using 2(4) by (rule produces_eop) simp
  show "\<exists>s'. generate_expr (EXPR_EXP l r) s = Some s' \<and> cur_stack s' = Suc (cur_stack s)
      \<and> produces {} s s' (\<lambda>V T. expr_code V (EXPR_EXP l r) (cur_stack s) (saved_stack s))"
    using 2 produces_seq3 [OF 2(6) 3 produces_popped [OF produces_wf [OF 3], of 1]] by (auto elim!: produces_weaken)
qed

text \<open>Under an index the value below the top is what \<^verbatim>\<open>$\<close> refers to.\<close>

definition saved_top :: "cg_state \<Rightarrow> cg_state" where
  "saved_top s = s\<lparr>saved_stack := Some (cur_stack s - 1)\<rparr>"

lemma save_stack_top_Some: "0 < cur_stack s \<Longrightarrow> save_stack_top s = Some (saved_stack s, saved_top s)"
  by (simp add: save_stack_top_def saved_top_def)

lemma saved_top_fields [simp]:
  "cur_stack (saved_top s) = cur_stack s" "saved_stack (saved_top s) = Some (cur_stack s - 1)"
  "num_bytes (saved_top s) = num_bytes s" "fixups (saved_top s) = fixups s"
  by (simp_all add: saved_top_def num_bytes_def)

lemma wf_saved_top: "wf_cg s \<Longrightarrow> 0 < cur_stack s \<Longrightarrow> wf_cg (saved_top s)"
  by (auto simp: wf_cg_def saved_top_def num_bytes_def operand_ok_def split: fixup_kind.splits)

lemma produces_restore:
  assumes p: "produces X (saved_top s) s' P" and w: "wf_cg s"
  shows "produces X s (restore_stack_top (saved_stack s) s') P"
proof (rule producesI)
  let ?s' = "restore_stack_top (saved_stack s) s'"
  have g: "gen X (saved_top s) s'" using p by (simp add: produces_def)
  have same: "later s s'" "later s' ?s'" "later ?s' s'"
    using g by (auto simp: gen_def later_def saved_top_def num_bytes_def restore_stack_top_def intro: exI [of _ "[]"])
  have good: "good_label ?s' f = good_label s' f" for f
    by (simp add: good_label_def)
  have "wf_cg ?s'"
    using g w same(1) by (fastforce simp: gen_def wf_cg_def later_def restore_stack_top_def num_bytes_def operand_ok_def
        split: fixup_kind.splits)
  then show "gen X s ?s'"
    using g same later_trans [of s s' ?s'] by (auto simp: gen_def keeps_def good saved_top_def)
  fix bc S ls assume f: "finished bc S" and st: "settled X s ?s' S"
  have "settled X (saved_top s) s' S"
    using st later_trans [OF same(2)] by (auto simp: settled_def)
  then show "P (view bc S ls) (\<lambda>i. fx_value (fixups S ! i)) (num_bytes s) (num_bytes ?s')"
    using p f by (auto simp: produces_def)
qed

lemma ok_index:
  assumes l: "expr_ok l" and r: "expr_ok r"
  shows "expr_ok (EXPR_INDEX l r)"
proof (rule expr_okI)
  fix dl s assume a: "wf_expr dl (EXPR_INDEX l r)" "wf_cg s" "dl \<Longrightarrow> saved_stack s \<noteq> None"
  then have wl: "wf_expr dl l" and wr: "wf_expr True r" by simp_all
  obtain s1 where 1: "generate_expr l s = Some s1" "cur_stack s1 = Suc (cur_stack s)"
    "produces {} s s1 (\<lambda>V T. expr_code V l (cur_stack s) (saved_stack s))" "wf_cg s1" "saved_stack s1 = saved_stack s"
    using expr_okE [OF l wl a(2,3)] by metis
  have "0 < cur_stack s1" using 1(2) by simp
  note sv = save_stack_top_Some [OF this] wf_saved_top [OF 1(4) this]
  obtain s2 where 2: "generate_expr r (saved_top s1) = Some s2" "cur_stack s2 = Suc (cur_stack s1)"
    "produces {} (saved_top s1) s2 (\<lambda>V T. expr_code V r (cur_stack s1) (Some (cur_stack s1 - 1)))"
    using expr_okE [OF r wr sv(2)] by (metis option.distinct(1) saved_top_fields(1,2))
  note 3 = produces_restore [OF 2(3) 1(4)]
  have simple: "OP_REF \<in> set simple_opcodes" by (simp add: simple_opcodes_def)
  show "\<exists>s'. generate_expr (EXPR_INDEX l r) s = Some s' \<and> cur_stack s' = Suc (cur_stack s)
      \<and> produces {} s s' (\<lambda>V T. expr_code V (EXPR_INDEX l r) (cur_stack s) (saved_stack s))"
    using 1 2 sv(1) produces_seq3 [OF 1(3) 3 produces_op_popped [OF produces_wf [OF 3] simple, of 1]]
    by (auto elim!: produces_weaken)
qed

text \<open>Two operands under an index.\<close>

lemma range_operands:
  assumes f: "expr_ok from" "wf_expr True from" and t: "expr_ok to" "wf_expr True to"
    and w: "wf_cg s" and pos: "0 < cur_stack s"
  obtains s1 s2 where "save_stack_top s = Some (saved_stack s, saved_top s)"
    "generate_expr from (saved_top s) = Some s1" "generate_expr to s1 = Some s2"
    "cur_stack s2 = Suc (Suc (cur_stack s))" "wf_cg (restore_stack_top (saved_stack s) s2)"
    "produces {} s (restore_stack_top (saved_stack s) s2)
       (\<lambda>V T p q. \<exists>p1. expr_code V from (cur_stack s) (Some (cur_stack s - 1)) p p1
          \<and> expr_code V to (Suc (cur_stack s)) (Some (cur_stack s - 1)) p1 q)"
proof -
  have w': "wf_cg (saved_top s)" using w pos by (rule wf_saved_top)
  obtain s1 s2 where 2: "generate_expr from (saved_top s) = Some s1" "generate_expr to s1 = Some s2"
    "cur_stack s2 = Suc (Suc (cur_stack s))"
    "produces {} (saved_top s) s2 (\<lambda>V T p q. \<exists>p1. expr_code V from (cur_stack s) (Some (cur_stack s - 1)) p p1
       \<and> expr_code V to (Suc (cur_stack s)) (Some (cur_stack s - 1)) p1 q)"
    using two_operands [OF f(1) t(1) f(2) t(2) w'] unfolding saved_top_fields by blast
  note 3 = produces_restore [OF 2(4) w]
  show ?thesis using that [OF save_stack_top_Some [OF pos] 2(1-3) produces_wf [OF 3] 3] .
qed

lemma ok_range:
  assumes b: "expr_ok base" and f: "expr_ok from" and t: "expr_ok to"
  shows "expr_ok (EXPR_RANGE base from to)"
proof (rule expr_okI)
  fix dl s assume a: "wf_expr dl (EXPR_RANGE base from to)" "wf_cg s" "dl \<Longrightarrow> saved_stack s \<noteq> None"
  then have wb: "wf_expr dl base" and wf: "wf_expr True from" and wt: "wf_expr True to" by simp_all
  obtain s1 where 1: "generate_expr base s = Some s1" "cur_stack s1 = Suc (cur_stack s)"
    "produces {} s s1 (\<lambda>V T. expr_code V base (cur_stack s) (saved_stack s))" "wf_cg s1" "saved_stack s1 = saved_stack s"
    using expr_okE [OF b wb a(2,3)] by metis
  have "0 < cur_stack s1" using 1(2) by simp
  then obtain s2 s3 where 2: "save_stack_top s1 = Some (saved_stack s1, saved_top s1)"
    "generate_expr from (saved_top s1) = Some s2" "generate_expr to s2 = Some s3"
    "cur_stack s3 = Suc (Suc (cur_stack s1))" "wf_cg (restore_stack_top (saved_stack s1) s3)"
    "produces {} s1 (restore_stack_top (saved_stack s1) s3)
       (\<lambda>V T p q. \<exists>p1. expr_code V from (cur_stack s1) (Some (cur_stack s1 - 1)) p p1
          \<and> expr_code V to (Suc (cur_stack s1)) (Some (cur_stack s1 - 1)) p1 q)"
    using range_operands [OF f wf t wt 1(4)] by blast
  have simple: "OP_RANGE_REF \<in> set simple_opcodes" by (simp add: simple_opcodes_def)
  show "\<exists>s'. generate_expr (EXPR_RANGE base from to) s = Some s' \<and> cur_stack s' = Suc (cur_stack s)
      \<and> produces {} s s' (\<lambda>V T. expr_code V (EXPR_RANGE base from to) (cur_stack s) (saved_stack s))"
    using 1 2 produces_seq3 [OF 1(3) 2(6) produces_op_popped [OF 2(5) simple, of 2]]
    by (auto elim!: produces_weaken) 
qed

lemma ok_length: "expr_ok EXPR_LENGTH"
proof (rule expr_okI)
  fix dl s assume "wf_expr dl EXPR_LENGTH" and w: "wf_cg s" and "dl \<Longrightarrow> saved_stack s \<noteq> None"
  then obtain i where i: "saved_stack s = Some i" by auto
  note 1 = produces_length [OF w i]
  have cur: "cur_stack (add_stack_ref i (emit_extended_byte EOP_LENGTH s)) = cur_stack s"
    using add_stack_ref_bumped [of i "emit_extended_byte EOP_LENGTH s"] w i by (simp add: bumped_def wf_cg_def)
  show "\<exists>s'. generate_expr EXPR_LENGTH s = Some s' \<and> cur_stack s' = Suc (cur_stack s)
      \<and> produces {} s s' (\<lambda>V T. expr_code V EXPR_LENGTH (cur_stack s) (saved_stack s))"
    using i cur produces_seq [OF 1 produces_push_stack [OF produces_wf [OF 1], of 1]]
    by (auto intro: produces_weaken simp: Suc_le_eq)
qed

section \<open>Lists of arguments and calls\<close>

definition arg_ok :: "arg \<Rightarrow> bool" where
  "arg_ok a \<longleftrightarrow> (case a of Arg k e \<Rightarrow> expr_ok e)"

lemma arg_opcode_simple: "arg_opcode first k \<in> set simple_opcodes"
  by (cases first; cases k) (simp_all add: simple_opcodes_def)

lemma args_ok:
  assumes "\<forall>a \<in> set args. arg_ok a" "wf_args dl args" "wf_cg s" "dl \<Longrightarrow> saved_stack s \<noteq> None"
    and "cur_stack s = (if first then d else Suc d)"
  shows "\<exists>s'. generate_arg_list first args s = Some s' \<and> cur_stack s' = Suc d
    \<and> produces {} s s' (\<lambda>V T. args_code V first args d (saved_stack s))"
  using assms
proof (induction args arbitrary: first s)
  case Nil
  show ?case
  proof (cases first)
    case True
    have 1: "produces {} s (emit_op OP_MAKE_EMPTY_LIST s) (\<lambda>V T p q. at V p (I_op OP_MAKE_EMPTY_LIST) q)"
      using Nil(3) by (intro produces_op) (simp_all add: simple_opcodes_def)
    show ?thesis
      using True Nil(5) produces_seq [OF 1 produces_push_stack [OF produces_wf [OF 1], of 1]]
      by (auto intro: produces_weaken simp: Suc_le_eq)
  next
    case False
    then show ?thesis using Nil produces_silent [of s s] by (auto intro: gen_refl)
  qed
next
  case (Cons a args)
  obtain k e where a: "a = Arg k e" by (cases a)
  have e: "expr_ok e" "wf_expr dl e" using Cons.prems a by (auto simp: arg_ok_def)
  obtain s1 where 1: "generate_expr e s = Some s1" "cur_stack s1 = Suc (cur_stack s)"
    "produces {} s s1 (\<lambda>V T. expr_code V e (cur_stack s) (saved_stack s))" "wf_cg s1" "saved_stack s1 = saved_stack s"
    using expr_okE [OF e Cons.prems(3,4)] by metis
  let ?n = "if first then 0 else 1" and ?op = "arg_opcode first k"
  let ?s2 = "popped ?n (emit_op ?op s1)"
  note 2 = produces_op_popped [OF 1(4) arg_opcode_simple, of ?n first k]
  have "cur_stack ?s2 = (if False then d else Suc d)" using 1(2) Cons.prems(5) by simp
  moreover have "dl \<Longrightarrow> saved_stack ?s2 \<noteq> None" using Cons.prems(4) 1(5) by simp
  moreover have "wf_args dl args" "\<forall>a \<in> set args. arg_ok a" using Cons.prems a by simp_all
  ultimately obtain s3 where 3: "generate_arg_list False args ?s2 = Some s3" "cur_stack s3 = Suc d"
    "produces {} ?s2 s3 (\<lambda>V T. args_code V False args d (saved_stack ?s2))"
    using Cons.IH [of ?s2 False] produces_wf [OF 2] by blast
  have "produces {} s s3 (\<lambda>V T. args_code V first (a # args) d (saved_stack s))"
    using produces_seq3 [OF 1(3) 2 3(3)] 1(5) Cons.prems(5) a by (auto elim!: produces_weaken)
  then show ?case using 1 3 a Cons.prems(5) by auto
qed

lemma first_args_ok:
  assumes "\<forall>a \<in> set args. arg_ok a" "wf_args dl args" "wf_cg s" "dl \<Longrightarrow> saved_stack s \<noteq> None"
  obtains s' where "generate_arg_list True args s = Some s'" "cur_stack s' = Suc (cur_stack s)"
    "produces {} s s' (\<lambda>V T. args_code V True args (cur_stack s) (saved_stack s))" "wf_cg s'"
    "saved_stack s' = saved_stack s"
  using args_ok [OF assms, of True "cur_stack s"] by (metis produces_wf produces_fields(1))

lemma ok_list:
  assumes "\<forall>a \<in> set args. arg_ok a"
  shows "expr_ok (EXPR_LIST args)"
proof (rule expr_okI)
  fix dl s assume a: "wf_expr dl (EXPR_LIST args)" "wf_cg s" "dl \<Longrightarrow> saved_stack s \<noteq> None"
  then have "wf_args dl args" by simp
  then show "\<exists>s'. generate_expr (EXPR_LIST args) s = Some s' \<and> cur_stack s' = Suc (cur_stack s)
      \<and> produces {} s s' (\<lambda>V T. expr_code V (EXPR_LIST args) (cur_stack s) (saved_stack s))"
    using first_args_ok [OF assms _ a(2,3)] by simp metis
qed

lemma ok_call:
  assumes "\<forall>a \<in> set args. arg_ok a"
  shows "expr_ok (EXPR_CALL func args)"
proof (rule expr_okI)
  fix dl s assume a: "wf_expr dl (EXPR_CALL func args)" "wf_cg s" "dl \<Longrightarrow> saved_stack s \<noteq> None"
  then have wf: "wf_args dl args" "func < 256" by simp_all
  obtain s1 where 1: "generate_arg_list True args s = Some s1" "cur_stack s1 = Suc (cur_stack s)"
    "produces {} s s1 (\<lambda>V T. args_code V True args (cur_stack s) (saved_stack s))" "wf_cg s1"
    using first_args_ok [OF assms wf(1) a(2,3)] by metis
  show "\<exists>s'. generate_expr (EXPR_CALL func args) s = Some s' \<and> cur_stack s' = Suc (cur_stack s)
      \<and> produces {} s s' (\<lambda>V T. expr_code V (EXPR_CALL func args) (cur_stack s) (saved_stack s))"
    using 1 produces_seq [OF 1(3) produces_call [OF 1(4) wf(2)]] by simp
qed

lemma ok_verb:
  assumes o: "expr_ok obj" and v: "expr_ok verb" and args: "\<forall>a \<in> set args. arg_ok a"
  shows "expr_ok (EXPR_VERB obj verb args)"
proof (rule expr_okI)
  fix dl s assume a: "wf_expr dl (EXPR_VERB obj verb args)" "wf_cg s" "dl \<Longrightarrow> saved_stack s \<noteq> None"
  then have wf: "wf_expr dl obj" "wf_expr dl verb" "wf_args dl args" by simp_all
  obtain s1 s2 where 2: "generate_expr obj s = Some s1" "generate_expr verb s1 = Some s2"
    "cur_stack s2 = Suc (Suc (cur_stack s))" "wf_cg s2" "saved_stack s2 = saved_stack s"
    "produces {} s s2 (\<lambda>V T p q. \<exists>p1. expr_code V obj (cur_stack s) (saved_stack s) p p1
       \<and> expr_code V verb (Suc (cur_stack s)) (saved_stack s) p1 q)"
    by (rule two_operands [OF o v wf(1,2) a(2,3)])
  obtain s3 where 3: "generate_arg_list True args s2 = Some s3" "cur_stack s3 = Suc (cur_stack s2)"
    "produces {} s2 s3 (\<lambda>V T. args_code V True args (cur_stack s2) (saved_stack s2))" "wf_cg s3"
    using first_args_ok [OF args wf(3) 2(4)] a(3) 2(5) by metis
  have simple: "OP_CALL_VERB \<in> set simple_opcodes" by (simp add: simple_opcodes_def)
  show "\<exists>s'. generate_expr (EXPR_VERB obj verb args) s = Some s' \<and> cur_stack s' = Suc (cur_stack s)
      \<and> produces {} s s' (\<lambda>V T. expr_code V (EXPR_VERB obj verb args) (cur_stack s) (saved_stack s))"
    using 2 3 produces_seq3 [OF 2(6) 3(3) produces_op_popped [OF 3(4) simple, of 2]]
    by (auto elim!: produces_weaken)
qed

section \<open>Conditionals and catching\<close>

lemma ok_cond:
  assumes c: "expr_ok c" and t: "expr_ok t" and e: "expr_ok e"
  shows "expr_ok (EXPR_COND c t e)"
proof (rule expr_okI)
  fix dl s assume a: "wf_expr dl (EXPR_COND c t e)" "wf_cg s" "dl \<Longrightarrow> saved_stack s \<noteq> None"
  then have wf: "wf_expr dl c" "wf_expr dl t" "wf_expr dl e" by simp_all
  obtain s1 where 1: "generate_expr c s = Some s1" "cur_stack s1 = Suc (cur_stack s)"
    "produces {} s s1 (\<lambda>V T. expr_code V c (cur_stack s) (saved_stack s))" "wf_cg s1" "saved_stack s1 = saved_stack s"
    using expr_okE [OF c wf(1) a(2,3)] by metis
  have branches: "OP_IF_QUES \<in> set branch_opcodes" "OP_JUMP \<in> set branch_opcodes"
    by (simp_all add: branch_opcodes_def)
  let ?n = "length (fixups s1)" and ?s2 = "popped 1 (new_label (emit_op OP_IF_QUES s1))"
  note 2 = produces_branch_popped [OF 1(4) branches(1), of 1]
  obtain s3 where 3: "generate_expr t ?s2 = Some s3" "cur_stack s3 = Suc (cur_stack ?s2)"
    "produces {} ?s2 s3 (\<lambda>V T. expr_code V t (cur_stack ?s2) (saved_stack ?s2))" "wf_cg s3" "saved_stack s3 = saved_stack ?s2"
    using expr_okE [OF t wf(2) produces_wf [OF 2]] a(3) 1(5) by (metis emit_fields(9) new_label_fields(3) popped_fields(3))
  let ?m = "length (fixups s3)" and ?s4 = "popped 1 (new_label (emit_op OP_JUMP s3))"
  note 4 = produces_branch_popped [OF 3(4) branches(2), of 1]
  have nm: "?n \<noteq> ?m" using produces_fields(3) [OF 3(3)] by simp
  note part = produces_seq4 [OF 1(3) 2 3(3) 4]
  have "2 \<le> num_bytes ?s4" by simp
  moreover have "?n \<in> {} \<union> {?n} \<union> {} \<union> {?m}" by simp
  moreover have "{} \<union> {?n} \<union> {} \<union> {?m} - {?n} = {?m}" using nm by auto
  ultimately have 5: "produces {?m} s (label_defined ?n ?s4)
      (\<lambda>V T p q. (\<exists>p1 p2 p3. expr_code V c (cur_stack s) (saved_stack s) p p1
        \<and> at V p1 (I_branch OP_IF_QUES (lab V (T ?n))) p2 \<and> expr_code V t (cur_stack ?s2) (saved_stack ?s2) p2 p3
        \<and> at V p3 (I_branch OP_JUMP (lab V (T ?m))) q) \<and> T ?n = q)"
    using produces_define [OF part, of ?n] by simp
  let ?s5 = "label_defined ?n ?s4"
  obtain s6 where 6: "generate_expr e ?s5 = Some s6" "cur_stack s6 = Suc (cur_stack ?s5)"
    "produces {} ?s5 s6 (\<lambda>V T. expr_code V e (cur_stack ?s5) (saved_stack ?s5))"
    using expr_okE [OF e wf(3) produces_wf [OF 5]] a(3) 1(5) 3(5)
    by simp (metis emit_fields(9) new_label_fields(3) popped_fields(3))
  have 7: "produces {?m} s s6 (\<lambda>V T p q. \<exists>r. (\<exists>p1 p2 p3. expr_code V c (cur_stack s) (saved_stack s) p p1
      \<and> at V p1 (I_branch OP_IF_QUES (lab V r)) p2 \<and> expr_code V t (cur_stack s) (saved_stack s) p2 p3
      \<and> at V p3 (I_branch OP_JUMP (lab V (T ?m))) r) \<and> expr_code V e (cur_stack s) (saved_stack s) r q)"
    using produces_seq [OF 5 6(3)] nm 1(2,5) 3(2,5) by (auto elim!: produces_weaken) 
  have "2 \<le> num_bytes s6" using produces_fields(2) [OF 6(3)] by simp
  then have "produces {} s (label_defined ?m s6) (\<lambda>V T. expr_code V (EXPR_COND c t e) (cur_stack s) (saved_stack s))"
    using produces_define [OF 7, of ?m] by (auto elim!: produces_weaken) 
  moreover have "define_label (int ?n) ?s4 = Some ?s5" "define_label (int ?m) s6 = Some (label_defined ?m s6)"
    using define_label_Some [OF produces_gen [OF part], of ?n] define_label_Some [OF produces_gen [OF 7], of ?m] by auto
  ultimately show "\<exists>s'. generate_expr (EXPR_COND c t e) s = Some s' \<and> cur_stack s' = Suc (cur_stack s)
      \<and> produces {} s s' (\<lambda>V T. expr_code V (EXPR_COND c t e) (cur_stack s) (saved_stack s))"
    using 1 3 6 by (auto simp: add_label_new)
qed

text \<open>What comes before and after the guarded expression.\<close>

definition codes_code :: "code_view \<Rightarrow> arg list \<Rightarrow> nat \<Rightarrow> nat option \<Rightarrow> nat \<Rightarrow> nat \<Rightarrow> bool" where
  "codes_code V codes d sv p q \<longleftrightarrow>
     (if codes = [] then d < cv_max V \<and> at V p (I_num 0) q else args_code V True codes d sv p q)"

definition handler_code :: "code_view \<Rightarrow> expr option \<Rightarrow> nat \<Rightarrow> nat option \<Rightarrow> nat \<Rightarrow> nat \<Rightarrow> bool" where
  "handler_code V except d sv p q \<longleftrightarrow> (case except of
     Some h \<Rightarrow> \<exists>p6. at V p (I_op OP_POP) p6 \<and> expr_code V h d sv p6 q
   | None \<Rightarrow> \<exists>p6. at V p (I_num 1) p6 \<and> at V p6 (I_op OP_REF) q)"

lemma expr_code_catch:
  "expr_code V (EXPR_CATCH e codes except) d sv p q \<longleftrightarrow>
     (\<exists>p1 p2 p3 p4 p5. codes_code V codes d sv p p1 \<and> Suc (Suc d) < cv_max V \<and> at V p1 (E_push_label (lab V p5)) p2
        \<and> at V p2 E_catch p3 \<and> expr_code V e (Suc (Suc (Suc d))) sv p3 p4 \<and> at V p4 (E_end_catch (lab V q)) p5
        \<and> handler_code V except d sv p5 q)"
  by (simp add: codes_code_def handler_code_def)

lemma codes_ok:
  assumes "\<forall>a \<in> set codes. arg_ok a" "wf_args dl codes" "wf_cg s" "dl \<Longrightarrow> saved_stack s \<noteq> None"
  obtains s' where "generate_codes codes s = Some s'" "cur_stack s' = Suc (cur_stack s)"
    "produces {} s s' (\<lambda>V T. codes_code V codes (cur_stack s) (saved_stack s))" "wf_cg s'"
    "saved_stack s' = saved_stack s"
proof (cases "codes = []")
  case True
  let ?s = "emit_byte (OPTIM_NUM_TO_OPCODE 0) s"
  have 1: "produces {} s ?s (\<lambda>V T p q. at V p (I_num 0) q)"
    using assms(3) by (rule produces_num) (simp add: IN_OPTIM_NUM_RANGE_def OPTIM_NUM_LOW_def OPTIM_NUM_HI_def
        OPTIM_NUM_START_def Last_Opcode_def)
  have 2: "produces {} s (push_stack 1 ?s) (\<lambda>V T. codes_code V codes (cur_stack s) (saved_stack s))"
    using produces_seq [OF 1 produces_push_stack [OF produces_wf [OF 1], of 1]] True
    by (auto elim!: produces_weaken simp: codes_code_def Suc_le_eq)
  show ?thesis using that [OF _ _ 2 produces_wf [OF 2]] True by (simp add: generate_codes_def)
next
  case False
  obtain s' where 1: "generate_arg_list True codes s = Some s'" "cur_stack s' = Suc (cur_stack s)"
    "produces {} s s' (\<lambda>V T. args_code V True codes (cur_stack s) (saved_stack s))" "wf_cg s'"
    "saved_stack s' = saved_stack s"
    using first_args_ok [OF assms] by metis
  have 2: "produces {} s s' (\<lambda>V T. codes_code V codes (cur_stack s) (saved_stack s))"
    using 1(3) False by (auto elim!: produces_weaken simp: codes_code_def)
  show ?thesis using that [OF _ 1(2) 2 1(4,5)] 1(1) False by (simp add: generate_codes_def)
qed

lemma handler_ok:
  assumes h: "case except of None \<Rightarrow> True | Some h \<Rightarrow> expr_ok h \<and> wf_expr dl h"
    and w: "wf_cg s" and dl: "dl \<Longrightarrow> saved_stack s \<noteq> None" and d: "cur_stack s = Suc d"
  obtains s' where "(case except of Some h \<Rightarrow> do { s \<leftarrow> pop_stack 1 (emit_op OP_POP s); generate_expr h s }
      | None \<Rightarrow> Some (emit_op OP_REF (emit_byte (OPTIM_NUM_TO_OPCODE 1) s))) = Some s'"
    "cur_stack s' = Suc d" "produces {} s s' (\<lambda>V T. handler_code V except d (saved_stack s))"
proof (cases except)
  case None
  have 1: "produces {} s (emit_byte (OPTIM_NUM_TO_OPCODE 1) s) (\<lambda>V T p q. at V p (I_num 1) q)"
    using w by (rule produces_num) (simp add: IN_OPTIM_NUM_RANGE_def OPTIM_NUM_LOW_def OPTIM_NUM_HI_def
        OPTIM_NUM_START_def Last_Opcode_def)
  have simple: "OP_REF \<in> set simple_opcodes" by (simp add: simple_opcodes_def)
  have "produces {} s (emit_op OP_REF (emit_byte (OPTIM_NUM_TO_OPCODE 1) s)) (\<lambda>V T. handler_code V except d (saved_stack s))"
    using produces_seq [OF 1 produces_op [OF produces_wf [OF 1] simple]] None
    by (auto elim!: produces_weaken simp: handler_code_def)
  then show ?thesis using that None d by simp
next
  case (Some e)
  have simple: "OP_POP \<in> set simple_opcodes" by (simp add: simple_opcodes_def)
  note 1 = produces_op_popped [OF w simple, of 1]
  obtain s1 where 2: "generate_expr e (popped 1 (emit_op OP_POP s)) = Some s1"
    "cur_stack s1 = Suc (cur_stack (popped 1 (emit_op OP_POP s)))"
    "produces {} (popped 1 (emit_op OP_POP s)) s1 (\<lambda>V T. expr_code V e (cur_stack (popped 1 (emit_op OP_POP s))) (saved_stack (popped 1 (emit_op OP_POP s))))"
    using expr_okE [of e dl "popped 1 (emit_op OP_POP s)"] h Some produces_wf [OF 1] dl by auto
  have "produces {} s s1 (\<lambda>V T. handler_code V except d (saved_stack s))"
    using produces_seq [OF 1 2(3)] Some d by (auto elim!: produces_weaken simp: handler_code_def)
  then show ?thesis using that [of s1] 2(1,2) Some d by simp
qed

lemma ok_catch:
  assumes e: "expr_ok e" and codes: "\<forall>a \<in> set codes. arg_ok a" and h: "\<forall>h. except = Some h \<longrightarrow> expr_ok h"
  shows "expr_ok (EXPR_CATCH e codes except)"
proof (rule expr_okI)
  fix dl s assume a: "wf_expr dl (EXPR_CATCH e codes except)" "wf_cg s" "dl \<Longrightarrow> saved_stack s \<noteq> None"
  then have wf: "wf_expr dl e" "wf_args dl codes" "case except of None \<Rightarrow> True | Some h \<Rightarrow> expr_ok h \<and> wf_expr dl h"
    using h by (simp_all split: option.splits)
  obtain s1 where 1: "generate_codes codes s = Some s1" "cur_stack s1 = Suc (cur_stack s)"
    "produces {} s s1 (\<lambda>V T. codes_code V codes (cur_stack s) (saved_stack s))" "wf_cg s1" "saved_stack s1 = saved_stack s"
    using codes_ok [OF codes wf(2) a(2,3)] by metis
  let ?n = "length (fixups s1)"
  let ?s2 = "push_stack 1 (new_label (emit_extended_byte EOP_PUSH_LABEL s1))"
  have push: "produces {?n} s1 (new_label (emit_extended_byte EOP_PUSH_LABEL s1)) (\<lambda>V T p q. at V p (E_push_label (lab V (T ?n))) q)"
    using produces_eop_label [OF 1(4), of EOP_PUSH_LABEL] by (simp add: label_instr_def)
  have 2: "produces {?n} s1 ?s2 (\<lambda>V T p q. at V p (E_push_label (lab V (T ?n))) q)"
    using produces_seq [OF push produces_push_stack [OF produces_wf [OF push], of 1]] by (auto elim!: produces_weaken)
  let ?s3 = "push_stack 1 (emit_extended_byte EOP_CATCH ?s2)"
  have ct: "produces {} ?s2 (emit_extended_byte EOP_CATCH ?s2) (\<lambda>V T p q. at V p E_catch q)"
    using produces_wf [OF 2] by (rule produces_eop) simp
  have 3: "produces {} ?s2 ?s3 (\<lambda>V T p q. at V p E_catch q \<and> Suc (Suc (cur_stack s)) < cv_max V)"
    using produces_seq [OF ct produces_push_stack [OF produces_wf [OF ct], of 1]] 1(2)
    by (auto elim!: produces_weaken simp: Suc_le_eq)
  have d3: "dl \<Longrightarrow> saved_stack ?s3 \<noteq> None" using a(3) 1(5) by simp
  obtain s4 where 4: "generate_expr e ?s3 = Some s4" "cur_stack s4 = Suc (cur_stack ?s3)"
    "produces {} ?s3 s4 (\<lambda>V T. expr_code V e (cur_stack ?s3) (saved_stack ?s3))" "wf_cg s4" "saved_stack s4 = saved_stack ?s3"
    using expr_okE [OF e wf(1) produces_wf [OF 3] d3] by metis
  let ?m = "length (fixups s4)"
  let ?s5 = "popped 3 (new_label (emit_extended_byte EOP_END_CATCH s4))"
  have ec: "produces {?m} s4 (new_label (emit_extended_byte EOP_END_CATCH s4)) (\<lambda>V T p q. at V p (E_end_catch (lab V (T ?m))) q)"
    using produces_eop_label [OF 4(4), of EOP_END_CATCH] by (simp add: label_instr_def)
  have 5: "produces {?m} s4 ?s5 (\<lambda>V T p q. at V p (E_end_catch (lab V (T ?m))) q)"
    using produces_seq [OF ec produces_popped [OF produces_wf [OF ec], of 3]] by (auto elim!: produces_weaken)
  have nm: "?n \<noteq> ?m" using produces_fields(3) [OF 4(3)] by simp
  note part = produces_seq [OF produces_seq4 [OF 1(3) 2 3 4(3)] 5]
  let ?s6 = "label_defined ?n ?s5"
  have "2 \<le> num_bytes ?s5" by simp
  moreover have "?n \<in> {} \<union> {?n} \<union> {} \<union> {} \<union> {?m}" by simp
  moreover have "{} \<union> {?n} \<union> {} \<union> {} \<union> {?m} - {?n} = {?m}" using nm by auto
  ultimately have 6: "produces {?m} s ?s6 (\<lambda>V T p q. (\<exists>p4. (\<exists>p1 p2 p3. codes_code V codes (cur_stack s) (saved_stack s) p p1
        \<and> at V p1 (E_push_label (lab V (T ?n))) p2 \<and> (at V p2 E_catch p3 \<and> Suc (Suc (cur_stack s)) < cv_max V)
        \<and> expr_code V e (cur_stack ?s3) (saved_stack ?s3) p3 p4)
        \<and> at V p4 (E_end_catch (lab V (T ?m))) q) \<and> T ?n = q)"
    using produces_define [OF part, of ?n] by simp
  have c6: "cur_stack ?s6 = Suc (cur_stack s)" using 1(2) 4(2) by simp
  have d6: "dl \<Longrightarrow> saved_stack ?s6 \<noteq> None" using d3 4(5) by simp
  obtain s7 where 7: "(case except of Some h \<Rightarrow> do { s \<leftarrow> pop_stack 1 (emit_op OP_POP ?s6); generate_expr h s }
      | None \<Rightarrow> Some (emit_op OP_REF (emit_byte (OPTIM_NUM_TO_OPCODE 1) ?s6))) = Some s7"
    "cur_stack s7 = Suc (cur_stack s)" "produces {} ?s6 s7 (\<lambda>V T. handler_code V except (cur_stack s) (saved_stack ?s6))"
    using handler_ok [OF wf(3) produces_wf [OF 6] d6 c6] by metis
  note 8 = produces_seq [OF 6 7(3)]
  have "2 \<le> num_bytes s7" using produces_fields(2) [OF 7(3)] by simp
  then have "produces {} s (label_defined ?m s7) (\<lambda>V T. expr_code V (EXPR_CATCH e codes except) (cur_stack s) (saved_stack s))"
    using produces_define [OF 8, of ?m] 1(2,5) 4(2,5)
    by (auto elim!: produces_weaken simp: expr_code_catch simp del: expr_code.simps) blast
  moreover have "define_label (int ?n) ?s5 = Some ?s6" "define_label (int ?m) s7 = Some (label_defined ?m s7)"
    using define_label_Some [OF produces_gen [OF part], of ?n] define_label_Some [OF produces_gen [OF 8], of ?m] by auto
  ultimately show "\<exists>s'. generate_expr (EXPR_CATCH e codes except) s = Some s' \<and> cur_stack s' = Suc (cur_stack s)
      \<and> produces {} s s' (\<lambda>V T. expr_code V (EXPR_CATCH e codes except) (cur_stack s) (saved_stack s))"
    using 1 4 7 by (auto simp: add_label_new generate_codes_def [symmetric])
qed

end
