(* ===== verification/CodeAssign.thy ===== *)
theory CodeAssign
  imports CodeExpr
begin

text \<open>
  Assignments: the operands of an indexed left-hand side and the stores from the inside out, and scattering
  assignments with their table of slots and labels.  Then the generator is total on every well-formed
  expression, and its code has the shape of the expression.
\<close>

section \<open>Left-hand sides\<close>

definition lval_ok :: "expr \<Rightarrow> bool" where
  "lval_ok e \<longleftrightarrow> (\<forall>dl inner s. wf_lvalue dl inner e \<longrightarrow> wf_cg s \<longrightarrow> (dl \<longrightarrow> saved_stack s \<noteq> None) \<longrightarrow>
     (\<exists>s'. push_lvalue e inner s = Some s' \<and> cur_stack s' = cur_stack s + lval_depth e inner
        \<and> produces {} s s' (\<lambda>V T. lval_code V e inner (cur_stack s) (saved_stack s))))"

lemma lval_okI:
  assumes "\<And>dl inner s. wf_lvalue dl inner e \<Longrightarrow> wf_cg s \<Longrightarrow> (dl \<Longrightarrow> saved_stack s \<noteq> None) \<Longrightarrow>
     \<exists>s'. push_lvalue e inner s = Some s' \<and> cur_stack s' = cur_stack s + lval_depth e inner
        \<and> produces {} s s' (\<lambda>V T. lval_code V e inner (cur_stack s) (saved_stack s))"
  shows "lval_ok e"
  using assms by (auto simp: lval_ok_def)

lemma lval_okE:
  assumes "lval_ok e" "wf_lvalue dl inner e" "wf_cg s" "dl \<Longrightarrow> saved_stack s \<noteq> None"
  obtains s' where "push_lvalue e inner s = Some s'" "cur_stack s' = cur_stack s + lval_depth e inner"
    "produces {} s s' (\<lambda>V T. lval_code V e inner (cur_stack s) (saved_stack s))"
    "wf_cg s'" "saved_stack s' = saved_stack s"
  using assms unfolding lval_ok_def by (metis produces_wf produces_fields(1))

lemma lval_depth_inner: "wf_lvalue dl True e \<Longrightarrow> 0 < lval_depth e True"
  by (cases e) simp_all

lemma produces_op_pushed:
  assumes "wf_cg s" "op \<in> set simple_opcodes"
  shows "produces {} s (push_stack 1 (emit_op op s)) (\<lambda>V T p q. at V p (I_op op) q \<and> cur_stack s < cv_max V)"
  using produces_seq [OF produces_op [OF assms] produces_push_stack [OF wf_emit_op [OF assms(1)], of op 1]]
  by (auto elim!: produces_weaken simp: Suc_le_eq)

lemma lval_id: "lval_ok (EXPR_ID i)"
proof (rule lval_okI)
  fix dl inner s assume w: "wf_cg s"
  note 1 = produces_push [OF w, of i]
  show "\<exists>s'. push_lvalue (EXPR_ID i) inner s = Some s' \<and> cur_stack s' = cur_stack s + lval_depth (EXPR_ID i) inner
      \<and> produces {} s s' (\<lambda>V T. lval_code V (EXPR_ID i) inner (cur_stack s) (saved_stack s))"
    using produces_seq [OF 1 produces_push_stack [OF produces_wf [OF 1], of 1]]
      produces_silent [OF gen_refl [OF w] refl] by (cases inner) (auto elim!: produces_weaken simp: Suc_le_eq)
qed

lemma lval_bin:
  assumes l: "expr_ok l" and r: "expr_ok r"
  shows "lval_ok (EXPR_BIN k l r)"
proof (rule lval_okI)
  fix dl inner s assume a: "wf_lvalue dl inner (EXPR_BIN k l r)" "wf_cg s" "dl \<Longrightarrow> saved_stack s \<noteq> None"
  then have k: "k = EXPR_PROP" and wf: "wf_expr dl l" "wf_expr dl r" by simp_all
  obtain s1 s2 where 2: "generate_expr l s = Some s1" "generate_expr r s1 = Some s2"
    "cur_stack s2 = Suc (Suc (cur_stack s))" "wf_cg s2" "saved_stack s2 = saved_stack s"
    "produces {} s s2 (\<lambda>V T p q. \<exists>p1. expr_code V l (cur_stack s) (saved_stack s) p p1
       \<and> expr_code V r (Suc (cur_stack s)) (saved_stack s) p1 q)"
    by (rule two_operands [OF l r wf a(2,3)])
  have simple: "OP_PUSH_GET_PROP \<in> set simple_opcodes" by (simp add: simple_opcodes_def)
  show "\<exists>s'. push_lvalue (EXPR_BIN k l r) inner s = Some s' \<and> cur_stack s' = cur_stack s + lval_depth (EXPR_BIN k l r) inner
      \<and> produces {} s s' (\<lambda>V T. lval_code V (EXPR_BIN k l r) inner (cur_stack s) (saved_stack s))"
    using 2 k produces_seq [OF 2(6) produces_op_pushed [OF 2(4) simple]]
    by (cases inner) (auto elim!: produces_weaken)
qed

lemma lval_index:
  assumes l: "lval_ok l" and r: "expr_ok r"
  shows "lval_ok (EXPR_INDEX l r)"
proof (rule lval_okI)
  fix dl inner s assume a: "wf_lvalue dl inner (EXPR_INDEX l r)" "wf_cg s" "dl \<Longrightarrow> saved_stack s \<noteq> None"
  then have wf: "wf_lvalue dl True l" "wf_expr True r" by simp_all
  obtain s1 where 1: "push_lvalue l True s = Some s1" "cur_stack s1 = cur_stack s + lval_depth l True"
    "produces {} s s1 (\<lambda>V T. lval_code V l True (cur_stack s) (saved_stack s))" "wf_cg s1" "saved_stack s1 = saved_stack s"
    using lval_okE [OF l wf(1) a(2,3)] by metis
  have pos: "0 < cur_stack s1" using 1(2) lval_depth_inner [OF wf(1)] by simp
  note sv = save_stack_top_Some [OF pos] wf_saved_top [OF 1(4) pos]
  obtain s2 where 2: "generate_expr r (saved_top s1) = Some s2" "cur_stack s2 = Suc (cur_stack s1)"
    "produces {} (saved_top s1) s2 (\<lambda>V T. expr_code V r (cur_stack s1) (Some (cur_stack s1 - 1)))"
    using expr_okE [OF r wf(2) sv(2)] by (metis option.distinct(1) saved_top_fields(1,2))
  note 3 = produces_restore [OF 2(3) 1(4)]
  have simple: "OP_PUSH_REF \<in> set simple_opcodes" by (simp add: simple_opcodes_def)
  have cur: "cur_stack (restore_stack_top old s2) = cur_stack s2" for old by (simp add: restore_stack_top_def)
  show "\<exists>s'. push_lvalue (EXPR_INDEX l r) inner s = Some s' \<and> cur_stack s' = cur_stack s + lval_depth (EXPR_INDEX l r) inner
      \<and> produces {} s s' (\<lambda>V T. lval_code V (EXPR_INDEX l r) inner (cur_stack s) (saved_stack s))"
    using 1 2 sv(1) cur produces_seq3 [OF 1(3) 3 produces_op_pushed [OF produces_wf [OF 3] simple]]
      produces_seq [OF 1(3) 3]
    by (cases inner) (auto elim!: produces_weaken simp: Let_def)
qed

lemma lval_range:
  assumes b: "lval_ok base" and f: "expr_ok from" and t: "expr_ok to"
  shows "lval_ok (EXPR_RANGE base from to)"
proof (rule lval_okI)
  fix dl inner s assume a: "wf_lvalue dl inner (EXPR_RANGE base from to)" "wf_cg s" "dl \<Longrightarrow> saved_stack s \<noteq> None"
  then have wf: "wf_lvalue dl True base" "wf_expr True from" "wf_expr True to" by simp_all
  obtain s1 where 1: "push_lvalue base True s = Some s1" "cur_stack s1 = cur_stack s + lval_depth base True"
    "produces {} s s1 (\<lambda>V T. lval_code V base True (cur_stack s) (saved_stack s))" "wf_cg s1" "saved_stack s1 = saved_stack s"
    using lval_okE [OF b wf(1) a(2,3)] by metis
  have "0 < cur_stack s1" using 1(2) lval_depth_inner [OF wf(1)] by simp
  then obtain s2 s3 where 2: "save_stack_top s1 = Some (saved_stack s1, saved_top s1)"
    "generate_expr from (saved_top s1) = Some s2" "generate_expr to s2 = Some s3"
    "cur_stack s3 = Suc (Suc (cur_stack s1))" "wf_cg (restore_stack_top (saved_stack s1) s3)"
    "produces {} s1 (restore_stack_top (saved_stack s1) s3)
       (\<lambda>V T p q. \<exists>p1. expr_code V from (cur_stack s1) (Some (cur_stack s1 - 1)) p p1
          \<and> expr_code V to (Suc (cur_stack s1)) (Some (cur_stack s1 - 1)) p1 q)"
    using range_operands [OF f wf(2) t wf(3) 1(4)] by blast
  have cur: "cur_stack (restore_stack_top old s3) = cur_stack s3" for old by (simp add: restore_stack_top_def)
  show "\<exists>s'. push_lvalue (EXPR_RANGE base from to) inner s = Some s'
      \<and> cur_stack s' = cur_stack s + lval_depth (EXPR_RANGE base from to) inner
      \<and> produces {} s s' (\<lambda>V T. lval_code V (EXPR_RANGE base from to) inner (cur_stack s) (saved_stack s))"
    using 1 2 cur produces_seq [OF 1(3) 2(6)] by (auto elim!: produces_weaken simp: Let_def)
qed

text \<open>The stores keep one value, the one that was assigned.\<close>

lemma lval_depth_True: "wf_lvalue dl True e \<Longrightarrow> lval_depth e True = Suc (lval_depth e False)"
  by (cases e) simp_all

lemma produces_rangeset:
  assumes "wf_cg s"
  shows "produces {} s (popped 3 (emit_extended_byte EOP_RANGESET s)) (\<lambda>V T p q. at V p E_rangeset q)"
  using produces_seq [OF produces_eop [OF assms, of EOP_RANGESET E_rangeset] produces_popped [OF wf_emit_extended [OF assms, of EOP_RANGESET], of 3]]
  by simp

lemma store_ok:
  assumes "wf_lvalue dl inner e" "wf_cg s" "cur_stack s = Suc (d + lval_depth e False)"
  shows "\<exists>s'. store_lvalue e ix s = Some (ix \<or> is_indexed_lvalue e, s') \<and> cur_stack s' = Suc d
    \<and> produces {} s s' (\<lambda>V T. store_code V e)"
  using assms
proof (induction e ix s arbitrary: inner rule: store_lvalue.induct)
  case (1 base u v ix s)
  let ?s = "popped 3 (emit_extended_byte EOP_RANGESET s)"
  have wf: "wf_lvalue dl True base" using 1(2) by simp
  note p = produces_rangeset [OF 1(3)]
  have cur: "cur_stack ?s = Suc (d + lval_depth base False)" using 1(4) lval_depth_True [OF wf] by simp
  have "pop_stack 3 (emit_extended_byte EOP_RANGESET s) = Some ?s" using 1(4) by simp
  then obtain s' where s': "store_lvalue base True ?s = Some (True, s')" "cur_stack s' = Suc d"
    "produces {} ?s s' (\<lambda>V T. store_code V base)"
    using 1(1) [OF _ wf produces_wf [OF p] cur] by auto
  then show ?case using produces_seq [OF p s'(3)] 1(4) by auto
next
  case (2 lhs u ix s)
  let ?s = "popped 2 (emit_op OP_INDEXSET s)"
  have wf: "wf_lvalue dl True lhs" using 2(2) by simp
  have simple: "OP_INDEXSET \<in> set simple_opcodes" by (simp add: simple_opcodes_def)
  note p = produces_op_popped [OF 2(3) simple, of 2]
  have cur: "cur_stack ?s = Suc (d + lval_depth lhs False)" using 2(4) lval_depth_True [OF wf] by simp
  have "pop_stack 2 (emit_op OP_INDEXSET s) = Some ?s" using 2(4) by simp
  then obtain s' where s': "store_lvalue lhs True ?s = Some (True, s')" "cur_stack s' = Suc d"
    "produces {} ?s s' (\<lambda>V T. store_code V lhs)"
    using 2(1) [OF _ wf produces_wf [OF p] cur] by auto
  then show ?case using produces_seq [OF p s'(3)] 2(4) by auto
next
  case (3 i ix s)
  then show ?case using produces_put [of s i] by simp
next
  case (4 u v ix s)
  have simple: "OP_PUT_PROP \<in> set simple_opcodes" by (simp add: simple_opcodes_def)
  show ?case using 4 produces_op_popped [OF 4(2) simple, of 2] by simp
qed simp_all

lemma expr_code_assign:
  assumes "\<And>scs. lhs \<noteq> EXPR_SCATTER scs"
  shows "expr_code V (EXPR_ASGN lhs rhs) d sv p q \<longleftrightarrow>
    (\<exists>p1 p2. lval_code V lhs False d sv p p1 \<and> expr_code V rhs (d + lval_depth lhs False) sv p1 p2
       \<and> (if is_indexed_lvalue lhs
          then \<exists>p3 p4 p5. at V p2 (I_op OP_PUT_TEMP) p3 \<and> store_code V lhs p3 p4 \<and> at V p4 (I_op OP_POP) p5
             \<and> at V p5 (I_op OP_PUSH_TEMP) q
          else store_code V lhs p2 q))"
  using assms by (cases lhs) auto

lemma generate_assign:
  assumes "\<And>scs. lhs \<noteq> EXPR_SCATTER scs"
  shows "generate_expr (EXPR_ASGN lhs rhs) s = do {
     s \<leftarrow> push_lvalue lhs False s;
     s \<leftarrow> generate_expr rhs s;
     (indexed, s) \<leftarrow> store_lvalue lhs False (if is_indexed_lvalue lhs then emit_op OP_PUT_TEMP s else s);
     Some (if indexed then emit_op OP_PUSH_TEMP (emit_op OP_POP s) else s) }"
  using assms by (cases lhs) auto

lemma ok_assign:
  assumes l: "lval_ok lhs" and r: "expr_ok rhs" and plain: "\<And>scs. lhs \<noteq> EXPR_SCATTER scs"
  shows "expr_ok (EXPR_ASGN lhs rhs)"
proof (rule expr_okI)
  fix dl s assume a: "wf_expr dl (EXPR_ASGN lhs rhs)" "wf_cg s" "dl \<Longrightarrow> saved_stack s \<noteq> None"
  have wf: "wf_expr dl rhs" "wf_lvalue dl False lhs" using a(1) plain by (cases lhs; simp)+
  obtain s1 where 1: "push_lvalue lhs False s = Some s1" "cur_stack s1 = cur_stack s + lval_depth lhs False"
    "produces {} s s1 (\<lambda>V T. lval_code V lhs False (cur_stack s) (saved_stack s))" "wf_cg s1" "saved_stack s1 = saved_stack s"
    using lval_okE [OF l wf(2) a(2,3)] by metis
  obtain s2 where 2: "generate_expr rhs s1 = Some s2" "cur_stack s2 = Suc (cur_stack s1)"
    "produces {} s1 s2 (\<lambda>V T. expr_code V rhs (cur_stack s1) (saved_stack s1))" "wf_cg s2"
    using expr_okE [OF r wf(1) 1(4)] a(3) 1(5) by metis
  have simple: "OP_PUT_TEMP \<in> set simple_opcodes" "OP_POP \<in> set simple_opcodes" "OP_PUSH_TEMP \<in> set simple_opcodes"
    by (simp_all add: simple_opcodes_def)
  note two = produces_seq [OF 1(3) 2(3)]
  show "\<exists>s'. generate_expr (EXPR_ASGN lhs rhs) s = Some s' \<and> cur_stack s' = Suc (cur_stack s)
      \<and> produces {} s s' (\<lambda>V T. expr_code V (EXPR_ASGN lhs rhs) (cur_stack s) (saved_stack s))"
  proof (cases "is_indexed_lvalue lhs")
    case True
    let ?s3 = "emit_op OP_PUT_TEMP s2"
    note 3 = produces_op [OF 2(4) simple(1)]
    have "cur_stack ?s3 = Suc (cur_stack s + lval_depth lhs False)" using 1(2) 2(2) by simp
    then obtain s4 where 4: "store_lvalue lhs False ?s3 = Some (True, s4)" "cur_stack s4 = Suc (cur_stack s)"
      "produces {} ?s3 s4 (\<lambda>V T. store_code V lhs)"
      using store_ok [OF wf(2) produces_wf [OF 3]] True by auto
    note 5 = produces_op [OF produces_wf [OF 4(3)] simple(2)]
    note 6 = produces_op [OF produces_wf [OF 5] simple(3)]
    have "produces {} s (emit_op OP_PUSH_TEMP (emit_op OP_POP s4))
        (\<lambda>V T. expr_code V (EXPR_ASGN lhs rhs) (cur_stack s) (saved_stack s))"
      unfolding expr_code_assign [OF plain]
      by (rule produces_weaken [OF produces_seq [OF two produces_seq4 [OF 3 4(3) 5 6], simplified]])
        (use True 1(2,5) in simp, blast)
    then show ?thesis
      unfolding generate_assign [OF plain] using 1(1) 2(1) 4(1,2) True by simp
  next
    case False
    obtain s4 where 4: "store_lvalue lhs False s2 = Some (False, s4)" "cur_stack s4 = Suc (cur_stack s)"
      "produces {} s2 s4 (\<lambda>V T. store_code V lhs)"
      using store_ok [OF wf(2) 2(4)] False 1(2) 2(2) by auto
    have "produces {} s s4 (\<lambda>V T. expr_code V (EXPR_ASGN lhs rhs) (cur_stack s) (saved_stack s))"
      unfolding expr_code_assign [OF plain]
      by (rule produces_weaken [OF produces_seq [OF two 4(3), simplified]]) (use False 1(2,5) in simp, blast)
    then show ?thesis
      unfolding generate_assign [OF plain] using 1(1) 2(1) 4(1,2) False by simp
  qed
qed

section \<open>Scattering assignments\<close>

text \<open>Reading a vector from an old position to another.\<close>

definition reads :: "(bytecodes \<Rightarrow> nat) \<Rightarrow> code_view \<Rightarrow> nat \<Rightarrow> nat \<Rightarrow> nat \<Rightarrow> bool" where
  "reads w V v p q \<longleftrightarrow> READ_BYTES (bc_vector (cv_bc V)) (lab V p) (w (cv_bc V)) = Some (v, lab V q)"

definition reads_eop :: "extended_opcode \<Rightarrow> code_view \<Rightarrow> nat \<Rightarrow> nat \<Rightarrow> bool" where
  "reads_eop eop V p q \<longleftrightarrow> decode (cv_bc V) (lab V p) = decode_extended (cv_bc V) (extended_opcode_num eop) (lab V q)"

lemma produces_reads_eop:
  assumes w: "wf_cg s"
  shows "produces {} s (emit_extended_byte eop s) (\<lambda>V T. reads_eop eop V)"
proof (rule producesI)
  show "gen {} s (emit_extended_byte eop s)" using gen_refl [OF w] by auto
  fix bc S ls assume f: "finished bc S" and st: "settled {} s (emit_extended_byte eop s) S"
  show "reads_eop eop (view bc S ls) (num_bytes s) (num_bytes (emit_extended_byte eop s))"
    using decode_eop [OF finished_laid [OF f] eop_at_emitted [OF w settled_later [OF st]]]
    by (simp add: reads_eop_def lab_def)
qed

lemma produces_reads_byte:
  assumes w: "wf_cg s" and b: "b < 256"
  shows "produces {} s (emit_byte b s) (\<lambda>V T. reads (\<lambda>_. 1) V b)"
proof (rule producesI)
  show "gen {} s (emit_byte b s)" using gen_refl [OF w] by auto
  fix bc S ls assume f: "finished bc S" and st: "settled {} s (emit_byte b s) S"
  show "reads (\<lambda>_. 1) (view bc S ls) b (num_bytes s) (num_bytes (emit_byte b s))"
    using read_byte [OF finished_laid [OF f] byte_at_emitted [OF w settled_later [OF st]] b]
    by (simp add: reads_def lab_def)
qed

lemma produces_reads_var:
  assumes w: "wf_cg s"
  shows "produces {} s (add_var_ref i s) (\<lambda>V T. reads numbytes_var_name V i)"
proof (rule producesI)
  show "gen {} s (add_var_ref i s)" using w by (rule gen_add_var_ref)
  fix bc S ls assume f: "finished bc S" and st: "settled {} s (add_var_ref i s) S"
  show "reads numbytes_var_name (view bc S ls) i (num_bytes s) (num_bytes (add_var_ref i s))"
    using read_operand(4) [OF finished_laid [OF f] var_operand [OF st order_refl f]] by (simp add: reads_def lab_def)
qed

lemma produces_reads_label:
  assumes w: "wf_cg s"
  shows "produces {length (fixups s)} s (new_label s) (\<lambda>V T. reads numbytes_label V (lab V (T (length (fixups s)))))"
proof (rule producesI)
  show "gen {length (fixups s)} s (new_label s)" using w by (rule gen_new_label)
  fix bc S ls assume f: "finished bc S" and st: "settled {length (fixups s)} s (new_label s) S"
  show "reads numbytes_label (view bc S ls) (lab (view bc S ls) (fx_value (fixups S ! length (fixups s))))
      (num_bytes s) (num_bytes (new_label s))"
    using read_operand(1) [OF finished_laid [OF f] label_operand [OF new_label_bumped settled_later [OF st] f]] st
    by (simp add: reads_def lab_def settled_def)
qed

text \<open>A mark of a target without a default.\<close>

lemma produces_reads_mark:
  assumes w: "wf_cg s" and v: "v < 2"
  shows "produces {} s (add_pseudo_label v s) (\<lambda>V T. reads numbytes_label V v)"
proof -
  define f where "f = \<lparr>fx_kind = FIXUP_LABEL, fx_pc = 0, fx_value = v, prev_literals = 0,
     prev_forks = 0, prev_var_refs = 0, prev_labels = 0, prev_stacks = 0, fx_next = -1\<rparr>"
  have e: "add_pseudo_label v s = labelled f s" by (simp add: add_pseudo_label_eq f_def)
  have b: "bumped FIXUP_LABEL f s (labelled f s)" by (rule labelled_bumped) (simp add: f_def)
  have ps: "pseudo_label (f\<lparr>fx_pc := n\<rparr>)" for n using v by (simp add: pseudo_label_def f_def)
  have g: "gen {} s (labelled f s)"
    using gen_bumped [OF b gen_refl [OF w]] ps by (simp add: good_label_def)
  show ?thesis unfolding e
  proof (rule producesI [OF g])
    fix bc S ls assume fin: "finished bc S" and st: "settled {} s (labelled f s) S"
    note l = settled_later [OF st]
    have "fixups S ! length (fixups s) = f\<lparr>fx_pc := num_bytes s\<rparr>" using b st by (auto simp: settled_def bumped_def)
    then have "operand_at bc (fixups S) (num_bytes s) FIXUP_LABEL v"
      using operand_at_pseudo [OF fin fixup_in_final(1,3) [OF b l]] ps by (simp add: f_def)
    then show "reads numbytes_label (view bc S ls) v (num_bytes s) (num_bytes (labelled f s))"
      using read_operand(1) [OF finished_laid [OF fin]] bumped_num_bytes [OF b] by (simp add: reads_def lab_def)
  qed
qed

lemma add_pseudo_label_fields [simp]:
  "num_bytes (add_pseudo_label v s) = Suc (num_bytes s)" "cur_stack (add_pseudo_label v s) = cur_stack s"
  "saved_stack (add_pseudo_label v s) = saved_stack s"
  "length (fixups (add_pseudo_label v s)) = Suc (length (fixups s))"
  using bumped_num_bytes [OF labelled_bumped] labelled_bumped unfolding add_pseudo_label_eq
  by (simp_all add: bumped_def)

text \<open>The table of a scattering assignment, with the labels that are pending.\<close>

fun scatter_targets :: "code_view \<Rightarrow> (nat \<Rightarrow> nat) \<Rightarrow> scatter list \<Rightarrow> int list \<Rightarrow> (nat \<times> nat) list" where
  "scatter_targets V T (Scatter k i dflt # scs) (l # ls) =
     (i, if k \<noteq> SCAT_OPTIONAL then 0 else case dflt of None \<Rightarrow> 1 | Some _ \<Rightarrow> lab V (T (nat l)))
     # scatter_targets V T scs ls"
| "scatter_targets V T _ _ = []"

definition has_default :: "scatter \<Rightarrow> bool" where
  "has_default sc \<longleftrightarrow> (case sc of Scatter k _ dflt \<Rightarrow> k = SCAT_OPTIONAL \<and> dflt \<noteq> None)"

fun pending :: "scatter list \<Rightarrow> int list \<Rightarrow> nat list" where
  "pending (sc # scs) (l # ls) = (if has_default sc then [nat l] else []) @ pending scs ls"
| "pending _ _ = []"

fun labels_fit :: "scatter list \<Rightarrow> int list \<Rightarrow> bool" where
  "labels_fit [] [] = True"
| "labels_fit (sc # scs) (l # ls) = ((has_default sc \<longrightarrow> 0 \<le> l) \<and> labels_fit scs ls)"
| "labels_fit _ _ = False"

lemma scatter_operands_ok:
  assumes "wf_cg s"
  shows "\<exists>ls s'. scatter_operands scs s = (ls, s') \<and> labels_fit scs ls \<and> distinct (pending scs ls)
    \<and> cur_stack s' = cur_stack s \<and> produces (set (pending scs ls)) s s'
        (\<lambda>V T p q. read_scatter (cv_bc V) (length scs) (lab V p) = Some (scatter_targets V T scs ls, lab V q))"
  using assms
proof (induction scs arbitrary: s)
  case Nil
  show ?case by (simp add: produces_weaken [OF produces_silent [OF gen_refl [OF Nil] refl]])
next
  case (Cons sc scs)
  obtain k i dflt where sc: "sc = Scatter k i dflt" by (cases sc)
  let ?s1 = "add_var_ref i s"
  note 1 = produces_reads_var [OF Cons.prems, of i]
  define r where "r = (if k \<noteq> SCAT_OPTIONAL then (-1, add_pseudo_label 0 ?s1)
    else case dflt of None \<Rightarrow> (-1, add_pseudo_label 1 ?s1) | Some _ \<Rightarrow> add_label ?s1)"
  obtain l s2 where r: "r = (l, s2)" by fastforce
  let ?X = "if has_default sc then {nat l} else {}"
  have 2: "produces ?X ?s1 s2 (\<lambda>V T. reads numbytes_label V (if k \<noteq> SCAT_OPTIONAL then 0
      else case dflt of None \<Rightarrow> 1 | Some _ \<Rightarrow> lab V (T (nat l))))"
    and l: "has_default sc \<Longrightarrow> l = int (length (fixups ?s1))" and cur: "cur_stack s2 = cur_stack s"
    using r produces_reads_label [OF produces_wf [OF 1]] produces_reads_mark [OF produces_wf [OF 1], of 0]
      produces_reads_mark [OF produces_wf [OF 1], of 1]
    by (auto simp: r_def sc has_default_def add_label_new nat_add_distrib split: if_splits option.splits)
  obtain ls s3 where 3: "scatter_operands scs s2 = (ls, s3)" "labels_fit scs ls" "distinct (pending scs ls)"
    "cur_stack s3 = cur_stack s2" "produces (set (pending scs ls)) s2 s3
        (\<lambda>V T p q. read_scatter (cv_bc V) (length scs) (lab V p) = Some (scatter_targets V T scs ls, lab V q))"
    using Cons.IH [OF produces_wf [OF 2]] by blast
  have "nat l \<notin> set (pending scs ls)" if "has_default sc"
  proof
    assume "nat l \<in> set (pending scs ls)"
    then have "length (fixups s2) \<le> nat l" using produces_gen [OF 3(5)] by (auto simp: gen_def)
    moreover have "s2 = new_label ?s1"
      using r that by (auto simp: r_def sc has_default_def add_label_new)
    ultimately show False using l [OF that] by simp
  qed
  moreover have "scatter_operands (sc # scs) s = (l # ls, s3)"
    using r 3(1) by (auto simp: sc r_def)
  moreover have "produces (set (pending (sc # scs) (l # ls))) s s3 (\<lambda>V T p q.
      read_scatter (cv_bc V) (length (sc # scs)) (lab V p) = Some (scatter_targets V T (sc # scs) (l # ls), lab V q))"
  proof -
    have "{} \<union> ?X \<union> set (pending scs ls) = set (pending (sc # scs) (l # ls))" by simp
    then show ?thesis
      using produces_seq3 [OF 1 2 3(5)] by (simp only:) (erule produces_weaken, auto simp: reads_def sc)
  qed
  ultimately show ?case using 3 cur l by auto
qed

definition default_ok :: "scatter \<Rightarrow> bool" where
  "default_ok sc \<longleftrightarrow> (case sc of Scatter _ _ dflt \<Rightarrow> \<forall>e. dflt = Some e \<longrightarrow> expr_ok e)"

lemma lab_ge: "p \<le> lab V p"
  by (simp add: lab_def mu_def)

lemma produces_big: "produces X s s' P \<Longrightarrow> n \<le> num_bytes s' \<Longrightarrow> produces X s s' (\<lambda>V T p q. P V T p q \<and> n \<le> q)"
  by (simp add: produces_def)

lemma defaults_ok:
  assumes "\<forall>sc \<in> set scs. default_ok sc" "wf_scatter dl scs" "labels_fit scs ls" "distinct (pending scs ls)"
    "set (pending scs ls) \<subseteq> X" "produces X s0 s P" "2 \<le> num_bytes s" "cur_stack s = d" "saved_stack s = sv"
    "dl \<Longrightarrow> sv \<noteq> None"
  shows "\<exists>s'. generate_defaults scs ls s = Some s' \<and> cur_stack s' = d \<and> saved_stack s' = sv \<and> num_bytes s \<le> num_bytes s'
    \<and> produces (X - set (pending scs ls)) s0 s'
        (\<lambda>V T p q. \<exists>p1. P V T p p1 \<and> defaults_code V scs (scatter_targets V T scs ls) d sv p1 q)"
  using assms
proof (induction scs arbitrary: ls X s P)
  case Nil
  then show ?case by (cases ls) simp_all
next
  case (Cons sc scs)
  obtain k i dflt where sc: "sc = Scatter k i dflt" by (cases sc)
  obtain l ls' where ls: "ls = l # ls'" using Cons.prems(3) by (cases ls) auto
  have rest: "\<forall>sc \<in> set scs. default_ok sc" "wf_scatter dl scs" "labels_fit scs ls'" "distinct (pending scs ls')"
    "set (pending scs ls') \<subseteq> X"
    using Cons.prems(1-5) by (auto simp: sc ls)
  show ?case
  proof (cases "has_default sc")
    case False
    obtain s' where 1: "generate_defaults scs ls' s = Some s'" "cur_stack s' = d" "saved_stack s' = sv" "num_bytes s \<le> num_bytes s'"
      "produces (X - set (pending scs ls')) s0 s'
        (\<lambda>V T p q. \<exists>p1. P V T p p1 \<and> defaults_code V scs (scatter_targets V T scs ls') d sv p1 q)"
      using Cons.IH [OF rest Cons.prems(6-10)] by blast
    have "generate_defaults (sc # scs) ls s = Some s'"
      using False 1(1) by (auto simp: sc ls has_default_def split: option.splits)
    moreover have "defaults_code V (sc # scs) (scatter_targets V T (sc # scs) ls) d sv p1 q
        \<longleftrightarrow> defaults_code V scs (scatter_targets V T scs ls') d sv p1 q" for V T p1 q
      using False by (auto simp: sc ls has_default_def mark_code_def split: option.splits)
    ultimately show ?thesis using 1 False by (simp add: ls)
  next
    case True
    then obtain e where e: "k = SCAT_OPTIONAL" "dflt = Some e" by (auto simp: sc has_default_def)
    have l: "0 \<le> l" "nat l \<in> X" and new: "nat l \<notin> set (pending scs ls')"
      using Cons.prems(3-5) True by (simp_all add: ls)
    let ?s1 = "label_defined (nat l) s"
    have "define_label l s = Some ?s1" using define_label_Some [OF produces_gen [OF Cons.prems(6)] l(2)] l(1) by simp
    note 1 = produces_big [OF produces_define [OF Cons.prems(6) l(2) Cons.prems(7)], unfolded label_defined_fields, OF Cons.prems(7)]
    have ee: "expr_ok e" "wf_expr dl e" using Cons.prems(1,2) by (auto simp: sc default_ok_def e)
    have "dl \<Longrightarrow> saved_stack ?s1 \<noteq> None" using Cons.prems(9,10) by simp
    then obtain s2 where 2: "generate_expr e ?s1 = Some s2" "cur_stack s2 = Suc (cur_stack ?s1)"
      "produces {} ?s1 s2 (\<lambda>V T. expr_code V e (cur_stack ?s1) (saved_stack ?s1))" "wf_cg s2" "saved_stack s2 = saved_stack ?s1"
      using expr_okE [OF ee produces_wf [OF 1]] by metis
    note 3 = produces_put [OF 2(4), of i]
    have simple: "OP_POP \<in> set simple_opcodes" by (simp add: simple_opcodes_def)
    let ?s4 = "popped 1 (emit_op OP_POP (emit_var_op OP_PUT i s2))"
    note 4 = produces_op_popped [OF produces_wf [OF 3] simple, of 1]
    note part = produces_seq [OF 1 produces_seq3 [OF 2(3) 3 4]]
    have X: "X - {nat l} \<union> ({} \<union> {} \<union> {}) = X - {nat l}" by simp
    have "set (pending scs ls') \<subseteq> X - {nat l}" using rest(5) new by auto
    moreover have "2 \<le> num_bytes ?s4" "cur_stack ?s4 = d" "saved_stack ?s4 = sv"
      using Cons.prems(7-9) 2(2,5) produces_fields(2) [OF 2(3)] produces_fields(2) [OF 3] by simp_all
    ultimately obtain s' where 5: "generate_defaults scs ls' ?s4 = Some s'" "cur_stack s' = d" "saved_stack s' = sv"
      "num_bytes ?s4 \<le> num_bytes s'"
      "produces (X - {nat l} - set (pending scs ls')) s0 s' (\<lambda>V T p q. \<exists>p1.
         (\<exists>p0. ((P V T p p0 \<and> T (nat l) = p0) \<and> 2 \<le> p0) \<and> (\<exists>pa pb. expr_code V e (cur_stack ?s1) (saved_stack ?s1) p0 pa
            \<and> put_code V i pa pb \<and> at V pb (I_op OP_POP) p1))
         \<and> defaults_code V scs (scatter_targets V T scs ls') d sv p1 q)"
      using Cons.IH [OF rest(1-4) _ part [unfolded X] _ _ _ Cons.prems(10)] by blast
    have "produces (X - set (pending (sc # scs) ls)) s0 s'
        (\<lambda>V T p q. \<exists>p1. P V T p p1 \<and> defaults_code V (sc # scs) (scatter_targets V T (sc # scs) ls) d sv p1 q)"
    proof -
      have "X - set (pending (sc # scs) ls) = X - {nat l} - set (pending scs ls')" using True by (auto simp: ls)
      moreover have "1 < lab V q" if "2 \<le> q" for V q using lab_ge [of q V] that by simp
      ultimately show ?thesis
        by (simp only:) (rule produces_weaken [OF 5(5)], use Cons.prems(8,9) e in \<open>auto simp: sc ls mark_code_def\<close>)
    qed
    moreover have "generate_defaults (sc # scs) ls s = Some s'"
      using \<open>define_label l s = Some ?s1\<close> 2(1,2) 5(1) e by (simp add: sc ls)
    moreover have "num_bytes s \<le> num_bytes s'"
      using 5(4) produces_fields(2) [OF 2(3)] produces_fields(2) [OF 3] by simp
    ultimately show ?thesis using 5(2,3) by blast
  qed
qed

lemma scatter_rest_bound: "scatter_rest scs n r \<le> (case r of None \<Rightarrow> Suc (n + length scs) | Some x \<Rightarrow> max x (Suc (n + length scs)))"
proof (induction scs n r rule: scatter_rest.induct)
  case (2 k i dflt scs n r)
  then show ?case by (cases "k = SCAT_REST"; cases r) auto
qed (auto split: option.splits)

lemma produces_at_scatter:
  assumes w: "wf_cg s" and n: "length scs < 255"
    and ops: "scatter_operands scs (emit_byte (scatter_rest scs 0 None) (emit_byte (scatter_nreq scs)
      (emit_byte (scatter_nargs scs) (emit_extended_byte EOP_SCATTER s)))) = (ls, s')"
  shows "labels_fit scs ls" "distinct (pending scs ls)" "cur_stack s' = cur_stack s"
    "length (fixups s') \<notin> set (pending scs ls)" "2 \<le> num_bytes s'"
    "produces (set (pending scs ls) \<union> {length (fixups s')}) s (new_label s') (\<lambda>V T p q.
       at V p (E_scatter (scatter_nargs scs) (scatter_nreq scs) (scatter_rest scs 0 None) (scatter_targets V T scs ls)
         (lab V (T (length (fixups s'))))) q)"
proof -
  let ?s1 = "emit_extended_byte EOP_SCATTER s"
  let ?s2 = "emit_byte (scatter_nargs scs) ?s1" let ?s3 = "emit_byte (scatter_nreq scs) ?s2"
  let ?s4 = "emit_byte (scatter_rest scs 0 None) ?s3"
  have "length (filter f scs) < 256" for f using length_filter_le [of f scs] n by linarith
  then have b: "scatter_nargs scs < 256" "scatter_nreq scs < 256" "scatter_rest scs 0 None < 256"
    using n scatter_rest_bound [of scs 0 None] by (simp_all add: scatter_nargs_def scatter_nreq_def)
  note 1 = produces_reads_eop [OF w, of EOP_SCATTER]
  note 2 = produces_reads_byte [OF produces_wf [OF 1] b(1)]
  note 3 = produces_reads_byte [OF produces_wf [OF 2] b(2)]
  note 4 = produces_reads_byte [OF produces_wf [OF 3] b(3)]
  have 5: "labels_fit scs ls" "distinct (pending scs ls)" "cur_stack s' = cur_stack ?s4"
    "produces (set (pending scs ls)) ?s4 s' (\<lambda>V T p q.
       read_scatter (cv_bc V) (length scs) (lab V p) = Some (scatter_targets V T scs ls, lab V q))"
    using scatter_operands_ok [OF produces_wf [OF 4], of scs] ops by auto
  note 6 = produces_reads_label [OF produces_wf [OF 5(4)]]
  show "labels_fit scs ls" "distinct (pending scs ls)" "cur_stack s' = cur_stack s" using 5 by simp_all
  show "2 \<le> num_bytes s'" using produces_fields(2) [OF 5(4)] by simp
  show "length (fixups s') \<notin> set (pending scs ls)" using produces_gen [OF 5(4)] by (auto simp: gen_def)
  show "produces (set (pending scs ls) \<union> {length (fixups s')}) s (new_label s') (\<lambda>V T p q.
       at V p (E_scatter (scatter_nargs scs) (scatter_nreq scs) (scatter_rest scs 0 None) (scatter_targets V T scs ls)
         (lab V (T (length (fixups s'))))) q)"
  proof (rule produces_weaken [where P = "\<lambda>V T p q. \<exists>r. (\<exists>p1 p2 p3. reads_eop EOP_SCATTER V p p1
        \<and> reads (\<lambda>_. 1) V (scatter_nargs scs) p1 p2 \<and> reads (\<lambda>_. 1) V (scatter_nreq scs) p2 p3
        \<and> reads (\<lambda>_. 1) V (scatter_rest scs 0 None) p3 r)
      \<and> (\<exists>r'. read_scatter (cv_bc V) (length scs) (lab V r) = Some (scatter_targets V T scs ls, lab V r')
         \<and> reads numbytes_label V (lab V (T (length (fixups s')))) r' q)"])
    show "produces (set (pending scs ls) \<union> {length (fixups s')}) s (new_label s') (\<lambda>V T p q.
      \<exists>r. (\<exists>p1 p2 p3. reads_eop EOP_SCATTER V p p1
        \<and> reads (\<lambda>_. 1) V (scatter_nargs scs) p1 p2 \<and> reads (\<lambda>_. 1) V (scatter_nreq scs) p2 p3
        \<and> reads (\<lambda>_. 1) V (scatter_rest scs 0 None) p3 r)
      \<and> (\<exists>r'. read_scatter (cv_bc V) (length scs) (lab V r) = Some (scatter_targets V T scs ls, lab V r')
         \<and> reads numbytes_label V (lab V (T (length (fixups s')))) r' q))"
      using produces_seq [OF produces_seq4 [OF 1 2 3 4] produces_seq [OF 5(4) 6]] by (simp only: Un_empty_left)
  qed (auto simp: reads_eop_def reads_def at_def instr_at_def lab_def decode_extended_def scatter_nargs_def
      simp del: extended_opcode_num.simps)
qed

lemma ok_scatter:
  assumes r: "expr_ok rhs" and scs: "\<forall>sc \<in> set scs. default_ok sc"
  shows "expr_ok (EXPR_ASGN (EXPR_SCATTER scs) rhs)"
proof (rule expr_okI)
  fix dl s assume a: "wf_expr dl (EXPR_ASGN (EXPR_SCATTER scs) rhs)" "wf_cg s" "dl \<Longrightarrow> saved_stack s \<noteq> None"
  then have wf: "wf_expr dl rhs" "wf_scatter dl scs" "length scs < 255" by simp_all
  obtain s1 where 1: "generate_expr rhs s = Some s1" "cur_stack s1 = Suc (cur_stack s)"
    "produces {} s s1 (\<lambda>V T. expr_code V rhs (cur_stack s) (saved_stack s))" "wf_cg s1" "saved_stack s1 = saved_stack s"
    using expr_okE [OF r wf(1) a(2,3)] by metis
  obtain ls s2 where ops: "scatter_operands scs (emit_byte (scatter_rest scs 0 None) (emit_byte (scatter_nreq scs)
      (emit_byte (scatter_nargs scs) (emit_extended_byte EOP_SCATTER s1)))) = (ls, s2)" by fastforce
  note 2 = produces_at_scatter [OF 1(4) wf(3) ops]
  let ?n = "length (fixups s2)"
  note part = produces_seq [OF 1(3) 2(6)]
  have "2 \<le> num_bytes (new_label s2)" using 2(5) by simp
  then obtain s3 where 3: "generate_defaults scs ls (new_label s2) = Some s3" "cur_stack s3 = Suc (cur_stack s)"
    "num_bytes (new_label s2) \<le> num_bytes s3"
    "produces ({} \<union> (set (pending scs ls) \<union> {?n}) - set (pending scs ls)) s s3 (\<lambda>V T p q. \<exists>p1.
       (\<exists>p0. expr_code V rhs (cur_stack s) (saved_stack s) p p0
          \<and> at V p0 (E_scatter (scatter_nargs scs) (scatter_nreq scs) (scatter_rest scs 0 None)
              (scatter_targets V T scs ls) (lab V (T ?n))) p1)
       \<and> defaults_code V scs (scatter_targets V T scs ls) (Suc (cur_stack s)) (saved_stack s) p1 q)"
    using defaults_ok [OF scs wf(2) 2(1,2) _ part, of "Suc (cur_stack s)" "saved_stack s"] 1(2,5) 2(3) a(3)
      produces_fields(1) [OF 2(6)] by auto
  have X: "{} \<union> (set (pending scs ls) \<union> {?n}) - set (pending scs ls) = {?n}" using 2(4) by auto
  note 4 = 3(4) [unfolded X]
  have "2 \<le> num_bytes s3" using 3(3) 2(5) by simp
  note 5 = produces_define [OF 4 singletonI this]
  have "produces {} s (label_defined ?n s3)
      (\<lambda>V T. expr_code V (EXPR_ASGN (EXPR_SCATTER scs) rhs) (cur_stack s) (saved_stack s))"
  proof -
    have "{?n} - {?n} = {}" by simp
    then show ?thesis using 5 by (simp only:) (erule produces_weaken, auto)
  qed
  moreover have "define_label (int ?n) s3 = Some (label_defined ?n s3)"
    using define_label_Some [OF produces_gen [OF 4] singletonI] .
  ultimately show "\<exists>s'. generate_expr (EXPR_ASGN (EXPR_SCATTER scs) rhs) s = Some s' \<and> cur_stack s' = Suc (cur_stack s)
      \<and> produces {} s s' (\<lambda>V T. expr_code V (EXPR_ASGN (EXPR_SCATTER scs) rhs) (cur_stack s) (saved_stack s))"
    using 1(1) ops 3(1,2) by (auto simp: add_label_new Let_def)
qed

section \<open>Every expression\<close>

lemma lval_no: "(\<And>dl inner. \<not> wf_lvalue dl inner e) \<Longrightarrow> lval_ok e"
  by (simp add: lval_ok_def)

lemma generates_all:
  "expr_ok e \<and> lval_ok e \<and> (\<forall>scs. e = EXPR_SCATTER scs \<longrightarrow> (\<forall>sc \<in> set scs. default_ok sc))"
  "arg_ok a" "default_ok sc"
proof (induction e and a and sc)
  case (EXPR_ASGN lhs rhs)
  show ?case
  proof (cases "\<exists>scs. lhs = EXPR_SCATTER scs")
    case True
    then show ?thesis using EXPR_ASGN ok_scatter [of rhs] by (auto intro: lval_no)
  next
    case False
    then show ?thesis using EXPR_ASGN ok_assign [of lhs rhs] by (auto intro: lval_no)
  qed
next
  case (EXPR_CATCH e codes except)
  then have "\<forall>h. except = Some h \<longrightarrow> expr_ok h" by auto
  then show ?case using EXPR_CATCH ok_catch [of e codes except] by (auto intro: lval_no)
qed (auto intro: lval_no ok_var ok_id ok_and_or ok_unary ok_bin ok_exp ok_index ok_range ok_length ok_list ok_call ok_verb
  ok_cond lval_id lval_bin lval_index lval_range simp: arg_ok_def default_ok_def expr_ok_def [of "EXPR_SCATTER _"])

lemma generates: "expr_ok e"
  using generates_all(1) by blast

end
