(* ===== verification/CodeFinish.thy ===== *)
theory CodeFinish
  imports CodeAssign
begin

text \<open>
  The end of the generation: slot numbers stay below 256, the widths chosen for the operands fit them, and
  the finished vector of a statement that returns an expression has that expression's code.
\<close>

section \<open>Slot numbers\<close>

definition narrow :: "cg_state \<Rightarrow> bool" where
  "narrow s \<longleftrightarrow> max_var_ref s < 256"

lemma narrow_emit [simp]:
  "narrow (emit_byte b s) = narrow s" "narrow (emit_op op s) = narrow s"
  "narrow (emit_extended_byte eop s) = narrow s" "narrow (push_stack n s) = narrow s"
  "narrow (restore_stack_top old s) = narrow s" "narrow (add_stack_ref i s) = narrow s"
  "narrow (add_pseudo_label v s) = narrow s" "narrow (add_var_ref i s) = (i < 256 \<and> narrow s)"
  by (auto simp: narrow_def emit_byte_def emit_op_def emit_extended_byte_def push_stack_def restore_stack_top_def
      add_stack_ref_def add_fixup_def add_linked_fixup_def add_known_fixup_def add_pseudo_label_def count_label_def
      add_var_ref_def Let_def split: prod.splits)

lemma narrow_label: "add_label s = (l, s') \<Longrightarrow> narrow s \<Longrightarrow> narrow s'"
  by (auto simp: add_label_def add_linked_label_def count_label_def add_linked_fixup_def add_known_fixup_def
      emit_byte_def narrow_def)

lemma narrow_new_label [simp]: "narrow (new_label s) = narrow s"
  by (simp add: narrow_def new_label_def labelled_def count_label_def add_known_fixup_def emit_byte_def)

lemma narrow_define: "define_label l s = Some s' \<Longrightarrow> narrow s \<Longrightarrow> narrow s'"
  by (auto simp: define_label_def narrow_def)

lemma narrow_pop: "pop_stack n s = Some s' \<Longrightarrow> narrow s \<Longrightarrow> narrow s'"
  by (auto simp: pop_stack_def narrow_def split: if_splits)

lemma narrow_save: "save_stack_top s = Some (old, s') \<Longrightarrow> narrow s \<Longrightarrow> narrow s'"
  by (auto simp: save_stack_top_def narrow_def split: if_splits)

lemma narrow_literal: "add_literal v s = Some s' \<Longrightarrow> narrow s \<Longrightarrow> narrow s'"
  by (auto simp: add_literal_def Let_def add_fixup_def add_linked_fixup_def add_known_fixup_def emit_byte_def
      bind_eq_Some_conv narrow_def)

lemma narrow_constant: "emit_constant v s = Some s' \<Longrightarrow> narrow s \<Longrightarrow> narrow s'"
  by (auto simp: emit_constant_def split: var.splits if_splits dest!: narrow_literal)

lemma narrow_var_op [simp]: "i < 256 \<Longrightarrow> narrow s \<Longrightarrow> narrow (emit_var_op op i s)"
  by (simp add: emit_var_op_def)

lemmas narrows = narrow_label narrow_define narrow_pop narrow_save narrow_literal narrow_constant

lemma narrow_store:
  "store_lvalue e ix s = Some (b, s') \<Longrightarrow> wf_lvalue dl inner e \<Longrightarrow> narrow s \<Longrightarrow> narrow s'"
proof (induction e ix s arbitrary: inner rule: store_lvalue.induct)
  case (3 i ix s)
  then show ?case by auto
qed (fastforce simp: bind_eq_Some_conv dest: narrow_pop)+

lemma narrow_scatter:
  "scatter_operands scs s = (ls, s') \<Longrightarrow> wf_scatter dl scs \<Longrightarrow> narrow s \<Longrightarrow> narrow s'"
proof (induction scs arbitrary: ls s)
  case (Cons sc scs)
  obtain k i dflt where sc: "sc = Scatter k i dflt" by (cases sc)
  obtain l s1 where 1: "(if k \<noteq> SCAT_OPTIONAL then (-1, add_pseudo_label 0 (add_var_ref i s))
      else case dflt of None \<Rightarrow> (-1, add_pseudo_label 1 (add_var_ref i s)) | Some _ \<Rightarrow> add_label (add_var_ref i s)) = (l, s1)"
    by fastforce
  obtain ls' s2 where 2: "scatter_operands scs s1 = (ls', s2)" by fastforce
  have i: "i < 256" "wf_scatter dl scs" using Cons.prems(2) by (simp_all add: sc)
  have "narrow s1"
    using 1 Cons.prems(3) i(1) by (auto split: if_splits option.splits dest!: narrow_label)
  moreover have "s2 = s'" using Cons.prems(1) 1 2 by (simp add: sc)
  ultimately show ?case using Cons.IH [of s1 ls'] 2 i(2) by simp
qed simp

definition narrow_ok :: "expr \<Rightarrow> bool" where
  "narrow_ok e \<longleftrightarrow> (\<forall>dl s s'. generate_expr e s = Some s' \<longrightarrow> wf_expr dl e \<longrightarrow> narrow s \<longrightarrow> narrow s')
     \<and> (\<forall>dl inner s s'. push_lvalue e inner s = Some s' \<longrightarrow> wf_lvalue dl inner e \<longrightarrow> narrow s \<longrightarrow> narrow s')"

lemma narrow_expr: "narrow_ok e \<Longrightarrow> generate_expr e s = Some s' \<Longrightarrow> wf_expr dl e \<Longrightarrow> narrow s \<Longrightarrow> narrow s'"
  unfolding narrow_ok_def by blast

lemma narrow_lval: "narrow_ok e \<Longrightarrow> push_lvalue e inner s = Some s' \<Longrightarrow> wf_lvalue dl inner e \<Longrightarrow> narrow s \<Longrightarrow> narrow s'"
  unfolding narrow_ok_def by blast

lemma narrow_args:
  assumes "\<forall>a \<in> set args. case a of Arg k e \<Rightarrow> narrow_ok e" "generate_arg_list first args s = Some s'" "wf_args dl args" "narrow s"
  shows "narrow s'"
  using assms
proof (induction args arbitrary: first s)
  case (Cons a args)
  obtain k e where a: "a = Arg k e" by (cases a)
  obtain s1 s2 where 1: "generate_expr e s = Some s1" "pop_stack (if first then 0 else 1) (emit_op (arg_opcode first k) s1) = Some s2"
    "generate_arg_list False args s2 = Some s'"
    using Cons.prems(2) by (auto simp: a bind_eq_Some_conv)
  have "narrow s1" using narrow_expr [OF _ 1(1)] Cons.prems(1,3,4) by (simp add: a) blast
  then have "narrow s2" using narrow_pop [OF 1(2)] by simp
  then show ?case using Cons.IH [OF _ 1(3)] Cons.prems(1,3) by (simp add: a)
qed (auto split: if_splits)

lemma narrow_defaults:
  assumes "\<forall>sc \<in> set scs. case sc of Scatter k i dflt \<Rightarrow> \<forall>e. dflt = Some e \<longrightarrow> narrow_ok e"
    "generate_defaults scs ls s = Some s'" "wf_scatter dl scs" "narrow s"
  shows "narrow s'"
  using assms
proof (induction scs arbitrary: ls s)
  case (Cons sc scs)
  obtain k i dflt where sc: "sc = Scatter k i dflt" by (cases sc)
  obtain l ls' where ls: "ls = l # ls'" using Cons.prems(2) by (cases ls) (auto simp: sc)
  have IH: "generate_defaults scs ls' t = Some s' \<Longrightarrow> narrow t \<Longrightarrow> narrow s'" for t
    using Cons.IH Cons.prems by (auto simp: sc)
  show ?case
  proof (cases "dflt \<noteq> None \<and> k = SCAT_OPTIONAL")
    case True
    then obtain e where e: "dflt = Some e" "k = SCAT_OPTIONAL" by auto
    obtain s1 s2 s3 where 1: "define_label l s = Some s1" "generate_expr e s1 = Some s2"
      "pop_stack 1 (emit_op OP_POP (emit_var_op OP_PUT i s2)) = Some s3" "generate_defaults scs ls' s3 = Some s'"
      using Cons.prems(2) e by (auto simp: sc ls bind_eq_Some_conv)
    have "narrow s2" using narrow_expr [OF _ 1(2)] narrow_define [OF 1(1)] Cons.prems(1,3,4) e by (auto simp: sc)
    then have "narrow s3" using narrow_pop [OF 1(3)] Cons.prems(3) by (auto simp: sc)
    then show ?thesis by (rule IH [OF 1(4)])
  next
    case False
    then have "generate_defaults scs ls' s = Some s'" using Cons.prems(2) by (auto simp: sc ls split: option.splits if_splits)
    then show ?thesis using Cons.prems(4) IH by blast
  qed
qed simp

lemma narrow_all:
  "narrow_ok e \<and> (\<forall>scs. e = EXPR_SCATTER scs \<longrightarrow> (\<forall>sc \<in> set scs. case sc of Scatter k i dflt \<Rightarrow> \<forall>e. dflt = Some e \<longrightarrow> narrow_ok e))"
  "case a of Arg k e \<Rightarrow> narrow_ok e" "case sc of Scatter k i dflt \<Rightarrow> \<forall>e. dflt = Some e \<longrightarrow> narrow_ok e"
proof (induction e and a and sc)
  case (EXPR_ASGN lhs rhs)
  show ?case
  proof (cases "\<exists>scs. lhs = EXPR_SCATTER scs")
    case True
    then obtain scs where scs: "lhs = EXPR_SCATTER scs" by blast
    have "narrow s'" if g: "generate_expr (EXPR_ASGN lhs rhs) s = Some s'" "wf_expr dl (EXPR_ASGN lhs rhs)" "narrow s" for dl s s'
    proof -
      have wf: "wf_expr dl rhs" "wf_scatter dl scs" using g(2) by (simp_all add: scs)
      obtain s1 ls s2 l s3 s4 where 1: "generate_expr rhs s = Some s1"
        "scatter_operands scs (emit_byte (scatter_rest scs 0 None) (emit_byte (scatter_nreq scs)
          (emit_byte (scatter_nargs scs) (emit_extended_byte EOP_SCATTER s1)))) = (ls, s2)" "add_label s2 = (l, s3)"
        "generate_defaults scs ls s3 = Some s4" "define_label l s4 = Some s'"
      proof -
        obtain s1 where 1: "generate_expr rhs s = Some s1" using g(1) by (auto simp: scs bind_eq_Some_conv)
        obtain ls s2 where 2: "scatter_operands scs (emit_byte (scatter_rest scs 0 None) (emit_byte (scatter_nreq scs)
          (emit_byte (scatter_nargs scs) (emit_extended_byte EOP_SCATTER s1)))) = (ls, s2)" by fastforce
        obtain l s3 where 3: "add_label s2 = (l, s3)" by fastforce
        show ?thesis using that [OF 1 2 3] g(1) 1 2 3 by (auto simp: scs bind_eq_Some_conv Let_def)
      qed
      have "narrow s1" using EXPR_ASGN 1(1) wf(1) g(3) narrow_expr by blast
      then have "narrow s2" using narrow_scatter [OF 1(2) wf(2)] by simp
      then have "narrow s3" by (rule narrow_label [OF 1(3)])
      then have "narrow s4" using EXPR_ASGN narrow_defaults [OF _ 1(4) wf(2)] scs by blast
      then show ?thesis by (rule narrow_define [OF 1(5)])
    qed
    then show ?thesis by (auto simp: narrow_ok_def [of "EXPR_ASGN _ _"] scs)
  next
    case False
    then have plain: "\<And>scs. lhs \<noteq> EXPR_SCATTER scs" by blast
    have "narrow s'" if g: "generate_expr (EXPR_ASGN lhs rhs) s = Some s'" "wf_expr dl (EXPR_ASGN lhs rhs)" "narrow s" for dl s s'
    proof -
      have wf: "wf_expr dl rhs" "wf_lvalue dl False lhs" using g(2) plain by (cases lhs; simp)+
      obtain s1 s2 b s3 where 1: "push_lvalue lhs False s = Some s1" "generate_expr rhs s1 = Some s2"
        "store_lvalue lhs False (if is_indexed_lvalue lhs then emit_op OP_PUT_TEMP s2 else s2) = Some (b, s3)"
        "s' = (if b then emit_op OP_PUSH_TEMP (emit_op OP_POP s3) else s3)"
        using g(1) unfolding generate_assign [OF plain] by (auto simp: bind_eq_Some_conv split: prod.splits)
      have "narrow s2" using EXPR_ASGN 1(1,2) wf g(3) narrow_lval narrow_expr by blast
      then show ?thesis using narrow_store [OF 1(3) wf(2)] 1(4) by (auto split: if_splits)
    qed
    then show ?thesis by (auto simp: narrow_ok_def [of "EXPR_ASGN _ _"])
  qed
next
  case (EXPR_CATCH e codes except)
  have codes: "generate_arg_list True codes s = Some s' \<Longrightarrow> wf_args dl codes \<Longrightarrow> narrow s \<Longrightarrow> narrow s'" for s s' dl
    using EXPR_CATCH narrow_args [of codes True s s' dl] by blast
  have h: "except = Some h \<Longrightarrow> narrow_ok h" for h using EXPR_CATCH by auto
  have "narrow s'" if g: "generate_expr (EXPR_CATCH e codes except) s = Some s'" "wf_expr dl (EXPR_CATCH e codes except)" "narrow s"
    for dl s s'
  proof -
    have wf: "wf_args dl codes" "wf_expr dl e" using g(2) by simp_all
    obtain s1 s2 s3 s4 s5 where 1: "generate_codes codes s = Some s1"
      "generate_expr e (push_stack 1 (emit_extended_byte EOP_CATCH (push_stack 1 (new_label (emit_extended_byte EOP_PUSH_LABEL s1))))) = Some s2"
      "pop_stack 3 (new_label (emit_extended_byte EOP_END_CATCH s2)) = Some s3"
      "define_label (int (length (fixups (emit_extended_byte EOP_PUSH_LABEL s1)))) s3 = Some s4"
      "(case except of Some h \<Rightarrow> do { s \<leftarrow> pop_stack 1 (emit_op OP_POP s4); generate_expr h s }
        | None \<Rightarrow> Some (emit_op OP_REF (emit_byte (OPTIM_NUM_TO_OPCODE 1) s4))) = Some s5"
      "define_label (int (length (fixups (emit_extended_byte EOP_END_CATCH s2)))) s5 = Some s'"
      using g(1) by (simp add: add_label_new generate_codes_def [symmetric] bind_eq_Some_conv Let_def del: One_nat_def emit_fields) blast
    have "narrow s1" using 1(1) codes wf(1) g(3) by (auto simp: generate_codes_def split: if_splits)
    then have "narrow s2" using narrow_expr [OF _ 1(2) wf(2)] EXPR_CATCH(1) by simp
    then have "narrow s3" using narrow_pop [OF 1(3)] by simp
    then have "narrow s4" by (rule narrow_define [OF 1(4)])
    then have "narrow s5"
      using 1(5) g(2) by (auto split: option.splits simp: bind_eq_Some_conv dest!: narrow_pop dest: narrow_expr [OF h])
    then show ?thesis by (rule narrow_define [OF 1(6)])
  qed
  then show ?case by (auto simp: narrow_ok_def [of "EXPR_CATCH _ _ _"])
next
  case (EXPR_LIST args)
  then have "\<forall>a \<in> set args. case a of Arg k e \<Rightarrow> narrow_ok e" by blast
  from narrow_args [OF this] show ?case by (auto simp: narrow_ok_def [of "EXPR_LIST _"])
next
  case (EXPR_CALL func args)
  then have "\<forall>a \<in> set args. case a of Arg k e \<Rightarrow> narrow_ok e" by blast
  from narrow_args [OF this] show ?case by (auto simp: narrow_ok_def [of "EXPR_CALL _ _"] bind_eq_Some_conv)
next
  case (EXPR_ID i)
  show ?case by (auto simp: narrow_ok_def split: if_splits)
next
  case (EXPR_BIN k l r)
  then have "narrow_ok l" "narrow_ok r" by simp_all
  then show ?case
    unfolding narrow_ok_def [of "EXPR_BIN _ _ _"]
    by (auto simp: bind_eq_Some_conv split: if_splits dest!: narrow_pop narrow_expr) 
next
  case (EXPR_INDEX l r)
  then have 1: "narrow_ok l" "narrow_ok r" by simp_all
  show ?case
    unfolding narrow_ok_def [of "EXPR_INDEX _ _"]
    by (auto simp: bind_eq_Some_conv Let_def split: if_splits dest!: narrow_pop narrow_save narrow_expr [OF 1(1)] narrow_expr [OF 1(2)] narrow_lval [OF 1(1)])
next
  case (EXPR_RANGE b f t)
  then have 1: "narrow_ok b" "narrow_ok f" "narrow_ok t" by simp_all
  show ?case
    unfolding narrow_ok_def [of "EXPR_RANGE _ _ _"]
    by (auto simp: bind_eq_Some_conv split: if_splits dest!: narrow_pop narrow_save narrow_expr [OF 1(1)] narrow_expr [OF 1(2)] narrow_expr [OF 1(3)] narrow_lval [OF 1(1)])
next
  case (EXPR_VERB obj verb args)
  then have 1: "narrow_ok obj" "narrow_ok verb" "\<forall>a \<in> set args. case a of Arg k e \<Rightarrow> narrow_ok e" by simp_all
  show ?case
    unfolding narrow_ok_def [of "EXPR_VERB _ _ _"]
    by (auto simp: bind_eq_Some_conv dest!: narrow_pop narrow_expr [OF 1(1)] narrow_expr [OF 1(2)] narrow_args [OF 1(3)])
next
  case (EXPR_COND c t e)
  then have 1: "narrow_ok c" "narrow_ok t" "narrow_ok e" by simp_all
  show ?case
    unfolding narrow_ok_def [of "EXPR_COND _ _ _"]
    by (auto simp: bind_eq_Some_conv add_label_new dest!: narrow_pop narrow_define narrow_expr [OF 1(1)] narrow_expr [OF 1(2)] narrow_expr [OF 1(3)])
qed (auto simp: narrow_ok_def [of "EXPR_VAR _"] narrow_ok_def [of "EXPR_AND _ _"]
  narrow_ok_def [of "EXPR_OR _ _"] narrow_ok_def [of "EXPR_NEGATE _"] narrow_ok_def [of "EXPR_NOT _"]
  narrow_ok_def [of "EXPR_EXP _ _"] narrow_ok_def [of "EXPR_LENGTH"] narrow_ok_def [of "EXPR_LIST _"]
  narrow_ok_def [of "EXPR_CALL _ _"] narrow_ok_def [of "EXPR_SCATTER _"] bind_eq_Some_conv add_label_new
  split: if_splits option.splits dest!: narrow_define narrow_pop narrow_literal narrow_constant
  dest: narrow_args narrow_expr narrow_lval)

section \<open>The finished vector\<close>

lemma narrow_generated: "generate_expr e s = Some s' \<Longrightarrow> wf_expr dl e \<Longrightarrow> narrow s \<Longrightarrow> narrow s'"
  using narrow_all(1) narrow_expr by blast

lemma ref_size_cases: "ref_size n \<in> {1, 2, 4}"
  by (simp add: ref_size_def)

lemma less_ref_size: "i < n \<Longrightarrow> i < 2 ^ 32 \<Longrightarrow> i < 256 ^ ref_size n"
  by (auto simp: ref_size_def)

lemma ref_size_small: "i < 256 \<Longrightarrow> (i :: nat) < 256 ^ ref_size n"
  by (auto simp: ref_size_def)

definition final_vector :: "cg_state \<Rightarrow> bytecodes" where
  "final_vector S = (let bc = fst (vector_widths S) in bc\<lparr>bc_vector := expand bc (fixups S) 0 (cg_bytes S)\<rparr>)"

lemma expand_bc_vector [simp]: "expand (bc\<lparr>bc_vector := v\<rparr>) fs i bs = expand bc fs i bs"
proof (induction bc fs i bs rule: expand.induct)
  case (3 bc f fs i b bs)
  moreover have "fixup_size (bc\<lparr>bc_vector := v\<rparr>) f = fixup_size bc f" "fixup_operand (bc\<lparr>bc_vector := v\<rparr>) f = fixup_operand bc f"
    by (simp_all add: fixup_size_def fixup_operand_def moved_label_def split: fixup_kind.split)
  ultimately show ?case by simp
qed simp_all

lemma sum_growth_all:
  assumes w: "wf_cg S" and ns: "numbytes_stack bc = 1"
  shows "mu bc (fixups S) (num_bytes S) = num_bytes S + num_literals S * (numbytes_literal bc - 1)
     + num_forks S * (numbytes_fork bc - 1) + num_var_refs S * (numbytes_var_name bc - 1)
     + num_labels S * (numbytes_label bc - 1)"
proof -
  have "\<forall>f \<in> set (fixups S). fx_pc f < num_bytes S" using w by (simp add: wf_cg_def)
  then have "count_below k (num_bytes S) (fixups S) = count_kind k (fixups S)" for k by (rule count_below_all)
  moreover have "num_literals S = count_kind FIXUP_LITERAL (fixups S)" "num_forks S = count_kind FIXUP_FORK (fixups S)"
    "num_var_refs S = count_kind FIXUP_VAR_REF (fixups S)" "num_labels S = count_kind FIXUP_LABEL (fixups S)"
    using w by (simp_all add: wf_cg_def)
  ultimately show ?thesis using sum_growth [OF ns, of "num_bytes S" "fixups S"] by (simp add: mu_def)
qed

lemma length_vector:
  assumes "laid_out bc fs bs"
  shows "length (bc_vector bc) = mu bc fs (length bs)"
proof -
  have "drop (mu bc fs (length bs)) (bc_vector bc) = expand bc (dropWhile (\<lambda>f. fx_pc f < length bs) fs) (length bs) []"
    and le: "mu bc fs (length bs) \<le> length (bc_vector bc)" using drop_vector [OF assms, of "length bs"] by simp_all
  then show ?thesis by simp
qed

lemma finished_vector:
  assumes w: "wf_cg S" and good: "\<forall>f \<in> set (fixups S). fx_kind f = FIXUP_LABEL \<longrightarrow> good_label S f"
    and n: "narrow S" and st: "cur_stack S = 0" "saved_stack S = None" "max_stack S \<le> 256"
    and len: "length (bc_vector (final_vector S)) < 2 ^ 32" "length (g_literals (gst S)) < 2 ^ 32"
      "length (g_fork_vectors (gst S)) < 2 ^ 32"
  shows "finish_vector S = Some (final_vector S)" "finished (final_vector S) S"
    "bc_max_stack (final_vector S) = max_stack S"
proof -
  let ?bc = "final_vector S"
  obtain bc sz where bc: "vector_widths S = (bc, sz)" by fastforce
  have v: "?bc = bc\<lparr>bc_vector := expand bc (fixups S) 0 (cg_bytes S)\<rparr>" by (simp add: final_vector_def bc Let_def)
  have "bc = fst (vector_widths S)" "sz = snd (vector_widths S)" by (simp_all add: bc)
  note parts = this [unfolded vector_widths_def Let_def fst_conv snd_conv]
  have r1: "ref_size (max_stack S) = 1" using st(3) by (simp add: ref_size_def)
  have widths: "numbytes_literal ?bc = ref_size (max (max_literal S) (length (g_literals (gst S))))"
    "numbytes_fork ?bc = ref_size (max (max_fork S) (length (g_fork_vectors (gst S))))"
    "numbytes_var_name ?bc = ref_size (max (max_var_ref S) (total_var_refs (gst S)))"
    "numbytes_stack ?bc = 1" and mx: "bc_max_stack ?bc = max_stack S"
    unfolding v parts(1) by (simp_all add: r1)
  let ?z = "num_bytes S + (numbytes_literal ?bc - 1) * num_literals S + (numbytes_fork ?bc - 1) * num_forks S
    + (numbytes_var_name ?bc - 1) * num_var_refs S"
  have nb: "numbytes_label ?bc = (if ?z \<le> 256 then 1 else if ?z + num_labels S \<le> 256 * 256 then 2 else 4)"
    and sz: "sz = ?z + (numbytes_label ?bc - 1) * num_labels S"
    unfolding widths parts(2) by (simp_all add: v parts(1))
  have widths_lab: "numbytes_label ?bc \<in> {1, 2, 4}" unfolding nb by simp
  have lo: "laid_out ?bc (fixups S) (cg_bytes S)"
    using w widths widths_lab ref_size_cases by (auto simp: laid_out_def widths_ok_def wf_cg_def num_bytes_def v)
  have "length (bc_vector ?bc) = num_bytes S + num_literals S * (numbytes_literal ?bc - 1)
     + num_forks S * (numbytes_fork ?bc - 1) + num_var_refs S * (numbytes_var_name ?bc - 1)
     + num_labels S * (numbytes_label ?bc - 1)"
    using length_vector [OF lo] sum_growth_all [OF w widths(4)] by (simp add: num_bytes_def)
  then have total: "length (bc_vector ?bc) = ?z + (numbytes_label ?bc - 1) * num_labels S"
    by (simp only: mult.commute [of _ "_ - 1"]) 
  have lab: "length (bc_vector ?bc) \<le> 256 ^ numbytes_label ?bc"
    using len(1) unfolding total nb by auto 
  show "finish_vector S = Some ?bc"
    using st(1,2) bc sz total by (simp add: finish_vector_def v Let_def)
  have vals: "fx_value f < 256 ^ fixup_size ?bc f" if f: "f \<in> set (fixups S)" "fx_kind f \<noteq> FIXUP_LABEL" for f
  proof -
    have "operand_ok S f" using w f(1) by (simp add: wf_cg_def)
    then show ?thesis
      using f(2) n st(3) len widths ref_size_small [of "fx_value f"] 
      by (cases "fx_kind f")
        (auto simp: operand_ok_def fixup_size_def narrow_def intro: order.strict_trans2 less_ref_size)
  qed
  show "finished ?bc S" using lo w good vals widths(4) lab by (simp add: finished_def)
  show "bc_max_stack ?bc = max_stack S" by (rule mx)
qed

section \<open>A statement that returns an expression\<close>

lemma wf_init: "\<forall>v \<in> set (g_literals g). wf_literal v \<Longrightarrow> wf_cg (init_state g)"
  by (simp add: wf_cg_def init_state_def pcs_sorted_def count_kind_def)

lemma return_generated:
  assumes wf: "wf_expr False e" and g: "\<forall>v \<in> set (g_literals g). wf_literal v"
  obtains S where "generate_stmts [STMT_RETURN (Some e)] (init_state g) = Some S" "cur_stack S = 0" "saved_stack S = None"
    "produces {} (init_state g) S (\<lambda>V T p q. \<exists>p1. expr_code V e 0 None p p1 \<and> at V p1 (I_op OP_RETURN) q)" "narrow S"
proof -
  note w = wf_init [OF g]
  have zero: "cur_stack (init_state g) = 0" "saved_stack (init_state g) = None" "narrow (init_state g)"
    by (simp_all add: init_state_def narrow_def)
  obtain s1 where 1: "generate_expr e (init_state g) = Some s1" "cur_stack s1 = Suc 0"
    "produces {} (init_state g) s1 (\<lambda>V T. expr_code V e 0 None)" "wf_cg s1" "saved_stack s1 = None"
    using expr_okE [OF generates wf w] unfolding zero by metis
  have simple: "OP_RETURN \<in> set simple_opcodes" by (simp add: simple_opcodes_def)
  note 2 = produces_op_popped [OF 1(4) simple, of 1]
  have "narrow s1" using narrow_generated [OF 1(1) wf zero(3)] .
  then have "narrow (popped 1 (emit_op OP_RETURN s1))" by (simp add: narrow_def popped_def emit_op_def emit_byte_def)
  then show ?thesis
    using that [of "popped 1 (emit_op OP_RETURN s1)"] 1 produces_seq [OF 1(3) 2] by simp
qed

lemma finish_vector_final:
  assumes "finish_vector S = Some bc"
  shows "bc = final_vector S" "bc_max_stack bc = max_stack S" "cur_stack S = 0" "saved_stack S = None"
proof -
  obtain b sz where b: "vector_widths S = (b, sz)" by fastforce
  have "bc_max_stack (fst (vector_widths S)) = max_stack S" by (simp add: vector_widths_def Let_def)
  then show "bc = final_vector S" "bc_max_stack bc = max_stack S" "cur_stack S = 0" "saved_stack S = None"
    using assms b by (auto simp: finish_vector_def final_vector_def Let_def split: if_splits)
qed

text \<open>What fits the fields of a program: the stack that one byte can index and 32-bit positions.\<close>

definition fits :: "program \<Rightarrow> bool" where
  "fits p \<longleftrightarrow> bc_max_stack (main_vector p) \<le> 256 \<and> length (bc_vector (main_vector p)) < 2 ^ 32
     \<and> length (pr_literals p) < 2 ^ 32 \<and> length (fork_vectors p) < 2 ^ 32"

lemma return_narrow:
  assumes wf: "wf_expr False e"
  obtains S where "generate_stmts [STMT_RETURN (Some e)] (init_state init_gstate) = Some S" "cur_stack S = 0" "saved_stack S = None"
    "produces {} (init_state init_gstate) S (\<lambda>V T p q. \<exists>p1. expr_code V e 0 None p p1 \<and> at V p1 (I_op OP_RETURN) q)"
    "narrow S" "wf_cg (emit_op OP_DONE S)"
    "\<forall>f \<in> set (fixups (emit_op OP_DONE S)). fx_kind f = FIXUP_LABEL \<longrightarrow> good_label (emit_op OP_DONE S) f"
proof -
  have g: "\<forall>v \<in> set (g_literals init_gstate). wf_literal v" by (simp add: init_gstate_def)
  obtain S where 1: "generate_stmts [STMT_RETURN (Some e)] (init_state init_gstate) = Some S" "cur_stack S = 0" "saved_stack S = None"
    "produces {} (init_state init_gstate) S (\<lambda>V T p q. \<exists>p1. expr_code V e 0 None p p1 \<and> at V p1 (I_op OP_RETURN) q)" "narrow S"
    by (rule return_generated [OF wf g])
  have gen: "gen {} (init_state init_gstate) (emit_op OP_DONE S)" using gen_emit_op [OF produces_gen [OF 1(4)]] .
  show ?thesis
    by (rule that [OF 1]) (use gen in \<open>auto simp: gen_def in_set_conv_nth init_state_def\<close>)
qed



lemma return_compiled:
  assumes wf: "wf_expr False e" and p: "generate_code [STMT_RETURN (Some e)] version = Some p" and fit: "fits p"
  obtains V p1 p2 where "cv_bc V = main_vector p" "cv_literals V = pr_literals p" "cv_max V = bc_max_stack (main_vector p)"
    "expr_code V e 0 None 0 p1" "at V p1 (I_op OP_RETURN) p2"
proof -
  let ?g = init_gstate
  obtain S where 1: "generate_stmts [STMT_RETURN (Some e)] (init_state ?g) = Some S" "cur_stack S = 0" "saved_stack S = None"
    "produces {} (init_state ?g) S (\<lambda>V T p q. \<exists>p1. expr_code V e 0 None p p1 \<and> at V p1 (I_op OP_RETURN) q)" "narrow S"
    and w: "wf_cg (emit_op OP_DONE S)"
    and good: "\<forall>f \<in> set (fixups (emit_op OP_DONE S)). fx_kind f = FIXUP_LABEL \<longrightarrow> good_label (emit_op OP_DONE S) f"
    by (rule return_narrow [OF wf])
  let ?S = "emit_op OP_DONE S"
  obtain bc where 2: "finish_vector ?S = Some bc" and pp: "main_vector p = bc" "pr_literals p = g_literals (gst ?S)"
    "fork_vectors p = g_fork_vectors (gst ?S)"
    using p 1(1) by (auto simp: generate_code_def bind_eq_Some_conv)
  note f = finish_vector_final [OF 2]
  have fin: "finished bc ?S"
    unfolding f(1)
    by (rule finished_vector(2) [OF w good])
      (use fit 1(5) f pp in \<open>simp_all add: fits_def narrow_def emit_op_def emit_byte_def\<close>)
  have st: "settled {} (init_state ?g) S ?S"
    by (simp add: settled_def later_emit_op init_state_def)
  have "\<exists>p1. expr_code (view bc ?S []) e 0 None 0 p1 \<and> at (view bc ?S []) p1 (I_op OP_RETURN) (num_bytes S)"
    using 1(4) fin st unfolding produces_def by (simp add: num_bytes_def init_state_def)
  then show ?thesis using that [of "view bc ?S []"] pp f(2) by auto
qed

end
