(* ===== verification/VmRun.thy ===== *)
theory VmRun
  imports Vm
begin

text \<open>
  The interpreter of execute.c over the stack of activations: verb calls, built-in functions, the raising
  of errors and the unwinding of the stack.  \<^verbatim>\<open>unwind_stack\<close> is written as steps: the machine is executing,
  unwinding one activation after the other, or draining a built-in function that an error or an abort
  passes through; so a step always ends, and a run is a sequence of steps.  The stack of activations has
  the running one first.

  What the interpreter asks of other files is the record \<open>services\<close>: the built-in functions, the queues of
  tasks, the line numbers of a decompiled program, the program of an unprogrammed verb and \<^verbatim>\<open>pow\<close>.
\<close>

section \<open>The machine\<close>

datatype 'd bi_package =
  P_RETURN var
| P_RAISE var string var
| P_CALL nat "'d option"
| P_SUSPEND 'd
| P_KILL

datatype 'd vm_mode =
  Executing
| Unwinding finally_reason var bool     \<comment> \<open>the flag: the value is the task's result if this ends it\<close>
| Draining finally_reason var bool nat nat "'d option" objid
| Stopped outcome "var option"

record ('d, 'w) vm =
  activ_stack :: "'d activation list"
  max_stack_size :: nat
  root_activ_vector :: int
  ticks_remaining :: int
  task_timed_out :: bool
  handler_info :: "(string \<times> var) option"
  vm_db :: "program db"
  vm_world :: 'w
  vm_mode :: "'d vm_mode"

record ('d, 'w) services =
  s_call_bi_func :: "nat \<Rightarrow> var \<Rightarrow> nat \<Rightarrow> objid \<Rightarrow> 'd option \<Rightarrow> ('d, 'w) vm \<Rightarrow> ('d bi_package \<times> ('d, 'w) vm) option"
  s_suspend :: "'d \<Rightarrow> ('d, 'w) vm \<Rightarrow> error \<times> ('d, 'w) vm"
  s_enqueue_forked :: "'d activation \<Rightarrow> nat \<Rightarrow> int32 \<Rightarrow> int \<Rightarrow> ('d, 'w) vm \<Rightarrow> error \<times> ('d, 'w) vm"
  s_find_line_number :: "program \<Rightarrow> int \<Rightarrow> nat \<Rightarrow> int32"
  s_name_func_by_num :: "nat \<Rightarrow> string"
  s_null_program :: program
  s_pow :: "double \<Rightarrow> double \<Rightarrow> double \<times> bool"

definition RUN_ACTIV :: "('d, 'w) vm \<Rightarrow> 'd activation option" where
  "RUN_ACTIV m = (case activ_stack m of [] \<Rightarrow> None | a # _ \<Rightarrow> Some a)"

definition set_run :: "'d activation \<Rightarrow> ('d, 'w) vm \<Rightarrow> ('d, 'w) vm" where
  "set_run a m = m\<lparr>activ_stack := a # tl (activ_stack m)\<rparr>"

definition set_mode :: "'d vm_mode \<Rightarrow> ('d, 'w) vm \<Rightarrow> ('d, 'w) vm" where
  "set_mode md m = m\<lparr>vm_mode := md\<rparr>"

text \<open>The vector that an activation runs; only the bottom one may run a forked statement.\<close>

definition vector_of :: "program \<Rightarrow> int \<Rightarrow> bytecodes option" where
  "vector_of p which =
     (if which = MAIN_VECTOR then Some (main_vector p)
      else if 0 \<le> which \<and> nat which < length (fork_vectors p) then Some (fork_vectors p ! nat which)
      else None)"

definition current_bytecodes :: "('d, 'w) vm \<Rightarrow> bytecodes option" where
  "current_bytecodes m =
     (case activ_stack m of
        [] \<Rightarrow> None
      | [a] \<Rightarrow> vector_of (ac_prog a) (root_activ_vector m)
      | a # _ \<Rightarrow> Some (main_vector (ac_prog a)))"

section \<open>Describing the stack\<close>

definition frame_line :: "('d, 'w) services \<Rightarrow> int \<Rightarrow> bool \<Rightarrow> bool \<Rightarrow> 'd activation \<Rightarrow> var" where
  "frame_line sv root is_root line_numbers_too a =
     VList ([VObj (ac_self a), VStr (ac_verb a), VObj (ac_progr a), VObj (ac_vloc a), VObj (ac_player a)]
       @ (if line_numbers_too
          then [VInt (s_find_line_number sv (ac_prog a) (if is_root then root else MAIN_VECTOR) (ac_error_pc a))]
          else []))"

definition bi_func_line :: "('d, 'w) services \<Rightarrow> bool \<Rightarrow> 'd activation \<Rightarrow> var" where
  "bi_func_line sv line_numbers_too a =
     VList ([VObj NOTHING, VStr (s_name_func_by_num sv (ac_bi_func_id a)), VObj NOTHING, VObj NOTHING,
             VObj (ac_player a)]
       @ (if line_numbers_too then [VInt (word_of_nat (ac_bi_func_pc a))] else []))"

fun make_stack_list ::
  "('d, 'w) services \<Rightarrow> 'd activation list \<Rightarrow> nat \<Rightarrow> bool \<Rightarrow> int \<Rightarrow> bool \<Rightarrow> var list" where
  "make_stack_list sv [] start include_end root line_numbers_too = []"
| "make_stack_list sv (a # as) start include_end root line_numbers_too =
     (let i = length as in
      if i < start then []
      else (if include_end then [frame_line sv root (i = 0) line_numbers_too a] else [])
        @ (if i \<noteq> start \<and> ac_bi_func_pc a \<noteq> 0 then [bi_func_line sv line_numbers_too a] else [])
        @ make_stack_list sv as start True root line_numbers_too)"

definition traceback_line ::
  "('d, 'w) services \<Rightarrow> string \<Rightarrow> int \<Rightarrow> bool \<Rightarrow> bool \<Rightarrow> 'd activation \<Rightarrow> string option" where
  "traceback_line sv msg root is_top is_root a = do {
     s1 \<leftarrow> fmt_expand ''#%d:%s'' [obj_arg (ac_vloc a), FA_string (ac_verbname a)];
     s2 \<leftarrow> (if ac_vloc a \<noteq> ac_self a then fmt_expand '' (self == #%d)'' [obj_arg (ac_self a)] else Some []);
     s3 \<leftarrow> fmt_expand '', line %d''
            [FA_int (s_find_line_number sv (ac_prog a) (if is_root then root else MAIN_VECTOR) (ac_error_pc a))];
     s4 \<leftarrow> (if is_top then fmt_expand '':  %s'' [FA_string msg] else Some []);
     Some ((if is_top then [] else ''... called from '') @ s1 @ s2 @ s3 @ s4) }"

fun backtrace_lines ::
  "('d, 'w) services \<Rightarrow> string \<Rightarrow> int \<Rightarrow> bool \<Rightarrow> 'd activation list \<Rightarrow> string list option" where
  "backtrace_lines sv msg root is_top [] = Some [''(End of traceback)'']"
| "backtrace_lines sv msg root is_top (a # as) = do {
     line \<leftarrow> traceback_line sv msg root is_top (as = []) a;
     bi \<leftarrow> (if as \<noteq> [] \<and> ac_bi_func_pc a \<noteq> 0
            then map_option (\<lambda>s. [s])
              (fmt_expand ''... called from built-in function %s()''
                 [FA_string (s_name_func_by_num sv (ac_bi_func_id a))])
            else Some []);
     rest \<leftarrow> backtrace_lines sv msg root False as;
     Some (line # bi @ rest) }"

definition error_backtrace_list :: "('d, 'w) services \<Rightarrow> string \<Rightarrow> ('d, 'w) vm \<Rightarrow> var option" where
  "error_backtrace_list sv msg m =
     map_option (\<lambda>ls. VList (map VStr ls)) (backtrace_lines sv msg (root_activ_vector m) True (activ_stack m))"

section \<open>Handlers\<close>

text \<open>Does the entry of a handler match the code?  Anything but a list matches every code.\<close>

definition handler_matches :: "var \<Rightarrow> var \<Rightarrow> bool option" where
  "handler_matches code entry =
     (case entry of
        VList codes \<Rightarrow> map_option (\<lambda>i. i \<noteq> 0) (ismember code codes False)
      | _ \<Rightarrow> Some True)"

text \<open>The handlers under a marker, from the top down: the pc above the codes; the first pushed wins.\<close>

fun pairs_up :: "var list \<Rightarrow> (var \<times> var) list" where
  "pairs_up (p # c # vs) = pairs_up vs @ [(c, p)]"
| "pairs_up _ = []"

fun first_handler :: "var \<Rightarrow> (var \<times> var) list \<Rightarrow> var option option" where
  "first_handler code [] = Some None"
| "first_handler code ((c, p) # hs) = do {
     b \<leftarrow> handler_matches code c;
     if b then Some (Some p) else first_handler code hs }"

text \<open>\<open>find_handler_activ\<close> in one stack.\<close>

function has_handler :: "var \<Rightarrow> var list \<Rightarrow> bool option" where
  "has_handler code [] = Some False"
| "has_handler code (v # vs) =
     (case v of
        VCatch n \<Rightarrow>
          (let k = 2 * nat (sint n) in
           if k > length vs then None
           else do {
             h \<leftarrow> first_handler code (pairs_up (take k vs));
             if h \<noteq> None then Some True else has_handler code (drop k vs) })
      | _ \<Rightarrow> has_handler code vs)"
  by pat_completeness auto
termination
  by (relation "measure (length \<circ> snd)") auto

fun find_handler_activ :: "var \<Rightarrow> 'd activation list \<Rightarrow> nat option option" where
  "find_handler_activ code [] = Some None"
| "find_handler_activ code (a # as) = do {
     h \<leftarrow> has_handler code (ac_stack a);
     if h then Some (Some (length as)) else find_handler_activ code as }"

section \<open>Unwinding\<close>

datatype frame_result =
  Fin_Handler nat "var list"
| Exc_Handler nat "var list"
| No_Handler "var list"

text \<open>The loop over the run-time stack of an activation, down to \<open>goal\<close> values.\<close>

function unwind_rt :: "finally_reason \<Rightarrow> var \<Rightarrow> nat \<Rightarrow> var list \<Rightarrow> frame_result option" where
  "unwind_rt why code goal [] = Some (No_Handler [])"
| "unwind_rt why code goal (v # vs) =
     (if length (v # vs) \<le> goal then Some (No_Handler (v # vs))
      else (case v of
        VFinally l \<Rightarrow>
          if why \<noteq> FIN_ABORT then Some (Fin_Handler (unat l) vs) else unwind_rt why code goal vs
      | VCatch n \<Rightarrow>
          if why = FIN_RAISE then
            (let k = 2 * nat (sint n) in
             if k > length vs then None
             else do {
               h \<leftarrow> first_handler code (pairs_up (take k vs));
               (case h of
                  Some (VInt pc) \<Rightarrow> Some (Exc_Handler (unat pc) (drop k vs))
                | Some _ \<Rightarrow> None
                | None \<Rightarrow> unwind_rt why code goal (drop k vs)) })
          else unwind_rt why code goal vs
      | _ \<Rightarrow> unwind_rt why code goal vs))"
  by pat_completeness auto
termination
  by (relation "measure (\<lambda>(_, _, _, vs). length vs)") auto

declare unwind_rt.simps [simp del]
declare has_handler.simps [simp del]

text \<open>\<open>value.v.list[1]\<close> and the parts of the value of an exit.\<close>

definition raise_code :: "finally_reason \<Rightarrow> var \<Rightarrow> var option" where
  "raise_code why v =
     (if why = FIN_RAISE then (case v of VList (c # _) \<Rightarrow> Some c | _ \<Rightarrow> None) else Some zero)"

definition exit_parts :: "var \<Rightarrow> (nat \<times> nat) option" where
  "exit_parts v = (case v of VList [VInt goal, VInt pc] \<Rightarrow> Some (unat goal, unat pc) | _ \<Rightarrow> None)"

text \<open>One activation: where it goes on, or \<open>None\<close> inside when it is left.\<close>

definition unwind_activation ::
  "finally_reason \<Rightarrow> var \<Rightarrow> 'd activation \<Rightarrow> 'd activation option option" where
  "unwind_activation why val a = do {
     code \<leftarrow> raise_code why val;
     goal \<leftarrow> (if why = FIN_EXIT then map_option fst (exit_parts val) else Some 0);
     r \<leftarrow> unwind_rt why code goal (ac_stack a);
     (case r of
        Fin_Handler l vs \<Rightarrow> do {
          a \<leftarrow> PUSH (VInt (reason_num why)) (a\<lparr>ac_stack := vs, ac_pc := l\<rparr>);
          a \<leftarrow> PUSH val a;
          Some (Some a) }
      | Exc_Handler l vs \<Rightarrow> do {
          a \<leftarrow> PUSH val (a\<lparr>ac_stack := vs, ac_pc := l\<rparr>);
          Some (Some a) }
      | No_Handler vs \<Rightarrow>
          if why = FIN_EXIT
          then map_option (\<lambda>(_, pc). Some (a\<lparr>ac_stack := vs, ac_pc := pc\<rparr>)) (exit_parts val)
          else Some None) }"

definition save_handler_info :: "string \<Rightarrow> var \<Rightarrow> ('d, 'w) vm \<Rightarrow> ('d, 'w) vm" where
  "save_handler_info vname args m = m\<lparr>handler_info := Some (vname, args)\<rparr>"

definition unwind_stack :: "finally_reason \<Rightarrow> var \<Rightarrow> bool \<Rightarrow> ('d, 'w) vm \<Rightarrow> ('d, 'w) vm" where
  "unwind_stack why val keep m = set_mode (Unwinding why val keep) m"

definition raise_error ::
  "('d, 'w) services \<Rightarrow> var \<Rightarrow> string \<Rightarrow> var \<Rightarrow> ('d, 'w) vm \<Rightarrow> ('d, 'w) vm option" where
  "raise_error sv code msg val m = do {
     handler_activ \<leftarrow> find_handler_activ code (activ_stack m);
     (case handler_activ of
        Some k \<Rightarrow>
          Some (unwind_stack FIN_RAISE
            (VList [code, VStr msg, val,
               VList (make_stack_list sv (activ_stack m) k True (root_activ_vector m) True)]) False m)
      | None \<Rightarrow> do {
          traceback \<leftarrow> error_backtrace_list sv msg m;
          Some (unwind_stack FIN_UNCAUGHT zero False
            (save_handler_info ''handle_uncaught_error''
              (VList [code, VStr msg, val,
                 VList (make_stack_list sv (activ_stack m) 0 True (root_activ_vector m) True), traceback]) m)) }) }"

definition raise_code_error :: "('d, 'w) services \<Rightarrow> error \<Rightarrow> ('d, 'w) vm \<Rightarrow> ('d, 'w) vm option" where
  "raise_code_error sv e m = raise_error sv (VErr e) (unparse_error e) zero m"

definition abort_task :: "('d, 'w) services \<Rightarrow> bool \<Rightarrow> ('d, 'w) vm \<Rightarrow> ('d, 'w) vm option" where
  "abort_task sv is_ticks m = do {
     traceback \<leftarrow> error_backtrace_list sv
       (if is_ticks then ''Task ran out of ticks'' else ''Task ran out of seconds'') m;
     Some (unwind_stack FIN_ABORT zero False
       (save_handler_info ''handle_task_timeout''
         (VList [VStr (if is_ticks then ''ticks'' else ''seconds''),
            VList (make_stack_list sv (activ_stack m) 0 True (root_activ_vector m) True), traceback]) m)) }"

text \<open>Pushing on the running activation.\<close>

definition push_run :: "var \<Rightarrow> ('d, 'w) vm \<Rightarrow> ('d, 'w) vm option" where
  "push_run v m = do {
     a \<leftarrow> RUN_ACTIV m;
     a \<leftarrow> PUSH v a;
     Some (set_run a m) }"

text \<open>\<^verbatim>\<open>RAISE_ERROR\<close>, or pushing the error without the \<open>d\<close> flag.\<close>

definition push_error_run :: "('d, 'w) services \<Rightarrow> error \<Rightarrow> ('d, 'w) vm \<Rightarrow> ('d, 'w) vm option" where
  "push_error_run sv e m = do {
     a \<leftarrow> RUN_ACTIV m;
     if ac_debug a then raise_code_error sv e m else push_run (VErr e) m }"

definition raise_package ::
  "('d, 'w) services \<Rightarrow> var \<Rightarrow> string \<Rightarrow> var \<Rightarrow> ('d, 'w) vm \<Rightarrow> ('d, 'w) vm option" where
  "raise_package sv code msg val m = do {
     a \<leftarrow> RUN_ACTIV m;
     if ac_debug a then raise_error sv code msg val m else push_run code m }"

definition call_package :: "nat \<Rightarrow> nat \<Rightarrow> 'd option \<Rightarrow> ('d, 'w) vm \<Rightarrow> ('d, 'w) vm option" where
  "call_package func_id pc data m = do {
     a \<leftarrow> RUN_ACTIV m;
     Some (set_run (a\<lparr>ac_bi_func_id := func_id, ac_bi_func_data := data, ac_bi_func_pc := pc\<rparr>) m) }"

text \<open>The value of a verb called by a built-in function goes to the function.\<close>

definition resume_bi_func ::
  "('d, 'w) services \<Rightarrow> nat \<Rightarrow> var \<Rightarrow> nat \<Rightarrow> 'd option \<Rightarrow> ('d, 'w) vm \<Rightarrow> ('d, 'w) vm option" where
  "resume_bi_func sv func_id val pc data m = do {
     a \<leftarrow> RUN_ACTIV m;
     (p, m) \<leftarrow> s_call_bi_func sv func_id val pc (ac_progr a) data m;
     let m = set_mode Executing m;
     (case p of
        P_RETURN v \<Rightarrow> push_run v m
      | P_RAISE code msg v \<Rightarrow> raise_package sv code msg v m
      | P_CALL pc data \<Rightarrow> call_package func_id pc data m
      | P_SUSPEND d \<Rightarrow>
          (case s_suspend sv d m of (e, m) \<Rightarrow>
             if e = E_NONE then Some (set_mode (Stopped OUTCOME_BLOCKED None) m)
             else Some (unwind_stack FIN_RAISE (VErr e) False m))
      | P_KILL \<Rightarrow> Some (unwind_stack FIN_ABORT zero False m)) }"

definition unwind_step ::
  "('d, 'w) services \<Rightarrow> finally_reason \<Rightarrow> var \<Rightarrow> bool \<Rightarrow> ('d, 'w) vm \<Rightarrow> ('d, 'w) vm option" where
  "unwind_step sv why val keep m = do {
     a \<leftarrow> RUN_ACTIV m;
     r \<leftarrow> unwind_activation why val a;
     (case r of
        Some a \<Rightarrow> Some (set_mode Executing (set_run a m))
      | None \<Rightarrow>
          (let m = m\<lparr>activ_stack := tl (activ_stack m)\<rparr> in
           if activ_stack m = [] then
             Some (set_mode (if why = FIN_RETURN
               then Stopped OUTCOME_DONE (if keep then Some val else None) else Stopped OUTCOME_ABORTED None) m)
           else if ac_bi_func_pc a \<noteq> 0 then
             (if why = FIN_RETURN
              then resume_bi_func sv (ac_bi_func_id a) val (ac_bi_func_pc a) (ac_bi_func_data a) m
              else Some (set_mode (Draining why val keep (ac_bi_func_id a) (ac_bi_func_pc a)
                     (ac_bi_func_data a) (ac_progr a)) m))
           else if why = FIN_RETURN then push_run val (set_mode Executing m)
           else Some (unwind_stack why val keep m))) }"

text \<open>
  A built-in function that is passed through gets zero as the value it waits for; what it answers is
  dropped, and the verbs it calls are not run.  The permissions it is given are those of the activation
  that has just been left: the pointer \<open>a\<close> of the code still points there.
\<close>

definition drain_step ::
  "('d, 'w) services \<Rightarrow> finally_reason \<Rightarrow> var \<Rightarrow> bool \<Rightarrow> nat \<Rightarrow> nat \<Rightarrow> 'd option \<Rightarrow> objid \<Rightarrow> ('d, 'w) vm
     \<Rightarrow> ('d, 'w) vm option" where
  "drain_step sv why val keep func_id pc data progr m = do {
     (p, m) \<leftarrow> s_call_bi_func sv func_id zero pc progr data m;
     (case p of
        P_CALL pc data \<Rightarrow> do {
          called \<leftarrow> RUN_ACTIV m;
          let m = m\<lparr>activ_stack := tl (activ_stack m)\<rparr>;
          Some (if pc \<noteq> 0 then set_mode (Draining why val keep func_id pc data (ac_progr called)) m
                else unwind_stack why val keep m) }
      | _ \<Rightarrow> Some (unwind_stack why val keep m)) }"

section \<open>Properties\<close>

text \<open>Reading a property with the permissions of \<open>progr\<close>.\<close>

definition get_prop :: "program db \<Rightarrow> objid \<Rightarrow> var \<Rightarrow> var \<Rightarrow> (error + var) option" where
  "get_prop db progr obj propname =
     (case (obj, propname) of
        (VObj oid, VStr pname) \<Rightarrow>
          if \<not> valid db oid then Some (Inl E_INVIND)
          else do {
            (h, v) \<leftarrow> db_find_property db oid pname True;
            if ph_ptr h = PNull then Some (Inl E_PROPNF)
            else do {
              allowed \<leftarrow> (if ph_built_in h \<noteq> BP_NONE then Some True
                          else db_property_allows db h progr (ucast PF_READ));
              if allowed then map_option Inr v else Some (Inl E_PERM) } }
      | _ \<Rightarrow> Some (Inl E_TYPE))"

definition op_get_prop :: "program db \<Rightarrow> 'd activation \<Rightarrow> 'd op_result option" where
  "op_get_prop db a = do {
     (propname, a) \<leftarrow> POP a;
     (obj, a) \<leftarrow> POP a;
     push_answer (get_prop db (ac_progr a) obj propname) a }"

definition op_push_get_prop :: "program db \<Rightarrow> 'd activation \<Rightarrow> 'd op_result option" where
  "op_push_get_prop db a = do {
     propname \<leftarrow> TOP_RT_VALUE a;
     obj \<leftarrow> NEXT_TOP_RT_VALUE a;
     push_answer (get_prop db (ac_progr a) obj propname) a }"

text \<open>The checks on a write: \<open>E_NONE\<close> when it is allowed.\<close>

definition write_allowed :: "program db \<Rightarrow> objid \<Rightarrow> objid \<Rightarrow> db_prop_handle \<Rightarrow> var \<Rightarrow> error option" where
  "write_allowed db progr oid h rhs =
     (let wizard = is_wizard db progr in
      case ph_built_in h of
        BP_NONE \<Rightarrow> map_option (\<lambda>b. if b then E_NONE else E_PERM) (db_property_allows db h progr (ucast PF_WRITE))
      | BP_NAME \<Rightarrow>
          if type_of rhs \<noteq> TYPE_STR then Some E_TYPE
          else map_option (\<lambda>owner. if \<not> wizard \<and> (is_user db oid \<or> progr \<noteq> owner) then E_PERM else E_NONE)
                 (db_object_owner db oid)
      | BP_OWNER \<Rightarrow>
          Some (if type_of rhs \<noteq> TYPE_OBJ then E_TYPE else if \<not> wizard then E_PERM else E_NONE)
      | BP_PROGRAMMER \<Rightarrow> Some (if \<not> wizard then E_PERM else E_NONE)
      | BP_WIZARD \<Rightarrow> Some (if \<not> wizard then E_PERM else E_NONE)
      | BP_LOCATION \<Rightarrow> Some E_PERM
      | BP_CONTENTS \<Rightarrow> Some E_PERM
      | _ \<Rightarrow> map_option (\<lambda>owner. if progr \<noteq> owner \<and> \<not> wizard then E_PERM else E_NONE) (db_object_owner db oid))"

definition put_prop :: "objid \<Rightarrow> var \<Rightarrow> var \<Rightarrow> var \<Rightarrow> program db \<Rightarrow> (error + program db) option" where
  "put_prop progr obj propname rhs db =
     (case (obj, propname) of
        (VObj oid, VStr pname) \<Rightarrow>
          if \<not> valid db oid then Some (Inl E_INVIND)
          else do {
            (h, _) \<leftarrow> db_find_property db oid pname False;
            if ph_ptr h = PNull then Some (Inl E_PROPNF)
            else do {
              err \<leftarrow> write_allowed db progr oid h rhs;
              if err = E_NONE then map_option Inr (db_set_property_value h rhs db) else Some (Inl err) } }
      | _ \<Rightarrow> Some (Inl E_TYPE))"

section \<open>Verb calls\<close>

definition copy_slot :: "rt_env \<Rightarrow> nat \<Rightarrow> rt_env \<Rightarrow> rt_env option" where
  "copy_slot caller_env slot env =
     (if slot < length caller_env then Some (set_rt_env_var slot (caller_env ! slot) env) else None)"

text \<open>The environment of a called verb.\<close>

definition verb_env ::
  "program db \<Rightarrow> 'd activation \<Rightarrow> program \<Rightarrow> objid \<Rightarrow> string \<Rightarrow> var \<Rightarrow> rt_env option" where
  "verb_env db caller p this vname args = do {
     let env = fill_in_rt_consts (pr_version p) (new_rt_env (length (var_names p)));
     let env = set_rt_env_obj SLOT_THIS this env;
     let env = set_rt_env_obj SLOT_CALLER (ac_self caller) env;
     let from = ac_rt_env caller;
     env \<leftarrow> copy_slot from SLOT_ARGSTR env;
     env \<leftarrow> copy_slot from SLOT_DOBJ env;
     env \<leftarrow> copy_slot from SLOT_DOBJSTR env;
     env \<leftarrow> copy_slot from SLOT_PREPSTR env;
     env \<leftarrow> copy_slot from SLOT_IOBJ env;
     env \<leftarrow> copy_slot from SLOT_IOBJSTR env;
     player \<leftarrow> read_env SLOT_PLAYER caller;
     let env = (if is_wizard db (ac_progr caller) \<and> type_of player = TYPE_OBJ
                then set_rt_env_var SLOT_PLAYER player env
                else set_rt_env_obj SLOT_PLAYER (ac_player caller) env);
     let env = set_rt_env_var SLOT_VERB (VStr vname) env;
     Some (set_rt_env_var SLOT_ARGS args env) }"

definition env_player :: "rt_env \<Rightarrow> objid option" where
  "env_player env =
     (if SLOT_PLAYER < length env then (case env ! SLOT_PLAYER of VObj p \<Rightarrow> Some p | _ \<Rightarrow> None) else None)"

text \<open>A fresh activation at the start of a vector.\<close>

definition new_activation ::
  "program \<Rightarrow> bytecodes \<Rightarrow> rt_env \<Rightarrow> objid \<Rightarrow> objid \<Rightarrow> objid \<Rightarrow> objid \<Rightarrow> string \<Rightarrow> string \<Rightarrow> bool
     \<Rightarrow> 'd activation" where
  "new_activation p bc env this player progr vloc verb verbname debug =
     \<lparr>ac_prog = p, ac_rt_env = env, ac_stack = [], ac_rt_stack_size = bc_max_stack bc, ac_pc = 0,
      ac_error_pc = 0, ac_bi_func_pc = 0, ac_bi_func_id = 0, ac_bi_func_data = None, ac_temp = VNone,
      ac_self = this, ac_player = player, ac_progr = progr, ac_vloc = vloc, ac_verb = verb,
      ac_verbname = verbname, ac_debug = debug\<rparr>"

definition call_verb2 ::
  "('d, 'w) services \<Rightarrow> objid \<Rightarrow> string \<Rightarrow> var \<Rightarrow> bool \<Rightarrow> ('d, 'w) vm \<Rightarrow> (error \<times> ('d, 'w) vm) option" where
  "call_verb2 sv this vname args do_pass m = do {
     caller \<leftarrow> RUN_ACTIV m;
     place \<leftarrow> (if do_pass then
                 (if valid (vm_db m) (ac_vloc caller)
                  then map_option Some (db_object_parent (vm_db m) (ac_vloc caller)) else Some None)
               else Some (Some this));
     (case place of
        None \<Rightarrow> Some (E_INVIND, m)
      | Some oid \<Rightarrow>
          if \<not> valid (vm_db m) oid then Some (E_INVIND, m)
          else do {
            (h, db) \<leftarrow> db_find_callable_verb oid vname (vm_db m);
            let m = m\<lparr>vm_db := db\<rparr>;
            if h = None then Some (E_VERBNF, m)
            else if \<not> length (activ_stack m) < max_stack_size m then Some (E_MAXREC, m)
            else do {
              p \<leftarrow> db_verb_program (s_null_program sv) db h;
              progr \<leftarrow> db_verb_owner db h;
              vloc \<leftarrow> db_verb_definer h;
              names \<leftarrow> db_verb_names db h;
              flags \<leftarrow> db_verb_flags db h;
              env \<leftarrow> verb_env db caller p this vname args;
              player \<leftarrow> env_player env;
              Some (E_NONE, m\<lparr>activ_stack :=
                new_activation p (main_vector p) env this player progr vloc vname names (flags AND VF_DEBUG \<noteq> 0)
                # activ_stack m\<rparr>) } }) }"

definition op_call_verb :: "('d, 'w) services \<Rightarrow> ('d, 'w) vm \<Rightarrow> ('d, 'w) vm option" where
  "op_call_verb sv m = do {
     a \<leftarrow> RUN_ACTIV m;
     (args, a) \<leftarrow> POP a;
     (verb, a) \<leftarrow> POP a;
     (obj, a) \<leftarrow> POP a;
     let m = set_run a m;
     (err, m) \<leftarrow> (case (args, verb, obj) of
        (VList _, VStr vname, VObj oid) \<Rightarrow>
          if \<not> valid (vm_db m) oid then Some (E_INVIND, m) else call_verb2 sv oid vname args False m
      | _ \<Rightarrow> Some (E_TYPE, m));
     if err = E_NONE then Some m else push_error_run sv err m }"

section \<open>Instructions of the whole machine\<close>

definition apply_result ::
  "('d, 'w) services \<Rightarrow> ('d, 'w) vm \<Rightarrow> 'd op_result \<Rightarrow> ('d, 'w) vm option" where
  "apply_result sv m r =
     (case r of
        Normal a \<Rightarrow> Some (set_run a m)
      | Raises e a a' \<Rightarrow>
          if ac_debug a then raise_code_error sv e (set_run a m)
          else map_option (\<lambda>a. set_run a m) a')"

definition op_put_prop :: "('d, 'w) services \<Rightarrow> ('d, 'w) vm \<Rightarrow> ('d, 'w) vm option" where
  "op_put_prop sv m = do {
     a \<leftarrow> RUN_ACTIV m;
     (rhs, a) \<leftarrow> POP a;
     (propname, a) \<leftarrow> POP a;
     (obj, a) \<leftarrow> POP a;
     r \<leftarrow> put_prop (ac_progr a) obj propname rhs (vm_db m);
     (case r of
        Inl e \<Rightarrow> apply_result sv m (PUSH_ERROR e a)
      | Inr db \<Rightarrow> Option.bind (pushed rhs a) (apply_result sv (m\<lparr>vm_db := db\<rparr>))) }"

definition op_fork :: "('d, 'w) services \<Rightarrow> nat \<Rightarrow> nat option \<Rightarrow> ('d, 'w) vm \<Rightarrow> ('d, 'w) vm option" where
  "op_fork sv f_index i m = do {
     a \<leftarrow> RUN_ACTIV m;
     (time, a) \<leftarrow> POP a;
     let m = set_run a m;
     let fail = (\<lambda>e m. if ac_debug a then raise_code_error sv e m else Some m);
     (case time of
        VInt n \<Rightarrow>
          if n <s 0 then fail E_INVARG m
          else (case s_enqueue_forked sv a f_index n (case i of None \<Rightarrow> -1 | Some i \<Rightarrow> int i) m of (e, m) \<Rightarrow>
            if e \<noteq> E_NONE then fail e m else Some m)
      | _ \<Rightarrow> fail E_TYPE m) }"

definition op_return :: "opcode \<Rightarrow> ('d, 'w) vm \<Rightarrow> ('d, 'w) vm option" where
  "op_return op m =
     (if op = OP_RETURN then do {
        a \<leftarrow> RUN_ACTIV m;
        (v, a) \<leftarrow> POP a;
        Some (unwind_stack FIN_RETURN v True (set_run a m)) }
      else Some (unwind_stack FIN_RETURN zero True m))"

definition op_bi_func_call :: "('d, 'w) services \<Rightarrow> nat \<Rightarrow> ('d, 'w) vm \<Rightarrow> ('d, 'w) vm option" where
  "op_bi_func_call sv func_id m = do {
     a \<leftarrow> RUN_ACTIV m;
     (args, a) \<leftarrow> POP a;
     let m = set_run a m;
     if type_of args \<noteq> TYPE_LIST then push_error_run sv E_TYPE m
     else do {
       (p, m) \<leftarrow> s_call_bi_func sv func_id args 1 (ac_progr a) None m;
       (case p of
          P_RETURN v \<Rightarrow> push_run v m
        | P_RAISE code msg v \<Rightarrow> raise_package sv code msg v m
        | P_CALL pc data \<Rightarrow> call_package func_id pc data m
        | P_SUSPEND d \<Rightarrow>
            (case s_suspend sv d m of (e, m) \<Rightarrow>
               if e = E_NONE then Some (set_mode (Stopped OUTCOME_BLOCKED None) m) else push_error_run sv e m)
        | P_KILL \<Rightarrow> Some (unwind_stack FIN_ABORT zero False m)) } }"

text \<open>The end of a finally handler: its reason says how to go on.\<close>

definition op_continue :: "('d, 'w) vm \<Rightarrow> ('d, 'w) vm option" where
  "op_continue m = do {
     a \<leftarrow> RUN_ACTIV m;
     (v, a) \<leftarrow> POP a;
     (why, a) \<leftarrow> POP a;
     let m = set_run a m;
     (case why of
        VInt n \<Rightarrow>
          if n = reason_num FIN_FALL_THRU then Some m
          else if n = reason_num FIN_EXIT then Some (unwind_stack FIN_EXIT v False m)
          else if n = reason_num FIN_RAISE then Some (unwind_stack FIN_RAISE v False m)
          else if n = reason_num FIN_RETURN then Some (unwind_stack FIN_RETURN v False m)
          else if n = reason_num FIN_UNCAUGHT then Some (unwind_stack FIN_UNCAUGHT v False m)
          else None
      | _ \<Rightarrow> None) }"

definition op_exit :: "nat \<Rightarrow> nat \<Rightarrow> ('d, 'w) vm \<Rightarrow> ('d, 'w) vm" where
  "op_exit sp lab m =
     unwind_stack FIN_EXIT (VList [VInt (word_of_nat sp), VInt (word_of_nat lab)]) False m"

definition exec_here ::
  "('d, 'w) services \<Rightarrow> ('d activation \<Rightarrow> 'd op_result option) \<Rightarrow> ('d, 'w) vm \<Rightarrow> ('d, 'w) vm option" where
  "exec_here sv f m = do {
     a \<leftarrow> RUN_ACTIV m;
     r \<leftarrow> f a;
     apply_result sv m r }"

definition exec :: "('d, 'w) services \<Rightarrow> bytecodes \<Rightarrow> instr \<Rightarrow> ('d, 'w) vm \<Rightarrow> ('d, 'w) vm option" where
  "exec sv bc i m =
     (case i of
        I_op op \<Rightarrow>
          if op = OP_GET_PROP then exec_here sv (op_get_prop (vm_db m)) m
          else if op = OP_PUSH_GET_PROP then exec_here sv (op_push_get_prop (vm_db m)) m
          else if op = OP_PUT_PROP then op_put_prop sv m
          else if op = OP_CALL_VERB then op_call_verb sv m
          else if op = OP_RETURN \<or> op = OP_RETURN0 \<or> op = OP_DONE then op_return op m
          else exec_here sv (exec_op op) m
      | I_fork f i \<Rightarrow> op_fork sv f i m
      | I_call f \<Rightarrow> op_bi_func_call sv f m
      | E_continue \<Rightarrow> op_continue m
      | E_exit sp l \<Rightarrow> Some (op_exit sp l m)
      | _ \<Rightarrow> exec_here sv (exec_local (s_pow sv) bc i) m)"

section \<open>The main loop\<close>

definition extended_tick :: "bytecodes \<Rightarrow> nat \<Rightarrow> int" where
  "extended_tick bc pc =
     (if unat (bc_vector bc ! pc) = opcode_num OP_EXTENDED \<and> pc + 1 < length (bc_vector bc)
         \<and> COUNT_EOP_TICK (unat (bc_vector bc ! (pc + 1))) then 1 else 0)"

text \<open>One instruction of \<^verbatim>\<open>run\<close>: the ticks, the decoding and the execution.\<close>

definition execute_step :: "('d, 'w) services \<Rightarrow> ('d, 'w) vm \<Rightarrow> ('d, 'w) vm option" where
  "execute_step sv m = do {
     bc \<leftarrow> current_bytecodes m;
     a \<leftarrow> RUN_ACTIV m;
     let pc = ac_pc a;
     let m = set_run (a\<lparr>ac_error_pc := pc\<rparr>) m;
     (op, _) \<leftarrow> READ_BYTES (bc_vector bc) pc 1;
     let m = (if COUNT_TICK op then m\<lparr>ticks_remaining := ticks_remaining m - 1\<rparr> else m);
     if COUNT_TICK op \<and> ticks_remaining m \<le> 0 then abort_task sv True m
     else if COUNT_TICK op \<and> task_timed_out m then abort_task sv False m
     else do {
       (i, next) \<leftarrow> decode bc pc;
       let m = m\<lparr>ticks_remaining := ticks_remaining m - extended_tick bc pc\<rparr>;
       exec sv bc i (set_run (a\<lparr>ac_error_pc := pc, ac_pc := next\<rparr>) m) } }"

definition vm_step :: "('d, 'w) services \<Rightarrow> ('d, 'w) vm \<Rightarrow> ('d, 'w) vm option" where
  "vm_step sv m =
     (case vm_mode m of
        Executing \<Rightarrow> execute_step sv m
      | Unwinding why val keep \<Rightarrow> unwind_step sv why val keep m
      | Draining why val keep func_id pc data progr \<Rightarrow> drain_step sv why val keep func_id pc data progr m
      | Stopped _ _ \<Rightarrow> Some m)"

text \<open>The run: its outcome and result with the last state, or \<open>None\<close> if it never stops or gets stuck.\<close>

partial_function (option) run_vm ::
  "('d, 'w) services \<Rightarrow> ('d, 'w) vm \<Rightarrow> (outcome \<times> var option \<times> ('d, 'w) vm) option" where
  "run_vm sv m =
     (case vm_mode m of
        Stopped out result \<Rightarrow> Some (out, result, m)
      | _ \<Rightarrow> Option.bind (vm_step sv m) (run_vm sv))"

text \<open>\<open>run\<close> begins with an error when a suspended task is resumed by one.\<close>

definition run_start :: "('d, 'w) services \<Rightarrow> error option \<Rightarrow> ('d, 'w) vm \<Rightarrow> ('d, 'w) vm option" where
  "run_start sv resumption_error m =
     (case resumption_error of
        None \<Rightarrow> Some m
      | Some e \<Rightarrow> do {
          a \<leftarrow> RUN_ACTIV m;
          push_error_run sv e (set_run (a\<lparr>ac_error_pc := ac_pc a\<rparr>) m) })"

section \<open>Starting and resuming tasks\<close>

definition DEFAULT_MAX_STACK_DEPTH :: int where "DEFAULT_MAX_STACK_DEPTH = 50"

text \<open>\<open>opt\<close> is the server option \<^verbatim>\<open>max_stack_depth\<close>.\<close>

definition current_max_stack_size :: "int \<Rightarrow> nat" where
  "current_max_stack_size opt = nat (if opt < DEFAULT_MAX_STACK_DEPTH then DEFAULT_MAX_STACK_DEPTH else opt)"

definition setup_task_execution_limits :: "int \<Rightarrow> ('d, 'w) vm \<Rightarrow> ('d, 'w) vm" where
  "setup_task_execution_limits ticks m =
     m\<lparr>task_timed_out := False, ticks_remaining := (if ticks < 100 then 100 else ticks)\<rparr>"

definition run_interpreter ::
  "('d, 'w) services \<Rightarrow> error option \<Rightarrow> int \<Rightarrow> ('d, 'w) vm \<Rightarrow> (outcome \<times> var option \<times> ('d, 'w) vm) option" where
  "run_interpreter sv resumption_error ticks m =
     Option.bind (run_start sv resumption_error
       (set_mode Executing (setup_task_execution_limits ticks m\<lparr>handler_info := None\<rparr>))) (run_vm sv)"

text \<open>\<open>do_task\<close>: the bottom activation at the start of one of its program's vectors.\<close>

definition do_task ::
  "int \<Rightarrow> nat \<Rightarrow> 'd activation \<Rightarrow> ('d, 'w) vm \<Rightarrow> ('d, 'w) vm option" where
  "do_task which_vector max_stack a m = do {
     bc \<leftarrow> vector_of (ac_prog a) which_vector;
     Some (m\<lparr>activ_stack := [a\<lparr>ac_stack := [], ac_rt_stack_size := bc_max_stack bc, ac_pc := 0,
         ac_error_pc := 0, ac_bi_func_pc := 0, ac_temp := VNone\<rparr>],
       max_stack_size := max_stack, root_activ_vector := which_vector\<rparr>) }"

definition task_env ::
  "program \<Rightarrow> objid \<Rightarrow> objid \<Rightarrow> objid \<Rightarrow> objid \<Rightarrow> objid \<Rightarrow> string \<Rightarrow> string \<Rightarrow> string \<Rightarrow> string \<Rightarrow> string
     \<Rightarrow> var \<Rightarrow> rt_env" where
  "task_env p player caller this dobj iobj dobjstr iobjstr argstr prepstr verb args =
     set_rt_env_var SLOT_ARGS args
     (set_rt_env_str SLOT_VERB verb
     (set_rt_env_str SLOT_PREPSTR prepstr
     (set_rt_env_str SLOT_ARGSTR argstr
     (set_rt_env_str SLOT_IOBJSTR iobjstr
     (set_rt_env_str SLOT_DOBJSTR dobjstr
     (set_rt_env_obj SLOT_IOBJ iobj
     (set_rt_env_obj SLOT_DOBJ dobj
     (set_rt_env_obj SLOT_THIS this
     (set_rt_env_obj SLOT_CALLER caller
     (set_rt_env_obj SLOT_PLAYER player
     (fill_in_rt_consts (pr_version p) (new_rt_env (length (var_names p))))))))))))))"

definition do_server_program_task ::
  "objid \<Rightarrow> string \<Rightarrow> var \<Rightarrow> objid \<Rightarrow> string \<Rightarrow> program \<Rightarrow> objid \<Rightarrow> bool \<Rightarrow> objid \<Rightarrow> string \<Rightarrow> int
     \<Rightarrow> ('d, 'w) vm \<Rightarrow> ('d, 'w) vm option" where
  "do_server_program_task this verb args vloc verbname p progr debug player argstr max_depth m =
     do_task MAIN_VECTOR (current_max_stack_size max_depth)
       (new_activation p (main_vector p)
         (task_env p player (-1) this NOTHING NOTHING [] [] argstr [] verb args)
         this player progr vloc verb verbname debug) m"

definition do_server_verb_task ::
  "('d, 'w) services \<Rightarrow> objid \<Rightarrow> string \<Rightarrow> var \<Rightarrow> handle option \<Rightarrow> objid \<Rightarrow> string \<Rightarrow> int \<Rightarrow> ('d, 'w) vm
     \<Rightarrow> ('d, 'w) vm option" where
  "do_server_verb_task sv this verb args h player argstr max_depth m = do {
     vloc \<leftarrow> db_verb_definer h;
     names \<leftarrow> db_verb_names (vm_db m) h;
     p \<leftarrow> db_verb_program (s_null_program sv) (vm_db m) h;
     progr \<leftarrow> db_verb_owner (vm_db m) h;
     flags \<leftarrow> db_verb_flags (vm_db m) h;
     do_server_program_task this verb args vloc names p progr (flags AND VF_DEBUG \<noteq> 0) player argstr max_depth m }"

definition do_input_task ::
  "('d, 'w) services \<Rightarrow> objid \<Rightarrow> Parsed_Command \<Rightarrow> objid \<Rightarrow> handle option \<Rightarrow> int \<Rightarrow> ('d, 'w) vm
     \<Rightarrow> ('d, 'w) vm option" where
  "do_input_task sv user pc this vh max_depth m = do {
     p \<leftarrow> db_verb_program (s_null_program sv) (vm_db m) vh;
     progr \<leftarrow> db_verb_owner (vm_db m) vh;
     vloc \<leftarrow> db_verb_definer vh;
     names \<leftarrow> db_verb_names (vm_db m) vh;
     flags \<leftarrow> db_verb_flags (vm_db m) vh;
     do_task MAIN_VECTOR (current_max_stack_size max_depth)
       (new_activation p (main_vector p)
         (task_env p user user this (pc_dobj pc) (pc_iobj pc) (pc_dobjstr pc) (pc_iobjstr pc) (pc_argstr pc)
            (pc_prepstr pc) (pc_verb pc) (VList (pc_args pc)))
         this user progr vloc (pc_verb pc) names (flags AND VF_DEBUG \<noteq> 0)) m }"

definition do_forked_task ::
  "program \<Rightarrow> rt_env \<Rightarrow> 'd activation \<Rightarrow> int \<Rightarrow> int \<Rightarrow> ('d, 'w) vm \<Rightarrow> ('d, 'w) vm option" where
  "do_forked_task p env a f_id max_depth m =
     do_task f_id (current_max_stack_size max_depth) (a\<lparr>ac_rt_env := env, ac_prog := p\<rparr>) m"

text \<open>The value a suspended task is resumed with is pushed; an error is raised there.\<close>

definition resume_from_previous_vm ::
  "('d, 'w) services \<Rightarrow> ('d, 'w) vm \<Rightarrow> var \<Rightarrow> int \<Rightarrow> ('d, 'w) vm \<Rightarrow> (outcome \<times> var option \<times> ('d, 'w) vm) option" where
  "resume_from_previous_vm sv the_vm v ticks m =
     (let m = m\<lparr>max_stack_size := max_stack_size the_vm, activ_stack := activ_stack the_vm,
           root_activ_vector := root_activ_vector the_vm\<rparr> in
      case v of
        VErr e \<Rightarrow> run_interpreter sv (Some e) ticks m
      | _ \<Rightarrow> Option.bind (push_run v m) (run_interpreter sv None ticks))"

definition setup_activ_for_eval :: "program \<Rightarrow> ('d, 'w) vm \<Rightarrow> (bool \<times> ('d, 'w) vm) option" where
  "setup_activ_for_eval p m = do {
     caller \<leftarrow> RUN_ACTIV m;
     if \<not> length (activ_stack m) < max_stack_size m then Some (False, m)
     else Some (True, m\<lparr>activ_stack :=
       new_activation p (main_vector p)
         (task_env p (ac_player caller) (ac_self caller) NOTHING NOTHING NOTHING [] [] [] [] [] (VList []))
         NOTHING (ac_player caller) (ac_progr caller) NOTHING [] ''Input to EVAL'' True # activ_stack m\<rparr>) }"

end
