(* ===== verification/Denote.thy ===== *)
theory Denote
  imports CodeGen VmRun
begin

text \<open>
  What an expression means: its value and the changes it makes to the variables and to the data base, or the
  error it raises.  No stack, no code, no labels: this is the specification that the code generator and the
  interpreter together are shown to implement.  \<open>None\<close>: the C code is undefined there (a division that
  traps, a comparison of internal values), or the expression calls a verb or a built-in function, whose
  meaning is that of the whole machine.
\<close>

type_synonym moo_state = "rt_env \<times> program db"

datatype 'a res =
  Value 'a moo_state
| Error error moo_state

record setting =
  st_pow :: "double \<Rightarrow> double \<Rightarrow> double \<times> bool"
  st_debug :: bool
  st_progr :: objid

definition and_then :: "'a res option \<Rightarrow> ('a \<Rightarrow> moo_state \<Rightarrow> 'b res option) \<Rightarrow> 'b res option" where
  "and_then r f =
     (case r of
        None \<Rightarrow> None
      | Some (Error e st) \<Rightarrow> Some (Error e st)
      | Some (Value v st) \<Rightarrow> f v st)"

text \<open>The markers of the run-time stack are not values of the language.\<close>

definition is_marker :: "var \<Rightarrow> bool" where
  "is_marker v \<longleftrightarrow> type_of v = TYPE_CATCH \<or> type_of v = TYPE_FINALLY"

definition returns :: "var \<Rightarrow> moo_state \<Rightarrow> var res option" where
  "returns v st = (if is_marker v then None else Some (Value v st))"

text \<open>Without the \<open>d\<close> flag an error is a value.\<close>

definition answers :: "setting \<Rightarrow> (error + var) option \<Rightarrow> moo_state \<Rightarrow> var res option" where
  "answers c r st =
     (case r of
        None \<Rightarrow> None
      | Some (Inl e) \<Rightarrow> Some (if st_debug c then Error e st else Value (VErr e) st)
      | Some (Inr v) \<Rightarrow> returns v st)"

section \<open>Operators\<close>

definition error_or :: "var \<Rightarrow> error + var" where
  "error_or v = (case v of VErr e \<Rightarrow> Inl e | _ \<Rightarrow> Inr v)"

definition truth :: "bool \<Rightarrow> error + var" where
  "truth b = Inr (VInt (of_truth b))"

definition arith :: "(var \<Rightarrow> var \<Rightarrow> var option) \<Rightarrow> var \<Rightarrow> var \<Rightarrow> (error + var) option" where
  "arith f lhs rhs = (if is_number lhs \<and> is_number rhs then map_option error_or (f lhs rhs) else Some (Inl E_TYPE))"

definition compare_by :: "(int \<Rightarrow> bool) \<Rightarrow> var \<Rightarrow> var \<Rightarrow> (error + var) option" where
  "compare_by P lhs rhs = map_option (map_sum id (\<lambda>c. VInt (of_truth (P c)))) (compare_vars lhs rhs)"

definition member_of :: "var \<Rightarrow> var \<Rightarrow> (error + var) option" where
  "member_of lhs rhs =
     (case rhs of
        VList vs \<Rightarrow> map_option (\<lambda>i. Inr (VInt (word_of_int i))) (ismember lhs vs False)
      | _ \<Rightarrow> Some (Inl E_TYPE))"

fun binary :: "program db \<Rightarrow> objid \<Rightarrow> bin_kind \<Rightarrow> var \<Rightarrow> var \<Rightarrow> (error + var) option" where
  "binary db progr EXPR_EQ l r = map_option (\<lambda>b. truth b) (equality r l False)"
| "binary db progr EXPR_NE l r = map_option (\<lambda>b. truth (\<not> b)) (equality r l False)"
| "binary db progr EXPR_LT l r = compare_by (\<lambda>c. c < 0) l r"
| "binary db progr EXPR_LE l r = compare_by (\<lambda>c. c \<le> 0) l r"
| "binary db progr EXPR_GT l r = compare_by (\<lambda>c. c > 0) l r"
| "binary db progr EXPR_GE l r = compare_by (\<lambda>c. c \<ge> 0) l r"
| "binary db progr EXPR_IN l r = member_of l r"
| "binary db progr EXPR_PLUS l r = map_option error_or (add_vars l r)"
| "binary db progr EXPR_MINUS l r = arith do_subtract l r"
| "binary db progr EXPR_TIMES l r = arith do_multiply l r"
| "binary db progr EXPR_DIVIDE l r = arith do_divide l r"
| "binary db progr EXPR_MOD l r = arith do_modulus l r"
| "binary db progr EXPR_PROP l r = get_prop db progr l r"

definition length_of :: "var \<Rightarrow> error + var" where
  "length_of v = (case v of
     VStr s \<Rightarrow> Inr (VInt (word_of_int (llen s)))
   | VList vs \<Rightarrow> Inr (VInt (word_of_int (llen vs)))
   | _ \<Rightarrow> Inl E_TYPE)"

text \<open>The list so far (\<open>None\<close> before the first element) and one more argument.\<close>

definition add_arg :: "var option \<Rightarrow> arg_kind \<Rightarrow> var \<Rightarrow> (error + var) option" where
  "add_arg acc k v =
     (case acc of
        None \<Rightarrow> (case k of
            ARG_NORMAL \<Rightarrow> Some (Inr (VList [v]))
          | ARG_SPLICE \<Rightarrow> Some (if type_of v = TYPE_LIST then Inr v else Inl E_TYPE))
      | Some (VList vs) \<Rightarrow> (case k of
            ARG_NORMAL \<Rightarrow> map_option (\<lambda>r. Inr (VList r)) (listappend vs v)
          | ARG_SPLICE \<Rightarrow> (case v of
                VList ws \<Rightarrow> map_option (\<lambda>r. Inr (VList r)) (listconcat vs ws)
              | _ \<Rightarrow> Some (Inl E_TYPE)))
      | Some _ \<Rightarrow> Some (Inl E_TYPE))"

definition variable :: "nat \<Rightarrow> rt_env \<Rightarrow> (error + var) option" where
  "variable i env = (if i < length env then Some (if env ! i = VNone then Inl E_VARNF else Inr (env ! i)) else None)"

definition assign :: "nat \<Rightarrow> var \<Rightarrow> moo_state \<Rightarrow> moo_state option" where
  "assign i v st = (if i < length (fst st) then Some ((fst st)[i := v], snd st) else None)"

section \<open>Storing\<close>

text \<open>
  A value goes to a left-hand side whose operands have been evaluated, the innermost last; an element or a
  range is replaced in its list or string, and that is stored in turn.
\<close>

fun store :: "setting \<Rightarrow> expr \<Rightarrow> var \<Rightarrow> var list \<Rightarrow> moo_state \<Rightarrow> var res option" where
  "store c (EXPR_RANGE base _ _) v (to # from # b # vs) st =
     and_then (answers c (range_set b from to v) st) (\<lambda>v st. store c base v vs st)"
| "store c (EXPR_INDEX l _) v (i # b # vs) st =
     and_then (answers c (index_set b i v) st) (\<lambda>v st. store c l v vs st)"
| "store c (EXPR_ID i) v vs st = map_option (Value v) (assign i v st)"
| "store c (EXPR_BIN k _ _) v (name # ob # vs) st =
     (case put_prop (st_progr c) ob name v (snd st) of
        None \<Rightarrow> None
      | Some (Inl e) \<Rightarrow> answers c (Some (Inl e)) st
      | Some (Inr db) \<Rightarrow> returns v (fst st, db))"
| "store c _ v vs st = None"

text \<open>
  Scattering: every required variable gets the next element, an optional one if there are elements to spare
  (\<open>spare\<close>), the rest variable as many as are left over (\<open>left\<close>).
\<close>

fun scatter_bind :: "scatter list \<Rightarrow> var list \<Rightarrow> nat \<Rightarrow> nat \<Rightarrow> rt_env \<Rightarrow> rt_env option" where
  "scatter_bind [] vs spare left env = Some env"
| "scatter_bind (Scatter k i dflt # scs) vs spare left env =
     (if \<not> i < length env then (if k = SCAT_OPTIONAL \<and> spare = 0 then scatter_bind scs vs spare left env else None)
      else case k of
        SCAT_REQUIRED \<Rightarrow> (case vs of [] \<Rightarrow> None | v # vs \<Rightarrow> scatter_bind scs vs spare left (env[i := v]))
      | SCAT_REST \<Rightarrow> scatter_bind scs (drop left vs) spare left (env[i := VList (take left vs)])
      | SCAT_OPTIONAL \<Rightarrow>
          if spare = 0 then scatter_bind scs vs spare left env
          else (case vs of [] \<Rightarrow> None | v # vs \<Rightarrow> scatter_bind scs vs (spare - 1) left (env[i := v])))"

definition has_rest :: "scatter list \<Rightarrow> bool" where
  "has_rest scs \<longleftrightarrow> (\<exists>sc \<in> set scs. case sc of Scatter k _ _ \<Rightarrow> k = SCAT_REST)"

definition scatter_check :: "scatter list \<Rightarrow> var \<Rightarrow> error + var list" where
  "scatter_check scs v =
     (case v of
        VList vs \<Rightarrow>
          if length vs < scatter_nreq scs \<or> \<not> has_rest scs \<and> length vs > length scs then Inl E_ARGS else Inr vs
      | _ \<Rightarrow> Inl E_TYPE)"

section \<open>Expressions\<close>

text \<open>
  \<open>dol\<close> is the value that \<^verbatim>\<open>$\<close> is the length of.  The operands of a left-hand side come with the last on top;
  with \<open>inner\<close> the value they select is on top of them.
\<close>

fun denote :: "setting \<Rightarrow> expr \<Rightarrow> var option \<Rightarrow> moo_state \<Rightarrow> var res option"
and denote_args :: "setting \<Rightarrow> arg list \<Rightarrow> var option \<Rightarrow> var option \<Rightarrow> moo_state \<Rightarrow> var res option"
and denote_defaults :: "setting \<Rightarrow> scatter list \<Rightarrow> nat \<Rightarrow> var option \<Rightarrow> var \<Rightarrow> moo_state \<Rightarrow> var res option"
and denote_lval :: "setting \<Rightarrow> expr \<Rightarrow> bool \<Rightarrow> var option \<Rightarrow> moo_state \<Rightarrow> var list res option" where
  "denote c (EXPR_VAR v) = (\<lambda>dol st. returns v st)"
| "denote c (EXPR_ID i) = (\<lambda>dol st. answers c (variable i (fst st)) st)"
| "denote c (EXPR_AND l r) = (\<lambda>dol st. and_then (denote c l dol st)
     (\<lambda>v st. if is_true v then denote c r dol st else Some (Value v st)))"
| "denote c (EXPR_OR l r) = (\<lambda>dol st. and_then (denote c l dol st)
     (\<lambda>v st. if is_true v then Some (Value v st) else denote c r dol st))"
| "denote c (EXPR_NEGATE e) = (\<lambda>dol st. and_then (denote c e dol st) (\<lambda>v st. answers c (Some (negate_var v)) st))"
| "denote c (EXPR_NOT e) = (\<lambda>dol st. and_then (denote c e dol st) (\<lambda>v st. answers c (Some (truth (\<not> is_true v))) st))"
| "denote c (EXPR_BIN k l r) = (\<lambda>dol st. and_then (denote c l dol st) (\<lambda>v st. and_then (denote c r dol st)
     (\<lambda>w st. answers c (binary (snd st) (st_progr c) k v w) st)))"
| "denote c (EXPR_EXP l r) = (\<lambda>dol st. and_then (denote c l dol st) (\<lambda>v st. and_then (denote c r dol st)
     (\<lambda>w st. answers c (Some (error_or (do_power (st_pow c) v w))) st)))"
| "denote c (EXPR_INDEX l r) = (\<lambda>dol st. and_then (denote c l dol st) (\<lambda>v st. and_then (denote c r (Some v) st)
     (\<lambda>w st. answers c (index_ref v w) st)))"
| "denote c (EXPR_RANGE base from to) = (\<lambda>dol st. and_then (denote c base dol st) (\<lambda>v st.
     and_then (denote c from (Some v) st) (\<lambda>f st. and_then (denote c to (Some v) st)
     (\<lambda>t st. answers c (range_ref v f t) st))))"
| "denote c EXPR_LENGTH = (\<lambda>dol st. case dol of None \<Rightarrow> None | Some v \<Rightarrow> answers c (Some (length_of v)) st)"
| "denote c (EXPR_LIST args) = (\<lambda>dol st. denote_args c args None dol st)"
| "denote c (EXPR_CALL f args) = (\<lambda>dol st. None)"
| "denote c (EXPR_VERB obj verb args) = (\<lambda>dol st. None)"
| "denote c (EXPR_COND q t e) = (\<lambda>dol st. and_then (denote c q dol st)
     (\<lambda>v st. if is_true v then denote c t dol st else denote c e dol st))"
| "denote c (EXPR_ASGN lhs rhs) = (\<lambda>dol st.
     case lhs of
       EXPR_SCATTER scs \<Rightarrow> and_then (denote c rhs dol st) (\<lambda>v st.
         case scatter_check scs v of
           Inl e \<Rightarrow> answers c (Some (Inl e)) st
         | Inr vs \<Rightarrow>
             (let spare = length vs - scatter_nreq scs;
                  left = (if has_rest scs then Suc (length vs) - length scs else 0) in
              case scatter_bind scs vs spare left (fst st) of
                None \<Rightarrow> None
              | Some env \<Rightarrow> denote_defaults c scs spare dol v (env, snd st)))
     | _ \<Rightarrow> and_then (denote_lval c lhs False dol st) (\<lambda>vs st.
         and_then (denote c rhs dol st) (\<lambda>v st. and_then (store c lhs v vs st)
         (\<lambda>w st. Some (Value (if is_indexed_lvalue lhs then v else w) st)))))"
| "denote c (EXPR_CATCH e codes except) = (\<lambda>dol st.
     and_then (if codes = [] then returns zero st else denote_args c codes None dol st) (\<lambda>cs st.
       case denote c e dol st of
         Some (Error err st) \<Rightarrow>
           (case handler_matches (VErr err) cs of
              None \<Rightarrow> None
            | Some True \<Rightarrow> (case except of None \<Rightarrow> returns (VErr err) st | Some h \<Rightarrow> denote c h dol st)
            | Some False \<Rightarrow> Some (Error err st))
       | r \<Rightarrow> r))"
| "denote c (EXPR_SCATTER scs) = (\<lambda>dol st. None)"
| "denote_args c [] = (\<lambda>acc dol st. returns (case acc of None \<Rightarrow> VList [] | Some v \<Rightarrow> v) st)"
| "denote_args c (Arg k e # args) = (\<lambda>acc dol st. and_then (denote c e dol st) (\<lambda>v st.
     and_then (answers c (add_arg acc k v) st) (\<lambda>acc st. denote_args c args (Some acc) dol st)))"
| "denote_defaults c [] = (\<lambda>spare dol v st. Some (Value v st))"
| "denote_defaults c (Scatter k i dflt # scs) = (\<lambda>spare dol v st.
     if k \<noteq> SCAT_OPTIONAL then denote_defaults c scs spare dol v st
     else if 0 < spare then denote_defaults c scs (spare - 1) dol v st
     else case dflt of
       None \<Rightarrow> denote_defaults c scs spare dol v st
     | Some e \<Rightarrow> and_then (denote c e dol st) (\<lambda>w st.
         Option.bind (assign i w st) (denote_defaults c scs spare dol v)))"
| "denote_lval c (EXPR_RANGE base from to) inner = (\<lambda>dol st. and_then (denote_lval c base True dol st) (\<lambda>vs st.
     and_then (denote c from (Some (hd vs)) st) (\<lambda>f st. and_then (denote c to (Some (hd vs)) st)
     (\<lambda>t st. Some (Value (t # f # vs) st)))))"
| "denote_lval c (EXPR_INDEX l r) inner = (\<lambda>dol st. and_then (denote_lval c l True dol st) (\<lambda>vs st.
     and_then (denote c r (Some (hd vs)) st) (\<lambda>i st.
       if inner then and_then (answers c (Some (push_ref (hd vs) i)) st) (\<lambda>v st. Some (Value (v # i # vs) st))
       else Some (Value (i # vs) st))))"
| "denote_lval c (EXPR_ID i) inner = (\<lambda>dol st.
     if inner then and_then (answers c (variable i (fst st)) st) (\<lambda>v st. Some (Value [v] st)) else Some (Value [] st))"
| "denote_lval c (EXPR_BIN k l r) inner = (\<lambda>dol st. and_then (denote c l dol st) (\<lambda>ob st.
     and_then (denote c r dol st) (\<lambda>name st.
       if inner then and_then (answers c (get_prop (snd st) (st_progr c) ob name) st)
         (\<lambda>v st. Some (Value [v, name, ob] st))
       else Some (Value [name, ob] st))))"
| "denote_lval c _ inner = (\<lambda>dol st. None)"

end
