(* ===== verification/SimBase.thy ===== *)
theory SimBase
  imports CodeFinish Denote
begin

text \<open>
  Runs of the machine in one activation, and how they relate to the meaning of an expression: from a
  position the machine either reaches another with the value on top of the stack, or raises the error that
  the meaning says, with only values and handlers for other errors above the stack it began with.
\<close>

section \<open>Positions\<close>

lemma lab_mono: "p \<le> q \<Longrightarrow> lab V p \<le> lab V q"
proof -
  assume pq: "p \<le> q"
  have "sum_list (map g (filter (\<lambda>f. fx_pc f < p) fs)) \<le> sum_list (map g (filter (\<lambda>f. fx_pc f < q) fs))"
    for g :: "fixup \<Rightarrow> nat" and fs
    using pq by (induction fs) auto
  then show ?thesis using pq by (simp add: lab_def mu_def add_mono)
qed

lemma lab_less: "lab V p < lab V q \<Longrightarrow> p < q"
  using lab_mono [of q p V] by (meson leD not_le)

lemma READ_BYTES_pos: "READ_BYTES v p n = Some (x, q) \<Longrightarrow> q = p + n \<and> q \<le> length v"
  by (auto simp: READ_BYTES_def split: if_splits)

lemma READ_BYTE_pos: "READ_BYTES v p (Suc 0) = Some (x, q) \<Longrightarrow> q = Suc p"
  by (auto dest: READ_BYTES_pos)

lemma read_scatter_pos:
  "read_scatter bc n p = Some (ts, q) \<Longrightarrow> p \<le> length (bc_vector bc) \<Longrightarrow> p \<le> q \<and> q \<le> length (bc_vector bc)"
  by (induction n arbitrary: p ts) (fastforce simp: bind_eq_Some_conv dest!: READ_BYTES_pos)+

lemma decode_extended_pos:
  assumes "decode_extended bc b p = Some (i, q)" "p \<le> length (bc_vector bc)"
  shows "p \<le> q \<and> q \<le> length (bc_vector bc)"
  using assms
  by (auto simp: decode_extended_def Let_def bind_eq_Some_conv split: if_splits prod.splits
      dest!: READ_BYTES_pos read_scatter_pos simp del: extended_opcode_num.simps)

lemma decode_pos:
  assumes "decode bc p = Some (i, q)"
  shows "p < q" "q \<le> length (bc_vector bc)"
proof -
  obtain b where b: "READ_BYTES (bc_vector bc) p 1 = Some (b, Suc p)" "decode_op bc b (Suc p) = Some (i, q)"
    using assms by (auto simp: decode_def bind_eq_Some_conv) (metis READ_BYTE_pos)
  then have "Suc p \<le> length (bc_vector bc)" using READ_BYTES_pos by blast
  then have "Suc p \<le> q \<and> q \<le> length (bc_vector bc)"
    using b(2)
    by (auto simp: decode_op_def Let_def bind_eq_Some_conv split: if_splits prod.splits option.splits
        dest!: READ_BYTES_pos decode_extended_pos simp del: opcode_num.simps extended_opcode_num.simps)
  then show "p < q" "q \<le> length (bc_vector bc)" by auto
qed

section \<open>Configurations\<close>

text \<open>The machine \<open>m0\<close> runs the code of the view; of its activation only a few fields change.\<close>

definition frame :: "('d, 'w) vm \<Rightarrow> code_view \<Rightarrow> bool" where
  "frame m0 V \<longleftrightarrow> vm_mode m0 = Executing \<and> activ_stack m0 \<noteq> [] \<and> current_bytecodes m0 = Some (cv_bc V)
     \<and> pr_literals (ac_prog (hd (activ_stack m0))) = cv_literals V
     \<and> ac_rt_stack_size (hd (activ_stack m0)) = cv_max V \<and> \<not> task_timed_out m0
     \<and> length (bc_vector (cv_bc V)) < 2 ^ 32"

definition act :: "('d, 'w) vm \<Rightarrow> nat \<Rightarrow> var list \<Rightarrow> rt_env \<Rightarrow> var \<Rightarrow> nat \<Rightarrow> 'd activation" where
  "act m0 pc stk env temp ep = (hd (activ_stack m0))\<lparr>ac_pc := pc, ac_stack := stk, ac_rt_env := env,
     ac_temp := temp, ac_error_pc := ep\<rparr>"

definition cfg ::
  "('d, 'w) vm \<Rightarrow> nat \<Rightarrow> var list \<Rightarrow> moo_state \<Rightarrow> var \<Rightarrow> nat \<Rightarrow> int \<Rightarrow> ('d, 'w) vm" where
  "cfg m0 pc stk st temp ep t = m0\<lparr>activ_stack := act m0 pc stk (fst st) temp ep # tl (activ_stack m0),
     ticks_remaining := t, vm_db := snd st\<rparr>"

text \<open>There are more ticks than positions left.\<close>

definition ready :: "code_view \<Rightarrow> int \<Rightarrow> nat \<Rightarrow> bool" where
  "ready V t p \<longleftrightarrow> int (length (bc_vector (cv_bc V))) < t + int (lab V p)"

definition setting_of :: "('d, 'w) services \<Rightarrow> ('d, 'w) vm \<Rightarrow> setting" where
  "setting_of sv m0 = \<lparr>st_pow = s_pow sv, st_debug = ac_debug (hd (activ_stack m0)),
     st_progr = ac_progr (hd (activ_stack m0))\<rparr>"

lemma act_fields [simp]:
  "ac_pc (act m0 pc stk env temp ep) = pc" "ac_stack (act m0 pc stk env temp ep) = stk"
  "ac_rt_env (act m0 pc stk env temp ep) = env" "ac_temp (act m0 pc stk env temp ep) = temp"
  "ac_prog (act m0 pc stk env temp ep) = ac_prog (hd (activ_stack m0))"
  "ac_debug (act m0 pc stk env temp ep) = ac_debug (hd (activ_stack m0))"
  "ac_progr (act m0 pc stk env temp ep) = ac_progr (hd (activ_stack m0))"
  "ac_rt_stack_size (act m0 pc stk env temp ep) = ac_rt_stack_size (hd (activ_stack m0))"
  by (simp_all add: act_def)

lemma act_updates [simp]:
  "act m0 pc stk env temp ep\<lparr>ac_pc := pc'\<rparr> = act m0 pc' stk env temp ep"
  "act m0 pc stk env temp ep\<lparr>ac_stack := stk'\<rparr> = act m0 pc stk' env temp ep"
  "act m0 pc stk env temp ep\<lparr>ac_rt_env := env'\<rparr> = act m0 pc stk env' temp ep"
  "act m0 pc stk env temp ep\<lparr>ac_temp := temp'\<rparr> = act m0 pc stk env temp' ep"
  "act m0 pc stk env temp ep\<lparr>ac_error_pc := ep'\<rparr> = act m0 pc stk env temp ep'"
  by (simp_all add: act_def)

lemma cfg_fields [simp]:
  "RUN_ACTIV (cfg m0 pc stk st temp ep t) = Some (act m0 pc stk (fst st) temp ep)"
  "vm_db (cfg m0 pc stk st temp ep t) = snd st" "ticks_remaining (cfg m0 pc stk st temp ep t) = t"
  "vm_mode (cfg m0 pc stk st temp ep t) = vm_mode m0" "task_timed_out (cfg m0 pc stk st temp ep t) = task_timed_out m0"
  "activ_stack (cfg m0 pc stk st temp ep t) = act m0 pc stk (fst st) temp ep # tl (activ_stack m0)"
  by (simp_all add: cfg_def RUN_ACTIV_def)

lemma cfg_updates [simp]:
  "set_run (act m0 pc' stk' env' temp' ep') (cfg m0 pc stk st temp ep t) = cfg m0 pc' stk' (env', snd st) temp' ep' t"
  "cfg m0 pc stk st temp ep t\<lparr>ticks_remaining := t'\<rparr> = cfg m0 pc stk st temp ep t'"
  "cfg m0 pc stk st temp ep t\<lparr>vm_db := db'\<rparr> = cfg m0 pc stk (fst st, db') temp ep t"
  by (simp_all add: cfg_def set_run_def)

lemma cfg_bytecodes: "activ_stack m0 \<noteq> [] \<Longrightarrow> current_bytecodes (cfg m0 pc stk st temp ep t) = current_bytecodes m0"
  by (cases "activ_stack m0") (auto simp: cfg_def current_bytecodes_def split: list.split)

section \<open>One instruction\<close>

lemma count_tick_extended: "\<not> COUNT_TICK (opcode_num OP_EXTENDED)"
  by (simp add: COUNT_TICK_def)

lemma vm_step_at:
  assumes fr: "frame m0 V" and i: "at V p i q" and r: "ready V t p"
  obtains t' where "vm_step sv (cfg m0 (lab V p) stk st temp ep t)
      = exec sv (cv_bc V) i (cfg m0 (lab V q) stk st temp (lab V p) t')" "ready V t' q"
proof -
  let ?v = "bc_vector (cv_bc V)" and ?m = "cfg m0 (lab V p) stk st temp (lab V p)"
  have d: "decode (cv_bc V) (lab V p) = Some (i, lab V q)" using i by (simp add: at_def instr_at_def lab_def)
  note pos = decode_pos [OF d]
  obtain b where b: "READ_BYTES ?v (lab V p) 1 = Some (b, Suc (lab V p))"
    using d by (auto simp: decode_def bind_eq_Some_conv) (metis READ_BYTE_pos)
  have byte: "b = unat (?v ! lab V p)"
    using b by (auto simp: READ_BYTES_def take_Suc_conv_app_nth split: if_splits)
  let ?t = "if COUNT_TICK b then t - 1 else t"
  have big: "2 \<le> t" using r pos by (simp add: ready_def)
  have ext: "extended_tick (cv_bc V) (lab V p) \<in> {0, 1}"
    and one: "COUNT_TICK b \<Longrightarrow> extended_tick (cv_bc V) (lab V p) = 0"
    using count_tick_extended by (auto simp: extended_tick_def byte simp del: opcode_num.simps)
  have "vm_step sv (cfg m0 (lab V p) stk st temp ep t)
      = exec sv (cv_bc V) i (cfg m0 (lab V q) stk st temp (lab V p) (?t - extended_tick (cv_bc V) (lab V p)))"
    using fr d b big
    by (simp add: vm_step_def execute_step_def frame_def cfg_bytecodes Let_def del: One_nat_def)
  moreover have "ready V (?t - extended_tick (cv_bc V) (lab V p)) q"
    using r pos(1) ext one unfolding ready_def by (cases "COUNT_TICK b") auto
  ultimately show ?thesis by (rule that)
qed

section \<open>What lies above a handler\<close>

definition transparent :: "error \<Rightarrow> var list \<Rightarrow> bool" where
  "transparent e junk \<longleftrightarrow> (\<forall>vs. has_handler (VErr e) (junk @ vs) = has_handler (VErr e) vs
     \<and> unwind_rt FIN_RAISE (VErr e) 0 (junk @ vs) = unwind_rt FIN_RAISE (VErr e) 0 vs
     \<and> unwind_rt FIN_UNCAUGHT zero 0 (junk @ vs) = unwind_rt FIN_UNCAUGHT zero 0 vs)"

lemma transparent_Nil [simp]: "transparent e []"
  by (simp add: transparent_def)

lemma transparent_append: "transparent e xs \<Longrightarrow> transparent e ys \<Longrightarrow> transparent e (xs @ ys)"
  by (simp add: transparent_def)

lemma transparent_value: "\<not> is_marker v \<Longrightarrow> transparent e [v]"
  by (cases v) (auto simp: transparent_def has_handler.simps unwind_rt.simps is_marker_def)

lemma transparent_values: "\<forall>v \<in> set vs. \<not> is_marker v \<Longrightarrow> transparent e vs"
proof (induction vs)
  case (Cons v vs)
  then show ?case using transparent_append [of e "[v]" vs] transparent_value by simp
qed simp

lemma transparent_handler:
  assumes "handler_matches (VErr e) cs = Some False" "\<not> is_marker cs"
  shows "transparent e [VCatch 1, VInt l, cs]"
proof -
  have "unwind_rt FIN_UNCAUGHT zero 0 ([cs] @ vs) = unwind_rt FIN_UNCAUGHT zero 0 vs" for vs
    using transparent_value [OF assms(2), of e] unfolding transparent_def by blast
  then show ?thesis
    using assms(1) by (simp add: transparent_def has_handler.simps(2) unwind_rt.simps(2)
      Let_def numeral_2_eq_2)
qed

section \<open>Outcomes\<close>

definition steps :: "('d, 'w) services \<Rightarrow> ('d, 'w) vm \<Rightarrow> ('d, 'w) vm \<Rightarrow> bool" where
  "steps sv = (\<lambda>m m'. vm_step sv m = Some m')\<^sup>*\<^sup>*"

lemma steps_refl [simp]: "steps sv m m"
  by (simp add: steps_def)

lemma steps_step: "vm_step sv m = Some m' \<Longrightarrow> steps sv m' m'' \<Longrightarrow> steps sv m m''"
  unfolding steps_def by (rule converse_rtranclp_into_rtranclp)

lemma steps_trans: "steps sv m m' \<Longrightarrow> steps sv m' m'' \<Longrightarrow> steps sv m m''"
  unfolding steps_def by (rule rtranclp_trans)

lemma run_vm_step:
  assumes "vm_step sv m = Some m'"
  shows "run_vm sv m = run_vm sv m'"
proof (cases "vm_mode m")
  case (Stopped o' r)
  then show ?thesis using assms by (simp add: vm_step_def)
qed (subst run_vm.simps, simp add: assms)+

lemma run_vm_steps: "steps sv m m' \<Longrightarrow> run_vm sv m = run_vm sv m'"
  unfolding steps_def by (induction rule: converse_rtranclp_induct) (simp_all add: run_vm_step)

text \<open>
  From \<open>m\<close> the machine raises the error, with the stack \<open>base\<close> under what is transparent to it; or it gets
  to position \<open>q\<close> with the stack that \<open>K\<close> makes of the value; \<open>T\<close> says what is then in the temporary.
\<close>

definition raises_over ::
  "('d, 'w) services \<Rightarrow> ('d, 'w) vm \<Rightarrow> code_view \<Rightarrow> nat \<Rightarrow> var list \<Rightarrow> ('d, 'w) vm \<Rightarrow> error \<Rightarrow> moo_state \<Rightarrow> bool" where
  "raises_over sv m0 V q base m e st \<longleftrightarrow> (\<exists>m1 junk pc temp ep t. steps sv m m1
     \<and> vm_step sv m1 = raise_code_error sv e (cfg m0 pc (junk @ base) st temp ep t)
     \<and> transparent e junk \<and> ready V t q)"

definition leads_to ::
  "('d, 'w) services \<Rightarrow> ('d, 'w) vm \<Rightarrow> code_view \<Rightarrow> nat \<Rightarrow> (var \<Rightarrow> bool) \<Rightarrow> ('a \<Rightarrow> var list) \<Rightarrow> var list
     \<Rightarrow> ('d, 'w) vm \<Rightarrow> 'a res \<Rightarrow> bool" where
  "leads_to sv m0 V q T K base m r \<longleftrightarrow>
     (case r of
        Value v st \<Rightarrow> \<exists>temp ep t. steps sv m (cfg m0 (lab V q) (K v) st temp ep t) \<and> ready V t q \<and> T temp
      | Error e st \<Rightarrow> raises_over sv m0 V q base m e st)"

lemma leads_Value:
  "leads_to sv m0 V q T K base m (Value v st) \<longleftrightarrow>
     (\<exists>temp ep t. steps sv m (cfg m0 (lab V q) (K v) st temp ep t) \<and> ready V t q \<and> T temp)"
  by (simp add: leads_to_def)

lemma leads_Error: "leads_to sv m0 V q T K base m (Error e st) \<longleftrightarrow> raises_over sv m0 V q base m e st"
  by (simp add: leads_to_def)

lemma ready_mono: "ready V t p \<Longrightarrow> p \<le> q \<Longrightarrow> ready V t q"
  using lab_mono [of p q V] by (simp add: ready_def)

lemma raises_steps: "steps sv m m' \<Longrightarrow> raises_over sv m0 V q base m' e st \<Longrightarrow> raises_over sv m0 V q base m e st"
  unfolding raises_over_def using steps_trans by blast

lemma raises_mono: "raises_over sv m0 V p base m e st \<Longrightarrow> p \<le> q \<Longrightarrow> raises_over sv m0 V q base m e st"
  unfolding raises_over_def using ready_mono by blast

lemma raises_base:
  assumes "raises_over sv m0 V q (pre @ base) m e st" "transparent e pre"
  shows "raises_over sv m0 V q base m e st"
proof -
  obtain m1 junk pc temp ep t where 1: "steps sv m m1"
    "vm_step sv m1 = raise_code_error sv e (cfg m0 pc ((junk @ pre) @ base) st temp ep t)"
    "transparent e junk" "ready V t q"
    using assms(1) by (auto simp: raises_over_def)
  then show ?thesis using transparent_append [OF 1(3) assms(2)] unfolding raises_over_def by blast
qed

lemma leads_steps:
  assumes "steps sv m m'" "leads_to sv m0 V q T K base m' r"
  shows "leads_to sv m0 V q T K base m r"
  using assms by (cases r) (auto simp: leads_Value leads_Error intro: steps_trans raises_steps)

lemma leads_base:
  assumes "leads_to sv m0 V q T K (pre @ base) m r" "\<And>e. transparent e pre"
  shows "leads_to sv m0 V q T K base m r"
  using assms by (cases r) (auto simp: leads_Value leads_Error intro: raises_base)

lemma leads_bind:
  assumes 1: "leads_to sv m0 V p1 T1 K1 base m r1" and r: "and_then (Some r1) f = Some r" and le: "p1 \<le> q"
    and 2: "\<And>v st temp ep t. r1 = Value v st \<Longrightarrow> T1 temp \<Longrightarrow> ready V t p1 \<Longrightarrow> f v st = Some r
       \<Longrightarrow> leads_to sv m0 V q T K base (cfg m0 (lab V p1) (K1 v) st temp ep t) r"
  shows "leads_to sv m0 V q T K base m r"
proof (cases r1)
  case (Value v st)
  then obtain temp ep t where a: "steps sv m (cfg m0 (lab V p1) (K1 v) st temp ep t)" "ready V t p1" "T1 temp"
    using 1 by (auto simp: leads_Value)
  have "f v st = Some r" using r Value by (simp add: and_then_def)
  from leads_steps [OF a(1) 2 [OF Value a(3,2) this]] show ?thesis .
next
  case (Error e st)
  then have "r = Error e st" using r by (simp add: and_then_def)
  then show ?thesis using 1 Error raises_mono [OF _ le] by (simp add: leads_Error)
qed

lemma and_then_Some: "and_then x f = Some r \<longleftrightarrow> (\<exists>r1. x = Some r1 \<and> and_then (Some r1) f = Some r)"
  by (cases x) (simp_all add: and_then_def)

end
