(* ===== verification/SimCode.thy ===== *)
theory SimCode
  imports SimBase
begin

text \<open>
  Where the code of an expression lies: it moves forward, and what follows it is never a \<^verbatim>\<open>POP\<close> that an
  instruction could look ahead for and skip.
\<close>

section \<open>Where code lies\<close>

definition next_ok :: "code_view \<Rightarrow> nat \<Rightarrow> bool" where
  "next_ok V p \<longleftrightarrow> lab V p < length (bc_vector (cv_bc V)) \<and> \<not> next_is_pop (cv_bc V) (lab V p)"

lemma at_less: "at V p i q \<Longrightarrow> p < q"
  using decode_pos(1) lab_less unfolding at_def instr_at_def lab_def [symmetric] by blast

lemma at_inside: "at V p i q \<Longrightarrow> lab V p < length (bc_vector (cv_bc V))"
  using decode_pos [of "cv_bc V" "lab V p" i "lab V q"] by (simp add: at_def instr_at_def lab_def [symmetric])

lemma at_next_ok:
  assumes "at V p i q" "i \<noteq> I_op OP_POP"
  shows "next_ok V p"
proof -
  let ?v = "bc_vector (cv_bc V)"
  have d: "decode (cv_bc V) (lab V p) = Some (i, lab V q)" using assms(1) by (simp add: at_def instr_at_def lab_def)
  have l: "lab V p < length ?v" using assms(1) by (rule at_inside)
  have "unat (?v ! lab V p) \<noteq> opcode_num OP_POP"
  proof
    assume pop: "unat (?v ! lab V p) = opcode_num OP_POP"
    then have "READ_BYTES ?v (lab V p) 1 = Some (opcode_num OP_POP, Suc (lab V p))"
      using l by (simp add: READ_BYTES_def take_Suc_conv_app_nth del: opcode_num.simps)
    then show False
      using d assms(2) by (simp add: decode_def decode_op_def lookup_opcode_num simple_opcodes_def del: opcode_num.simps)
  qed
  then show ?thesis using l by (simp add: next_ok_def next_is_pop_def)
qed

lemma constant_code_at: "constant_code V v p q \<Longrightarrow> p < q \<and> next_ok V p"
  unfolding constant_code_def using at_less at_next_ok by blast

lemma put_code_at: "put_code V i p q \<Longrightarrow> p < q \<and> next_ok V p"
  unfolding put_code_def using at_less at_next_ok by blast

lemma store_code_at: "store_code V e p q \<Longrightarrow> p < q \<and> next_ok V p"
proof (induction V e p q rule: store_code.induct)
  case (1 V base uu uv p q)
  then show ?case using at_less at_next_ok by fastforce
next
  case (2 V l uw p q)
  then show ?case using at_less at_next_ok by fastforce
next
  case (4 V k ux uy p q)
  then show ?case using at_less at_next_ok by fastforce
qed (auto dest: put_code_at)

lemma bin_opcode_not_pop [simp]: "bin_opcode k \<noteq> OP_POP"
  by (cases k) simp_all

lemma arg_opcode_not_pop [simp]: "arg_opcode first k \<noteq> OP_POP"
  by (cases first; cases k) simp_all

text \<open>The code of an expression is not empty and does not begin with \<^verbatim>\<open>POP\<close>.\<close>

definition forward :: "code_view \<Rightarrow> nat \<Rightarrow> nat \<Rightarrow> bool" where
  "forward V p q \<longleftrightarrow> p < q \<and> next_ok V p"

definition forward_or_empty :: "code_view \<Rightarrow> nat \<Rightarrow> nat \<Rightarrow> bool" where
  "forward_or_empty V p q \<longleftrightarrow> forward V p q \<or> p = q"

lemma forward_trans: "forward V p q \<Longrightarrow> q < r \<Longrightarrow> forward V p r" "forward V p q \<Longrightarrow> q \<le> r \<Longrightarrow> forward V p r"
  by (simp_all add: forward_def)

lemma forward_empty_trans: "forward_or_empty V p q \<Longrightarrow> forward V q r \<Longrightarrow> forward V p r"
  "forward V p q \<Longrightarrow> forward_or_empty V q r \<Longrightarrow> forward V p r"
  by (auto simp: forward_or_empty_def forward_def)

lemma forward_less: "forward V p q \<Longrightarrow> p < q" "forward_or_empty V p q \<Longrightarrow> p \<le> q" "forward V p q \<Longrightarrow> next_ok V p"
  "forward_or_empty V p q \<Longrightarrow> next_ok V q \<Longrightarrow> next_ok V p"
  by (auto simp: forward_or_empty_def forward_def)

lemma forward_both: "forward V p q \<Longrightarrow> forward V q r \<Longrightarrow> forward V p r"
  by (auto simp: forward_def)

lemma at_forward: "at V p i q \<Longrightarrow> i \<noteq> I_op OP_POP \<Longrightarrow> forward V p q"
  using at_less at_next_ok by (auto simp: forward_def)

definition moves :: "expr \<Rightarrow> bool" where
  "moves e \<longleftrightarrow> (\<forall>V d sv p q. expr_code V e d sv p q \<longrightarrow> forward V p q)
     \<and> (\<forall>V inner d sv p q. lval_code V e inner d sv p q \<longrightarrow> forward_or_empty V p q)"

lemma moves_expr: "moves e \<Longrightarrow> expr_code V e d sv p q \<Longrightarrow> forward V p q"
  unfolding moves_def by blast

lemma moves_lval: "moves e \<Longrightarrow> lval_code V e inner d sv p q \<Longrightarrow> forward_or_empty V p q"
  unfolding moves_def by blast

definition moves_arg :: "arg \<Rightarrow> bool" where
  "moves_arg a \<longleftrightarrow> (case a of Arg k e \<Rightarrow> moves e)"

definition moves_default :: "scatter \<Rightarrow> bool" where
  "moves_default sc \<longleftrightarrow> (case sc of Scatter k i dflt \<Rightarrow> \<forall>e. dflt = Some e \<longrightarrow> moves e)"

lemma moves_args:
  assumes "\<forall>a \<in> set args. moves_arg a" "args_code V first args d sv p q"
  shows "if first then forward V p q else forward_or_empty V p q"
  using assms
proof (induction args arbitrary: first p)
  case Nil
  then show ?case by (cases first) (auto simp: forward_or_empty_def intro: at_forward)
next
  case (Cons a args)
  obtain k e where a: "a = Arg k e" by (cases a)
  obtain p1 p2 where 1: "expr_code V e (if first then d else Suc d) sv p p1" "at V p1 (I_op (arg_opcode first k)) p2"
    "args_code V False args d sv p2 q" using Cons.prems(2) by (auto simp: a)
  have "forward V p p1" using 1(1) Cons.prems(1) by (auto simp: a moves_arg_def intro: moves_expr)
  moreover have "p1 < p2" using at_less [OF 1(2)] .
  moreover have "p2 \<le> q" using Cons.IH [OF _ 1(3)] Cons.prems(1) forward_less(2) by auto
  ultimately show ?case by (auto simp: forward_or_empty_def forward_def)
qed

lemma moves_defaults:
  assumes "\<forall>sc \<in> set scs. moves_default sc" "defaults_code V scs ts d sv p q"
  shows "p \<le> q"
  using assms
proof (induction scs arbitrary: ts p)
  case (Cons sc scs)
  obtain k i dflt where sc: "sc = Scatter k i dflt" by (cases sc)
  obtain j l ts' where ts: "ts = (j, l) # ts'" using Cons.prems(2) by (cases ts) (auto simp: sc)
  have IH: "defaults_code V scs ts' d sv p' q \<Longrightarrow> p' \<le> q" for p' using Cons.IH Cons.prems(1) by auto
  show ?case
  proof (cases "k = SCAT_OPTIONAL \<and> dflt \<noteq> None")
    case True
    then obtain e p1 p2 p3 where 1: "dflt = Some e" "expr_code V e d sv p p1" "put_code V i p1 p2" "at V p2 (I_op OP_POP) p3"
      "defaults_code V scs ts' d sv p3 q" using Cons.prems(2) by (auto simp: sc ts)
    have "p < p1" using 1(1,2) Cons.prems(1) by (auto simp: sc moves_default_def dest: moves_expr forward_less(1))
    then show ?thesis using put_code_at [OF 1(3)] at_less [OF 1(4)] IH [OF 1(5)] by linarith
  next
    case False
    then have "defaults_code V scs ts' d sv p q" using Cons.prems(2) by (auto simp: sc ts split: option.splits if_splits)
    then show ?thesis by (rule IH)
  qed
qed simp

lemma moves_all:
  "moves e \<and> (\<forall>scs. e = EXPR_SCATTER scs \<longrightarrow> (\<forall>sc \<in> set scs. moves_default sc))"
  "moves_arg a" "moves_default sc"
proof (induction e and a and sc)
  case (EXPR_VAR v)
  show ?case by (auto simp: moves_def forward_def dest: constant_code_at)
next
  case (EXPR_ID i)
  show ?case by (auto simp: moves_def forward_or_empty_def intro: at_forward)
next
  case (EXPR_AND l r)
  then show ?case unfolding moves_def [of "EXPR_AND _ _"] by (auto dest!: at_less moves_expr intro: forward_trans forward_less)
next
  case (EXPR_OR l r)
  then show ?case unfolding moves_def [of "EXPR_OR _ _"] by (auto dest!: at_less moves_expr) (meson forward_less(1) forward_trans(1))
next
  case (EXPR_INDEX l r)
  then have 1: "moves l" "moves r" by simp_all
  have "forward V p q" if code: "expr_code V (EXPR_INDEX l r) d sv p q" for V d sv p q
    using code by (auto dest!: at_less moves_expr [OF 1(1)] moves_expr [OF 1(2)]) (meson forward_less(1) forward_trans(1))
  moreover have "forward_or_empty V p q" if code: "lval_code V (EXPR_INDEX l r) inner d sv p q" for V inner d sv p q
    using code by (auto simp: Let_def split: if_splits dest!: at_less moves_lval [OF 1(1)] moves_expr [OF 1(2)])
      (meson forward_or_empty_def forward_empty_trans(1) forward_trans(1))+
  ultimately show ?case by (auto simp: moves_def)
next
  case (EXPR_RANGE b f t)
  then have 1: "moves b" "moves f" "moves t" by simp_all
  have "forward V p q" if code: "expr_code V (EXPR_RANGE b f t) d sv p q" for V d sv p q
    using code by (auto dest!: at_less moves_expr [OF 1(1)] moves_expr [OF 1(2)] moves_expr [OF 1(3)]) (meson forward_both forward_trans(1))
  moreover have "forward_or_empty V p q" if code: "lval_code V (EXPR_RANGE b f t) inner d sv p q" for V inner d sv p q
    using code by (auto simp: Let_def dest!: moves_lval [OF 1(1)] moves_expr [OF 1(2)] moves_expr [OF 1(3)])
      (meson forward_or_empty_def forward_empty_trans(1) forward_both)+
  ultimately show ?case by (auto simp: moves_def)
next
  case (EXPR_BIN k l r)
  then have 1: "moves l" "moves r" by simp_all
  have "forward V p q" if code: "expr_code V (EXPR_BIN k l r) d sv p q" for V d sv p q
    using code by (auto dest!: at_less moves_expr [OF 1(1)] moves_expr [OF 1(2)]) (meson forward_both forward_trans(1))
  moreover have "forward_or_empty V p q" if code: "lval_code V (EXPR_BIN k l r) inner d sv p q" for V inner d sv p q
    using code by (auto split: if_splits dest!: at_less moves_expr [OF 1(1)] moves_expr [OF 1(2)])
      (meson forward_or_empty_def forward_both forward_trans(1))+
  ultimately show ?case by (auto simp: moves_def)
next
  case (EXPR_EXP l r)
  then have 1: "moves l" "moves r" by simp_all
  show ?case unfolding moves_def
    by (auto dest!: at_less moves_expr [OF 1(1)] moves_expr [OF 1(2)]) (meson forward_both forward_trans(1))
next
  case (EXPR_NEGATE e)
  then have 1: "moves e" by simp
  show ?case unfolding moves_def by (auto dest!: at_less moves_expr [OF 1]) (meson forward_trans(1))
next
  case (EXPR_NOT e)
  then have 1: "moves e" by simp
  show ?case unfolding moves_def by (auto dest!: at_less moves_expr [OF 1]) (meson forward_trans(1))
next
  case EXPR_LENGTH
  show ?case by (auto simp: moves_def intro: at_forward)
next
  case (EXPR_LIST args)
  have 1: "\<forall>a \<in> set args. moves_arg a" using EXPR_LIST by blast
  show ?case using moves_args [OF 1, of _ True] by (auto simp: moves_def)
next
  case (EXPR_CALL f args)
  have 1: "\<forall>a \<in> set args. moves_arg a" using EXPR_CALL by blast
  show ?case using moves_args [OF 1, of _ True] by (auto simp: moves_def dest!: at_less) (meson forward_trans(1))
next
  case (EXPR_VERB ob verb args)
  then have 1: "moves ob" "moves verb" "\<forall>a \<in> set args. moves_arg a" by blast+
  show ?case using moves_args [OF 1(3), of _ True]
    by (auto simp: moves_def [of "EXPR_VERB _ _ _"] dest!: at_less moves_expr [OF 1(1)] moves_expr [OF 1(2)]) (meson forward_both forward_trans(1))
next
  case (EXPR_COND c t e)
  then have 1: "moves c" "moves t" "moves e" by simp_all
  show ?case unfolding moves_def
    by (auto dest!: at_less moves_expr [OF 1(1)] moves_expr [OF 1(2)] moves_expr [OF 1(3)])
      (meson forward_less(1) forward_trans(1) less_trans)
next
  case (EXPR_CATCH e codes except)
  have 1: "moves e" "\<forall>a \<in> set codes. moves_arg a" "\<And>h. except = Some h \<Longrightarrow> moves h" using EXPR_CATCH by auto
  have "forward V p q" if code: "expr_code V (EXPR_CATCH e codes except) d sv p q" for V d sv p q
  proof -
    obtain p1 p2 p3 p4 p5 where 2: "codes_code V codes d sv p p1" "at V p1 (E_push_label (lab V p5)) p2" "at V p2 E_catch p3"
      "expr_code V e (Suc (Suc (Suc d))) sv p3 p4" "at V p4 (E_end_catch (lab V q)) p5" "handler_code V except d sv p5 q"
      using code unfolding expr_code_catch by blast
    have "forward V p p1"
      using 2(1) moves_args [OF 1(2), of V True] by (auto simp: codes_code_def split: if_splits intro: at_forward)
    moreover have "p3 < p4" using 2(4) 1(1) moves_expr forward_less(1) by blast
    moreover have "p5 \<le> q" using 2(6) 1(3) unfolding handler_code_def
      by (auto split: option.splits dest!: at_less) (meson 1(3) forward_less(1) less_imp_le less_trans moves_expr)
    ultimately show ?thesis using at_less [OF 2(2)] at_less [OF 2(3)] at_less [OF 2(5)] by (auto simp: forward_def)
  qed
  then show ?case by (auto simp: moves_def simp del: expr_code.simps)
next
  case (EXPR_ASGN lhs rhs)
  then have r: "moves rhs" by simp
  have "forward V p q" if code: "expr_code V (EXPR_ASGN lhs rhs) d sv p q" for V d sv p q
  proof (cases "\<exists>scs. lhs = EXPR_SCATTER scs")
    case True
    then obtain scs where scs: "lhs = EXPR_SCATTER scs" by blast
    then have "\<forall>sc \<in> set scs. moves_default sc" using EXPR_ASGN(1) by blast
    note d = moves_defaults [OF this]
    show ?thesis using code by (auto simp: scs dest!: at_less moves_expr [OF r] d) (meson forward_trans less_le_trans)
  next
    case False
    then have plain: "\<And>scs. lhs \<noteq> EXPR_SCATTER scs" by blast
    obtain p1 p2 where 1: "lval_code V lhs False d sv p p1" "expr_code V rhs (d + lval_depth lhs False) sv p1 p2"
      "if is_indexed_lvalue lhs then \<exists>p3 p4 p5. at V p2 (I_op OP_PUT_TEMP) p3 \<and> store_code V lhs p3 p4
         \<and> at V p4 (I_op OP_POP) p5 \<and> at V p5 (I_op OP_PUSH_TEMP) q else store_code V lhs p2 q"
      using code unfolding expr_code_assign [OF plain] by blast
    have "forward V p p2" using forward_empty_trans(1) [OF moves_lval [OF _ 1(1)] moves_expr [OF r 1(2)]] EXPR_ASGN(1) by simp
    moreover have "p2 < q" using 1(3) by (auto split: if_splits dest!: at_less store_code_at)
    ultimately show ?thesis by (rule forward_trans)
  qed
  then show ?case by (auto simp: moves_def simp del: expr_code.simps)
next
  case (EXPR_SCATTER scs)
  then show ?case by (auto simp: moves_def)
qed (auto simp: moves_arg_def moves_default_def)

lemma expr_forward: "expr_code V e d sv p q \<Longrightarrow> forward V p q"
  by (rule moves_expr [OF moves_all(1) [THEN conjunct1]])

lemma lval_forward: "lval_code V e inner d sv p q \<Longrightarrow> forward_or_empty V p q"
  by (rule moves_lval [OF moves_all(1) [THEN conjunct1]])

lemma args_forward:
  assumes "args_code V first args d sv p q"
  shows "if first then forward V p q else forward_or_empty V p q"
proof (rule moves_args [OF _ assms], rule ballI)
  show "moves_arg a" for a by (rule moves_all(2))
qed

lemma defaults_forward:
  assumes "defaults_code V scs ts d sv p q"
  shows "p \<le> q"
proof (rule moves_defaults [OF _ assms], rule ballI)
  show "moves_default sc" for sc by (rule moves_all(3))
qed

end
