(* ===== verification/SimValues.thy ===== *)
theory SimValues
  imports SimCode
begin

text \<open>
  Facts about the meaning: there is room for the value of an expression, values are never the markers of the
  run-time stack, and defaults do not change the value of a scattering assignment.
\<close>

section \<open>Depth\<close>

text \<open>An expression has room for its value.\<close>

lemma args_depth:
  assumes "\<forall>a \<in> set args. case a of Arg k e \<Rightarrow> \<forall>d sv p q. expr_code V e d sv p q \<longrightarrow> d < cv_max V"
    and "args_code V True args d sv p q"
  shows "d < cv_max V"
proof (cases args)
  case (Cons a as)
  obtain k e where "a = Arg k e" by (cases a)
  then show ?thesis using assms Cons by auto
qed (use assms in simp)

lemma depth_all:
  "(\<forall>d sv p q. expr_code V e d sv p q \<longrightarrow> d < cv_max V)
     \<and> (\<forall>inner d sv p q. lval_code V e inner d sv p q \<longrightarrow> inner \<or> is_indexed_lvalue e \<or> (\<exists>k l r. e = EXPR_BIN k l r) \<longrightarrow> d < cv_max V)"
  "case a of Arg k e \<Rightarrow> \<forall>d sv p q. expr_code V e d sv p q \<longrightarrow> d < cv_max V"
  "case sc of Scatter k i dflt \<Rightarrow> \<forall>e \<in> set_option dflt. \<forall>d sv p q. expr_code V e d sv p q \<longrightarrow> d < cv_max V"
proof (induction e and a and sc)
  case (EXPR_LIST args)
  then have "\<forall>a \<in> set args. case a of Arg k e \<Rightarrow> \<forall>d sv p q. expr_code V e d sv p q \<longrightarrow> d < cv_max V" by blast
  then show ?case using args_depth [of args V] by auto
next
  case (EXPR_CALL f args)
  then have "\<forall>a \<in> set args. case a of Arg k e \<Rightarrow> \<forall>d sv p q. expr_code V e d sv p q \<longrightarrow> d < cv_max V" by blast
  then show ?case using args_depth [of args V] by auto
next
  case (EXPR_ASGN lhs rhs)
  have "d < cv_max V" if code: "expr_code V (EXPR_ASGN lhs rhs) d sv p q" for d sv p q
  proof (cases "\<exists>scs. lhs = EXPR_SCATTER scs")
    case True
    then obtain scs where "lhs = EXPR_SCATTER scs" by blast
    then obtain p1 where "expr_code V rhs d sv p p1" using code by auto
    then show ?thesis using EXPR_ASGN(2) by blast
  next
    case False
    then have plain: "\<And>scs. lhs \<noteq> EXPR_SCATTER scs" by blast
    obtain p1 p2 where 1: "lval_code V lhs False d sv p p1" "expr_code V rhs (d + lval_depth lhs False) sv p1 p2"
      using code unfolding expr_code_assign [OF plain] by blast
    show ?thesis
    proof (cases "is_indexed_lvalue lhs \<or> (\<exists>k l r. lhs = EXPR_BIN k l r)")
      case True
      then show ?thesis using EXPR_ASGN(1) 1(1) by blast
    next
      case False
      then have "lval_depth lhs False = 0" by (cases lhs) auto
      then show ?thesis using EXPR_ASGN(2) 1(2) by auto
    qed
  qed
  then show ?case by (auto simp del: expr_code.simps)
next
  case (EXPR_CATCH e codes except)
  have "d < cv_max V" if "expr_code V (EXPR_CATCH e codes except) d sv p q" for d sv p q
    using that unfolding expr_code_catch by (elim exE conjE) simp
  then show ?case by (auto simp del: expr_code.simps)
next
  case (EXPR_VERB ob verb args)
  have "d < cv_max V" if code: "expr_code V (EXPR_VERB ob verb args) d sv p q" for d sv p q
  proof -
    obtain p1 where "expr_code V ob d sv p p1" using code by auto
    then show ?thesis using EXPR_VERB(1) by blast
  qed
  then show ?case by (auto simp del: expr_code.simps)
next
  case (EXPR_INDEX l r)
  have "d < cv_max V" if code: "expr_code V (EXPR_INDEX l r) d sv p q" for d sv p q
  proof -
    obtain p1 where "expr_code V l d sv p p1" using code by auto
    then show ?thesis using EXPR_INDEX(1) by blast
  qed
  moreover have "d < cv_max V" if code: "lval_code V (EXPR_INDEX l r) inner d sv p q" for inner d sv p q
  proof -
    obtain p1 where "lval_code V l True d sv p p1" using code by (auto simp: Let_def)
    then show ?thesis using EXPR_INDEX(1) by blast
  qed
  ultimately show ?case by (auto simp del: expr_code.simps lval_code.simps)
next
  case (EXPR_RANGE b f t)
  have "d < cv_max V" if code: "expr_code V (EXPR_RANGE b f t) d sv p q" for d sv p q
  proof -
    obtain p1 where "expr_code V b d sv p p1" using code by auto
    then show ?thesis using EXPR_RANGE(1) by blast
  qed
  moreover have "d < cv_max V" if code: "lval_code V (EXPR_RANGE b f t) inner d sv p q" for inner d sv p q
  proof -
    obtain p1 where "lval_code V b True d sv p p1" using code by (auto simp: Let_def)
    then show ?thesis using EXPR_RANGE(1) by blast
  qed
  ultimately show ?case by (auto simp del: expr_code.simps lval_code.simps)
qed (auto split: if_splits)

lemma expr_depth: "expr_code V e d sv p q \<Longrightarrow> d < cv_max V"
  using depth_all(1) [of V e] by blast

section \<open>Values are not markers\<close>

lemma returns_Some: "returns v st = Some r \<longleftrightarrow> r = Value v st \<and> \<not> is_marker v"
  by (auto simp: returns_def)

lemma error_not_marker [simp]: "\<not> is_marker (VErr e)" "\<not> is_marker (VList vs)" "\<not> is_marker (VInt n)"
  by (simp_all add: is_marker_def)

lemma answers_unmarked: "answers c r st = Some (Value v st') \<Longrightarrow> \<not> is_marker v"
  by (auto simp: answers_def returns_Some split: option.splits sum.splits if_splits)

lemma and_then_Value:
  "and_then x f = Some (Value v st') \<Longrightarrow> (\<And>w st. x = Some (Value w st) \<Longrightarrow> f w st = Some (Value v st') \<Longrightarrow> P) \<Longrightarrow> P"
  by (cases x) (auto simp: and_then_def split: res.splits)

lemma store_unmarked:
  "store c e v vs st = Some (Value w st') \<Longrightarrow> \<not> is_marker v \<Longrightarrow> \<not> is_marker w"
proof (induction c e v vs st rule: store.induct)
  case (1 c base u v to f b vs st)
  then show ?case by (auto elim!: and_then_Value dest: answers_unmarked)
next
  case (2 c l u v i b vs st)
  then show ?case by (auto elim!: and_then_Value dest: answers_unmarked)
qed (auto simp: returns_Some split: option.splits sum.splits if_splits dest: answers_unmarked)

lemma args_unmarked: "denote_args c args acc dol st = Some (Value v st') \<Longrightarrow> \<not> is_marker v"
proof (induction args arbitrary: acc st)
  case (Cons a args)
  obtain k e where "a = Arg k e" by (cases a)
  then show ?case using Cons.prems by (auto elim!: and_then_Value dest!: Cons.IH)
qed (simp add: returns_Some)

lemma defaults_value: "denote_defaults c scs spare dol w st = Some (Value v st') \<Longrightarrow> v = w"
proof (induction scs arbitrary: spare st)
  case (Cons sc scs)
  obtain k i dflt where "sc = Scatter k i dflt" by (cases sc)
  then show ?case using Cons.prems
    by (auto elim!: and_then_Value simp: bind_eq_Some_conv split: if_splits option.splits intro: Cons.IH)
qed simp

definition unmarked :: "expr \<Rightarrow> bool" where
  "unmarked e \<longleftrightarrow> (\<forall>c dol st v st'. denote c e dol st = Some (Value v st') \<longrightarrow> \<not> is_marker v)
     \<and> (\<forall>c inner dol st vs st'. denote_lval c e inner dol st = Some (Value vs st') \<longrightarrow> (\<forall>v \<in> set vs. \<not> is_marker v))"

lemma unmarkedI:
  assumes "\<And>c dol st v st'. denote c e dol st = Some (Value v st') \<Longrightarrow> \<not> is_marker v"
    and "\<And>c inner dol st vs st'. denote_lval c e inner dol st = Some (Value vs st') \<Longrightarrow> \<forall>v \<in> set vs. \<not> is_marker v"
  shows "unmarked e"
  unfolding unmarked_def using assms by blast

lemma unmarked_value: "unmarked e \<Longrightarrow> denote c e dol st = Some (Value v st') \<Longrightarrow> \<not> is_marker v"
  unfolding unmarked_def by blast

lemma unmarked_values: "unmarked e \<Longrightarrow> denote_lval c e inner dol st = Some (Value vs st') \<Longrightarrow> \<forall>v \<in> set vs. \<not> is_marker v"
  unfolding unmarked_def by blast

lemma denote_assign:
  assumes "\<And>scs. lhs \<noteq> EXPR_SCATTER scs"
  shows "denote c (EXPR_ASGN lhs rhs) dol st = and_then (denote_lval c lhs False dol st) (\<lambda>vs st.
    and_then (denote c rhs dol st) (\<lambda>v st. and_then (store c lhs v vs st)
    (\<lambda>w st. Some (Value (if is_indexed_lvalue lhs then v else w) st))))"
  using assms by (cases lhs) auto

lemma unmarked_all:
  "unmarked e" "case a of Arg k e \<Rightarrow> unmarked e" "case sc of Scatter k i dflt \<Rightarrow> \<forall>e. dflt = Some e \<longrightarrow> unmarked e"
proof (induction e and a and sc)
  case (EXPR_AND l r) show ?case
    by (rule unmarkedI) (auto elim!: and_then_Value split: if_splits dest: unmarked_value [OF EXPR_AND(1)] unmarked_value [OF EXPR_AND(2)])
next
  case (EXPR_OR l r) show ?case
    by (rule unmarkedI) (auto elim!: and_then_Value split: if_splits dest: unmarked_value [OF EXPR_OR(1)] unmarked_value [OF EXPR_OR(2)])
next
  case (EXPR_COND q t e) show ?case
    by (rule unmarkedI) (auto elim!: and_then_Value split: if_splits dest: unmarked_value [OF EXPR_COND(2)] unmarked_value [OF EXPR_COND(3)])
next
  case (EXPR_LIST args) show ?case by (rule unmarkedI) (auto dest: args_unmarked)
next
  case EXPR_LENGTH show ?case by (rule unmarkedI) (auto split: option.splits dest: answers_unmarked)
next
  case (EXPR_CATCH e codes except)
  have h: "except = Some h \<Longrightarrow> unmarked h" for h using EXPR_CATCH by auto
  show ?case
    by (rule unmarkedI) (auto elim!: and_then_Value simp: returns_Some split: option.splits res.splits bool.splits
        dest: unmarked_value [OF EXPR_CATCH(1)] unmarked_value [OF h])
next
  case (EXPR_ASGN lhs rhs)
  have "\<not> is_marker v" if v: "denote c (EXPR_ASGN lhs rhs) dol st = Some (Value v st')" for c dol st v st'
  proof (cases "\<exists>scs. lhs = EXPR_SCATTER scs")
    case True
    then obtain scs where scs: "lhs = EXPR_SCATTER scs" by blast
    show ?thesis using v
      by (auto simp: scs Let_def elim!: and_then_Value split: sum.splits option.splits dest: answers_unmarked defaults_value
          dest!: unmarked_value [OF EXPR_ASGN(2)])
  next
    case False
    then have plain: "\<And>scs. lhs \<noteq> EXPR_SCATTER scs" by blast
    show ?thesis using v unfolding denote_assign [OF plain]
      by (auto elim!: and_then_Value split: if_splits dest: store_unmarked dest!: unmarked_value [OF EXPR_ASGN(2)])
  qed
  then show ?case by (intro unmarkedI) (simp_all del: denote.simps)
next
  case (EXPR_INDEX l r)
  show ?case by (rule unmarkedI) (auto elim!: and_then_Value split: if_splits dest!: answers_unmarked unmarked_value [OF EXPR_INDEX(2)] unmarked_values [OF EXPR_INDEX(1)])
next
  case (EXPR_RANGE b f t)
  show ?case by (rule unmarkedI) (auto elim!: and_then_Value split: if_splits dest!: answers_unmarked unmarked_value [OF EXPR_RANGE(2)] unmarked_value [OF EXPR_RANGE(3)] unmarked_values [OF EXPR_RANGE(1)])
next
  case (EXPR_BIN k l r)
  show ?case by (rule unmarkedI) (auto elim!: and_then_Value split: if_splits dest!: answers_unmarked unmarked_value [OF EXPR_BIN(1)] unmarked_value [OF EXPR_BIN(2)])
next
  case (EXPR_ID i)
  show ?case by (rule unmarkedI) (auto elim!: and_then_Value split: if_splits dest: answers_unmarked)
qed (auto intro!: unmarkedI simp: returns_Some elim!: and_then_Value dest: answers_unmarked)

end
