(* ===== verification/SimSteps.thy ===== *)
theory SimSteps
  imports SimValues
begin

text \<open>
  One instruction of the machine against one step of the meaning: an instruction that answers with a value or an
  error, one that only moves, and what \<open>means\<close> says of the code of an expression.
\<close>

section \<open>One instruction that answers\<close>

definition answers_as ::
  "('d, 'w) services \<Rightarrow> ('d, 'w) vm \<Rightarrow> code_view \<Rightarrow> instr \<Rightarrow> nat \<Rightarrow> var list \<Rightarrow> var list \<Rightarrow> moo_state \<Rightarrow> (error + var) option \<Rightarrow> bool" where
  "answers_as sv m0 V i q stk base st r \<longleftrightarrow> (\<forall>temp ep t. exec sv (cv_bc V) i (cfg m0 (lab V q) stk st temp ep t)
     = Option.bind (push_answer r (act m0 (lab V q) base (fst st) temp ep)) (apply_result sv (cfg m0 (lab V q) stk st temp ep t)))"

lemma PUSH_act: "frame m0 V \<Longrightarrow> length stk < cv_max V \<Longrightarrow> PUSH v (act m0 pc stk env temp ep) = Some (act m0 pc (v # stk) env temp ep)"
  by (simp add: PUSH_def frame_def)

lemma sim_answer:
  assumes fr: "frame m0 V" and i: "at V p i q" and rd: "ready V t p" and len: "length base < cv_max V"
    and ex: "answers_as sv m0 V i q stk base st r" and res: "answers (setting_of sv m0) r st = Some res" and T: "T temp"
  shows "leads_to sv m0 V q T (\<lambda>v. v # base) base (cfg m0 (lab V p) stk st temp ep t) res"
proof -
  obtain t' where s: "vm_step sv (cfg m0 (lab V p) stk st temp ep t)
      = exec sv (cv_bc V) i (cfg m0 (lab V q) stk st temp (lab V p) t')" "ready V t' q"
    by (rule vm_step_at [OF fr i rd])
  let ?m = "cfg m0 (lab V q)"
  have e: "exec sv (cv_bc V) i (?m stk st temp (lab V p) t')
      = Option.bind (push_answer r (act m0 (lab V q) base (fst st) temp (lab V p)))
          (apply_result sv (?m stk st temp (lab V p) t'))"
    using ex by (simp add: answers_as_def)
  have go: "leads_to sv m0 V q T (\<lambda>v. v # base) base (cfg m0 (lab V p) stk st temp ep t) (Value v st)"
    if "exec sv (cv_bc V) i (?m stk st temp (lab V p) t') = Some (?m (v # base) st temp (lab V p) t')" for v
    unfolding leads_Value using steps_step [OF s(1) [unfolded that] steps_refl] s(2) T by blast
  show ?thesis
  proof (cases r)
    case None
    then show ?thesis using res by (simp add: answers_def)
  next
    case (Some a)
    show ?thesis
    proof (cases a)
      case (Inl err)
      show ?thesis
      proof (cases "st_debug (setting_of sv m0)")
        case True
        then have "res = Error err st" using res Some Inl by (simp add: answers_def)
        moreover have "exec sv (cv_bc V) i (?m stk st temp (lab V p) t') = raise_code_error sv err (?m base st temp (lab V p) t')"
          using e Some Inl True by (simp add: push_answer_def PUSH_ERROR_def apply_result_def setting_of_def)
        ultimately show ?thesis
          using s unfolding leads_Error raises_over_def
          by (metis append_Nil steps_refl transparent_Nil leads_Error raises_over_def)
      next
        case False
        then have "res = Value (VErr err) st" using res Some Inl by (simp add: answers_def)
        moreover have "exec sv (cv_bc V) i (?m stk st temp (lab V p) t') = Some (?m (VErr err # base) st temp (lab V p) t')"
          using e Some Inl False PUSH_act [OF fr len]
          by (simp add: push_answer_def PUSH_ERROR_def apply_result_def setting_of_def)
        ultimately show ?thesis using go by simp
      qed
    next
      case (Inr v)
      then have "res = Value v st" using res Some by (simp add: answers_def returns_Some)
      moreover have "exec sv (cv_bc V) i (?m stk st temp (lab V p) t') = Some (?m (v # base) st temp (lab V p) t')"
        using e Some Inr PUSH_act [OF fr len] by (simp add: push_answer_def pushed_def apply_result_def)
      ultimately show ?thesis using go by simp
    qed
  qed
qed

text \<open>An instruction that only changes the activation.\<close>

lemma sim_quiet:
  assumes fr: "frame m0 V" and i: "at V p i q" and rd: "ready V t p"
    and ex: "\<And>ep t. exec sv (cv_bc V) i (cfg m0 (lab V q) stk st temp ep t) = Some (cfg m0 (lab V q') stk' st' temp' ep t)"
    and le: "q \<le> q'"
  obtains t' where "steps sv (cfg m0 (lab V p) stk st temp ep t) (cfg m0 (lab V q') stk' st' temp' (lab V p) t')" "ready V t' q'"
proof -
  obtain t' where s: "vm_step sv (cfg m0 (lab V p) stk st temp ep t)
      = exec sv (cv_bc V) i (cfg m0 (lab V q) stk st temp (lab V p) t')" "ready V t' q"
    by (rule vm_step_at [OF fr i rd])
  show ?thesis using that [of t'] steps_step [OF s(1) [unfolded ex] steps_refl] ready_mono [OF s(2) le] by blast
qed

text \<open>What the instructions answer.\<close>

lemma POP_act [simp]: "POP (act m0 pc (v # stk) env temp ep) = Some (v, act m0 pc stk env temp ep)"
  by (simp add: POP_def)

lemma push_result_answer: "push_result v a = push_answer (Some (error_or v)) a"
  by (cases v) (simp_all add: push_result_def push_answer_def error_or_def)

lemma pushed_answer: "pushed v a = push_answer (Some (Inr v)) a"
  by (simp add: push_answer_def)

lemma map_answer: "(case x of None \<Rightarrow> None | Some v \<Rightarrow> push_result v a) = push_answer (map_option error_or x) a"
  by (cases x) (simp_all add: push_result_answer push_answer_def)

lemma setting_progr [simp]: "st_progr (setting_of sv m0) = ac_progr (hd (activ_stack m0))"
  "st_pow (setting_of sv m0) = s_pow sv"
  by (simp_all add: setting_of_def)

lemma error_or_VErr [simp]: "error_or (VErr e) = Inl e"
  by (simp add: error_or_def)

named_theorems answers_rules

lemmas answers_simps = answers_as_def exec_def exec_here_def push_answer_def push_result_answer

lemma exec_binary [answers_rules]:
  "answers_as sv m0 V (I_op (bin_opcode k)) q (w # v # stk) stk st (binary (snd st) (st_progr (setting_of sv m0)) k v w)"
proof (cases k)
  case EXPR_IN
  then show ?thesis by (auto simp: answers_simps op_in_def member_of_def split: option.split var.split)
qed (auto simp: answers_simps op_equality_def truth_def op_compare_def compare_by_def op_arith_def arith_def op_add_def
    op_get_prop_def split: option.split)

lemma exec_unary [answers_rules]:
  "answers_as sv m0 V (I_op OP_NOT) q (v # stk) stk st (Some (truth (\<not> is_true v)))"
  "answers_as sv m0 V (I_op OP_UNARY_MINUS) q (v # stk) stk st (Some (negate_var v))"
  "answers_as sv m0 V E_exp q (w # v # stk) stk st (Some (error_or (do_power (st_pow (setting_of sv m0)) v w)))"
  by (auto simp: answers_simps op_not_def truth_def op_unary_minus_def op_exp_def)

lemma exec_elements [answers_rules]:
  "answers_as sv m0 V (I_op OP_REF) q (i # b # stk) stk st (index_ref b i)"
  "answers_as sv m0 V (I_op OP_RANGE_REF) q (t # f # b # stk) stk st (range_ref b f t)"
  "answers_as sv m0 V (I_op OP_INDEXSET) q (v # i # b # stk) stk st (index_set b i v)"
  "answers_as sv m0 V E_rangeset q (v # t # f # b # stk) stk st (range_set b f t v)"
  "answers_as sv m0 V (I_op OP_PUSH_REF) q (i # b # stk) (i # b # stk) st (Some (push_ref b i))"
  "answers_as sv m0 V (I_op OP_PUSH_GET_PROP) q (name # ob # stk) (name # ob # stk) st
     (get_prop (snd st) (st_progr (setting_of sv m0)) ob name)"
  by (auto simp: answers_simps op_ref_def op_range_ref_def op_indexset_def op_rangeset_def op_push_ref_def
      op_push_get_prop_def TOP_RT_VALUE_def NEXT_TOP_RT_VALUE_def split: option.split)

lemma exec_variable [answers_rules]: "answers_as sv m0 V (I_push i) q stk stk st (variable i (fst st))"
  by (auto simp: answers_simps op_push_def read_env_def variable_def split: option.split)

lemma exec_length [answers_rules]:
  assumes "k < length stk" "stk ! (length stk - 1 - k) = v"
  shows "answers_as sv m0 V (E_length k) q stk stk st (Some (length_of v))"
  using assms by (cases v) (auto simp: answers_simps op_length_def length_of_def base_rt_stack_def)

lemma exec_num [answers_rules]: "answers_as sv m0 V (I_num n) q stk stk st (Some (Inr (VInt (word_of_int n))))"
  by (simp add: answers_simps)

lemma exec_imm [answers_rules]:
  assumes "frame m0 V" "next_ok V q" "i < length (cv_literals V)"
  shows "answers_as sv m0 V (I_imm i) q stk stk st (Some (Inr (cv_literals V ! i)))"
  using assms by (simp add: answers_simps op_imm_def next_ok_def frame_def)

lemma exec_args:
  "answers_as sv m0 V (I_op OP_MAKE_EMPTY_LIST) q stk stk st (Some (Inr (VList [])))"
  "answers_as sv m0 V (I_op (arg_opcode False k)) q (v # acc # stk) stk st (add_arg (Some acc) k v)"
  "answers_as sv m0 V (I_op (arg_opcode True ARG_NORMAL)) q (v # stk) stk st (add_arg None ARG_NORMAL v)"
proof -
  show "answers_as sv m0 V (I_op (arg_opcode False k)) q (v # acc # stk) stk st (add_arg (Some acc) k v)"
    by (cases k; cases acc; cases v) (auto simp: answers_simps op_list_add_tail_def op_list_append_def add_arg_def split: option.split)
qed (auto simp: answers_simps op_make_empty_list_def op_make_singleton_list_def add_arg_def)

lemma exec_check_splice:
  assumes "frame m0 V" "length stk < cv_max V"
  shows "answers_as sv m0 V (I_op OP_CHECK_LIST_FOR_SPLICE) q (v # stk) stk st (add_arg None ARG_SPLICE v)"
  using PUSH_act [OF assms]
  by (auto simp: answers_simps op_check_list_for_splice_def TOP_RT_VALUE_def add_arg_def pushed_def)

section \<open>The code of an expression does what it means\<close>

definition dollar_ok :: "nat option \<Rightarrow> var option \<Rightarrow> var list \<Rightarrow> bool" where
  "dollar_ok sd dol stk \<longleftrightarrow> (\<forall>v. dol = Some v \<longrightarrow> (\<exists>k. sd = Some k \<and> k < length stk \<and> stk ! (length stk - 1 - k) = v))"

lemma dollar_push: "dollar_ok sd dol stk \<Longrightarrow> dollar_ok sd dol (v # stk)"
  unfolding dollar_ok_def by (metis (no_types, lifting) diff_Suc_1 diff_diff_left length_Cons less_Suc_eq nth_Cons_Suc plus_1_eq_Suc Suc_diff_Suc Suc_eq_plus1 zero_less_diff diff_Suc_eq_diff_pred)

lemma dollar_pushes: "dollar_ok sd dol stk \<Longrightarrow> dollar_ok sd dol (vs @ stk)"
  by (induction vs) (simp_all add: dollar_push)

lemma dollar_top: "dollar_ok (Some (length stk)) (Some v) (v # stk)"
  by (simp add: dollar_ok_def)

definition means :: "('d, 'w) services \<Rightarrow> ('d, 'w) vm \<Rightarrow> code_view \<Rightarrow> expr \<Rightarrow> bool" where
  "means sv m0 V e \<longleftrightarrow> (\<forall>sd p q dol stk st temp ep t r. expr_code V e (length stk) sd p q \<longrightarrow> next_ok V q
     \<longrightarrow> dollar_ok sd dol stk \<longrightarrow> ready V t p \<longrightarrow> denote (setting_of sv m0) e dol st = Some r
     \<longrightarrow> leads_to sv m0 V q (\<lambda>_. True) (\<lambda>v. v # stk) stk (cfg m0 (lab V p) stk st temp ep t) r)"

lemma meansI:
  assumes "\<And>sd p q dol stk st temp ep t r. \<lbrakk>expr_code V e (length stk) sd p q; next_ok V q; dollar_ok sd dol stk; ready V t p;
     denote (setting_of sv m0) e dol st = Some r\<rbrakk>
     \<Longrightarrow> leads_to sv m0 V q (\<lambda>_. True) (\<lambda>v. v # stk) stk (cfg m0 (lab V p) stk st temp ep t) r"
  shows "means sv m0 V e"
  using assms unfolding means_def by blast

lemma meansD:
  assumes "means sv m0 V e" "expr_code V e (length stk) sd p q" "next_ok V q" "dollar_ok sd dol stk" "ready V t p"
    "denote (setting_of sv m0) e dol st = Some r"
  shows "leads_to sv m0 V q (\<lambda>_. True) (\<lambda>v. v # stk) stk (cfg m0 (lab V p) stk st temp ep t) r"
  using assms unfolding means_def by blast

text \<open>A part of an expression, evaluated over the values \<open>pre\<close> of earlier parts.\<close>

lemma means_then:
  assumes e: "means sv m0 V e" and code: "expr_code V e d sd p p1" and d: "d = length (pre @ base)"
    and nx: "next_ok V p1" and dl: "dollar_ok sd dol (pre @ base)" and rd: "ready V t p"
    and den: "and_then (denote (setting_of sv m0) e dol st) f = Some r" and pre: "\<forall>v \<in> set pre. \<not> is_marker v" and le: "p1 \<le> q"
    and rest: "\<And>v st temp ep t. \<lbrakk>\<not> is_marker v; ready V t p1; f v st = Some r\<rbrakk>
       \<Longrightarrow> leads_to sv m0 V q T K base (cfg m0 (lab V p1) (v # pre @ base) st temp ep t) r"
  shows "leads_to sv m0 V q T K base (cfg m0 (lab V p) (pre @ base) st temp ep t) r"
proof -
  obtain r1 where r1: "denote (setting_of sv m0) e dol st = Some r1" "and_then (Some r1) f = Some r"
    using den and_then_Some by blast
  have "leads_to sv m0 V p1 (\<lambda>_. True) (\<lambda>v. v # pre @ base) (pre @ base) (cfg m0 (lab V p) (pre @ base) st temp ep t) r1"
    using e code nx dl rd r1(1) unfolding means_def d by blast
  then have "leads_to sv m0 V p1 (\<lambda>_. True) (\<lambda>v. v # pre @ base) base (cfg m0 (lab V p) (pre @ base) st temp ep t) r1"
    by (rule leads_base) (rule transparent_values [OF pre])
  then show ?thesis
  proof (rule leads_bind [OF _ r1(2) le])
    fix v st' temp ep t assume "r1 = Value v st'" "ready V t p1" "f v st' = Some r"
    then show "leads_to sv m0 V q T K base (cfg m0 (lab V p1) (v # pre @ base) st' temp ep t) r"
      using rest unmarked_value [OF unmarked_all(1)] r1(1) by blast
  qed
qed

end
