(* ===== verification/SimOps.thy ===== *)
theory SimOps
  imports SimSteps
begin

text \<open>
  The code of constants, variables, operators, indexing, ranges and choices does what the expression means.
\<close>

lemma returns_answers: "returns v st = answers c (Some (Inr v)) st"
  by (simp add: answers_def)

lemma means_var:
  assumes fr: "frame m0 V"
  shows "means sv m0 V (EXPR_VAR v)"
proof (rule meansI)
  fix sd p q dol st temp ep t r and stk :: "var list"
  assume code: "expr_code V (EXPR_VAR v) (length stk) sd p q" and nx: "next_ok V q" and "ready V t p"
    and "denote (setting_of sv m0) (EXPR_VAR v) dol st = Some r"
  then have rd: "ready V t p" and r: "answers (setting_of sv m0) (Some (Inr v)) st = Some r" and room: "length stk < cv_max V"
    by (simp_all add: returns_answers [of _ _ "setting_of sv m0"])
  consider (num) n where "v = VInt n" "at V p (I_num (sint n)) q"
    | (imm) i where "at V p (I_imm i) q" "i < length (cv_literals V)" "cv_literals V ! i = v"
    using code by (auto simp: constant_code_def)
  then show "leads_to sv m0 V q (\<lambda>_. True) (\<lambda>v. v # stk) stk (cfg m0 (lab V p) stk st temp ep t) r"
  proof cases
    case num
    have "answers_as sv m0 V (I_num (sint n)) q stk stk st (Some (Inr v))"
      using exec_num [of sv m0 V "sint n" q stk st] num(1) by simp
    then show ?thesis by (rule sim_answer [OF fr num(2) rd room _ r]) simp
  next
    case imm
    have "answers_as sv m0 V (I_imm i) q stk stk st (Some (Inr v))" using exec_imm [OF fr nx imm(2)] imm(3) by simp
    then show ?thesis by (rule sim_answer [OF fr imm(1) rd room _ r]) simp
  qed
qed

lemma means_id:
  assumes fr: "frame m0 V"
  shows "means sv m0 V (EXPR_ID i)"
proof (rule meansI)
  fix sd p q dol st temp ep t r and stk :: "var list"
  assume "expr_code V (EXPR_ID i) (length stk) sd p q" "ready V t p" "denote (setting_of sv m0) (EXPR_ID i) dol st = Some r"
  then show "leads_to sv m0 V q (\<lambda>_. True) (\<lambda>v. v # stk) stk (cfg m0 (lab V p) stk st temp ep t) r"
    by (intro sim_answer [OF fr]) (auto intro: exec_variable)
qed

lemma means_length:
  assumes fr: "frame m0 V"
  shows "means sv m0 V EXPR_LENGTH"
proof (rule meansI)
  fix sd p q dol st temp ep t r and stk :: "var list"
  assume code: "expr_code V EXPR_LENGTH (length stk) sd p q" "dollar_ok sd dol stk" "ready V t p" "denote (setting_of sv m0) EXPR_LENGTH dol st = Some r"
  obtain v where v: "dol = Some v" "answers (setting_of sv m0) (Some (length_of v)) st = Some r"
    using code(4) by (cases dol) auto
  obtain k where k: "sd = Some k" "k < length stk" "stk ! (length stk - 1 - k) = v" using code(2) v(1) by (auto simp: dollar_ok_def)
  have "at V p (E_length k) q" "length stk < cv_max V" using code(1) k(1) by auto
  then show "leads_to sv m0 V q (\<lambda>_. True) (\<lambda>v. v # stk) stk (cfg m0 (lab V p) stk st temp ep t) r"
    by (rule sim_answer [OF fr _ code(3) _ exec_length [OF k(2,3)] v(2)]) simp
qed

text \<open>An operator after its operands.\<close>

lemma means_unary:
  assumes fr: "frame m0 V" and e: "means sv m0 V e"
  shows "means sv m0 V (EXPR_NEGATE e)" "means sv m0 V (EXPR_NOT e)"
proof -
  have main: "leads_to sv m0 V q (\<lambda>_. True) (\<lambda>v. v # stk) stk (cfg m0 (lab V p) stk st temp ep t) r"
    if code: "expr_code V e (length stk) sd p p1" and i: "at V p1 i q" "i \<noteq> I_op OP_POP" and dl: "dollar_ok sd dol stk"
      and rd: "ready V t p" and den: "and_then (denote (setting_of sv m0) e dol st) (\<lambda>v st. answers (setting_of sv m0) (f v) st) = Some r"
      and ex: "\<And>v st. answers_as sv m0 V i q (v # stk) stk st (f v)"
    for sd p p1 q i dol stk st temp ep t r f
  proof (rule means_then [OF e code, of "[]" stk, simplified])
    show "p1 \<le> q" using at_less [OF i(1)] by simp
    show "leads_to sv m0 V q (\<lambda>_. True) (\<lambda>v. v # stk) stk (cfg m0 (lab V p1) (v # stk) st temp ep t) r"
      if "ready V t p1" "answers (setting_of sv m0) (f v) st = Some r" for v st temp ep t
      by (rule sim_answer [OF fr i(1) that(1) expr_depth [OF code] ex that(2)]) simp
  qed (use at_next_ok [OF i] dl rd den in simp_all)
  show "means sv m0 V (EXPR_NEGATE e)"
    by (rule meansI) (auto intro!: main simp: exec_unary)
  show "means sv m0 V (EXPR_NOT e)"
    by (rule meansI) (auto intro!: main simp: exec_unary)
qed

lemma means_two:
  assumes fr: "frame m0 V" and l: "means sv m0 V l" and r: "means sv m0 V r"
    and code: "expr_code V l (length stk) sd p p1" "expr_code V r (Suc (length stk)) sd' p1 p2" and i: "at V p2 i q" "i \<noteq> I_op OP_POP"
    and dl: "dollar_ok sd dol stk" "\<And>v. dollar_ok sd' (dol' v) (v # stk)"
    and rd: "ready V t p"
    and den: "and_then (denote (setting_of sv m0) l dol st) (\<lambda>v st. and_then (denote (setting_of sv m0) r (dol' v) st)
      (\<lambda>w st. answers (setting_of sv m0) (f (snd st) v w) st)) = Some res"
    and ex: "\<And>v w st. answers_as sv m0 V i q (w # v # stk) stk st (f (snd st) v w)"
  shows "leads_to sv m0 V q (\<lambda>_. True) (\<lambda>v. v # stk) stk (cfg m0 (lab V p) stk st temp ep t) res"
proof (rule means_then [OF l code(1), of "[]" stk, simplified])
  note less = forward_less(1) [OF expr_forward [OF code(2)]] at_less [OF i(1)]
  show "next_ok V p1" using expr_forward [OF code(2)] by (rule forward_less)
  show "p1 \<le> q" using less by simp
  fix v st temp ep t
  assume v: "\<not> is_marker v" "ready V t p1" "and_then (denote (setting_of sv m0) r (dol' v) st)
      (\<lambda>w st. answers (setting_of sv m0) (f (snd st) v w) st) = Some res"
  show "leads_to sv m0 V q (\<lambda>_. True) (\<lambda>v. v # stk) stk (cfg m0 (lab V p1) (v # stk) st temp ep t) res"
  proof (rule means_then [OF r code(2), of "[v]" stk, simplified])
    show "p2 \<le> q" using less by simp
    show "leads_to sv m0 V q (\<lambda>_. True) (\<lambda>v. v # stk) stk (cfg m0 (lab V p2) (w # v # stk) st temp ep t) res"
      if "ready V t p2" "answers (setting_of sv m0) (f (snd st) v w) st = Some res" for w st temp ep t
      by (rule sim_answer [OF fr i(1) that(1) expr_depth [OF code(1)] ex that(2)]) simp
  qed (use at_next_ok [OF i] dl(2) v in simp_all)
qed (use dl(1) rd den in simp_all)

lemma means_bin:
  assumes fr: "frame m0 V" and l: "means sv m0 V l" and r: "means sv m0 V r"
  shows "means sv m0 V (EXPR_BIN k l r)"
proof (rule meansI)
  fix sd p q dol st temp ep t res and stk :: "var list"
  assume code: "expr_code V (EXPR_BIN k l r) (length stk) sd p q" and a: "dollar_ok sd dol stk" "ready V t p"
    and den: "denote (setting_of sv m0) (EXPR_BIN k l r) dol st = Some res"
  obtain p1 p2 where 1: "expr_code V l (length stk) sd p p1" "expr_code V r (Suc (length stk)) sd p1 p2" "at V p2 (I_op (bin_opcode k)) q"
    using code by auto
  show "leads_to sv m0 V q (\<lambda>_. True) (\<lambda>v. v # stk) stk (cfg m0 (lab V p) stk st temp ep t) res"
    by (rule means_two [OF fr l r 1 _ a(1) _ a(2)
          den [unfolded denote.simps] exec_binary [of sv m0 V k q]]) (simp_all add: dollar_push [OF a(1)])
qed

lemma means_exp:
  assumes fr: "frame m0 V" and l: "means sv m0 V l" and r: "means sv m0 V r"
  shows "means sv m0 V (EXPR_EXP l r)"
proof (rule meansI)
  fix sd p q dol st temp ep t res and stk :: "var list"
  assume code: "expr_code V (EXPR_EXP l r) (length stk) sd p q" and a: "dollar_ok sd dol stk" "ready V t p"
    and den: "denote (setting_of sv m0) (EXPR_EXP l r) dol st = Some res"
  obtain p1 p2 where 1: "expr_code V l (length stk) sd p p1" "expr_code V r (Suc (length stk)) sd p1 p2" "at V p2 E_exp q"
    using code by auto
  show "leads_to sv m0 V q (\<lambda>_. True) (\<lambda>v. v # stk) stk (cfg m0 (lab V p) stk st temp ep t) res"
    by (rule means_two [OF fr l r 1 _ a(1) _ a(2) den [unfolded denote.simps] exec_unary(3) [of sv m0 V q]])
      (simp_all add: dollar_push [OF a(1)])
qed

lemma means_index:
  assumes fr: "frame m0 V" and l: "means sv m0 V l" and r: "means sv m0 V r"
  shows "means sv m0 V (EXPR_INDEX l r)"
proof (rule meansI)
  fix sd p q dol st temp ep t res and stk :: "var list"
  assume code: "expr_code V (EXPR_INDEX l r) (length stk) sd p q" and a: "dollar_ok sd dol stk" "ready V t p"
    and den: "denote (setting_of sv m0) (EXPR_INDEX l r) dol st = Some res"
  obtain p1 p2 where 1: "expr_code V l (length stk) sd p p1" "expr_code V r (Suc (length stk)) (Some (length stk)) p1 p2" "at V p2 (I_op OP_REF) q"
    using code by auto
  show "leads_to sv m0 V q (\<lambda>_. True) (\<lambda>v. v # stk) stk (cfg m0 (lab V p) stk st temp ep t) res"
    by (rule means_two [OF fr l r 1 _ a(1) _ a(2) den [unfolded denote.simps] exec_elements(1) [of sv m0 V q]])
      (simp_all add: dollar_top)
qed

text \<open>Two index expressions over a base that is on the stack.\<close>

lemma means_bounds:
  assumes f: "means sv m0 V from" and t: "means sv m0 V to"
    and code: "expr_code V from (length (pre @ base)) sd p p1" "expr_code V to (Suc (length (pre @ base))) sd p1 p2"
    and nx: "next_ok V p2" and le: "p2 \<le> q" and dl: "dollar_ok sd dol (pre @ base)" and pre: "\<forall>v \<in> set pre. \<not> is_marker v"
    and rd: "ready V k p"
    and den: "and_then (denote (setting_of sv m0) from dol st) (\<lambda>v st. and_then (denote (setting_of sv m0) to dol st) (g v)) = Some res"
    and rest: "\<And>v w st temp ep t. \<lbrakk>\<not> is_marker v; \<not> is_marker w; ready V t p2; g v w st = Some res\<rbrakk>
       \<Longrightarrow> leads_to sv m0 V q T K base (cfg m0 (lab V p2) (w # v # pre @ base) st temp ep t) res"
  shows "leads_to sv m0 V q T K base (cfg m0 (lab V p) (pre @ base) st temp ep k) res"
proof (rule means_then [OF f code(1) refl])
  note less = forward_less(1) [OF expr_forward [OF code(2)]]
  show "next_ok V p1" using expr_forward [OF code(2)] by (rule forward_less)
  show "p1 \<le> q" using less le by simp
  fix v st temp ep t
  assume v: "\<not> is_marker v" "ready V t p1" "and_then (denote (setting_of sv m0) to dol st) (g v) = Some res"
  show "leads_to sv m0 V q T K base (cfg m0 (lab V p1) (v # pre @ base) st temp ep t) res"
  proof (rule means_then [OF t code(2), of "v # pre" base, simplified])
    show "leads_to sv m0 V q T K base (cfg m0 (lab V p2) (w # v # pre @ base) st temp ep t) res"
      if "\<not> is_marker w" "ready V t p2" "g v w st = Some res" for w st temp ep t
      using rest [OF v(1) that] .
  qed (use nx dollar_push [OF dl] v pre le in auto)
qed (use dl rd den pre in simp_all)

lemma means_range:
  assumes fr: "frame m0 V" and b: "means sv m0 V base" and f: "means sv m0 V from" and t: "means sv m0 V to"
  shows "means sv m0 V (EXPR_RANGE base from to)"
proof (rule meansI)
  fix sd p q dol st temp ep t' res and stk :: "var list"
  assume code: "expr_code V (EXPR_RANGE base from to) (length stk) sd p q" and a: "dollar_ok sd dol stk" "ready V t' p"
    and den: "denote (setting_of sv m0) (EXPR_RANGE base from to) dol st = Some res"
  obtain p1 p2 p3 where 1: "expr_code V base (length stk) sd p p1" "expr_code V from (Suc (length stk)) (Some (length stk)) p1 p2"
    "expr_code V to (Suc (Suc (length stk))) (Some (length stk)) p2 p3" "at V p3 (I_op OP_RANGE_REF) q"
    using code by auto
  note less = forward_less(1) [OF expr_forward [OF 1(2)]] forward_less(1) [OF expr_forward [OF 1(3)]] at_less [OF 1(4)]
  show "leads_to sv m0 V q (\<lambda>_. True) (\<lambda>v. v # stk) stk (cfg m0 (lab V p) stk st temp ep t') res"
  proof (rule means_then [OF b 1(1), of "[]" stk, simplified])
    show "next_ok V p1" using expr_forward [OF 1(2)] by (rule forward_less)
    show "p1 \<le> q" using less by simp
    show "and_then (denote (setting_of sv m0) base dol st) (\<lambda>v st. and_then (denote (setting_of sv m0) from (Some v) st)
      (\<lambda>f st. and_then (denote (setting_of sv m0) to (Some v) st) (\<lambda>t st. answers (setting_of sv m0) (range_ref v f t) st))) = Some res"
      using den by simp
    fix v st temp ep t'
    assume v: "\<not> is_marker v" "ready V t' p1" and d: "and_then (denote (setting_of sv m0) from (Some v) st)
      (\<lambda>f st. and_then (denote (setting_of sv m0) to (Some v) st) (\<lambda>t st. answers (setting_of sv m0) (range_ref v f t) st)) = Some res"
    show "leads_to sv m0 V q (\<lambda>_. True) (\<lambda>v. v # stk) stk (cfg m0 (lab V p1) (v # stk) st temp ep t') res"
    proof (rule means_bounds [OF f t, where pre = "[v]" and base = stk, simplified, OF 1(2,3) _ _ dollar_top v(1,2) d])
      show "next_ok V p3" by (rule at_next_ok [OF 1(4)]) simp
      show "p3 \<le> q" using less by simp
      show "leads_to sv m0 V q (\<lambda>_. True) (\<lambda>v. v # stk) stk (cfg m0 (lab V p3) (w # u # v # stk) st temp ep t') res"
        if "ready V t' p3" "answers (setting_of sv m0) (range_ref v u w) st = Some res" for u w st temp ep t'
        by (rule sim_answer [OF fr 1(4) that(1) expr_depth [OF 1(1)] exec_elements(2) that(2)]) simp
    qed
  qed (use a in simp_all)
qed

section \<open>Choices\<close>

lemma exec_test:
  "exec sv bc (I_branch OP_IF_QUES l) (cfg m0 pc (v # stk) st temp ep t)
     = Some (cfg m0 (if is_true v then pc else l) stk st temp ep t)"
  "exec sv bc (I_branch OP_JUMP l) (cfg m0 pc stk st temp ep t) = Some (cfg m0 l stk st temp ep t)"
  "exec sv bc (I_branch OP_AND l) (cfg m0 pc (v # stk) st temp ep t)
     = Some (if is_true v then cfg m0 pc stk st temp ep t else cfg m0 l (v # stk) st temp ep t)"
  "exec sv bc (I_branch OP_OR l) (cfg m0 pc (v # stk) st temp ep t)
     = Some (if is_true v then cfg m0 l (v # stk) st temp ep t else cfg m0 pc stk st temp ep t)"
  by (simp_all add: exec_def exec_here_def op_branch_def op_test_def op_and_or_def JUMP_def TOP_RT_VALUE_def apply_result_def)

lemma leads_here:
  assumes "ready V t q" "T temp"
  shows "leads_to sv m0 V q T K base (cfg m0 (lab V q) (K v) st temp ep t) (Value v st)"
  unfolding leads_Value using assms by (blast intro: steps_refl)

lemma means_and_or:
  assumes fr: "frame m0 V" and l: "means sv m0 V l" and r: "means sv m0 V r"
  shows "means sv m0 V (EXPR_AND l r)" "means sv m0 V (EXPR_OR l r)"
proof -
  have main: "leads_to sv m0 V q (\<lambda>_. True) (\<lambda>v. v # stk) stk (cfg m0 (lab V p) stk st temp ep t) res"
    if code: "expr_code V l (length stk) sd p p1" "at V p1 (I_branch op (lab V q)) p2" "expr_code V r (length stk) sd p2 q"
      and nx: "next_ok V q" and dl: "dollar_ok sd dol stk" and rd: "ready V t p" and op: "op = OP_AND \<or> op = OP_OR"
      and den: "and_then (denote (setting_of sv m0) l dol st)
        (\<lambda>v st. if is_true v = (op = OP_AND) then denote (setting_of sv m0) r dol st else Some (Value v st)) = Some res"
    for sd p p1 p2 q op dol st temp ep t res and stk :: "var list"
  proof (rule means_then [OF l code(1), of "[]" stk, simplified])
    note less = at_less [OF code(2)] forward_less(1) [OF expr_forward [OF code(3)]]
    show "next_ok V p1" by (rule at_next_ok [OF code(2)]) simp
    show "p1 \<le> q" using less by simp
    show "and_then (denote (setting_of sv m0) l dol st)
        (\<lambda>v st. if is_true v = (op = OP_AND) then denote (setting_of sv m0) r dol st else Some (Value v st)) = Some res" by (rule den)
    fix v st temp ep t
    assume v: "ready V t p1" "(if is_true v = (op = OP_AND) then denote (setting_of sv m0) r dol st else Some (Value v st)) = Some res"
    show "leads_to sv m0 V q (\<lambda>_. True) (\<lambda>v. v # stk) stk (cfg m0 (lab V p1) (v # stk) st temp ep t) res"
    proof (cases "is_true v = (op = OP_AND)")
      case True
      have "exec sv (cv_bc V) (I_branch op (lab V q)) (cfg m0 (lab V p2) (v # stk) st temp ep t) = Some (cfg m0 (lab V p2) stk st temp ep t)"
        for ep t using True op by (auto simp: exec_test)
      then obtain t' where s: "steps sv (cfg m0 (lab V p1) (v # stk) st temp ep t) (cfg m0 (lab V p2) stk st temp (lab V p1) t')" "ready V t' p2"
        by (rule sim_quiet [OF fr code(2) v(1) _ order_refl])
      have "denote (setting_of sv m0) r dol st = Some res" using v(2) True by simp
      then have "leads_to sv m0 V q (\<lambda>_. True) (\<lambda>v. v # stk) stk (cfg m0 (lab V p2) stk st temp (lab V p1) t') res"
        using r code(3) nx dl s(2) unfolding means_def by blast
      then show ?thesis by (rule leads_steps [OF s(1)])
    next
      case False
      have "exec sv (cv_bc V) (I_branch op (lab V q)) (cfg m0 (lab V p2) (v # stk) st temp ep t) = Some (cfg m0 (lab V q) (v # stk) st temp ep t)"
        for ep t using False op by (auto simp: exec_test)
      then obtain t' where s: "steps sv (cfg m0 (lab V p1) (v # stk) st temp ep t) (cfg m0 (lab V q) (v # stk) st temp (lab V p1) t')" "ready V t' q"
        by (rule sim_quiet [OF fr code(2) v(1)]) (use less in simp)
      have "res = Value v st" using v(2) False by simp
      then show ?thesis using leads_steps [OF s(1) leads_here [OF s(2), of "\<lambda>_. True" temp sv m0 "\<lambda>v. v # stk" stk v]] by simp
    qed
  qed (use dl rd in simp_all)
  show "means sv m0 V (EXPR_AND l r)"
    by (rule meansI) (auto intro!: main [of _ _ _ _ OP_AND])
  show "means sv m0 V (EXPR_OR l r)"
  proof (rule meansI)
    fix sd p q dol st temp ep t res and stk :: "var list"
    assume a: "expr_code V (EXPR_OR l r) (length stk) sd p q" "next_ok V q" "dollar_ok sd dol stk" "ready V t p"
      "denote (setting_of sv m0) (EXPR_OR l r) dol st = Some res"
    have "and_then (denote (setting_of sv m0) l dol st)
        (\<lambda>v st. if is_true v = (OP_OR = OP_AND) then denote (setting_of sv m0) r dol st else Some (Value v st)) = Some res"
    proof -
      have "(\<lambda>v st. if is_true v = (OP_OR = OP_AND) then denote (setting_of sv m0) r dol st else Some (Value v st))
        = (\<lambda>v st. if is_true v then Some (Value v st) else denote (setting_of sv m0) r dol st)" by (intro ext) simp
      then show ?thesis using a(5) by (simp only: denote.simps)
    qed
    then show "leads_to sv m0 V q (\<lambda>_. True) (\<lambda>v. v # stk) stk (cfg m0 (lab V p) stk st temp ep t) res"
      using a by (auto intro!: main [of _ _ _ _ OP_OR])
  qed
qed

lemma means_cond:
  assumes fr: "frame m0 V" and c: "means sv m0 V c" and a: "means sv m0 V a" and b: "means sv m0 V b"
  shows "means sv m0 V (EXPR_COND c a b)"
proof (rule meansI)
  fix sd p q dol st temp ep t res and stk :: "var list"
  assume code: "expr_code V (EXPR_COND c a b) (length stk) sd p q" and nx: "next_ok V q" and dl: "dollar_ok sd dol stk" "ready V t p"
    and den: "denote (setting_of sv m0) (EXPR_COND c a b) dol st = Some res"
  obtain p1 p2 p3 p4 where 1: "expr_code V c (length stk) sd p p1" "at V p1 (I_branch OP_IF_QUES (lab V p4)) p2"
    "expr_code V a (length stk) sd p2 p3" "at V p3 (I_branch OP_JUMP (lab V q)) p4" "expr_code V b (length stk) sd p4 q"
    using code by auto
  note less = at_less [OF 1(2)] at_less [OF 1(4)] forward_less(1) [OF expr_forward [OF 1(3)]] forward_less(1) [OF expr_forward [OF 1(5)]]
  show "leads_to sv m0 V q (\<lambda>_. True) (\<lambda>v. v # stk) stk (cfg m0 (lab V p) stk st temp ep t) res"
  proof (rule means_then [OF c 1(1), of "[]" stk, simplified])
    show "next_ok V p1" by (rule at_next_ok [OF 1(2)]) simp
    show "p1 \<le> q" using less by simp
    show "and_then (denote (setting_of sv m0) c dol st)
        (\<lambda>v st. if is_true v then denote (setting_of sv m0) a dol st else denote (setting_of sv m0) b dol st) = Some res" using den by simp
    fix v st temp ep t
    assume v: "ready V t p1" "(if is_true v then denote (setting_of sv m0) a dol st else denote (setting_of sv m0) b dol st) = Some res"
    show "leads_to sv m0 V q (\<lambda>_. True) (\<lambda>v. v # stk) stk (cfg m0 (lab V p1) (v # stk) st temp ep t) res"
    proof (cases "is_true v")
      case True
      obtain t' where s: "steps sv (cfg m0 (lab V p1) (v # stk) st temp ep t) (cfg m0 (lab V p2) stk st temp (lab V p1) t')" "ready V t' p2"
        by (rule sim_quiet [OF fr 1(2) v(1) _ order_refl]) (auto simp: exec_test True)
      have d: "and_then (denote (setting_of sv m0) a dol st) (\<lambda>v st. Some (Value v st)) = Some res"
        using v(2) True by (cases res) (auto simp: and_then_def)
      have "leads_to sv m0 V q (\<lambda>_. True) (\<lambda>v. v # stk) stk (cfg m0 (lab V p2) stk st temp (lab V p1) t') res"
      proof (rule means_then [OF a 1(3), of "[]" stk, simplified])
        show "next_ok V p3" by (rule at_next_ok [OF 1(4)]) simp
        show "leads_to sv m0 V q (\<lambda>_. True) (\<lambda>v. v # stk) stk (cfg m0 (lab V p3) (w # stk) st temp ep t) res"
          if w: "ready V t p3" "Some (Value w st) = Some res" for w st temp ep t
        proof -
          obtain t' where s: "steps sv (cfg m0 (lab V p3) (w # stk) st temp ep t) (cfg m0 (lab V q) (w # stk) st temp (lab V p3) t')" "ready V t' q"
            by (rule sim_quiet [OF fr 1(4) w(1)]) (use less in \<open>auto simp: exec_test\<close>)
          show ?thesis using leads_steps [OF s(1) leads_here [OF s(2), of "\<lambda>_. True" temp sv m0 "\<lambda>v. v # stk" stk w]] w(2) by simp
        qed
        show "p3 \<le> q" using less by simp
        show "and_then (denote (setting_of sv m0) a dol st) (\<lambda>v st. Some (Value v st)) = Some res" by (rule d)
      qed (use dl s(2) in simp_all)
      then show ?thesis by (rule leads_steps [OF s(1)])
    next
      case False
      have "exec sv (cv_bc V) (I_branch OP_IF_QUES (lab V p4)) (cfg m0 (lab V p2) (v # stk) st temp ep t) = Some (cfg m0 (lab V p4) stk st temp ep t)"
        for ep t using False by (simp add: exec_test)
      then obtain t' where s: "steps sv (cfg m0 (lab V p1) (v # stk) st temp ep t) (cfg m0 (lab V p4) stk st temp (lab V p1) t')" "ready V t' p4"
        by (rule sim_quiet [OF fr 1(2) v(1)]) (use less in simp)
      have "denote (setting_of sv m0) b dol st = Some res" using v(2) False by simp
      then have "leads_to sv m0 V q (\<lambda>_. True) (\<lambda>v. v # stk) stk (cfg m0 (lab V p4) stk st temp (lab V p1) t') res"
        using b 1(5) nx dl(1) s(2) unfolding means_def by blast
      then show ?thesis by (rule leads_steps [OF s(1)])
    qed
  qed (use dl in simp_all)
qed

end
