(* ===== verification/SimCatch.thy ===== *)
theory SimCatch
  imports SimOps
begin

text \<open>
  The code of argument lists and of a catching expression does what it means: an error that the codes match
  is found and unwound to by \<^verbatim>\<open>unwind_stack\<close>, any other passes through.
\<close>

section \<open>Lists of arguments\<close>

definition means_arg :: "('d, 'w) services \<Rightarrow> ('d, 'w) vm \<Rightarrow> code_view \<Rightarrow> arg \<Rightarrow> bool" where
  "means_arg sv m0 V a \<longleftrightarrow> (case a of Arg k e \<Rightarrow> means sv m0 V e)"

lemma exec_add_arg:
  assumes "frame m0 V" "length stk < cv_max V"
  shows "answers_as sv m0 V (I_op (arg_opcode first k)) q (v # (if first then stk else acc # stk)) stk st
    (add_arg (if first then None else Some acc) k v)"
proof (cases first)
  case True
  then show ?thesis using exec_args(3) [of sv m0 V q v stk st] exec_check_splice [OF assms, of sv q v st] by (cases k) auto
next
  case False
  then show ?thesis using exec_args(2) [of sv m0 V k q v acc stk st] by simp
qed

lemma means_args:
  assumes fr: "frame m0 V" and args: "\<forall>a \<in> set args. means_arg sv m0 V a" and room: "length stk < cv_max V"
    and code: "args_code V first args (length stk) sd p q" and nx: "next_ok V q" and dl: "dollar_ok sd dol stk"
    and rd: "ready V t p" and den: "denote_args (setting_of sv m0) args (if first then None else Some acc) dol st = Some res"
    and acc: "\<not> is_marker acc"
  shows "leads_to sv m0 V q (\<lambda>_. True) (\<lambda>v. v # stk) stk (cfg m0 (lab V p) (if first then stk else acc # stk) st temp ep t) res"
  using args code rd den acc
proof (induction args arbitrary: first p t st acc temp ep)
  case Nil
  show ?case
  proof (cases first)
    case True
    have "answers (setting_of sv m0) (Some (Inr (VList []))) st = Some res" using Nil(4) True by (simp add: returns_answers [of _ _ "setting_of sv m0"])
    moreover have "at V p (I_op OP_MAKE_EMPTY_LIST) q" using Nil(2) True by simp
    ultimately show ?thesis
      using sim_answer [OF fr _ Nil(3) room exec_args(1), where T = "\<lambda>_. True"] True by simp
  next
    case False
    then have "p = q" "res = Value acc st" using Nil by (auto simp: returns_Some)
    then show ?thesis using leads_here [of V t q "\<lambda>_. True" temp sv m0 "\<lambda>v. v # stk" stk acc st ep] Nil(3) False by simp
  qed
next
  case (Cons a args)
  obtain k e where a: "a = Arg k e" by (cases a)
  let ?pre = "if first then [] else [acc]" and ?acc = "if first then None else Some acc"
  have stack: "(if first then stk else acc # stk) = ?pre @ stk" by simp
  obtain p1 p2 where 1: "expr_code V e (if first then length stk else Suc (length stk)) sd p p1"
    "at V p1 (I_op (arg_opcode first k)) p2" "args_code V False args (length stk) sd p2 q"
    using Cons.prems(2) by (auto simp: a)
  have le: "p2 \<le> q" using args_forward [OF 1(3)] by (simp add: forward_less(2))
  have e: "means sv m0 V e" using Cons.prems(1) by (simp add: a means_arg_def)
  show ?case unfolding stack
  proof (rule means_then [OF e 1(1)])
    show "and_then (denote (setting_of sv m0) e dol st) (\<lambda>v st. and_then (answers (setting_of sv m0) (add_arg ?acc k v) st)
      (\<lambda>acc st. denote_args (setting_of sv m0) args (Some acc) dol st)) = Some res" using Cons.prems(4) by (simp add: a)
    fix v st temp ep t
    assume v: "ready V t p1" "and_then (answers (setting_of sv m0) (add_arg ?acc k v) st)
      (\<lambda>acc st. denote_args (setting_of sv m0) args (Some acc) dol st) = Some res"
    obtain r1 where r1: "answers (setting_of sv m0) (add_arg ?acc k v) st = Some r1"
      "and_then (Some r1) (\<lambda>acc st. denote_args (setting_of sv m0) args (Some acc) dol st) = Some res"
      using v(2) and_then_Some by blast
    have "leads_to sv m0 V p2 (\<lambda>_. True) (\<lambda>v. v # stk) stk (cfg m0 (lab V p1) (v # ?pre @ stk) st temp ep t) r1"
      using sim_answer [OF fr 1(2) v(1) room exec_add_arg [OF fr room, of sv first k p2 v acc st] r1(1),
          where T = "\<lambda>_. True" and temp = temp and ep = ep] by (cases first) simp_all
    then show "leads_to sv m0 V q (\<lambda>_. True) (\<lambda>v. v # stk) stk (cfg m0 (lab V p1) (v # ?pre @ stk) st temp ep t) res"
    proof (rule leads_bind [OF _ r1(2) le])
      fix w st' temp ep t
      assume w: "r1 = Value w st'" "ready V t p2" "denote_args (setting_of sv m0) args (Some w) dol st' = Some res"
      have "\<not> is_marker w" using r1(1) w(1) answers_unmarked by blast
      then show "leads_to sv m0 V q (\<lambda>_. True) (\<lambda>v. v # stk) stk (cfg m0 (lab V p2) (w # stk) st' temp ep t) res"
        using Cons.IH [of False p2 t w st' temp ep] Cons.prems(1) 1(3) w by simp
    qed
  next
    show "next_ok V p1" by (rule at_next_ok [OF 1(2)]) simp
    show "p1 \<le> q" using le at_less [OF 1(2)] by simp
  qed (use dl dollar_push [OF dl] Cons.prems(3,5) in auto)
qed

lemma means_list:
  assumes fr: "frame m0 V" and args: "\<forall>a \<in> set args. means_arg sv m0 V a"
  shows "means sv m0 V (EXPR_LIST args)"
proof (rule meansI)
  fix sd p q dol st temp ep t r and stk :: "var list"
  assume a: "expr_code V (EXPR_LIST args) (length stk) sd p q" "next_ok V q" "dollar_ok sd dol stk" "ready V t p"
    "denote (setting_of sv m0) (EXPR_LIST args) dol st = Some r"
  show "leads_to sv m0 V q (\<lambda>_. True) (\<lambda>v. v # stk) stk (cfg m0 (lab V p) stk st temp ep t) r"
    using means_args [OF fr args expr_depth [OF a(1)], of True sd p q dol t zero st r temp ep] a
    by (simp add: zero_def)
qed

section \<open>Catching errors\<close>

lemma exec_catch:
  assumes fr: "frame m0 V" and room: "Suc (Suc (length stk)) < cv_max V"
  shows "exec sv bc (E_push_label l) (cfg m0 pc (cs # stk) st temp ep t) = Some (cfg m0 pc (VInt (word_of_nat l) # cs # stk) st temp ep t)"
    "exec sv bc E_catch (cfg m0 pc (x # cs # stk) st temp ep t) = Some (cfg m0 pc (VCatch 1 # x # cs # stk) st temp ep t)"
    "exec sv bc (E_end_catch l) (cfg m0 pc (v # VCatch 1 # x # cs # stk) st temp ep t) = Some (cfg m0 l (v # stk) st temp ep t)"
    "exec sv bc (I_op OP_POP) (cfg m0 pc (v # stk) st temp ep t) = Some (cfg m0 pc stk st temp ep t)"
  using room
  by (simp_all add: exec_def exec_here_def op_push_label_def op_catch_def op_end_catch_def pop_handlers_def pushed_def
      apply_result_def JUMP_def PUSH_act [OF fr])

lemma handled:
  assumes fr: "frame m0 V" and m: "handler_matches (VErr err) cs = Some True" and room: "length stk < cv_max V"
    and tr: "transparent err junk" and l: "l < length (bc_vector (cv_bc V))"
  obtains x y where "steps sv (the (raise_code_error sv err (cfg m0 pc (junk @ VCatch 1 # VInt (word_of_nat l) # cs # stk) st temp ep t)))
      (cfg m0 l (VList (VErr err # x # y) # stk) st temp ep t)"
    "raise_code_error sv err (cfg m0 pc (junk @ VCatch 1 # VInt (word_of_nat l) # cs # stk) st temp ep t) \<noteq> None"
proof -
  let ?block = "VCatch 1 # VInt (word_of_nat l) # cs # stk"
  let ?m = "cfg m0 pc (junk @ ?block) st temp ep t"
  have small: "l < 2 ^ 32" using l fr by (simp add: frame_def)
  have lab: "unat (word_of_nat l :: 32 word) = l" using small by (simp add: unat_of_nat)
  have "has_handler (VErr err) ?block = Some True"
    using m by (simp add: has_handler.simps(2) Let_def numeral_2_eq_2)
  then have h: "has_handler (VErr err) (junk @ ?block) = Some True" using tr by (simp add: transparent_def)
  have "unwind_rt FIN_RAISE (VErr err) 0 ?block = Some (Exc_Handler l stk)"
    using m lab by (simp add: unwind_rt.simps(2) Let_def numeral_2_eq_2)
  then have u: "unwind_rt FIN_RAISE (VErr err) 0 (junk @ ?block) = Some (Exc_Handler l stk)"
    using tr by (simp add: transparent_def)
  let ?k = "length (tl (activ_stack m0))"
  let ?val = "VList [VErr err, VStr (unparse_error err), zero,
    VList (make_stack_list sv (activ_stack ?m) ?k True (root_activ_vector ?m) True)]"
  have r: "raise_code_error sv err ?m = Some (unwind_stack FIN_RAISE ?val False ?m)"
    using h by (simp add: raise_code_error_def raise_error_def)
  have "vm_step sv (unwind_stack FIN_RAISE ?val False ?m) = Some (cfg m0 l (?val # stk) st temp ep t)"
  proof -
    have mode: "vm_mode m0 = Executing" using fr by (simp add: frame_def)
    have run: "RUN_ACTIV (unwind_stack FIN_RAISE ?val False ?m) = Some (act m0 pc (junk @ ?block) (fst st) temp ep)"
      by (simp add: unwind_stack_def set_mode_def RUN_ACTIV_def)
    have "unwind_activation FIN_RAISE ?val (act m0 pc (junk @ ?block) (fst st) temp ep)
        = Some (Some (act m0 l (?val # stk) (fst st) temp ep))"
      using u PUSH_act [OF fr room] by (simp add: unwind_activation_def raise_code_def)
    then show ?thesis
      using run mode
      by (simp add: vm_step_def unwind_step_def unwind_stack_def set_mode_def cfg_def set_run_def)
  qed
  then have "steps sv (unwind_stack FIN_RAISE ?val False ?m) (cfg m0 l (?val # stk) st temp ep t)"
    using steps_refl by (rule steps_step)
  then show ?thesis by (intro that) (simp_all add: r)
qed


lemma handler_runs:
  assumes fr: "frame m0 V" and hd: "handler_code V except (length stk) sd p5 q" and nx: "next_ok V q" and dl: "dollar_ok sd dol stk"
    and room: "length stk < cv_max V" and room1: "Suc (length stk) < cv_max V" and h: "\<And>h. except = Some h \<Longrightarrow> means sv m0 V h" and rd: "ready V t p5"
    and den: "(case except of None \<Rightarrow> returns (VErr err) st | Some h \<Rightarrow> denote (setting_of sv m0) h dol st) = Some r"
  shows "leads_to sv m0 V q (\<lambda>_. True) (\<lambda>v. v # stk) stk (cfg m0 (lab V p5) (VList (VErr err # x # y) # stk) st temp ep t) r"
proof (cases except)
  case None
  then obtain p6 where 1: "at V p5 (I_num 1) p6" "at V p6 (I_op OP_REF) q" using hd by (auto simp: handler_code_def)
  have r: "r = Value (VErr err) st" using den None by (simp add: returns_Some)
  let ?l = "VList (VErr err # x # y)"
  have "exec sv (cv_bc V) (I_num 1) (cfg m0 (lab V p6) (?l # stk) st temp ep t) = Some (cfg m0 (lab V p6) (VInt 1 # ?l # stk) st temp ep t)" for ep t
    using PUSH_act [OF fr, of "?l # stk"] room1 by (simp add: exec_def exec_here_def apply_result_def pushed_def)
  then obtain t' where s: "steps sv (cfg m0 (lab V p5) (?l # stk) st temp ep t) (cfg m0 (lab V p6) (VInt 1 # ?l # stk) st temp (lab V p5) t')"
    "ready V t' p6" by (rule sim_quiet [OF fr 1(1) rd _ order_refl])
  have "index_ref ?l (VInt 1) = Some (Inr (VErr err))" by (simp add: index_ref_def)
  then have a: "answers (setting_of sv m0) (index_ref ?l (VInt 1)) st = Some r" by (simp add: r answers_def returns_Some)
  show ?thesis
    by (rule leads_steps [OF s(1) sim_answer [OF fr 1(2) s(2) room exec_elements(1) a]]) simp
next
  case (Some h)
  then obtain p6 where 1: "at V p5 (I_op OP_POP) p6" "expr_code V h (length stk) sd p6 q" using hd by (auto simp: handler_code_def)
  have "exec sv (cv_bc V) (I_op OP_POP) (cfg m0 (lab V p6) (VList (VErr err # x # y) # stk) st temp ep t) = Some (cfg m0 (lab V p6) stk st temp ep t)" for ep t
    using exec_def by (simp add: exec_def exec_here_def apply_result_def)
  then obtain t' where s: "steps sv (cfg m0 (lab V p5) (VList (VErr err # x # y) # stk) st temp ep t) (cfg m0 (lab V p6) stk st temp (lab V p5) t')"
    "ready V t' p6" by (rule sim_quiet [OF fr 1(1) rd _ order_refl])
  have "leads_to sv m0 V q (\<lambda>_. True) (\<lambda>v. v # stk) stk (cfg m0 (lab V p6) stk st temp (lab V p5) t') r"
    by (rule meansD [OF h [OF Some] 1(2) nx dl s(2)]) (use den Some in simp)
  then show ?thesis by (rule leads_steps [OF s(1)])
qed

lemma means_catch:
  assumes fr: "frame m0 V" and e: "means sv m0 V e" and codes: "\<forall>a \<in> set codes. means_arg sv m0 V a"
    and h: "\<And>h. except = Some h \<Longrightarrow> means sv m0 V h"
  shows "means sv m0 V (EXPR_CATCH e codes except)"
proof (rule meansI)
  fix sd p q dol st temp ep t r and stk :: "var list"
  assume code: "expr_code V (EXPR_CATCH e codes except) (length stk) sd p q" and nx: "next_ok V q" and dl: "dollar_ok sd dol stk"
    and rd: "ready V t p" and den: "denote (setting_of sv m0) (EXPR_CATCH e codes except) dol st = Some r"
  let ?c = "setting_of sv m0"
  let ?goal = "\<lambda>pos stk' st temp ep t. leads_to sv m0 V q (\<lambda>_. True) (\<lambda>v. v # stk) stk (cfg m0 (lab V pos) stk' st temp ep t) r"
  let ?body = "\<lambda>cs st. case denote ?c e dol st of
         Some (Error err st) \<Rightarrow>
           (case handler_matches (VErr err) cs of
              None \<Rightarrow> None
            | Some True \<Rightarrow> (case except of None \<Rightarrow> returns (VErr err) st | Some h \<Rightarrow> denote ?c h dol st)
            | Some False \<Rightarrow> Some (Error err st))
       | r \<Rightarrow> r"
  obtain p1 p2 p3 p4 p5 where 1: "codes_code V codes (length stk) sd p p1" "Suc (Suc (length stk)) < cv_max V"
    "at V p1 (E_push_label (lab V p5)) p2" "at V p2 E_catch p3"
    "expr_code V e (Suc (Suc (Suc (length stk)))) sd p3 p4" "at V p4 (E_end_catch (lab V q)) p5" "handler_code V except (length stk) sd p5 q"
    using code unfolding expr_code_catch by blast
  have room: "length stk < cv_max V" using 1(2) by simp
  have p5q: "p5 \<le> q"
  proof (cases except)
    case (Some h)
    then obtain p6 where "at V p5 (I_op OP_POP) p6" "expr_code V h (length stk) sd p6 q" using 1(7) by (auto simp: handler_code_def)
    then show ?thesis using at_less forward_less(1) [OF expr_forward] by fastforce
  next
    case None
    then obtain p6 where "at V p5 (I_num 1) p6" "at V p6 (I_op OP_REF) q" using 1(7) by (auto simp: handler_code_def)
    then show ?thesis using at_less [of V p5] at_less [of V p6] by fastforce
  qed
  have p4q: "p4 \<le> q" using at_less [OF 1(6)] p5q by simp
  have le: "p1 \<le> q" using at_less [OF 1(3)] at_less [OF 1(4)] forward_less(1) [OF expr_forward [OF 1(5)]] p4q by simp
  obtain r0 where r0: "(if codes = [] then returns zero st else denote_args ?c codes None dol st) = Some r0"
    "and_then (Some r0) ?body = Some r"
    using den [unfolded denote.simps(17)] and_then_Some [of _ ?body r] by blast
  have "leads_to sv m0 V p1 (\<lambda>_. True) (\<lambda>v. v # stk) stk (cfg m0 (lab V p) stk st temp ep t) r0"
  proof (cases "codes = []")
    case True
    have z: "answers_as sv m0 V (I_num 0) p1 stk stk st (Some (Inr zero))"
      using exec_num [of sv m0 V 0 p1 stk st] by (simp add: zero_def)
    have a: "answers ?c (Some (Inr zero)) st = Some r0" using r0(1) True by (simp add: returns_answers [of _ _ ?c])
    have i: "at V p (I_num 0) p1" using 1(1) True by (simp add: codes_code_def)
    show ?thesis by (rule sim_answer [OF fr i rd room z a]) simp
  next
    case False
    have nx1: "next_ok V p1" by (rule at_next_ok [OF 1(3)]) simp
    have "args_code V True codes (length stk) sd p p1" "denote_args ?c codes None dol st = Some r0"
      using 1(1) r0(1) False by (simp_all add: codes_code_def)
    then show ?thesis using means_args [OF fr codes room _ nx1 dl rd, of True zero st r0 temp ep] by (simp add: zero_def)
  qed
  then show "?goal p stk st temp ep t"
  proof (rule leads_bind [OF _ r0(2) le])
    fix cs st temp ep t
    assume cs: "r0 = Value cs st" "ready V t p1" "?body cs st = Some r"
    have cs_value: "\<not> is_marker cs"
      using r0(1) cs(1) by (cases "codes = []") (auto simp: returns_Some dest: args_unmarked)
    let ?lab = "VInt (word_of_nat (lab V p5))"
    let ?block = "[VCatch 1, ?lab, cs]"
    have "exec sv (cv_bc V) (E_push_label (lab V p5)) (cfg m0 (lab V p2) (cs # stk) st temp ep t)
        = Some (cfg m0 (lab V p2) (?lab # cs # stk) st temp ep t)" for ep t
      by (rule exec_catch [OF fr 1(2)])
    then obtain t1 where s1: "steps sv (cfg m0 (lab V p1) (cs # stk) st temp ep t) (cfg m0 (lab V p2) (?lab # cs # stk) st temp (lab V p1) t1)"
      "ready V t1 p2" by (rule sim_quiet [OF fr 1(3) cs(2) _ order_refl])
    have "exec sv (cv_bc V) E_catch (cfg m0 (lab V p3) (?lab # cs # stk) st temp ep t)
        = Some (cfg m0 (lab V p3) (?block @ stk) st temp ep t)" for ep t
      using exec_catch(2) [OF fr 1(2)] by simp
    then obtain t2 where s2: "steps sv (cfg m0 (lab V p2) (?lab # cs # stk) st temp (lab V p1) t1) (cfg m0 (lab V p3) (?block @ stk) st temp (lab V p2) t2)"
      "ready V t2 p3" by (rule sim_quiet [OF fr 1(4) s1(2) _ order_refl])
    note s = steps_trans [OF s1(1) s2(1)]
    obtain r1 where r1: "denote ?c e dol st = Some r1" using cs(3) by (cases "denote ?c e dol st") auto
    have body: "leads_to sv m0 V p4 (\<lambda>_. True) (\<lambda>v. v # ?block @ stk) (?block @ stk)
        (cfg m0 (lab V p3) (?block @ stk) st temp (lab V p2) t2) r1"
    proof (rule meansD [OF e _ _ dollar_pushes [OF dl] s2(2) r1])
      show "expr_code V e (length (?block @ stk)) sd p3 p4" using 1(5) by simp
      show "next_ok V p4" by (rule at_next_ok [OF 1(6)]) simp
    qed
    show "?goal p1 (cs # stk) st temp ep t"
    proof (rule leads_steps [OF s])
      show "?goal p3 (?block @ stk) st temp (lab V p2) t2"
      proof (cases r1)
        case (Value v st')
        then have r: "r = Value v st'" using cs(3) r1 by simp
        obtain temp' ep' t' where b: "steps sv (cfg m0 (lab V p3) (?block @ stk) st temp (lab V p2) t2)
            (cfg m0 (lab V p4) (v # ?block @ stk) st' temp' ep' t')" "ready V t' p4"
          using body Value by (auto simp: leads_Value)
        have "exec sv (cv_bc V) (E_end_catch (lab V q)) (cfg m0 (lab V p5) (v # ?block @ stk) st' temp' ep t)
            = Some (cfg m0 (lab V q) (v # stk) st' temp' ep t)" for ep t
          using exec_catch(3) [OF fr 1(2)] by simp
        then obtain t3 where s3: "steps sv (cfg m0 (lab V p4) (v # ?block @ stk) st' temp' ep' t') (cfg m0 (lab V q) (v # stk) st' temp' (lab V p4) t3)"
          "ready V t3 q" by (rule sim_quiet [OF fr 1(6) b(2) _ p5q])
        show ?thesis unfolding r leads_Value using steps_trans [OF b(1) s3(1)] s3(2) by blast
      next
        case (Error err st')
        obtain m where m: "handler_matches (VErr err) cs = Some m" using cs(3) r1 Error
          by (cases "handler_matches (VErr err) cs") simp_all
        have over: "raises_over sv m0 V p4 (?block @ stk) (cfg m0 (lab V p3) (?block @ stk) st temp (lab V p2) t2) err st'"
          using body Error by (simp add: leads_Error)
        show ?thesis
        proof (cases m)
          case False
          then have r: "r = Error err st'" using cs(3) r1 Error m by simp
          have "transparent err ?block" using transparent_handler cs_value m False by simp
          then show ?thesis unfolding r leads_Error by (rule raises_base [OF raises_mono [OF over p4q]])
        next
          case True
          obtain m1 junk pc temp3 ep3 t3 where 3: "steps sv (cfg m0 (lab V p3) (?block @ stk) st temp (lab V p2) t2) m1"
            "vm_step sv m1 = raise_code_error sv err (cfg m0 pc (junk @ ?block @ stk) st' temp3 ep3 t3)"
            "transparent err junk" "ready V t3 p4"
            using over unfolding raises_over_def by blast
          let ?m2 = "cfg m0 pc (junk @ VCatch 1 # ?lab # cs # stk) st' temp3 ep3 t3"
          have l: "lab V p5 < length (bc_vector (cv_bc V))"
            using 1(7) at_inside [of V p5] by (auto simp: handler_code_def split: option.splits)
          obtain x y where 4: "steps sv (the (raise_code_error sv err ?m2)) (cfg m0 (lab V p5) (VList (VErr err # x # y) # stk) st' temp3 ep3 t3)"
            "raise_code_error sv err ?m2 \<noteq> None"
            by (rule handled [OF fr _ room 3(3) l]) (use m True in auto)
          have "steps sv (cfg m0 (lab V p3) (?block @ stk) st temp (lab V p2) t2) (cfg m0 (lab V p5) (VList (VErr err # x # y) # stk) st' temp3 ep3 t3)"
            using 3(2) 4 by (intro steps_trans [OF 3(1)] steps_step [OF _ 4(1)]) auto
          moreover have "?goal p5 (VList (VErr err # x # y) # stk) st' temp3 ep3 t3"
            by (rule handler_runs [OF fr 1(7) nx dl room _ h]) (use 1(2) ready_mono [OF 3(4)] at_less [OF 1(6)] cs(3) r1 Error m True in auto)
          ultimately show ?thesis by (rule leads_steps)
        qed
      qed
    qed
  qed
qed

end
