(* ===== verification/SimStore.thy ===== *)
theory SimStore
  imports SimCatch
begin

text \<open>
  The code of left-hand sides and of the stores into them, with \<^verbatim>\<open>PUT\<close> skipping the \<^verbatim>\<open>POP\<close> that follows it.
\<close>

section \<open>Left-hand sides\<close>

definition means_lval :: "('d, 'w) services \<Rightarrow> ('d, 'w) vm \<Rightarrow> code_view \<Rightarrow> bool \<Rightarrow> expr \<Rightarrow> bool" where
  "means_lval sv m0 V inner e \<longleftrightarrow> (\<forall>sd p q dol stk st temp ep t r. lval_code V e inner (length stk) sd p q \<longrightarrow> next_ok V q
     \<longrightarrow> dollar_ok sd dol stk \<longrightarrow> ready V t p \<longrightarrow> denote_lval (setting_of sv m0) e inner dol st = Some r
     \<longrightarrow> leads_to sv m0 V q (\<lambda>_. True) (\<lambda>vs. vs @ stk) stk (cfg m0 (lab V p) stk st temp ep t) r)"

lemma means_lvalI:
  assumes "\<And>sd p q dol stk st temp ep t r. \<lbrakk>lval_code V e inner (length stk) sd p q; next_ok V q; dollar_ok sd dol stk; ready V t p;
     denote_lval (setting_of sv m0) e inner dol st = Some r\<rbrakk>
     \<Longrightarrow> leads_to sv m0 V q (\<lambda>_. True) (\<lambda>vs. vs @ stk) stk (cfg m0 (lab V p) stk st temp ep t) r"
  shows "means_lval sv m0 V inner e"
  using assms unfolding means_lval_def by blast

lemma means_lvalD:
  assumes "means_lval sv m0 V inner e" "lval_code V e inner (length stk) sd p q" "next_ok V q" "dollar_ok sd dol stk" "ready V t p"
    "denote_lval (setting_of sv m0) e inner dol st = Some r"
  shows "leads_to sv m0 V q (\<lambda>_. True) (\<lambda>vs. vs @ stk) stk (cfg m0 (lab V p) stk st temp ep t) r"
  using assms unfolding means_lval_def by blast

lemma lval_depth: "denote_lval c e inner dol st = Some (Value vs st') \<Longrightarrow> length vs = lval_depth e inner"
proof (induction e arbitrary: inner dol st vs st')
  case (EXPR_RANGE b f t)
  show ?case using EXPR_RANGE.prems by (auto elim!: and_then_Value dest!: EXPR_RANGE.IH(1))
next
  case (EXPR_INDEX l r)
  show ?case using EXPR_INDEX.prems by (auto elim!: and_then_Value dest!: EXPR_INDEX.IH(1) split: if_splits)
qed (auto elim!: and_then_Value split: if_splits)

lemma lval_depth_pos: "0 < lval_depth e True"
  by (cases e) auto

lemma dollar_inner: "length vs = lval_depth l True \<Longrightarrow> dollar_ok (Some (length stk + lval_depth l True - 1)) (Some (hd vs)) (vs @ stk)"
proof -
  assume vs: "length vs = lval_depth l True"
  then obtain v ws where "vs = v # ws" using lval_depth_pos [of l] by (cases vs) auto
  then show ?thesis using dollar_top [of "ws @ stk" v] vs [symmetric] by (simp add: add.commute)
qed

lemma lval_then:
  assumes e: "means_lval sv m0 V inner e" and code: "lval_code V e inner (length stk) sd p p1"
    and nx: "next_ok V p1" and dl: "dollar_ok sd dol stk" and rd: "ready V t p"
    and den: "and_then (denote_lval (setting_of sv m0) e inner dol st) f = Some r" and le: "p1 \<le> q"
    and rest: "\<And>vs st temp ep t. \<lbrakk>\<forall>v \<in> set vs. \<not> is_marker v; length vs = lval_depth e inner; ready V t p1; f vs st = Some r\<rbrakk>
       \<Longrightarrow> leads_to sv m0 V q T K stk (cfg m0 (lab V p1) (vs @ stk) st temp ep t) r"
  shows "leads_to sv m0 V q T K stk (cfg m0 (lab V p) stk st temp ep t) r"
proof -
  obtain r1 where r1: "denote_lval (setting_of sv m0) e inner dol st = Some r1" "and_then (Some r1) f = Some r"
    using den and_then_Some by blast
  show ?thesis
  proof (rule leads_bind [OF means_lvalD [OF e code nx dl rd r1(1)] r1(2) le])
    fix vs st' temp ep t assume a: "r1 = Value vs st'" "ready V t p1" "f vs st' = Some r"
    show "leads_to sv m0 V q T K stk (cfg m0 (lab V p1) (vs @ stk) st' temp ep t) r"
      by (rule rest [OF unmarked_values [OF unmarked_all(1)] lval_depth a(2,3)]) (use r1(1) a(1) in auto)
  qed
qed

lemma leads_map:
  assumes "leads_to sv m0 V q T K base m r" "and_then (Some r) (\<lambda>v st. Some (Value (g v) st)) = Some r'" "\<And>v. K' (g v) = K v"
  shows "leads_to sv m0 V q T K' base m r'"
proof -
  have "K = (\<lambda>v. K' (g v))" using assms(3) by auto
  moreover have "r' = (case r of Value v st \<Rightarrow> Value (g v) st | Error e st \<Rightarrow> Error e st)"
    using assms(2) by (cases r) (simp_all add: and_then_def)
  ultimately show ?thesis using assms(1) by (cases r) (simp_all add: leads_Value leads_Error)
qed

text \<open>The selected value on top of the operands, when it is wanted.\<close>

lemma select_runs:
  assumes fr: "frame m0 V" and i: "if inner then length (vs @ stk) < cv_max V \<and> at V p i q else p = q"
    and ex: "answers_as sv m0 V i q (vs @ stk) (vs @ stk) st a" and vs: "\<forall>v \<in> set vs. \<not> is_marker v" and rd: "ready V t p"
    and den: "(if inner then and_then (answers (setting_of sv m0) a st) (\<lambda>v st. Some (Value (v # vs) st)) else Some (Value vs st)) = Some res"
  shows "leads_to sv m0 V q (\<lambda>_. True) (\<lambda>vs. vs @ stk) stk (cfg m0 (lab V p) (vs @ stk) st temp ep t) res"
proof (cases inner)
  case True
  then obtain r1 where r1: "answers (setting_of sv m0) a st = Some r1" "and_then (Some r1) (\<lambda>v st. Some (Value (v # vs) st)) = Some res"
    using den by (auto simp: and_then_Some [of "answers _ _ _"])
  have at: "at V p i q" "length (vs @ stk) < cv_max V" using i True by simp_all
  have "leads_to sv m0 V q (\<lambda>_. True) (\<lambda>v. v # vs @ stk) (vs @ stk) (cfg m0 (lab V p) (vs @ stk) st temp ep t) r1"
    by (rule sim_answer [OF fr at(1) rd at(2) ex r1(1)]) simp
  then have "leads_to sv m0 V q (\<lambda>_. True) (\<lambda>v. v # vs @ stk) stk (cfg m0 (lab V p) (vs @ stk) st temp ep t) r1"
    by (rule leads_base) (rule transparent_values [OF vs])
  then show ?thesis by (rule leads_map [OF _ r1(2)]) simp
next
  case False
  then have "p = q" "res = Value vs st" using i den by auto
  then show ?thesis using leads_here [of V t q "\<lambda>_. True" temp sv m0 "\<lambda>vs. vs @ stk" stk "vs" st ep] rd by simp
qed

lemma top_runs:
  assumes fr: "frame m0 V" and vs: "\<forall>v \<in> set vs. \<not> is_marker v" "length vs = lval_depth l True"
    and i: "\<not> is_marker i" "ready V t p"
      "(if inner then and_then (answers (setting_of sv m0) (Some (push_ref (hd vs) i)) st) (\<lambda>v st. Some (Value (v # i # vs) st))
       else Some (Value (i # vs) st)) = Some res"
    and at: "if inner then Suc (length stk + lval_depth l True) < cv_max V \<and> at V p (I_op OP_PUSH_REF) q else p = q"
  shows "leads_to sv m0 V q (\<lambda>_. True) (\<lambda>vs. vs @ stk) stk (cfg m0 (lab V p) (i # vs @ stk) st temp ep t) res"
proof -
  obtain b ws where b: "vs = b # ws" using lval_depth_pos [of l] vs(2) by (cases vs) auto
  have ex: "answers_as sv m0 V (I_op OP_PUSH_REF) q ((i # vs) @ stk) ((i # vs) @ stk) st (Some (push_ref b i))"
    using exec_elements(5) [of sv m0 V q i b "ws @ stk" st] by (simp add: b)
  have "if inner then length ((i # vs) @ stk) < cv_max V \<and> at V p (I_op OP_PUSH_REF) q else p = q"
    using at vs(2) by (simp add: add.commute)
  moreover have "\<forall>v \<in> set (i # vs). \<not> is_marker v" using vs(1) i(1) by simp
  moreover have "(if inner then and_then (answers (setting_of sv m0) (Some (push_ref b i)) st) (\<lambda>v st. Some (Value (v # i # vs) st))
       else Some (Value (i # vs) st)) = Some res" using i(3) by (simp only: b list.sel)
  ultimately have "leads_to sv m0 V q (\<lambda>_. True) (\<lambda>vs. vs @ stk) stk (cfg m0 (lab V p) ((i # vs) @ stk) st temp ep t) res"
    by (rule select_runs [OF fr _ ex _ i(2)])
  then show ?thesis by simp
qed

lemma means_lval_index:
  assumes fr: "frame m0 V" and l: "means_lval sv m0 V True l" and r: "means sv m0 V r"
  shows "means_lval sv m0 V inner (EXPR_INDEX l r)"
proof (rule means_lvalI)
  fix sd p q dol st temp ep t res and stk :: "var list"
  let ?c = "setting_of sv m0" and ?k = "length stk + lval_depth l True"
  let ?rest = "\<lambda>vs i st. if inner then and_then (answers ?c (Some (push_ref (hd vs) i)) st) (\<lambda>v st. Some (Value (v # i # vs) st))
       else Some (Value (i # vs) st)"
  assume code: "lval_code V (EXPR_INDEX l r) inner (length stk) sd p q" and nx: "next_ok V q" and dl: "dollar_ok sd dol stk"
    and rd: "ready V t p" and den: "denote_lval ?c (EXPR_INDEX l r) inner dol st = Some res"
  obtain p1 p2 where 1: "lval_code V l True (length stk) sd p p1" "expr_code V r ?k (Some (?k - 1)) p1 p2"
    "if inner then Suc ?k < cv_max V \<and> at V p2 (I_op OP_PUSH_REF) q else p2 = q"
    using code by (auto simp: Let_def)
  have le: "p2 \<le> q" and nx2: "next_ok V p2"
    using 1(3) nx at_less at_next_ok by (auto split: if_splits intro: less_imp_le)
  have nx1: "next_ok V p1" and le1: "p1 \<le> q" using forward_less(1,3) [OF expr_forward [OF 1(2)]] le by simp_all
  show "leads_to sv m0 V q (\<lambda>_. True) (\<lambda>vs. vs @ stk) stk (cfg m0 (lab V p) stk st temp ep t) res"
  proof (rule lval_then [OF l 1(1) nx1 dl rd _ le1])
    show "and_then (denote_lval ?c l True dol st) (\<lambda>vs st. and_then (denote ?c r (Some (hd vs)) st) (?rest vs)) = Some res"
      using den by simp
    fix vs st temp ep t
    assume vs: "\<forall>v \<in> set vs. \<not> is_marker v" "length vs = lval_depth l True" "ready V t p1"
      and d: "and_then (denote ?c r (Some (hd vs)) st) (?rest vs) = Some res"
    have dol: "dollar_ok (Some (?k - 1)) (Some (hd vs)) (vs @ stk)"
      by (rule dollar_inner [OF vs(2)])
    show "leads_to sv m0 V q (\<lambda>_. True) (\<lambda>vs. vs @ stk) stk (cfg m0 (lab V p1) (vs @ stk) st temp ep t) res"
    proof (rule means_then [OF r 1(2) _ nx2 dol vs(3) d vs(1) le])
      show "?k = length (vs @ stk)" using vs(2) by simp
      fix i st temp ep t
      assume i: "\<not> is_marker i" "ready V t p2" "?rest vs i st = Some res"
      show "leads_to sv m0 V q (\<lambda>_. True) (\<lambda>vs. vs @ stk) stk (cfg m0 (lab V p2) (i # vs @ stk) st temp ep t) res"
        by (rule top_runs [OF fr vs(1,2) i 1(3)])
    qed
  qed
qed

lemma means_lval_id:
  assumes fr: "frame m0 V"
  shows "means_lval sv m0 V inner (EXPR_ID i)"
proof (rule means_lvalI)
  fix sd p q dol st temp ep t r and stk :: "var list"
  assume code: "lval_code V (EXPR_ID i) inner (length stk) sd p q" and rd: "ready V t p"
    and den: "denote_lval (setting_of sv m0) (EXPR_ID i) inner dol st = Some r"
  have "leads_to sv m0 V q (\<lambda>_. True) (\<lambda>vs. vs @ stk) stk (cfg m0 (lab V p) ([] @ stk) st temp ep t) r"
    by (rule select_runs [OF fr _ exec_variable [of sv m0 V i q "[] @ stk" st] _ rd]) (use den code in auto)
  then show "leads_to sv m0 V q (\<lambda>_. True) (\<lambda>vs. vs @ stk) stk (cfg m0 (lab V p) stk st temp ep t) r" by simp
qed

lemma means_lval_prop:
  assumes fr: "frame m0 V" and l: "means sv m0 V l" and r: "means sv m0 V r"
  shows "means_lval sv m0 V inner (EXPR_BIN k l r)"
proof (rule means_lvalI)
  fix sd p q dol st temp ep t res and stk :: "var list"
  let ?c = "setting_of sv m0"
  assume code: "lval_code V (EXPR_BIN k l r) inner (length stk) sd p q" and nx: "next_ok V q" and dl: "dollar_ok sd dol stk"
    and rd: "ready V t p" and den: "denote_lval ?c (EXPR_BIN k l r) inner dol st = Some res"
  obtain p1 p2 where 1: "expr_code V l (length stk) sd p p1" "expr_code V r (Suc (length stk)) sd p1 p2"
    "if inner then Suc (Suc (length stk)) < cv_max V \<and> at V p2 (I_op OP_PUSH_GET_PROP) q else p2 = q"
    using code by auto
  have le: "p2 \<le> q" and nx2: "next_ok V p2"
    using 1(3) nx at_less at_next_ok by (auto split: if_splits intro: less_imp_le)
  show "leads_to sv m0 V q (\<lambda>_. True) (\<lambda>vs. vs @ stk) stk (cfg m0 (lab V p) stk st temp ep t) res"
  proof (rule means_bounds [OF l r, where pre = "[]", simplified, OF 1(1,2) nx2 le dl rd])
    show "and_then (denote ?c l dol st) (\<lambda>ob st. and_then (denote ?c r dol st) (\<lambda>name st.
       if inner then and_then (answers ?c (get_prop (snd st) (st_progr ?c) ob name) st)
         (\<lambda>v st. Some (Value [v, name, ob] st))
       else Some (Value [name, ob] st))) = Some res" using den by simp
    fix ob name st temp ep t
    assume v: "\<not> is_marker ob" "\<not> is_marker name" "ready V t p2"
      and d: "(if inner then and_then (answers ?c (get_prop (snd st) (st_progr ?c) ob name) st)
         (\<lambda>v st. Some (Value [v, name, ob] st)) else Some (Value [name, ob] st)) = Some res"
    show "leads_to sv m0 V q (\<lambda>_. True) (\<lambda>vs. vs @ stk) stk (cfg m0 (lab V p2) (name # ob # stk) st temp ep t) res"
    proof -
      have ex: "answers_as sv m0 V (I_op OP_PUSH_GET_PROP) q ([name, ob] @ stk) ([name, ob] @ stk) st (get_prop (snd st) (st_progr ?c) ob name)"
        using exec_elements(6) [of sv m0 V q name ob stk st] by simp
      show ?thesis
        using select_runs [OF fr _ ex _ v(3), of inner, where res = res and temp = temp and ep = ep] 1(3) v d by simp
    qed
  qed
qed


lemma means_lval_range:
  assumes b: "means_lval sv m0 V True b" and f: "means sv m0 V f" and u: "means sv m0 V u"
  shows "means_lval sv m0 V inner (EXPR_RANGE b f u)"
proof (rule means_lvalI)
  fix sd p q dol st temp ep t res and stk :: "var list"
  let ?c = "setting_of sv m0" and ?k = "length stk + lval_depth b True"
  let ?rest = "\<lambda>vs f u st. Some (Value (u # f # vs) st)"
  assume code: "lval_code V (EXPR_RANGE b f u) inner (length stk) sd p q" and nx: "next_ok V q" and dl: "dollar_ok sd dol stk"
    and rd: "ready V t p" and den: "denote_lval ?c (EXPR_RANGE b f u) inner dol st = Some res"
  obtain p1 p2 where 1: "lval_code V b True (length stk) sd p p1" "expr_code V f ?k (Some (?k - 1)) p1 p2"
    "expr_code V u (Suc ?k) (Some (?k - 1)) p2 q"
    using code by (auto simp: Let_def)
  have nx1: "next_ok V p1" and le1: "p1 \<le> q"
    using forward_less(1,3) [OF expr_forward [OF 1(2)]] forward_less(1) [OF expr_forward [OF 1(3)]] by simp_all
  show "leads_to sv m0 V q (\<lambda>_. True) (\<lambda>vs. vs @ stk) stk (cfg m0 (lab V p) stk st temp ep t) res"
  proof (rule lval_then [OF b 1(1) nx1 dl rd _ le1])
    show "and_then (denote_lval ?c b True dol st) (\<lambda>vs st. and_then (denote ?c f (Some (hd vs)) st)
      (\<lambda>f st. and_then (denote ?c u (Some (hd vs)) st) (?rest vs f))) = Some res"
      using den by simp
    fix vs st temp ep t
    assume vs: "\<forall>v \<in> set vs. \<not> is_marker v" "length vs = lval_depth b True" "ready V t p1"
      and d: "and_then (denote ?c f (Some (hd vs)) st) (\<lambda>f st. and_then (denote ?c u (Some (hd vs)) st) (?rest vs f)) = Some res"
    have code2: "expr_code V f (length (vs @ stk)) (Some (?k - 1)) p1 p2" "expr_code V u (Suc (length (vs @ stk))) (Some (?k - 1)) p2 q"
      using 1(2,3) vs(2) by (simp_all add: add.commute)
    show "leads_to sv m0 V q (\<lambda>_. True) (\<lambda>vs. vs @ stk) stk (cfg m0 (lab V p1) (vs @ stk) st temp ep t) res"
    proof (rule means_bounds [OF f u code2 nx order_refl dollar_inner [OF vs(2)] vs(1,3) d])
      fix v w st temp ep t assume a: "ready V t q" "Some (Value (w # v # vs) st) = Some res"
      show "leads_to sv m0 V q (\<lambda>_. True) (\<lambda>vs. vs @ stk) stk (cfg m0 (lab V q) (w # v # vs @ stk) st temp ep t) res"
        using leads_here [of V t q "\<lambda>_. True" temp sv m0 "\<lambda>vs. vs @ stk" stk "w # v # vs" st ep] a by simp
    qed
  qed
qed

section \<open>Storing\<close>

text \<open>What follows the store: nothing, or the \<^verbatim>\<open>POP\<close> that \<^verbatim>\<open>PUT\<close> looks ahead for.\<close>

definition after_store :: "code_view \<Rightarrow> nat \<Rightarrow> nat \<Rightarrow> bool \<Rightarrow> bool" where
  "after_store V q q' keep \<longleftrightarrow> (if keep then q' = q \<and> next_ok V q else at V q (I_op OP_POP) q')"

definition kept :: "bool \<Rightarrow> var list \<Rightarrow> var \<Rightarrow> var list" where
  "kept keep stk v = (if keep then v # stk else stk)"

lemma after_store_le: "after_store V q q' keep \<Longrightarrow> q \<le> q'"
  by (auto simp: after_store_def dest: at_less split: if_splits)

lemma pop_runs:
  assumes fr: "frame m0 V" and a: "after_store V q q' keep" and rd: "ready V t q" and T: "T temp"
  shows "leads_to sv m0 V q' T (kept keep stk) base (cfg m0 (lab V q) (v # stk) st temp ep t) (Value v st)"
proof (cases keep)
  case True
  then show ?thesis using a rd T unfolding leads_Value after_store_def kept_def by (auto intro: steps_refl)
next
  case False
  then have i: "at V q (I_op OP_POP) q'" using a by (simp add: after_store_def)
  have "exec sv (cv_bc V) (I_op OP_POP) (cfg m0 (lab V q') (v # stk) st temp ep t) = Some (cfg m0 (lab V q') stk st temp ep t)" for ep t
    by (simp add: exec_def exec_here_def apply_result_def)
  then obtain t' where "steps sv (cfg m0 (lab V q) (v # stk) st temp ep t) (cfg m0 (lab V q') stk st temp (lab V q) t')" "ready V t' q'"
    by (rule sim_quiet [OF fr i rd _ order_refl])
  then show ?thesis using False T unfolding leads_Value kept_def by auto
qed

lemma pop_position:
  assumes "at V q (I_op OP_POP) q'" "next_is_pop (cv_bc V) (lab V q)"
  shows "lab V q' = Suc (lab V q)"
proof -
  let ?v = "bc_vector (cv_bc V)"
  have d: "decode (cv_bc V) (lab V q) = Some (I_op OP_POP, lab V q')" using assms(1) by (simp add: at_def instr_at_def lab_def)
  have l: "lab V q < length ?v" by (rule at_inside [OF assms(1)])
  have "unat (?v ! lab V q) = opcode_num OP_POP" using assms(2) l by (simp add: next_is_pop_def)
  then have "READ_BYTES ?v (lab V q) 1 = Some (opcode_num OP_POP, Suc (lab V q))"
    using l by (simp add: READ_BYTES_def take_Suc_conv_app_nth del: opcode_num.simps)
  then show ?thesis
    using d by (simp add: decode_def decode_op_def lookup_opcode_num simple_opcodes_def del: opcode_num.simps)
qed

lemma put_runs:
  assumes fr: "frame m0 V" and i: "put_code V i p q" and a: "after_store V q q' keep" and rd: "ready V t p" and T: "T temp"
    and st: "assign i v st = Some st'"
  shows "leads_to sv m0 V q' T (kept keep stk) base (cfg m0 (lab V p) (v # stk) st temp ep t) (Value v st')"
proof -
  have inside: "lab V q < length (bc_vector (cv_bc V))"
    using a at_inside by (auto simp: after_store_def next_ok_def split: if_splits)
  have st': "i < length (fst st)" "st' = ((fst st)[i := v], snd st)" using st by (auto simp: assign_def split: if_splits)
  show ?thesis
  proof (cases "at V p (I_put i) q \<and> next_is_pop (cv_bc V) (lab V q)")
    case True
    then have skip: "\<not> keep" using a by (auto simp: after_store_def next_ok_def)
    then have q': "lab V q' = Suc (lab V q)" using a True pop_position by (auto simp: after_store_def)
    have "exec sv (cv_bc V) (I_put i) (cfg m0 (lab V q) (v # stk) st temp ep t) = Some (cfg m0 (lab V q') stk st' temp ep t)" for ep t
      using True inside st' by (simp add: exec_def exec_here_def op_put_def write_env_def apply_result_def q')
    then obtain t' where "steps sv (cfg m0 (lab V p) (v # stk) st temp ep t) (cfg m0 (lab V q') stk st' temp (lab V p) t')" "ready V t' q'"
      by (rule sim_quiet [OF fr conjunct1 [OF True] rd _ after_store_le [OF a]])
    then show ?thesis using skip T unfolding leads_Value kept_def by auto
  next
    case False
    obtain j where j: "at V p j q" "j = I_put i \<and> \<not> next_is_pop (cv_bc V) (lab V q) \<or> j = I_gput i" using i False by (auto simp: put_code_def)
    have "exec sv (cv_bc V) j (cfg m0 (lab V q) (v # stk) st temp ep t) = Some (cfg m0 (lab V q) (v # stk) st' temp ep t)" for ep t
      using j(2) inside st' by (auto simp: exec_def exec_here_def op_put_def op_gput_def TOP_RT_VALUE_def write_env_def apply_result_def)
    then obtain t' where s: "steps sv (cfg m0 (lab V p) (v # stk) st temp ep t) (cfg m0 (lab V q) (v # stk) st' temp (lab V p) t')" "ready V t' q"
      by (rule sim_quiet [OF fr j(1) rd _ order_refl])
    show ?thesis by (rule leads_steps [OF s(1) pop_runs [where T = T and temp = temp, OF fr a s(2) T]])
  qed
qed

lemma answer_then:
  assumes fr: "frame m0 V" and i: "at V p i q" and rd: "ready V t p" and len: "length (pre @ base) < cv_max V"
    and ex: "answers_as sv m0 V i q stk (pre @ base) st a" and den: "and_then (answers (setting_of sv m0) a st) f = Some r"
    and T: "T temp" and pre: "\<forall>v \<in> set pre. \<not> is_marker v" and le: "q \<le> q'"
    and rest: "\<And>v st temp ep t. \<lbrakk>\<not> is_marker v; T temp; ready V t q; f v st = Some r\<rbrakk>
       \<Longrightarrow> leads_to sv m0 V q' T K base (cfg m0 (lab V q) (v # pre @ base) st temp ep t) r"
  shows "leads_to sv m0 V q' T K base (cfg m0 (lab V p) stk st temp ep t) r"
proof -
  obtain r1 where r1: "answers (setting_of sv m0) a st = Some r1" "and_then (Some r1) f = Some r"
    using den and_then_Some by blast
  have "leads_to sv m0 V q T (\<lambda>v. v # pre @ base) base (cfg m0 (lab V p) stk st temp ep t) r1"
    by (rule leads_base [OF sim_answer [where T = T and temp = temp, OF fr i rd len ex r1(1) T] transparent_values [OF pre]])
  then show ?thesis
  proof (rule leads_bind [OF _ r1(2) le])
    fix v st' temp ep t assume v: "r1 = Value v st'" "T temp" "ready V t q" "f v st' = Some r"
    show "leads_to sv m0 V q' T K base (cfg m0 (lab V q) (v # pre @ base) st' temp ep t) r"
      by (rule rest [OF answers_unmarked v(2,3,4)]) (use r1(1) v(1) in simp)
  qed
qed

lemma exec_put_prop:
  assumes "frame m0 V" "length stk < cv_max V"
  shows "put_prop (st_progr (setting_of sv m0)) ob name v (snd st) = Some (Inl e)
      \<Longrightarrow> answers_as sv m0 V (I_op OP_PUT_PROP) q (v # name # ob # stk) stk st (Some (Inl e))"
    "put_prop (st_progr (setting_of sv m0)) ob name v (snd st) = Some (Inr db)
      \<Longrightarrow> exec sv (cv_bc V) (I_op OP_PUT_PROP) (cfg m0 pc (v # name # ob # stk) st temp ep t) = Some (cfg m0 pc (v # stk) (fst st, db) temp ep t)"
  by (simp_all add: answers_simps op_put_prop_def pushed_def apply_result_def PUSH_act [OF assms])

lemma inner_depth: "wf_lvalue dl True e \<Longrightarrow> lval_depth e True = Suc (lval_depth e False)"
  by (cases e) auto

definition stores :: "('d, 'w) services \<Rightarrow> ('d, 'w) vm \<Rightarrow> code_view \<Rightarrow> expr \<Rightarrow> bool" where
  "stores sv m0 V e \<longleftrightarrow> (\<forall>dl inner p q q' keep t T temp ep v vs stk st r. wf_lvalue dl inner e \<longrightarrow> store_code V e p q
     \<longrightarrow> after_store V q q' keep \<longrightarrow> ready V t p \<longrightarrow> length vs = lval_depth e False \<longrightarrow> length (vs @ stk) < cv_max V
     \<longrightarrow> (\<forall>u \<in> set (v # vs). \<not> is_marker u) \<longrightarrow> T temp \<longrightarrow> store (setting_of sv m0) e v vs st = Some r
     \<longrightarrow> leads_to sv m0 V q' T (kept keep stk) stk (cfg m0 (lab V p) (v # vs @ stk) st temp ep t) r)"

lemma storesI:
  assumes "\<And>dl inner p q q' keep t T temp ep v vs stk st r. \<lbrakk>wf_lvalue dl inner e; store_code V e p q; after_store V q q' keep;
     ready V t p; length vs = lval_depth e False; length (vs @ stk) < cv_max V; \<forall>u \<in> set (v # vs). \<not> is_marker u; T temp;
     store (setting_of sv m0) e v vs st = Some r\<rbrakk>
     \<Longrightarrow> leads_to sv m0 V q' T (kept keep stk) stk (cfg m0 (lab V p) (v # vs @ stk) st temp ep t) r"
  shows "stores sv m0 V e"
  using assms unfolding stores_def by blast

lemma storesD:
  assumes "stores sv m0 V e" "wf_lvalue dl inner e" "store_code V e p q" "after_store V q q' keep"
     "ready V t p" "length vs = lval_depth e False" "length (vs @ stk) < cv_max V" "\<forall>u \<in> set (v # vs). \<not> is_marker u" "T temp"
     "store (setting_of sv m0) e v vs st = Some r"
  shows "leads_to sv m0 V q' T (kept keep stk) stk (cfg m0 (lab V p) (v # vs @ stk) st temp ep t) r"
  using assms unfolding stores_def by blast

lemma stores_part:
  assumes fr: "frame m0 V" and e: "stores sv m0 V e" and wf: "wf_lvalue dl True e"
    and i: "at V p i p1" and code: "store_code V e p1 q" and a: "after_store V q q' keep" and rd: "ready V t p"
    and len: "length vs = lval_depth e False" "length (vs @ stk) < cv_max V" and vs: "\<forall>u \<in> set vs. \<not> is_marker u" and T: "T temp"
    and ex: "answers_as sv m0 V i p1 all (vs @ stk) st x"
    and den: "and_then (answers (setting_of sv m0) x st) (\<lambda>v. store (setting_of sv m0) e v vs) = Some r"
  shows "leads_to sv m0 V q' T (kept keep stk) stk (cfg m0 (lab V p) all st temp ep t) r"
proof (rule answer_then [where T = T and temp = temp, OF fr i rd len(2) ex den T vs])
  show "p1 \<le> q'" using store_code_at [OF code] after_store_le [OF a] by simp
  fix v st temp ep t
  assume v: "\<not> is_marker v" "T temp" "ready V t p1" "store (setting_of sv m0) e v vs st = Some r"
  show "leads_to sv m0 V q' T (kept keep stk) stk (cfg m0 (lab V p1) (v # vs @ stk) st temp ep t) r"
    by (rule storesD [where T = T and temp = temp, OF e wf code a v(3) len _ v(2,4)]) (use v(1) vs in simp)
qed

lemma stores_all:
  assumes fr: "frame m0 V"
  shows "stores sv m0 V e"
proof (induction e rule: expr.induct [where ?P2.0 = "\<lambda>_. True" and ?P3.0 = "\<lambda>_. True"])
  case (EXPR_RANGE b f u)
  show ?case
  proof (rule storesI)
    fix dl inner p q q' keep t temp ep v vs st r and stk :: "var list" and T :: "var \<Rightarrow> bool"
    assume a: "wf_lvalue dl inner (EXPR_RANGE b f u)" "store_code V (EXPR_RANGE b f u) p q" "after_store V q q' keep"
     "ready V t p" "length vs = lval_depth (EXPR_RANGE b f u) False" "length (vs @ stk) < cv_max V" "\<forall>u \<in> set (v # vs). \<not> is_marker u"
     "T temp" "store (setting_of sv m0) (EXPR_RANGE b f u) v vs st = Some r"
    then obtain p1 where code: "at V p E_rangeset p1" "store_code V b p1 q" by auto
    have wf: "wf_lvalue dl True b" using a(1) by simp
    obtain x y z ws where vs: "vs = x # y # z # ws" "length ws = lval_depth b False"
      using a(5) inner_depth [OF wf] by (auto simp: length_Suc_conv numeral_2_eq_2)
    show "leads_to sv m0 V q' T (kept keep stk) stk (cfg m0 (lab V p) (v # vs @ stk) st temp ep t) r"
      by (rule stores_part [where T = T and temp = temp, OF fr EXPR_RANGE(1) wf code a(3,4) vs(2) _ _ a(8)])
        (use a(6,7,9) exec_elements(4) [of sv m0 V p1 v x y z "ws @ stk" st] in \<open>simp_all add: vs(1)\<close>)
  qed
next
  case (EXPR_INDEX l k)
  show ?case
  proof (rule storesI)
    fix dl inner p q q' keep t temp ep v vs st r and stk :: "var list" and T :: "var \<Rightarrow> bool"
    assume a: "wf_lvalue dl inner (EXPR_INDEX l k)" "store_code V (EXPR_INDEX l k) p q" "after_store V q q' keep"
     "ready V t p" "length vs = lval_depth (EXPR_INDEX l k) False" "length (vs @ stk) < cv_max V" "\<forall>u \<in> set (v # vs). \<not> is_marker u"
     "T temp" "store (setting_of sv m0) (EXPR_INDEX l k) v vs st = Some r"
    then obtain p1 where code: "at V p (I_op OP_INDEXSET) p1" "store_code V l p1 q" by auto
    have wf: "wf_lvalue dl True l" using a(1) by simp
    obtain x z ws where vs: "vs = x # z # ws" "length ws = lval_depth l False"
      using a(5) inner_depth [OF wf] by (auto simp: length_Suc_conv numeral_2_eq_2)
    show "leads_to sv m0 V q' T (kept keep stk) stk (cfg m0 (lab V p) (v # vs @ stk) st temp ep t) r"
      by (rule stores_part [where T = T and temp = temp, OF fr EXPR_INDEX(1) wf code a(3,4) vs(2) _ _ a(8)])
        (use a(6,7,9) exec_elements(3) [of sv m0 V p1 v x z "ws @ stk" st] in \<open>simp_all add: vs(1)\<close>)
  qed
next
  case (EXPR_ID i)
  show ?case
    by (rule storesI) (auto simp: put_runs [OF fr])
next
  case (EXPR_BIN k l r)
  show ?case
  proof (rule storesI)
    fix dl inner p q q' keep t temp ep v vs st res and stk :: "var list" and T :: "var \<Rightarrow> bool"
    let ?c = "setting_of sv m0"
    assume a: "wf_lvalue dl inner (EXPR_BIN k l r)" "store_code V (EXPR_BIN k l r) p q" "after_store V q q' keep"
     "ready V t p" "length vs = lval_depth (EXPR_BIN k l r) False" "length (vs @ stk) < cv_max V" "\<forall>u \<in> set (v # vs). \<not> is_marker u"
     "T temp" "store ?c (EXPR_BIN k l r) v vs st = Some res"
    then have i: "at V p (I_op OP_PUT_PROP) q" by simp
    obtain name ob where vs: "vs = [name, ob]" using a(5) by (auto simp: length_Suc_conv numeral_2_eq_2)
    have room: "length stk < cv_max V" using a(6) by (simp add: vs)
    obtain x where x: "put_prop (st_progr ?c) ob name v (snd st) = Some x" using a(9) by (cases "put_prop (st_progr ?c) ob name v (snd st)") (simp_all add: vs)
    show "leads_to sv m0 V q' T (kept keep stk) stk (cfg m0 (lab V p) (v # vs @ stk) st temp ep t) res"
    proof (cases x)
      case (Inl e)
      have d: "and_then (answers ?c (Some (Inl e)) st) (\<lambda>v st. Some (Value v st)) = Some res"
        using a(9) x Inl by (auto simp: vs and_then_def split: option.splits res.splits)
      show ?thesis unfolding vs append.simps
      proof (rule answer_then [where T = T and temp = temp, OF fr i a(4), of "[]", simplified, OF room exec_put_prop(1) [OF fr room] d a(8) after_store_le [OF a(3)]])
        show "put_prop (st_progr ?c) ob name v (snd st) = Some (Inl e)" using x Inl by simp
        fix v st' temp ep t assume "T temp" "ready V t q" "Some (Value v st') = Some res"
        then show "leads_to sv m0 V q' T (kept keep stk) stk (cfg m0 (lab V q) (v # stk) st' temp ep t) res"
          using pop_runs [where T = T and temp = temp and st = st' and v = v, OF fr a(3)] by simp
      qed
    next
      case (Inr db)
      then have res: "res = Value v (fst st, db)" using a(7,9) x by (simp add: vs returns_Some)
      have "put_prop (st_progr ?c) ob name v (snd st) = Some (Inr db)" using x Inr by simp
      then obtain t' where s: "steps sv (cfg m0 (lab V p) (v # name # ob # stk) st temp ep t) (cfg m0 (lab V q) (v # stk) (fst st, db) temp (lab V p) t')"
        "ready V t' q" by (rule sim_quiet [OF fr i a(4) exec_put_prop(2) [OF fr room] order_refl])
      show ?thesis unfolding vs append.simps res by (rule leads_steps [OF s(1) pop_runs [where T = T and temp = temp, OF fr a(3) s(2) a(8)]])
    qed
  qed
qed ((rule storesI, simp) | rule TrueI)+

end
