(* ===== verification/SimAssign.thy ===== *)
theory SimAssign
  imports SimStore
begin

text \<open>
  Assignments: plain and indexed ones, with the value kept in the temporary, and scattering ones, where the machine
  binds all targets in one instruction and then jumps to the first default that is missing.
\<close>

section \<open>Assignments\<close>

lemma exec_temp:
  assumes "frame m0 V" "length stk < cv_max V"
  shows "exec sv bc (I_op OP_PUT_TEMP) (cfg m0 pc (v # stk) st temp ep t) = Some (cfg m0 pc (v # stk) st v ep t)"
    "exec sv bc (I_op OP_PUSH_TEMP) (cfg m0 pc stk st v ep t) = Some (cfg m0 pc (v # stk) st VNone ep t)"
  by (simp_all add: exec_def exec_here_def op_put_temp_def op_push_temp_def TOP_RT_VALUE_def apply_result_def PUSH_act [OF assms])

lemma means_assign:
  assumes fr: "frame m0 V" and plain: "\<And>scs. lhs \<noteq> EXPR_SCATTER scs" and wf: "wf_lvalue dl False lhs"
    and l: "means_lval sv m0 V False lhs" and r: "means sv m0 V rhs"
  shows "means sv m0 V (EXPR_ASGN lhs rhs)"
proof (rule meansI)
  fix sd p q dol st temp ep t res and stk :: "var list"
  let ?c = "setting_of sv m0"
  let ?fin = "\<lambda>v w st. Some (Value (if is_indexed_lvalue lhs then v else w) st)"
  assume code: "expr_code V (EXPR_ASGN lhs rhs) (length stk) sd p q" and nx: "next_ok V q" and dl: "dollar_ok sd dol stk"
    and rd: "ready V t p" and den: "denote ?c (EXPR_ASGN lhs rhs) dol st = Some res"
  obtain p1 p2 where 1: "lval_code V lhs False (length stk) sd p p1" "expr_code V rhs (length stk + lval_depth lhs False) sd p1 p2"
    "if is_indexed_lvalue lhs then \<exists>p3 p4 p5. at V p2 (I_op OP_PUT_TEMP) p3 \<and> store_code V lhs p3 p4
       \<and> at V p4 (I_op OP_POP) p5 \<and> at V p5 (I_op OP_PUSH_TEMP) q else store_code V lhs p2 q"
    using code unfolding expr_code_assign [OF plain] by blast
  have p2: "p2 < q" using 1(3) by (auto split: if_splits dest!: at_less store_code_at)
  have nx2: "next_ok V p2"
    using 1(3) at_next_ok [of V p2 "I_op OP_PUT_TEMP"] store_code_at [of V lhs p2 q] by (auto split: if_splits)
  have p1: "next_ok V p1" "p1 \<le> q" using forward_less(1,3) [OF expr_forward [OF 1(2)]] p2 by simp_all
  have room: "length stk < cv_max V" by (rule expr_depth [OF code])
  show "leads_to sv m0 V q (\<lambda>_. True) (\<lambda>v. v # stk) stk (cfg m0 (lab V p) stk st temp ep t) res"
  proof (rule lval_then [OF l 1(1) p1(1) dl rd _ p1(2)])
    show "and_then (denote_lval ?c lhs False dol st) (\<lambda>vs st. and_then (denote ?c rhs dol st)
      (\<lambda>v st. and_then (store ?c lhs v vs st) (?fin v))) = Some res" using den unfolding denote_assign [OF plain] .
    fix vs st temp ep t
    assume vs: "\<forall>v \<in> set vs. \<not> is_marker v" "length vs = lval_depth lhs False" "ready V t p1"
      and d: "and_then (denote ?c rhs dol st) (\<lambda>v st. and_then (store ?c lhs v vs st) (?fin v)) = Some res"
    have code2: "expr_code V rhs (length (vs @ stk)) sd p1 p2" using 1(2) vs(2) by (simp add: add.commute)
    show "leads_to sv m0 V q (\<lambda>_. True) (\<lambda>v. v # stk) stk (cfg m0 (lab V p1) (vs @ stk) st temp ep t) res"
    proof (rule means_then [OF r code2 refl nx2 dollar_pushes [OF dl] vs(3) d vs(1) less_imp_le [OF p2]])
      fix v st temp ep t
      assume v: "\<not> is_marker v" "ready V t p2" and d: "and_then (store ?c lhs v vs st) (?fin v) = Some res"
      obtain r1 where r1: "store ?c lhs v vs st = Some r1" "and_then (Some r1) (?fin v) = Some res"
        using d and_then_Some by blast
      have um: "\<forall>u \<in> set (v # vs). \<not> is_marker u" using v(1) vs(1) by simp
      show "leads_to sv m0 V q (\<lambda>_. True) (\<lambda>v. v # stk) stk (cfg m0 (lab V p2) (v # vs @ stk) st temp ep t) res"
      proof (cases "is_indexed_lvalue lhs")
        case True
        then obtain p3 p4 p5 where 2: "at V p2 (I_op OP_PUT_TEMP) p3" "store_code V lhs p3 p4" "at V p4 (I_op OP_POP) p5"
          "at V p5 (I_op OP_PUSH_TEMP) q" using 1(3) by auto
        obtain t' where s: "steps sv (cfg m0 (lab V p2) (v # vs @ stk) st temp ep t) (cfg m0 (lab V p3) (v # vs @ stk) st v (lab V p2) t')" "ready V t' p3"
          by (rule sim_quiet [OF fr 2(1) v(2) exec_temp(1) [OF fr expr_depth [OF code2]] order_refl])
        have "after_store V p4 p5 False" using 2(3) by (simp add: after_store_def)
        then have "leads_to sv m0 V p5 (\<lambda>x. x = v) (kept False stk) stk (cfg m0 (lab V p3) (v # vs @ stk) st v (lab V p2) t') r1"
          using storesD [where T = "\<lambda>x. x = v", OF stores_all [OF fr] wf 2(2) _ s(2) vs(2) expr_depth [OF code2] um refl r1(1)] by blast
        then show ?thesis
        proof (rule leads_steps [OF s(1) leads_bind [OF _ r1(2) less_imp_le [OF at_less [OF 2(4)]]]])
          fix w st temp ep t assume w: "temp = v" "ready V t p5" "?fin v w st = Some res"
          have res: "res = Value v st" using w(3) True by simp
          obtain t' where s: "steps sv (cfg m0 (lab V p5) stk st v ep t) (cfg m0 (lab V q) (v # stk) st VNone (lab V p5) t')" "ready V t' q"
            by (rule sim_quiet [OF fr 2(4) w(2) exec_temp(2) [OF fr room] order_refl])
          show "leads_to sv m0 V q (\<lambda>_. True) (\<lambda>v. v # stk) stk (cfg m0 (lab V p5) (kept False stk w) st temp ep t) res"
            unfolding res w(1) kept_def leads_Value using s by auto
        qed
      next
        case False
        have "after_store V q q True" using nx by (simp add: after_store_def)
        moreover have "store_code V lhs p2 q" using 1(3) False by simp
        ultimately have "leads_to sv m0 V q (\<lambda>_. True) (kept True stk) stk (cfg m0 (lab V p2) (v # vs @ stk) st temp ep t) r1"
          using storesD [where T = "\<lambda>_. True" and temp = temp, OF stores_all [OF fr] wf _ _ v(2) vs(2) expr_depth [OF code2] um _ r1(1)] by blast
        then show ?thesis by (rule leads_map [OF _ r1(2)]) (simp add: kept_def False)
      qed
    qed
  qed
qed

section \<open>Scattering\<close>

definition is_rest :: "scatter \<Rightarrow> bool" where
  "is_rest sc \<longleftrightarrow> (case sc of Scatter k _ _ \<Rightarrow> k = SCAT_REST)"

definition is_optional :: "scatter \<Rightarrow> bool" where
  "is_optional sc \<longleftrightarrow> (case sc of Scatter k _ _ \<Rightarrow> k = SCAT_OPTIONAL)"

lemma rest_kinds [simp]: "is_rest (Scatter k i d) \<longleftrightarrow> k = SCAT_REST" "is_optional (Scatter k i d) \<longleftrightarrow> k = SCAT_OPTIONAL"
  by (simp_all add: is_rest_def is_optional_def)

definition rest_at :: "nat \<Rightarrow> nat \<Rightarrow> scatter list \<Rightarrow> bool" where
  "rest_at rest i scs \<longleftrightarrow> (\<forall>m < length scs. i + m = rest \<longleftrightarrow> is_rest (scs ! m))"

lemma rest_at_Cons: "rest_at rest i (sc # scs) \<longleftrightarrow> (i = rest \<longleftrightarrow> is_rest sc) \<and> rest_at rest (Suc i) scs"
proof -
  have "(\<forall>m < Suc n. P m) \<longleftrightarrow> P 0 \<and> (\<forall>m < n. P (Suc m))" for P :: "nat \<Rightarrow> bool" and n
    by (metis Suc_less_eq not0_implies_Suc zero_less_Suc)
  from this [of "length scs" "\<lambda>m. i + m = rest \<longleftrightarrow> is_rest ((sc # scs) ! m)"] show ?thesis
    by (simp add: rest_at_def)
qed

lemma scatter_rest_none: "filter is_rest scs = [] \<Longrightarrow> scatter_rest scs n r = (case r of None \<Rightarrow> Suc (n + length scs) | Some x \<Rightarrow> x)"
  by (induction scs n r rule: scatter_rest.induct) (auto split: if_splits option.split)

lemma scatter_rest_beyond: "m \<le> n \<Longrightarrow> \<forall>x. r = Some x \<longrightarrow> m < x \<Longrightarrow> m < scatter_rest scs n r"
  by (induction scs n r rule: scatter_rest.induct) (auto split: option.split)

lemma scatter_rest_next: "n < scatter_rest scs n None"
  by (rule scatter_rest_beyond) simp_all

lemma scatter_rest_at: "length (filter is_rest scs) \<le> 1 \<Longrightarrow> rest_at (scatter_rest scs n None) (Suc n) scs"
proof (induction scs arbitrary: n)
  case (Cons sc scs)
  obtain k i d where sc: "sc = Scatter k i d" by (cases sc)
  show ?case
  proof (cases "k = SCAT_REST")
    case True
    then have none: "filter is_rest scs = []" using Cons.prems by (simp add: sc)
    then have "\<forall>s \<in> set scs. \<not> is_rest s" by (simp add: filter_empty_conv)
    then have "rest_at (Suc n) (Suc (Suc n)) scs" by (simp add: rest_at_def)
    then show ?thesis using True none by (simp add: sc rest_at_Cons scatter_rest_none)
  next
    case False
    then show ?thesis using Cons scatter_rest_next [of "Suc n" scs] by (simp add: sc rest_at_Cons)
  qed
qed (simp add: rest_at_def)

lemma scatter_rest_le:
  assumes "length (filter is_rest scs) \<le> 1"
  shows "scatter_rest scs 0 None \<le> length scs \<longleftrightarrow> (\<exists>sc \<in> set scs. is_rest sc)"
proof (cases "filter is_rest scs = []")
  case True
  then show ?thesis by (auto simp: scatter_rest_none filter_empty_conv)
next
  case False
  then obtain m where "m < length scs" "is_rest (scs ! m)" by (auto simp: filter_empty_conv in_set_conv_nth)
  then show ?thesis using scatter_rest_at [OF assms, of 0] by (auto simp: rest_at_def Suc_le_eq)
qed

text \<open>The first default to run.\<close>

fun missing :: "scatter list \<Rightarrow> (nat \<times> nat) list \<Rightarrow> nat \<Rightarrow> nat" where
  "missing [] ts spare = 0"
| "missing (Scatter k i dflt # scs) ts spare = (case ts of
     [] \<Rightarrow> 0
   | (j, l) # ts \<Rightarrow>
       if k \<noteq> SCAT_OPTIONAL then missing scs ts spare
       else if 0 < spare then missing scs ts (spare - 1)
       else if dflt = None then missing scs ts spare else l)"

lemma defaults_code_Cons:
  "defaults_code V (Scatter k i dflt # scs) ts d sd p q \<longleftrightarrow> (\<exists>l ts' p'. ts = (i, l) # ts' \<and> mark_code V k dflt l
     \<and> (if k = SCAT_OPTIONAL \<and> dflt \<noteq> None
        then l = lab V p \<and> (\<exists>p1 p2. expr_code V (the dflt) d sd p p1 \<and> put_code V i p1 p2 \<and> at V p2 (I_op OP_POP) p')
        else p' = p) \<and> defaults_code V scs ts' d sd p' q)"
  by (auto split: list.splits option.splits if_splits)

lemma drop_is_Cons: "drop j vs = v # ws \<Longrightarrow> j < length vs \<and> vs ! j = v \<and> ws = drop (Suc j) vs"
  by (metis Cons_nth_drop_Suc drop_eq_Nil2 list.distinct(1) list.inject not_le)

lemma scatter_loop_bind:
  assumes "rest_at rest i scs" "defaults_code V scs ts d sd p q" "scatter_bind scs (drop j vs) spare left env = Some env'"
    and "int i + off = int j + 1" "0 < left \<and> (\<exists>sc \<in> set scs. is_rest sc) \<Longrightarrow>
      off = 0 \<and> length (filter is_optional scs) \<le> spare \<and> i + length scs + left \<le> Suc (Suc (length vs))"
  shows "scatter_loop rest (int left) vs ts i off (int spare) dest (act m0 pc stk env temp ep)
    = Some (if dest = 0 then missing scs ts spare else dest, act m0 pc stk env' temp ep)"
  using assms
proof (induction scs arbitrary: i ts p j spare env off dest)
  case Nil
  then show ?case by (cases ts) auto
next
  case (Cons sc scs)
  obtain k x dflt where sc: "sc = Scatter k x dflt" by (cases sc)
  obtain l ts' p' where ts: "ts = (x, l) # ts'" and mark: "mark_code V k dflt l" and code: "defaults_code V scs ts' d sd p' q"
    using Cons.prems(2) unfolding sc defaults_code_Cons by blast
  have at: "i = rest \<longleftrightarrow> k = SCAT_REST" "rest_at rest (Suc i) scs" using Cons.prems(1) by (simp_all add: sc rest_at_Cons)
  note bind = Cons.prems(3) [unfolded sc]
  note IH = Cons.IH [OF at(2) code]
  show ?case
  proof (cases k)
    case SCAT_REQUIRED
    then have x: "x < length env" using bind by (auto split: if_splits)
    then obtain v ws where d: "drop j vs = v # ws" "scatter_bind scs ws spare left (env[x := v]) = Some env'"
      using bind SCAT_REQUIRED by (auto split: list.splits)
    have j: "j < length vs" "vs ! j = v" "ws = drop (Suc j) vs" using drop_is_Cons [OF d(1)] by blast+
    have l: "l = 0" using mark SCAT_REQUIRED by (simp add: mark_code_def)
    show ?thesis
      using IH [of "Suc j" spare "env[x := v]" off dest] d(2) j Cons.prems(4,5) at(1) l x SCAT_REQUIRED
      by (simp add: sc ts write_env_def)
  next
    case SCAT_REST
    then have x: "x < length env" "scatter_bind scs (drop (left + j) vs) spare left (env[x := VList (take left (drop j vs))]) = Some env'"
      using bind by (auto split: if_splits)
    have room: "left = 0 \<or> off = 0 \<and> i = Suc j \<and> j + left \<le> length vs"
      using Cons.prems(4,5) SCAT_REST by (auto simp: sc)
    have "sublist_c vs (int i) (int i + int left - 1) = Some (take left (drop j vs))"
    proof (cases "left = 0")
      case False
      then show ?thesis using room by (subst sublist_c_ok) auto
    qed (subst sublist_c_ok; simp)
    moreover have "\<not> (\<exists>sc \<in> set scs. is_rest sc)"
      using at SCAT_REST by (auto simp: rest_at_def in_set_conv_nth)
    ultimately show ?thesis
      using IH [of "left + j" spare "env[x := VList (take left (drop j vs))]" "off + (int left - 1)" dest] x Cons.prems(4,5) at(1) SCAT_REST
      by (simp add: sc ts write_env_def)
  next
    case SCAT_OPTIONAL
    have l: "l \<noteq> 0" "l = 1 \<longleftrightarrow> dflt = None" using mark SCAT_OPTIONAL by (auto simp: mark_code_def split: option.splits)
    show ?thesis
    proof (cases "spare = 0")
      case True
      then have b: "scatter_bind scs (drop j vs) 0 left env = Some env'" using bind SCAT_OPTIONAL by (auto split: if_splits)
      have idle: "\<not> (0 < left \<and> (\<exists>sc \<in> set scs. is_rest sc))" using Cons.prems(5) True SCAT_OPTIONAL by (auto simp: sc)
      show ?thesis
        using IH [of j 0 env "off - 1" "if dest = 0 \<and> l \<noteq> 1 then l else dest"] b idle True Cons.prems(4) at(1) l SCAT_OPTIONAL
        by (auto simp: sc ts)
    next
      case False
      then have x: "x < length env" using bind SCAT_OPTIONAL by (auto split: if_splits)
      then obtain v ws where d: "drop j vs = v # ws" "scatter_bind scs ws (spare - 1) left (env[x := v]) = Some env'"
        using bind SCAT_OPTIONAL False by (auto split: list.splits)
      have j: "j < length vs" "vs ! j = v" "ws = drop (Suc j) vs" using drop_is_Cons [OF d(1)] by blast+
      have inv: "off = 0 \<and> length (filter is_optional scs) \<le> spare - 1 \<and> Suc i + length scs + left \<le> Suc (Suc (length vs))"
        if "0 < left \<and> (\<exists>sc \<in> set scs. is_rest sc)"
        using Cons.prems(5) that SCAT_OPTIONAL by (simp add: sc) arith
      have "scatter_bind scs (drop (Suc j) vs) (spare - 1) left (env[x := v]) = Some env'" "int (Suc i) + off = int (Suc j) + 1"
        using d(2) j(3) Cons.prems(4) by simp_all
      from IH [OF this inv] show ?thesis
        using Cons.prems(4) j at(1) l x SCAT_OPTIONAL False by (simp add: sc ts write_env_def of_nat_diff)
    qed
  qed
qed


text \<open>The default that the machine jumps to is the first that is evaluated.\<close>

lemma missing_default:
  assumes "defaults_code V scs ts d sd p q" "denote_defaults c scs spare dol v st = Some r"
  shows "missing scs ts spare = 0 \<and> r = Value v st \<and> p \<le> q
     \<or> (\<exists>p' scs' ts'. missing scs ts spare = lab V p' \<and> lab V p' \<noteq> 0 \<and> p \<le> p' \<and> defaults_code V scs' ts' d sd p' q
         \<and> denote_defaults c scs' 0 dol v st = Some r \<and> set scs' \<subseteq> set scs)"
  using assms
proof (induction scs arbitrary: ts p spare)
  case (Cons sc scs)
  obtain k x dflt where sc: "sc = Scatter k x dflt" by (cases sc)
  obtain l ts' p' where ts: "ts = (x, l) # ts'" and mark: "mark_code V k dflt l"
    and p': "if k = SCAT_OPTIONAL \<and> dflt \<noteq> None
        then l = lab V p \<and> (\<exists>p1 p2. expr_code V (the dflt) d sd p p1 \<and> put_code V x p1 p2 \<and> at V p2 (I_op OP_POP) p')
        else p' = p" and code: "defaults_code V scs ts' d sd p' q"
    using Cons.prems(1) unfolding sc defaults_code_Cons by blast
  have le: "p \<le> p'"
    using p' forward_less(1) [OF expr_forward] put_code_at at_less by (auto split: if_splits) (meson less_imp_le less_trans)
  show ?case
  proof (cases "k = SCAT_OPTIONAL \<and> spare = 0 \<and> dflt \<noteq> None")
    case True
    then have "lab V p \<noteq> 0" "missing (sc # scs) ts spare = lab V p" using mark p' by (auto simp: mark_code_def sc ts)
    then show ?thesis using Cons.prems True by blast
  next
    case False
    define n where "n = (if k = SCAT_OPTIONAL then spare - 1 else spare)"
    have "denote_defaults c scs n dol v st = Some r" "missing (sc # scs) ts spare = missing scs ts' n"
      using Cons.prems(2) False by (auto simp: sc ts n_def split: if_splits)
    then show ?thesis using Cons.IH [OF code, of n] le by (auto intro: order_trans)
  qed
qed auto

lemma defaults_run:
  assumes fr: "frame m0 V" and scs: "\<forall>sc \<in> set scs. case sc of Scatter k i dflt \<Rightarrow> \<forall>e. dflt = Some e \<longrightarrow> means sv m0 V e"
    and code: "defaults_code V scs ts (length (v # stk)) sd p q" and dl: "dollar_ok sd dol (v # stk)" and v: "\<not> is_marker v"
    and rd: "ready V t p" and den: "denote_defaults (setting_of sv m0) scs 0 dol v st = Some r"
  shows "leads_to sv m0 V q (\<lambda>_. True) (\<lambda>v. v # stk) stk (cfg m0 (lab V p) (v # stk) st temp ep t) r"
  using scs code rd den
proof (induction scs arbitrary: ts p t st temp ep)
  case Nil
  then show ?case using leads_here [of V t q "\<lambda>_. True" temp sv m0 "\<lambda>v. v # stk" stk v st ep] by simp
next
  case (Cons sc scs)
  obtain k x dflt where sc: "sc = Scatter k x dflt" by (cases sc)
  obtain l ts' p' where
    p': "if k = SCAT_OPTIONAL \<and> dflt \<noteq> None
        then l = lab V p \<and> (\<exists>p1 p2. expr_code V (the dflt) (length (v # stk)) sd p p1 \<and> put_code V x p1 p2 \<and> at V p2 (I_op OP_POP) p')
        else p' = p" and code: "defaults_code V scs ts' (length (v # stk)) sd p' q"
    using Cons.prems(2) unfolding sc defaults_code_Cons by blast
  have scs: "\<forall>sc \<in> set scs. case sc of Scatter k i dflt \<Rightarrow> \<forall>e. dflt = Some e \<longrightarrow> means sv m0 V e" using Cons.prems(1) by simp
  show ?case
  proof (cases "k = SCAT_OPTIONAL \<and> dflt \<noteq> None")
    case True
    then obtain e where e: "dflt = Some e" by blast
    obtain p1 p2 where 1: "expr_code V e (length ([v] @ stk)) sd p p1" "put_code V x p1 p2" "at V p2 (I_op OP_POP) p'" using p' True e by auto
    have m: "means sv m0 V e" using Cons.prems(1) by (simp add: sc e)
    have le: "p1 \<le> q" using put_code_at [OF 1(2)] at_less [OF 1(3)] defaults_forward [OF code] by simp
    have d: "and_then (denote (setting_of sv m0) e dol st) (\<lambda>w st.
         Option.bind (assign x w st) (denote_defaults (setting_of sv m0) scs 0 dol v)) = Some r"
      using Cons.prems(4) True by (simp add: sc e)
    have "leads_to sv m0 V q (\<lambda>_. True) (\<lambda>v. v # stk) stk (cfg m0 (lab V p) ([v] @ stk) st temp ep t) r"
    proof (rule means_then [OF m 1(1) refl _ _ Cons.prems(3) d _ le])
      fix w st temp ep t
      assume w: "ready V t p1" "Option.bind (assign x w st) (denote_defaults (setting_of sv m0) scs 0 dol v) = Some r"
      obtain st' where st': "assign x w st = Some st'" "denote_defaults (setting_of sv m0) scs 0 dol v st' = Some r"
        using w(2) by (auto simp: bind_eq_Some_conv)
      have a: "after_store V p2 p' False" using 1(3) by (simp add: after_store_def)
      have "leads_to sv m0 V p' (\<lambda>_. True) (kept False (v # stk)) stk (cfg m0 (lab V p1) (w # v # stk) st temp ep t) (Value w st')"
        by (rule put_runs [OF fr 1(2) a w(1) _ st'(1)]) simp
      then obtain temp' ep' t' where s: "steps sv (cfg m0 (lab V p1) (w # v # stk) st temp ep t) (cfg m0 (lab V p') (v # stk) st' temp' ep' t')"
        "ready V t' p'" by (auto simp: leads_Value kept_def)
      show "leads_to sv m0 V q (\<lambda>_. True) (\<lambda>v. v # stk) stk (cfg m0 (lab V p1) (w # [v] @ stk) st temp ep t) r"
        using leads_steps [OF s(1) Cons.IH [OF scs code s(2) st'(2)]] by simp
    qed (use put_code_at [OF 1(2)] dl v in auto)
    then show ?thesis by simp
  next
    case False
    then have "denote_defaults (setting_of sv m0) scs 0 dol v st = Some r" using Cons.prems(4) by (auto simp: sc split: if_splits)
    then show ?thesis using Cons.IH [OF scs code, of t st temp ep] p' False Cons.prems(3) by auto
  qed
qed


lemma exec_scatter:
  fixes stk :: "var list"
  assumes fr: "frame m0 V" and ok: "scatter_check scs v = Inr vs" and one: "no_rest_twice scs" and code: "defaults_code V scs ts d sd p q"
    and bind: "scatter_bind scs vs (length vs - scatter_nreq scs) (if has_rest scs then Suc (length vs) - length scs else 0) (fst st) = Some env"
  shows "exec sv bc (E_scatter (scatter_nargs scs) (scatter_nreq scs) (scatter_rest scs 0 None) ts l) (cfg m0 pc (v # stk) st temp ep t)
    = Some (cfg m0 (let k = missing scs ts (length vs - scatter_nreq scs) in if k = 0 then l else k) (v # stk) (env, snd st) temp ep t)"
proof -
  let ?rest = "scatter_rest scs 0 None" and ?left = "if has_rest scs then Suc (length vs) - length scs else 0"
  have one': "length (filter is_rest scs) \<le> 1" using one by (simp add: no_rest_twice_def is_rest_def [abs_def])
  have rest: "?rest \<le> length scs \<longleftrightarrow> has_rest scs" using scatter_rest_le [OF one'] by (simp add: has_rest_def is_rest_def)
  have v: "v = VList vs" and n: "\<not> length vs < scatter_nreq scs" "\<not> (\<not> has_rest scs \<and> length vs > length scs)"
    using ok by (auto simp: scatter_check_def split: var.splits if_splits)
  have kinds: "length (filter is_optional scs) + scatter_nreq scs + length (filter is_rest scs) = length scs"
    unfolding scatter_nreq_def
  proof (induction scs)
    case (Cons sc scs)
    then show ?case by (cases sc; cases "case sc of Scatter k _ _ \<Rightarrow> k") auto
  qed simp
  have inv: "(0::int) = 0 \<and> length (filter is_optional scs) \<le> length vs - scatter_nreq scs
      \<and> 1 + length scs + ?left \<le> Suc (Suc (length vs))" if "0 < ?left \<and> (\<exists>sc \<in> set scs. is_rest sc)"
    using that kinds n by (auto split: if_splits)
  have "scatter_loop ?rest (int ?left) vs ts 1 0 (int (length vs - scatter_nreq scs)) 0 (act m0 pc (v # stk) (fst st) temp ep)
    = Some (if (0::nat) = 0 then missing scs ts (length vs - scatter_nreq scs) else 0, act m0 pc (v # stk) env temp ep)"
    by (rule scatter_loop_bind [OF scatter_rest_at [OF one', of 0, folded One_nat_def] code, of 0]) (use bind inv in auto)
  moreover have "int ?left = (if has_rest scs \<and> length scs \<le> length vs then int (length vs) - int (length scs) + 1 else 0)"
    by auto
  ultimately show ?thesis
    using n rest by (cases "has_rest scs") (simp_all add: v exec_def exec_here_def op_scatter_def TOP_RT_VALUE_def apply_result_def scatter_nargs_def Let_def
        JUMP_def of_nat_diff)
qed


lemma scatter_fails:
  assumes fr: "frame m0 V" and bad: "scatter_check scs v = Inl e" and room: "length stk < cv_max V" and one: "no_rest_twice scs"
  shows "exec sv bc (E_scatter (scatter_nargs scs) (scatter_nreq scs) (scatter_rest scs 0 None) ts l) (cfg m0 pc (v # stk) st temp ep t)
    = (if st_debug (setting_of sv m0) then raise_code_error sv e (cfg m0 pc stk st temp ep t)
       else Some (cfg m0 l (VErr e # stk) st temp ep t))"
proof -
  have one': "length (filter is_rest scs) \<le> 1" using one by (simp add: no_rest_twice_def is_rest_def [abs_def])
  have rest: "scatter_rest scs 0 None \<le> length scs \<longleftrightarrow> has_rest scs" using scatter_rest_le [OF one'] by (simp add: has_rest_def is_rest_def)
  show ?thesis
    using bad rest PUSH_act [OF fr room]
    by (auto simp: scatter_check_def exec_def exec_here_def op_scatter_def TOP_RT_VALUE_def apply_result_def scatter_nargs_def Let_def
        JUMP_def setting_of_def split: var.splits if_splits)
qed

lemma raises_here:
  assumes "vm_step sv m = raise_code_error sv e (cfg m0 pc stk st temp ep t)" "ready V t q"
  shows "raises_over sv m0 V q stk m e st"
  unfolding raises_over_def
  by (rule exI [of _ m], rule exI [of _ "[]"]) (use assms transparent_Nil in auto)

lemma means_scatter:
  assumes fr: "frame m0 V" and rhs: "means sv m0 V rhs" and one: "no_rest_twice scs"
    and scs: "\<forall>sc \<in> set scs. case sc of Scatter k i dflt \<Rightarrow> \<forall>e. dflt = Some e \<longrightarrow> means sv m0 V e"
  shows "means sv m0 V (EXPR_ASGN (EXPR_SCATTER scs) rhs)"
proof (rule meansI)
  fix sd p q dol st temp ep t res and stk :: "var list"
  let ?c = "setting_of sv m0"
  let ?body = "\<lambda>v st. case scatter_check scs v of
           Inl e \<Rightarrow> answers ?c (Some (Inl e)) st
         | Inr vs \<Rightarrow>
             (let spare = length vs - scatter_nreq scs;
                  left = (if has_rest scs then Suc (length vs) - length scs else 0) in
              case scatter_bind scs vs spare left (fst st) of
                None \<Rightarrow> None
              | Some env \<Rightarrow> denote_defaults ?c scs spare dol v (env, snd st))"
  assume code: "expr_code V (EXPR_ASGN (EXPR_SCATTER scs) rhs) (length stk) sd p q" and nx: "next_ok V q" and dl: "dollar_ok sd dol stk"
    and rd: "ready V t p" and den: "denote ?c (EXPR_ASGN (EXPR_SCATTER scs) rhs) dol st = Some res"
  obtain p1 p2 ts where 1: "expr_code V rhs (length ([] @ stk)) sd p p1"
    "at V p1 (E_scatter (scatter_nargs scs) (scatter_nreq scs) (scatter_rest scs 0 None) ts (lab V q)) p2"
    "defaults_code V scs ts (Suc (length stk)) sd p2 q" using code by auto
  have room: "length stk < cv_max V" by (rule expr_depth [OF code])
  have le: "p2 \<le> q" by (rule defaults_forward [OF 1(3)])
  have p1q: "p1 \<le> q" using at_less [OF 1(2)] le by simp
  have nx1: "next_ok V p1" by (rule at_next_ok [OF 1(2)]) simp
  have d: "and_then (denote ?c rhs dol st) ?body = Some res" using den by simp
  have dl0: "dollar_ok sd dol ([] @ stk)" using dl by simp
  have "leads_to sv m0 V q (\<lambda>_. True) (\<lambda>v. v # stk) stk (cfg m0 (lab V p) ([] @ stk) st temp ep t) res"
  proof (rule means_then [OF rhs 1(1) refl nx1 dl0 rd d _ p1q])
    fix v st temp ep t
    assume v: "\<not> is_marker v" "ready V t p1" "?body v st = Some res"
    obtain t' where s: "vm_step sv (cfg m0 (lab V p1) (v # stk) st temp ep t)
      = exec sv (cv_bc V) (E_scatter (scatter_nargs scs) (scatter_nreq scs) (scatter_rest scs 0 None) ts (lab V q))
          (cfg m0 (lab V p2) (v # stk) st temp (lab V p1) t')" "ready V t' p2"
      by (rule vm_step_at [OF fr 1(2) v(2)])
    have rq: "ready V t' q" by (rule ready_mono [OF s(2) le])
    have "leads_to sv m0 V q (\<lambda>_. True) (\<lambda>v. v # stk) stk (cfg m0 (lab V p1) (v # stk) st temp ep t) res"
    proof (cases "scatter_check scs v")
      case (Inl e)
      then have r: "answers ?c (Some (Inl e)) st = Some res" using v(3) by simp
      note x = s(1) [unfolded scatter_fails [OF fr Inl room one]]
      show ?thesis
      proof (cases "st_debug ?c")
        case True
        then have "res = Error e st" using r by (simp add: answers_def)
        moreover have "vm_step sv (cfg m0 (lab V p1) (v # stk) st temp ep t) = raise_code_error sv e (cfg m0 (lab V p2) stk st temp (lab V p1) t')"
          using x True by simp
        ultimately show ?thesis using raises_here [OF _ rq] by (simp add: leads_Error)
      next
        case False
        then have "res = Value (VErr e) st" using r by (simp add: answers_def)
        moreover have "vm_step sv (cfg m0 (lab V p1) (v # stk) st temp ep t) = Some (cfg m0 (lab V q) (VErr e # stk) st temp (lab V p1) t')"
          using x False by simp
        ultimately show ?thesis
          using leads_steps [OF steps_step [OF _ steps_refl] leads_here [OF rq, of "\<lambda>_. True" temp sv m0 "\<lambda>v. v # stk" stk]] by simp
      qed
    next
      case (Inr vs)
      let ?spare = "length vs - scatter_nreq scs"
      obtain env where env: "scatter_bind scs vs ?spare (if has_rest scs then Suc (length vs) - length scs else 0) (fst st) = Some env"
        "denote_defaults ?c scs ?spare dol v (env, snd st) = Some res"
        using v(3) Inr by (auto simp: Let_def split: option.splits)
      have go: "vm_step sv (cfg m0 (lab V p1) (v # stk) st temp ep t)
          = Some (cfg m0 (let k = missing scs ts ?spare in if k = 0 then lab V q else k) (v # stk) (env, snd st) temp (lab V p1) t')"
        unfolding s(1) by (rule exec_scatter [OF fr Inr one 1(3) env(1)])
      show ?thesis
      proof (rule leads_steps [OF steps_step [OF go steps_refl]])
        from missing_default [OF 1(3) env(2)]
        show "leads_to sv m0 V q (\<lambda>_. True) (\<lambda>v. v # stk) stk
          (cfg m0 (let k = missing scs ts ?spare in if k = 0 then lab V q else k) (v # stk) (env, snd st) temp (lab V p1) t') res"
        proof (elim disjE exE conjE)
          assume "missing scs ts ?spare = 0" "res = Value v (env, snd st)"
          then show ?thesis
            using leads_here [of V t' q "\<lambda>_. True" temp sv m0 "\<lambda>v. v # stk" stk v "(env, snd st)" "lab V p1"] rq by simp
        next
          fix p' scs' ts'
          assume a: "missing scs ts ?spare = lab V p'" "lab V p' \<noteq> 0" "p2 \<le> p'" "defaults_code V scs' ts' (Suc (length stk)) sd p' q"
            "denote_defaults ?c scs' 0 dol v (env, snd st) = Some res" "set scs' \<subseteq> set scs"
          have "leads_to sv m0 V q (\<lambda>_. True) (\<lambda>v. v # stk) stk (cfg m0 (lab V p') (v # stk) (env, snd st) temp (lab V p1) t') res"
            by (rule defaults_run [OF fr _ _ dollar_push [OF dl] v(1) ready_mono [OF s(2) a(3)] a(5)]) (use scs a(4,6) in auto)
          then show ?thesis using a(1,2) by simp
        qed
      qed
    qed
    then show "leads_to sv m0 V q (\<lambda>_. True) (\<lambda>v. v # stk) stk (cfg m0 (lab V p1) (v # [] @ stk) st temp ep t) res" by simp
  qed simp
  then show "leads_to sv m0 V q (\<lambda>_. True) (\<lambda>v. v # stk) stk (cfg m0 (lab V p) stk st temp ep t) res" by simp
qed

end
