(* ===== verification/SimRun.thy ===== *)
theory SimRun
  imports SimAssign
begin

text \<open>
  Every expression, and whole tasks: what the code generator makes of \<^verbatim>\<open>return e;\<close> runs on the interpreter to the
  value or the error that the expression means.
\<close>

section \<open>Every expression\<close>

definition defaults_mean :: "('d, 'w) services \<Rightarrow> ('d, 'w) vm \<Rightarrow> code_view \<Rightarrow> scatter list \<Rightarrow> bool" where
  "defaults_mean sv m0 V scs \<longleftrightarrow> (\<forall>sc \<in> set scs. case sc of Scatter k i dflt \<Rightarrow> \<forall>e. dflt = Some e \<longrightarrow> means sv m0 V e)"

definition meant :: "('d, 'w) services \<Rightarrow> ('d, 'w) vm \<Rightarrow> code_view \<Rightarrow> expr \<Rightarrow> bool" where
  "meant sv m0 V e \<longleftrightarrow> (\<forall>dl. wf_expr dl e \<longrightarrow> means sv m0 V e) \<and> (\<forall>dl inner. wf_lvalue dl inner e \<longrightarrow> means_lval sv m0 V inner e)
     \<and> (\<forall>dl scs. e = EXPR_SCATTER scs \<longrightarrow> wf_scatter dl scs \<longrightarrow> defaults_mean sv m0 V scs)"

lemma meantI:
  assumes "\<And>dl. wf_expr dl e \<Longrightarrow> means sv m0 V e" "\<And>dl inner. wf_lvalue dl inner e \<Longrightarrow> means_lval sv m0 V inner e"
    "\<And>dl scs. e = EXPR_SCATTER scs \<Longrightarrow> wf_scatter dl scs \<Longrightarrow> defaults_mean sv m0 V scs"
  shows "meant sv m0 V e"
  using assms unfolding meant_def by blast

lemma meantD: "meant sv m0 V e \<Longrightarrow> wf_expr dl e \<Longrightarrow> means sv m0 V e"
  "meant sv m0 V e \<Longrightarrow> wf_lvalue dl inner e \<Longrightarrow> means_lval sv m0 V inner e"
  "meant sv m0 V (EXPR_SCATTER scs) \<Longrightarrow> wf_scatter dl scs \<Longrightarrow> defaults_mean sv m0 V scs"
  unfolding meant_def by blast+

definition meant_arg :: "('d, 'w) services \<Rightarrow> ('d, 'w) vm \<Rightarrow> code_view \<Rightarrow> arg \<Rightarrow> bool" where
  "meant_arg sv m0 V a \<longleftrightarrow> (case a of Arg k e \<Rightarrow> meant sv m0 V e)"

definition meant_scatter :: "('d, 'w) services \<Rightarrow> ('d, 'w) vm \<Rightarrow> code_view \<Rightarrow> scatter \<Rightarrow> bool" where
  "meant_scatter sv m0 V sc \<longleftrightarrow> (case sc of Scatter k i dflt \<Rightarrow> \<forall>e. dflt = Some e \<longrightarrow> meant sv m0 V e)"

lemma meant_args:
  assumes "\<forall>a \<in> set args. meant_arg sv m0 V a" "wf_args dl args"
  shows "\<forall>a \<in> set args. means_arg sv m0 V a"
  using assms
proof (induction args)
  case (Cons a args)
  obtain k e where a: "a = Arg k e" by (cases a)
  have "means sv m0 V e" using Cons.prems by (auto simp: a meant_arg_def intro: meantD)
  then show ?case using Cons by (auto simp: a means_arg_def)
qed simp

lemma meant_scatters:
  assumes "\<forall>sc \<in> set scs. meant_scatter sv m0 V sc" "wf_scatter dl scs"
  shows "defaults_mean sv m0 V scs"
  unfolding defaults_mean_def using assms
proof (induction scs)
  case (Cons sc scs)
  obtain k i dflt where sc: "sc = Scatter k i dflt" by (cases sc)
  have "means sv m0 V e" if "dflt = Some e" for e using Cons.prems that by (auto simp: sc meant_scatter_def intro: meantD)
  then show ?case using Cons by (auto simp: sc)
qed simp

lemma meant_all:
  assumes fr: "frame m0 V"
  shows "meant sv m0 V e" "meant_arg sv m0 V a" "meant_scatter sv m0 V sc"
proof (induction e and a and sc)
  case (EXPR_VAR v)
  show ?case by (rule meantI) (use means_var [OF fr] in simp_all)
next
  case (EXPR_ID i)
  show ?case by (rule meantI) (use means_id [OF fr] means_lval_id [OF fr] in simp_all)
next
  case (EXPR_AND l r)
  show ?case by (rule meantI) (auto intro!: means_and_or(1) [OF fr meantD(1) [OF EXPR_AND(1)] meantD(1) [OF EXPR_AND(2)]])
next
  case (EXPR_OR l r)
  show ?case by (rule meantI) (auto intro!: means_and_or(2) [OF fr meantD(1) [OF EXPR_OR(1)] meantD(1) [OF EXPR_OR(2)]])
next
  case (EXPR_BIN k l r)
  show ?case by (rule meantI) (auto intro!: means_bin [OF fr meantD(1) [OF EXPR_BIN(1)] meantD(1) [OF EXPR_BIN(2)]] means_lval_prop [OF fr meantD(1) [OF EXPR_BIN(1)] meantD(1) [OF EXPR_BIN(2)]])
next
  case (EXPR_EXP l r)
  show ?case by (rule meantI) (auto intro!: means_exp [OF fr meantD(1) [OF EXPR_EXP(1)] meantD(1) [OF EXPR_EXP(2)]])
next
  case (EXPR_NEGATE e)
  show ?case by (rule meantI) (auto intro!: means_unary(1) [OF fr meantD(1) [OF EXPR_NEGATE(1)]])
next
  case (EXPR_NOT e)
  show ?case by (rule meantI) (auto intro!: means_unary(2) [OF fr meantD(1) [OF EXPR_NOT(1)]])
next
  case (EXPR_INDEX l r)
  show ?case by (rule meantI) (auto intro!: means_index [OF fr meantD(1) [OF EXPR_INDEX(1)] meantD(1) [OF EXPR_INDEX(2)]] means_lval_index [OF fr meantD(2) [OF EXPR_INDEX(1)] meantD(1) [OF EXPR_INDEX(2)]])
next
  case (EXPR_RANGE b f u)
  show ?case by (rule meantI) (auto intro!: means_range [OF fr meantD(1) [OF EXPR_RANGE(1)] meantD(1) [OF EXPR_RANGE(2)] meantD(1) [OF EXPR_RANGE(3)]] means_lval_range [OF meantD(2) [OF EXPR_RANGE(1)] meantD(1) [OF EXPR_RANGE(2)] meantD(1) [OF EXPR_RANGE(3)]])
next
  case EXPR_LENGTH
  show ?case by (rule meantI) (use means_length [OF fr] in simp_all)
next
  case (EXPR_LIST args)
  have "\<forall>a \<in> set args. meant_arg sv m0 V a" using EXPR_LIST by blast
  then show ?case by (intro meantI) (use means_list [OF fr meant_args] in auto)
next
  case (EXPR_CALL f args)
  show ?case by (intro meantI) (auto intro: meansI)
next
  case (EXPR_VERB ob verb args)
  show ?case by (intro meantI) (auto intro: meansI)
next
  case (EXPR_COND c t e)
  show ?case by (rule meantI) (auto intro!: means_cond [OF fr meantD(1) [OF EXPR_COND(1)] meantD(1) [OF EXPR_COND(2)] meantD(1) [OF EXPR_COND(3)]])
next
  case (EXPR_CATCH e codes except)
  have "\<forall>a \<in> set codes. meant_arg sv m0 V a" "meant sv m0 V e" "except = Some h \<Longrightarrow> meant sv m0 V h" for h using EXPR_CATCH by auto
  note IH = this
  have "means sv m0 V (EXPR_CATCH e codes except)" if wf: "wf_expr dl (EXPR_CATCH e codes except)" for dl
  proof (rule means_catch [OF fr])
    have "wf_expr dl e" "wf_args dl codes" using wf by simp_all
    then show "means sv m0 V e" "\<forall>a \<in> set codes. means_arg sv m0 V a" by (auto intro: meantD(1) [OF IH(2)] meant_args [OF IH(1), THEN bspec])
    show "means sv m0 V h" if h: "except = Some h" for h
      by (rule meantD(1) [where dl = dl, OF IH(3) [OF h]]) (use wf h in simp)
  qed
  then show ?case by (intro meantI) auto
next
  case (EXPR_ASGN lhs rhs)
  have "means sv m0 V (EXPR_ASGN lhs rhs)" if wf: "wf_expr dl (EXPR_ASGN lhs rhs)" for dl
  proof (cases "\<exists>scs. lhs = EXPR_SCATTER scs")
    case True
    then obtain scs where scs: "lhs = EXPR_SCATTER scs" by blast
    have "wf_scatter dl scs" "no_rest_twice scs" "wf_expr dl rhs" using wf by (simp_all add: scs)
    then show ?thesis
      unfolding scs using meantD(3) [OF EXPR_ASGN(1) [unfolded scs]] means_scatter [OF fr meantD(1) [OF EXPR_ASGN(2)]]
      unfolding defaults_mean_def by blast
  next
    case False
    then have plain: "\<And>scs. lhs \<noteq> EXPR_SCATTER scs" by blast
    have "wf_lvalue dl False lhs" "wf_expr dl rhs" using wf plain by (cases lhs; simp)+
    then show ?thesis using means_assign [OF fr plain] EXPR_ASGN meantD by blast
  qed
  then show ?case by (intro meantI) auto
next
  case (EXPR_SCATTER scs)
  then have "\<forall>sc \<in> set scs. meant_scatter sv m0 V sc" by blast
  then show ?case by (intro meantI) (auto intro: meant_scatters)
next
  case (Arg k e)
  then show ?case by (simp add: meant_arg_def)
next
  case (Scatter k i dflt)
  then show ?case by (auto simp: meant_scatter_def)
qed

section \<open>Whole runs\<close>

text \<open>A machine that \<open>do_task\<close> has set up, about to run.\<close>

definition started :: "int \<Rightarrow> ('d, 'w) vm \<Rightarrow> ('d, 'w) vm" where
  "started ticks m = set_mode Executing (setup_task_execution_limits ticks m\<lparr>handler_info := None\<rparr>)"

definition setting_for :: "('d, 'w) services \<Rightarrow> 'd activation \<Rightarrow> setting" where
  "setting_for sv a = \<lparr>st_pow = s_pow sv, st_debug = ac_debug a, st_progr = ac_progr a\<rparr>"

lemma run_vm_stopped: "vm_mode m = Stopped out result \<Longrightarrow> run_vm sv m = Some (out, result, m)"
  by (subst run_vm.simps) simp

lemma lab_zero [simp]: "lab V 0 = 0"
  by (simp add: lab_def mu_def)

lemma return_ends:
  assumes fr: "frame m0 V" and one: "tl (activ_stack m0) = []" and i: "at V p (I_op OP_RETURN) q" and rd: "ready V t p"
  shows "\<exists>m. run_vm sv (cfg m0 (lab V p) [v] st temp ep t) = Some (OUTCOME_DONE, Some v, m) \<and> vm_db m = snd st"
proof -
  obtain t' where s: "vm_step sv (cfg m0 (lab V p) [v] st temp ep t)
      = exec sv (cv_bc V) (I_op OP_RETURN) (cfg m0 (lab V q) [v] st temp (lab V p) t')"
    by (rule vm_step_at [OF fr i rd])
  let ?m = "unwind_stack FIN_RETURN v True (cfg m0 (lab V q) [] st temp (lab V p) t')"
  let ?last = "set_mode (Stopped OUTCOME_DONE (Some v)) (?m\<lparr>activ_stack := []\<rparr>)"
  have 1: "vm_step sv (cfg m0 (lab V p) [v] st temp ep t) = Some ?m"
    unfolding s by (simp add: exec_def op_return_def)
  have 2: "vm_step sv ?m = Some ?last"
    using one by (simp add: vm_step_def unwind_stack_def set_mode_def unwind_step_def RUN_ACTIV_def unwind_activation_def
        raise_code_def unwind_rt.simps Let_def)
  have "run_vm sv (cfg m0 (lab V p) [v] st temp ep t) = run_vm sv ?last"
    by (simp add: run_vm_step [OF 1] run_vm_step [OF 2])
  also have "\<dots> = Some (OUTCOME_DONE, Some v, ?last)" by (rule run_vm_stopped) (simp add: set_mode_def)
  finally show ?thesis by (intro exI [of _ ?last]) (simp add: set_mode_def unwind_stack_def)
qed

lemma traceback_total: "\<exists>s. traceback_line sv msg root is_top is_root a = Some s"
  by (simp add: traceback_line_def fmt_expand.simps obj_arg_def)

lemma error_ends:
  assumes fr: "frame m0 V" and one: "tl (activ_stack m0) = []" and r: "raises_over sv m0 V q [] m err st"
  shows "\<exists>m1 args. run_vm sv m = Some (OUTCOME_ABORTED, None, m1) \<and> vm_db m1 = snd st
    \<and> handler_info m1 = Some (''handle_uncaught_error'', VList (VErr err # args))"
proof -
  obtain m1 junk pc temp ep t where 1: "steps sv m m1"
    "vm_step sv m1 = raise_code_error sv err (cfg m0 pc (junk @ []) st temp ep t)" "transparent err junk"
    using r unfolding raises_over_def by blast
  let ?c = "cfg m0 pc junk st temp ep t"
  have "has_handler (VErr err) (junk @ []) = Some False" "unwind_rt FIN_UNCAUGHT zero 0 (junk @ []) = Some (No_Handler [])"
    using 1(3) unfolding transparent_def by (simp_all only: has_handler.simps unwind_rt.simps)
  then have h: "has_handler (VErr err) junk = Some False" "unwind_rt FIN_UNCAUGHT zero 0 junk = Some (No_Handler [])" by simp_all
  obtain l where "traceback_line sv (unparse_error err) (root_activ_vector ?c) True True (act m0 pc junk (fst st) temp ep) = Some l"
    using traceback_total by blast
  then have "error_backtrace_list sv (unparse_error err) ?c = Some (VList (map VStr [l, ''(End of traceback)'']))"
    using one by (simp add: error_backtrace_list_def)
  then obtain ls where ls: "error_backtrace_list sv (unparse_error err) ?c = Some ls" by blast
  obtain args where args: "raise_code_error sv err ?c
      = Some (unwind_stack FIN_UNCAUGHT zero False (save_handler_info ''handle_uncaught_error'' (VList (VErr err # args)) ?c))"
    using h one ls by (auto simp: raise_code_error_def raise_error_def)
  let ?m2 = "unwind_stack FIN_UNCAUGHT zero False (save_handler_info ''handle_uncaught_error'' (VList (VErr err # args)) ?c)"
  let ?last = "set_mode (Stopped OUTCOME_ABORTED None) (?m2\<lparr>activ_stack := []\<rparr>)"
  have 2: "vm_step sv m1 = Some ?m2" using 1(2) args by simp
  have 3: "vm_step sv ?m2 = Some ?last"
    using one h(2) by (simp add: vm_step_def unwind_stack_def set_mode_def unwind_step_def RUN_ACTIV_def unwind_activation_def
        save_handler_info_def raise_code_def Let_def cfg_def)
  have "run_vm sv m = run_vm sv ?last"
    by (simp add: run_vm_steps [OF 1(1)] run_vm_step [OF 2] run_vm_step [OF 3])
  also have "\<dots> = Some (OUTCOME_ABORTED, None, ?last)" by (rule run_vm_stopped) (simp add: set_mode_def)
  finally show ?thesis
    by (intro exI [of _ ?last] exI [of _ args]) (simp add: set_mode_def unwind_stack_def save_handler_info_def)
qed

lemma task_simulated:
  assumes wf: "wf_expr False e" and p: "generate_code [STMT_RETURN (Some e)] version = Some p" and fit: "fits p"
    and prog: "ac_prog a = p\<lparr>var_names := names\<rparr>"
    and m1: "do_task MAIN_VECTOR depth a m = Some m1" and ticks: "int (length (bc_vector (main_vector p))) < ticks"
    and den: "denote (setting_for sv a) e None (ac_rt_env a, vm_db m) = Some r"
  obtains V p1 p2 where "frame (started ticks m1) V" "tl (activ_stack (started ticks m1)) = []" "at V p1 (I_op OP_RETURN) p2"
    "leads_to sv (started ticks m1) V p1 (\<lambda>_. True) (\<lambda>v. [v]) [] (started ticks m1) r"
    "run_interpreter sv None ticks m1 = run_vm sv (started ticks m1)"
proof -
  obtain V p1 p2 where V: "cv_bc V = main_vector p" "cv_literals V = pr_literals p" "cv_max V = bc_max_stack (main_vector p)"
    "expr_code V e 0 None 0 p1" "at V p1 (I_op OP_RETURN) p2"
    by (rule return_compiled [OF wf p fit])
  let ?a = "a\<lparr>ac_stack := [], ac_rt_stack_size := bc_max_stack (main_vector p), ac_pc := 0,
         ac_error_pc := 0, ac_bi_func_pc := 0, ac_temp := VNone\<rparr>"
  let ?m0 = "started ticks m1"
  have m1: "m1 = m\<lparr>activ_stack := [?a], max_stack_size := depth, root_activ_vector := MAIN_VECTOR\<rparr>"
    using m1 prog by (simp add: do_task_def vector_of_def)
  have fr: "frame ?m0 V"
    using fit V prog by (simp add: frame_def started_def set_mode_def setup_task_execution_limits_def m1 current_bytecodes_def vector_of_def fits_def)
  have "int (length (bc_vector (cv_bc V))) < ticks_remaining ?m0"
    using ticks V(1) by (simp add: started_def set_mode_def setup_task_execution_limits_def)
  then have rd: "ready V (ticks_remaining ?m0) 0" by (simp add: ready_def)
  have same: "cfg ?m0 (lab V 0) [] (ac_rt_env a, vm_db m) VNone 0 (ticks_remaining ?m0) = ?m0"
    by (simp add: cfg_def act_def started_def set_mode_def setup_task_execution_limits_def m1)
  have set: "setting_of sv ?m0 = setting_for sv a"
    by (simp add: setting_of_def setting_for_def started_def set_mode_def setup_task_execution_limits_def m1)
  have "means sv ?m0 V e" using meantD(1) [OF meant_all(1) [OF fr] wf] .
  then have "leads_to sv ?m0 V p1 (\<lambda>_. True) (\<lambda>v. [v]) [] (cfg ?m0 (lab V 0) [] (ac_rt_env a, vm_db m) VNone 0 (ticks_remaining ?m0)) r"
    by (rule meansD) (use V rd den set at_next_ok [OF V(5)] in \<open>simp_all add: dollar_ok_def\<close>)
  then have go: "leads_to sv ?m0 V p1 (\<lambda>_. True) (\<lambda>v. [v]) [] ?m0 r" unfolding same .
  have "tl (activ_stack ?m0) = []" by (simp add: started_def m1 set_mode_def setup_task_execution_limits_def)
  moreover have "run_interpreter sv None ticks m1 = run_vm sv ?m0" by (simp add: run_interpreter_def run_start_def started_def)
  ultimately show ?thesis using that [OF fr _ V(5) go] by blast
qed

text \<open>A check of the generated code that can be evaluated.\<close>

definition small_program :: "program \<Rightarrow> bool" where
  "small_program p \<longleftrightarrow> bc_max_stack (main_vector p) < 100 \<and> length (bc_vector (main_vector p)) < 100
     \<and> length (pr_literals p) < 100 \<and> length (fork_vectors p) < 100 \<and> var_names p = []"

lemma small_fits: "small_program p \<Longrightarrow> fits p"
  by (simp add: small_program_def fits_def)





end
