(* ===== verification/ObjectBifs.thy ===== *)
theory ObjectBifs
  imports VmRun ParseCmd Builtins
begin

text \<open>
  objects.c: the built-in functions on objects.  A function gets the argument list, the step \<open>next\<close> it is
  called for (1 at first, then what it asked for in \<open>P_CALL\<close>, with the value of the verb it had called), the
  data it left behind and the permissions \<open>progr\<close>; it answers with a package and the machine, whose stack of
  activations it may have grown by a verb call and whose database it may have changed.  \<open>None\<close>: the code
  panics, reads a value of the wrong type or does not come back.
\<close>

section \<open>Packages and arguments\<close>

datatype bf_data =
  BF_move objid objid
| BF_objid objid

type_synonym 'w bf =
  "var \<Rightarrow> nat \<Rightarrow> bf_data option \<Rightarrow> objid \<Rightarrow> (bf_data, 'w) vm \<Rightarrow> (bf_data bi_package \<times> (bf_data, 'w) vm) option"

text \<open>
  What the functions use of other files: the interpreter's services, memory fresh from \<^verbatim>\<open>malloc\<close> for a new
  object, \<^verbatim>\<open>boot_player\<close>, the size of a program, \<^verbatim>\<open>server_flag_option\<close>, the table of prepositions, the
  parser and the unparser.
\<close>

record 'w outside =
  x_services :: "(bf_data, 'w) services"
  x_raw_object :: "program object"
  x_boot_player :: "objid \<Rightarrow> 'w \<Rightarrow> 'w"
  x_program_bytes :: "program \<Rightarrow> int"
  x_flag_option :: "program db \<Rightarrow> string \<Rightarrow> bool"
  x_prep_table :: prep_table
  x_parse_list :: "var list \<Rightarrow> program option \<times> var"
  x_unparse_program :: "program \<Rightarrow> bool \<Rightarrow> bool \<Rightarrow> string list"

definition fails :: "error \<Rightarrow> (bf_data, 'w) vm \<Rightarrow> (bf_data bi_package \<times> (bf_data, 'w) vm) option" where
  "fails e m = Some (P_RAISE (VErr e) (unparse_error e) zero, m)"

definition gives :: "var \<Rightarrow> (bf_data, 'w) vm \<Rightarrow> (bf_data bi_package \<times> (bf_data, 'w) vm) option" where
  "gives v m = Some (P_RETURN v, m)"

definition no_value :: "(bf_data, 'w) vm \<Rightarrow> (bf_data bi_package \<times> (bf_data, 'w) vm) option" where
  "no_value m = gives zero m"

definition calls :: "nat \<Rightarrow> bf_data \<Rightarrow> (bf_data, 'w) vm \<Rightarrow> (bf_data bi_package \<times> (bf_data, 'w) vm) option" where
  "calls next d m = Some (P_CALL next (Some d), m)"

text \<open>\<open>arglist.v.list[i]\<close>, and its object.\<close>

definition nargs :: "var \<Rightarrow> nat" where
  "nargs arglist = (case arglist of VList vs \<Rightarrow> length vs | _ \<Rightarrow> 0)"

definition arg :: "var \<Rightarrow> nat \<Rightarrow> var option" where
  "arg arglist i = (case arglist of VList vs \<Rightarrow> if 1 \<le> i \<and> i \<le> length vs then Some (vs ! (i - 1)) else None | _ \<Rightarrow> None)"

definition arg_obj :: "var \<Rightarrow> nat \<Rightarrow> objid option" where
  "arg_obj arglist i = (case arg arglist i of Some (VObj x) \<Rightarrow> Some x | _ \<Rightarrow> None)"

definition controls :: "'p db \<Rightarrow> objid \<Rightarrow> objid \<Rightarrow> bool option" where
  "controls db who what =
     (if is_wizard db who then Some True else map_option (\<lambda>owner. who = owner) (db_object_owner db what))"

definition make_arglist :: "objid \<Rightarrow> var" where
  "make_arglist what = VList [VObj what]"

definition call_verb :: "'w outside \<Rightarrow> objid \<Rightarrow> string \<Rightarrow> var \<Rightarrow> (bf_data, 'w) vm \<Rightarrow> (error \<times> (bf_data, 'w) vm) option" where
  "call_verb x recv vname args m = call_verb2 (x_services x) recv vname args False m"

text \<open>The loop that climbs from \<open>oid\<close> and looks for \<open>what\<close>.\<close>

fun climbs_to :: "'p db \<Rightarrow> ('p object \<Rightarrow> objid) \<Rightarrow> objid \<Rightarrow> nat \<Rightarrow> objid \<Rightarrow> bool option" where
  "climbs_to db up what n oid =
     (if oid = NOTHING then Some False
      else if oid = what then Some True
      else case n of
        0 \<Rightarrow> None
      | Suc k \<Rightarrow> Option.bind (dbpriv_find_object db oid) (\<lambda>ob. climbs_to db up what k (up ob)))"

declare climbs_to.simps [simp del]

definition lies_inside :: "'p db \<Rightarrow> ('p object \<Rightarrow> objid) \<Rightarrow> objid \<Rightarrow> objid \<Rightarrow> bool option" where
  "lies_inside db up what oid = climbs_to db up what (nat (num_objects db)) oid"

section \<open>Moving\<close>

definition move_exited ::
  "'w outside \<Rightarrow> objid \<Rightarrow> objid \<Rightarrow> (bf_data, 'w) vm \<Rightarrow> (bf_data bi_package \<times> (bf_data, 'w) vm) option" where
  "move_exited x what place m =
     (if valid (vm_db m) place \<and> valid (vm_db m) what \<and> db_object_location (vm_db m) what = Some place
      then do {
        (e, m) \<leftarrow> call_verb x place ''enterfunc'' (make_arglist what) m;
        if e = E_NONE then calls 4 (BF_move what place) m
        else if e = E_MAXREC then fails e m
        else no_value m }
      else no_value m)"

definition move_accepted ::
  "'w outside \<Rightarrow> bool \<Rightarrow> objid \<Rightarrow> objid \<Rightarrow> objid \<Rightarrow> (bf_data, 'w) vm \<Rightarrow> (bf_data bi_package \<times> (bf_data, 'w) vm) option" where
  "move_accepted x accepts what place progr m =
     (let db = vm_db m in
      if \<not> is_wizard db progr \<and> \<not> accepts then fails E_NACC m
      else if \<not> valid db what \<or> place \<noteq> NOTHING \<and> \<not> valid db place \<or> db_object_location db what = Some place
        then no_value m
      else do {
        inside \<leftarrow> lies_inside db o_location what place;
        if inside then fails E_RECMOVE m
        else do {
          oldloc \<leftarrow> db_object_location db what;
          db \<leftarrow> db_change_location what place db;
          (e, m) \<leftarrow> call_verb x oldloc ''exitfunc'' (make_arglist what) (m\<lparr>vm_db := db\<rparr>);
          if e = E_NONE then calls 3 (BF_move what place) m
          else if e = E_MAXREC then fails e m
          else move_exited x what place m } })"

definition do_move ::
  "'w outside \<Rightarrow> var \<Rightarrow> nat \<Rightarrow> objid \<Rightarrow> objid \<Rightarrow> objid \<Rightarrow> (bf_data, 'w) vm \<Rightarrow> (bf_data bi_package \<times> (bf_data, 'w) vm) option" where
  "do_move x arglist next what place progr m =
     (if next = 1 then
        (if \<not> valid (vm_db m) what \<or> \<not> valid (vm_db m) place \<and> place \<noteq> NOTHING then fails E_INVARG m
         else do {
           c \<leftarrow> controls (vm_db m) progr what;
           if \<not> c then fails E_PERM m
           else if place = NOTHING then move_accepted x True what place progr m
           else do {
             (e, m) \<leftarrow> call_verb x place ''accept'' (make_arglist what) m;
             if e = E_NONE then calls 2 (BF_move what place) m
             else if e = E_VERBNF then move_accepted x False what place progr m
             else fails e m } })
      else if next = 2 then move_accepted x (is_true arglist) what place progr m
      else if next = 3 then move_exited x what place m
      else if next = 4 then no_value m
      else None)"

definition bf_move :: "'w outside \<Rightarrow> 'w bf" where
  "bf_move x arglist next vdata progr m = do {
     (what, place) \<leftarrow> (if next = 1 then do { a \<leftarrow> arg_obj arglist 1; b \<leftarrow> arg_obj arglist 2; Some (a, b) }
                       else (case vdata of Some (BF_move a b) \<Rightarrow> Some (a, b) | _ \<Rightarrow> None));
     do_move x arglist next what place progr m }"

section \<open>Simple functions\<close>

definition bf_toobj :: "'w bf" where
  "bf_toobj arglist next vdata progr m = do {
     v \<leftarrow> arg arglist 1;
     (e, i) \<leftarrow> become_integer v False;
     if e \<noteq> E_NONE then fails e m else gives (VObj (sint i)) m }"

definition bf_typeof :: "'w bf" where
  "bf_typeof arglist next vdata progr m = do {
     v \<leftarrow> arg arglist 1;
     gives (VInt (word_of_int (type_num (type_of v)))) m }"

definition bf_valid :: "'w bf" where
  "bf_valid arglist next vdata progr m = do {
     oid \<leftarrow> arg_obj arglist 1;
     gives (VInt (if valid (vm_db m) oid then 1 else 0)) m }"

definition bf_max_object :: "'w bf" where
  "bf_max_object arglist next vdata progr m = gives (VObj (db_last_used_objid (vm_db m))) m"

definition bf_parent :: "'w bf" where
  "bf_parent arglist next vdata progr m = do {
     oid \<leftarrow> arg_obj arglist 1;
     if \<not> valid (vm_db m) oid then fails E_INVARG m
     else Option.bind (db_object_parent (vm_db m) oid) (\<lambda>p. gives (VObj p) m) }"

text \<open>The list being filled: the place of the next element; \<open>None\<close> when it is past the end.\<close>

definition list_put :: "(nat \<times> var list) option \<Rightarrow> var \<Rightarrow> (nat \<times> var list) option" where
  "list_put d v = (case d of
     None \<Rightarrow> None
   | Some (i, vs) \<Rightarrow> if i < length vs then Some (i + 1, vs[i := v]) else None)"

definition add_child :: "(nat \<times> var list) option \<Rightarrow> objid \<Rightarrow> bool \<times> (nat \<times> var list) option" where
  "add_child d child = (False, list_put d (VObj child))"

definition bf_children :: "'w bf" where
  "bf_children arglist next vdata progr m = do {
     oid \<leftarrow> arg_obj arglist 1;
     if \<not> valid (vm_db m) oid then fails E_INVARG m
     else do {
       n \<leftarrow> db_count_children (vm_db m) oid;
       (_, d) \<leftarrow> db_for_all_children (vm_db m) oid add_child (Some (0, replicate (nat n) VNone));
       (_, vs) \<leftarrow> d;
       gives (VList vs) m } }"

definition bf_players :: "'w bf" where
  "bf_players arglist next vdata progr m = gives (db_all_users (vm_db m)) m"

definition bf_is_player :: "'w bf" where
  "bf_is_player arglist next vdata progr m = do {
     oid \<leftarrow> arg_obj arglist 1;
     if \<not> valid (vm_db m) oid then fails E_INVARG m
     else gives (VInt (if is_user (vm_db m) oid then 1 else 0)) m }"

definition bf_set_player_flag :: "'w outside \<Rightarrow> 'w bf" where
  "bf_set_player_flag x arglist next vdata progr m = do {
     oid \<leftarrow> arg_obj arglist 1;
     v \<leftarrow> arg arglist 2;
     if \<not> valid (vm_db m) oid then fails E_INVARG m
     else if \<not> is_wizard (vm_db m) progr then fails E_PERM m
     else if is_true v then Option.bind (db_set_object_flag (vm_db m) oid FLAG_USER) (\<lambda>db. no_value (m\<lparr>vm_db := db\<rparr>))
     else (let m = m\<lparr>vm_world := x_boot_player x oid (vm_world m)\<rparr> in
       Option.bind (db_clear_object_flag (vm_db m) oid FLAG_USER) (\<lambda>db. no_value (m\<lparr>vm_db := db\<rparr>))) }"

definition bf_object_bytes :: "'w outside \<Rightarrow> 'w bf" where
  "bf_object_bytes x arglist next vdata progr m = do {
     oid \<leftarrow> arg_obj arglist 1;
     if \<not> is_wizard (vm_db m) progr then fails E_PERM m
     else if \<not> valid (vm_db m) oid then fails E_INVIND m
     else Option.bind (db_object_bytes (x_program_bytes x) (vm_db m) oid) (\<lambda>n. gives (VInt (word_of_int n)) m) }"

section \<open>Creating\<close>

definition bf_create :: "'w outside \<Rightarrow> 'w bf" where
  "bf_create x arglist next vdata progr m =
     (if next = 1 then do {
        parent \<leftarrow> arg_obj arglist 1;
        owner \<leftarrow> (if nargs arglist = 2 then arg_obj arglist 2 else Some progr);
        let db = vm_db m;
        fertile \<leftarrow> (if valid db parent then db_object_allows db parent progr FLAG_FERTILE else Some (parent = NOTHING));
        if \<not> fertile \<or> owner \<noteq> progr \<and> \<not> is_wizard db progr then fails E_PERM m
        else do {
          (ok, db) \<leftarrow> (if valid db owner then decr_quota owner db else Some (True, db));
          if \<not> ok then fails E_QUOTA (m\<lparr>vm_db := db\<rparr>)
          else do {
            (oid, db) \<leftarrow> db_create_object (x_raw_object x) db;
            db \<leftarrow> db_set_object_name db oid [];
            db \<leftarrow> db_set_object_owner db oid (if owner = NOTHING then oid else owner);
            (_, db) \<leftarrow> db_change_parent oid parent db;
            (e, m) \<leftarrow> call_verb x oid ''initialize'' (VList []) (m\<lparr>vm_db := db\<rparr>);
            if e = E_NONE then calls 2 (BF_objid oid) m
            else if e = E_MAXREC then fails e m
            else gives (VObj oid) m } } }
      else (case vdata of Some (BF_objid oid) \<Rightarrow> gives (VObj oid) m | _ \<Rightarrow> None))"

definition bf_chparent :: "'w bf" where
  "bf_chparent arglist next vdata progr m = do {
     what \<leftarrow> arg_obj arglist 1;
     parent \<leftarrow> arg_obj arglist 2;
     let db = vm_db m;
     if \<not> valid db what \<or> \<not> valid db parent \<and> parent \<noteq> NOTHING then fails E_INVARG m
     else do {
       c \<leftarrow> controls db progr what;
       fertile \<leftarrow> (if valid db parent then db_object_allows db parent progr FLAG_FERTILE else Some True);
       if \<not> c \<or> \<not> fertile then fails E_PERM m
       else do {
         inside \<leftarrow> lies_inside db o_parent what parent;
         if inside then fails E_RECMOVE m
         else do {
           (changed, db) \<leftarrow> db_change_parent what parent db;
           if \<not> changed then fails E_INVARG (m\<lparr>vm_db := db\<rparr>) else no_value (m\<lparr>vm_db := db\<rparr>) } } } }"

section \<open>Recycling\<close>

definition first_proc :: "objid \<Rightarrow> objid \<Rightarrow> bool \<times> objid" where
  "first_proc r oid = (True, oid)"

definition get_first ::
  "'p db \<Rightarrow> objid \<Rightarrow> ('p db \<Rightarrow> objid \<Rightarrow> (objid \<Rightarrow> objid \<Rightarrow> bool \<times> objid) \<Rightarrow> objid \<Rightarrow> (bool \<times> objid) option) \<Rightarrow> objid option" where
  "get_first db oid for_all = map_option snd (for_all db oid first_proc NOTHING)"

text \<open>The flag says that a verb was called.\<close>

definition move_to_nothing :: "'w outside \<Rightarrow> objid \<Rightarrow> (bf_data, 'w) vm \<Rightarrow> (bool \<times> (bf_data, 'w) vm) option" where
  "move_to_nothing x oid m = do {
     oldloc \<leftarrow> db_object_location (vm_db m) oid;
     db \<leftarrow> db_change_location oid NOTHING (vm_db m);
     (e, m) \<leftarrow> call_verb x oldloc ''exitfunc'' (make_arglist oid) (m\<lparr>vm_db := db\<rparr>);
     Some (e = E_NONE, m) }"

text \<open>The two loops of the demolition; every round takes one object out, so \<open>num_objects\<close> rounds are enough.\<close>

fun recycle_contents :: "'w outside \<Rightarrow> nat \<Rightarrow> objid \<Rightarrow> (bf_data, 'w) vm \<Rightarrow> (bool \<times> (bf_data, 'w) vm) option" where
  "recycle_contents x n oid m = do {
     c \<leftarrow> get_first (vm_db m) oid db_for_all_contents;
     if c = NOTHING then Some (False, m)
     else case n of
       0 \<Rightarrow> None
     | Suc k \<Rightarrow> do {
         (called, m) \<leftarrow> move_to_nothing x c m;
         if called then Some (True, m) else recycle_contents x k oid m } }"

fun recycle_children :: "nat \<Rightarrow> objid \<Rightarrow> 'p db \<Rightarrow> 'p db option" where
  "recycle_children n oid db = do {
     c \<leftarrow> get_first db oid db_for_all_children;
     if c = NOTHING then Some db
     else case n of
       0 \<Rightarrow> None
     | Suc k \<Rightarrow> do {
         parent \<leftarrow> db_object_parent db oid;
         (_, db) \<leftarrow> db_change_parent c parent db;
         recycle_children k oid db } }"

declare recycle_contents.simps [simp del]
declare recycle_children.simps [simp del]

definition recycle_moving ::
  "'w outside \<Rightarrow> objid \<Rightarrow> (bf_data, 'w) vm \<Rightarrow> (bf_data bi_package \<times> (bf_data, 'w) vm) option" where
  "recycle_moving x oid m =
     (if \<not> valid (vm_db m) oid then no_value m
      else do {
        (called, m) \<leftarrow> recycle_contents x (nat (num_objects (vm_db m))) oid m;
        if called then calls 2 (BF_objid oid) m
        else do {
          loc \<leftarrow> db_object_location (vm_db m) oid;
          (called, m) \<leftarrow> (if loc \<noteq> NOTHING then move_to_nothing x oid m else Some (False, m));
          if called then calls 2 (BF_objid oid) m
          else do {
            db \<leftarrow> recycle_children (nat (num_objects (vm_db m))) oid (vm_db m);
            (_, db) \<leftarrow> db_change_parent oid NOTHING db;
            owner \<leftarrow> db_object_owner db oid;
            db \<leftarrow> incr_quota owner db;
            db \<leftarrow> db_destroy_object oid db;
            no_value (m\<lparr>vm_db := db\<rparr>) } } })"

definition bf_recycle :: "'w outside \<Rightarrow> 'w bf" where
  "bf_recycle x arglist func_pc vdata progr m =
     (if func_pc = 1 then do {
        oid \<leftarrow> arg_obj arglist 1;
        if \<not> valid (vm_db m) oid then fails E_INVARG m
        else do {
          c \<leftarrow> controls (vm_db m) progr oid;
          if \<not> c then fails E_PERM m
          else do {
            (e, m) \<leftarrow> call_verb x oid ''recycle'' (VList []) m;
            if e = E_NONE then calls 2 (BF_objid oid) m else recycle_moving x oid m } } }
      else if func_pc = 2 then (case vdata of Some (BF_objid oid) \<Rightarrow> recycle_moving x oid m | _ \<Rightarrow> None)
      else None)"

section \<open>Registration\<close>

type_synonym 'w bf_reg = "string \<times> int \<times> int \<times> 'w bf \<times> var_type list"

definition object_functions :: "'w outside \<Rightarrow> 'w bf_reg list" where
  "object_functions x =
     [(''toobj'', 1, 1, bf_toobj, [TYPE_ANY]),
      (''typeof'', 1, 1, bf_typeof, [TYPE_ANY]),
      (''create'', 1, 2, bf_create x, [TYPE_OBJ, TYPE_OBJ]),
      (''recycle'', 1, 1, bf_recycle x, [TYPE_OBJ]),
      (''object_bytes'', 1, 1, bf_object_bytes x, [TYPE_OBJ]),
      (''valid'', 1, 1, bf_valid, [TYPE_OBJ]),
      (''parent'', 1, 1, bf_parent, [TYPE_OBJ]),
      (''children'', 1, 1, bf_children, [TYPE_OBJ]),
      (''chparent'', 2, 2, bf_chparent, [TYPE_OBJ, TYPE_OBJ]),
      (''max_object'', 0, 0, bf_max_object, []),
      (''players'', 0, 0, bf_players, []),
      (''is_player'', 1, 1, bf_is_player, [TYPE_OBJ]),
      (''set_player_flag'', 2, 2, bf_set_player_flag x, [TYPE_OBJ, TYPE_ANY]),
      (''move'', 2, 2, bf_move x, [TYPE_OBJ, TYPE_OBJ])]"

end
