(* ===== verification/PropVerbBifs.thy ===== *)
theory PropVerbBifs
  imports ObjectBifs
begin

text \<open>
  property.c and verbs.c: the built-in functions on properties and verbs.  The checks of an information list
  answer with an error or with what it says.
\<close>

section \<open>Information lists\<close>

text \<open>The loop over the letters of a permission string; \<open>None\<close> for a letter that is not one of them.\<close>

fun perm_letters :: "(char \<times> unsigned) list \<Rightarrow> unsigned \<Rightarrow> string \<Rightarrow> unsigned option" where
  "perm_letters tab flags [] = Some flags"
| "perm_letters tab flags (c # s) =
     (case map_of tab c of None \<Rightarrow> None | Some b \<Rightarrow> perm_letters tab (flags OR b) s)"

definition prop_letters :: "(char \<times> unsigned) list" where
  "prop_letters = [(CHR ''r'', ucast PF_READ), (CHR ''R'', ucast PF_READ), (CHR ''w'', ucast PF_WRITE),
     (CHR ''W'', ucast PF_WRITE), (CHR ''c'', ucast PF_CHOWN), (CHR ''C'', ucast PF_CHOWN)]"

definition verb_letters :: "(char \<times> unsigned) list" where
  "verb_letters = [(CHR ''r'', VF_READ), (CHR ''R'', VF_READ), (CHR ''w'', VF_WRITE), (CHR ''W'', VF_WRITE),
     (CHR ''x'', VF_EXEC), (CHR ''X'', VF_EXEC), (CHR ''d'', VF_DEBUG), (CHR ''D'', VF_DEBUG)]"

definition validate_prop_info :: "'p db \<Rightarrow> var \<Rightarrow> error + objid \<times> unsigned \<times> string option" where
  "validate_prop_info db v =
     (case v of
        VList (VObj owner # VStr perms # rest) \<Rightarrow>
          if rest \<noteq> [] \<and> (length rest > 1 \<or> type_of (hd rest) \<noteq> TYPE_STR) then Inl E_TYPE
          else if \<not> valid db owner then Inl E_INVARG
          else (case perm_letters prop_letters 0 perms of
             None \<Rightarrow> Inl E_INVARG
           | Some flags \<Rightarrow> Inr (owner, flags, case rest of [VStr name] \<Rightarrow> Some name | _ \<Rightarrow> None))
      | _ \<Rightarrow> Inl E_TYPE)"

definition validate_verb_info :: "'p db \<Rightarrow> var \<Rightarrow> error + objid \<times> unsigned \<times> string" where
  "validate_verb_info db v =
     (case v of
        VList [VObj owner, VStr perms, VStr names] \<Rightarrow>
          if \<not> valid db owner then Inl E_INVARG
          else (case perm_letters verb_letters 0 perms of
             None \<Rightarrow> Inl E_INVARG
           | Some flags \<Rightarrow>
               (let names = dropWhile (\<lambda>c. c = CHR '' '') names in
                if names = [] then Inl E_INVARG else Inr (owner, flags, names)))
      | _ \<Rightarrow> Inl E_TYPE)"

definition match_arg_spec :: "string \<Rightarrow> unsigned option" where
  "match_arg_spec s =
     (if mystrcasecmp s ''none'' = 0 then Some ASPEC_NONE
      else if mystrcasecmp s ''any'' = 0 then Some ASPEC_ANY
      else if mystrcasecmp s ''this'' = 0 then Some ASPEC_THIS
      else None)"

text \<open>The outer \<open>None\<close>: splitting the words of the preposition left their buffer.\<close>

definition match_prep_spec :: "prep_table \<Rightarrow> string \<Rightarrow> int option option" where
  "match_prep_spec tab s =
     (if mystrcasecmp s ''none'' = 0 then Some (Some PREP_NONE)
      else if mystrcasecmp s ''any'' = 0 then Some (Some PREP_ANY)
      else map_option (\<lambda>p. if p \<noteq> PREP_NONE then Some p else None) (db_match_prep tab s))"

definition validate_verb_args :: "prep_table \<Rightarrow> var \<Rightarrow> (error + unsigned \<times> int \<times> unsigned) option" where
  "validate_verb_args tab v =
     (case v of
        VList [VStr a, VStr b, VStr c] \<Rightarrow>
          (case match_arg_spec a of
             None \<Rightarrow> Some (Inl E_INVARG)
           | Some dobj \<Rightarrow> do {
               p \<leftarrow> match_prep_spec tab b;
               Some (case (p, match_arg_spec c) of
                  (Some prep, Some iobj) \<Rightarrow> Inr (dobj, prep, iobj)
                | _ \<Rightarrow> Inl E_INVARG) })
      | _ \<Rightarrow> Some (Inl E_TYPE))"

text \<open>The letters of the set flags.\<close>

definition perm_text :: "(char \<times> unsigned) list \<Rightarrow> unsigned \<Rightarrow> string" where
  "perm_text tab flags = map fst (filter (\<lambda>(c, b). flags AND b \<noteq> 0) tab)"

definition arg_str :: "var \<Rightarrow> nat \<Rightarrow> string option" where
  "arg_str arglist i = (case arg arglist i of Some (VStr s) \<Rightarrow> Some s | _ \<Rightarrow> None)"

text \<open>An error code as the answer, \<open>E_NONE\<close> for none.\<close>

definition error_or_none :: "error \<Rightarrow> (bf_data, 'w) vm \<Rightarrow> (bf_data bi_package \<times> (bf_data, 'w) vm) option" where
  "error_or_none e m = (if e = E_NONE then no_value m else fails e m)"

definition add_name :: "(nat \<times> var list) option \<Rightarrow> string \<Rightarrow> bool \<times> (nat \<times> var list) option" where
  "add_name d name = (False, list_put d (VStr name))"

section \<open>Properties\<close>

definition bf_properties :: "'w bf" where
  "bf_properties arglist next vdata progr m = do {
     oid \<leftarrow> arg_obj arglist 1;
     let db = vm_db m;
     if \<not> valid db oid then fails E_INVARG m
     else do {
       allowed \<leftarrow> db_object_allows db oid progr FLAG_READ;
       if \<not> allowed then fails E_PERM m
       else do {
         n \<leftarrow> db_count_propdefs db oid;
         (_, d) \<leftarrow> db_for_all_propdefs db oid add_name (Some (0, replicate n VNone));
         (_, vs) \<leftarrow> d;
         gives (VList vs) m } } }"

definition bf_prop_info :: "'w bf" where
  "bf_prop_info arglist next vdata progr m = do {
     oid \<leftarrow> arg_obj arglist 1;
     pname \<leftarrow> arg_str arglist 2;
     let db = vm_db m;
     if \<not> valid db oid then fails E_INVARG m
     else do {
       (h, _) \<leftarrow> db_find_property db oid pname False;
       if ph_ptr h = PNull \<or> ph_built_in h \<noteq> BP_NONE then fails E_PROPNF m
       else do {
         allowed \<leftarrow> db_property_allows db h progr (ucast PF_READ);
         if \<not> allowed then fails E_PERM m
         else do {
           owner \<leftarrow> db_property_owner db h;
           flags \<leftarrow> db_property_flags db h;
           gives (VList [VObj owner, VStr (perm_text [(CHR ''r'', ucast PF_READ), (CHR ''w'', ucast PF_WRITE),
             (CHR ''c'', ucast PF_CHOWN)] flags)]) m } } } }"

definition set_prop_info :: "objid \<Rightarrow> string \<Rightarrow> var \<Rightarrow> objid \<Rightarrow> 'p db \<Rightarrow> (error \<times> 'p db) option" where
  "set_prop_info oid pname info progr db =
     (if \<not> valid db oid then Some (E_INVARG, db)
      else case validate_prop_info db info of
        Inl e \<Rightarrow> Some (e, db)
      | Inr (new_owner, new_flags, new_name) \<Rightarrow> do {
          (h, _) \<leftarrow> db_find_property db oid pname False;
          if ph_ptr h = PNull \<or> ph_built_in h \<noteq> BP_NONE then Some (E_PROPNF, db)
          else do {
            allowed \<leftarrow> db_property_allows db h progr (ucast PF_WRITE);
            owner \<leftarrow> db_property_owner db h;
            if \<not> allowed \<or> \<not> is_wizard db progr \<and> owner \<noteq> new_owner then Some (E_PERM, db)
            else do {
              (renamed, h, db) \<leftarrow> (case new_name of
                 None \<Rightarrow> Some (True, h, db)
               | Some new_name \<Rightarrow> do {
                   (ok, db) \<leftarrow> db_rename_propdef oid pname new_name db;
                   if \<not> ok then Some (False, h, db)
                   else do {
                     (h, _) \<leftarrow> db_find_property db oid new_name False;
                     Some (True, h, db) } });
              if \<not> renamed then Some (E_INVARG, db)
              else do {
                db \<leftarrow> db_set_property_owner h new_owner db;
                db \<leftarrow> db_set_property_flags h new_flags db;
                Some (E_NONE, db) } } } })"

definition bf_set_prop_info :: "'w bf" where
  "bf_set_prop_info arglist next vdata progr m = do {
     oid \<leftarrow> arg_obj arglist 1;
     pname \<leftarrow> arg_str arglist 2;
     info \<leftarrow> arg arglist 3;
     (e, db) \<leftarrow> set_prop_info oid pname info progr (vm_db m);
     error_or_none e (m\<lparr>vm_db := db\<rparr>) }"

definition bf_add_prop :: "'w bf" where
  "bf_add_prop arglist next vdata progr m = do {
     oid \<leftarrow> arg_obj arglist 1;
     pname \<leftarrow> arg_str arglist 2;
     value \<leftarrow> arg arglist 3;
     info \<leftarrow> arg arglist 4;
     let db = vm_db m;
     (case validate_prop_info db info of
        Inl e \<Rightarrow> fails e m
      | Inr (owner, flags, new_name) \<Rightarrow>
          if new_name \<noteq> None then fails E_TYPE m
          else if \<not> valid db oid then fails E_INVARG m
          else do {
            allowed \<leftarrow> db_object_allows db oid progr FLAG_WRITE;
            if \<not> allowed \<or> progr \<noteq> owner \<and> \<not> is_wizard db progr then fails E_PERM m
            else do {
              (ok, db) \<leftarrow> db_add_propdef oid pname value owner flags db;
              if \<not> ok then fails E_INVARG (m\<lparr>vm_db := db\<rparr>) else no_value (m\<lparr>vm_db := db\<rparr>) } }) }"

definition bf_delete_prop :: "'w bf" where
  "bf_delete_prop arglist next vdata progr m = do {
     oid \<leftarrow> arg_obj arglist 1;
     pname \<leftarrow> arg_str arglist 2;
     let db = vm_db m;
     if \<not> valid db oid then fails E_INVARG m
     else do {
       allowed \<leftarrow> db_object_allows db oid progr FLAG_WRITE;
       if \<not> allowed then fails E_PERM m
       else do {
         (ok, db) \<leftarrow> db_delete_propdef oid pname db;
         if \<not> ok then fails E_PROPNF (m\<lparr>vm_db := db\<rparr>) else no_value (m\<lparr>vm_db := db\<rparr>) } } }"

text \<open>The definer is compared through the handle: a slot belongs to the object itself if its definition does.\<close>

definition bf_clear_prop :: "'w bf" where
  "bf_clear_prop arglist next vdata progr m = do {
     oid \<leftarrow> arg_obj arglist 1;
     pname \<leftarrow> arg_str arglist 2;
     let db = vm_db m;
     if \<not> valid db oid then fails E_INVARG m
     else do {
       (h, _) \<leftarrow> db_find_property db oid pname False;
       if ph_ptr h = PNull then fails E_PROPNF m
       else if ph_built_in h \<noteq> BP_NONE then fails E_PERM m
       else do {
         owner \<leftarrow> db_property_owner db h;
         if progr \<noteq> owner \<and> \<not> is_wizard db progr then fails E_PERM m
         else if ph_definer h = oid then fails E_INVARG m
         else Option.bind (db_set_property_value h VClear db) (\<lambda>db. no_value (m\<lparr>vm_db := db\<rparr>)) } } }"

definition bf_is_clear_prop :: "'w bf" where
  "bf_is_clear_prop arglist next vdata progr m = do {
     oid \<leftarrow> arg_obj arglist 1;
     pname \<leftarrow> arg_str arglist 2;
     let db = vm_db m;
     if \<not> valid db oid then fails E_INVARG m
     else do {
       (h, _) \<leftarrow> db_find_property db oid pname False;
       if ph_ptr h = PNull then fails E_PROPNF m
       else if ph_built_in h \<noteq> BP_NONE then gives (VInt 0) m
       else do {
         allowed \<leftarrow> db_property_allows db h progr (ucast PF_READ);
         if \<not> allowed then fails E_PERM m
         else do {
           v \<leftarrow> db_property_value db h;
           gives (VInt (if type_of v = TYPE_CLEAR then 1 else 0)) m } } } }"

definition property_functions :: "'w bf_reg list" where
  "property_functions =
     [(''properties'', 1, 1, bf_properties, [TYPE_OBJ]),
      (''property_info'', 2, 2, bf_prop_info, [TYPE_OBJ, TYPE_STR]),
      (''set_property_info'', 3, 3, bf_set_prop_info, [TYPE_OBJ, TYPE_STR, TYPE_LIST]),
      (''add_property'', 4, 4, bf_add_prop, [TYPE_OBJ, TYPE_STR, TYPE_ANY, TYPE_LIST]),
      (''delete_property'', 2, 2, bf_delete_prop, [TYPE_OBJ, TYPE_STR]),
      (''clear_property'', 2, 2, bf_clear_prop, [TYPE_OBJ, TYPE_STR]),
      (''is_clear_property'', 2, 2, bf_is_clear_prop, [TYPE_OBJ, TYPE_STR])]"


section \<open>Verbs\<close>

definition bf_verbs :: "'w bf" where
  "bf_verbs arglist next vdata progr m = do {
     oid \<leftarrow> arg_obj arglist 1;
     let db = vm_db m;
     if \<not> valid db oid then fails E_INVARG m
     else do {
       allowed \<leftarrow> db_object_allows db oid progr FLAG_READ;
       if \<not> allowed then fails E_PERM m
       else do {
         n \<leftarrow> db_count_verbs db oid;
         (_, d) \<leftarrow> db_for_all_verbs db oid add_name (Some (0, replicate n VNone));
         (_, vs) \<leftarrow> d;
         gives (VList vs) m } } }"

definition bf_add_verb :: "'w outside \<Rightarrow> 'w bf" where
  "bf_add_verb x arglist next vdata progr m = do {
     oid \<leftarrow> arg_obj arglist 1;
     info \<leftarrow> arg arglist 2;
     args \<leftarrow> arg arglist 3;
     let db = vm_db m;
     (case validate_verb_info db info of
        Inl e \<Rightarrow> fails e m
      | Inr (owner, flags, names) \<Rightarrow> do {
          spec \<leftarrow> validate_verb_args (x_prep_table x) args;
          (case spec of
             Inl e \<Rightarrow> fails e m
           | Inr (dobj, prep, iobj) \<Rightarrow>
               if \<not> valid db oid then fails E_INVARG m
               else do {
                 allowed \<leftarrow> db_object_allows db oid progr FLAG_WRITE;
                 if \<not> allowed \<or> progr \<noteq> owner \<and> \<not> is_wizard db progr then fails E_PERM m
                 else do {
                   (n, db) \<leftarrow> db_add_verb oid names owner flags dobj prep iobj db;
                   gives (VInt (word_of_nat n)) (m\<lparr>vm_db := db\<rparr>) } }) }) }"

definition validate_verb_descriptor :: "var \<Rightarrow> error" where
  "validate_verb_descriptor desc =
     (case desc of
        VStr s \<Rightarrow> E_NONE
      | VInt n \<Rightarrow> if sint n \<le> 0 then E_INVARG else E_NONE
      | _ \<Rightarrow> E_TYPE)"

definition find_described_verb :: "'w outside \<Rightarrow> program db \<Rightarrow> objid \<Rightarrow> var \<Rightarrow> handle option option" where
  "find_described_verb x db oid desc =
     (case desc of
        VInt n \<Rightarrow> db_find_indexed_verb db oid (nat (sint n))
      | VStr s \<Rightarrow> db_find_defined_verb db oid s (x_flag_option x db ''support_numeric_verbname_strings'')
      | _ \<Rightarrow> None)"

text \<open>How the functions that look at one verb begin: \<open>E_NONE\<close> and a handle, or the error.\<close>

definition described_verb :: "'w outside \<Rightarrow> program db \<Rightarrow> objid \<Rightarrow> var \<Rightarrow> (error \<times> handle option) option" where
  "described_verb x db oid desc =
     (if validate_verb_descriptor desc \<noteq> E_NONE then Some (validate_verb_descriptor desc, None)
      else if \<not> valid db oid then Some (E_INVARG, None)
      else do {
        h \<leftarrow> find_described_verb x db oid desc;
        Some (if h = None then E_VERBNF else E_NONE, h) })"

definition bf_delete_verb :: "'w outside \<Rightarrow> 'w bf" where
  "bf_delete_verb x arglist next vdata progr m = do {
     oid \<leftarrow> arg_obj arglist 1;
     desc \<leftarrow> arg arglist 2;
     let db = vm_db m;
     if validate_verb_descriptor desc \<noteq> E_NONE then fails (validate_verb_descriptor desc) m
     else if \<not> valid db oid then fails E_INVARG m
     else do {
       allowed \<leftarrow> db_object_allows db oid progr FLAG_WRITE;
       if \<not> allowed then fails E_PERM m
       else do {
         h \<leftarrow> find_described_verb x db oid desc;
         (case h of
            None \<Rightarrow> fails E_VERBNF m
          | Some h \<Rightarrow> Option.bind (db_delete_verb h db) (\<lambda>db. no_value (m\<lparr>vm_db := db\<rparr>))) } } }"

definition bf_verb_info :: "'w outside \<Rightarrow> 'w bf" where
  "bf_verb_info x arglist next vdata progr m = do {
     oid \<leftarrow> arg_obj arglist 1;
     desc \<leftarrow> arg arglist 2;
     let db = vm_db m;
     (e, h) \<leftarrow> described_verb x db oid desc;
     if e \<noteq> E_NONE then fails e m
     else do {
       allowed \<leftarrow> db_verb_allows db h progr VF_READ;
       if \<not> allowed then fails E_PERM m
       else do {
         owner \<leftarrow> db_verb_owner db h;
         flags \<leftarrow> db_verb_flags db h;
         names \<leftarrow> db_verb_names db h;
         gives (VList [VObj owner, VStr (perm_text [(CHR ''r'', VF_READ), (CHR ''w'', VF_WRITE),
           (CHR ''x'', VF_EXEC), (CHR ''d'', VF_DEBUG)] flags), VStr names]) m } } }"

definition bf_set_verb_info :: "'w outside \<Rightarrow> 'w bf" where
  "bf_set_verb_info x arglist next vdata progr m = do {
     oid \<leftarrow> arg_obj arglist 1;
     desc \<leftarrow> arg arglist 2;
     info \<leftarrow> arg arglist 3;
     let db = vm_db m;
     if validate_verb_descriptor desc \<noteq> E_NONE then fails (validate_verb_descriptor desc) m
     else if \<not> valid db oid then fails E_INVARG m
     else (case validate_verb_info db info of
        Inl e \<Rightarrow> fails e m
      | Inr (new_owner, new_flags, names) \<Rightarrow> do {
          h \<leftarrow> find_described_verb x db oid desc;
          if h = None then fails E_VERBNF m
          else do {
            allowed \<leftarrow> db_verb_allows db h progr VF_WRITE;
            owner \<leftarrow> db_verb_owner db h;
            if \<not> allowed \<or> \<not> is_wizard db progr \<and> owner \<noteq> new_owner then fails E_PERM m
            else do {
              db \<leftarrow> db_set_verb_owner h new_owner db;
              db \<leftarrow> db_set_verb_flags h new_flags db;
              db \<leftarrow> db_set_verb_names h names db;
              no_value (m\<lparr>vm_db := db\<rparr>) } } }) }"

definition unparse_arg_spec :: "unsigned \<Rightarrow> string option" where
  "unparse_arg_spec spec =
     (if spec = ASPEC_NONE then Some ''none''
      else if spec = ASPEC_ANY then Some ''any''
      else if spec = ASPEC_THIS then Some ''this''
      else None)"

definition bf_verb_args :: "'w outside \<Rightarrow> 'w bf" where
  "bf_verb_args x arglist next vdata progr m = do {
     oid \<leftarrow> arg_obj arglist 1;
     desc \<leftarrow> arg arglist 2;
     let db = vm_db m;
     (e, h) \<leftarrow> described_verb x db oid desc;
     if e \<noteq> E_NONE then fails e m
     else do {
       allowed \<leftarrow> db_verb_allows db h progr VF_READ;
       if \<not> allowed then fails E_PERM m
       else do {
         (dobj, prep, iobj) \<leftarrow> db_verb_arg_specs db h;
         d \<leftarrow> unparse_arg_spec dobj;
         p \<leftarrow> db_unparse_prep prep;
         i \<leftarrow> unparse_arg_spec iobj;
         gives (VList [VStr d, VStr p, VStr i]) m } } }"

definition bf_set_verb_args :: "'w outside \<Rightarrow> 'w bf" where
  "bf_set_verb_args x arglist next vdata progr m = do {
     oid \<leftarrow> arg_obj arglist 1;
     desc \<leftarrow> arg arglist 2;
     args \<leftarrow> arg arglist 3;
     let db = vm_db m;
     if validate_verb_descriptor desc \<noteq> E_NONE then fails (validate_verb_descriptor desc) m
     else if \<not> valid db oid then fails E_INVARG m
     else do {
       spec \<leftarrow> validate_verb_args (x_prep_table x) args;
       (case spec of
          Inl e \<Rightarrow> fails e m
        | Inr (dobj, prep, iobj) \<Rightarrow> do {
            h \<leftarrow> find_described_verb x db oid desc;
            if h = None then fails E_VERBNF m
            else do {
              allowed \<leftarrow> db_verb_allows db h progr VF_WRITE;
              if \<not> allowed then fails E_PERM m
              else Option.bind (db_set_verb_arg_specs h dobj prep iobj db) (\<lambda>db. no_value (m\<lparr>vm_db := db\<rparr>)) } }) } }"

text \<open>The texts of a program, appended one by one.\<close>

fun list_lines :: "var list \<Rightarrow> string list \<Rightarrow> var list option" where
  "list_lines r [] = Some r"
| "list_lines r (l # ls) = Option.bind (listappend r (VStr l)) (\<lambda>r. list_lines r ls)"

definition bf_verb_code :: "'w outside \<Rightarrow> 'w bf" where
  "bf_verb_code x arglist next vdata progr m = do {
     oid \<leftarrow> arg_obj arglist 1;
     desc \<leftarrow> arg arglist 2;
     parens \<leftarrow> (if nargs arglist \<ge> 3 then map_option is_true (arg arglist 3) else Some False);
     indent \<leftarrow> (if nargs arglist < 4 then Some True else map_option is_true (arg arglist 4));
     let db = vm_db m;
     (e, h) \<leftarrow> described_verb x db oid desc;
     if e \<noteq> E_NONE then fails e m
     else do {
       allowed \<leftarrow> db_verb_allows db h progr VF_READ;
       if \<not> allowed then fails E_PERM m
       else do {
         p \<leftarrow> db_verb_program (s_null_program (x_services x)) db h;
         code \<leftarrow> list_lines [] (x_unparse_program x p parens indent);
         gives (VList code) m } } }"

definition bf_set_verb_code :: "'w outside \<Rightarrow> 'w bf" where
  "bf_set_verb_code x arglist next vdata progr m = do {
     oid \<leftarrow> arg_obj arglist 1;
     desc \<leftarrow> arg arglist 2;
     code \<leftarrow> arg arglist 3;
     texts \<leftarrow> (case code of VList vs \<Rightarrow> Some vs | _ \<Rightarrow> None);
     let db = vm_db m;
     if \<exists>v \<in> set texts. type_of v \<noteq> TYPE_STR then fails E_TYPE m
     else do {
       (e, h) \<leftarrow> described_verb x db oid desc;
       if e \<noteq> E_NONE then fails e m
       else do {
         allowed \<leftarrow> (if is_programmer db progr then db_verb_allows db h progr VF_WRITE else Some False);
         if \<not> allowed then fails E_PERM m
         else (case x_parse_list x texts of
            (None, errors) \<Rightarrow> gives errors m
          | (Some p, errors) \<Rightarrow>
              if task_timed_out m then gives errors m
              else Option.bind (db_set_verb_program h (Some p) db) (\<lambda>db. gives errors (m\<lparr>vm_db := db\<rparr>))) } } }"

definition bf_eval :: "'w outside \<Rightarrow> 'w bf" where
  "bf_eval x arglist next vdata progr m =
     (if next = 1 then
        (if \<not> is_programmer (vm_db m) progr then fails E_PERM m
         else (case arglist of
            VList texts \<Rightarrow>
              (case x_parse_list x texts of
                 (Some p, errors) \<Rightarrow> do {
                   (ok, m) \<leftarrow> setup_activ_for_eval p m;
                   if ok then Some (P_CALL 2 None, m) else fails E_MAXREC m }
               | (None, errors) \<Rightarrow> gives (VList [VInt 0, errors]) m)
          | _ \<Rightarrow> None))
      else gives (VList [VInt 1, arglist]) m)"

definition verb_functions :: "'w outside \<Rightarrow> 'w bf_reg list" where
  "verb_functions x =
     [(''verbs'', 1, 1, bf_verbs, [TYPE_OBJ]),
      (''verb_info'', 2, 2, bf_verb_info x, [TYPE_OBJ, TYPE_ANY]),
      (''set_verb_info'', 3, 3, bf_set_verb_info x, [TYPE_OBJ, TYPE_ANY, TYPE_LIST]),
      (''verb_args'', 2, 2, bf_verb_args x, [TYPE_OBJ, TYPE_ANY]),
      (''set_verb_args'', 3, 3, bf_set_verb_args x, [TYPE_OBJ, TYPE_ANY, TYPE_LIST]),
      (''add_verb'', 3, 3, bf_add_verb x, [TYPE_OBJ, TYPE_LIST, TYPE_LIST]),
      (''delete_verb'', 2, 2, bf_delete_verb x, [TYPE_OBJ, TYPE_ANY]),
      (''verb_code'', 2, 4, bf_verb_code x, [TYPE_OBJ, TYPE_ANY, TYPE_ANY, TYPE_ANY]),
      (''set_verb_code'', 3, 3, bf_set_verb_code x, [TYPE_OBJ, TYPE_ANY, TYPE_LIST]),
      (''eval'', 1, 1, bf_eval x, [TYPE_STR])]"

end
