(* ===== verification/BifSafety.thy ===== *)
theory BifSafety
  imports PropVerbBifs
begin

text \<open>
  What a call of a built-in function must leave behind: a database that satisfies its invariant, whose verbs
  can be printed and run, a stack of activations that a verb can be called from, and no more power than
  before, unless the caller is a wizard.
\<close>

section \<open>Power\<close>

text \<open>The flags that only a wizard may set.\<close>

definition powers :: "'p db \<Rightarrow> (db_object_flag \<times> objid) set" where
  "powers db = {(f, y). f \<in> {FLAG_USER, FLAG_PROGRAMMER, FLAG_WIZARD} \<and> valid_with f db y}"

definition no_gain :: "objid \<Rightarrow> 'p db \<Rightarrow> 'p db \<Rightarrow> bool" where
  "no_gain progr db db' \<longleftrightarrow> is_wizard db progr \<or> powers db' \<subseteq> powers db"

lemma no_gain_refl [simp]: "no_gain progr db db"
  by (simp add: no_gain_def)

lemma powers_wizard: "powers db' \<subseteq> powers db \<Longrightarrow> is_wizard db' progr \<Longrightarrow> is_wizard db progr"
  by (auto simp: powers_def is_wizard_def)

lemma no_gain_trans: "no_gain progr a b \<Longrightarrow> no_gain progr b c \<Longrightarrow> no_gain progr a c"
  using powers_wizard [of b a progr] by (auto simp: no_gain_def)

section \<open>Verbs that can be run and printed\<close>

definition program_ok :: "program \<Rightarrow> bool" where
  "program_ok p \<longleftrightarrow> SLOT_IOBJSTR < length (var_names p)"

definition verb_ok :: "program verbdef \<Rightarrow> bool" where
  "verb_ok v \<longleftrightarrow> unparse_arg_spec (verb_dobj v) \<noteq> None \<and> unparse_arg_spec (verb_iobj v) \<noteq> None
     \<and> db_unparse_prep (v_prep v) \<noteq> None \<and> (\<forall>p. v_program v = Some p \<longrightarrow> program_ok p)"

definition verbs_ok :: "program db \<Rightarrow> bool" where
  "verbs_ok db \<longleftrightarrow> (\<forall>y ob. dbpriv_find_object db y = Some ob \<longrightarrow> (\<forall>v \<in> set (o_verbdefs ob). verb_ok v))"

definition sound :: "program db \<Rightarrow> bool" where
  "sound db \<longleftrightarrow> db_ok db \<and> verbs_ok db"

text \<open>What power and verbs depend on; a change that at most adds objects without either.\<close>

definition core :: "'p object \<Rightarrow> int32 \<times> 'p verbdef list" where
  "core ob = (o_flags ob, o_verbdefs ob)"

definition core_le :: "'p db \<Rightarrow> 'p db \<Rightarrow> bool" where
  "core_le db db' \<longleftrightarrow> (\<forall>y ob'. dbpriv_find_object db' y = Some ob' \<longrightarrow>
     (\<exists>ob. dbpriv_find_object db y = Some ob \<and> core ob' = core ob) \<or> core ob' = (0, []))"

lemma core_le_trans:
  assumes "core_le a b" "core_le b c"
  shows "core_le a c"
  unfolding core_le_def
proof (intro allI impI)
  fix y ob' assume "dbpriv_find_object c y = Some ob'"
  then consider ob where "dbpriv_find_object b y = Some ob" "core ob' = core ob" | "core ob' = (0, [])"
    using assms(2) by (auto simp: core_le_def)
  then show "(\<exists>ob. dbpriv_find_object a y = Some ob \<and> core ob' = core ob) \<or> core ob' = (0, [])"
    using assms(1) by cases (auto simp: core_le_def)
qed

lemma core_le_same:
  assumes "same_but g db db'" "\<And>a b. g a = g b \<Longrightarrow> core a = core b"
  shows "core_le db db'"
  unfolding core_le_def
proof (intro allI impI disjI1)
  fix y ob' assume "dbpriv_find_object db' y = Some ob'"
  then obtain ob where "dbpriv_find_object db y = Some ob" "g ob' = g ob" by (rule same_but_back [OF assms(1)])
  then show "\<exists>ob. dbpriv_find_object db y = Some ob \<and> core ob' = core ob" using assms(2) by blast
qed

lemma core_le_find: "(\<And>y. dbpriv_find_object db' y = dbpriv_find_object db y) \<Longrightarrow> core_le db db'"
  by (simp add: core_le_def)

lemma core_le_refl [simp]: "core_le db db"
  by (rule core_le_find) simp

lemma core_le_upd: "dbpriv_find_object db x = Some ob \<Longrightarrow> core ob' = core ob \<Longrightarrow> core_le db (upd x ob' db)"
  by (simp add: core_le_def)

lemma core_le_powers: "core_le db db' \<Longrightarrow> powers db' \<subseteq> powers db"
proof
  fix z assume l: "core_le db db'" and "z \<in> powers db'"
  then obtain f y ob' where z: "z = (f, y)" "f \<in> {FLAG_USER, FLAG_PROGRAMMER, FLAG_WIZARD}"
      "dbpriv_find_object db' y = Some ob'" "has_flag ob' f"
    by (auto simp: powers_def valid_with_def split: option.splits)
  moreover have "core ob' \<noteq> (0, [])" using z(4) by (auto simp: core_def has_flag_def)
  ultimately obtain ob where "dbpriv_find_object db y = Some ob" "core ob' = core ob"
    using l by (auto simp: core_le_def)
  then show "z \<in> powers db" using z by (simp add: powers_def valid_with_def core_def has_flag_def)
qed

lemma core_le_no_gain: "core_le db db' \<Longrightarrow> no_gain progr db db'"
  by (simp add: no_gain_def core_le_powers)

lemma core_le_verbs: "core_le db db' \<Longrightarrow> verbs_ok db \<Longrightarrow> verbs_ok db'"
  unfolding core_le_def verbs_ok_def by (metis core_def empty_iff list.set(1) prod.inject)

lemma core_le_sound: "core_le db db' \<Longrightarrow> sound db \<Longrightarrow> db_ok db' \<Longrightarrow> sound db'"
  by (simp add: sound_def core_le_verbs)

section \<open>Machines and answers\<close>

definition machine_ok :: "('d, 'w) vm \<Rightarrow> bool" where
  "machine_ok m \<longleftrightarrow> sound (vm_db m) \<and> activ_stack m \<noteq> []
     \<and> (\<forall>a \<in> set (activ_stack m). SLOT_IOBJSTR < length (ac_rt_env a))"

definition outside_ok :: "'w outside \<Rightarrow> bool" where
  "outside_ok x \<longleftrightarrow> program_ok (s_null_program (x_services x))
     \<and> (\<forall>texts p e. x_parse_list x texts = (Some p, e) \<longrightarrow> program_ok p)
     \<and> length (x_prep_table x) \<le> NPREPS"

text \<open>A change that leaves the stack of activations, and one that puts an activation on it.\<close>

definition after :: "objid \<Rightarrow> ('d, 'w) vm \<Rightarrow> ('d, 'w) vm \<Rightarrow> bool" where
  "after progr m m' \<longleftrightarrow> machine_ok m' \<and> no_gain progr (vm_db m) (vm_db m') \<and> activ_stack m' = activ_stack m"

definition entered :: "objid \<Rightarrow> ('d, 'w) vm \<Rightarrow> ('d, 'w) vm \<Rightarrow> bool" where
  "entered progr m m' \<longleftrightarrow> machine_ok m' \<and> no_gain progr (vm_db m) (vm_db m')
     \<and> (\<exists>a. activ_stack m' = a # activ_stack m)"

text \<open>The answer of a built-in function: it asks for a call exactly when it has put an activation on the stack,
  and then leaves what it can be resumed with.\<close>

definition answer_ok ::
  "(nat \<Rightarrow> bf_data option \<Rightarrow> bool) \<Rightarrow> objid \<Rightarrow> (bf_data, 'w) vm \<Rightarrow> (bf_data bi_package \<times> (bf_data, 'w) vm) option \<Rightarrow> bool" where
  "answer_ok R progr m r \<longleftrightarrow> (\<exists>p m'. r = Some (p, m') \<and>
     (case p of
        P_RETURN v \<Rightarrow> after progr m m'
      | P_RAISE code msg v \<Rightarrow> after progr m m'
      | P_CALL next d \<Rightarrow> entered progr m m' \<and> R next d
      | _ \<Rightarrow> False))"

lemma after_refl: "machine_ok m \<Longrightarrow> after progr m m"
  by (simp add: after_def)

lemma after_trans: "after progr a b \<Longrightarrow> after progr b c \<Longrightarrow> after progr a c"
  by (auto simp: after_def intro: no_gain_trans)

lemma after_entered: "after progr a b \<Longrightarrow> entered progr b c \<Longrightarrow> entered progr a c"
  by (auto simp: after_def entered_def intro: no_gain_trans)

lemma answer_after: "after progr m m' \<Longrightarrow> answer_ok R progr m' r \<Longrightarrow> answer_ok R progr m r"
  unfolding answer_ok_def by (fastforce intro: after_trans after_entered split: bi_package.splits)

lemma answer_intros:
  "after progr m m' \<Longrightarrow> answer_ok R progr m (fails e m')"
  "after progr m m' \<Longrightarrow> answer_ok R progr m (gives v m')"
  "after progr m m' \<Longrightarrow> answer_ok R progr m (no_value m')"
  "entered progr m m' \<Longrightarrow> R next (Some d) \<Longrightarrow> answer_ok R progr m (calls next d m')"
  by (simp_all add: answer_ok_def fails_def gives_def no_value_def calls_def)

lemma after_db:
  assumes "machine_ok m" "sound db" "no_gain progr (vm_db m) db"
  shows "after progr m (m\<lparr>vm_db := db\<rparr>)"
  using assms by (simp add: after_def machine_ok_def)

lemma machine_db: "machine_ok m \<Longrightarrow> db_ok (vm_db m)"
  by (simp add: machine_ok_def sound_def)

lemma after_core:
  assumes "machine_ok m" "core_le (vm_db m) db" "db_ok db"
  shows "after progr m (m\<lparr>vm_db := db\<rparr>)"
  using assms core_le_sound [OF assms(2) _ assms(3)] core_le_no_gain [OF assms(2)]
  by (intro after_db) (simp_all add: machine_ok_def)

section \<open>Calling a verb\<close>

lemma position_Some: "position P xs = Some i \<Longrightarrow> i < length xs"
  by (induction xs arbitrary: i) (auto split: if_splits)

lemma find_verb_in_Some:
  "find_verb_in f obs = Some h \<Longrightarrow> \<exists>ob \<in> set obs. h_definer h = o_id ob \<and> f ob = Some (h_verbdef h)"
  by (induction f obs rule: find_verb_in.induct) (auto split: option.splits)

lemma handle_verb_of:
  assumes "dbpriv_find_object db x = Some ob" "i < length (o_verbdefs ob)"
  shows "handle_verb db (Some \<lparr>h_definer = x, h_verbdef = i\<rparr>) = Some (o_verbdefs ob ! i)"
  using assms by (simp add: handle_verb_def)

lemma handle_verb_ok: "verbs_ok db \<Longrightarrow> handle_verb db h = Some v \<Longrightarrow> verb_ok v"
  by (auto simp: handle_verb_def verbs_ok_def bind_eq_Some_conv split: if_splits)

lemma lookup_handle:
  assumes "db_ok db" "uncached_lookup db x verb = Some h"
  obtains v where "handle_verb db (Some h) = Some v"
proof -
  obtain obs ob where "ancestry db x = Some obs" "ob \<in> set obs" "h_definer h = o_id ob"
      "find_verbdef_by_name ob verb True = Some (h_verbdef h)"
    using assms(2) find_verb_in_Some by (fastforce simp: uncached_lookup_def callable_verb_def split: option.splits)
  moreover from this obtain y where "dbpriv_find_object db y = Some ob"
    unfolding ancestry_def using up_chain_find [of db _ x obs ob] by blast
  ultimately have "dbpriv_find_object db (h_definer h) = Some ob" "h_verbdef h < length (o_verbdefs ob)"
    using db_okD(6) [OF assms(1)] position_Some by (auto simp: find_verbdef_by_name_def)
  then show thesis using that by (simp add: handle_verb_def)
qed

lemma verb_env_ok:
  assumes "program_ok p" "SLOT_IOBJSTR < length (ac_rt_env a)"
  shows "\<exists>env player. verb_env db a p this vname args = Some env \<and> env_player env = Some player
    \<and> length env = length (var_names p)"
proof -
  note s = assms [unfolded program_ok_def slot_defs]
  let ?n = "length (var_names p)" and ?from = "ac_rt_env a"
  let ?k = "fill_in_rt_consts (pr_version p) (new_rt_env ?n)"
  let ?e = "?k[SLOT_THIS := VObj this, SLOT_CALLER := VObj (ac_self a), SLOT_ARGSTR := ?from ! SLOT_ARGSTR,
     SLOT_DOBJ := ?from ! SLOT_DOBJ, SLOT_DOBJSTR := ?from ! SLOT_DOBJSTR,
     SLOT_PREPSTR := ?from ! SLOT_PREPSTR, SLOT_IOBJ := ?from ! SLOT_IOBJ, SLOT_IOBJSTR := ?from ! SLOT_IOBJSTR]"
  define q where "q = (if is_wizard db (ac_progr a) \<and> type_of (?from ! SLOT_PLAYER) = TYPE_OBJ
     then ?from ! SLOT_PLAYER else VObj (ac_player a))"
  have q: "\<exists>pl. q = VObj pl" by (cases "?from ! SLOT_PLAYER") (simp_all add: q_def)
  let ?env = "?e[SLOT_PLAYER := q, SLOT_VERB := VStr vname, SLOT_ARGS := args]"
  have "verb_env db a p this vname args = Some ?env"
    using s by (simp add: verb_env_def copy_slot_def read_env_def Let_def set_rt_env_var_def set_rt_env_obj_def
        slot_defs q_def)
  moreover have l: "length ?env = ?n" by simp
  moreover have "?env ! SLOT_PLAYER = q"
    using s by (simp add: nth_list_update slot_defs)
  ultimately show ?thesis using q s by (auto simp: env_player_def slot_defs)
qed

text \<open>A verb call changes nothing in the database but its cache, and either enters the verb or says why not.\<close>

lemma call_verb_ok:
  assumes m: "machine_ok m" and x: "outside_ok x" and s: "cstring vname"
  obtains e m' c where "call_verb x oid vname args m = Some (e, m')" "vm_db m' = (vm_db m)\<lparr>cache := c\<rparr>"
    "e = E_NONE \<Longrightarrow> valid (vm_db m) oid \<and> entered progr m m'" "e \<noteq> E_NONE \<Longrightarrow> after progr m m'"
    "e \<in> {E_NONE, E_INVIND, E_VERBNF, E_MAXREC}"
proof -
  obtain a as where a: "activ_stack m = a # as" using m by (cases "activ_stack m") (simp_all add: machine_ok_def)
  then have r: "RUN_ACTIV m = Some a" by (simp add: RUN_ACTIV_def)
  have self: "(vm_db m)\<lparr>cache := cache (vm_db m)\<rparr> = vm_db m" by simp
  show thesis
  proof (cases "valid (vm_db m) oid")
    case False
    then show thesis
      using that [of E_INVIND m "cache (vm_db m)"] m by (simp add: call_verb_def call_verb2_def r after_refl)
  next
    case True
    let ?db = "vm_db m" and ?h = "uncached_lookup (vm_db m) oid vname"
    obtain c where c: "db_find_callable_verb oid vname ?db = Some (?h, ?db\<lparr>cache := c\<rparr>)" "db_ok (?db\<lparr>cache := c\<rparr>)"
      using db_lookup_keeps_ok [OF machine_db [OF m] True s] by blast
    let ?m = "m\<lparr>vm_db := ?db\<lparr>cache := c\<rparr>\<rparr>"
    have le: "core_le ?db (?db\<lparr>cache := c\<rparr>)" by (rule core_le_find) simp
    have af: "after progr m ?m" by (rule after_core [OF m le c(2)])
    then have mo: "machine_ok ?m" by (simp add: after_def)
    note call = call_verb_def call_verb2_def r True c(1) Let_def
    show thesis
    proof (cases ?h)
      case None
      then show thesis using that [of E_VERBNF ?m c] af by (simp add: call)
    next
      case (Some h)
      show thesis
      proof (cases "length (activ_stack m) < max_stack_size m")
        case False
        then show thesis using that [of E_MAXREC ?m c] af Some by (simp add: call)
      next
        case deep: True
        obtain v where v: "handle_verb ?db (Some h) = Some v" by (rule lookup_handle [OF machine_db [OF m] Some])
        have hv: "handle_verb (?db\<lparr>cache := c\<rparr>) (Some h) = Some v" using v by (simp add: handle_verb_def)
        define p where "p = (case v_program v of None \<Rightarrow> s_null_program (x_services x) | Some p \<Rightarrow> p)"
        have "verb_ok v" using handle_verb_ok [OF _ v] m by (simp add: machine_ok_def sound_def)
        then have p: "program_ok p" using x by (auto simp: p_def verb_ok_def outside_ok_def split: option.splits)
        have "SLOT_IOBJSTR < length (ac_rt_env a)" using m a by (simp add: machine_ok_def)
        from verb_env_ok [OF p this] obtain env player
          where env: "verb_env (?db\<lparr>cache := c\<rparr>) a p oid vname args = Some env" "env_player env = Some player"
            "length env = length (var_names p)"
          by blast
        let ?a = "new_activation p (main_vector p) env oid player (v_owner v) (h_definer h) vname (v_name v)
           ((perms_int v AND PERMMASK) AND VF_DEBUG \<noteq> 0)"
        let ?m' = "?m\<lparr>activ_stack := ?a # activ_stack m\<rparr>"
        have "call_verb x oid vname args m = Some (E_NONE, ?m')"
          using deep Some hv env by (simp add: call p_def db_verb_program_def db_verb_owner_def db_verb_definer_def
              db_verb_names_def db_verb_flags_def)
        moreover have "entered progr m ?m'"
          using af mo p env(3) by (simp add: entered_def after_def machine_ok_def new_activation_def program_ok_def)
        ultimately show thesis using that [of E_NONE ?m' c] True by simp
      qed
    qed
  qed
qed

section \<open>Handles of properties\<close>

text \<open>The three results of a lookup: nothing, a built-in property, or a slot of the object.\<close>

lemma find_built_in_Some: "find_built_in s hash t = Some p \<Longrightarrow> p \<in> snd ` set t"
  by (induction s hash t rule: find_built_in.induct) (auto split: if_splits)

lemma find_property_cases:
  assumes ok: "db_ok db" and v: "dbpriv_find_object db x = Some ob" and s: "cstring s"
  obtains (none) h where "db_find_property db x s False = Some (h, None)" "ph_ptr h = PNull" "ph_built_in h = BP_NONE"
      "\<forall>d \<in> snd ` set (line_defs db x). name_key d \<noteq> map cmap s"
    | (built_in) h where "db_find_property db x s False = Some (h, None)" "ph_ptr h \<noteq> PNull" "ph_built_in h \<noteq> BP_NONE"
      "built_in_name s"
    | (slot) h n where "db_find_property db x s False = Some (h, None)" "ph_ptr h = PSlot x n" "ph_built_in h = BP_NONE"
      "n < length (line_defs db x)" "n < length (o_propval ob)" "ph_definer h = fst (line_defs db x ! n)"
proof (cases "find_built_in s (str_hash s) ptable")
  case (Some p)
  then have "p \<noteq> BP_NONE" using find_built_in_Some [OF Some] by (auto simp: ptable_def)
  then show thesis
    using Some built_in [of "\<lparr>ph_built_in = p, ph_definer = NOTHING, ph_ptr = PObjid x\<rparr>"]
    by (simp add: db_find_property_def built_in_name_def)
next
  case None
  note D = db_okD(2) [OF ok]
  have vx: "valid db x" using v by (simp add: valid_iff)
  obtain obs where obs: "ancestry db x = Some obs"
      "find_up s (str_hash s) 0 obs = map_option (\<lambda>k. (fst (line_defs db x ! k), k))
         (propdef_index s (str_hash s) (map snd (line_defs db x)))"
    by (rule find_up_ancestry [OF D vx])
  show thesis
  proof (cases "propdef_index s (str_hash s) (map snd (line_defs db x))")
    case np: None
    have "propdef_is s (str_hash s) d \<longleftrightarrow> name_key d = map cmap s" if "d \<in> snd ` set (line_defs db x)" for d
      using propdef_is_key s that defs_okD [OF props_okD(3) [OF D]] by (auto simp: line_defs_def set_defs_of)
    then have "\<forall>d \<in> snd ` set (line_defs db x). name_key d \<noteq> map cmap s" using np by (auto simp: propdef_index_None)
    then show thesis
      using np obs None none [of "\<lparr>ph_built_in = BP_NONE, ph_definer = NOTHING, ph_ptr = PNull\<rparr>"]
      by (simp add: db_find_property_def)
  next
    case (Some n)
    then have n: "n < length (line_defs db x)" using propdef_index_Some [OF Some] by simp
    then show thesis
      using Some obs None slot_map_nth(2) [OF D v n]
        slot [of "\<lparr>ph_built_in = BP_NONE, ph_definer = fst (line_defs db x ! n), ph_ptr = PSlot x n\<rparr>" n]
      by (simp add: db_find_property_def)
  qed
qed

lemma slot_core: "no_slots a = no_slots b \<Longrightarrow> core a = core b"
proof -
  have "core ob = core (no_slots ob)" for ob :: "'a object" by (simp add: core_def)
  then show "no_slots a = no_slots b \<Longrightarrow> core a = core b" by metis
qed

lemma write_slot_total:
  assumes "dbpriv_find_object db x = Some ob" "n < length (o_propval ob)" "ph_ptr h = PSlot x n"
  obtains db' where "write_slot f h db = Some db'" "same_but no_slots db db'"
    "\<And>y. map_option (\<lambda>ob. length (o_propval ob)) (dbpriv_find_object db' y)
       = map_option (\<lambda>ob. length (o_propval ob)) (dbpriv_find_object db y)"
proof -
  let ?ob = "ob\<lparr>o_propval := (o_propval ob)[n := f (o_propval ob ! n)]\<rparr>"
  have "write_slot f h db = Some (upd x ?ob db)"
    using assms by (simp add: write_slot_def update_object_upd)
  moreover have "same_but no_slots db (upd x ?ob db)" by (rule same_but_upd [OF assms(1)]) simp
  moreover have "map_option (\<lambda>ob. length (o_propval ob)) (dbpriv_find_object (upd x ?ob db) y)
       = map_option (\<lambda>ob. length (o_propval ob)) (dbpriv_find_object db y)" for y
    using assms(1) by simp
  ultimately show thesis by (rule that)
qed

section \<open>Quota\<close>

lemma quota_not_built_in: "\<not> built_in_name quota_name" "cstring quota_name"
  using built_in_name_length [of quota_name] by (auto simp: quota_name_def)

lemma find_quota_ok:
  assumes ok: "db_ok db"
  obtains (none) "find_quota db who = Some None"
    | (some) h k ob n where "find_quota db who = Some (Some (h, k))" "dbpriv_find_object db who = Some ob"
      "n < length (o_propval ob)" "ph_ptr h = PSlot who n" "ph_built_in h = BP_NONE"
proof (cases "valid db who")
  case False
  then show thesis using none by (simp add: find_quota_def)
next
  case True
  then obtain ob where ob: "dbpriv_find_object db who = Some ob" by (auto simp: valid_iff)
  obtain h v where h: "db_find_property db who quota_name True = Some (h, v)" "ph_built_in h = BP_NONE"
      "ph_ptr h = PNull \<or> read_slot db h \<noteq> None"
  proof -
    obtain h v where h: "db_find_property db who quota_name True = Some (h, v)" "ph_built_in h = BP_NONE"
      and r: "if \<exists>k \<in> set (line_defs db who). name_key (snd k) = map cmap quota_name
         then \<exists>k \<in> set (line_defs db who). name_key (snd k) = map cmap quota_name \<and> ph_definer h = fst k
              \<and> read_slot db h = slot_map db who k \<and> v = nearest_value db k (line db who) \<and> v \<noteq> None \<and> v \<noteq> Some VClear
         else ph_ptr h = PNull \<and> v = None"
      using db_find_property_ok [OF db_okD(2) [OF ok] True quota_not_built_in(2,1)] by blast
    have "slot_map db who k \<noteq> None" if k: "k \<in> set (line_defs db who)" for k
    proof -
      obtain n where "n < length (line_defs db who)" "k = line_defs db who ! n"
        using k by (auto simp: in_set_conv_nth)
      then show ?thesis using slot_map_nth(1) [OF db_okD(2) [OF ok] ob] by simp
    qed
    then show thesis using that [OF h] r by (auto split: if_splits)
  qed
  have nb: "find_built_in quota_name (str_hash quota_name) ptable = None"
    using quota_not_built_in by (simp add: built_in_name_def)
  have p: "ph_ptr h = PNull \<or> (\<exists>n. ph_ptr h = PSlot who n)"
    using h(1) nb by (auto simp: db_find_property_def Let_def bind_eq_Some_conv split: option.splits prod.splits)
  show thesis
  proof (cases "\<exists>k. v = Some (VInt k) \<and> ph_ptr h \<noteq> PNull")
    case True
    then obtain k where k: "v = Some (VInt k)" "ph_ptr h \<noteq> PNull" by blast
    then obtain n where n: "ph_ptr h = PSlot who n" using p by blast
    then have "n < length (o_propval ob)"
      using h(3) ob by (auto simp: read_slot_def split: if_splits)
    then show thesis using some [OF _ ob _ n h(2), of k] True h(1) \<open>valid db who\<close> k n by (simp add: find_quota_def)
  next
    case False
    then show thesis
      using none h(1) \<open>valid db who\<close> by (auto simp: find_quota_def split: option.splits var.splits)
  qed
qed

lemma incr_quota_ok:
  assumes ok: "db_ok db"
  obtains db' where "incr_quota who db = Some db'" "db_ok db'" "same_but no_slots db db'"
proof (rule find_quota_ok [OF ok, of who])
  assume "find_quota db who = Some None"
  then show thesis using that [of db] ok by (simp add: incr_quota_def)
next
  fix h k ob n assume q: "find_quota db who = Some (Some (h, k))" "dbpriv_find_object db who = Some ob"
    "n < length (o_propval ob)" "ph_ptr h = PSlot who n" "ph_built_in h = BP_NONE"
  obtain db' where w: "write_slot (\<lambda>pv. pv\<lparr>p_var := VInt (k + 1)\<rparr>) h db = Some db'" "same_but no_slots db db'"
    by (rule write_slot_total [OF q(2-4)])
  then have r: "db_set_property_value h (VInt (k + 1)) db = Some db'" using q(5) by (simp add: db_set_property_value_def)
  show thesis
    using that [OF _ db_set_property_value_ok [OF ok r] w(2)] q(1) r by (simp add: incr_quota_def)
qed

lemma decr_quota_ok:
  assumes ok: "db_ok db"
  obtains b db' where "decr_quota who db = Some (b, db')" "db_ok db'" "same_but no_slots db db'"
proof (rule find_quota_ok [OF ok, of who])
  assume "find_quota db who = Some None"
  then show thesis using that [of True db] ok by (simp add: decr_quota_def)
next
  fix h k ob n assume q: "find_quota db who = Some (Some (h, k))" "dbpriv_find_object db who = Some ob"
    "n < length (o_propval ob)" "ph_ptr h = PSlot who n" "ph_built_in h = BP_NONE"
  obtain db' where w: "write_slot (\<lambda>pv. pv\<lparr>p_var := VInt (k - 1)\<rparr>) h db = Some db'" "same_but no_slots db db'"
    by (rule write_slot_total [OF q(2-4)])
  then have r: "db_set_property_value h (VInt (k - 1)) db = Some db'" using q(5) by (simp add: db_set_property_value_def)
  show thesis
    using that [of False db] that [of True db', OF _ db_set_property_value_ok [OF ok r] w(2)] q(1) r ok
    by (cases "sint k \<le> 0") (simp_all add: decr_quota_def)
qed

end
