(* ===== verification/ObjectSafety.thy ===== *)
theory ObjectSafety
  imports BifSafety
begin

text \<open>
  The functions of objects.c keep what BifSafety demands, and come back: the climbs end because the
  hierarchies are rooted, the loops of \<^verbatim>\<open>recycle\<close> because every round takes one object out, and the children of
  a recycled object can always move to its parent.
\<close>

section \<open>Walking the hierarchies\<close>

lemma climbs_to_chain:
  "chain (field up db) y ys \<Longrightarrow> length ys \<le> n \<Longrightarrow> climbs_to db up what n y = Some (what \<in> set ys)"
proof (induction ys arbitrary: y n)
  case Nil
  then show ?case by (simp add: climbs_to.simps [of db up what n])
next
  case (Cons z zs)
  then obtain k ob where "n = Suc k" "y = z" "y \<noteq> NOTHING" "dbpriv_find_object db y = Some ob"
      "chain (field up db) (up ob) zs" "length zs \<le> k"
    by (cases n) (auto simp: field_Some)
  then show ?case using Cons.IH [of "up ob" k] by (subst climbs_to.simps) auto
qed

lemma lies_inside_chain:
  "chain (field up db) y ys \<Longrightarrow> lies_inside db up what y = Some (what \<in> set ys)"
  by (simp add: lies_inside_def climbs_to_chain chain_length)

lemma forestE:
  assumes "db_ok db" "F = parent_fields \<or> F = location_fields"
  obtains ks where "hierarchy F db ks" "rooted F db"
  using assms db_okD(1) [OF assms(1)] by (auto simp: db_links_def forest_def)

lemma place_chain:
  assumes "db_ok db" "y = NOTHING \<or> valid db y"
  obtains ys where "chain (field o_location db) y ys"
proof -
  have "rooted location_fields db" using forestE [OF assms(1)] by blast
  then show thesis using that assms(2) that [of "[]"] by (auto simp: rooted_def)
qed

lemma parent_chain: "db_ok db \<Longrightarrow> y = NOTHING \<or> valid db y \<Longrightarrow> chain (field o_parent db) y (line db y)"
  by (rule line_chain_up) (simp_all add: props_okD db_okD)

lemma for_all_first: "for_all_members first_proc r cs = (cs \<noteq> [], case cs of [] \<Rightarrow> r | c # _ \<Rightarrow> c)"
  by (cases cs) (simp_all add: first_proc_def)

lemma get_first_members:
  "members location_fields db y = Some cs \<Longrightarrow> get_first db y db_for_all_contents = Some (case cs of [] \<Rightarrow> NOTHING | c # _ \<Rightarrow> c)"
  "members parent_fields db y = Some cs \<Longrightarrow> get_first db y db_for_all_children = Some (case cs of [] \<Rightarrow> NOTHING | c # _ \<Rightarrow> c)"
  by (simp_all add: get_first_def db_for_all_contents_def db_for_all_children_def for_all_first split: list.split)

lemma members_cache [simp]: "members F (db\<lparr>cache := c\<rparr>) y = members F db y"
  by (simp add: members_def walk_db_def)

lemma valid_cache [simp]: "valid (db\<lparr>cache := c\<rparr>) y = valid db y"
  by (simp add: valid_def)

lemma location_cache [simp]: "db_object_location (db\<lparr>cache := c\<rparr>) y = db_object_location db y"
  by (simp add: db_object_location_def)

lemma members_ok:
  assumes "db_ok db" "valid db y" "F = parent_fields \<or> F = location_fields"
  obtains cs where "members F db y = Some cs" "distinct cs" "length cs \<le> nat (num_objects db)"
    "\<And>c. c \<in> set cs \<Longrightarrow> valid db c" "\<And>c. c \<in> set cs \<longleftrightarrow> field (get_up F) db c = Some y"
proof -
  obtain ks where h: "hierarchy F db ks" using forestE [OF assms(1,3)] by blast
  obtain ob where ob: "dbpriv_find_object db y = Some ob" using assms(2) by (auto simp: valid_iff)
  then have c: "chain (field (get_next F) db) (get_head F ob) (ks y)"
    using h by (auto simp: hierarchy_def linked_def)
  have "\<And>c. c \<in> set (ks y) \<longleftrightarrow> field (get_up F) db c = Some y"
    using h assms(2) by (auto simp: hierarchy_def points_up_def)
  then show thesis
    using that [OF hierarchy_members [OF h assms(2)] hierarchy_distinct [OF h assms(2)] chain_length [OF c]]
      hierarchy_member_valid [OF h assms(2)] by blast
qed

lemma member_location:
  "db_ok db \<Longrightarrow> valid db y \<Longrightarrow> members location_fields db y = Some cs \<Longrightarrow> c \<in> set cs \<Longrightarrow> valid db c"
  by (rule members_ok [of db y location_fields]) auto

section \<open>Moving\<close>

lemma core_strip: "strip_all location_fields a = strip_all location_fields b \<Longrightarrow> core a = core b"
proof -
  have "core ob = core (strip_all location_fields ob)" for ob :: "'a object"
    by (simp add: core_def strip_all_def strip_links_def location_fields_def)
  then show "strip_all location_fields a = strip_all location_fields b \<Longrightarrow> core a = core b" by metis
qed

lemma change_location_ok:
  assumes m: "machine_ok m" and v: "valid (vm_db m) what" "place = NOTHING \<or> valid (vm_db m) place"
    and c: "chain (field o_location (vm_db m)) place ys" "what \<notin> set ys"
  obtains db where "db_change_location what place (vm_db m) = Some db" "after progr m (m\<lparr>vm_db := db\<rparr>)"
    "\<And>y. valid db y = valid (vm_db m) y" "db_object_location db what = Some place"
    "\<And>y. valid (vm_db m) y \<Longrightarrow> members location_fields db y =
          map_option (\<lambda>cs. remove1 what cs @ (if y = place then [what] else [])) (members location_fields (vm_db m) y)"
    "num_objects db = num_objects (vm_db m)"
proof -
  have "walk_db (vm_db m) o_location place = Some ys" using c(1) by (simp add: walk_db_chain)
  from db_change_location_keeps_ok [OF machine_db [OF m] v this c(2)] obtain db
    where db: "db_change_location what place (vm_db m) = Some db" "db_ok db"
      "same_but (strip_all location_fields) (vm_db m) db" "db_object_location db what = Some place"
      "\<forall>p. valid (vm_db m) p \<longrightarrow> members location_fields db p =
          map_option (\<lambda>cs. remove1 what cs @ (if p = place then [what] else [])) (members location_fields (vm_db m) p)"
    by blast
  have "core_le (vm_db m) db" by (rule core_le_same [OF db(3) core_strip])
  from after_core [OF m this db(2)] show thesis
    using that [OF db(1)] same_but_valid [OF db(3)] db(3,4,5) by (simp add: same_but_def)
qed

lemma move_exited_ok:
  assumes m: "machine_ok m" and x: "outside_ok x" and R: "R 4 (Some (BF_move what place))"
  shows "answer_ok R progr m (move_exited x what place m)"
proof (cases "valid (vm_db m) place \<and> valid (vm_db m) what \<and> db_object_location (vm_db m) what = Some place")
  case True
  obtain e m' c where c: "call_verb x place ''enterfunc'' (make_arglist what) m = Some (e, m')"
      "e = E_NONE \<Longrightarrow> entered progr m m'" "e \<noteq> E_NONE \<Longrightarrow> after progr m m'"
    by (rule call_verb_ok [OF m x, of "''enterfunc''" place "make_arglist what" progr]) auto
  then show ?thesis
    using True R unfolding move_exited_def by (cases "e = E_NONE") (auto intro!: answer_intros)
qed (use m in \<open>auto simp: move_exited_def intro!: answer_intros after_refl\<close>)

lemma move_accepted_ok:
  assumes m: "machine_ok m" and x: "outside_ok x"
    and R: "R 4 (Some (BF_move what place))" "R 3 (Some (BF_move what place))"
  shows "answer_ok R progr m (move_accepted x accepts what place progr m)"
proof -
  let ?db = "vm_db m"
  note af = after_refl [OF m]
  consider "\<not> is_wizard ?db progr \<and> \<not> accepts"
    | "\<not> (\<not> is_wizard ?db progr \<and> \<not> accepts)"
      "\<not> valid ?db what \<or> place \<noteq> NOTHING \<and> \<not> valid ?db place \<or> db_object_location ?db what = Some place"
    | "\<not> (\<not> is_wizard ?db progr \<and> \<not> accepts)"
      "valid ?db what" "place = NOTHING \<or> valid ?db place" "db_object_location ?db what \<noteq> Some place"
    by blast
  then show ?thesis
  proof cases
    case 3
    obtain ys where ys: "chain (field o_location ?db) place ys" by (rule place_chain [OF machine_db [OF m] 3(3)])
    note inside = lies_inside_chain [OF ys, of what]
    show ?thesis
    proof (cases "what \<in> set ys")
      case True
      then show ?thesis
        using 3 inside af unfolding move_accepted_def by (auto simp: Let_def intro!: answer_intros)
    next
      case False
      obtain old where old: "db_object_location ?db what = Some old"
        using 3(2) by (auto simp: db_object_location_def valid_iff)
      obtain db where db: "db_change_location what place ?db = Some db" "after progr m (m\<lparr>vm_db := db\<rparr>)"
        by (rule change_location_ok [OF m 3(2,3) ys False, of progr]) blast
      then have m1: "machine_ok (m\<lparr>vm_db := db\<rparr>)" by (simp add: after_def)
      obtain e m' c where c: "call_verb x old ''exitfunc'' (make_arglist what) (m\<lparr>vm_db := db\<rparr>) = Some (e, m')"
          "e = E_NONE \<Longrightarrow> entered progr (m\<lparr>vm_db := db\<rparr>) m'" "e \<noteq> E_NONE \<Longrightarrow> after progr (m\<lparr>vm_db := db\<rparr>) m'"
        by (rule call_verb_ok [OF m1 x, of "''exitfunc''" old "make_arglist what" progr]) auto
      have e: "e \<noteq> E_NONE \<Longrightarrow> after progr m m'" "e = E_NONE \<Longrightarrow> entered progr m m'"
        using c(2,3) db(2) after_trans after_entered by blast+
      have "answer_ok R progr m (move_exited x what place m')" if "e \<noteq> E_NONE"
        by (rule answer_after [OF e(1) [OF that]], rule move_exited_ok [where R = R and what = what and place = place, OF _ x R(1)])
          (use e(1) [OF that] in \<open>simp add: after_def\<close>)
      then show ?thesis
        using 3 inside False old db(1) c(1) e R
        unfolding move_accepted_def by (auto simp: Let_def intro!: answer_intros)
    qed
  qed (use af in \<open>auto simp: move_accepted_def Let_def intro!: answer_intros\<close>)
qed

definition move_resumes :: "nat \<Rightarrow> bf_data option \<Rightarrow> bool" where
  "move_resumes next d \<longleftrightarrow> next \<in> {2, 3, 4} \<and> (\<exists>what place. d = Some (BF_move what place))"

lemma controls_valid: "valid db what \<Longrightarrow> \<exists>c. controls db who what = Some c"
  by (auto simp: controls_def db_object_owner_def valid_iff)

lemma do_move_ok:
  assumes m: "machine_ok m" and x: "outside_ok x" and n: "next \<in> {1, 2, 3, 4}"
  shows "answer_ok move_resumes progr m (do_move x arglist next what place progr m)"
proof -
  have R: "move_resumes 2 (Some (BF_move what place))" "move_resumes 3 (Some (BF_move what place))"
    "move_resumes 4 (Some (BF_move what place))"
    by (simp_all add: move_resumes_def)
  note af = after_refl [OF m]
  note acc = move_accepted_ok [where R = move_resumes and what = what and place = place, OF _ x R(3,2)]
  note exi = move_exited_ok [where R = move_resumes and what = what and place = place, OF m x R(3)]
  show ?thesis
  proof (cases "next = 1")
    case False
    then show ?thesis
      using n acc [OF m] exi af
      by (auto simp: do_move_def intro!: answer_intros)
  next
    case True
    show ?thesis
    proof (cases "\<not> valid (vm_db m) what \<or> \<not> valid (vm_db m) place \<and> place \<noteq> NOTHING")
      case True
      then show ?thesis using \<open>next = 1\<close> af by (auto simp: do_move_def intro!: answer_intros)
    next
      case False
      then obtain c where c: "controls (vm_db m) progr what = Some c" using controls_valid by blast
      obtain e m' k where k: "call_verb x place ''accept'' (make_arglist what) m = Some (e, m')"
          "e = E_NONE \<Longrightarrow> entered progr m m'" "e \<noteq> E_NONE \<Longrightarrow> after progr m m'"
        by (rule call_verb_ok [OF m x, of "''accept''" place "make_arglist what" progr]) auto
      have a: "answer_ok move_resumes progr m (move_accepted x False what place progr m')" if "e \<noteq> E_NONE"
        by (rule answer_after [OF k(3) [OF that]], rule acc)
          (use k(3) [OF that] in \<open>simp add: after_def\<close>)
      show ?thesis
        using \<open>next = 1\<close> False c k a R af acc [OF m]
        by (cases c; cases "e = E_NONE") (auto simp: do_move_def intro!: answer_intros)
    qed
  qed
qed

section \<open>Simple functions\<close>

lemma become_integer_ok:
  assumes "user_value v"
  shows "become_integer v False \<noteq> None"
proof (cases v)
  case (VFloat d)
  show ?thesis
  proof (cases "dbl_lt d (dbl_of_int (- 2147483648)) \<or> dbl_lt (dbl_of_int 2147483647) d")
    case False
    then obtain n where "int_of_double d = Some n"
      using int_of_double_defined [of d] assms VFloat by auto
    with False VFloat show ?thesis by (simp add: become_integer_def)
  qed (use VFloat in \<open>simp add: become_integer_def\<close>)
qed (use assms in \<open>auto simp: become_integer_def parse_object_def parse_number_def Let_def split: list.splits option.splits prod.splits\<close>)

lemma arg_simps [simp]:
  "arg (VList vs) i = (if 1 \<le> i \<and> i \<le> length vs then Some (vs ! (i - 1)) else None)"
  "nargs (VList vs) = length vs"
  by (simp_all add: arg_def nargs_def)

lemma arg_obj_simps [simp]: "arg a i = Some (VObj y) \<Longrightarrow> arg_obj a i = Some y"
  by (simp add: arg_obj_def)

lemma fill_list_steps:
  "for_all_members (\<lambda>d c. (False, list_put d (f c))) (Some (length ys, ys @ replicate (length cs) VNone)) cs
     = (False, Some (length ys + length cs, ys @ map f cs))"
proof (induction cs arbitrary: ys)
  case (Cons c cs)
  show ?case using Cons.IH [of "ys @ [f c]"] by (simp add: list_put_def)
qed simp

lemma fill_list:
  "for_all_members (\<lambda>d c. (False, list_put d (f c))) (Some (0, replicate (length cs) VNone)) cs
     = (False, Some (length cs, map f cs))"
  using fill_list_steps [of f "[]" cs] by simp

lemma object_bytes_ok:
  assumes "db_ok db" "valid db y"
  shows "\<exists>n. db_object_bytes sz db y = Some n"
proof -
  obtain ob where ob: "dbpriv_find_object db y = Some ob" using assms(2) by (auto simp: valid_iff)
  note P = props_okD [OF db_okD(2) [OF assms(1)]]
  have "dbpriv_count_properties db y = Some (length (line_defs db y))"
    by (rule count_line_defs) (rule rooted_chain [OF P(2) assms(2)])
  then show ?thesis using ob P(4) [OF ob] by (simp add: db_object_bytes_def object_props_ok_def)
qed

lemma simple_functions_ok:
  assumes m: "machine_ok m" and x: "outside_ok x"
  shows "user_value v \<Longrightarrow> answer_ok R progr m (bf_toobj (VList [v]) 1 d progr m)"
    and "answer_ok R progr m (bf_typeof (VList [v]) 1 d progr m)"
    and "answer_ok R progr m (bf_valid (VList [VObj y]) 1 d progr m)"
    and "answer_ok R progr m (bf_max_object (VList []) 1 d progr m)"
    and "answer_ok R progr m (bf_parent (VList [VObj y]) 1 d progr m)"
    and "answer_ok R progr m (bf_players (VList []) 1 d progr m)"
    and "answer_ok R progr m (bf_is_player (VList [VObj y]) 1 d progr m)"
    and "answer_ok R progr m (bf_object_bytes x (VList [VObj y]) 1 d progr m)"
    and "answer_ok R progr m (bf_children (VList [VObj y]) 1 d progr m)"
proof -
  let ?db = "vm_db m"
  note af = after_refl [OF m] and ok = machine_db [OF m]
  show "user_value v \<Longrightarrow> answer_ok R progr m (bf_toobj (VList [v]) 1 d progr m)"
    using become_integer_ok [of v] af by (auto simp: bf_toobj_def intro!: answer_intros)
  show "answer_ok R progr m (bf_typeof (VList [v]) 1 d progr m)"
    "answer_ok R progr m (bf_valid (VList [VObj y]) 1 d progr m)"
    "answer_ok R progr m (bf_max_object (VList []) 1 d progr m)"
    "answer_ok R progr m (bf_players (VList []) 1 d progr m)"
    "answer_ok R progr m (bf_is_player (VList [VObj y]) 1 d progr m)"
    using af by (auto simp: bf_typeof_def bf_valid_def bf_max_object_def bf_players_def bf_is_player_def
        intro!: answer_intros)
  show "answer_ok R progr m (bf_parent (VList [VObj y]) 1 d progr m)"
    using af by (auto simp: bf_parent_def db_object_parent_def valid_iff intro!: answer_intros)
  show "answer_ok R progr m (bf_object_bytes x (VList [VObj y]) 1 d progr m)"
    using af object_bytes_ok [OF ok, of y "x_program_bytes x"] by (auto simp: bf_object_bytes_def intro!: answer_intros)
  show "answer_ok R progr m (bf_children (VList [VObj y]) 1 d progr m)"
  proof (cases "valid ?db y")
    case True
    obtain cs where cs: "members parent_fields ?db y = Some cs" by (rule members_ok [OF ok True, of parent_fields]) auto
    have "add_child = (\<lambda>d c. (False, list_put d (VObj c)))" by (intro ext) (simp add: add_child_def)
    then show ?thesis
      using True cs af fill_list [of VObj cs]
      by (auto simp: bf_children_def db_count_children_def db_for_all_children_def intro!: answer_intros)
  qed (use af in \<open>auto simp: bf_children_def intro!: answer_intros\<close>)
qed

lemma bf_set_player_flag_ok:
  assumes m: "machine_ok m"
  shows "answer_ok R progr m (bf_set_player_flag x (VList [VObj y, v]) 1 d progr m)"
proof (cases "valid (vm_db m) y \<and> is_wizard (vm_db m) progr")
  case True
  then obtain ob where ob: "dbpriv_find_object (vm_db m) y = Some ob" by (auto simp: valid_iff)
  note ok = machine_db [OF m]
  have us: "\<forall>u \<in> set (all_users (vm_db m)). \<exists>x. u = VObj x" using db_okD(5) [OF ok] by (simp add: users_ok_def)
  obtain db where db: "db_set_object_flag (vm_db m) y FLAG_USER = Some db"
    using ob setadd_objects [OF us, of y] by (simp add: db_set_object_flag_def update_object_upd)
  obtain db2 where db2: "db_clear_object_flag (vm_db m) y FLAG_USER = Some db2"
    using ob setremove_objects [OF us, of y] by (simp add: db_clear_object_flag_def update_object_upd)
  have v: "verbs_ok (vm_db m)" using m by (simp add: machine_ok_def sound_def)
  have "verbs_ok db" "verbs_ok db2"
    using db db2 ob v by (auto simp: db_set_object_flag_def db_clear_object_flag_def update_object_upd verbs_ok_def
        split: if_splits)
  then have s: "sound db" "sound db2"
    using db_set_object_flag_ok [OF ok db] db_clear_object_flag_ok [OF ok db2] by (simp_all add: sound_def)
  have w: "after progr m (m\<lparr>vm_world := w\<rparr>)" for w using m by (simp add: after_def machine_ok_def)
  have "after progr m (m\<lparr>vm_db := db\<rparr>)" "after progr m (m\<lparr>vm_world := w, vm_db := db2\<rparr>)" for w
    using s m True by (simp_all add: after_def machine_ok_def no_gain_def)
  then show ?thesis
    using True db db2 by (auto simp: bf_set_player_flag_def Let_def intro!: answer_intros)
qed (use after_refl [OF m] in \<open>auto simp: bf_set_player_flag_def intro!: answer_intros\<close>)

section \<open>Parents\<close>

text \<open>What a change of parent leaves alone.\<close>

lemma no_line_keeps:
  "keeps o_location no_line" "keeps o_contents no_line" "keeps o_next no_line" "keeps o_owner no_line"
  by (simp_all add: keeps_def no_line_def strip_all_def strip_links_def parent_fields_def)

lemma no_line_core: "no_line a = no_line b \<Longrightarrow> core a = core b"
proof -
  have "core ob = core (no_line ob)" for ob :: "'a object"
    by (simp add: core_def no_line_def strip_all_def strip_links_def parent_fields_def)
  then show "no_line a = no_line b \<Longrightarrow> core a = core b" by metis
qed

lemma flush_find [simp]: "dbpriv_find_object (flush_for ob db) y = dbpriv_find_object db y"
  by (simp add: flush_for_def)

lemma change_parent_sound:
  assumes s: "sound db" and v: "valid db x" "parent = NOTHING \<or> valid db parent" "x \<notin> set (line db parent)"
  obtains db' where "db_change_parent x parent db = Some (\<not> clash db x parent, db')" "sound db'" "core_le db db'"
    "\<And>y. valid db' y = valid db y" "num_objects db' = num_objects db"
    "\<not> clash db x parent \<Longrightarrow> field o_parent db' = (field o_parent db)(x \<mapsto> parent)"
    "field o_location db' = field o_location db" "field o_contents db' = field o_contents db"
    "field o_owner db' = field o_owner db"
proof (cases "clash db x parent")
  case True
  have "db_ok db" using s by (simp add: sound_def)
  then have "db_change_parent x parent db = Some (False, db)"
    using True db_change_parent_ok [OF db_okD(2,1) v] by (auto split: option.splits)
  then show thesis using that [of db] True s by simp
next
  case False
  have ok: "db_ok db" using s by (simp add: sound_def)
  obtain db' ob where r: "db_change_parent x parent db = Some (True, db')"
    and p: "db_object_parent db' x = Some parent" "\<forall>y. y \<noteq> x \<longrightarrow> db_object_parent db' y = db_object_parent db y"
    and sb: "same_but no_line (flush_for ob db) db'"
    using False db_change_parent_ok [OF db_okD(2,1) [OF ok] v] by (auto split: option.splits)
  have ok': "db_ok db'" by (rule db_change_parent_keeps_ok [OF ok v r])
  have le: "core_le db db'"
    using core_le_trans [OF core_le_find core_le_same [OF sb no_line_core]] by simp
  have vv: "valid db' y = valid db y" for y
    using same_but_valid [OF sb] by (simp add: valid_def)
  have f: "field g (flush_for ob db) = field g db" for g :: "program object \<Rightarrow> objid" by (rule ext) (simp add: field_def)
  note fl = no_line_keeps [THEN same_but_field [OF sb]]
  show thesis
  proof (rule that [OF _ core_le_sound [OF le s ok'] le vv])
    show "field o_parent db' = (field o_parent db)(x \<mapsto> parent)"
      using p by (auto simp: field_def db_object_parent_def)
    show "num_objects db' = num_objects db" using sb by (simp add: same_but_def flush_for_def)
  qed (use r False fl f in simp_all)
qed

text \<open>An object moves to the parent of its parent without a clash: a name occurs only once on its line and on
  those of its descendants.\<close>

lemma no_clash_up:
  assumes ok: "db_ok db" and c: "field o_parent db c = Some y" and y: "dbpriv_find_object db y = Some ob"
  shows "\<not> clash db c (o_parent ob)" "c \<notin> set (line db (o_parent ob))"
    "o_parent ob = NOTHING \<or> valid db (o_parent ob)" "o_parent ob \<noteq> y"
proof -
  note P = props_okD [OF db_okD(2) [OF ok]]
  obtain oc where oc: "dbpriv_find_object db c = Some oc" "o_parent oc = y" using c by (auto simp: field_Some)
  have lc: "line db c = c # y # line db (o_parent ob)"
    using line_Cons(1) [OF P(2) oc(1)] line_Cons(1) [OF P(2) y] oc(2) by simp
  have vc: "valid db c" using oc by (simp add: valid_iff)
  show "c \<notin> set (line db (o_parent ob))"
    using chain_distinct [OF rooted_chain [OF P(2) vc]] lc by simp
  obtain ks where "hierarchy parent_fields db ks" using P(1) by (auto simp: forest_def)
  then have up: "\<And>x p. field o_parent db x = Some p \<Longrightarrow> p = NOTHING \<or> valid db p"
    by (auto simp: hierarchy_def points_up_def)
  have "field o_parent db y = Some (o_parent ob)" using y by (simp add: field_def)
  from up [OF this] show pv: "o_parent ob = NOTHING \<or> valid db (o_parent ob)" .
  show "o_parent ob \<noteq> y"
  proof
    assume e: "o_parent ob = y"
    have "line db y = y # line db (o_parent ob)" by (rule line_Cons(1) [OF P(2) y])
    then show False using e by simp
  qed
  show "\<not> clash db c (o_parent ob)"
  proof
    assume "clash db c (o_parent ob)"
    then obtain k z e where k: "k \<in> set (line_defs db (o_parent ob))" and z: "z \<in> sub db c"
      and e: "e \<in> set (defs_on db z)" "name_key e = name_key (snd k)" by (auto simp: clash_def)
    obtain as where as: "line db z = as @ line db c" using sub_line_suffix [OF P(2) z] by blast
    have vz: "valid db z" using sub_valid [OF z] .
    then obtain oz where oz: "dbpriv_find_object db z = Some oz" by (auto simp: valid_iff)
    have lz: "line db z = (as @ [c, y]) @ line db (o_parent ob)" using as lc by simp
    have "z \<in> set (as @ [c])"
      using line_Cons(1) [OF P(2) oz] as lc by (cases as) auto
    then have "(z, e) \<in> set (defs_of db (as @ [c, y]))" using e(1) by (auto simp: set_defs_of)
    moreover have "distinct (map (name_key \<circ> snd) (defs_of db (as @ [c, y]) @ line_defs db (o_parent ob)))"
      using P(4) [OF oz] unfolding object_props_ok_def line_defs_def [of db z] lz defs_of_simps
      by (simp add: line_defs_def defs_of_simps)
    ultimately show False using k e(2) by (force simp: image_iff)
  qed
qed

section \<open>Recycling\<close>

definition same_places :: "'p db \<Rightarrow> 'p db \<Rightarrow> bool" where
  "same_places db db' \<longleftrightarrow> (\<forall>y. valid db' y = valid db y) \<and> num_objects db' = num_objects db
     \<and> field o_location db' = field o_location db \<and> field o_contents db' = field o_contents db
     \<and> field o_owner db' = field o_owner db"

lemma children_card: "card {c. field o_parent db c = Some y} \<le> nat (num_objects db)"
proof -
  have "{c. field o_parent db c = Some y} \<subseteq> {0..<num_objects db}"
    using find_range by (fastforce simp: field_Some)
  then show ?thesis using card_mono [of "{0..<num_objects db}"] by simp
qed

lemma recycle_children_ok:
  "sound db \<Longrightarrow> valid db y \<Longrightarrow> card {c. field o_parent db c = Some y} \<le> n \<Longrightarrow>
     \<exists>db'. recycle_children n y db = Some db' \<and> sound db' \<and> core_le db db' \<and> same_places db db'
       \<and> {c. field o_parent db' c = Some y} = {}"
proof (induction n arbitrary: db)
  case (0 db)
  have ok: "db_ok db" using 0 by (simp add: sound_def)
  obtain cs where cs: "members parent_fields db y = Some cs" "distinct cs"
      "\<And>c. c \<in> set cs \<longleftrightarrow> field o_parent db c = Some y"
    by (rule members_ok [OF ok "0.prems"(2), of parent_fields]) auto
  have e: "{c. field o_parent db c = Some y} = set cs" using cs(3) by auto
  then have "cs = []" using "0.prems"(3) distinct_card [OF cs(2)] by simp
  then show ?case
    using get_first_members(2) [OF cs(1)] 0 e by (simp add: recycle_children.simps [of 0] same_places_def)
next
  case (Suc n db)
  have ok: "db_ok db" using Suc.prems by (simp add: sound_def)
  obtain cs where cs: "members parent_fields db y = Some cs" "distinct cs" "\<And>c. c \<in> set cs \<Longrightarrow> valid db c"
      "\<And>c. c \<in> set cs \<longleftrightarrow> field o_parent db c = Some y"
    by (rule members_ok [OF ok Suc.prems(2), of parent_fields]) auto
  have e: "{c. field o_parent db c = Some y} = set cs" using cs(4) by auto
  show ?case
  proof (cases cs)
    case Nil
    then show ?thesis
      using get_first_members(2) [OF cs(1)] Suc.prems e by (simp add: recycle_children.simps [of "Suc n"] same_places_def)
  next
    case (Cons c cs')
    obtain ob where ob: "dbpriv_find_object db y = Some ob" using Suc.prems(2) by (auto simp: valid_iff)
    have c: "valid db c" "field o_parent db c = Some y" using cs(3,4) Cons by auto
    note nc = no_clash_up [OF ok c(2) ob]
    obtain db1 where db1: "db_change_parent c (o_parent ob) db = Some (True, db1)" "sound db1" "core_le db db1"
        "\<And>y. valid db1 y = valid db y" "num_objects db1 = num_objects db"
        "field o_parent db1 = (field o_parent db)(c \<mapsto> o_parent ob)" "field o_location db1 = field o_location db"
        "field o_contents db1 = field o_contents db" "field o_owner db1 = field o_owner db"
      using change_parent_sound [OF Suc.prems(1) c(1) nc(3,2)] nc(1) by auto
    have "{d. field o_parent db1 d = Some y} = {d. field o_parent db d = Some y} - {c}"
      using nc(4) db1(6) by auto
    moreover have "finite {d. field o_parent db d = Some y}" using e by simp
    ultimately have "card {d. field o_parent db1 d = Some y} \<le> n"
      using Suc.prems(3) c(2) by (simp add: card_Diff_singleton)
    then obtain db2 where "recycle_children n y db1 = Some db2" "sound db2" "core_le db1 db2" "same_places db1 db2"
        "{c. field o_parent db2 c = Some y} = {}"
      using Suc.IH [OF db1(2)] db1(4) Suc.prems(2) by blast
    moreover have "c \<noteq> NOTHING" using c(1) valid_not_nothing by blast
    ultimately show ?thesis
      using get_first_members(2) [OF cs(1)] Cons db1 ob core_le_trans [OF db1(3)]
      by (auto simp: recycle_children.simps [of "Suc n"] same_places_def db_object_parent_def)
  qed
qed

text \<open>The end of the demolition of an object that is nowhere and holds nothing.\<close>

lemma demolish_ok:
  assumes s: "sound db" and y: "valid db y" and f: "field o_location db y = Some NOTHING" "field o_contents db y = Some NOTHING"
  obtains db1 db2 owner db3 db4 where "recycle_children (nat (num_objects db)) y db = Some db1"
    "db_change_parent y NOTHING db1 = Some (True, db2)" "db_object_owner db2 y = Some owner"
    "incr_quota owner db2 = Some db3" "db_destroy_object y db3 = Some db4" "sound db4" "core_le db db4"
proof -
  obtain db1 where db1: "recycle_children (nat (num_objects db)) y db = Some db1" "sound db1" "core_le db db1"
      "same_places db db1" "{c. field o_parent db1 c = Some y} = {}"
    using recycle_children_ok [OF s y children_card] by blast
  have y1: "valid db1 y" using db1(4) y by (simp add: same_places_def)
  have nc: "\<not> clash db1 y NOTHING" by (simp add: clash_def line_defs_def)
  obtain db2 where db2: "db_change_parent y NOTHING db1 = Some (True, db2)" "sound db2" "core_le db1 db2"
      "\<And>z. valid db2 z = valid db1 z" "field o_parent db2 = (field o_parent db1)(y \<mapsto> NOTHING)"
      "field o_location db2 = field o_location db1" "field o_contents db2 = field o_contents db1"
    by (rule change_parent_sound [OF db1(2) y1, of NOTHING]) (use nc in auto)
  have y2: "valid db2 y" using y1 db2(4) by simp
  then obtain ob2 where ob2: "dbpriv_find_object db2 y = Some ob2" by (auto simp: valid_iff)
  have ok2: "db_ok db2" using db2(2) by (simp add: sound_def)
  obtain db3 where db3: "incr_quota (o_owner ob2) db2 = Some db3" "db_ok db3" "same_but no_slots db2 db3"
    by (rule incr_quota_ok [OF ok2])
  have le3: "core_le db2 db3" by (rule core_le_same [OF db3(3) slot_core])
  obtain ob3 where ob3: "dbpriv_find_object db3 y = Some ob3" "no_slots ob3 = no_slots ob2"
    by (rule same_but_find [OF db3(3) ob2])
  have "members parent_fields db2 y = Some []"
  proof -
    obtain cs where cs: "members parent_fields db2 y = Some cs" "\<And>c. c \<in> set cs \<longleftrightarrow> field o_parent db2 c = Some y"
      by (rule members_ok [OF ok2 y2, of parent_fields]) auto
    have "field o_parent db2 c \<noteq> Some y" for c
      using db1(5) valid_not_nothing [OF y2] unfolding db2(5) by auto
    then show ?thesis using cs by (cases cs) auto
  qed
  then have "o_child ob2 = NOTHING" using ob2 by (simp add: members_def walk_db_chain)
  moreover have "o_parent ob2 = NOTHING" "o_location ob2 = NOTHING" "o_contents ob2 = NOTHING"
    using fun_cong [OF db2(5), of y] fun_cong [OF db2(6), of y] fun_cong [OF db2(7), of y] ob2 f db1(4)
    by (auto simp: field_def same_places_def fun_eq_iff)
  moreover have "barren ob3 = barren ob2"
  proof -
    have "barren (no_slots ob3) = barren (no_slots ob2)" using ob3(2) by simp
    then show ?thesis by (simp add: barren_def)
  qed
  ultimately have b: "barren ob3" by (simp add: barren_def)
  have s3: "sound db3" by (rule core_le_sound [OF le3 db2(2) db3(2)])
  obtain db4 where db4: "db_destroy_object y db3 = Some db4" "db_ok db4"
      "\<And>z. dbpriv_find_object db4 z = (if z = y then None else dbpriv_find_object db3 z)"
    using db_destroy_object_keeps_ok [OF db3(2), of y] ob3(1) b by (auto split: option.splits)
  have le4: "core_le db3 db4" using db4(3) by (auto simp: core_le_def split: if_splits)
  have "core_le db db4" by (rule core_le_trans [OF db1(3) core_le_trans [OF db2(3) core_le_trans [OF le3 le4]]])
  then show thesis
    using that [OF db1(1) db2(1) _ db3(1) db4(1) core_le_sound [OF le4 s3 db4(2)]] ob2
    by (simp add: db_object_owner_def)
qed

lemma move_to_nothing_ok:
  assumes m: "machine_ok m" and x: "outside_ok x" and c: "valid (vm_db m) c"
  obtains b m' where "move_to_nothing x c m = Some (b, m')" "b \<Longrightarrow> entered progr m m'" "\<not> b \<Longrightarrow> after progr m m'"
    "\<And>z. valid (vm_db m') z = valid (vm_db m) z" "db_object_location (vm_db m') c = Some NOTHING"
    "\<And>z. valid (vm_db m) z \<Longrightarrow> members location_fields (vm_db m') z
       = map_option (remove1 c) (members location_fields (vm_db m) z)"
proof -
  let ?db = "vm_db m"
  obtain old where old: "db_object_location ?db c = Some old" using c by (auto simp: db_object_location_def valid_iff)
  have ch: "chain (field o_location ?db) NOTHING []" by simp
  obtain db where db: "db_change_location c NOTHING ?db = Some db" "after progr m (m\<lparr>vm_db := db\<rparr>)"
      "\<And>z. valid db z = valid ?db z" "db_object_location db c = Some NOTHING"
      "\<And>z. valid ?db z \<Longrightarrow> members location_fields db z =
          map_option (\<lambda>cs. remove1 c cs @ (if z = NOTHING then [c] else [])) (members location_fields ?db z)"
    by (rule change_location_ok [OF m c _ ch, of progr]) auto
  have m1: "machine_ok (m\<lparr>vm_db := db\<rparr>)" using db(2) by (simp add: after_def)
  obtain e m' k where k: "call_verb x old ''exitfunc'' (make_arglist c) (m\<lparr>vm_db := db\<rparr>) = Some (e, m')"
      "vm_db m' = db\<lparr>cache := k\<rparr>"
      "e = E_NONE \<Longrightarrow> entered progr (m\<lparr>vm_db := db\<rparr>) m'" "e \<noteq> E_NONE \<Longrightarrow> after progr (m\<lparr>vm_db := db\<rparr>) m'"
    by (rule call_verb_ok [OF m1 x, of "''exitfunc''" old "make_arglist c" progr]) auto
  have mem: "members location_fields (vm_db m') z = map_option (remove1 c) (members location_fields ?db z)"
    if "valid ?db z" for z
  proof -
    have "z \<noteq> NOTHING" by (rule valid_not_nothing [OF that])
    then show ?thesis using db(5) [OF that] k(2) by (simp add: option.map_ident_strong)
  qed
  show thesis
  proof (rule that [of "e = E_NONE" m'])
    show "move_to_nothing x c m = Some (e = E_NONE, m')" using old db(1) k(1) by (simp add: move_to_nothing_def)
    show "e = E_NONE \<Longrightarrow> entered progr m m'" by (rule after_entered [OF db(2) k(3)])
    show "e \<noteq> E_NONE \<Longrightarrow> after progr m m'" by (rule after_trans [OF db(2) k(4)])
  qed (use db(3,4) k(2) mem in auto)
qed

lemma recycle_contents_ok:
  assumes x: "outside_ok x"
  shows "machine_ok m \<Longrightarrow> valid (vm_db m) y \<Longrightarrow> members location_fields (vm_db m) y = Some cs \<Longrightarrow> length cs \<le> n \<Longrightarrow>
     \<exists>b m'. recycle_contents x n y m = Some (b, m') \<and> (b \<longrightarrow> entered progr m m')
       \<and> (\<not> b \<longrightarrow> after progr m m' \<and> valid (vm_db m') y \<and> members location_fields (vm_db m') y = Some [])"
proof (induction n arbitrary: m cs)
  case (0 m cs)
  then show ?case
    using get_first_members(1) [OF "0.prems"(3)] after_refl [OF "0.prems"(1), of progr] "0.prems"
    by (intro exI [of _ False] exI [of _ m]) (simp add: recycle_contents.simps [of x 0])
next
  case (Suc n m cs)
  show ?case
  proof (cases cs)
    case Nil
    then show ?thesis
      using get_first_members(1) [OF Suc.prems(3)] Suc.prems after_refl [OF Suc.prems(1), of progr]
      by (intro exI [of _ False] exI [of _ m]) (simp add: recycle_contents.simps [of x "Suc n"])
  next
    case (Cons c cs')
    have c: "valid (vm_db m) c"
      using member_location [OF machine_db [OF Suc.prems(1)] Suc.prems(2,3)] Cons by simp
    have nn: "c \<noteq> NOTHING" by (rule valid_not_nothing [OF c])
    obtain b m1 where m1: "move_to_nothing x c m = Some (b, m1)" "b \<Longrightarrow> entered progr m m1" "\<not> b \<Longrightarrow> after progr m m1"
        "\<And>z. valid (vm_db m1) z = valid (vm_db m) z"
        "\<And>z. valid (vm_db m) z \<Longrightarrow> members location_fields (vm_db m1) z
           = map_option (remove1 c) (members location_fields (vm_db m) z)"
      by (rule move_to_nothing_ok [OF Suc.prems(1) x c, of progr]) blast
    show ?thesis
    proof (cases b)
      case True
      then show ?thesis
        using get_first_members(1) [OF Suc.prems(3)] Cons nn m1(1,2)
        by (intro exI [of _ True] exI [of _ m1]) (simp add: recycle_contents.simps [of x "Suc n"])
    next
      case False
      have af: "after progr m m1" using m1(3) False .
      then have mo: "machine_ok m1" by (simp add: after_def)
      have mem: "members location_fields (vm_db m1) y = Some cs'"
        using m1(5) [OF Suc.prems(2)] Suc.prems(3) Cons by simp
      obtain b2 m2 where m2: "recycle_contents x n y m1 = Some (b2, m2)" "b2 \<longrightarrow> entered progr m1 m2"
          "\<not> b2 \<longrightarrow> after progr m1 m2 \<and> valid (vm_db m2) y \<and> members location_fields (vm_db m2) y = Some []"
        using Suc.IH [OF mo _ mem] m1(4) Suc.prems(2,4) Cons by auto
      have "recycle_contents x (Suc n) y m = Some (b2, m2)"
        using get_first_members(1) [OF Suc.prems(3)] Cons nn m1(1) False m2(1)
        by (simp add: recycle_contents.simps [of x "Suc n"])
      then show ?thesis using m2(2,3) after_entered [OF af] after_trans [OF af] by blast
    qed
  qed
qed

definition objid_resumes :: "nat \<Rightarrow> bf_data option \<Rightarrow> bool" where
  "objid_resumes next d \<longleftrightarrow> next = 2 \<and> (\<exists>y. d = Some (BF_objid y))"

lemma objid_resumes_intro [simp]: "objid_resumes 2 (Some (BF_objid y))"
  by (simp add: objid_resumes_def)

lemma recycle_moving_ok:
  assumes m: "machine_ok m" and x: "outside_ok x"
  shows "answer_ok objid_resumes progr m (recycle_moving x y m)"
proof (cases "valid (vm_db m) y")
  case False
  then show ?thesis using after_refl [OF m] by (auto simp: recycle_moving_def intro!: answer_intros)
next
  case True
  obtain cs where cs: "members location_fields (vm_db m) y = Some cs" "length cs \<le> nat (num_objects (vm_db m))"
    by (rule members_ok [OF machine_db [OF m] True, of location_fields]) auto
  obtain b m1 where m1: "recycle_contents x (nat (num_objects (vm_db m))) y m = Some (b, m1)" "b \<longrightarrow> entered progr m m1"
      "\<not> b \<longrightarrow> after progr m m1 \<and> valid (vm_db m1) y \<and> members location_fields (vm_db m1) y = Some []"
    using recycle_contents_ok [OF x m True cs] by blast
  show ?thesis
  proof (cases b)
    case b: True
    then show ?thesis using True m1 by (auto simp: recycle_moving_def intro!: answer_intros)
  next
    case b: False
    then have af: "after progr m m1" and y1: "valid (vm_db m1) y" and mem: "members location_fields (vm_db m1) y = Some []"
      using m1(3) by auto
    have mo: "machine_ok m1" using af by (simp add: after_def)
    obtain loc where loc: "db_object_location (vm_db m1) y = Some loc"
      using y1 by (auto simp: db_object_location_def valid_iff)
    obtain b2 m2 where m2: "(if loc \<noteq> NOTHING then move_to_nothing x y m1 else Some (False, m1)) = Some (b2, m2)"
        "b2 \<Longrightarrow> entered progr m1 m2" "\<not> b2 \<Longrightarrow> after progr m1 m2" "valid (vm_db m2) y"
        "db_object_location (vm_db m2) y = Some NOTHING" "members location_fields (vm_db m2) y = Some []"
    proof (cases "loc = NOTHING")
      case True
      then show thesis using that [of False m1] mem loc y1 after_refl [OF mo] by simp
    next
      case False
      obtain b m' where "move_to_nothing x y m1 = Some (b, m')" "b \<Longrightarrow> entered progr m1 m'" "\<not> b \<Longrightarrow> after progr m1 m'"
        "\<And>z. valid (vm_db m') z = valid (vm_db m1) z" "db_object_location (vm_db m') y = Some NOTHING"
        "\<And>z. valid (vm_db m1) z \<Longrightarrow> members location_fields (vm_db m') z
           = map_option (remove1 y) (members location_fields (vm_db m1) z)"
        by (rule move_to_nothing_ok [OF mo x y1, of progr]) blast
      then show thesis using that [of b m'] False y1 mem by simp
    qed
    show ?thesis
    proof (cases b2)
      case b2: True
      then show ?thesis
        using True m1(1) b loc m2(1) after_entered [OF af m2(2)]
        by (auto simp: recycle_moving_def intro!: answer_intros)
    next
      case b2: False
      then have mo2: "machine_ok m2" using m2(3) by (simp add: after_def)
      then have s: "sound (vm_db m2)" by (simp add: machine_ok_def)
      have "field o_location (vm_db m2) y = Some NOTHING" using m2(5) by (simp add: db_object_location_def field_def)
      moreover have "field o_contents (vm_db m2) y = Some NOTHING"
        using m2(4,6) by (auto simp: members_def walk_db_chain field_def valid_iff)
      ultimately obtain db1 db2 owner db3 db4 where d: "recycle_children (nat (num_objects (vm_db m2))) y (vm_db m2) = Some db1"
          "db_change_parent y NOTHING db1 = Some (True, db2)" "db_object_owner db2 y = Some owner"
          "incr_quota owner db2 = Some db3" "db_destroy_object y db3 = Some db4" "sound db4" "core_le (vm_db m2) db4"
        by (rule demolish_ok [OF s m2(4)])
      have "after progr m2 (m2\<lparr>vm_db := db4\<rparr>)"
        using d(6) by (intro after_core [OF mo2 d(7)]) (simp add: sound_def)
      then have "after progr m (m2\<lparr>vm_db := db4\<rparr>)"
        using after_trans [OF af after_trans [OF m2(3) [OF b2]]] by blast
      then show ?thesis
        using True m1(1) b loc m2(1) b2 d by (auto simp: recycle_moving_def intro!: answer_intros)
    qed
  qed
qed

lemma bf_recycle_ok:
  assumes m: "machine_ok m" and x: "outside_ok x"
  shows "answer_ok objid_resumes progr m (bf_recycle x (VList [VObj y]) 1 d progr m)"
    and "answer_ok objid_resumes progr m (bf_recycle x arglist 2 (Some (BF_objid y)) progr m)"
proof -
  show "answer_ok objid_resumes progr m (bf_recycle x arglist 2 (Some (BF_objid y)) progr m)"
    using recycle_moving_ok [OF m x] by (simp add: bf_recycle_def)
  show "answer_ok objid_resumes progr m (bf_recycle x (VList [VObj y]) 1 d progr m)"
  proof (cases "valid (vm_db m) y")
    case True
    then obtain c where c: "controls (vm_db m) progr y = Some c" using controls_valid by blast
    obtain e m' k where k: "call_verb x y ''recycle'' (VList []) m = Some (e, m')"
        "e = E_NONE \<Longrightarrow> entered progr m m'" "e \<noteq> E_NONE \<Longrightarrow> after progr m m'"
      by (rule call_verb_ok [OF m x, of "''recycle''" y "VList []" progr]) auto
    have "answer_ok objid_resumes progr m (recycle_moving x y m')" if "e \<noteq> E_NONE"
      by (rule answer_after [OF k(3) [OF that]], rule recycle_moving_ok [OF _ x])
        (use k(3) [OF that] in \<open>simp add: after_def\<close>)
    then show ?thesis
      using True c k after_refl [OF m]
      by (cases c; cases "e = E_NONE") (auto simp: bf_recycle_def intro!: answer_intros)
  qed (use after_refl [OF m] in \<open>auto simp: bf_recycle_def intro!: answer_intros\<close>)
qed

section \<open>Changing the parent\<close>

lemma bf_chparent_ok:
  assumes m: "machine_ok m"
  shows "answer_ok R progr m (bf_chparent (VList [VObj what, VObj parent]) 1 d progr m)"
proof -
  let ?db = "vm_db m"
  note af = after_refl [OF m] and ok = machine_db [OF m]
  show ?thesis
  proof (cases "valid ?db what \<and> (parent = NOTHING \<or> valid ?db parent)")
    case True
    then have v: "valid ?db what" "parent = NOTHING \<or> valid ?db parent" by auto
    obtain c where c: "controls ?db progr what = Some c" using controls_valid [OF v(1)] by blast
    obtain f where f: "(if valid ?db parent then db_object_allows ?db parent progr FLAG_FERTILE else Some True) = Some f"
      by (cases "valid ?db parent") (auto simp: db_object_allows_def valid_iff)
    note inside = lies_inside_chain [OF parent_chain [OF ok v(2)], of what]
    have "answer_ok R progr m (do { (changed, db) \<leftarrow> db_change_parent what parent ?db;
        if \<not> changed then fails E_INVARG (m\<lparr>vm_db := db\<rparr>) else no_value (m\<lparr>vm_db := db\<rparr>) })"
      if n: "what \<notin> set (line ?db parent)"
    proof -
      have "sound ?db" using m by (simp add: machine_ok_def)
      from change_parent_sound [OF this v n] obtain db
        where db: "db_change_parent what parent ?db = Some (\<not> clash ?db what parent, db)" "sound db" "core_le ?db db"
        by blast
      have "after progr m (m\<lparr>vm_db := db\<rparr>)" by (rule after_core [OF m db(3)]) (use db(2) in \<open>simp add: sound_def\<close>)
      then show ?thesis using db(1) by (auto intro!: answer_intros)
    qed
    then show ?thesis
      using v c f inside af
      by (cases "what \<in> set (line ?db parent)"; cases "c \<and> f") (auto simp: bf_chparent_def Let_def intro!: answer_intros)
  qed (use af in \<open>auto simp: bf_chparent_def Let_def intro!: answer_intros\<close>)
qed

section \<open>Creating\<close>

lemma new_object_alone:
  assumes ok: "db_ok db'" and n: "dbpriv_find_object db' n = Some ob" "o_child ob = NOTHING" and p: "p = NOTHING \<or> valid db' p \<and> p \<noteq> n"
  shows "n \<notin> set (line db' p)"
proof (cases "p = NOTHING")
  case False
  then have p: "valid db' p" "p \<noteq> n" using p by auto
  have "valid db' n" using n by (simp add: valid_iff)
  obtain ks where h: "hierarchy parent_fields db' ks" and r: "rooted parent_fields db'"
    using forestE [OF ok] by blast
  then have "chain (field o_sibling db') (o_child ob) (ks n)"
    using n(1) by (auto simp: hierarchy_def linked_def)
  then have "ks n = []" using n(2) by (cases "ks n") auto
  then have "sub db' n = {n}" using sub_children [OF h r \<open>valid db' n\<close>] by simp
  then show ?thesis using p by (auto simp: sub_def)
qed simp

lemma attribute_core:
  assumes s: "sound db" and f: "dbpriv_find_object db x = Some ob" "\<And>ob. core (f ob) = core ob"
    and ok: "\<And>db'. update_object x f db = Some db' \<Longrightarrow> db_ok db'"
  obtains db' where "update_object x f db = Some db'" "db' = upd x (f ob) db" "sound db'" "core_le db db'"
proof -
  have u: "update_object x f db = Some (upd x (f ob) db)" by (rule update_object_upd [OF f(1)])
  have "core_le db (upd x (f ob) db)" by (rule core_le_upd [OF f(1,2)])
  then show thesis using that [OF u refl core_le_sound [OF _ s ok [OF u]]] by blast
qed

text \<open>The four steps that make a new object.\<close>

lemma make_object_ok:
  assumes s: "sound db" and p: "parent = NOTHING \<or> valid db parent"
  obtains oid db1 db2 db3 b db4 where "db_create_object raw db = Some (oid, db1)" "db_set_object_name db1 oid [] = Some db2"
    "db_set_object_owner db2 oid (if owner = NOTHING then oid else owner) = Some db3"
    "db_change_parent oid parent db3 = Some (b, db4)" "sound db4" "core_le db db4"
proof -
  have ok: "db_ok db" using s by (simp add: sound_def)
  let ?n = "num_objects db"
  obtain db1 ob where db1: "db_create_object raw db = Some (?n, db1)" "db_ok db1" "\<not> valid db ?n"
      "\<And>y. dbpriv_find_object db1 y = (if y = ?n then Some ob else dbpriv_find_object db y)" "barren_new ob"
    using db_create_object_keeps_ok [OF ok, of raw] by blast
  have le1: "core_le db db1" using db1(4,5) by (auto simp: core_le_def core_def barren_new_def split: if_splits)
  have s1: "sound db1" by (rule core_le_sound [OF le1 s db1(2)])
  have f1: "dbpriv_find_object db1 ?n = Some ob" by (simp add: db1(4))
  obtain db2 where db2: "db_set_object_name db1 ?n [] = Some db2" "db2 = upd ?n (ob\<lparr>o_name := []\<rparr>) db1" "sound db2" "core_le db1 db2"
    using attribute_core [OF s1 f1, of "\<lambda>ob. ob\<lparr>o_name := []\<rparr>"] db_set_object_name_ok [OF db1(2), of ?n "[]"]
    by (auto simp: db_set_object_name_def core_def)
  have ok2: "db_ok db2" using db2(3) by (simp add: sound_def)
  have f2: "dbpriv_find_object db2 ?n = Some (ob\<lparr>o_name := []\<rparr>)" using f1 by (simp add: db2(2))
  define w where "w = (if owner = NOTHING then ?n else owner)"
  obtain db3 where db3: "db_set_object_owner db2 ?n w = Some db3" "db3 = upd ?n (ob\<lparr>o_name := [], o_owner := w\<rparr>) db2"
      "sound db3" "core_le db2 db3"
    using attribute_core [OF db2(3) f2, of "\<lambda>ob. ob\<lparr>o_owner := w\<rparr>"] db_set_object_owner_ok [OF ok2, of ?n w]
    by (auto simp: db_set_object_owner_def core_def)
  have ok3: "db_ok db3" using db3(3) by (simp add: sound_def)
  have f3: "dbpriv_find_object db3 ?n = Some (ob\<lparr>o_name := [], o_owner := w\<rparr>)" using f2 by (simp add: db3(2))
  have v3: "valid db3 y \<longleftrightarrow> y = ?n \<or> valid db y" for y
    using f1 f2 by (auto simp: db3(2) db2(2) valid_def db1(4) split: if_splits)
  have p3: "parent = NOTHING \<or> valid db3 parent" and pn: "parent = NOTHING \<or> valid db3 parent \<and> parent \<noteq> ?n"
    using p db1(3) by (auto simp: v3)
  have "o_child (ob\<lparr>o_name := [], o_owner := w\<rparr>) = NOTHING" using db1(5) by (simp add: barren_new_def barren_def)
  from new_object_alone [OF ok3 f3 this pn] have nl: "?n \<notin> set (line db3 parent)" .
  have "valid db3 ?n" by (simp add: v3)
  from change_parent_sound [OF db3(3) this p3 nl] obtain db4
    where db4: "db_change_parent ?n parent db3 = Some (\<not> clash db3 ?n parent, db4)" "sound db4" "core_le db3 db4"
    by blast
  show thesis
    by (rule that [OF db1(1) db2(1) db3(1) [unfolded w_def] db4(1,2)
        core_le_trans [OF le1 core_le_trans [OF db2(4) core_le_trans [OF db3(4) db4(3)]]]])
qed

lemma bf_create_ok:
  assumes m: "machine_ok m" and x: "outside_ok x"
  shows "args = [VObj parent] \<or> args = [VObj parent, VObj who] \<Longrightarrow>
      answer_ok objid_resumes progr m (bf_create x (VList args) 1 d progr m)"
    and "answer_ok objid_resumes progr m (bf_create x arglist 2 (Some (BF_objid y)) progr m)"
proof -
  note af = after_refl [OF m] and ok = machine_db [OF m]
  let ?db = "vm_db m"
  show "answer_ok objid_resumes progr m (bf_create x arglist 2 (Some (BF_objid y)) progr m)"
    using af by (auto simp: bf_create_def intro!: answer_intros)
  assume args: "args = [VObj parent] \<or> args = [VObj parent, VObj who]"
  define owner where "owner = (if length args = 2 then who else progr)"
  have a: "arg_obj (VList args) 1 = Some parent" "(if nargs (VList args) = 2 then arg_obj (VList args) 2 else Some progr) = Some owner"
    using args by (auto simp: owner_def)
  obtain f where f: "(if valid ?db parent then db_object_allows ?db parent progr FLAG_FERTILE else Some (parent = NOTHING)) = Some f"
      "f \<Longrightarrow> parent = NOTHING \<or> valid ?db parent"
    by (cases "valid ?db parent") (auto simp: db_object_allows_def valid_iff)
  show "answer_ok objid_resumes progr m (bf_create x (VList args) 1 d progr m)"
  proof (cases "\<not> f \<or> owner \<noteq> progr \<and> \<not> is_wizard ?db progr")
    case True
    then show ?thesis using a f af by (auto simp: bf_create_def Let_def intro!: answer_intros)
  next
    case False
    obtain b db0 where q: "(if valid ?db owner then decr_quota owner ?db else Some (True, ?db)) = Some (b, db0)"
        "db_ok db0" "same_but no_slots ?db db0"
      by (cases "valid ?db owner") (use decr_quota_ok [OF ok, of owner] ok in auto)
    have le0: "core_le ?db db0" by (rule core_le_same [OF q(3) slot_core])
    have s0: "sound db0" using m by (intro core_le_sound [OF le0 _ q(2)]) (simp add: machine_ok_def)
    have p0: "parent = NOTHING \<or> valid db0 parent" using f(2) False same_but_valid [OF q(3)] by auto
    obtain oid db1 db2 db3 b4 db4 where d: "db_create_object (x_raw_object x) db0 = Some (oid, db1)"
        "db_set_object_name db1 oid [] = Some db2"
        "db_set_object_owner db2 oid (if owner = NOTHING then oid else owner) = Some db3"
        "db_change_parent oid parent db3 = Some (b4, db4)" "sound db4" "core_le db0 db4"
      by (rule make_object_ok [OF s0 p0])
    have af0: "after progr m (m\<lparr>vm_db := db0\<rparr>)" by (rule after_core [OF m le0 q(2)])
    have af4: "after progr m (m\<lparr>vm_db := db4\<rparr>)"
      by (rule after_core [OF m core_le_trans [OF le0 d(6)]]) (use d(5) in \<open>simp add: sound_def\<close>)
    then have mo: "machine_ok (m\<lparr>vm_db := db4\<rparr>)" by (simp add: after_def)
    obtain e m' k where k: "call_verb x oid ''initialize'' (VList []) (m\<lparr>vm_db := db4\<rparr>) = Some (e, m')"
        "e = E_NONE \<Longrightarrow> entered progr (m\<lparr>vm_db := db4\<rparr>) m'" "e \<noteq> E_NONE \<Longrightarrow> after progr (m\<lparr>vm_db := db4\<rparr>) m'"
      by (rule call_verb_ok [OF mo x, of "''initialize''" oid "VList []" progr]) auto
    show ?thesis
    proof (cases b)
      case nb: False
      then show ?thesis
        using False a f q(1) af0 by (auto simp: bf_create_def Let_def intro!: answer_intros)
    next
      case True
      have w: "\<not> (owner \<noteq> progr \<and> \<not> is_wizard ?db progr)" using False by blast
      have r: "bf_create x (VList args) 1 d progr m =
          (if e = E_NONE then calls 2 (BF_objid oid) m' else if e = E_MAXREC then fails e m' else gives (VObj oid) m')"
        using True False by (simp add: bf_create_def Let_def a [simplified] f(1) q(1) d(1-4) [simplified] k(1) w split del: if_split)
      show ?thesis
        unfolding r using after_entered [OF af4 k(2)] after_trans [OF af4 k(3)] by (auto intro!: answer_intros)
    qed
  qed
qed

end
