(* ===== verification/PropVerbSafety.thy ===== *)
theory PropVerbSafety
  imports ObjectSafety
begin

text \<open>
  The functions of property.c and verbs.c keep what BifSafety demands, and then all three files together: the
  theorem on every registered function.
\<close>

section \<open>Reading properties\<close>

lemma db_parts:
  assumes "machine_ok m"
  shows "db_ok (vm_db m)" "sound (vm_db m)" "verbs_ok (vm_db m)"
  using assms by (simp_all add: machine_ok_def sound_def)

lemma allows_valid: "valid db y \<Longrightarrow> \<exists>b. db_object_allows db y progr f = Some b"
  by (auto simp: db_object_allows_def valid_iff)

lemma add_name_fill: "add_name = (\<lambda>d c. (False, list_put d (VStr c)))"
  by (intro ext) (simp add: add_name_def)

lemma bf_properties_ok:
  assumes m: "machine_ok m"
  shows "answer_ok R progr m (bf_properties (VList [VObj y]) 1 d progr m)"
proof (cases "valid (vm_db m) y")
  case True
  then obtain ob b where "dbpriv_find_object (vm_db m) y = Some ob" "db_object_allows (vm_db m) y progr FLAG_READ = Some b"
    using allows_valid by (fastforce simp: valid_iff)
  then show ?thesis
    using True after_refl [OF m] fill_list [of VStr "map pd_name (o_propdefs ob)"]
    by (auto simp: bf_properties_def db_count_propdefs_def db_for_all_propdefs_def add_name_fill
        Let_def intro!: answer_intros)
qed (use after_refl [OF m] in \<open>auto simp: bf_properties_def intro!: answer_intros\<close>)

lemma slot_reads:
  assumes "dbpriv_find_object db x = Some ob" "n < length (o_propval ob)" "ph_ptr h = PSlot x n" "ph_built_in h = BP_NONE"
  shows "db_property_owner db h = Some (p_owner (o_propval ob ! n))"
    "db_property_flags db h = Some (scast (p_perms (o_propval ob ! n)))"
    "db_property_value db h = Some (p_var (o_propval ob ! n))"
    "\<exists>b. db_property_allows db h progr f = Some b"
  using assms by (auto simp: db_property_owner_def db_property_flags_def db_property_value_def db_property_allows_def
      read_slot_def)

lemma property_cases:
  assumes m: "machine_ok m" and v: "valid (vm_db m) x" and s: "cstring s"
  obtains (none) h where "db_find_property (vm_db m) x s False = Some (h, None)" "ph_ptr h = PNull" "ph_built_in h = BP_NONE"
    | (built_in) h where "db_find_property (vm_db m) x s False = Some (h, None)" "ph_ptr h \<noteq> PNull" "ph_built_in h \<noteq> BP_NONE"
    | (slot) h n ob where "db_find_property (vm_db m) x s False = Some (h, None)" "ph_ptr h = PSlot x n" "ph_built_in h = BP_NONE"
      "dbpriv_find_object (vm_db m) x = Some ob" "n < length (o_propval ob)"
      "n < length (o_propdefs ob) \<Longrightarrow> ph_definer h = x"
proof -
  obtain ob where ob: "dbpriv_find_object (vm_db m) x = Some ob" using v by (auto simp: valid_iff)
  note P = props_okD [OF db_okD(2) [OF db_parts(1) [OF m]]]
  have own: "n < length (o_propdefs ob) \<Longrightarrow> fst (line_defs (vm_db m) x ! n) = x" for n
    using ob line_Cons(1) [OF P(2) ob] by (simp add: line_defs_def nth_append)
  show thesis
    by (rule find_property_cases [OF db_parts(1) [OF m] ob s]) (use none built_in slot ob own in auto)
qed

lemma bf_prop_info_ok:
  assumes m: "machine_ok m" and s: "cstring s"
  shows "answer_ok R progr m (bf_prop_info (VList [VObj y, VStr s]) 1 d progr m)"
proof (cases "valid (vm_db m) y")
  case True
  note af = after_refl [OF m]
  show ?thesis
  proof (rule property_cases [OF m True s])
    fix h n ob assume h: "db_find_property (vm_db m) y s False = Some (h, None)" "ph_ptr h = PSlot y n" "ph_built_in h = BP_NONE"
      "dbpriv_find_object (vm_db m) y = Some ob" "n < length (o_propval ob)"
    obtain b where "db_property_allows (vm_db m) h progr (ucast PF_READ) = Some b"
      using slot_reads(4) [OF h(4,5,2,3)] by blast
    then show ?thesis
      using True h slot_reads [OF h(4,5,2,3)] af
      by (cases b) (auto simp: bf_prop_info_def arg_str_def Let_def intro!: answer_intros)
  qed (use True af in \<open>auto simp: bf_prop_info_def arg_str_def Let_def intro!: answer_intros\<close>)
qed (use after_refl [OF m] in \<open>auto simp: bf_prop_info_def arg_str_def Let_def intro!: answer_intros\<close>)

lemma bf_is_clear_prop_ok:
  assumes m: "machine_ok m" and s: "cstring s"
  shows "answer_ok R progr m (bf_is_clear_prop (VList [VObj y, VStr s]) 1 d progr m)"
proof (cases "valid (vm_db m) y")
  case True
  note af = after_refl [OF m]
  show ?thesis
  proof (rule property_cases [OF m True s])
    fix h n ob assume h: "db_find_property (vm_db m) y s False = Some (h, None)" "ph_ptr h = PSlot y n" "ph_built_in h = BP_NONE"
      "dbpriv_find_object (vm_db m) y = Some ob" "n < length (o_propval ob)"
    obtain b where "db_property_allows (vm_db m) h progr (ucast PF_READ) = Some b"
      using slot_reads(4) [OF h(4,5,2,3)] by blast
    then show ?thesis
      using True h slot_reads [OF h(4,5,2,3)] af
      by (cases b) (auto simp: bf_is_clear_prop_def arg_str_def Let_def intro!: answer_intros)
  qed (use True af in \<open>auto simp: bf_is_clear_prop_def arg_str_def Let_def intro!: answer_intros\<close>)
qed (use after_refl [OF m] in \<open>auto simp: bf_is_clear_prop_def arg_str_def Let_def intro!: answer_intros\<close>)

section \<open>Changing properties\<close>

lemma props_core: "no_props a = no_props b \<Longrightarrow> core a = core b"
proof -
  have "core ob = core (no_props ob)" for ob :: "'a object" by (simp add: core_def)
  then show "no_props a = no_props b \<Longrightarrow> core a = core b" by metis
qed

lemma after_props:
  assumes m: "machine_ok m" and "same_but no_props (vm_db m) db" "db_ok db"
  shows "after progr m (m\<lparr>vm_db := db\<rparr>)"
  by (rule after_core [OF m core_le_same [OF assms(2) props_core] assms(3)])

lemma bf_clear_prop_ok:
  assumes m: "machine_ok m" and s: "cstring s"
  shows "answer_ok R progr m (bf_clear_prop (VList [VObj y, VStr s]) 1 d progr m)"
proof (cases "valid (vm_db m) y")
  case True
  note af = after_refl [OF m] and ok = db_parts(1) [OF m]
  show ?thesis
  proof (rule property_cases [OF m True s])
    fix h n ob assume h: "db_find_property (vm_db m) y s False = Some (h, None)" "ph_ptr h = PSlot y n" "ph_built_in h = BP_NONE"
      "dbpriv_find_object (vm_db m) y = Some ob" "n < length (o_propval ob)"
      and own: "n < length (o_propdefs ob) \<Longrightarrow> ph_definer h = y"
    note r = slot_reads [OF h(4,5,2,3)]
    show ?thesis
    proof (cases "progr \<noteq> p_owner (o_propval ob ! n) \<and> \<not> is_wizard (vm_db m) progr \<or> ph_definer h = y")
      case True
      then show ?thesis
        using \<open>valid (vm_db m) y\<close> h r(1) af by (auto simp: bf_clear_prop_def arg_str_def Let_def intro!: answer_intros)
    next
      case False
      obtain db where w: "write_slot (\<lambda>pv. pv\<lparr>p_var := VClear\<rparr>) h (vm_db m) = Some db" "same_but no_slots (vm_db m) db"
        by (rule write_slot_total [OF h(4,5,2)])
      have v: "db_set_property_value h VClear (vm_db m) = Some db" using w(1) h(3) by (simp add: db_set_property_value_def)
      have "db_ok db"
        by (rule db_set_property_value_ok [OF ok v]) (use h own False in auto)
      then have "after progr m (m\<lparr>vm_db := db\<rparr>)"
        by (intro after_core [OF m core_le_same [OF w(2) slot_core]])
      then show ?thesis
        using \<open>valid (vm_db m) y\<close> False h r(1) v af
        by (auto simp: bf_clear_prop_def arg_str_def Let_def intro!: answer_intros)
    qed
  qed (use True af in \<open>auto simp: bf_clear_prop_def arg_str_def Let_def intro!: answer_intros\<close>)
qed (use after_refl [OF m] in \<open>auto simp: bf_clear_prop_def arg_str_def Let_def intro!: answer_intros\<close>)

lemma bf_delete_prop_ok:
  assumes m: "machine_ok m" and s: "cstring s"
  shows "answer_ok R progr m (bf_delete_prop (VList [VObj y, VStr s]) 1 d progr m)"
proof (cases "valid (vm_db m) y")
  case True
  note af = after_refl [OF m] and ok = db_parts(1) [OF m]
  obtain b where b: "db_object_allows (vm_db m) y progr FLAG_WRITE = Some b" using allows_valid [OF True] by blast
  obtain c db where r: "db_delete_propdef y s (vm_db m) = Some (c, db)"
    and sb: "db = vm_db m \<or> same_but no_props (vm_db m) db"
    using db_delete_propdef_ok [OF db_okD(2) [OF ok] True s] by (auto split: option.splits if_splits)
  have "db_ok db" by (rule db_delete_propdef_keeps_ok [OF ok True s r])
  then have "after progr m (m\<lparr>vm_db := db\<rparr>)" using sb after_props [OF m, of db] af by auto
  then show ?thesis
    using True b r af
    by (cases b; cases c) (auto simp: bf_delete_prop_def arg_str_def Let_def intro!: answer_intros)
qed (use after_refl [OF m] in \<open>auto simp: bf_delete_prop_def arg_str_def Let_def intro!: answer_intros\<close>)

lemma validate_prop_info_name:
  assumes "user_value v" "validate_prop_info db v = Inr (owner, flags, Some name)"
  shows "cstring name"
  using assms by (auto simp: validate_prop_info_def Let_def split: var.splits list.splits if_splits option.splits)

lemma bf_add_prop_ok:
  assumes m: "machine_ok m" and s: "cstring s" and v: "user_value v"
  shows "answer_ok R progr m (bf_add_prop (VList [VObj y, VStr s, v, info]) 1 d progr m)"
proof (cases "validate_prop_info (vm_db m) info")
  case (Inl e)
  then show ?thesis using after_refl [OF m] by (auto simp: bf_add_prop_def arg_str_def Let_def intro!: answer_intros)
next
  case (Inr t)
  obtain owner flags new where t: "t = (owner, flags, new)" by (cases t)
  note af = after_refl [OF m] and ok = db_parts(1) [OF m]
  show ?thesis
  proof (cases "new = None \<and> valid (vm_db m) y")
    case True
    obtain b where b: "db_object_allows (vm_db m) y progr FLAG_WRITE = Some b" using allows_valid True by blast
    have nc: "v \<noteq> VClear" using v by auto
    obtain c db where r: "db_add_propdef y s v owner flags (vm_db m) = Some (c, db)"
      and sb: "db = vm_db m \<or> same_but no_props (vm_db m) db"
      using db_add_propdef_ok [OF db_okD(2) [OF ok] _ s nc, of y owner flags] True
      by (auto split: option.splits if_splits)
    have "db_ok db" using db_add_propdef_keeps_ok [OF ok _ s nc r] True by blast
    then have "after progr m (m\<lparr>vm_db := db\<rparr>)" using sb after_props [OF m, of db] af by auto
    then show ?thesis
      using True b r af Inr t
      by (cases b; cases c) (auto simp: bf_add_prop_def arg_str_def Let_def intro!: answer_intros)
  next
    case False
    then show ?thesis using Inr t af by (auto simp: bf_add_prop_def arg_str_def Let_def intro!: answer_intros)
  qed
qed

text \<open>A slot gets its new owner and flags.\<close>

lemma set_slot_info:
  assumes ok: "db_ok db" and ob: "dbpriv_find_object db x = Some ob" "n < length (o_propval ob)"
    and h: "ph_ptr h = PSlot x n" "ph_built_in h = BP_NONE"
  obtains db1 db2 where "db_set_property_owner h owner db = Some db1" "db_set_property_flags h flags db1 = Some db2"
    "db_ok db2" "same_but no_slots db db2"
proof -
  obtain db1 where w1: "write_slot (\<lambda>pv. pv\<lparr>p_owner := owner\<rparr>) h db = Some db1" "same_but no_slots db db1"
      "\<And>y. map_option (\<lambda>ob. length (o_propval ob)) (dbpriv_find_object db1 y)
       = map_option (\<lambda>ob. length (o_propval ob)) (dbpriv_find_object db y)"
    by (rule write_slot_total [OF ob h(1)]) blast
  have r1: "db_set_property_owner h owner db = Some db1" using w1(1) h(2) by (simp add: db_set_property_owner_def)
  obtain ob1 where ob1: "dbpriv_find_object db1 x = Some ob1" "n < length (o_propval ob1)"
    using w1(3) [of x] ob by auto
  obtain db2 where w2: "write_slot (\<lambda>pv. pv\<lparr>p_perms := ucast flags\<rparr>) h db1 = Some db2" "same_but no_slots db1 db2"
    by (rule write_slot_total [OF ob1 h(1)]) blast
  have r2: "db_set_property_flags h flags db1 = Some db2" using w2(1) h(2) by (simp add: db_set_property_flags_def)
  show thesis
    by (rule that [OF r1 r2 db_set_property_flags_ok [OF db_set_property_owner_ok [OF ok r1] r2] same_but_trans [OF w1(2) w2(2)]])
qed

lemma renamed_slot:
  assumes ok: "db_ok db" and x: "valid db x" and s: "cstring old" "cstring new"
    and r: "db_rename_propdef x old new db = Some (True, db')"
  obtains h n ob where "db_find_property db' x new False = Some (h, None)" "ph_ptr h = PSlot x n" "ph_built_in h = BP_NONE"
    "dbpriv_find_object db' x = Some ob" "n < length (o_propval ob)" "same_but no_props db db'" "db_ok db'"
proof -
  have ok': "db_ok db'" by (rule db_rename_propdef_keeps_ok [OF ok x s r])
  note R = db_rename_propdef_ok [OF db_okD(2) [OF ok] x s]
  obtain d where d: "d \<in> set (defs_on db x)" "name_key d = map cmap old"
    and sm: "\<And>y. y \<in> sub db x \<Longrightarrow> slot_map db' y = (slot_map db y)((x, d) := None, (x, dbpriv_new_propdef new) := slot_map db y (x, d))"
    and free: "map cmap old = map cmap new \<or> \<not> name_in_use db x new" and sb: "same_but no_props db db'"
    using R r by auto
  note P = props_okD [OF db_okD(2) [OF ok]]
  obtain ob0 where ob0: "dbpriv_find_object db x = Some ob0" using x by (auto simp: valid_iff)
  obtain ob where ob: "dbpriv_find_object db' x = Some ob"
    using same_but_valid [OF sb, of x] x by (auto simp: valid_iff)
  have dl: "d \<in> set (o_propdefs ob0)" using d(1) ob0 by simp
  have nb: "\<not> built_in_name new"
  proof
    assume b: "built_in_name new"
    then have "map cmap old = map cmap new" using free by (auto simp: name_in_use_def)
    then have e: "map cmap new = map cmap (pd_name d)" using d(2) by (simp add: name_key_def)
    have "propdef_ok d" "\<not> built_in_name (pd_name d)" using P(4) [OF ob0] dl by (auto simp: object_props_ok_def)
    then show False using built_in_name_key [OF s(2) _ e b] by (simp add: propdef_ok_def)
  qed
  have xs: "x \<in> sub db x" by (rule sub_self [OF P(2) x])
  have "(x, d) \<in> set (line_defs db x)"
    using line_Cons(1) [OF P(2) ob0] dl ob0 by (auto simp: line_defs_def)
  then obtain i where i: "i < length (line_defs db x)" "line_defs db x ! i = (x, d)" by (auto simp: in_set_conv_nth)
  have "slot_map db x (x, d) \<noteq> None" using slot_map_nth(1) [OF db_okD(2) [OF ok] ob0 i(1)] i(2) by simp
  then have "slot_map db' x (x, dbpriv_new_propdef new) \<noteq> None" using sm [OF xs] by simp
  then have "(x, dbpriv_new_propdef new) \<in> set (line_defs db' x)"
    using slot_map_None [of _ db' x] by metis
  then have k: "\<exists>e \<in> snd ` set (line_defs db' x). name_key e = map cmap new" by (force simp: image_iff)
  show thesis
    by (rule find_property_cases [OF ok' ob s(2)]) (use that ob sb ok' k nb in auto)
qed

lemma set_prop_info_ok:
  assumes m: "machine_ok m" and s: "cstring s" and info: "user_value info"
  obtains e db where "set_prop_info y s info progr (vm_db m) = Some (e, db)" "after progr m (m\<lparr>vm_db := db\<rparr>)"
proof (cases "valid (vm_db m) y")
  case False
  then show thesis using that after_refl [OF m] by (simp add: set_prop_info_def)
next
  case v: True
  note af = after_refl [OF m] and ok = db_parts(1) [OF m]
  have self: "after progr m (m\<lparr>vm_db := vm_db m\<rparr>)" using af by simp
  show thesis
  proof (cases "validate_prop_info (vm_db m) info")
    case (Inl e)
    then show thesis using that [of e "vm_db m"] v self by (simp add: set_prop_info_def)
  next
    case (Inr t)
    obtain owner flags new where t: "t = (owner, flags, new)" by (cases t)
    show thesis
    proof (rule property_cases [OF m v s])
      fix h n ob assume h: "db_find_property (vm_db m) y s False = Some (h, None)" "ph_ptr h = PSlot y n"
        "ph_built_in h = BP_NONE" "dbpriv_find_object (vm_db m) y = Some ob" "n < length (o_propval ob)"
      note r = slot_reads [OF h(4,5,2,3)]
      obtain b where b: "db_property_allows (vm_db m) h progr (ucast PF_WRITE) = Some b" using r(4) by blast
      let ?deny = "\<not> b \<or> \<not> is_wizard (vm_db m) progr \<and> p_owner (o_propval ob ! n) \<noteq> owner"
      note simps = set_prop_info_def v Inr t h(1-3) r(1) b
      show thesis
      proof (cases ?deny)
        case True
        then show thesis using that [of E_PERM "vm_db m"] self by (simp add: simps)
      next
        case ok2: False
        show thesis
        proof (cases new)
          case None
          obtain db1 db2 where d: "db_set_property_owner h owner (vm_db m) = Some db1" "db_set_property_flags h flags db1 = Some db2"
            "db_ok db2" "same_but no_slots (vm_db m) db2"
            by (rule set_slot_info [OF ok h(4,5,2,3)])
          have "after progr m (m\<lparr>vm_db := db2\<rparr>)"
            by (rule after_core [OF m core_le_same [OF d(4) slot_core] d(3)])
          then show thesis using that [of E_NONE db2] ok2 None d(1,2) by (simp add: simps)
        next
          case (Some name)
          have cn: "cstring name" using validate_prop_info_name [OF info] Inr t Some by simp
          obtain c db where rn: "db_rename_propdef y s name (vm_db m) = Some (c, db)"
            and nc: "\<not> c \<longrightarrow> db = vm_db m"
            using db_rename_propdef_ok [OF db_okD(2) [OF ok] v s cn] by (auto split: option.splits)
          show thesis
          proof (cases c)
            case False
            then show thesis using that [of E_INVARG "vm_db m"] ok2 Some rn nc self by (simp add: simps)
          next
            case True
            obtain h' n' ob' where h': "db_find_property db y name False = Some (h', None)" "ph_ptr h' = PSlot y n'"
              "ph_built_in h' = BP_NONE" "dbpriv_find_object db y = Some ob'" "n' < length (o_propval ob')"
              "same_but no_props (vm_db m) db" "db_ok db"
              by (rule renamed_slot [OF ok v s cn]) (use rn True in auto)
            obtain db1 db2 where d: "db_set_property_owner h' owner db = Some db1" "db_set_property_flags h' flags db1 = Some db2"
              "db_ok db2" "same_but no_slots db db2"
              by (rule set_slot_info [OF h'(7) h'(4,5,2,3)])
            have "core_le (vm_db m) db2"
              by (rule core_le_trans [OF core_le_same [OF h'(6) props_core] core_le_same [OF d(4) slot_core]])
            then have "after progr m (m\<lparr>vm_db := db2\<rparr>)" by (rule after_core [OF m _ d(3)])
            then show thesis using that [of E_NONE db2] ok2 Some rn True h'(1) d(1,2) by (simp add: simps)
          qed
        qed
      qed
    qed (use that [of E_PROPNF "vm_db m"] v Inr t self in \<open>auto simp: set_prop_info_def\<close>)
  qed
qed

lemma bf_set_prop_info_ok:
  assumes m: "machine_ok m" and s: "cstring s" and info: "user_value info"
  shows "answer_ok R progr m (bf_set_prop_info (VList [VObj y, VStr s, info]) 1 d progr m)"
proof -
  obtain e db where "set_prop_info y s info progr (vm_db m) = Some (e, db)" "after progr m (m\<lparr>vm_db := db\<rparr>)"
    by (rule set_prop_info_ok [OF m s info])
  then show ?thesis
    by (auto simp: bf_set_prop_info_def arg_str_def error_or_none_def intro!: answer_intros)
qed

section \<open>The bits of a verb\<close>

lemma perms_bit: "n < 16 \<Longrightarrow> bit (perms_int v) n = bit (v_perms v) n"
  by (simp add: perms_int_def bit_simps)

lemma mask_bits: "bit OBJMASK n = (n < 2)" "bit PERMMASK n = (n < 4)"
proof -
  have m: "OBJMASK = mask 2" "PERMMASK = mask 4" by (simp_all add: OBJMASK_def PERMMASK_def mask_eq_exp_minus_1)
  show "bit OBJMASK n = (n < 2)" "bit PERMMASK n = (n < 4)" unfolding m by (auto simp: bit_mask_iff)
qed

lemma arg_bit:
  "bit (verb_dobj v) n \<longleftrightarrow> n < 2 \<and> bit (v_perms v) (4 + n)" "bit (verb_iobj v) n \<longleftrightarrow> n < 2 \<and> bit (v_perms v) (6 + n)"
  by (auto simp: verb_dobj_def verb_iobj_def bit_simps mask_bits perms_bit DOBJSHIFT_def IOBJSHIFT_def min_def add.commute)

text \<open>Flags stay below the bits of the arguments, and the other way round.\<close>

definition low :: "unsigned \<Rightarrow> bool" where
  "low flags \<longleftrightarrow> (\<forall>n. bit flags n \<longrightarrow> n < 4)"

lemma low_simps: "low 0" "low a \<Longrightarrow> low b \<Longrightarrow> low (a OR b)" "low VF_READ" "low VF_WRITE" "low VF_EXEC" "low VF_DEBUG"
proof -
  have l: "x AND mask 4 = x \<Longrightarrow> low x" for x :: unsigned
    unfolding low_def by (metis bit_and_iff bit_mask_iff)
  show "low VF_READ" "low VF_WRITE" "low VF_EXEC" "low VF_DEBUG"
    by (rule l, simp add: VF_READ_def VF_WRITE_def VF_EXEC_def VF_DEBUG_def mask_eq_exp_minus_1)+
qed (auto simp: low_def bit_simps)

lemma perm_letters_low:
  "perm_letters verb_letters flags s = Some flags' \<Longrightarrow> low flags \<Longrightarrow> low flags'"
proof (induction verb_letters flags s rule: perm_letters.induct)
  case (2 flags c s)
  then obtain b where b: "map_of verb_letters c = Some b" "perm_letters verb_letters (flags OR b) s = Some flags'"
    by (auto split: option.splits)
  then have "low b" by (auto simp: verb_letters_def low_simps split: if_splits dest!: map_of_SomeD)
  then show ?case using 2(1) [OF b(1,2)] 2(3) by (simp add: low_simps)
qed simp

definition spec_arg :: "unsigned \<Rightarrow> bool" where
  "spec_arg a \<longleftrightarrow> a \<in> {ASPEC_NONE, ASPEC_ANY, ASPEC_THIS}"

lemma spec_arg_unparse: "unparse_arg_spec a \<noteq> None \<longleftrightarrow> spec_arg a"
  by (simp add: unparse_arg_spec_def spec_arg_def)

lemma spec_arg_bit: "spec_arg a \<Longrightarrow> bit a n \<Longrightarrow> n < 2"
proof -
  assume "spec_arg a" "bit a n"
  moreover from this(1) have "a AND mask 2 = a"
    by (auto simp: spec_arg_def ASPEC_NONE_def ASPEC_ANY_def ASPEC_THIS_def mask_eq_exp_minus_1)
  ultimately show "n < 2" by (metis bit_and_iff bit_mask_iff)
qed

lemma arg_bits_bit:
  assumes "spec_arg a" "spec_arg b" "n < 2"
  shows "bit (arg_bits a b) (4 + n) = bit a n" "bit (arg_bits a b) (6 + n) = bit b n"
  using assms spec_arg_bit [of a "2 + n"] by (auto simp: arg_bits_def bit_simps DOBJSHIFT_def IOBJSHIFT_def)

lemma set_args_bits:
  assumes "spec_arg a" "spec_arg b" "low flags" "v_perms v = ucast (flags OR arg_bits a b)"
  shows "verb_dobj v = a" "verb_iobj v = b"
proof -
  have f: "\<not> bit flags (4 + n)" "\<not> bit flags (6 + n)" for n using assms(3) by (auto simp: low_def dest!: spec)
  show "verb_dobj v = a"
  proof (rule bit_eqI)
    fix n show "bit (verb_dobj v) n = bit a n"
      using spec_arg_bit [OF assms(1), of n] arg_bits_bit [OF assms(1,2), of n] f
      by (auto simp: arg_bit assms(4) bit_simps)
  qed
  show "verb_iobj v = b"
  proof (rule bit_eqI)
    fix n show "bit (verb_iobj v) n = bit b n"
      using spec_arg_bit [OF assms(2), of n] arg_bits_bit [OF assms(1,2), of n] f
      by (auto simp: arg_bit assms(4) bit_simps)
  qed
qed

lemma set_flags_bits:
  assumes "low flags" "v_perms v' = ucast ((perms_int v AND NOT PERMMASK) OR flags)"
  shows "verb_dobj v' = verb_dobj v" "verb_iobj v' = verb_iobj v"
proof -
  have f: "\<not> bit flags (4 + n)" "\<not> bit flags (6 + n)" for n using assms(1) by (auto simp: low_def dest!: spec)
  have p: "bit (v_perms v') (4 + n) = bit (v_perms v) (4 + n)" "bit (v_perms v') (6 + n) = bit (v_perms v) (6 + n)"
    if "n < 2" for n
    using that f by (auto simp: assms(2) bit_simps mask_bits perms_bit)
  show "verb_dobj v' = verb_dobj v" by (rule bit_eqI) (use p in \<open>auto simp: arg_bit\<close>)
  show "verb_iobj v' = verb_iobj v" by (rule bit_eqI) (use p in \<open>auto simp: arg_bit\<close>)
qed

lemma low_perms: "low (x AND PERMMASK)"
  by (simp add: low_def bit_simps mask_bits)

section \<open>Verbs through a handle\<close>

lemma handle_affected [simp]: "handle_verb (db_priv_affected_callable_verb_lookup db) h = handle_verb db h"
  by (simp add: handle_verb_def)

lemma powers_same_flags:
  assumes "\<And>y. map_option o_flags (dbpriv_find_object db' y) = map_option o_flags (dbpriv_find_object db y)"
  shows "powers db' = powers db"
proof -
  have "valid_with f db' y = valid_with f db y" for f y
    using assms [of y] by (auto simp: valid_with_def has_flag_def split: option.splits)
  then show ?thesis by (simp add: powers_def)
qed

lemma update_verb_total:
  assumes "handle_verb db vh = Some v"
  obtains db' where "update_verb f vh db = Some db'" "handle_verb db' vh = Some (f v)" "powers db' = powers db"
    "verbs_ok db \<Longrightarrow> verb_ok (f v) \<Longrightarrow> verbs_ok db'"
proof -
  obtain h ob where h: "vh = Some h" "dbpriv_find_object db (h_definer h) = Some ob" "h_verbdef h < length (o_verbdefs ob)"
      "v = o_verbdefs ob ! h_verbdef h"
    using assms by (auto simp: handle_verb_def bind_eq_Some_conv split: if_splits)
  let ?ob = "ob\<lparr>o_verbdefs := (o_verbdefs ob)[h_verbdef h := f v]\<rparr>"
  let ?db = "upd (h_definer h) ?ob db"
  have "update_verb f vh db = Some ?db" using h by (simp add: update_verb_def handle_verb_def update_object_upd)
  moreover have "handle_verb ?db vh = Some (f v)" using h by (simp add: handle_verb_def)
  moreover have "powers ?db = powers db" by (rule powers_same_flags) (use h in simp)
  moreover have "verbs_ok ?db" if "verbs_ok db" "verb_ok (f v)"
    using that h set_update_subset_insert [of "o_verbdefs ob" "h_verbdef h" "f v"]
    by (auto simp: verbs_ok_def split: if_splits)
  ultimately show thesis by (rule that)
qed

lemma verbs_affected [simp]: "verbs_ok (db_priv_affected_callable_verb_lookup db) = verbs_ok db"
  by (simp add: verbs_ok_def)

lemma powers_affected [simp]: "powers (db_priv_affected_callable_verb_lookup db) = powers db"
  by (rule powers_same_flags) simp

lemma after_powers:
  assumes m: "machine_ok m" and "powers db = powers (vm_db m)" "verbs_ok db" "db_ok db"
  shows "after progr m (m\<lparr>vm_db := db\<rparr>)"
  using assms by (intro after_db) (simp_all add: sound_def no_gain_def)

lemma find_described_ok:
  assumes ok: "db_ok db" and v: "valid db y" and d: "validate_verb_descriptor desc = E_NONE"
  obtains (none) "find_described_verb x db y desc = Some None"
    | (found) h v where "find_described_verb x db y desc = Some (Some h)" "handle_verb db (Some h) = Some v"
proof -
  obtain ob where ob: "dbpriv_find_object db y = Some ob" using v by (auto simp: valid_iff)
  note i = db_okD(6) [OF ok ob]
  show thesis
  proof (cases desc)
    case (VInt n)
    then show thesis
      using none found [of "\<lparr>h_definer = y, h_verbdef = nat (sint n) - 1\<rparr>" "o_verbdefs ob ! (nat (sint n) - 1)"] ob i
      by (cases "1 \<le> nat (sint n) \<and> nat (sint n) \<le> length (o_verbdefs ob)")
        (auto simp: find_described_verb_def db_find_indexed_verb_def handle_verb_def)
  next
    case (VStr s)
    obtain r where r: "db_find_defined_verb db y s (x_flag_option x db ''support_numeric_verbname_strings'') = Some r"
        "\<And>h. r = Some h \<Longrightarrow> h_definer h = y \<and> h_verbdef h < length (o_verbdefs ob)"
    proof -
      let ?flag = "x_flag_option x db ''support_numeric_verbname_strings''"
      obtain P where P: "db_find_defined_verb db y s ?flag = Some (map_option (\<lambda>i. \<lparr>h_definer = o_id ob, h_verbdef = i\<rparr>)
          (position P (enumerate 0 (o_verbdefs ob))))"
        using ob by (cases "case strtol s of None \<Rightarrow> (0, s) | Some r \<Rightarrow> r") (simp add: db_find_defined_verb_def Let_def)
      show thesis by (rule that [OF P]) (use i in \<open>auto dest!: position_Some\<close>)
    qed
    show thesis
    proof (cases r)
      case (Some h)
      then show thesis using found [of h] r VStr ob by (auto simp: find_described_verb_def handle_verb_def)
    qed (use none r VStr in \<open>simp add: find_described_verb_def\<close>)
  qed (use d in \<open>simp_all add: validate_verb_descriptor_def\<close>)
qed

lemma described_ok:
  assumes ok: "db_ok db"
  obtains (wrong) e h where "described_verb x db y desc = Some (e, h)" "e \<noteq> E_NONE"
    | (found) h v where "described_verb x db y desc = Some (E_NONE, Some h)" "handle_verb db (Some h) = Some v"
proof (cases "validate_verb_descriptor desc = E_NONE \<and> valid db y")
  case True
  show thesis
    by (rule find_described_ok [OF ok, of y desc x]) (use True wrong found in \<open>auto simp: described_verb_def\<close>)
next
  case False
  then show thesis using wrong by (cases "validate_verb_descriptor desc = E_NONE") (auto simp: described_verb_def)
qed

lemma verb_reads:
  assumes "handle_verb db h = Some v"
  shows "db_verb_owner db h = Some (v_owner v)" "db_verb_flags db h = Some (perms_int v AND PERMMASK)"
    "db_verb_names db h = Some (v_name v)" "db_verb_arg_specs db h = Some (verb_dobj v, v_prep v, verb_iobj v)"
    "\<exists>p. db_verb_program np db h = Some p" "\<exists>b. db_verb_allows db h progr f = Some b"
  using assms by (auto simp: db_verb_owner_def db_verb_flags_def db_verb_names_def db_verb_arg_specs_def
      db_verb_program_def db_verb_allows_def)

section \<open>Reading verbs\<close>

lemma bf_verbs_ok:
  assumes m: "machine_ok m"
  shows "answer_ok R progr m (bf_verbs (VList [VObj y]) 1 d progr m)"
proof (cases "valid (vm_db m) y")
  case True
  then obtain ob b where "dbpriv_find_object (vm_db m) y = Some ob" "db_object_allows (vm_db m) y progr FLAG_READ = Some b"
    using allows_valid by (fastforce simp: valid_iff)
  then show ?thesis
    using True after_refl [OF m] fill_list [of VStr "map v_name (o_verbdefs ob)"]
    by (auto simp: bf_verbs_def db_count_verbs_def db_for_all_verbs_def add_name_fill
        Let_def intro!: answer_intros)
qed (use after_refl [OF m] in \<open>auto simp: bf_verbs_def Let_def intro!: answer_intros\<close>)

lemma list_lines_ok: "list_lines r ls = Some (r @ map VStr ls)"
  by (induction ls arbitrary: r) (simp_all add: listappend_ok)

lemma verb_readers_ok:
  assumes m: "machine_ok m"
  shows "answer_ok R progr m (bf_verb_info x (VList [VObj y, desc]) 1 d progr m)"
    and "answer_ok R progr m (bf_verb_args x (VList [VObj y, desc]) 1 d progr m)"
    and "length args \<in> {2, 3, 4} \<Longrightarrow> args ! 0 = VObj y \<Longrightarrow> args ! 1 = desc \<Longrightarrow>
      answer_ok R progr m (bf_verb_code x (VList args) 1 d progr m)"
proof -
  let ?db = "vm_db m"
  note af = after_refl [OF m]
  note cases = described_ok [OF db_parts(1) [OF m], of x y desc]
  have args: "\<exists>p. (if nargs (VList args) \<ge> 3 then map_option is_true (arg (VList args) 3) else Some False) = Some p"
    "\<exists>p. (if nargs (VList args) < 4 then Some True else map_option is_true (arg (VList args) 4)) = Some p"
    by auto
  show "answer_ok R progr m (bf_verb_info x (VList [VObj y, desc]) 1 d progr m)"
  proof (rule cases)
    fix h v assume h: "described_verb x ?db y desc = Some (E_NONE, Some h)" "handle_verb ?db (Some h) = Some v"
    obtain b where "db_verb_allows ?db (Some h) progr VF_READ = Some b" using verb_reads(6) [OF h(2)] by blast
    then show ?thesis
      using h(1) verb_reads(1-3) [OF h(2)] af by (cases b) (auto simp: bf_verb_info_def Let_def intro!: answer_intros)
  qed (use af in \<open>auto simp: bf_verb_info_def Let_def intro!: answer_intros\<close>)
  show "answer_ok R progr m (bf_verb_args x (VList [VObj y, desc]) 1 d progr m)"
  proof (rule cases)
    fix h v assume h: "described_verb x ?db y desc = Some (E_NONE, Some h)" "handle_verb ?db (Some h) = Some v"
    obtain b where "db_verb_allows ?db (Some h) progr VF_READ = Some b" using verb_reads(6) [OF h(2)] by blast
    moreover have "verb_ok v" by (rule handle_verb_ok [OF db_parts(3) [OF m] h(2)])
    then obtain d1 d2 d3 where "unparse_arg_spec (verb_dobj v) = Some d1" "db_unparse_prep (v_prep v) = Some d2"
        "unparse_arg_spec (verb_iobj v) = Some d3"
      by (auto simp: verb_ok_def)
    ultimately show ?thesis
      using h(1) verb_reads(4) [OF h(2)] af by (cases b) (auto simp: bf_verb_args_def Let_def intro!: answer_intros)
  qed (use af in \<open>auto simp: bf_verb_args_def Let_def intro!: answer_intros\<close>)
  assume a: "length args \<in> {2, 3, 4}" "args ! 0 = VObj y" "args ! 1 = desc"
  then have a12: "arg_obj (VList args) 1 = Some y" "arg (VList args) 2 = Some desc"
    by (auto simp: arg_obj_def)
  obtain p i where pi: "(if nargs (VList args) \<ge> 3 then map_option is_true (arg (VList args) 3) else Some False) = Some p"
    "(if nargs (VList args) < 4 then Some True else map_option is_true (arg (VList args) 4)) = Some i"
    using args by blast
  note start = bf_verb_code_def a12 pi Let_def
  show "answer_ok R progr m (bf_verb_code x (VList args) 1 d progr m)"
  proof (rule cases)
    fix h v assume h: "described_verb x ?db y desc = Some (E_NONE, Some h)" "handle_verb ?db (Some h) = Some v"
    obtain b where b: "db_verb_allows ?db (Some h) progr VF_READ = Some b" using verb_reads(6) [OF h(2)] by blast
    obtain q where q: "db_verb_program (s_null_program (x_services x)) ?db (Some h) = Some q"
      using verb_reads(5) [OF h(2)] by blast
    show ?thesis
      using h(1) af unfolding start
      by (cases b) (auto simp: b q list_lines_ok intro!: answer_intros)
  next
    fix e h assume "described_verb x ?db y desc = Some (e, h)" "e \<noteq> E_NONE"
    then show ?thesis using af unfolding start by (auto intro!: answer_intros)
  qed
qed

section \<open>Changing verbs\<close>

lemma find_alias_bound: "find_alias tab j argv e = Some (i, n) \<Longrightarrow> j \<le> i \<and> i < j + int (length tab)"
  by (induction tab j argv e rule: find_alias.induct) (fastforce split: option.splits)+

lemma match_prep_spec_ok:
  assumes "length tab \<le> NPREPS" "cstring s"
  obtains p where "match_prep_spec tab s = Some p" "\<And>prep. p = Some prep \<Longrightarrow> db_unparse_prep prep \<noteq> None"
proof -
  have fp: "fst (find_prep_from tab argv 0 True) = PREP_NONE \<or>
      0 \<le> fst (find_prep_from tab argv 0 True) \<and> fst (find_prep_from tab argv 0 True) < int NPREPS" for argv
    using assms(1) find_alias_bound [of tab 0 argv True] by (cases argv) (auto split: option.splits)
  have "\<exists>p. db_match_prep tab s = Some p \<and> (p = PREP_NONE \<or> 0 \<le> p \<and> p < int NPREPS)"
  proof -
    let ?s = "if s \<noteq> [] \<and> hd s = CHR ''#'' then tl s else s"
    obtain n rest where n: "(case strtol ?s of None \<Rightarrow> (0, ?s) | Some r \<Rightarrow> r) = (n, rest)" by fastforce
    have "cstring (takeWhile (\<lambda>c. c \<noteq> CHR ''/'') ?s)"
      using assms(2) by (cases s) (auto simp: cstring_def dest: set_takeWhileD)
    then obtain ws where "parse_into_words (takeWhile (\<lambda>c. c \<noteq> CHR ''/'') ?s) = Some ws"
      using parse_into_words_words by blast
    then show ?thesis
      using fp [of ws] n by (auto simp: db_match_prep_def Let_def db_find_prep_def)
  qed
  then obtain p where p: "db_match_prep tab s = Some p" "p = PREP_NONE \<or> 0 \<le> p \<and> p < int NPREPS" by blast
  have u: "db_unparse_prep PREP_NONE \<noteq> None" "db_unparse_prep PREP_ANY \<noteq> None"
    "0 \<le> q \<Longrightarrow> q < int NPREPS \<Longrightarrow> db_unparse_prep q \<noteq> None" for q
    by (auto simp: db_unparse_prep_def)
  show thesis
    by (rule that [of "the (match_prep_spec tab s)"]) (use p u in \<open>auto simp: match_prep_spec_def split: if_splits\<close>)
qed

lemma match_arg_spec_ok: "match_arg_spec s = Some a \<Longrightarrow> spec_arg a"
  by (auto simp: match_arg_spec_def spec_arg_def split: if_splits)

lemma validate_verb_args_ok:
  assumes "length tab \<le> NPREPS" "user_value args"
  obtains (wrong) e where "validate_verb_args tab args = Some (Inl e)"
    | (right) dobj prep iobj where "validate_verb_args tab args = Some (Inr (dobj, prep, iobj))"
      "spec_arg dobj" "spec_arg iobj" "db_unparse_prep prep \<noteq> None"
proof (cases "\<exists>a b c. args = VList [VStr a, VStr b, VStr c]")
  case False
  then have "validate_verb_args tab args = Some (Inl E_TYPE)"
    by (auto simp: validate_verb_args_def split: var.split list.split)
  then show thesis by (rule wrong)
next
  case True
  then obtain a b c where a: "args = VList [VStr a, VStr b, VStr c]" by blast
  then have "cstring b" using assms(2) by simp
  then obtain p where p: "match_prep_spec tab b = Some p" "\<And>prep. p = Some prep \<Longrightarrow> db_unparse_prep prep \<noteq> None"
    by (rule match_prep_spec_ok [OF assms(1)]) blast
  show thesis
  proof (cases "match_arg_spec a = None \<or> p = None \<or> match_arg_spec c = None")
    case True
    then show thesis using wrong [of E_INVARG] a p by (auto simp: validate_verb_args_def split: option.split)
  next
    case False
    then obtain d q i where "match_arg_spec a = Some d" "p = Some q" "match_arg_spec c = Some i" by auto
    then show thesis using right [of d q i] a p match_arg_spec_ok by (simp add: validate_verb_args_def)
  qed
qed

lemma validate_verb_info_low: "validate_verb_info db v = Inr (owner, flags, names) \<Longrightarrow> low flags"
  using perm_letters_low [of 0] low_simps(1)
  by (auto simp: validate_verb_info_def Let_def split: var.splits list.splits if_splits option.splits)

lemma bf_add_verb_ok:
  assumes m: "machine_ok m" and x: "outside_ok x" and a: "user_value args"
  shows "answer_ok R progr m (bf_add_verb x (VList [VObj y, info, args]) 1 d progr m)"
proof (cases "validate_verb_info (vm_db m) info")
  case (Inl e)
  then show ?thesis using after_refl [OF m] by (auto simp: bf_add_verb_def Let_def intro!: answer_intros)
next
  case (Inr t)
  obtain owner flags names where t: "t = (owner, flags, names)" by (cases t)
  note af = after_refl [OF m] and ok = db_parts(1) [OF m]
  have "length (x_prep_table x) \<le> NPREPS" using x by (simp add: outside_ok_def)
  then show ?thesis
  proof (rule validate_verb_args_ok [OF _ a])
    fix e assume "validate_verb_args (x_prep_table x) args = Some (Inl e)"
    then show ?thesis using Inr t af by (auto simp: bf_add_verb_def Let_def intro!: answer_intros)
  next
    fix dobj prep iobj assume s: "validate_verb_args (x_prep_table x) args = Some (Inr (dobj, prep, iobj))"
      "spec_arg dobj" "spec_arg iobj" "db_unparse_prep prep \<noteq> None"
    show ?thesis
    proof (cases "valid (vm_db m) y")
      case False
      then show ?thesis using Inr t s(1) af by (auto simp: bf_add_verb_def Let_def intro!: answer_intros)
    next
      case True
      then obtain ob where ob: "dbpriv_find_object (vm_db m) y = Some ob" by (auto simp: valid_iff)
      obtain b where b: "db_object_allows (vm_db m) y progr FLAG_WRITE = Some b" using allows_valid [OF True] by blast
      define v where "v = \<lparr>v_name = names, v_program = (None :: program option), v_owner = owner,
        v_perms = (ucast (flags OR arg_bits dobj iobj) :: short), v_prep = prep\<rparr>"
      let ?db = "upd y (ob\<lparr>o_verbdefs := o_verbdefs ob @ [v]\<rparr>) (db_priv_affected_callable_verb_lookup (vm_db m))"
      have r: "db_add_verb y names owner flags dobj prep iobj (vm_db m) = Some (length (o_verbdefs ob) + 1, ?db)"
        using ob by (simp add: db_add_verb_def Let_def update_object_upd v_def)
      have "verb_dobj v = dobj" "verb_iobj v = iobj"
        by (rule set_args_bits [OF s(2,3) validate_verb_info_low [of "vm_db m" info owner flags names]];
            simp add: Inr t v_def)+
      then have "verb_ok v" using s(2-4) spec_arg_unparse by (simp add: verb_ok_def v_def)
      then have "verbs_ok ?db" using db_parts(3) [OF m] ob by (auto simp: verbs_ok_def split: if_splits)
      moreover have "powers ?db = powers (vm_db m)" by (rule powers_same_flags) (use ob in simp)
      ultimately have "after progr m (m\<lparr>vm_db := ?db\<rparr>)" using after_powers [OF m _ _ db_add_verb_ok [OF ok r]] by blast
      then show ?thesis
        using Inr t s(1) True b r af by (cases b) (auto simp: bf_add_verb_def Let_def intro!: answer_intros)
    qed
  qed
qed

lemma bf_delete_verb_ok:
  assumes m: "machine_ok m"
  shows "answer_ok R progr m (bf_delete_verb x (VList [VObj y, desc]) 1 d progr m)"
proof (cases "validate_verb_descriptor desc = E_NONE \<and> valid (vm_db m) y")
  case False
  then show ?thesis using after_refl [OF m] by (auto simp: bf_delete_verb_def Let_def intro!: answer_intros)
next
  case True
  note af = after_refl [OF m] and ok = db_parts(1) [OF m]
  obtain b where b: "db_object_allows (vm_db m) y progr FLAG_WRITE = Some b" using allows_valid True by blast
  show ?thesis
  proof (rule find_described_ok [OF ok, of y desc x])
    fix h v assume h: "find_described_verb x (vm_db m) y desc = Some (Some h)" "handle_verb (vm_db m) (Some h) = Some v"
    obtain ob where ob: "dbpriv_find_object (vm_db m) (h_definer h) = Some ob" "h_verbdef h < length (o_verbdefs ob)"
      using h(2) by (auto simp: handle_verb_def bind_eq_Some_conv split: if_splits)
    let ?vs = "take (h_verbdef h) (o_verbdefs ob) @ drop (h_verbdef h + 1) (o_verbdefs ob)"
    let ?db = "upd (h_definer h) (ob\<lparr>o_verbdefs := ?vs\<rparr>) (db_priv_affected_callable_verb_lookup (vm_db m))"
    have r: "db_delete_verb h (vm_db m) = Some ?db" using ob by (simp add: db_delete_verb_def update_object_upd)
    have "set ?vs \<subseteq> set (o_verbdefs ob)" using set_take_subset set_drop_subset by fastforce
    then have "verbs_ok ?db" using db_parts(3) [OF m] ob by (fastforce simp: verbs_ok_def split: if_splits)
    moreover have "powers ?db = powers (vm_db m)" by (rule powers_same_flags) (use ob in simp)
    ultimately have "after progr m (m\<lparr>vm_db := ?db\<rparr>)" using after_powers [OF m _ _ db_delete_verb_ok [OF ok r]] by blast
    then show ?thesis
      using True b h(1) r af by (cases b) (auto simp: bf_delete_verb_def Let_def intro!: answer_intros)
  qed (use True b af in \<open>cases b; auto simp: bf_delete_verb_def Let_def intro!: answer_intros\<close>)+
qed

lemma bf_set_verb_info_ok:
  assumes m: "machine_ok m"
  shows "answer_ok R progr m (bf_set_verb_info x (VList [VObj y, desc, info]) 1 d progr m)"
proof (cases "validate_verb_descriptor desc = E_NONE \<and> valid (vm_db m) y")
  case False
  then show ?thesis using after_refl [OF m] by (auto simp: bf_set_verb_info_def Let_def intro!: answer_intros)
next
  case True
  note af = after_refl [OF m] and ok = db_parts(1) [OF m]
  show ?thesis
  proof (cases "validate_verb_info (vm_db m) info")
    case (Inl e)
    then show ?thesis using True af by (auto simp: bf_set_verb_info_def Let_def intro!: answer_intros)
  next
    case (Inr t)
    obtain owner flags names where t: "t = (owner, flags, names)" by (cases t)
    show ?thesis
    proof (rule find_described_ok [OF ok, of y desc x])
      fix h v assume h: "find_described_verb x (vm_db m) y desc = Some (Some h)" "handle_verb (vm_db m) (Some h) = Some v"
      obtain b where b: "db_verb_allows (vm_db m) (Some h) progr VF_WRITE = Some b" using verb_reads(6) [OF h(2)] by blast
      let ?v1 = "v\<lparr>v_owner := owner\<rparr>"
      obtain db1 where d1: "db_set_verb_owner (Some h) owner (vm_db m) = Some db1" "handle_verb db1 (Some h) = Some ?v1"
          "powers db1 = powers (vm_db m)" "verbs_ok (vm_db m) \<Longrightarrow> verb_ok ?v1 \<Longrightarrow> verbs_ok db1"
        unfolding db_set_verb_owner_def by (rule update_verb_total [OF h(2), where f = "\<lambda>v. v\<lparr>v_owner := owner\<rparr>"]) blast
      let ?v2 = "?v1\<lparr>v_perms := ucast ((perms_int ?v1 AND NOT PERMMASK) OR flags)\<rparr>"
      have "handle_verb (db_priv_affected_callable_verb_lookup db1) (Some h) = Some ?v1" using d1(2) by simp
      then obtain db2 where d2: "db_set_verb_flags (Some h) flags db1 = Some db2" "handle_verb db2 (Some h) = Some ?v2"
          "powers db2 = powers (db_priv_affected_callable_verb_lookup db1)"
          "verbs_ok (db_priv_affected_callable_verb_lookup db1) \<Longrightarrow> verb_ok ?v2 \<Longrightarrow> verbs_ok db2"
        unfolding db_set_verb_flags_def
        by (rule update_verb_total [where f = "\<lambda>v. v\<lparr>v_perms := ucast ((perms_int v AND NOT PERMMASK) OR flags)\<rparr>"]) blast
      let ?v3 = "?v2\<lparr>v_name := names\<rparr>"
      have "handle_verb (db_priv_affected_callable_verb_lookup db2) (Some h) = Some ?v2" using d2(2) by simp
      then obtain db3 where d3: "db_set_verb_names (Some h) names db2 = Some db3"
          "powers db3 = powers (db_priv_affected_callable_verb_lookup db2)"
          "verbs_ok (db_priv_affected_callable_verb_lookup db2) \<Longrightarrow> verb_ok ?v3 \<Longrightarrow> verbs_ok db3"
        unfolding db_set_verb_names_def by (rule update_verb_total [where f = "\<lambda>v. v\<lparr>v_name := names\<rparr>"]) blast
      have low: "low flags" by (rule validate_verb_info_low [of "vm_db m" info owner flags names]) (simp add: Inr t)
      have vo: "verb_ok v" by (rule handle_verb_ok [OF db_parts(3) [OF m] h(2)])
      have v1: "verb_ok ?v1" using vo by (simp add: verb_ok_def verb_dobj_def verb_iobj_def perms_int_def)
      have "verb_dobj ?v2 = verb_dobj ?v1" "verb_iobj ?v2 = verb_iobj ?v1"
        by (rule set_flags_bits [OF low]; simp)+
      then have v2: "verb_ok ?v2" using v1 by (simp add: verb_ok_def)
      then have "verb_ok ?v3" by (simp add: verb_ok_def verb_dobj_def verb_iobj_def perms_int_def)
      then have "verbs_ok db3" "powers db3 = powers (vm_db m)" using v1 v2 d1 d2 d3 db_parts(3) [OF m] by simp_all
      moreover have "db_ok db3"
        by (rule db_set_verb_ok(1) [OF db_set_verb_ok(2) [OF db_set_verb_owner_ok [OF ok d1(1)] d2(1)] d3(1)])
      ultimately have "after progr m (m\<lparr>vm_db := db3\<rparr>)" using after_powers [OF m] by blast
      then show ?thesis
        using True Inr t h(1) b verb_reads(1) [OF h(2)] d1(1) d2(1) d3(1) af
        by (auto simp: bf_set_verb_info_def Let_def intro!: answer_intros)
    qed (use True Inr t af in \<open>auto simp: bf_set_verb_info_def Let_def intro!: answer_intros\<close>)
  qed
qed

lemma bf_set_verb_args_ok:
  assumes m: "machine_ok m" and x: "outside_ok x" and a: "user_value args"
  shows "answer_ok R progr m (bf_set_verb_args x (VList [VObj y, desc, args]) 1 d progr m)"
proof (cases "validate_verb_descriptor desc = E_NONE \<and> valid (vm_db m) y")
  case False
  then show ?thesis using after_refl [OF m] by (auto simp: bf_set_verb_args_def Let_def intro!: answer_intros)
next
  case True
  note af = after_refl [OF m] and ok = db_parts(1) [OF m]
  have "length (x_prep_table x) \<le> NPREPS" using x by (simp add: outside_ok_def)
  then show ?thesis
  proof (rule validate_verb_args_ok [OF _ a])
    fix e assume "validate_verb_args (x_prep_table x) args = Some (Inl e)"
    then show ?thesis using True af by (auto simp: bf_set_verb_args_def Let_def intro!: answer_intros)
  next
    fix dobj prep iobj assume s: "validate_verb_args (x_prep_table x) args = Some (Inr (dobj, prep, iobj))"
      "spec_arg dobj" "spec_arg iobj" "db_unparse_prep prep \<noteq> None"
    show ?thesis
    proof (rule find_described_ok [OF ok, of y desc x])
      fix h v assume h: "find_described_verb x (vm_db m) y desc = Some (Some h)" "handle_verb (vm_db m) (Some h) = Some v"
      obtain b where b: "db_verb_allows (vm_db m) (Some h) progr VF_WRITE = Some b" using verb_reads(6) [OF h(2)] by blast
      let ?v = "v\<lparr>v_perms := ucast ((perms_int v AND PERMMASK) OR arg_bits dobj iobj), v_prep := prep\<rparr>"
      have "handle_verb (db_priv_affected_callable_verb_lookup (vm_db m)) (Some h) = Some v" using h(2) by simp
      then obtain db where r: "db_set_verb_arg_specs (Some h) dobj prep iobj (vm_db m) = Some db"
          "powers db = powers (db_priv_affected_callable_verb_lookup (vm_db m))"
          "verbs_ok (db_priv_affected_callable_verb_lookup (vm_db m)) \<Longrightarrow> verb_ok ?v \<Longrightarrow> verbs_ok db"
        unfolding db_set_verb_arg_specs_def
        by (rule update_verb_total [where
              f = "\<lambda>v. v\<lparr>v_perms := ucast ((perms_int v AND PERMMASK) OR arg_bits dobj iobj), v_prep := prep\<rparr>"]) blast
      have vo: "verb_ok v" by (rule handle_verb_ok [OF db_parts(3) [OF m] h(2)])
      have "verb_dobj ?v = dobj" "verb_iobj ?v = iobj"
        by (rule set_args_bits [OF s(2,3) low_perms [of "perms_int v"]]; simp)+
      then have "verb_ok ?v" using s(2-4) vo spec_arg_unparse by (simp add: verb_ok_def)
      then have "verbs_ok db" using r(3) db_parts(3) [OF m] by simp
      then have "after progr m (m\<lparr>vm_db := db\<rparr>)"
        using r(2) after_powers [OF m _ _ db_set_verb_ok(3) [OF ok r(1)]] by simp
      then show ?thesis
        using True s(1) h(1) b r(1) af by (cases b) (auto simp: bf_set_verb_args_def Let_def intro!: answer_intros)
    qed (use True s(1) af in \<open>auto simp: bf_set_verb_args_def Let_def intro!: answer_intros\<close>)
  qed
qed

lemma parsed_ok: "outside_ok x \<Longrightarrow> x_parse_list x texts = (Some p, e) \<Longrightarrow> program_ok p"
  unfolding outside_ok_def by blast

lemma bf_set_verb_code_ok:
  assumes m: "machine_ok m" and x: "outside_ok x"
  shows "answer_ok R progr m (bf_set_verb_code x (VList [VObj y, desc, VList code]) 1 d progr m)"
proof (cases "\<exists>v \<in> set code. type_of v \<noteq> TYPE_STR")
  case True
  then show ?thesis using after_refl [OF m] by (auto simp: bf_set_verb_code_def Let_def intro!: answer_intros)
next
  case False
  note af = after_refl [OF m] and ok = db_parts(1) [OF m]
  have start: "bf_set_verb_code x (VList [VObj y, desc, VList code]) 1 d progr m =
     (do {
       (e, h) \<leftarrow> described_verb x (vm_db m) y desc;
       if e \<noteq> E_NONE then fails e m
       else do {
         allowed \<leftarrow> (if is_programmer (vm_db m) progr then db_verb_allows (vm_db m) h progr VF_WRITE else Some False);
         if \<not> allowed then fails E_PERM m
         else (case x_parse_list x code of
            (None, errors) \<Rightarrow> gives errors m
          | (Some p, errors) \<Rightarrow>
              if task_timed_out m then gives errors m
              else Option.bind (db_set_verb_program h (Some p) (vm_db m)) (\<lambda>db. gives errors (m\<lparr>vm_db := db\<rparr>))) } })"
    using False by (simp add: bf_set_verb_code_def Let_def)
  show ?thesis unfolding start
  proof (rule described_ok [OF ok, of x y desc])
    fix h v assume h: "described_verb x (vm_db m) y desc = Some (E_NONE, Some h)" "handle_verb (vm_db m) (Some h) = Some v"
    obtain b where b: "db_verb_allows (vm_db m) (Some h) progr VF_WRITE = Some b" using verb_reads(6) [OF h(2)] by blast
    obtain q errors where q: "x_parse_list x code = (q, errors)" by (cases "x_parse_list x code")
    have "\<exists>db. db_set_verb_program (Some h) (Some p) (vm_db m) = Some db \<and> after progr m (m\<lparr>vm_db := db\<rparr>)" if p: "q = Some p" for p
    proof -
      have po: "program_ok p" using parsed_ok [OF x] q p by simp
      obtain db where r: "db_set_verb_program (Some h) (Some p) (vm_db m) = Some db" "powers db = powers (vm_db m)"
          "verbs_ok (vm_db m) \<Longrightarrow> verb_ok (v\<lparr>v_program := Some p\<rparr>) \<Longrightarrow> verbs_ok db"
        unfolding db_set_verb_program_def by (rule update_verb_total [OF h(2), where f = "\<lambda>v. v\<lparr>v_program := Some p\<rparr>"]) blast
      have "verb_ok v" by (rule handle_verb_ok [OF db_parts(3) [OF m] h(2)])
      then have "verb_ok (v\<lparr>v_program := Some p\<rparr>)"
        using po by (simp add: verb_ok_def verb_dobj_def verb_iobj_def perms_int_def)
      then have "verbs_ok db" using r(3) db_parts(3) [OF m] by simp
      then show ?thesis using r(1,2) after_powers [OF m _ _ db_set_verb_program_ok [OF ok r(1)]] by blast
    qed
    then show "answer_ok R progr m (do {
       (e, h) \<leftarrow> described_verb x (vm_db m) y desc;
       if e \<noteq> E_NONE then fails e m
       else do {
         allowed \<leftarrow> (if is_programmer (vm_db m) progr then db_verb_allows (vm_db m) h progr VF_WRITE else Some False);
         if \<not> allowed then fails E_PERM m
         else (case x_parse_list x code of
            (None, errors) \<Rightarrow> gives errors m
          | (Some p, errors) \<Rightarrow>
              if task_timed_out m then gives errors m
              else Option.bind (db_set_verb_program h (Some p) (vm_db m)) (\<lambda>db. gives errors (m\<lparr>vm_db := db\<rparr>))) } })"
      using h(1) b q af by (cases q; cases b) (auto intro!: answer_intros)
  qed (use af in \<open>auto intro!: answer_intros\<close>)
qed

section \<open>Evaluation\<close>

definition eval_resumes :: "nat \<Rightarrow> bf_data option \<Rightarrow> bool" where
  "eval_resumes next d \<longleftrightarrow> next = 2 \<and> d = None"

lemma length_task_env: "length (task_env p player caller this dobj iobj s1 s2 s3 s4 s5 args) = length (var_names p)"
  by (simp add: task_env_def)

lemma bf_eval_ok:
  assumes m: "machine_ok m" and x: "outside_ok x"
  shows "answer_ok eval_resumes progr m (bf_eval x (VList args) 1 d progr m)"
    and "answer_ok eval_resumes progr m (bf_eval x arglist 2 d progr m)"
proof -
  note af = after_refl [OF m]
  show "answer_ok eval_resumes progr m (bf_eval x arglist 2 d progr m)"
    using af by (auto simp: bf_eval_def intro!: answer_intros)
  obtain a as where a: "activ_stack m = a # as" using m by (cases "activ_stack m") (simp_all add: machine_ok_def)
  obtain q errors where q: "x_parse_list x args = (q, errors)" by (cases "x_parse_list x args")
  have "answer_ok eval_resumes progr m (do { (ok, m) \<leftarrow> setup_activ_for_eval p m;
      if ok then Some (P_CALL 2 None, m) else fails E_MAXREC m })" if p: "q = Some p" for p
  proof -
    have "program_ok p" using parsed_ok [OF x] q p by simp
    then have "entered progr m (m\<lparr>activ_stack := new_activation p (main_vector p)
         (task_env p (ac_player a) (ac_self a) NOTHING NOTHING NOTHING [] [] [] [] [] (VList []))
         NOTHING (ac_player a) (ac_progr a) NOTHING [] ''Input to EVAL'' True # activ_stack m\<rparr>)"
      using m by (simp add: entered_def machine_ok_def new_activation_def length_task_env program_ok_def)
    then show ?thesis
      using a af by (auto simp: setup_activ_for_eval_def RUN_ACTIV_def answer_ok_def eval_resumes_def fails_def)
  qed
  then show "answer_ok eval_resumes progr m (bf_eval x (VList args) 1 d progr m)"
    using q af by (cases q) (auto simp: bf_eval_def intro!: answer_intros)
qed

end
