(* ===== verification/BifCorrect.thy ===== *)
theory BifCorrect
  imports PropVerbSafety
begin

text \<open>
  Every function that objects.c, property.c and verbs.c register, called as the dispatcher calls it, and resumed
  as the interpreter resumes it.
\<close>

section \<open>Calls and resumptions\<close>

text \<open>Where a function can be resumed, by its name.\<close>

definition resumes :: "string \<Rightarrow> nat \<Rightarrow> bf_data option \<Rightarrow> bool" where
  "resumes name =
     (if name = ''move'' then move_resumes
      else if name = ''create'' \<or> name = ''recycle'' then objid_resumes
      else if name = ''eval'' then eval_resumes
      else (\<lambda>next d. False))"

text \<open>The first call, with arguments the registration admits and a program can hold.\<close>

definition first_call :: "'w bf_reg \<Rightarrow> var \<Rightarrow> bool" where
  "first_call r arglist = (case r of (name, lo, hi, f, types) \<Rightarrow>
     (\<exists>args. arglist = VList args \<and> admits lo hi types args \<and> (\<forall>v \<in> set args. user_value v)))"

definition reg_ok :: "'w bf_reg \<Rightarrow> bool" where
  "reg_ok r = (case r of (name, lo, hi, f, types) \<Rightarrow>
     (\<forall>arglist progr m. machine_ok m \<longrightarrow> first_call r arglist \<longrightarrow> answer_ok (resumes name) progr m (f arglist 1 None progr m))
     \<and> (\<forall>arglist next d progr m. machine_ok m \<longrightarrow> resumes name next d \<longrightarrow>
          answer_ok (resumes name) progr m (f arglist next d progr m)))"

lemma length_cases:
  "length xs = 0 \<longleftrightarrow> xs = []"
  "length xs = Suc n \<longleftrightarrow> (\<exists>y ys. xs = y # ys \<and> length ys = n)"
  by (auto simp: length_Suc_conv)

lemma admits_lists:
  "admits 0 0 [] args \<longleftrightarrow> args = []"
  "admits 1 1 [s] args \<longleftrightarrow> (\<exists>a. args = [a] \<and> type_admits s (type_of a))"
  "admits 1 2 [s, t] args \<longleftrightarrow> (\<exists>a. args = [a] \<and> type_admits s (type_of a))
     \<or> (\<exists>a b. args = [a, b] \<and> type_admits s (type_of a) \<and> type_admits t (type_of b))"
  "admits 2 2 [s, t] args \<longleftrightarrow> (\<exists>a b. args = [a, b] \<and> type_admits s (type_of a) \<and> type_admits t (type_of b))"
  "admits 3 3 [s, t, u] args \<longleftrightarrow> (\<exists>a b c. args = [a, b, c] \<and> type_admits s (type_of a)
     \<and> type_admits t (type_of b) \<and> type_admits u (type_of c))"
  "admits 4 4 [s, t, u, v] args \<longleftrightarrow> (\<exists>a b c d. args = [a, b, c, d] \<and> type_admits s (type_of a)
     \<and> type_admits t (type_of b) \<and> type_admits u (type_of c) \<and> type_admits v (type_of d))"
proof -
  have four: "(\<exists>n. length args = n) \<and> (args = [] \<or> (\<exists>a. args = [a]) \<or> (\<exists>a b. args = [a, b]) \<or> (\<exists>a b c. args = [a, b, c])
     \<or> (\<exists>a b c d. args = [a, b, c, d]) \<or> 4 < length args)"
    by (cases args; cases "tl args"; cases "tl (tl args)"; cases "tl (tl (tl args))"; cases "tl (tl (tl (tl args)))") auto
  then show "admits 0 0 [] args \<longleftrightarrow> args = []" by (auto simp: admits_def)
  show "admits 1 1 [s] args \<longleftrightarrow> (\<exists>a. args = [a] \<and> type_admits s (type_of a))"
    using four by (auto simp: admits_def)
  show "admits 1 2 [s, t] args \<longleftrightarrow> (\<exists>a. args = [a] \<and> type_admits s (type_of a))
     \<or> (\<exists>a b. args = [a, b] \<and> type_admits s (type_of a) \<and> type_admits t (type_of b))"
    using four by (auto simp: admits_def)
  show "admits 2 2 [s, t] args \<longleftrightarrow> (\<exists>a b. args = [a, b] \<and> type_admits s (type_of a) \<and> type_admits t (type_of b))"
    using four by (auto simp: admits_def)
  show "admits 3 3 [s, t, u] args \<longleftrightarrow> (\<exists>a b c. args = [a, b, c] \<and> type_admits s (type_of a)
     \<and> type_admits t (type_of b) \<and> type_admits u (type_of c))"
    using four by (auto simp: admits_def)
  show "admits 4 4 [s, t, u, v] args \<longleftrightarrow> (\<exists>a b c d. args = [a, b, c, d] \<and> type_admits s (type_of a)
     \<and> type_admits t (type_of b) \<and> type_admits u (type_of c) \<and> type_admits v (type_of d))"
    using four by (auto simp: admits_def)
qed

lemma admits_code:
  assumes "admits 2 4 [TYPE_OBJ, TYPE_ANY, TYPE_ANY, TYPE_ANY] args"
  obtains y desc where "length args \<in> {2, 3, 4}" "args ! 0 = VObj y" "args ! 1 = desc"
proof -
  obtain a b rest where a: "args = a # b # rest" "length rest \<le> 2"
    using assms by (cases args; cases "tl args") (auto simp: admits_def)
  then have "type_of a = TYPE_OBJ" using assms by (auto simp: admits_def type_admits_def split: list.splits)
  then obtain y where "a = VObj y" by (cases a) auto
  then show thesis using that a by (auto simp: le_Suc_eq numeral_eq_Suc)
qed

lemma obj_type [simp]: "type_admits TYPE_OBJ (type_of v) \<longleftrightarrow> (\<exists>y. v = VObj y)"
  by (cases v) (simp_all add: type_admits_def)

section \<open>Every registration\<close>

lemma reg_okI:
  assumes "\<And>args progr m. machine_ok m \<Longrightarrow> admits lo hi types args \<Longrightarrow> \<forall>v \<in> set args. user_value v \<Longrightarrow>
      answer_ok (resumes name) progr m (f (VList args) 1 None progr m)"
    and "\<And>arglist next d progr m. machine_ok m \<Longrightarrow> resumes name next d \<Longrightarrow>
      answer_ok (resumes name) progr m (f arglist next d progr m)"
  shows "reg_ok (name, lo, hi, f, types)"
  using assms by (auto simp: reg_ok_def first_call_def)

text \<open>A function that never asks for a call.\<close>

lemma reg_ok_plain:
  assumes "name \<notin> {''move'', ''create'', ''recycle'', ''eval''}"
    and "\<And>args R progr m. machine_ok m \<Longrightarrow> admits lo hi types args \<Longrightarrow> \<forall>v \<in> set args. user_value v \<Longrightarrow>
      answer_ok R progr m (f (VList args) 1 None progr m)"
  shows "reg_ok (name, lo, hi, f, types)"
  using assms by (intro reg_okI) (auto simp: resumes_def)

lemma resumes_simps:
  "resumes ''move'' = move_resumes" "resumes ''create'' = objid_resumes" "resumes ''recycle'' = objid_resumes"
  "resumes ''eval'' = eval_resumes"
  by (simp_all add: resumes_def)

lemma move_resumes_cases:
  "move_resumes next d \<longleftrightarrow> (\<exists>what place. d = Some (BF_move what place)) \<and> (next = 2 \<or> next = 3 \<or> next = 4)"
  by (auto simp: move_resumes_def)

lemma object_functions_ok:
  fixes x :: "'w outside"
  assumes x: "outside_ok x" and r: "r \<in> set (object_functions x)"
  shows "reg_ok r"
proof -
  have r_toobj: "reg_ok (''toobj'', 1, 1, (bf_toobj :: 'w bf), [TYPE_ANY])"
    by (rule reg_ok_plain; (unfold admits_lists)?) (auto simp del: One_nat_def intro!: simple_functions_ok [OF _ x])
  have r_typeof: "reg_ok (''typeof'', 1, 1, (bf_typeof :: 'w bf), [TYPE_ANY])"
    by (rule reg_ok_plain; (unfold admits_lists)?) (auto simp del: One_nat_def intro!: simple_functions_ok [OF _ x])
  have r_create: "reg_ok (''create'', 1, 2, bf_create x, [TYPE_OBJ, TYPE_OBJ])"
    by (rule reg_okI; (unfold resumes_simps admits_lists)?; use bf_create_ok [OF _ x] in \<open>auto simp: objid_resumes_def simp del: One_nat_def\<close>)
  have r_recycle: "reg_ok (''recycle'', 1, 1, bf_recycle x, [TYPE_OBJ])"
    by (rule reg_okI; (unfold resumes_simps admits_lists)?; use bf_recycle_ok [OF _ x] in \<open>auto simp: objid_resumes_def simp del: One_nat_def\<close>)
  have r_object_bytes: "reg_ok (''object_bytes'', 1, 1, bf_object_bytes x, [TYPE_OBJ])"
    by (rule reg_ok_plain; (unfold admits_lists)?) (auto simp del: One_nat_def intro!: simple_functions_ok [OF _ x])
  have r_valid: "reg_ok (''valid'', 1, 1, (bf_valid :: 'w bf), [TYPE_OBJ])"
    by (rule reg_ok_plain; (unfold admits_lists)?) (auto simp del: One_nat_def intro!: simple_functions_ok [OF _ x])
  have r_parent: "reg_ok (''parent'', 1, 1, (bf_parent :: 'w bf), [TYPE_OBJ])"
    by (rule reg_ok_plain; (unfold admits_lists)?) (auto simp del: One_nat_def intro!: simple_functions_ok [OF _ x])
  have r_children: "reg_ok (''children'', 1, 1, (bf_children :: 'w bf), [TYPE_OBJ])"
    by (rule reg_ok_plain; (unfold admits_lists)?) (auto simp del: One_nat_def intro!: simple_functions_ok [OF _ x])
  have r_chparent: "reg_ok (''chparent'', 2, 2, (bf_chparent :: 'w bf), [TYPE_OBJ, TYPE_OBJ])"
    by (rule reg_ok_plain; (unfold admits_lists)?) (auto simp del: One_nat_def intro!: bf_chparent_ok)
  have r_max_object: "reg_ok (''max_object'', 0, 0, (bf_max_object :: 'w bf), [])"
    by (rule reg_ok_plain; (unfold admits_lists)?) (auto simp del: One_nat_def intro!: simple_functions_ok [OF _ x])
  have r_players: "reg_ok (''players'', 0, 0, (bf_players :: 'w bf), [])"
    by (rule reg_ok_plain; (unfold admits_lists)?) (auto simp del: One_nat_def intro!: simple_functions_ok [OF _ x])
  have r_is_player: "reg_ok (''is_player'', 1, 1, (bf_is_player :: 'w bf), [TYPE_OBJ])"
    by (rule reg_ok_plain; (unfold admits_lists)?) (auto simp del: One_nat_def intro!: simple_functions_ok [OF _ x])
  have r_set_player_flag: "reg_ok (''set_player_flag'', 2, 2, bf_set_player_flag x, [TYPE_OBJ, TYPE_ANY])"
    by (rule reg_ok_plain; (unfold admits_lists)?) (auto simp del: One_nat_def intro!: bf_set_player_flag_ok [where x = x])
  have r_move: "reg_ok (''move'', 2, 2, bf_move x, [TYPE_OBJ, TYPE_OBJ])"
    by (rule reg_okI; (unfold resumes_simps admits_lists)?; use do_move_ok [OF _ x] in \<open>auto simp: bf_move_def move_resumes_cases\<close>)
  show ?thesis using r r_toobj r_typeof r_create r_recycle r_object_bytes r_valid r_parent r_children
    r_chparent r_max_object r_players r_is_player r_set_player_flag r_move
    by (auto simp: object_functions_def)
qed

lemma property_functions_ok:
  fixes r :: "'w bf_reg"
  assumes r: "r \<in> set property_functions"
  shows "reg_ok r"
proof -
  have r_properties: "reg_ok (''properties'', 1, 1, (bf_properties :: 'w bf), [TYPE_OBJ])"
    by (rule reg_ok_plain; (unfold admits_lists)?) (auto simp del: One_nat_def intro!: bf_properties_ok)
  have r_property_info: "reg_ok (''property_info'', 2, 2, (bf_prop_info :: 'w bf), [TYPE_OBJ, TYPE_STR])"
    by (rule reg_ok_plain; (unfold admits_lists)?) (auto simp del: One_nat_def intro!: bf_prop_info_ok)
  have r_set_property_info: "reg_ok (''set_property_info'', 3, 3, (bf_set_prop_info :: 'w bf), [TYPE_OBJ, TYPE_STR, TYPE_LIST])"
    by (rule reg_ok_plain; (unfold admits_lists)?) (auto simp del: One_nat_def intro!: bf_set_prop_info_ok)
  have r_add_property: "reg_ok (''add_property'', 4, 4, (bf_add_prop :: 'w bf), [TYPE_OBJ, TYPE_STR, TYPE_ANY, TYPE_LIST])"
    by (rule reg_ok_plain; (unfold admits_lists)?) (auto simp del: One_nat_def intro!: bf_add_prop_ok)
  have r_delete_property: "reg_ok (''delete_property'', 2, 2, (bf_delete_prop :: 'w bf), [TYPE_OBJ, TYPE_STR])"
    by (rule reg_ok_plain; (unfold admits_lists)?) (auto simp del: One_nat_def intro!: bf_delete_prop_ok)
  have r_clear_property: "reg_ok (''clear_property'', 2, 2, (bf_clear_prop :: 'w bf), [TYPE_OBJ, TYPE_STR])"
    by (rule reg_ok_plain; (unfold admits_lists)?) (auto simp del: One_nat_def intro!: bf_clear_prop_ok)
  have r_is_clear_property: "reg_ok (''is_clear_property'', 2, 2, (bf_is_clear_prop :: 'w bf), [TYPE_OBJ, TYPE_STR])"
    by (rule reg_ok_plain; (unfold admits_lists)?) (auto simp del: One_nat_def intro!: bf_is_clear_prop_ok)
  show ?thesis using r r_properties r_property_info r_set_property_info r_add_property r_delete_property r_clear_property r_is_clear_property
    by (auto simp: property_functions_def)
qed

lemma verb_functions_ok:
  fixes x :: "'w outside"
  assumes x: "outside_ok x" and r: "r \<in> set (verb_functions x)"
  shows "reg_ok r"
proof -
  have r_verbs: "reg_ok (''verbs'', 1, 1, (bf_verbs :: 'w bf), [TYPE_OBJ])"
    by (rule reg_ok_plain; (unfold admits_lists)?) (auto simp del: One_nat_def intro!: bf_verbs_ok)
  have r_verb_info: "reg_ok (''verb_info'', 2, 2, bf_verb_info x, [TYPE_OBJ, TYPE_ANY])"
    by (rule reg_ok_plain; (unfold admits_lists)?) (auto simp del: One_nat_def intro!: verb_readers_ok(1,2) [where x = x])
  have r_set_verb_info: "reg_ok (''set_verb_info'', 3, 3, bf_set_verb_info x, [TYPE_OBJ, TYPE_ANY, TYPE_LIST])"
    by (rule reg_ok_plain; (unfold admits_lists)?) (auto simp del: One_nat_def intro!: bf_set_verb_info_ok [where x = x])
  have r_verb_args: "reg_ok (''verb_args'', 2, 2, bf_verb_args x, [TYPE_OBJ, TYPE_ANY])"
    by (rule reg_ok_plain; (unfold admits_lists)?) (auto simp del: One_nat_def intro!: verb_readers_ok(1,2) [where x = x])
  have r_set_verb_args: "reg_ok (''set_verb_args'', 3, 3, bf_set_verb_args x, [TYPE_OBJ, TYPE_ANY, TYPE_LIST])"
    by (rule reg_ok_plain; (unfold admits_lists)?) (auto simp del: One_nat_def intro!: bf_set_verb_args_ok [OF _ x])
  have r_add_verb: "reg_ok (''add_verb'', 3, 3, bf_add_verb x, [TYPE_OBJ, TYPE_LIST, TYPE_LIST])"
    by (rule reg_ok_plain; (unfold admits_lists)?) (auto simp del: One_nat_def intro!: bf_add_verb_ok [OF _ x])
  have r_delete_verb: "reg_ok (''delete_verb'', 2, 2, bf_delete_verb x, [TYPE_OBJ, TYPE_ANY])"
    by (rule reg_ok_plain; (unfold admits_lists)?) (auto simp del: One_nat_def intro!: bf_delete_verb_ok [where x = x])
  have r_verb_code: "reg_ok (''verb_code'', 2, 4, bf_verb_code x, [TYPE_OBJ, TYPE_ANY, TYPE_ANY, TYPE_ANY])"
  proof (rule reg_ok_plain)
    fix args R progr and m :: "(bf_data, 'w) vm"
    assume m: "machine_ok m" and a: "admits 2 4 [TYPE_OBJ, TYPE_ANY, TYPE_ANY, TYPE_ANY] args"
    obtain y desc where "length args \<in> {2, 3, 4}" "args ! 0 = VObj y" "args ! 1 = desc" by (rule admits_code [OF a])
    then show "answer_ok R progr m (bf_verb_code x (VList args) 1 None progr m)" by (rule verb_readers_ok(3) [OF m])
  qed simp
  have r_set_verb_code: "reg_ok (''set_verb_code'', 3, 3, bf_set_verb_code x, [TYPE_OBJ, TYPE_ANY, TYPE_LIST])"
    by (rule reg_ok_plain; (unfold admits_lists)?) (auto simp del: One_nat_def intro!: bf_set_verb_code_ok [OF _ x])
  have r_eval: "reg_ok (''eval'', 1, 1, bf_eval x, [TYPE_STR])"
    by (rule reg_okI; (unfold resumes_simps admits_lists)?; use bf_eval_ok [OF _ x] in \<open>auto simp: eval_resumes_def simp del: One_nat_def\<close>)
  show ?thesis using r r_verbs r_verb_info r_set_verb_info r_verb_args r_set_verb_args r_add_verb r_delete_verb r_verb_code
    r_set_verb_code r_eval
    by (auto simp: verb_functions_def)
qed

lemma destroy_gone: "db_destroy_object y db = Some db' \<Longrightarrow> \<not> valid db' y"
  by (auto simp: db_destroy_object_def Let_def valid_def dbpriv_find_object_def bind_eq_Some_conv
      split: option.splits if_splits)

lemma recycle_moving_packages:
  assumes "recycle_moving x y m = Some (p, m')"
  shows "case p of P_RETURN v \<Rightarrow> \<not> valid (vm_db m') y | P_CALL next d \<Rightarrow> next = 2 \<and> d = Some (BF_objid y) | _ \<Rightarrow> False"
  using assms unfolding recycle_moving_def calls_def no_value_def gives_def
  by (auto simp: bind_eq_Some_conv split: if_splits prod.splits dest: destroy_gone)

section \<open>Properties\<close>

lemma registered_ok:
  assumes "outside_ok x" "r \<in> set (object_functions x @ property_functions @ verb_functions x)"
  shows "reg_ok r"
  using assms object_functions_ok property_functions_ok verb_functions_ok unfolding set_append Un_iff by blast

text \<open>C4: a built-in function of objects.c, property.c or verbs.c, called with arguments its registration admits or
  resumed where it asked to be, always comes back, from every machine whose database satisfies its invariant: it
  never panics, never follows a bad link, never reads a value of the wrong type and never loops.  The machine it
  leaves satisfies the same conditions, and it asks for a verb to be run exactly when it has put that verb's
  activation on the stack, with data it can be resumed with; otherwise the stack is as it was.\<close>

theorem object_builtins_safe:
  assumes "machine_ok m" "outside_ok x"
    and "(name, lo, hi, f, types) \<in> set (object_functions x @ property_functions @ verb_functions x)"
    and "next = 1 \<and> d = None \<and> first_call (name, lo, hi, f, types) arglist \<or> resumes name next d"
  shows "\<exists>p m'. f arglist next d progr m = Some (p, m') \<and> db_ok (vm_db m') \<and> machine_ok m'
    \<and> (case p of
         P_RETURN v \<Rightarrow> activ_stack m' = activ_stack m
       | P_RAISE code msg v \<Rightarrow> activ_stack m' = activ_stack m
       | P_CALL next' d' \<Rightarrow> resumes name next' d' \<and> (\<exists>a. activ_stack m' = a # activ_stack m)
       | _ \<Rightarrow> False)"
proof -
  have "answer_ok (resumes name) progr m (f arglist next d progr m)"
    using registered_ok [OF assms(2,3)] assms(1,4) by (auto simp: reg_ok_def)
  then show ?thesis
    unfolding answer_ok_def after_def entered_def by (fastforce dest: machine_db split: bi_package.splits)
qed

text \<open>A machine with an empty database and one activation.\<close>

definition sample_vector :: bytecodes where
  "sample_vector = \<lparr>numbytes_label = 1, numbytes_literal = 1, numbytes_fork = 1, numbytes_var_name = 1,
     numbytes_stack = 1, bc_vector = [], bc_max_stack = 1\<rparr>"

definition sample_program :: program where
  "sample_program = \<lparr>pr_version = DBV_Float, pr_first_lineno = 1, main_vector = sample_vector, pr_literals = [],
     fork_vectors = [], var_names = replicate 18 []\<rparr>"

definition sample_services :: "(bf_data, unit) services" where
  "sample_services = \<lparr>s_call_bi_func = (\<lambda>n args pc progr d m. None), s_suspend = (\<lambda>d m. (E_NONE, m)),
     s_enqueue_forked = (\<lambda>a pc id secs m. (E_NONE, m)), s_find_line_number = (\<lambda>p v pc. 1),
     s_name_func_by_num = (\<lambda>n. []), s_null_program = sample_program, s_pow = (\<lambda>a b. (a, False))\<rparr>"

definition sample_outside :: "unit outside" where
  "sample_outside = \<lparr>x_services = sample_services, x_raw_object = blank_object, x_boot_player = (\<lambda>y w. w),
     x_program_bytes = (\<lambda>p. 0), x_flag_option = (\<lambda>db s. False), x_prep_table = [],
     x_parse_list = (\<lambda>texts. (Some sample_program, VList [])), x_unparse_program = (\<lambda>p a b. [])\<rparr>"

definition sample_machine :: "(bf_data, unit) vm" where
  "sample_machine = \<lparr>activ_stack = [new_activation sample_program sample_vector (replicate 18 VNone) 0 0 0 0 [] [] True],
     max_stack_size = 50, root_activ_vector = MAIN_VECTOR, ticks_remaining = 100, task_timed_out = False,
     handler_info = None, vm_db = empty_db, vm_world = (), vm_mode = Executing\<rparr>"

lemma sample_machine_ok: "machine_ok sample_machine" "outside_ok sample_outside"
proof -
  have "verbs_ok empty_db" by (simp add: verbs_ok_def empty_db_def dbpriv_find_object_def)
  then show "machine_ok sample_machine"
    by (simp add: machine_ok_def sound_def sample_machine_def empty_db_ok new_activation_def slot_defs)
qed (auto simp: outside_ok_def sample_outside_def sample_services_def sample_program_def program_ok_def slot_defs)

lemma create_call: "first_call (''create'', 1, 2, bf_create x, [TYPE_OBJ, TYPE_OBJ]) (VList [VObj (-1)])"
  by (simp add: first_call_def admits_def)

theorem object_builtins_safe_witness:
  "\<exists>p m'. bf_create sample_outside (VList [VObj (-1)]) 1 None 0 sample_machine = Some (p, m') \<and> db_ok (vm_db m')"
  using object_builtins_safe [OF sample_machine_ok, of "''create''" 1 2 "bf_create sample_outside" "[TYPE_OBJ, TYPE_OBJ]"
      1 None "VList [VObj (-1)]" 0] create_call [of sample_outside]
  by (auto simp: object_functions_def)

text \<open>C5: no answer of these functions gives anyone the player, programmer or wizard flag on behalf of
  a programmer who is not a wizard: what a call leaves has no more of these flags than what it found, whatever
  objects, owners, parents and permissions the arguments name.\<close>

theorem object_builtins_give_no_power:
  assumes "machine_ok m" "outside_ok x" "\<not> is_wizard (vm_db m) progr"
    and "(name, lo, hi, f, types) \<in> set (object_functions x @ property_functions @ verb_functions x)"
    and "next = 1 \<and> d = None \<and> first_call (name, lo, hi, f, types) arglist \<or> resumes name next d"
    and "f arglist next d progr m = Some (p, m')" "flag \<in> {FLAG_USER, FLAG_PROGRAMMER, FLAG_WIZARD}"
  shows "valid_with flag (vm_db m') y \<Longrightarrow> valid_with flag (vm_db m) y"
proof -
  have "answer_ok (resumes name) progr m (f arglist next d progr m)"
    using registered_ok [OF assms(2,4)] assms(1,5) by (auto simp: reg_ok_def)
  then have "no_gain progr (vm_db m) (vm_db m')"
    using assms(6) by (auto simp: answer_ok_def after_def entered_def split: bi_package.splits)
  then show "valid_with flag (vm_db m') y \<Longrightarrow> valid_with flag (vm_db m) y"
    using assms(3,7) unfolding no_gain_def powers_def by blast
qed

lemma sample_no_flags: "\<not> valid_with flag (vm_db sample_machine) y"
  by (simp add: valid_with_def sample_machine_def empty_db_def dbpriv_find_object_def)

theorem object_builtins_give_no_power_witness:
  "\<exists>p m'. bf_create sample_outside (VList [VObj (-1)]) 1 None 0 sample_machine = Some (p, m')
     \<and> \<not> valid_with FLAG_WIZARD (vm_db m') 0"
proof -
  have r: "(''create'', 1, 2, bf_create sample_outside, [TYPE_OBJ, TYPE_OBJ])
      \<in> set (object_functions sample_outside @ property_functions @ verb_functions sample_outside)"
    by (simp add: object_functions_def)
  have w: "\<not> is_wizard (vm_db sample_machine) 0" using sample_no_flags by (simp add: is_wizard_def)
  have "reg_ok (''create'', 1, 2, bf_create sample_outside, [TYPE_OBJ, TYPE_OBJ])"
    by (rule registered_ok [OF sample_machine_ok(2) r])
  then have "answer_ok (resumes ''create'') 0 sample_machine
      (bf_create sample_outside (VList [VObj (-1)]) 1 None 0 sample_machine)"
    using sample_machine_ok(1) create_call [of sample_outside] by (auto simp: reg_ok_def)
  then obtain p m' where c: "bf_create sample_outside (VList [VObj (-1)]) 1 None 0 sample_machine = Some (p, m')"
    by (auto simp: answer_ok_def)
  have "\<not> valid_with FLAG_WIZARD (vm_db m') 0"
    using object_builtins_give_no_power [OF sample_machine_ok w r _ c, of FLAG_WIZARD 0]
      create_call [of sample_outside] sample_no_flags by auto
  then show ?thesis using c by blast
qed

text \<open>C36: the demolition of \<^verbatim>\<open>recycle\<close> always comes to an end of its turn: either it has entered a verb
  \<^verbatim>\<open>exitfunc\<close>, after which it will be resumed on the same object, or the object is gone.  No other outcome is
  possible, for any contents and children, since the children can always be given to the object's parent.\<close>

theorem recycle_finishes:
  assumes "machine_ok m" "outside_ok x"
  shows "\<exists>p m'. bf_recycle x arglist 2 (Some (BF_objid y)) progr m = Some (p, m')
    \<and> (case p of
         P_RETURN v \<Rightarrow> \<not> valid (vm_db m') y
       | P_CALL next d \<Rightarrow> next = 2 \<and> d = Some (BF_objid y) \<and> (\<exists>a. activ_stack m' = a # activ_stack m)
       | _ \<Rightarrow> False)"
proof -
  obtain p m' where r: "recycle_moving x y m = Some (p, m')" "case p of P_CALL next d \<Rightarrow> \<exists>a. activ_stack m' = a # activ_stack m | _ \<Rightarrow> True"
  proof -
    obtain p m' where a: "recycle_moving x y m = Some (p, m')"
        "case p of P_RETURN v \<Rightarrow> after progr m m' | P_RAISE code msg v \<Rightarrow> after progr m m'
         | P_CALL next d \<Rightarrow> entered progr m m' \<and> objid_resumes next d | _ \<Rightarrow> False"
      using recycle_moving_ok [OF assms, of progr y] unfolding answer_ok_def by blast
    show thesis by (rule that [OF a(1)]) (use a(2) in \<open>auto simp: entered_def split: bi_package.splits\<close>)
  qed
  have "case p of P_RETURN v \<Rightarrow> \<not> valid (vm_db m') y | P_CALL next d \<Rightarrow> next = 2 \<and> d = Some (BF_objid y) | _ \<Rightarrow> False"
    using r(1) by (rule recycle_moving_packages)
  then show ?thesis using r by (intro exI [of _ p] exI [of _ m']) (simp add: bf_recycle_def split: bi_package.splits)
qed

theorem recycle_finishes_witness:
  "\<exists>p m'. bf_recycle sample_outside (VInt 0) 2 (Some (BF_objid 0)) 0 sample_machine = Some (p, m')"
  using recycle_finishes [OF sample_machine_ok, of "VInt 0" 0 0] by blast

end
