(* ===== verification/Spec2Isabelle.thy ===== *)
theory Spec2Isabelle
  imports SimRun BifCorrect
begin

text \<open>
  A verification development of the Waverous MOO server (src/server, C): an object-oriented, programmable
  multi-user server.  Players' programs are compiled to byte code, run by an interpreter against a database of
  objects in memory, and call built-in functions written in C.

  \<^bold>\<open>Parts and how they interact.\<close>
  A value (\<^verbatim>\<open>Var\<close>, structures.h) is an integer, an object number, an error, a string, a float or a list.
  \<^item> Values and text: Prelude, Doubles and Values hold the machine types and \<^verbatim>\<open>Var\<close>; Streams models
    streams.c; Utils models utils.c; Lists and ListFuncs model list.c; Literals the printing of values; Patterns
    the use of regular expressions in list.c and pattern.c; Md5 models md5.c; Numbers models numbers.c.
  \<^item> Built-in functions: BiFuncs models the table and the dispatch of functions.c, Builtins the registrations
    of list.c and numbers.c, ObjectBifs and PropVerbBifs those of objects.c, property.c and verbs.c.
  \<^item> The database: DbObjects, DbProperties, DbHierarchy and DbVerbs model db_objects.c, db_properties.c and
    db_verbs.c; ParseWords and ParseCmd model parse_cmd.c, match.c and quota.c.
  \<^item> Programs: Ast and EvalEnv model ast.h, opcode.h, program.h, sym_table.c and eval_env.c; CodeGen models
    code_gen.c; Vm and VmRun model execute.c.
  A command line is split and matched against the database (ParseCmd), the verb found there is run by the
  interpreter (VmRun), which reads and changes the database through the operations of the Db theories and calls
  built-in functions, which answer with a package (\<^verbatim>\<open>package\<close> in execute.h) and may in turn ask for verbs.

  \<^bold>\<open>Conventions.\<close>
  \<^verbatim>\<open>int\<close> and \<^verbatim>\<open>unsigned\<close> are 32-bit words; an object number is such a word.  A panic, a read of the wrong
  union member, an access outside a block, an undefined operation of C, and a loop that would not come back are
  all \<open>None\<close> (or \<open>Crash\<close> in the list and number functions), so that a theorem of the form \<open>f x = Some y\<close> says
  that none of them happens.  Pointers into tables are positions; reference counts are not visible on immutable
  values.  The names of definitions are those of the C functions; a loop of a function is a definition of its own.

  \<^bold>\<open>Groups of lemmas.\<close>
  \<^item> Text and lists: what each routine computes, in the theory of the routine; buffers are never left
    (Streams, ParseWords), encodings read back (ListFuncs, Numbers), optimised routines agree with plain readings
    of them (Utils, ParseWords, Md5).
  \<^item> Built-ins: a locale in Builtins states what the dispatcher promises a function and what the function has
    to promise; every registered function of list.c and numbers.c is shown to keep the contract.  The functions of objects.c,
    property.c and verbs.c work on the whole machine: BifSafety says what they must leave behind (the invariant of
    the database, verbs that can be printed and run, no new power), ObjectSafety and PropVerbSafety show it of each
    function, and BifCorrect of every registration and resumption.
  \<^item> Database: DbForest states the laws of one hierarchy as a locale and interprets it for parents and for
    locations; DbSlots and DbChparent show how the inherited slots are laid out; VerbCache that the cache tells the
    truth; DbInvariant puts them together, and DbCorrect has the properties for the callers.
  \<^item> Compiler and machine: CodeLayout, CodeFrame, CodeShape, CodeExpr, CodeAssign and CodeFinish show that the
    generator returns on every well-formed expression and what code it leaves.  Denote says what an expression
    means.  SimBase, SimCode, SimValues, SimSteps, SimOps, SimCatch, SimStore, SimAssign and SimRun show by
    induction on the expression that the machine of VmRun, on the code of CodeGen, does what Denote says, raised
    errors and catching expressions included.

  \<^bold>\<open>Bounds and fuel.\<close>
  Loops that follow the links of the database (ancestors, contents, children) get as many rounds as there are
  objects; on a database that satisfies the invariant no line and no list is longer, which is shown.  The
  loops of the interpreter (unwinding, the run of a task) get fuel in their model; the theorems on whole tasks state
  that an amount of fuel exists with which the task ends.  Printing and conversions use the widths of the C types.
  The theorems on the database assume fewer than \<^verbatim>\<open>INT_MAX\<close> objects, those on the compiler a program of less than
  4 GB and fewer than 256 slots, as the operands of the code do.

  \<^bold>\<open>Parameters.\<close>
  The regular-expression package (regexpr.c), the functions of the C library on floats, memory fresh from
  \<^verbatim>\<open>malloc\<close>, the parser (a yacc grammar), the printer of programs, connections (\<^verbatim>\<open>boot_player\<close>) and the server's
  options are arguments of the definitions that use them.

  \<^bold>\<open>Not modelled.\<close>
  Input and output: the network layer, the main loop and its signals, logging, database files.  The queues of tasks
  and the timers around them.  The decompiler and the printers of programs.  Optional extension packages.  The
  routines that write and read suspended machines.  Statements other than \<^verbatim>\<open>return\<close> are generated and run by the
  model, but the simulation of SimRun covers expressions.
\<close>

end
